(* ===== verification/Prelude.thy ===== *)
theory Prelude
  imports Main "HOL-Library.Word"
begin

text \<open>
  The shared vocabulary of the development: machine integers, instants and
  durations, the operations of Rust's \<open>str\<close> that the modelled code calls
  (\<open>split\<close>, \<open>split_once\<close>, \<open>strip_prefix\<close>, \<open>to_ascii_uppercase\<close>,
  \<open>parse::<u64>\<close>, \<dots>), and the generic lemmas on lists and strings that
  the component theories rest on.  Three named collections carry the automation:
  \<open>str_defs\<close> (definitions of the string operations), \<open>dispatch_simps\<close>
  (what each step of the sink dispatcher writes and keeps) and \<open>rpc_defs\<close> (the
  path tables of the cloud RPC contract).
\<close>

named_theorems str_defs
named_theorems dispatch_simps
named_theorems rpc_defs

section \<open>Numbers and time\<close>

type_synonym u32 = "32 word"
type_synonym u64 = "64 word"

text \<open>
  Instants are nanoseconds since the Unix epoch (the resolution of \<open>chrono\<close>'s
  \<open>DateTime<Utc>\<close>), \<open>std::time::Duration\<close> is a natural number of
  nanoseconds.  \<open>chrono\<close>'s signed durations are differences of instants.
\<close>

type_synonym instant = int
type_synonym duration = nat

definition secs :: "int \<Rightarrow> int" where
  "secs n = n * 1000000000"

definition millis :: "int \<Rightarrow> int" where
  "millis n = n * 1000000"

definition max_i64 :: int where
  "max_i64 = 9223372036854775807"

definition min_i64 :: int where
  "min_i64 = - 9223372036854775808"

text \<open>Saturating arithmetic as in Rust's \<open>saturating_add\<close>, \<open>saturating_sub\<close>
  and \<open>saturating_mul\<close>.\<close>

definition sat_add_i64 :: "int \<Rightarrow> int \<Rightarrow> int" where
  "sat_add_i64 a b = max min_i64 (min max_i64 (a + b))"

definition sat_sub_i64 :: "int \<Rightarrow> int \<Rightarrow> int" where
  "sat_sub_i64 a b = max min_i64 (min max_i64 (a - b))"

definition sat_add_word :: "'a::len word \<Rightarrow> 'a word \<Rightarrow> 'a word" where
  "sat_add_word a b = (if unat a + unat b < 2 ^ LENGTH('a) then a + b else - 1)"

definition sat_sub_word :: "'a::len word \<Rightarrow> 'a word \<Rightarrow> 'a word" where
  "sat_sub_word a b = (if a \<le> b then 0 else a - b)"

definition sat_mul_word :: "'a::len word \<Rightarrow> 'a word \<Rightarrow> 'a word" where
  "sat_mul_word a b = (if unat a * unat b < 2 ^ LENGTH('a) then a * b else - 1)"

lemma unat_sat_sub_word: "unat (sat_sub_word a b) = unat a - unat b"
  by (simp add: sat_sub_word_def unat_sub word_le_nat_alt)

lemma unat_sat_add_word:
  fixes a b :: "'a::len word"
  shows "unat (sat_add_word a b) = min (unat a + unat b) (2 ^ LENGTH('a) - 1)"
  by (auto simp: sat_add_word_def unat_word_ariths unsigned_minus_1_eq_mask mask_eq_exp_minus_1)

lemma unat_sat_mul_word:
  fixes a b :: "'a::len word"
  shows "unat (sat_mul_word a b) = min (unat a * unat b) (2 ^ LENGTH('a) - 1)"
  by (auto simp: sat_mul_word_def unat_word_ariths unsigned_minus_1_eq_mask mask_eq_exp_minus_1)

section \<open>Strings\<close>

definition str_contains :: "char \<Rightarrow> string \<Rightarrow> bool" where
  [str_defs]: "str_contains c s = (c \<in> set s)"

definition starts_with :: "string \<Rightarrow> string \<Rightarrow> bool" where
  [str_defs]: "starts_with p s = (take (length p) s = p)"

definition strip_prefix :: "string \<Rightarrow> string \<Rightarrow> string option" where
  [str_defs]: "strip_prefix p s = (if starts_with p s then Some (drop (length p) s) else None)"

definition strip_suffix :: "string \<Rightarrow> string \<Rightarrow> string option" where
  [str_defs]: "strip_suffix p s =
     (if length p \<le> length s \<and> drop (length s - length p) s = p
      then Some (take (length s - length p) s) else None)"

fun contains_sub :: "string \<Rightarrow> string \<Rightarrow> bool" where
  "contains_sub p [] = (p = [])"
| "contains_sub p (c # s) = (starts_with p (c # s) \<or> contains_sub p s)"

text \<open>\<open>str::split(c)\<close>: always at least one piece.\<close>

fun split_on :: "char \<Rightarrow> string \<Rightarrow> string list" where
  "split_on c [] = [[]]"
| "split_on c (x # xs) =
     (if x = c then [] # split_on c xs
      else (case split_on c xs of [] \<Rightarrow> [[x]] | p # ps \<Rightarrow> (x # p) # ps))"

text \<open>\<open>str::split_once(c)\<close>: at the first occurrence.\<close>

fun split_once :: "char \<Rightarrow> string \<Rightarrow> (string \<times> string) option" where
  "split_once c [] = None"
| "split_once c (x # xs) =
     (if x = c then Some ([], xs)
      else map_option (\<lambda>(a, b). (x # a, b)) (split_once c xs))"

definition ascii_upper_char :: "char \<Rightarrow> char" where
  [str_defs]: "ascii_upper_char c =
     (let n = (of_char c :: nat) in if 97 \<le> n \<and> n \<le> 122 then char_of (n - 32) else c)"

definition to_ascii_uppercase :: "string \<Rightarrow> string" where
  [str_defs]: "to_ascii_uppercase s = map ascii_upper_char s"

definition is_digit :: "char \<Rightarrow> bool" where
  [str_defs]: "is_digit c = (48 \<le> (of_char c :: nat) \<and> (of_char c :: nat) \<le> 57)"

definition digits_value :: "string \<Rightarrow> nat" where
  [str_defs]: "digits_value s = foldl (\<lambda>n c. 10 * n + (of_char c - 48)) 0 s"

text \<open>\<open>str::parse::<u64>\<close>: one optional \<open>+\<close>, at least one decimal digit,
  no overflow.\<close>

definition parse_u64 :: "string \<Rightarrow> nat option" where
  [str_defs]: "parse_u64 s =
     (let d = (case s of [] \<Rightarrow> [] | c # cs \<Rightarrow> if c = CHR ''+'' then cs else s)
      in if d \<noteq> [] \<and> list_all is_digit d \<and> digits_value d < 2 ^ 64
         then Some (digits_value d) else None)"

text \<open>\<open>str::parse::<i64>\<close>: one optional sign, at least one decimal digit, in range.\<close>

definition parse_i64 :: "string \<Rightarrow> int option" where
  "parse_i64 s =
     (let (neg, d) = (case s of
            [] \<Rightarrow> (False, [])
          | c # cs \<Rightarrow> if c = CHR ''-'' then (True, cs) else if c = CHR ''+'' then (False, cs) else (False, s));
          v = (if neg then - int (digits_value d) else int (digits_value d))
      in if d \<noteq> [] \<and> list_all is_digit d \<and> min_i64 \<le> v \<and> v \<le> max_i64 then Some v else None)"

text \<open>\<open>str::trim\<close> and \<open>str::to_lowercase\<close>, on ASCII text.\<close>

definition is_whitespace :: "char \<Rightarrow> bool" where
  [str_defs]: "is_whitespace c = (let n = (of_char c :: nat) in 9 \<le> n \<and> n \<le> 13 \<or> n = 32)"

definition trim_str :: "string \<Rightarrow> string" where
  [str_defs]: "trim_str s = rev (dropWhile is_whitespace (rev (dropWhile is_whitespace s)))"

definition ascii_lower_char :: "char \<Rightarrow> char" where
  [str_defs]: "ascii_lower_char c =
     (let n = (of_char c :: nat) in if 65 \<le> n \<and> n \<le> 90 then char_of (n + 32) else c)"

definition to_ascii_lowercase :: "string \<Rightarrow> string" where
  [str_defs]: "to_ascii_lowercase s = map ascii_lower_char s"

text \<open>Decimal rendering of integers, as \<open>format!("{n}")\<close> prints them.\<close>

fun dec_nat :: "nat \<Rightarrow> string" where
  "dec_nat n = (if n < 10 then [char_of (48 + n)] else dec_nat (n div 10) @ [char_of (48 + n mod 10)])"

declare dec_nat.simps [simp del]

definition dec_int :: "int \<Rightarrow> string" where
  [str_defs]: "dec_int i = (if i < 0 then CHR ''-'' # dec_nat (nat (- i)) else dec_nat (nat i))"

text \<open>
  \<open>format!("{s:?}")\<close> of an ASCII string: quoted, with the escapes of
  \<open>char::escape_debug\<close>.
\<close>

definition hex_digit :: "nat \<Rightarrow> char" where
  "hex_digit n = (if n < 10 then char_of (48 + n) else char_of (87 + n))"

definition escape_debug :: "char \<Rightarrow> string" where
  "escape_debug c =
     (let n = (of_char c :: nat) in
      if n = 34 \<or> n = 92 then [char_of (92 :: nat), c]
      else if n = 0 then [char_of (92 :: nat), CHR ''0'']
      else if n = 9 then [char_of (92 :: nat), CHR ''t'']
      else if n = 10 then [char_of (92 :: nat), CHR ''n'']
      else if n = 13 then [char_of (92 :: nat), CHR ''r'']
      else if n < 16 then [char_of (92 :: nat)] @ ''u{'' @ [hex_digit n] @ ''}''
      else if n < 32 \<or> n = 127
        then [char_of (92 :: nat)] @ ''u{'' @ [hex_digit (n div 16), hex_digit (n mod 16)] @ ''}''
      else [c])"

definition debug_str :: "string \<Rightarrow> string" where
  "debug_str s = [char_of (34 :: nat)] @ concat (map escape_debug s) @ [char_of (34 :: nat)]"

text \<open>\<open>Path::join\<close> on Unix paths: an absolute right side replaces the left.\<close>

definition path_join :: "string \<Rightarrow> string \<Rightarrow> string" where
  [str_defs]: "path_join d r =
     (if starts_with ''/'' r \<or> d = [] then r
      else if last d = CHR ''/'' then d @ r else d @ ''/'' @ r)"

lemma split_on_nonempty [simp]: "split_on c s \<noteq> []"
  by (induction s) (auto split: list.splits)

lemma split_once_Some_iff:
  "split_once c s = Some (a, b) \<longleftrightarrow> s = a @ c # b \<and> c \<notin> set a"
proof (induction s arbitrary: a)
  case Nil
  then show ?case by simp
next
  case (Cons x s)
  show ?case
  proof (cases a)
    case Nil
    then show ?thesis by (auto split: option.splits)
  next
    case (Cons y ys)
    then show ?thesis using Cons.IH [of ys] by auto
  qed
qed

lemma split_once_None_iff: "split_once c s = None \<longleftrightarrow> c \<notin> set s"
  by (induction s) auto

lemma starts_with_iff: "starts_with p s \<longleftrightarrow> (\<exists>r. s = p @ r)"
  by (metis append_eq_conv_conj append_take_drop_id starts_with_def)

lemma strip_prefix_Some_iff: "strip_prefix p s = Some r \<longleftrightarrow> s = p @ r"
  by (auto simp: strip_prefix_def starts_with_def)
     (metis append_take_drop_id)

lemma strip_prefix_case_in:
  "(case strip_prefix p s of None \<Rightarrow> False | Some r \<Rightarrow> r \<in> A) \<longleftrightarrow> s \<in> (\<lambda>r. p @ r) ` A"
proof (cases "strip_prefix p s")
  case None
  then have "s \<noteq> p @ r" for r by (metis strip_prefix_Some_iff option.distinct(1))
  with None show ?thesis by auto
next
  case (Some r)
  then have "s = p @ r" by (simp add: strip_prefix_Some_iff)
  with Some show ?thesis by auto
qed

lemma split_on_no_sep: "c \<notin> set s \<Longrightarrow> split_on c s = [s]"
  by (induction s) auto

lemma split_on_append: "split_on c (a @ c # b) = split_on c a @ split_on c b"
  by (induction a) (auto split: list.splits simp: neq_Nil_conv)

lemma split_on_pieces: "p \<in> set (split_on c s) \<Longrightarrow> c \<notin> set p"
  by (induction s arbitrary: p) (auto split: list.splits if_splits)

lemma digit_char:
  assumes "m < 10"
  shows "of_char (char_of (48 + m) :: char) = 48 + (m :: nat)" "is_digit (char_of (48 + m))"
proof -
  have "(48 + m) mod 256 = 48 + m" using assms by simp
  then show "of_char (char_of (48 + m) :: char) = 48 + m" by (simp only: of_char_of)
  then show "is_digit (char_of (48 + m))" using assms by (simp add: is_digit_def)
qed

lemma dec_nat_props:
  "dec_nat n \<noteq> [] \<and> list_all is_digit (dec_nat n) \<and> digits_value (dec_nat n) = n"
proof (induction n rule: dec_nat.induct)
  case (1 n)
  show ?case
  proof (cases "n < 10")
    case True
    then show ?thesis
      by (simp add: dec_nat.simps [of n] digit_char digits_value_def)
  next
    case False
    then have IH: "list_all is_digit (dec_nat (n div 10))" "digits_value (dec_nat (n div 10)) = n div 10"
      using 1 by auto
    have eq: "dec_nat n = dec_nat (n div 10) @ [char_of (48 + n mod 10)]"
      using False by (simp add: dec_nat.simps [of n])
    have "digits_value (dec_nat n) = 10 * (n div 10) + n mod 10"
      using IH(2) digit_char [of "n mod 10"] by (simp add: eq digits_value_def)
    then show ?thesis using IH(1) digit_char [of "n mod 10"] by (simp add: eq)
  qed
qed

lemma parse_i64_dec_int:
  assumes "min_i64 \<le> i" "i \<le> max_i64"
  shows "parse_i64 (dec_int i) = Some i"
proof (cases "i < 0")
  case True
  then have "digits_value (dec_nat (nat (- i))) = nat (- i)" using dec_nat_props by blast
  then show ?thesis
    using True assms dec_nat_props [of "nat (- i)"] by (simp add: parse_i64_def dec_int_def)
next
  case False
  obtain c cs where c: "dec_nat (nat i) = c # cs" using dec_nat_props [of "nat i"] by (cases "dec_nat (nat i)") auto
  then have "is_digit c" using dec_nat_props [of "nat i"] by simp
  then have "c \<noteq> CHR ''-''" "c \<noteq> CHR ''+''" by (auto simp: is_digit_def)
  moreover have "digits_value (c # cs) = nat i" "list_all is_digit (c # cs)"
    using dec_nat_props [of "nat i"] by (simp_all add: c)
  ultimately show ?thesis
    using False assms by (simp add: parse_i64_def dec_int_def c)
qed

section \<open>Runs of a store\<close>

text \<open>The contract of a store whose every operation keeps an invariant: so does every
  run of operations.\<close>

locale preserved =
  fixes exec :: "'op \<Rightarrow> 's \<Rightarrow> 's" and inv :: "'s \<Rightarrow> bool"
  assumes keeps: "inv s \<Longrightarrow> inv (exec op s)"
begin

lemma run_keeps: "inv s \<Longrightarrow> inv (fold exec ops s)"
  by (induction ops arbitrary: s) (simp_all add: keeps)

end

text \<open>An invariant of a step relation holds in every state reached.\<close>

locale step_inv =
  fixes stp :: "'s \<Rightarrow> 's \<Rightarrow> bool" and inv :: "'s \<Rightarrow> bool"
  assumes step_keeps: "stp s t \<Longrightarrow> inv s \<Longrightarrow> inv t"
begin

lemma reach_keeps: "stp\<^sup>*\<^sup>* s t \<Longrightarrow> inv s \<Longrightarrow> inv t"
  by (induction rule: rtranclp_induct) (auto dest: step_keeps)

end

end
