(* ===== verification/Backoff.thy ===== *)
theory Backoff
  imports Prelude
begin

text \<open>
  \<open>crates/nexus-sinks/src/backoff.rs\<close>: the exponential retry schedule of the
  alert-sink dispatcher.  The arithmetic is kept at the widths of the source
  (\<open>u32\<close> attempts, \<open>u64\<close> milliseconds, a shift capped at 63 and a
  saturating product); the lemmas show the closed form the documentation states,
  that no wrap-around is visible, and the bounds of the default schedule.
\<close>

section \<open>Definitions\<close>

definition BASE :: duration where
  "BASE = 500 * 1000000"

definition CAP :: duration where
  "CAP = 60 * 1000000000"

definition MAX_ATTEMPTS :: u32 where
  "MAX_ATTEMPTS = 8"

definition backoff_for_with :: "u32 \<Rightarrow> duration \<Rightarrow> duration \<Rightarrow> u32 \<Rightarrow> duration option" where
  "backoff_for_with attempts base cap max_attempts =
     (if max_attempts \<le> attempts then None
      else
        let exp = sat_sub_word attempts 1;
            base_ms = (of_nat (base div 1000000) :: u64);
            shift = min exp 63;
            raw_ms = sat_mul_word base_ms (push_bit (unat shift) 1);
            raw = unat raw_ms * 1000000
        in Some (min raw cap))"

definition backoff_for :: "u32 \<Rightarrow> duration option" where
  "backoff_for attempts = backoff_for_with attempts BASE CAP MAX_ATTEMPTS"

section \<open>Lemmas\<close>

lemma unat_pow2_shift: "n < 64 \<Longrightarrow> unat (push_bit n (1 :: u64)) = 2 ^ n"
proof -
  assume "n < 64"
  then have "(2::nat) ^ n < 2 ^ 64" by (intro power_strict_increasing) auto
  then have "unat (of_nat (2 ^ n) :: u64) = 2 ^ n"
    by (simp only: unat_of_nat) simp
  then show ?thesis by (simp add: push_bit_eq_mult)
qed

lemma unat_min_word: "unat (min a b) = min (unat a) (unat (b :: 'a::len word))"
  by (auto simp: min_def word_le_nat_alt)

lemma backoff_exhausted: "backoff_for_with a base cap m = None \<longleftrightarrow> m \<le> a"
  by (simp add: backoff_for_with_def Let_def)

lemma backoff_le_cap: "backoff_for_with a base cap m = Some d \<Longrightarrow> d \<le> cap"
  by (auto simp: backoff_for_with_def Let_def split: if_splits)

lemma raw_ms_value:
  assumes "bm < 2 ^ 64"
  shows "unat (sat_mul_word (of_nat bm :: u64) (push_bit (unat (min e (63 :: u32))) 1))
       = min (bm * 2 ^ min (unat e) 63) (2 ^ 64 - 1)"
proof -
  have "unat (min e (63 :: u32)) = min (unat e) 63"
    by (simp add: unat_min_word)
  moreover have "unat (of_nat bm :: u64) = bm"
    using assms by (simp add: unat_of_nat)
  moreover have "unat (push_bit (min (unat e) 63) (1 :: u64)) = 2 ^ min (unat e) 63"
    by (rule unat_pow2_shift) simp
  ultimately show ?thesis by (simp add: unat_sat_mul_word)
qed

lemma min_mult_distrib_right: "min x y * m = min (x * m) (y * (m :: nat))"
  by (simp add: min_def)

lemma min_saturation_hidden:
  fixes x y c M :: nat
  assumes "x = y \<or> (c \<le> x \<and> c \<le> y)" "c \<le> M"
  shows "min (min x M) c = min y c"
  using assms by auto

lemma shift_cap_hidden:
  fixes b c e :: nat
  assumes "c \<le> 2 ^ 63"
  shows "b * 2 ^ min e 63 = b * 2 ^ e \<or> (c \<le> b * 2 ^ min e 63 \<and> c \<le> b * 2 ^ e)"
proof (cases "e \<le> 63 \<or> b = 0")
  case True
  then show ?thesis by auto
next
  case False
  then have "b \<ge> 1" "e > 63" by auto
  then have "(2::nat) ^ 63 \<le> 2 ^ e" by (intro power_increasing) auto
  then have "(2::nat) ^ 63 \<le> b * 2 ^ 63" "(2::nat) ^ 63 \<le> b * 2 ^ e"
    using \<open>b \<ge> 1\<close> mult_le_mono [of 1 b "2 ^ 63" "2 ^ e"] by auto
  with assms \<open>e > 63\<close> show ?thesis by auto
qed

text \<open>
  The retry delay is exactly \<open>min(base * 2^(attempts-1), cap)\<close> (in whole
  milliseconds of \<open>base\<close>) while attempts remain, and \<open>None\<close> once they are
  spent: neither the 63-bit cap on the shift nor the saturating 64-bit product nor
  the \<open>as u64\<close> truncation is ever visible, for every base below \<open>2^64\<close> ms and
  every cap up to \<open>2^63\<close> ms.
\<close>

lemma backoff_closed_form:
  assumes "base div 1000000 < 2 ^ 64" and "cap \<le> 2 ^ 63 * 1000000"
  shows "backoff_for_with attempts base cap max_attempts =
    (if max_attempts \<le> attempts then None
     else Some (min ((base div 1000000) * 2 ^ (unat attempts - 1) * 1000000) cap))"
proof -
  let ?bm = "base div 1000000" and ?e = "unat attempts - 1" and ?m = "1000000 :: nat"
  have e: "unat (sat_sub_word attempts 1) = ?e"
    by (simp add: unat_sat_sub_word)
  have "(?bm * 2 ^ min ?e 63) * ?m = (?bm * 2 ^ ?e) * ?m
      \<or> cap \<le> (?bm * 2 ^ min ?e 63) * ?m \<and> cap \<le> (?bm * 2 ^ ?e) * ?m"
  proof (cases "?bm * 2 ^ min ?e 63 = ?bm * 2 ^ ?e")
    case False
    then have "2 ^ 63 \<le> ?bm * 2 ^ min ?e 63" "2 ^ 63 \<le> ?bm * 2 ^ ?e"
      using shift_cap_hidden [of "2 ^ 63" ?bm ?e] by auto
    then have "2 ^ 63 * ?m \<le> (?bm * 2 ^ min ?e 63) * ?m" "2 ^ 63 * ?m \<le> (?bm * 2 ^ ?e) * ?m"
      by (blast intro: mult_le_mono1)+
    with assms(2) show ?thesis by (auto intro: order_trans)
  qed simp
  then have "min (min ((?bm * 2 ^ min ?e 63) * ?m) ((2 ^ 64 - 1) * ?m)) cap
      = min (?bm * 2 ^ ?e * ?m) cap"
    by (rule min_saturation_hidden) (rule order_trans [OF assms(2)], simp)
  then have "min (min (?bm * 2 ^ min ?e 63) (2 ^ 64 - 1) * ?m) cap = min (?bm * 2 ^ ?e * ?m) cap"
    by (simp only: min_mult_distrib_right)
  then show ?thesis
    unfolding backoff_for_with_def Let_def raw_ms_value [OF assms(1)] e by simp
qed

text \<open>
  The default schedule: 500 ms doubling per attempt, never above a minute, and the
  eighth failure is the last.
\<close>

lemma backoff_for_eq:
  "backoff_for a = (if 8 \<le> unat a then None else Some (500000000 * 2 ^ (unat a - 1)))"
proof -
  have "backoff_for a = (if 8 \<le> unat a then None
      else Some (min (500 * 2 ^ (unat a - 1) * 1000000) (60 * 1000000000)))"
    by (simp add: backoff_for_def BASE_def CAP_def MAX_ATTEMPTS_def word_le_nat_alt
        backoff_closed_form)
  moreover have "500 * 2 ^ (unat a - 1) * 1000000 \<le> (60 * 1000000000 :: nat)" if "unat a < 8"
  proof -
    have "(2::nat) ^ (unat a - 1) \<le> 2 ^ 6" using that by (intro power_increasing) auto
    then show ?thesis by simp
  qed
  ultimately show ?thesis by (auto simp: min_def)
qed

lemma backoff_for_None: "backoff_for a = None \<longleftrightarrow> 8 \<le> unat a"
  by (simp add: backoff_for_eq)

end
