(* ===== verification/Outbox.thy ===== *)
theory Outbox
  imports Prelude "HOL-Library.List_Lexorder" "HOL-Library.Char_ord"
begin

text \<open>
  The durable alert outbox: \<open>crates/nexus-store/src/outbox.rs\<close> (the status and
  suppression enums with their text codecs, the row type) and the outbox operations
  of \<open>crates/nexus-store/src/lib.rs\<close> (enqueue, drain query, the five
  \<open>outbox_mark_*\<close> updates, counts and pruning) over the table of migrations 0006
  and 0025, with its CHECK, UNIQUE and AUTOINCREMENT constraints.

  The locales \<open>text_enum\<close>, \<open>row_update\<close>, \<open>terminal_update\<close> and
  \<open>retry_update\<close> state what the two enums and the five updates have in common;
  each is interpreted on the definitions of this theory.
\<close>

section \<open>Status and reason enums\<close>

datatype outbox_status = Pending | Sent | Failed | Dead | Suppressed

fun status_as_str :: "outbox_status \<Rightarrow> string" where
  "status_as_str Pending = ''pending''"
| "status_as_str Sent = ''sent''"
| "status_as_str Failed = ''failed''"
| "status_as_str Dead = ''dead''"
| "status_as_str Suppressed = ''suppressed''"

definition status_try_from :: "string \<Rightarrow> string + outbox_status" where
  "status_try_from v =
     (if v = ''pending'' then Inr Pending
      else if v = ''sent'' then Inr Sent
      else if v = ''failed'' then Inr Failed
      else if v = ''dead'' then Inr Dead
      else if v = ''suppressed'' then Inr Suppressed
      else Inl (''unknown OutboxStatus: '' @ debug_str v))"

datatype suppression_reason =
    GlobalDisabled | RuleDisabled | OffScheduleGlobal | OffScheduleRule | EntitlementSuspended

fun reason_as_str :: "suppression_reason \<Rightarrow> string" where
  "reason_as_str GlobalDisabled = ''global_disabled''"
| "reason_as_str RuleDisabled = ''rule_disabled''"
| "reason_as_str OffScheduleGlobal = ''off_schedule_global''"
| "reason_as_str OffScheduleRule = ''off_schedule_rule''"
| "reason_as_str EntitlementSuspended = ''entitlement_suspended''"

definition reason_try_from :: "string \<Rightarrow> string + suppression_reason" where
  "reason_try_from v =
     (if v = ''global_disabled'' then Inr GlobalDisabled
      else if v = ''rule_disabled'' then Inr RuleDisabled
      else if v = ''off_schedule_global'' then Inr OffScheduleGlobal
      else if v = ''off_schedule_rule'' then Inr OffScheduleRule
      else if v = ''entitlement_suspended'' then Inr EntitlementSuspended
      else Inl (''unknown SuppressionReason: '' @ debug_str v))"

section \<open>Rows, events and the database\<close>

record outbox_row =
  row_id :: int
  event_id :: string
  sink_id :: string
  status :: outbox_status
  attempts :: int
  next_attempt_at :: "instant option"
  last_error :: "string option"
  suppression_reason :: "suppression_reason option"
  created_at :: instant
  delivered_at :: "instant option"

text \<open>
  The raw SQL row, as \<open>sqlx\<close> hands it out: enums and timestamps are still text.
  \<open>parse_ts\<close> stands for \<open>chrono\<close>'s parsers behind
  \<open>parse_sqlite_timestamp\<close>.
\<close>

record sql_outbox_row =
  sq_id :: int
  sq_event_id :: string
  sq_sink_id :: string
  sq_status :: string
  sq_attempts :: int
  sq_next_attempt_at :: "string option"
  sq_last_error :: "string option"
  sq_suppression_reason :: "string option"
  sq_created_at :: string
  sq_delivered_at :: "string option"

fun opt_result :: "('a \<Rightarrow> 'e + 'b) \<Rightarrow> 'a option \<Rightarrow> 'e + 'b option" where
  "opt_result f None = Inr None"
| "opt_result f (Some x) = (case f x of Inl e \<Rightarrow> Inl e | Inr y \<Rightarrow> Inr (Some y))"

definition outbox_row_from_sql ::
    "(string \<Rightarrow> string + instant) \<Rightarrow> sql_outbox_row \<Rightarrow> string + outbox_row" where
  "outbox_row_from_sql parse_ts r =
     (case status_try_from (sq_status r) of Inl e \<Rightarrow> Inl e | Inr st \<Rightarrow>
      case opt_result reason_try_from (sq_suppression_reason r) of Inl e \<Rightarrow> Inl e | Inr sr \<Rightarrow>
      case opt_result parse_ts (sq_next_attempt_at r) of Inl e \<Rightarrow> Inl e | Inr na \<Rightarrow>
      case opt_result parse_ts (sq_delivered_at r) of Inl e \<Rightarrow> Inl e | Inr da \<Rightarrow>
      case parse_ts (sq_created_at r) of Inl e \<Rightarrow> Inl e | Inr ca \<Rightarrow>
      Inr \<lparr> row_id = sq_id r, event_id = sq_event_id r, sink_id = sq_sink_id r, status = st,
            attempts = sq_attempts r, next_attempt_at = na, last_error = sq_last_error r,
            suppression_reason = sr, created_at = ca, delivered_at = da \<rparr>)"

definition sql_of_outbox_row :: "(instant \<Rightarrow> string) \<Rightarrow> outbox_row \<Rightarrow> sql_outbox_row" where
  "sql_of_outbox_row fmt r =
     \<lparr> sq_id = row_id r, sq_event_id = event_id r, sq_sink_id = sink_id r,
       sq_status = status_as_str (status r), sq_attempts = attempts r,
       sq_next_attempt_at = map_option fmt (next_attempt_at r), sq_last_error = last_error r,
       sq_suppression_reason = map_option reason_as_str (suppression_reason r),
       sq_created_at = fmt (created_at r), sq_delivered_at = map_option fmt (delivered_at r) \<rparr>"

text \<open>
  The part of \<open>nexus_types::AlertEvent\<close> the delivery path reads.  The bounding box,
  the frame geometry, the tracing ids and the free-form JSON \<open>context\<close> are carried
  by the code unread and are left out.
\<close>

record alert_event =
  ev_event_id :: string
  ev_camera_id :: int
  ev_rule_id :: string
  ev_label :: string
  ev_captured_at :: instant
  art_snapshot :: "string option"
  art_clip :: "string option"
  art_cloud_receipt :: "string option"

record outbox_db =
  events :: "string \<rightharpoonup> alert_event \<times> bool"
  outbox :: "outbox_row list"
  autoinc :: int
  cameras :: "int list"

datatype store_error = UniqueViolation | ForeignKeyViolation | CheckViolation | Decode string | Sqlx string

text \<open>The paired CHECK of the migration: a reason exactly on suppressed rows.\<close>

definition check_row :: "outbox_row \<Rightarrow> bool" where
  "check_row r \<longleftrightarrow> (status r = Suppressed \<longleftrightarrow> suppression_reason r \<noteq> None)"

definition terminal :: "outbox_status \<Rightarrow> bool" where
  "terminal s \<longleftrightarrow> s \<in> {Sent, Dead, Suppressed}"

section \<open>Row updates\<close>

definition sent_row :: "instant \<Rightarrow> outbox_row \<Rightarrow> outbox_row" where
  "sent_row now r = r\<lparr>status := Sent, attempts := attempts r + 1, delivered_at := Some now,
                      last_error := None\<rparr>"

definition failed_row :: "string \<Rightarrow> instant \<Rightarrow> outbox_row \<Rightarrow> outbox_row" where
  "failed_row msg next_at r = r\<lparr>status := Pending, attempts := attempts r + 1,
                                last_error := Some msg, next_attempt_at := Some next_at\<rparr>"

definition waiting_row :: "string \<Rightarrow> instant \<Rightarrow> outbox_row \<Rightarrow> outbox_row" where
  "waiting_row msg next_at r = r\<lparr>status := Pending, last_error := Some msg,
                                 next_attempt_at := Some next_at\<rparr>"

definition dead_row :: "string \<Rightarrow> outbox_row \<Rightarrow> outbox_row" where
  "dead_row msg r = r\<lparr>status := Dead, attempts := attempts r + 1, last_error := Some msg,
                      next_attempt_at := None\<rparr>"

definition suppressed_row :: "suppression_reason \<Rightarrow> outbox_row \<Rightarrow> outbox_row" where
  "suppressed_row reason r = r\<lparr>status := Suppressed, suppression_reason := Some reason,
                               next_attempt_at := None, last_error := None\<rparr>"

text \<open>\<open>UPDATE alert_sink_outbox SET \<dots> WHERE id = ?\<close>: refused as a whole when the
  CHECK fails on the row it would write, a no-op when no row has the id.\<close>

definition update_rows :: "(outbox_row \<Rightarrow> outbox_row) \<Rightarrow> int \<Rightarrow> outbox_row list \<Rightarrow> outbox_row list" where
  "update_rows f i rs = map (\<lambda>r. if row_id r = i then f r else r) rs"

definition sql_update ::
    "(outbox_row \<Rightarrow> outbox_row) \<Rightarrow> int \<Rightarrow> outbox_db \<Rightarrow> store_error + outbox_db" where
  "sql_update f i db =
     (if list_all (\<lambda>r. row_id r = i \<longrightarrow> check_row (f r)) (outbox db)
      then Inr (db\<lparr>outbox := update_rows f i (outbox db)\<rparr>)
      else Inl CheckViolation)"

definition outbox_mark_sent :: "int \<Rightarrow> instant \<Rightarrow> outbox_db \<Rightarrow> store_error + outbox_db" where
  "outbox_mark_sent i now = sql_update (sent_row now) i"

definition outbox_mark_failed ::
    "int \<Rightarrow> string \<Rightarrow> instant \<Rightarrow> outbox_db \<Rightarrow> store_error + outbox_db" where
  "outbox_mark_failed i msg next_at = sql_update (failed_row msg next_at) i"

definition outbox_mark_waiting ::
    "int \<Rightarrow> string \<Rightarrow> instant \<Rightarrow> outbox_db \<Rightarrow> store_error + outbox_db" where
  "outbox_mark_waiting i msg next_at = sql_update (waiting_row msg next_at) i"

definition outbox_mark_dead :: "int \<Rightarrow> string \<Rightarrow> outbox_db \<Rightarrow> store_error + outbox_db" where
  "outbox_mark_dead i msg = sql_update (dead_row msg) i"

definition outbox_mark_suppressed ::
    "int \<Rightarrow> suppression_reason \<Rightarrow> outbox_db \<Rightarrow> store_error + outbox_db" where
  "outbox_mark_suppressed i reason = sql_update (suppressed_row reason) i"

section \<open>Enqueue\<close>

text \<open>SQLite's \<open>CURRENT_TIMESTAMP\<close> and \<open>datetime()\<close> have whole-second resolution.\<close>

definition whole_second :: "instant \<Rightarrow> instant" where
  "whole_second t = t - t mod 1000000000"

definition fresh_row :: "int \<Rightarrow> string \<Rightarrow> string \<Rightarrow> instant \<Rightarrow> outbox_row" where
  "fresh_row i ev s ts =
     \<lparr> row_id = i, event_id = ev, sink_id = s, status = Pending, attempts = 0,
       next_attempt_at = None, last_error = None, suppression_reason = None,
       created_at = ts, delivered_at = None \<rparr>"

fun enqueue_rows :: "instant \<Rightarrow> string \<Rightarrow> string list \<Rightarrow> outbox_db \<Rightarrow> store_error + outbox_db" where
  "enqueue_rows ts ev [] db = Inr db"
| "enqueue_rows ts ev (s # ss) db =
     (if list_ex (\<lambda>r. event_id r = ev \<and> sink_id r = s) (outbox db) then Inl UniqueViolation
      else enqueue_rows ts ev ss
             (db\<lparr>outbox := outbox db @ [fresh_row (autoinc db) ev s ts], autoinc := autoinc db + 1\<rparr>))"

text \<open>
  An \<open>Inl\<close> result is a rolled-back transaction: the caller keeps the old database.
  The insert of the event is refused when the id is taken, and, at the end of the same
  statement, when \<open>events.camera_id\<close> names no row of \<open>cameras\<close>.
\<close>

definition record_event_and_enqueue_classified ::
    "alert_event \<Rightarrow> string list \<Rightarrow> bool \<Rightarrow> instant \<Rightarrow> outbox_db \<Rightarrow> store_error + outbox_db" where
  "record_event_and_enqueue_classified ev sink_ids alerted now db =
     (if events db (ev_event_id ev) \<noteq> None then Inl UniqueViolation
      else if ev_camera_id ev \<notin> set (cameras db) then Inl ForeignKeyViolation
      else enqueue_rows (whole_second now) (ev_event_id ev) sink_ids
             (db\<lparr>events := (events db)(ev_event_id ev \<mapsto> (ev, alerted))\<rparr>))"

definition record_event_and_enqueue ::
    "alert_event \<Rightarrow> string list \<Rightarrow> instant \<Rightarrow> outbox_db \<Rightarrow> store_error + outbox_db" where
  "record_event_and_enqueue ev sink_ids now db =
     record_event_and_enqueue_classified ev sink_ids True now db"

section \<open>Queries and pruning\<close>

definition due :: "instant \<Rightarrow> outbox_row \<Rightarrow> bool" where
  "due now r \<longleftrightarrow> status r = Pending
     \<and> (case next_attempt_at r of None \<Rightarrow> True | Some t \<Rightarrow> t \<le> now)"

text \<open>SQL \<open>LIMIT\<close>: a negative bound means no bound.\<close>

definition sql_limit :: "int \<Rightarrow> 'a list \<Rightarrow> 'a list" where
  "sql_limit n xs = (if n < 0 then xs else take (nat n) xs)"

definition outbox_pending :: "instant \<Rightarrow> int \<Rightarrow> outbox_db \<Rightarrow> outbox_row list" where
  "outbox_pending now limit db = sql_limit limit (sort_key row_id (filter (due now) (outbox db)))"

definition outbox_queued_count :: "outbox_db \<Rightarrow> nat" where
  "outbox_queued_count db = length (filter (\<lambda>r. status r \<in> {Pending, Failed}) (outbox db))"

definition outbox_for_event :: "string \<Rightarrow> outbox_db \<Rightarrow> outbox_row list" where
  "outbox_for_event ev db = sort_key row_id (filter (\<lambda>r. event_id r = ev) (outbox db))"

record outbox_sink_counts =
  oc_sink_id :: string
  oc_sent :: nat
  oc_failed :: nat
  oc_dead :: nat
  oc_suppressed :: nat
  oc_pending :: nat

text \<open>
  \<open>created_at >= ?\<close> compares the stored text of the column with the bound text,
  byte by byte (SQLite's BINARY collation).  \<open>created_text\<close> is the text SQLite wrote
  for \<open>CURRENT_TIMESTAMP\<close>, \<open>since_text\<close> what \<open>to_rfc3339\<close> made of
  the bound.
\<close>

definition count_status :: "outbox_row list \<Rightarrow> string \<Rightarrow> outbox_status \<Rightarrow> nat" where
  "count_status rs s st = length (filter (\<lambda>r. sink_id r = s \<and> status r = st) rs)"

definition outbox_counts_since ::
    "(instant \<Rightarrow> string) \<Rightarrow> string \<Rightarrow> outbox_db \<Rightarrow> outbox_sink_counts list" where
  "outbox_counts_since created_text since_text db =
     (let rs = filter (\<lambda>r. since_text \<le> created_text (created_at r)) (outbox db)
      in map (\<lambda>s. \<lparr> oc_sink_id = s, oc_sent = count_status rs s Sent,
                    oc_failed = count_status rs s Failed, oc_dead = count_status rs s Dead,
                    oc_suppressed = count_status rs s Suppressed,
                    oc_pending = count_status rs s Pending \<rparr>)
           (sort (remdups (map sink_id rs))))"

definition prunable :: "instant \<Rightarrow> outbox_row \<Rightarrow> bool" where
  "prunable cutoff r \<longleftrightarrow> status r \<in> {Sent, Suppressed, Dead}
     \<and> whole_second (created_at r) < whole_second cutoff"

definition prune_outbox_terminal_older_than ::
    "instant \<Rightarrow> int \<Rightarrow> outbox_db \<Rightarrow> nat \<times> outbox_db" where
  "prune_outbox_terminal_older_than cutoff limit db =
     (let ids = sql_limit limit (map row_id (filter (prunable cutoff) (outbox db)));
          kept = filter (\<lambda>r. row_id r \<notin> set ids) (outbox db)
      in (length (outbox db) - length kept, db\<lparr>outbox := kept\<rparr>))"

text \<open>The schema's \<open>ON DELETE CASCADE\<close>: an evicted event takes its rows with it.\<close>

definition delete_event :: "string \<Rightarrow> outbox_db \<Rightarrow> outbox_db" where
  "delete_event ev db = db\<lparr>events := (events db)(ev := None),
     outbox := filter (\<lambda>r. event_id r \<noteq> ev) (outbox db)\<rparr>"

section \<open>Cameras\<close>

text \<open>
  The key column of the \<open>cameras\<close> table, which \<open>events.camera_id\<close> refers to.  Deleting
  a camera deletes its events (\<open>ON DELETE CASCADE\<close>) and, through its clips, the events
  linked to those (\<open>clip_gone\<close>); every deleted event takes its outbox rows with it.
\<close>

definition upsert_camera :: "int \<Rightarrow> outbox_db \<Rightarrow> outbox_db" where
  "upsert_camera i db = (if i \<in> set (cameras db) then db else db\<lparr>cameras := cameras db @ [i]\<rparr>)"

definition drop_events :: "(string \<Rightarrow> bool) \<Rightarrow> outbox_db \<Rightarrow> outbox_db" where
  "drop_events P d =
     d\<lparr>events := (\<lambda>e. if P e then None else events d e), outbox := filter (\<lambda>r. \<not> P (event_id r)) (outbox d)\<rparr>"

definition event_of_camera :: "int \<Rightarrow> outbox_db \<Rightarrow> string \<Rightarrow> bool" where
  "event_of_camera i db e = (case events db e of None \<Rightarrow> False | Some (ev, alerted) \<Rightarrow> ev_camera_id ev = i)"

definition drop_camera :: "int \<Rightarrow> (string \<Rightarrow> bool) \<Rightarrow> outbox_db \<Rightarrow> outbox_db" where
  "drop_camera i clip_gone db =
     (drop_events (\<lambda>e. event_of_camera i db e \<or> clip_gone e) db)\<lparr>cameras := filter (\<lambda>c. c \<noteq> i) (cameras db)\<rparr>"

section \<open>The table invariant\<close>

definition row_key :: "outbox_row \<Rightarrow> string \<times> string" where
  "row_key r = (event_id r, sink_id r)"

definition table_inv :: "outbox_db \<Rightarrow> bool" where
  "table_inv db \<longleftrightarrow>
     sorted_wrt (<) (map row_id (outbox db)) \<and>
     distinct (map row_key (outbox db)) \<and>
     list_all (\<lambda>r. row_id r < autoinc db \<and> check_row r \<and> 0 \<le> attempts r
                   \<and> events db (event_id r) \<noteq> None) (outbox db)"

definition row_by_id :: "int \<Rightarrow> outbox_row list \<Rightarrow> outbox_row option" where
  "row_by_id i rs = find (\<lambda>r. row_id r = i) rs"

lemma set_sql_limit: "x \<in> set (sql_limit n xs) \<Longrightarrow> x \<in> set xs"
  by (auto simp: sql_limit_def dest: in_set_takeD split: if_splits)

lemma outbox_pending_due:
  "r \<in> set (outbox_pending now limit db) \<Longrightarrow> r \<in> set (outbox db) \<and> due now r"
  by (auto simp: outbox_pending_def dest!: set_sql_limit)

section \<open>Interfaces\<close>

text \<open>A text codec of a closed enum.\<close>

locale text_enum =
  fixes enc :: "'a \<Rightarrow> string"
    and dec :: "string \<Rightarrow> string + 'a"
  assumes dec_enc: "dec (enc x) = Inr x"
    and dec_sound: "dec s = Inr x \<Longrightarrow> s = enc x"
begin

lemma enc_eq_iff: "enc x = enc y \<longleftrightarrow> x = y"
  by (metis dec_enc sum.inject(2))

lemma dec_iff: "dec s = Inr x \<longleftrightarrow> s = enc x"
  using dec_enc dec_sound by blast

lemma opt_roundtrip: "opt_result dec (map_option enc v) = Inr v"
  by (cases v) (simp_all add: dec_enc)

end

interpretation status_codec: text_enum status_as_str status_try_from
proof
  show "status_try_from (status_as_str x) = Inr x" for x
    by (cases x) (simp_all add: status_try_from_def)
  show "status_try_from s = Inr x \<Longrightarrow> s = status_as_str x" for s x
    by (auto simp: status_try_from_def split: if_splits)
qed

interpretation reason_codec: text_enum reason_as_str reason_try_from
proof
  show "reason_try_from (reason_as_str x) = Inr x" for x
    by (cases x) (simp_all add: reason_try_from_def)
  show "reason_try_from s = Inr x \<Longrightarrow> s = reason_as_str x" for s x
    by (auto simp: reason_try_from_def split: if_splits)
qed

text \<open>What every \<open>UPDATE\<close> of the outbox promises: it moves status, budget and
  schedule, never the identity of the row, and keeps the CHECK on a pending row.\<close>

locale row_update =
  fixes f :: "outbox_row \<Rightarrow> outbox_row"
  assumes keeps_id: "row_id (f r) = row_id r"
    and keeps_key: "event_id (f r) = event_id r" "sink_id (f r) = sink_id r"
    and keeps_created: "created_at (f r) = created_at r"
    and attempts_range: "attempts r \<le> attempts (f r)" "attempts (f r) \<le> attempts r + 1"
    and keeps_check: "check_row r \<Longrightarrow> status r = Pending \<Longrightarrow> check_row (f r)"
begin

lemma update_ids: "map row_id (update_rows f i rs) = map row_id rs"
  by (simp add: update_rows_def keeps_id)

lemma update_keys: "map row_key (update_rows f i rs) = map row_key rs"
  by (simp add: update_rows_def row_key_def keeps_key)

lemma update_lookup:
  "row_by_id j (update_rows f i rs) = (if j = i then map_option f (row_by_id i rs) else row_by_id j rs)"
  by (induction rs) (auto simp: row_by_id_def update_rows_def keeps_id)

lemma update_frame: "r \<in> set rs \<Longrightarrow> row_id r \<noteq> i \<Longrightarrow> r \<in> set (update_rows f i rs)"
  by (force simp: update_rows_def)

lemma update_table_inv: "table_inv db \<Longrightarrow> sql_update f i db = Inr db' \<Longrightarrow> table_inv db'"
proof -
  assume inv: "table_inv db" and upd: "sql_update f i db = Inr db'"
  from upd have db': "db' = db\<lparr>outbox := update_rows f i (outbox db)\<rparr>"
    and ck: "\<And>r. r \<in> set (outbox db) \<Longrightarrow> row_id r = i \<Longrightarrow> check_row (f r)"
    by (auto simp: sql_update_def list_all_iff split: if_splits)
  have "row_id r < autoinc db \<and> check_row r \<and> 0 \<le> attempts r \<and> events db (event_id r) \<noteq> None"
    if "r \<in> set (update_rows f i (outbox db))" for r
  proof -
    from that obtain q where q: "q \<in> set (outbox db)" "r = (if row_id q = i then f q else q)"
      by (auto simp: update_rows_def)
    then have "row_id q < autoinc db" "check_row q" "0 \<le> attempts q" "events db (event_id q) \<noteq> None"
      using inv by (auto simp: table_inv_def list_all_iff)
    with q ck [of q] attempts_range(1) [of q] show ?thesis
      by (cases "row_id q = i") (simp_all add: keeps_id keeps_key)
  qed
  with inv show ?thesis
    by (simp add: table_inv_def db' update_ids update_keys list_all_iff)
qed

lemma update_accepted:
  assumes "table_inv db" and "row_by_id i (outbox db) = Some r" and "status r = Pending"
  shows "sql_update f i db = Inr (db\<lparr>outbox := update_rows f i (outbox db)\<rparr>)"
proof -
  have "r' = r" if "r' \<in> set (outbox db)" "row_id r' = i" for r'
  proof -
    have "inj_on row_id (set (outbox db))"
      using assms(1) by (simp add: table_inv_def strict_sorted_iff distinct_map)
    moreover have "r \<in> set (outbox db)" "row_id r = i"
      using assms(2) by (auto simp: row_by_id_def find_Some_iff)
    ultimately show ?thesis using that by (metis inj_onD)
  qed
  with assms show ?thesis
    by (auto simp: sql_update_def list_all_iff table_inv_def intro: keeps_check)
qed

end

locale terminal_update = row_update +
  assumes sets_terminal: "terminal (status (f r))"
begin

lemma updated_not_pending:
  assumes "r \<in> set (outbox_pending now limit (db\<lparr>outbox := update_rows f i (outbox db)\<rparr>))"
  shows "row_id r \<noteq> i"
proof -
  have d: "due now r" and "r \<in> (\<lambda>q. if row_id q = i then f q else q) ` set (outbox db)"
    using outbox_pending_due [OF assms] by (simp_all add: update_rows_def)
  then obtain q where q: "r = (if row_id q = i then f q else q)"
    by (elim imageE)
  show ?thesis
  proof (cases "row_id q = i")
    case True
    with d q sets_terminal [of q] show ?thesis by (auto simp: due_def terminal_def)
  next
    case False
    with q show ?thesis by simp
  qed
qed

end

locale retry_update = row_update +
  fixes resume :: instant
  assumes sets_pending: "status (f r) = Pending"
    and sets_resume: "next_attempt_at (f r) = Some resume"
begin

lemma updated_due_iff: "due now (f r) \<longleftrightarrow> resume \<le> now"
  by (simp add: due_def sets_pending sets_resume)

end

lemmas row_update_defs = sent_row_def failed_row_def waiting_row_def dead_row_def suppressed_row_def

interpretation sent: terminal_update "sent_row now" for now
  by unfold_locales (auto simp: row_update_defs check_row_def terminal_def)

interpretation dead: terminal_update "dead_row msg" for msg
  by unfold_locales (auto simp: row_update_defs check_row_def terminal_def)

interpretation suppressed: terminal_update "suppressed_row reason" for reason
  by unfold_locales (auto simp: row_update_defs check_row_def terminal_def)

interpretation failed: retry_update "failed_row msg resume" resume for msg resume
  by unfold_locales (auto simp: row_update_defs check_row_def)

interpretation waiting: retry_update "waiting_row msg resume" resume for msg resume
  by unfold_locales (auto simp: row_update_defs check_row_def)

section \<open>Properties\<close>

text \<open>
  Every outbox row survives the trip through the database: what the store writes
  for a row (enum columns as text, timestamps rendered by \<open>fmt\<close>) is hydrated by
  \<open>outbox_row_from_sql\<close> into the same row, provided the timestamp parser inverts
  the renderer.
\<close>

lemma outbox_row_roundtrip:
  assumes "\<And>t. parse_ts (fmt t) = Inr t"
  shows "outbox_row_from_sql parse_ts (sql_of_outbox_row fmt r) = Inr r"
proof -
  have "opt_result parse_ts (map_option fmt v) = Inr v" for v
    by (cases v) (simp_all add: assms)
  then show ?thesis
    by (simp add: outbox_row_from_sql_def sql_of_outbox_row_def assms
        status_codec.dec_enc reason_codec.opt_roundtrip)
qed

text \<open>A row whose status text is outside the five-value vocabulary is refused, never
  coerced.\<close>

lemma outbox_row_bad_status:
  assumes "sq_status r \<notin> range status_as_str"
  shows "\<exists>e. outbox_row_from_sql parse_ts r = Inl e"
  using assms
  by (cases "status_try_from (sq_status r)")
     (auto simp: outbox_row_from_sql_def dest: status_codec.dec_sound)

lemma enqueue_rows_spec:
  assumes "enqueue_rows ts ev ss db = Inr db'"
  shows "outbox db' = outbox db @ map (\<lambda>(i, s). fresh_row (autoinc db + int i) ev s ts)
                                        (enumerate 0 ss)
       \<and> autoinc db' = autoinc db + int (length ss) \<and> events db' = events db \<and> cameras db' = cameras db"
  using assms
proof (induction ss arbitrary: db)
  case Nil
  then show ?case by simp
next
  case (Cons s ss)
  let ?db = "db\<lparr>outbox := outbox db @ [fresh_row (autoinc db) ev s ts], autoinc := autoinc db + 1\<rparr>"
  from Cons.prems have "enqueue_rows ts ev ss ?db = Inr db'"
    by (simp split: if_splits)
  from Cons.IH [OF this] show ?case
    by (simp add: enumerate_Suc_eq [of 0] case_prod_unfold comp_def algebra_simps)
qed

lemma enqueue_rows_ok_iff:
  "(\<exists>db'. enqueue_rows ts ev ss db = Inr db') \<longleftrightarrow>
     distinct ss \<and> (\<forall>s \<in> set ss. (ev, s) \<notin> row_key ` set (outbox db))"
proof (induction ss arbitrary: db)
  case Nil
  then show ?case by simp
next
  case (Cons s ss)
  have "list_ex (\<lambda>r. event_id r = ev \<and> sink_id r = s) (outbox db) \<longleftrightarrow> (ev, s) \<in> row_key ` set (outbox db)"
    by (auto simp: list_ex_iff row_key_def image_iff)
  then show ?case
    using Cons.IH [of "db\<lparr>outbox := outbox db @ [fresh_row (autoinc db) ev s ts], autoinc := autoinc db + 1\<rparr>"]
    by (auto simp: row_key_def fresh_row_def)
qed

lemma enqueue_rows_error: "enqueue_rows ts ev ss db = Inl e \<Longrightarrow> e = UniqueViolation"
  by (induction ss arbitrary: db) (auto split: if_splits)

lemma enqueue_rows_table_inv:
  assumes "enqueue_rows ts ev ss db = Inr db'" "table_inv db" "events db ev \<noteq> None"
  shows "table_inv db'"
  using assms
proof (induction ss arbitrary: db)
  case Nil
  then show ?case by simp
next
  case (Cons s ss)
  let ?new = "fresh_row (autoinc db) ev s ts"
  let ?db = "db\<lparr>outbox := outbox db @ [?new], autoinc := autoinc db + 1\<rparr>"
  have fresh: "\<not> list_ex (\<lambda>r. event_id r = ev \<and> sink_id r = s) (outbox db)"
    and rest: "enqueue_rows ts ev ss ?db = Inr db'"
    using Cons.prems(1) by (auto split: if_splits)
  have "row_key ?new \<notin> row_key ` set (outbox db)"
    using fresh by (auto simp: list_ex_iff row_key_def fresh_row_def)
  moreover have "row_id ?new = autoinc db" "check_row ?new" "attempts ?new = 0" "event_id ?new = ev"
    by (simp_all add: fresh_row_def check_row_def)
  ultimately have "table_inv ?db"
    using Cons.prems(2,3) by (auto simp: table_inv_def sorted_wrt_append list_all_iff)
  with Cons.IH [OF rest] Cons.prems(3) show ?case by simp
qed

text \<open>
  C5. Recording an alert is all-or-nothing: on a well-formed database the transaction
  commits exactly when the event id is new, its camera is in the camera table and no
  sink is named twice; it then appends one fresh, immediately due row per sink, in
  order, under consecutive ids, and keeps the table well formed.  Otherwise it is
  refused (and the database the caller keeps is the old one): with a foreign-key error
  when the id is new and the camera unknown, and with a uniqueness error when the id is
  taken or, the camera being known, a sink is named twice.
\<close>

theorem record_event_all_or_nothing:
  assumes "table_inv db"
  shows "case record_event_and_enqueue_classified ev sinks alerted now db of
      Inl e \<Rightarrow> (if events db (ev_event_id ev) = None \<and> ev_camera_id ev \<notin> set (cameras db)
                then e = ForeignKeyViolation
                else e = UniqueViolation \<and> (events db (ev_event_id ev) \<noteq> None \<or> \<not> distinct sinks))
    | Inr db' \<Rightarrow> events db (ev_event_id ev) = None \<and> ev_camera_id ev \<in> set (cameras db) \<and> distinct sinks
        \<and> table_inv db' \<and> cameras db' = cameras db
        \<and> events db' = (events db)(ev_event_id ev \<mapsto> (ev, alerted))
        \<and> outbox db' = outbox db @
            map (\<lambda>(i, s). fresh_row (autoinc db + int i) (ev_event_id ev) s (whole_second now))
              (enumerate 0 sinks)"
proof (cases "events db (ev_event_id ev)")
  case (Some x)
  then show ?thesis by (simp add: record_event_and_enqueue_classified_def)
next
  case None
  let ?ev = "ev_event_id ev"
  let ?db = "db\<lparr>events := (events db)(?ev \<mapsto> (ev, alerted))\<rparr>"
  have inv: "table_inv ?db"
    using assms by (auto simp: table_inv_def list_all_iff)
  have "(?ev, s) \<notin> row_key ` set (outbox ?db)" for s
    using assms None by (auto simp: table_inv_def list_all_iff row_key_def)
  then have ok: "(\<exists>db'. enqueue_rows (whole_second now) ?ev sinks ?db = Inr db') \<longleftrightarrow> distinct sinks"
    by (simp add: enqueue_rows_ok_iff)
  show ?thesis
  proof (cases "enqueue_rows (whole_second now) ?ev sinks ?db")
    case (Inl e)
    with None ok enqueue_rows_error [OF Inl] show ?thesis
      by (cases "ev_camera_id ev \<in> set (cameras db)") (simp_all add: record_event_and_enqueue_classified_def)
  next
    case (Inr db')
    have "table_inv db'" using enqueue_rows_table_inv [OF Inr inv] by simp
    moreover have "distinct sinks" using ok Inr by blast
    ultimately show ?thesis
      using None Inr enqueue_rows_spec [OF Inr]
      by (cases "ev_camera_id ev \<in> set (cameras db)") (simp_all add: record_event_and_enqueue_classified_def)
  qed
qed

lemma record_event_ok:
  assumes "table_inv db" and "record_event_and_enqueue_classified ev sinks alerted now db = Inr db'"
  shows "table_inv db'" and "autoinc db \<le> autoinc db'"
    and "r \<in> set (outbox db') \<Longrightarrow> r \<in> set (outbox db)
         \<or> status r = Pending \<and> attempts r = 0 \<and> autoinc db \<le> row_id r"
proof -
  let ?db = "db\<lparr>events := (events db)(ev_event_id ev \<mapsto> (ev, alerted))\<rparr>"
  have e: "enqueue_rows (whole_second now) (ev_event_id ev) sinks ?db = Inr db'"
    using assms(2) by (simp add: record_event_and_enqueue_classified_def split: if_splits)
  have "table_inv ?db"
    using assms(1) by (auto simp: table_inv_def list_all_iff)
  then show "table_inv db'" using enqueue_rows_table_inv [OF e] by simp
  show "autoinc db \<le> autoinc db'" using enqueue_rows_spec [OF e] by simp
  show "r \<in> set (outbox db) \<or> status r = Pending \<and> attempts r = 0 \<and> autoinc db \<le> row_id r"
    if "r \<in> set (outbox db')"
    using that enqueue_rows_spec [OF e] by (auto simp: fresh_row_def)
qed

lemma record_event_commits:
  assumes "record_event_and_enqueue_classified ev sinks alerted now db = Inr db'"
  shows "cameras db' = cameras db" "events db' = (events db)(ev_event_id ev \<mapsto> (ev, alerted))"
    "ev_camera_id ev \<in> set (cameras db)"
  using assms enqueue_rows_spec [of "whole_second now" "ev_event_id ev" sinks _ db']
  by (auto simp: record_event_and_enqueue_classified_def split: if_splits)

lemma prune_keeps:
  assumes "table_inv db"
  shows "table_inv (snd (prune_outbox_terminal_older_than cutoff limit db))"
    and "set (outbox (snd (prune_outbox_terminal_older_than cutoff limit db))) \<subseteq> set (outbox db)"
    and "autoinc (snd (prune_outbox_terminal_older_than cutoff limit db)) = autoinc db"
  using assms
  by (auto simp: prune_outbox_terminal_older_than_def Let_def table_inv_def list_all_iff
      sorted_wrt_filter distinct_map_filter sorted_wrt_map)

lemma delete_event_keeps:
  assumes "table_inv db"
  shows "table_inv (delete_event ev db)" and "set (outbox (delete_event ev db)) \<subseteq> set (outbox db)"
    and "autoinc (delete_event ev db) = autoinc db"
  using assms
  by (auto simp: delete_event_def table_inv_def list_all_iff sorted_wrt_filter distinct_map_filter
      sorted_wrt_map)

lemma drop_events_keeps:
  assumes "table_inv db"
  shows "table_inv (drop_events P db)"
proof -
  have "sorted_wrt (<) (map row_id (filter (\<lambda>r. \<not> P (event_id r)) (outbox db)))"
    using assms by (auto simp: table_inv_def sorted_wrt_map intro: sorted_wrt_filter)
  then show ?thesis
    using assms by (auto simp: table_inv_def drop_events_def list_all_iff distinct_map_filter)
qed

lemma table_inv_cameras [simp]: "table_inv (db\<lparr>cameras := cs\<rparr>) = table_inv db"
  by (simp add: table_inv_def)

lemma camera_changes_keep:
  assumes "table_inv db"
  shows "table_inv (upsert_camera i db)" "table_inv (drop_camera i P db)"
    "outbox (upsert_camera i db) = outbox db" "autoinc (upsert_camera i db) = autoinc db"
    "set (outbox (drop_camera i P db)) \<subseteq> set (outbox db)" "autoinc (drop_camera i P db) = autoinc db"
proof -
  show "table_inv (drop_camera i P db)"
    unfolding drop_camera_def table_inv_cameras by (rule drop_events_keeps [OF assms])
qed (use assms in \<open>auto simp: upsert_camera_def drop_camera_def drop_events_def\<close>)

lemma row_by_id_iff:
  assumes "table_inv db"
  shows "row_by_id i (outbox db) = Some r \<longleftrightarrow> r \<in> set (outbox db) \<and> row_id r = i"
proof -
  have "distinct (map row_id (outbox db))"
    using assms by (simp add: table_inv_def strict_sorted_iff)
  then have "inj_on row_id (set (outbox db))"
    by (simp add: distinct_map)
  moreover have "row_by_id i (outbox db) = Some r \<Longrightarrow> r \<in> set (outbox db) \<and> row_id r = i" for r
    by (auto simp: row_by_id_def find_Some_iff)
  moreover have "row_by_id i (outbox db) = None \<Longrightarrow> r \<in> set (outbox db) \<Longrightarrow> row_id r \<noteq> i" for r
    by (auto simp: row_by_id_def find_None_iff)
  ultimately show ?thesis by (metis inj_onD not_Some_eq)
qed

text \<open>
  Pruning never touches live work: every row it removes is terminal and older than
  the cutoff, at most \<open>limit\<close> rows go, the reported count is the number removed, and
  the table stays well formed.
\<close>

lemma prune_only_old_terminal:
  assumes "table_inv db" and "0 \<le> limit"
    and "prune_outbox_terminal_older_than cutoff limit db = (n, db')"
  shows "set (outbox db') \<subseteq> set (outbox db)
    \<and> (\<forall>r. r \<in> set (outbox db) \<and> r \<notin> set (outbox db') \<longrightarrow>
           terminal (status r) \<and> created_at r < cutoff)
    \<and> n + length (outbox db') = length (outbox db) \<and> n \<le> nat limit \<and> table_inv db'"
proof -
  let ?ids = "take (nat limit) (map row_id (filter (prunable cutoff) (outbox db)))"
  have db': "db' = db\<lparr>outbox := filter (\<lambda>r. row_id r \<notin> set ?ids) (outbox db)\<rparr>"
    and n: "n = length (outbox db) - length (outbox db')"
    using assms(2,3) by (auto simp: prune_outbox_terminal_older_than_def sql_limit_def Let_def)
  have inj: "inj_on row_id (set (outbox db))" and dist: "distinct (outbox db)"
    using assms(1) by (simp_all add: table_inv_def strict_sorted_iff distinct_map)
  have old: "t < u" if "whole_second t < whole_second u" for t u
    using that by (simp add: whole_second_def minus_mod_eq_mult_div)
  have gone: "terminal (status r) \<and> created_at r < cutoff"
    if r: "r \<in> set (outbox db)" "r \<notin> set (outbox db')" for r
  proof -
    from r have "row_id r \<in> set ?ids" by (simp add: db')
    then obtain q where "q \<in> set (outbox db)" "prunable cutoff q" "row_id q = row_id r"
      by (auto dest!: in_set_takeD)
    with r inj have "prunable cutoff r" by (metis inj_onD)
    then show ?thesis by (auto simp: prunable_def terminal_def old)
  qed
  have len: "length (outbox db') \<le> length (outbox db)"
    by (simp add: db')
  have "length (outbox db) - length (outbox db') = length (filter (\<lambda>r. row_id r \<in> set ?ids) (outbox db))"
    using sum_length_filter_compl [of "\<lambda>r. row_id r \<notin> set ?ids" "outbox db"] by (simp add: db')
  also have "\<dots> = card (row_id ` set (filter (\<lambda>r. row_id r \<in> set ?ids) (outbox db)))"
    using dist inj by (simp add: distinct_card card_image inj_on_subset flip: distinct_card)
  also have "\<dots> \<le> card (set ?ids)"
    by (rule card_mono) auto
  also have "\<dots> \<le> nat limit"
    using card_length [of ?ids] by simp
  finally have "n \<le> nat limit" by (simp add: n)
  moreover have "table_inv db'"
    using assms(1) by (auto simp: db' table_inv_def list_all_iff sorted_wrt_filter distinct_map_filter
        sorted_wrt_map)
  ultimately show ?thesis using gone len by (auto simp: n) (simp add: db')
qed

lemma lexord_append_le: "(ds @ xs \<le> ds @ ys) \<longleftrightarrow> (xs \<le> (ys :: string))"
  by (induction ds) (auto simp: less_le)

text \<open>
  The health counts miss the current day.  The column holds SQLite's
  \<open>YYYY-MM-DD HH:MM:SS\<close> while the bound is RFC 3339 text
  (\<open>YYYY-MM-DDTHH:MM:SS\<close>\<dots>), and the two are compared as bytes: a row created on
  the calendar day of \<open>since\<close> is never counted, however much later than
  \<open>since\<close> it was created.  If all rows are of that day the answer is empty.
\<close>

lemma outbox_counts_miss_same_day:
  assumes "\<And>t. created_text t = day t @ '' '' @ clock t"
    and "since_text = day since @ ''T'' @ rest"
    and "list_all (\<lambda>r. day (created_at r) = day since) (outbox db)"
  shows "outbox_counts_since created_text since_text db = []"
proof -
  have "\<not> since_text \<le> created_text (created_at r)" if "r \<in> set (outbox db)" for r
  proof -
    have "day (created_at r) = day since"
      using assms(3) that by (simp add: list_all_iff)
    then have "since_text \<le> created_text (created_at r) \<longleftrightarrow> ''T'' @ rest \<le> '' '' @ clock (created_at r)"
      by (simp only: assms(1,2) lexord_append_le)
    then show ?thesis by (simp add: less_char_def)
  qed
  then show ?thesis
    by (simp add: outbox_counts_since_def Let_def filter_empty_conv)
qed

section \<open>Witnesses\<close>

definition unary_fmt :: "instant \<Rightarrow> string" where
  "unary_fmt t = (if t < 0 then CHR ''-'' else CHR ''+'') # replicate (nat \<bar>t\<bar>) CHR ''1''"

definition unary_parse :: "string \<Rightarrow> string + instant" where
  "unary_parse s = (case s of [] \<Rightarrow> Inl ''empty''
     | c # cs \<Rightarrow> Inr (if c = CHR ''-'' then - int (length cs) else int (length cs)))"

definition event_1 :: alert_event where
  "event_1 = \<lparr> ev_event_id = ''ev-1'', ev_camera_id = 4, ev_rule_id = ''rule-7'', ev_label = ''person'',
     ev_captured_at = 5, art_snapshot = None, art_clip = None, art_cloud_receipt = None \<rparr>"

definition empty_db :: outbox_db where
  "empty_db = \<lparr> events = Map.empty, outbox = [], autoinc = 1, cameras = [] \<rparr>"

lemma empty_db_inv: "table_inv empty_db"
  by (simp add: empty_db_def table_inv_def)

text \<open>The alert of a registered camera, and the same alert before the camera is registered.\<close>

lemma camera_db_inv: "table_inv (upsert_camera 4 empty_db)"
  by (simp add: upsert_camera_def empty_db_def table_inv_def)

theorem record_event_all_or_nothing_witness:
  "case record_event_and_enqueue_classified event_1 [''webhook:a'', ''cloud:console''] True 2500000000
          (upsert_camera 4 empty_db) of
     Inl e \<Rightarrow> False
   | Inr db' \<Rightarrow> table_inv db' \<and>
       outbox db' = [fresh_row 1 ''ev-1'' ''webhook:a'' 2000000000, fresh_row 2 ''ev-1'' ''cloud:console'' 2000000000]"
  using record_event_all_or_nothing [OF camera_db_inv, of event_1 "[''webhook:a'', ''cloud:console'']" True 2500000000]
  by (simp add: event_1_def upsert_camera_def empty_db_def whole_second_def split: sum.splits)

definition aged_db :: outbox_db where
  "aged_db = empty_db\<lparr>events := [''ev-1'' \<mapsto> (event_1, True)], autoinc := 3, cameras := [4],
     outbox := [sent_row 9 (fresh_row 1 ''ev-1'' ''webhook:a'' 0), fresh_row 2 ''ev-1'' ''cloud:console'' 0]\<rparr>"

lemma aged_db_inv: "table_inv aged_db"
  by (simp add: table_inv_def aged_db_def empty_db_def sent_row_def fresh_row_def row_key_def check_row_def
      del: not_None_eq)

text \<open>The alert of 12:30 is missing from the window that opened at 12:00 the same day.\<close>

definition day_fmt :: "instant \<Rightarrow> string" where
  "day_fmt t = ''2026-03-0'' @ dec_int (t div 86400000000000)"

definition clock_fmt :: "instant \<Rightarrow> string" where
  "clock_fmt t = dec_int (t mod 86400000000000 div 1000000000)"

end
