(* ===== verification/Sinks.thy ===== *)
theory Sinks
  imports Outbox "HOL-Library.AList"
begin

text \<open>
  \<open>crates/nexus-sinks/src/lib.rs\<close> (sink identifiers, the live registry, the merge of
  file and database sink configurations), the sink kinds of
  \<open>crates/nexus-config/src/sinks.rs\<close> and the per-rule routing of
  \<open>crates/nexus-engine/src/sink_router.rs\<close>.  Hash maps are association lists with
  distinct keys: the order of the list is the iteration order Rust leaves unspecified,
  and no property depends on it.
\<close>

section \<open>Sink identifiers\<close>

definition sink_id_new :: "string \<Rightarrow> string \<Rightarrow> string option" where
  "sink_id_new kind name =
     (if kind = [] \<or> name = [] \<or> str_contains CHR '':'' kind \<or> str_contains CHR '':'' name
      then None else Some (kind @ '':'' @ name))"

definition sink_id_parse :: "string \<Rightarrow> string option" where
  "sink_id_parse raw =
     (case split_once CHR '':'' raw of None \<Rightarrow> None | Some (kind, name) \<Rightarrow> sink_id_new kind name)"

definition sink_id_kind :: "string \<Rightarrow> string" where
  "sink_id_kind s = (case split_on CHR '':'' s of [] \<Rightarrow> [] | k # _ \<Rightarrow> k)"

definition sink_id_name :: "string \<Rightarrow> string" where
  "sink_id_name s = (case split_once CHR '':'' s of None \<Rightarrow> [] | Some (_, n) \<Rightarrow> n)"

datatype sink_error = Transient string | Permanent string

definition is_transient :: "sink_error \<Rightarrow> bool" where
  "is_transient e = (case e of Transient _ \<Rightarrow> True | Permanent _ \<Rightarrow> False)"

section \<open>The registry\<close>

text \<open>A registered sink: its id and whether it attaches the clip.  What \<open>deliver\<close>
  returns is supplied by the environment of a dispatch step.\<close>

record sink =
  sk_id :: string
  wants_clip :: bool

record sink_registry =
  inner :: "(string \<times> sink) list"
  reserved :: "(string \<times> sink) list"

definition registry_new :: sink_registry where
  "registry_new = \<lparr> inner = [], reserved = [] \<rparr>"

definition collect_sinks :: "sink list \<Rightarrow> (string \<times> sink) list" where
  "collect_sinks sinks = fold (\<lambda>s. AList.update (sk_id s) s) sinks []"

definition registry_replace :: "sink list \<Rightarrow> sink_registry \<Rightarrow> nat \<times> sink_registry" where
  "registry_replace sinks reg =
     (let m = collect_sinks sinks in (length m, reg\<lparr>inner := m\<rparr>))"

definition insert_reserved :: "sink \<Rightarrow> sink_registry \<Rightarrow> sink_registry" where
  "insert_reserved s reg = reg\<lparr>reserved := AList.update (sk_id s) s (reserved reg)\<rparr>"

definition registry_get :: "sink_registry \<Rightarrow> string \<Rightarrow> sink option" where
  "registry_get reg i =
     (case map_of (reserved reg) i of Some s \<Rightarrow> Some s | None \<Rightarrow> map_of (inner reg) i)"

definition registry_ids :: "sink_registry \<Rightarrow> string list" where
  "registry_ids reg = map fst (inner reg)"

definition reserved_ids :: "sink_registry \<Rightarrow> string list" where
  "reserved_ids reg = map fst (reserved reg)"

definition registry_len :: "sink_registry \<Rightarrow> nat" where
  "registry_len reg = length (inner reg)"

definition registry_is_empty :: "sink_registry \<Rightarrow> bool" where
  "registry_is_empty reg = (inner reg = [])"

definition registry_inv :: "sink_registry \<Rightarrow> bool" where
  "registry_inv reg \<longleftrightarrow> distinct (map fst (inner reg)) \<and> distinct (map fst (reserved reg))
     \<and> list_all (\<lambda>(i, s). sk_id s = i) (inner reg) \<and> list_all (\<lambda>(i, s). sk_id s = i) (reserved reg)"

section \<open>Configuration merge\<close>

text \<open>The four kinds; everything but the operator-chosen name is an opaque body.\<close>

datatype sink_config =
    Webhook string string
  | SureView string string
  | SureViewEmail string string
  | Email string string

fun cfg_kind :: "sink_config \<Rightarrow> string" where
  "cfg_kind (Webhook _ _) = ''webhook''"
| "cfg_kind (SureView _ _) = ''sureview''"
| "cfg_kind (SureViewEmail _ _) = ''sureview_email''"
| "cfg_kind (Email _ _) = ''email''"

fun cfg_name :: "sink_config \<Rightarrow> string" where
  "cfg_name (Webhook n _) = n"
| "cfg_name (SureView n _) = n"
| "cfg_name (SureViewEmail n _) = n"
| "cfg_name (Email n _) = n"

definition cfg_id :: "sink_config \<Rightarrow> string" where
  "cfg_id c = cfg_kind c @ '':'' @ cfg_name c"

type_synonym merge_state = "sink_config list \<times> (string \<rightharpoonup> nat)"

fun merge_file :: "sink_config list \<Rightarrow> merge_state \<Rightarrow> merge_state" where
  "merge_file [] st = st"
| "merge_file (c # cs) (out, index) = merge_file cs (out @ [c], index(cfg_id c \<mapsto> length out))"

text \<open>\<open>parse\<close> is \<open>serde_json::from_str::<SinkConfig>\<close>.\<close>

fun merge_db ::
    "(string \<Rightarrow> string + sink_config) \<Rightarrow> string list \<Rightarrow> merge_state \<Rightarrow> sink_error + merge_state" where
  "merge_db parse [] st = Inr st"
| "merge_db parse (j # js) (out, index) =
     (case parse j of
        Inl e \<Rightarrow> Inl (Permanent (''persisted sink config is not valid JSON: '' @ e))
      | Inr c \<Rightarrow>
          (case index (cfg_id c) of
             Some i \<Rightarrow> merge_db parse js (out[i := c], index)
           | None \<Rightarrow> merge_db parse js (out @ [c], index(cfg_id c \<mapsto> length out))))"

definition merge_sink_configs ::
    "(string \<Rightarrow> string + sink_config) \<Rightarrow> sink_config list \<Rightarrow> string list \<Rightarrow> sink_error + sink_config list" where
  "merge_sink_configs parse file_sinks db_sink_json =
     (case merge_db parse db_sink_json (merge_file file_sinks ([], Map.empty)) of
        Inl e \<Rightarrow> Inl e | Inr (out, _) \<Rightarrow> Inr out)"

section \<open>Per-rule routing\<close>

text \<open>\<open>rule_sinks\<close> is \<open>RuleEvaluator::sinks_for\<close>: the allow-list of a loaded
  rule.\<close>

fun push_missing :: "string list \<Rightarrow> string list \<Rightarrow> string list" where
  "push_missing [] result = result"
| "push_missing (i # is) result =
     push_missing is (if i \<in> set result then result else result @ [i])"

definition sinks_for :: "sink_registry \<Rightarrow> (string \<Rightarrow> string list option) \<Rightarrow> string \<Rightarrow> string list" where
  "sinks_for reg rule_sinks rule_id =
     (let configured = registry_ids reg;
          result = (case rule_sinks rule_id of
              Some list \<Rightarrow> if list \<noteq> [] then filter (\<lambda>s. s \<in> set configured) list else configured
            | None \<Rightarrow> configured)
      in push_missing (reserved_ids reg) result)"

section \<open>Identifiers: parsing\<close>

lemma sink_id_new_Some_iff:
  "sink_id_new k n = Some s \<longleftrightarrow>
     s = k @ '':'' @ n \<and> k \<noteq> [] \<and> n \<noteq> [] \<and> CHR '':'' \<notin> set k \<and> CHR '':'' \<notin> set n"
  by (auto simp: sink_id_new_def str_contains_def)

text \<open>
  The wire form \<open>kind:name\<close> is unambiguous: a string parses exactly when it is
  one colon between two non-empty colon-free halves, parsing returns it unchanged, and
  the accessors give back the two halves.
\<close>

lemma sink_id_parse_iff:
  "sink_id_parse raw = Some s \<longleftrightarrow>
     s = raw \<and> (\<exists>k n. raw = k @ '':'' @ n \<and> k \<noteq> [] \<and> n \<noteq> []
        \<and> CHR '':'' \<notin> set k \<and> CHR '':'' \<notin> set n
        \<and> sink_id_kind raw = k \<and> sink_id_name raw = n)"
proof -
  have acc: "sink_id_kind (k @ '':'' @ n) = k \<and> sink_id_name (k @ '':'' @ n) = n"
    if "CHR '':'' \<notin> set k" for k n
  proof -
    have "split_once CHR '':'' (k @ '':'' @ n) = Some (k, n)"
      using that by (simp add: split_once_Some_iff)
    moreover have "split_on CHR '':'' (k @ CHR '':'' # n) = split_on CHR '':'' k @ split_on CHR '':'' n"
      by (rule split_on_append)
    ultimately show ?thesis
      using that by (simp add: sink_id_kind_def sink_id_name_def split_on_no_sep)
  qed
  show ?thesis
  proof
    assume "sink_id_parse raw = Some s"
    then obtain k n where "split_once CHR '':'' raw = Some (k, n)" "sink_id_new k n = Some s"
      by (auto simp: sink_id_parse_def split: option.splits)
    then show "s = raw \<and> (\<exists>k n. raw = k @ '':'' @ n \<and> k \<noteq> [] \<and> n \<noteq> []
        \<and> CHR '':'' \<notin> set k \<and> CHR '':'' \<notin> set n
        \<and> sink_id_kind raw = k \<and> sink_id_name raw = n)"
      using acc [of k n] by (auto simp: sink_id_new_Some_iff split_once_Some_iff)
  next
    assume "s = raw \<and> (\<exists>k n. raw = k @ '':'' @ n \<and> k \<noteq> [] \<and> n \<noteq> []
        \<and> CHR '':'' \<notin> set k \<and> CHR '':'' \<notin> set n
        \<and> sink_id_kind raw = k \<and> sink_id_name raw = n)"
    then obtain k n where kn: "s = raw" "raw = k @ '':'' @ n" "k \<noteq> []" "n \<noteq> []"
        "CHR '':'' \<notin> set k" "CHR '':'' \<notin> set n" by blast
    then have "split_once CHR '':'' raw = Some (k, n)" by (simp add: split_once_Some_iff)
    with kn show "sink_id_parse raw = Some s"
      by (simp add: sink_id_parse_def sink_id_new_Some_iff)
  qed
qed

section \<open>Registry: lookups after mutations\<close>

lemma keyed_update:
  "list_all (\<lambda>(i, s). sk_id s = i) m \<Longrightarrow> list_all (\<lambda>(i, s). sk_id s = i) (AList.update (sk_id s) s m)"
  by (induction m) auto

lemma collect_sinks_inv:
  "distinct (map fst (collect_sinks ss)) \<and> list_all (\<lambda>(i, s). sk_id s = i) (collect_sinks ss)"
proof -
  have "distinct (map fst (fold (\<lambda>s. AList.update (sk_id s) s) ss m))
      \<and> list_all (\<lambda>(i, s). sk_id s = i) (fold (\<lambda>s. AList.update (sk_id s) s) ss m)"
    if "distinct (map fst m)" "list_all (\<lambda>(i, s). sk_id s = i) m" for m
    using that by (induction ss arbitrary: m) (simp_all add: distinct_update keyed_update)
  from this [of "[]"] show ?thesis by (simp add: collect_sinks_def)
qed

lemma find_snoc: "find P (xs @ [x]) = (case find P xs of None \<Rightarrow> if P x then Some x else None | Some y \<Rightarrow> Some y)"
  by (induction xs) auto

lemma collect_sinks_lookup:
  "map_of (collect_sinks ss) i = find (\<lambda>s. sk_id s = i) (rev ss)"
proof -
  have "map_of (fold (\<lambda>s. AList.update (sk_id s) s) ss m) i =
      (case find (\<lambda>s. sk_id s = i) (rev ss) of None \<Rightarrow> map_of m i | Some s \<Rightarrow> Some s)" for m
    by (induction ss arbitrary: m) (auto simp: update_conv' find_snoc split: option.splits)
  from this [of "[]"] show ?thesis by (simp add: collect_sinks_def split: option.splits)
qed

text \<open>What the router and the dispatcher rely on: the id lists and \<open>get\<close> agree.\<close>

locale sink_directory =
  fixes get :: "'r \<Rightarrow> string \<Rightarrow> sink option"
    and ids :: "'r \<Rightarrow> string list"
    and rids :: "'r \<Rightarrow> string list"
    and inv :: "'r \<Rightarrow> bool"
  assumes get_iff: "inv r \<Longrightarrow> get r i \<noteq> None \<longleftrightarrow> i \<in> set (ids r) \<union> set (rids r)"
    and get_sound: "inv r \<Longrightarrow> get r i = Some s \<Longrightarrow> sk_id s = i"
    and ids_distinct: "inv r \<Longrightarrow> distinct (ids r)"
    and rids_distinct: "inv r \<Longrightarrow> distinct (rids r)"
begin

lemma set_push_missing: "set (push_missing is xs) = set is \<union> set xs"
  by (induction "is" arbitrary: xs) auto

lemma distinct_push_missing: "distinct (push_missing is xs) \<longleftrightarrow> distinct xs"
  by (induction "is" arbitrary: xs) auto

lemma routed_resolves:
  assumes "inv r" "set xs \<subseteq> set (ids r)" "i \<in> set (push_missing (rids r) xs)"
  shows "\<exists>s. get r i = Some s \<and> sk_id s = i"
  using assms get_iff [of r i] get_sound [of r i] by (auto simp: set_push_missing)

end

interpretation registry: sink_directory registry_get registry_ids reserved_ids registry_inv
proof
  fix r i s
  assume inv: "registry_inv r"
  show "registry_get r i \<noteq> None \<longleftrightarrow> i \<in> set (registry_ids r) \<union> set (reserved_ids r)"
    using map_of_eq_None_iff [of "reserved r" i] map_of_eq_None_iff [of "inner r" i]
    by (cases "map_of (reserved r) i")
       (auto simp: registry_get_def registry_ids_def reserved_ids_def)
  show "registry_get r i = Some s \<Longrightarrow> sk_id s = i"
    using inv by (auto simp: registry_get_def registry_inv_def list_all_iff split: option.splits
        dest!: map_of_SomeD)
qed (simp_all add: registry_inv_def registry_ids_def reserved_ids_def)

text \<open>
  Reconfiguration is atomic and cannot evict subsystem sinks: after
  \<open>replace\<close> a reserved id still resolves to its reserved sink, every other id resolves
  to the last sink of the new set under that id and to nothing else, and the registry
  invariant is kept.
\<close>

lemma registry_replace_lookup:
  assumes "registry_inv reg" and "registry_replace sinks reg = (n, reg')"
  shows "registry_inv reg' \<and> n = registry_len reg' \<and>
    registry_get reg' i = (case map_of (reserved reg) i of
        Some s \<Rightarrow> Some s | None \<Rightarrow> find (\<lambda>s. sk_id s = i) (rev sinks))"
  using assms collect_sinks_inv [of sinks]
  by (auto simp: registry_replace_def registry_get_def registry_inv_def registry_len_def
      collect_sinks_lookup Let_def split: option.splits)

lemma insert_reserved_inv: "registry_inv reg \<Longrightarrow> registry_inv (insert_reserved s reg)"
  by (simp add: registry_inv_def insert_reserved_def distinct_update keyed_update)

section \<open>Configuration merge refines an association-list update\<close>

definition keyed_cfgs :: "sink_config list \<Rightarrow> (string \<times> sink_config) list" where
  "keyed_cfgs cs = map (\<lambda>c. (cfg_id c, c)) cs"

definition merge_inv :: "merge_state \<Rightarrow> bool" where
  "merge_inv st \<longleftrightarrow> distinct (map cfg_id (fst st))
     \<and> (\<forall>k i. snd st k = Some i \<longleftrightarrow> i < length (fst st) \<and> cfg_id (fst st ! i) = k)"

lemma cfg_id_nth_mem: "i < length out \<Longrightarrow> cfg_id (out ! i) = k \<Longrightarrow> k \<in> cfg_id ` set out"
  by auto

lemma merge_inv_fresh: "merge_inv (out, index) \<Longrightarrow> index k = None \<longleftrightarrow> k \<notin> cfg_id ` set out"
proof -
  assume "merge_inv (out, index)"
  then have "index k \<noteq> None \<longleftrightarrow> (\<exists>i < length out. cfg_id (out ! i) = k)"
    by (auto simp: merge_inv_def)
  then show ?thesis by (metis cfg_id_nth_mem imageE in_set_conv_nth)
qed

lemma merge_inv_append:
  assumes "merge_inv (out, index)" and "index (cfg_id c) = None"
  shows "merge_inv (out @ [c], index(cfg_id c \<mapsto> length out))"
proof -
  have fresh: "cfg_id c \<notin> cfg_id ` set out"
    using assms merge_inv_fresh by blast
  have old: "index k = Some i \<longleftrightarrow> i < length out \<and> cfg_id (out ! i) = k" for k i
    using assms(1) by (simp add: merge_inv_def)
  have "(index(cfg_id c \<mapsto> length out)) k = Some i \<longleftrightarrow>
      i < length (out @ [c]) \<and> cfg_id ((out @ [c]) ! i) = k" for k i
  proof (cases "k = cfg_id c")
    case True
    then show ?thesis
      using fresh cfg_id_nth_mem [of i out k] by (cases "i < length out") (auto simp: nth_append)
  next
    case False
    then show ?thesis
      using old [of k i] by (cases "i < length out") (auto simp: nth_append)
  qed
  with assms fresh show ?thesis by (simp add: merge_inv_def)
qed

lemma merge_inv_replace:
  assumes "merge_inv (out, index)" and "index (cfg_id c) = Some i"
  shows "merge_inv (out[i := c], index)"
proof -
  have i: "i < length out" "cfg_id (out ! i) = cfg_id c"
    using assms by (auto simp: merge_inv_def)
  then have ids: "map cfg_id (out[i := c]) = map cfg_id out"
    by (simp add: map_update list_update_same_conv)
  have "cfg_id (out[i := c] ! j) = cfg_id (out ! j)" if "j < length out" for j
    using i that by (cases "j = i") simp_all
  with assms ids show ?thesis by (auto simp: merge_inv_def)
qed

lemma keyed_cfgs_replace:
  assumes "distinct (map cfg_id out)" "i < length out" "cfg_id (out ! i) = cfg_id c"
  shows "keyed_cfgs (out[i := c]) = AList.update (cfg_id c) c (keyed_cfgs out)"
  using assms
proof (induction out arbitrary: i)
  case Nil
  then show ?case by simp
next
  case (Cons d out)
  show ?case
  proof (cases i)
    case 0
    with Cons.prems show ?thesis by (simp add: keyed_cfgs_def)
  next
    case (Suc j)
    with Cons.prems have "cfg_id d \<noteq> cfg_id c"
      using cfg_id_nth_mem [of j out "cfg_id c"] by auto
    with Suc Cons show ?thesis by (simp add: keyed_cfgs_def)
  qed
qed

lemma keyed_cfgs_append:
  "cfg_id c \<notin> cfg_id ` set out \<Longrightarrow> keyed_cfgs (out @ [c]) = AList.update (cfg_id c) c (keyed_cfgs out)"
  by (induction out) (auto simp: keyed_cfgs_def)

lemma merge_file_inv:
  assumes "merge_inv (out, index)" "distinct (map cfg_id (out @ cs))"
  shows "\<exists>ix. merge_file cs (out, index) = (out @ cs, ix) \<and> merge_inv (out @ cs, ix)"
  using assms
proof (induction cs arbitrary: out index)
  case Nil
  then show ?case by simp
next
  case (Cons c cs)
  have "index (cfg_id c) = None"
    using Cons.prems(2) merge_inv_fresh [OF Cons.prems(1)] by auto
  with Cons.prems(1) have "merge_inv (out @ [c], index(cfg_id c \<mapsto> length out))"
    by (rule merge_inv_append)
  from Cons.IH [OF this] Cons.prems(2) show ?case by (simp del: fun_upd_apply)
qed

lemma merge_db_refines:
  assumes "merge_inv (out, index)" "list_all (\<lambda>j. \<exists>c. parse j = Inr c) js"
  shows "\<exists>out' ix. merge_db parse js (out, index) = Inr (out', ix)
     \<and> keyed_cfgs out' = fold (\<lambda>j. AList.update (cfg_id (projr (parse j))) (projr (parse j))) js (keyed_cfgs out)"
  using assms
proof (induction js arbitrary: out index)
  case Nil
  then show ?case by simp
next
  case (Cons j js)
  then obtain c where c: "parse j = Inr c" by auto
  show ?case
  proof (cases "index (cfg_id c)")
    case None
    then have "cfg_id c \<notin> cfg_id ` set out"
      using merge_inv_fresh [OF Cons.prems(1)] by simp
    then show ?thesis
      using c None Cons.IH [OF merge_inv_append [OF Cons.prems(1) None]] Cons.prems(2)
      by (simp add: keyed_cfgs_append del: fun_upd_apply)
  next
    case (Some i)
    with Cons.prems(1) have "i < length out" "cfg_id (out ! i) = cfg_id c" "distinct (map cfg_id out)"
      by (auto simp: merge_inv_def)
    then show ?thesis
      using c Some Cons.IH [OF merge_inv_replace [OF Cons.prems(1) Some]] Cons.prems(2)
      by (simp add: keyed_cfgs_replace)
  qed
qed

text \<open>
  Merging file and database sinks is an in-place association-list update: with
  distinct ids in the file and database blobs that all parse, the result holds the file
  sinks in file order, each overridden by the last database sink of the same id, and
  then the database-only sinks in input order.
\<close>

lemma merge_sink_configs_refines:
  assumes "distinct (map cfg_id files)" and "list_all (\<lambda>j. \<exists>c. parse j = Inr c) blobs"
  shows "\<exists>out. merge_sink_configs parse files blobs = Inr out \<and>
     keyed_cfgs out = fold (\<lambda>j. AList.update (cfg_id (projr (parse j))) (projr (parse j)))
                        blobs (keyed_cfgs files)"
proof -
  have "merge_inv ([], Map.empty)" by (simp add: merge_inv_def)
  from merge_file_inv [OF this, of files] assms(1) obtain ix where
    "merge_file files ([], Map.empty) = (files, ix)" "merge_inv (files, ix)" by auto
  with merge_db_refines [of files ix parse blobs] assms(2) show ?thesis
    by (auto simp: merge_sink_configs_def)
qed

section \<open>Routing\<close>

lemma sinks_for_base:
  "\<exists>xs. sinks_for reg rule_sinks rid = push_missing (reserved_ids reg) xs
     \<and> set xs \<subseteq> set (registry_ids reg)"
  by (auto simp: sinks_for_def Let_def split: option.splits)

text \<open>
  Routing only names sinks that resolve, and always includes every reserved
  (subsystem) sink whatever the rule's allow-list says.
\<close>

lemma sinks_for_resolves:
  assumes "registry_inv reg"
  shows "set (reserved_ids reg) \<subseteq> set (sinks_for reg rule_sinks rid) \<and>
    (\<forall>i. i \<in> set (sinks_for reg rule_sinks rid) \<longrightarrow>
        (\<exists>s. registry_get reg i = Some s \<and> sk_id s = i))"
proof -
  obtain xs where "sinks_for reg rule_sinks rid = push_missing (reserved_ids reg) xs"
    and "set xs \<subseteq> set (registry_ids reg)"
    using sinks_for_base by blast
  then show ?thesis
    using registry.routed_resolves [OF assms] by (auto simp: registry.set_push_missing)
qed

lemma sinks_for_distinct_iff:
  assumes "registry_inv reg" and "rule_sinks rid = Some allow"
  shows "distinct (sinks_for reg rule_sinks rid) \<longleftrightarrow> distinct (filter (\<lambda>s. s \<in> set (registry_ids reg)) allow)"
  using assms registry.ids_distinct [OF assms(1)]
  by (auto simp: sinks_for_def Let_def registry.distinct_push_missing)

text \<open>
  A repeated sink loses the alert.  When a rule's allow-list names a configured
  sink twice, routing keeps both copies, the second insert violates
  \<open>UNIQUE (event_id, sink_id)\<close>, and the whole transaction is refused: neither the
  event nor any outbox row is recorded.  With no configured sink repeated, a new event
  of a registered camera is always recorded.
\<close>

lemma routed_record_iff_distinct:
  assumes "registry_inv reg" and "table_inv db" and "rule_sinks (ev_rule_id ev) = Some allow"
    and "events db (ev_event_id ev) = None" and "ev_camera_id ev \<in> set (cameras db)"
  shows "(\<exists>db'. record_event_and_enqueue_classified ev
              (sinks_for reg rule_sinks (ev_rule_id ev)) alerted now db = Inr db')
         \<longleftrightarrow> distinct (filter (\<lambda>s. s \<in> set (registry_ids reg)) allow)"
proof -
  let ?sinks = "sinks_for reg rule_sinks (ev_rule_id ev)"
  have "(ev_event_id ev, s) \<notin> row_key ` set (outbox db)" for s
    using assms(2,4) by (auto simp: table_inv_def list_all_iff row_key_def)
  then have "(\<exists>db'. record_event_and_enqueue_classified ev ?sinks alerted now db = Inr db')
      \<longleftrightarrow> distinct ?sinks"
    using assms(4,5) by (simp add: record_event_and_enqueue_classified_def enqueue_rows_ok_iff)
  with sinks_for_distinct_iff [of reg rule_sinks "ev_rule_id ev" allow] assms(1,3) show ?thesis by simp
qed

section \<open>Witnesses\<close>

definition demo_sink :: "string \<Rightarrow> bool \<Rightarrow> sink" where
  "demo_sink i w = \<lparr> sk_id = i, wants_clip = w \<rparr>"

definition demo_registry :: sink_registry where
  "demo_registry = insert_reserved (demo_sink ''cloud:console'' False)
     (snd (registry_replace [demo_sink ''webhook:a'' False, demo_sink ''email:ops'' True] registry_new))"

lemma demo_registry_eq:
  "demo_registry = \<lparr> inner = [(''webhook:a'', demo_sink ''webhook:a'' False), (''email:ops'', demo_sink ''email:ops'' True)],
     reserved = [(''cloud:console'', demo_sink ''cloud:console'' False)] \<rparr>"
  by (simp add: demo_registry_def insert_reserved_def registry_replace_def registry_new_def
      collect_sinks_def demo_sink_def)

lemma demo_registry_inv: "registry_inv demo_registry"
  by (simp add: demo_registry_eq registry_inv_def demo_sink_def)

definition demo_parse :: "string \<Rightarrow> string + sink_config" where
  "demo_parse s = (if s = ''a'' then Inr (Webhook ''a'' ''db'') else if s = ''b'' then Inr (Email ''b'' ''db'')
     else Inl ''expected value'')"

text \<open>The allow-list \<open>["webhook:a", "webhook:a"]\<close> drops the alert.\<close>

end
