(* ===== verification/Delivery_Policy.thy ===== *)
theory Delivery_Policy
  imports Sinks
begin

text \<open>
  Whether an alert leaves the box: the weekly schedule grid and the settings types of
  \<open>crates/nexus-types/src/lib.rs\<close>, the cascade of
  \<open>crates/nexus-sinks/src/policy.rs\<close> with its hot-reloaded caches, the entitlement
  cache of \<open>crates/nexus-cloud-client/src/entitlements.rs\<close> and the cloud-sink
  carve-out \<open>CloudAwarePolicy\<close> of
  \<open>crates/nexus-engine/src/cloud_alert_sink.rs\<close>.

  \<open>chrono_tz\<close> is a parameter: \<open>local tz t\<close> gives weekday (days from Monday), hour
  and minute of \<open>t\<close> in \<open>tz\<close>, \<open>parse_tz\<close> resolves an IANA name.
\<close>

section \<open>Schedules and settings\<close>

record delivery_schedule =
  grid :: "bool list list"

definition SLOTS_PER_DAY :: nat where
  "SLOTS_PER_DAY = 48"

definition DAYS :: nat where
  "DAYS = 7"

definition schedule_always :: delivery_schedule where
  "schedule_always = \<lparr> grid = replicate DAYS (replicate SLOTS_PER_DAY True) \<rparr>"

definition schedule_never :: delivery_schedule where
  "schedule_never = \<lparr> grid = replicate DAYS (replicate SLOTS_PER_DAY False) \<rparr>"

fun validate_rows :: "nat \<Rightarrow> bool list list \<Rightarrow> string + unit" where
  "validate_rows i [] = Inr ()"
| "validate_rows i (row # rows) =
     (if length row \<noteq> SLOTS_PER_DAY
      then Inl (''grid['' @ dec_nat i @ ''] length must be '' @ dec_nat SLOTS_PER_DAY
                @ '' (half-hour slots), got '' @ dec_nat (length row))
      else validate_rows (Suc i) rows)"

definition schedule_validate :: "delivery_schedule \<Rightarrow> string + unit" where
  "schedule_validate s =
     (if length (grid s) \<noteq> DAYS
      then Inl (''grid outer length must be '' @ dec_nat DAYS @ '' (one per day), got ''
                @ dec_nat (length (grid s)))
      else validate_rows 0 (grid s))"

definition is_allowed :: "delivery_schedule \<Rightarrow> nat \<Rightarrow> nat \<Rightarrow> bool" where
  "is_allowed s day slot =
     (if day < length (grid s) \<and> slot < length (grid s ! day) then grid s ! day ! slot else False)"

record delivery_settings =
  ds_enabled :: bool
  ds_schedule :: "delivery_schedule option"
  timezone :: string
  attach_alert_clip :: bool
  ds_updated_at :: instant

definition default_settings :: "instant \<Rightarrow> delivery_settings" where
  "default_settings now = \<lparr> ds_enabled = True, ds_schedule = None, timezone = ''UTC'',
     attach_alert_clip = True, ds_updated_at = now \<rparr>"

record rule_delivery_policy =
  rp_enabled :: bool
  rp_schedule :: "delivery_schedule option"

definition default_rule_policy :: rule_delivery_policy where
  "default_rule_policy = \<lparr> rp_enabled = True, rp_schedule = None \<rparr>"

datatype delivery_verdict = Deliver | SuppressedV suppression_reason

section \<open>The cascade\<close>

type_synonym 'tz localize = "'tz \<Rightarrow> instant \<Rightarrow> nat \<times> nat \<times> nat"

definition schedule_allows :: "'tz localize \<Rightarrow> delivery_schedule \<Rightarrow> 'tz \<Rightarrow> instant \<Rightarrow> bool" where
  "schedule_allows local schedule tz now =
     (let (weekday, hour, minute) = local tz now;
          slot = hour * 2 + (if 30 \<le> minute then 1 else 0)
      in is_allowed schedule weekday slot)"

definition evaluate_cascade ::
    "'tz localize \<Rightarrow> delivery_settings \<Rightarrow> 'tz \<Rightarrow> rule_delivery_policy option \<Rightarrow> instant \<Rightarrow> delivery_verdict" where
  "evaluate_cascade local settings tz rule_policy now =
     (if \<not> ds_enabled settings then SuppressedV GlobalDisabled
      else if (case rule_policy of Some p \<Rightarrow> \<not> rp_enabled p | None \<Rightarrow> False)
        then SuppressedV RuleDisabled
      else
        let (schedule, off_reason) =
              (case Option.bind rule_policy rp_schedule of
                 Some s \<Rightarrow> (Some s, OffScheduleRule)
               | None \<Rightarrow> (ds_schedule settings, OffScheduleGlobal))
        in case schedule of
             Some s \<Rightarrow> if schedule_allows local s tz now then Deliver else SuppressedV off_reason
           | None \<Rightarrow> Deliver)"

section \<open>The hot-reloaded caches\<close>

record 'tz cached_settings =
  cs_settings :: delivery_settings
  cs_tz :: 'tz

definition parse_tz_or_warn :: "(string \<Rightarrow> 'tz option) \<Rightarrow> 'tz \<Rightarrow> string \<Rightarrow> 'tz" where
  "parse_tz_or_warn parse_tz utc name = (case parse_tz name of Some tz \<Rightarrow> tz | None \<Rightarrow> utc)"

definition cached_from_db ::
    "(string \<Rightarrow> 'tz option) \<Rightarrow> 'tz \<Rightarrow> delivery_settings \<Rightarrow> 'tz cached_settings" where
  "cached_from_db parse_tz utc s =
     \<lparr> cs_settings = s, cs_tz = parse_tz_or_warn parse_tz utc (timezone s) \<rparr>"

record 'tz cascading_policy =
  cp_settings :: "'tz cached_settings"
  cp_rule_policies :: "string \<rightharpoonup> rule_delivery_policy"

text \<open>A store read is \<open>Inl e\<close> when the query or a decode fails.\<close>

definition policy_hydrate ::
    "(string \<Rightarrow> 'tz option) \<Rightarrow> 'tz \<Rightarrow> string + delivery_settings \<Rightarrow>
     string + (string \<rightharpoonup> rule_delivery_policy) \<Rightarrow> sink_error + 'tz cascading_policy" where
  "policy_hydrate parse_tz utc settings_read policies_read =
     (case settings_read of
        Inl e \<Rightarrow> Inl (Permanent (''hydrate delivery_settings: '' @ e))
      | Inr s \<Rightarrow>
          (case policies_read of
             Inl e \<Rightarrow> Inl (Permanent (''hydrate rule_delivery_policies: '' @ e))
           | Inr ps \<Rightarrow> Inr \<lparr> cp_settings = cached_from_db parse_tz utc s, cp_rule_policies = ps \<rparr>))"

definition reload_settings ::
    "(string \<Rightarrow> 'tz option) \<Rightarrow> 'tz \<Rightarrow> string + delivery_settings \<Rightarrow> 'tz cascading_policy \<Rightarrow>
     (sink_error + unit) \<times> 'tz cascading_policy" where
  "reload_settings parse_tz utc settings_read p =
     (case settings_read of
        Inl e \<Rightarrow> (Inl (Transient (''reload delivery_settings: '' @ e)), p)
      | Inr s \<Rightarrow> (Inr (), p\<lparr>cp_settings := cached_from_db parse_tz utc s\<rparr>))"

definition reload_all_rules ::
    "string + (string \<rightharpoonup> rule_delivery_policy) \<Rightarrow> 'tz cascading_policy \<Rightarrow>
     (sink_error + unit) \<times> 'tz cascading_policy" where
  "reload_all_rules policies_read p =
     (case policies_read of
        Inl e \<Rightarrow> (Inl (Transient (''reload rule_delivery_policies: '' @ e)), p)
      | Inr ps \<Rightarrow> (Inr (), p\<lparr>cp_rule_policies := ps\<rparr>))"

definition would_deliver :: "'tz localize \<Rightarrow> 'tz cascading_policy \<Rightarrow> string \<Rightarrow> instant \<Rightarrow> bool" where
  "would_deliver local p rule_id now =
     (evaluate_cascade local (cs_settings (cp_settings p)) (cs_tz (cp_settings p))
        (cp_rule_policies p rule_id) now = Deliver)"

definition cascading_evaluate ::
    "'tz localize \<Rightarrow> 'tz cascading_policy \<Rightarrow> outbox_row \<Rightarrow> alert_event \<Rightarrow> instant \<Rightarrow> delivery_verdict" where
  "cascading_evaluate local p row event now =
     evaluate_cascade local (cs_settings (cp_settings p)) (cs_tz (cp_settings p))
       (cp_rule_policies p (ev_rule_id event)) now"

definition allow_all_evaluate :: "outbox_row \<Rightarrow> alert_event \<Rightarrow> instant \<Rightarrow> delivery_verdict" where
  "allow_all_evaluate row event now = Deliver"

section \<open>Entitlements and the cloud carve-out\<close>

record entitlement_claims =
  ec_plan :: "string option"
  ec_max_cameras :: "int option"

type_synonym entitlement_cache = "string option"

definition entitlement_store :: "string \<Rightarrow> entitlement_cache \<Rightarrow> string option \<times> entitlement_cache" where
  "entitlement_store jwt cache = (cache, Some jwt)"

text \<open>\<open>decode\<close> is base64url decoding followed by \<open>serde_json\<close>; \<open>None\<close> on any
  failure.\<close>

definition decode_entitlement_claims ::
    "(string \<Rightarrow> entitlement_claims option) \<Rightarrow> string \<Rightarrow> entitlement_claims option" where
  "decode_entitlement_claims decode jwt =
     (case split_on CHR ''.'' jwt of
        [header, payload, signature] \<Rightarrow>
          if payload = [] \<or> signature = [] then None else decode payload
      | _ \<Rightarrow> None)"

definition is_suspended :: "(string \<Rightarrow> entitlement_claims option) \<Rightarrow> entitlement_cache \<Rightarrow> bool" where
  "is_suspended decode cache =
     (case cache of None \<Rightarrow> False
      | Some jwt \<Rightarrow>
          (case decode_entitlement_claims decode jwt of None \<Rightarrow> False
           | Some c \<Rightarrow> ec_plan c = Some ''suspended''
                      \<or> (case ec_max_cameras c of None \<Rightarrow> False | Some n \<Rightarrow> n \<le> 0)))"

definition CLOUD_SINK_PREFIX :: string where
  "CLOUD_SINK_PREFIX = ''cloud:''"

definition cloud_aware_evaluate ::
    "(outbox_row \<Rightarrow> alert_event \<Rightarrow> instant \<Rightarrow> delivery_verdict) \<Rightarrow> bool \<Rightarrow>
     outbox_row \<Rightarrow> alert_event \<Rightarrow> instant \<Rightarrow> delivery_verdict" where
  "cloud_aware_evaluate inner_evaluate suspended row event now =
     (if starts_with CLOUD_SINK_PREFIX (sink_id row)
      then (if suspended then SuppressedV EntitlementSuspended else Deliver)
      else inner_evaluate row event now)"

section \<open>Properties\<close>

lemma validate_rows_ok_iff:
  "validate_rows i rows = Inr () \<longleftrightarrow> list_all (\<lambda>row. length row = SLOTS_PER_DAY) rows"
  by (induction rows arbitrary: i) auto

text \<open>
  A validated grid is never read out of range: for every local time the clock can
  show, the schedule check returns the grid cell of that weekday and half hour, so the
  out-of-range fallback (deny) is not what decides.
\<close>

lemma valid_schedule_reads_grid:
  assumes "schedule_validate s = Inr ()"
    and "local tz now = (d, h, m)" and "d < 7" and "h < 24" and "m < 60"
  shows "d < length (grid s) \<and> h * 2 + m div 30 < length (grid s ! d)
    \<and> schedule_allows local s tz now = grid s ! d ! (h * 2 + m div 30)"
proof -
  have len: "length (grid s) = 7" and rows: "length (grid s ! d) = 48"
    using assms(1,3)
    by (auto simp: schedule_validate_def validate_rows_ok_iff list_all_length DAYS_def
        SLOTS_PER_DAY_def split: if_splits)
  have "h * 2 + m div 30 < 48" using assms(4,5) by linarith
  moreover have "(if 30 \<le> m then 1 else 0) = m div 30" using assms(5) by auto
  ultimately show ?thesis
    using rows len assms(2,3) by (simp add: schedule_allows_def is_allowed_def)
qed

text \<open>The schedule in force: the rule's own, else the global one.\<close>

definition effective_schedule ::
    "delivery_settings \<Rightarrow> rule_delivery_policy option \<Rightarrow> delivery_schedule option" where
  "effective_schedule settings rule_policy =
     (case Option.bind rule_policy rp_schedule of Some s \<Rightarrow> Some s | None \<Rightarrow> ds_schedule settings)"

text \<open>
  The cascade decides exactly as documented: an alert is delivered iff the global
  switch is on, the rule (if it has a policy) is on, and the schedule in force, if any,
  allows the slot; the reason of a suppression names the first failing stage, and an
  off-schedule reason names the schedule that was consulted.
\<close>

lemma cascade_decides:
  "evaluate_cascade local settings tz rp now =
    (if \<not> ds_enabled settings then SuppressedV GlobalDisabled
     else if \<exists>p. rp = Some p \<and> \<not> rp_enabled p then SuppressedV RuleDisabled
     else if \<exists>s. effective_schedule settings rp = Some s \<and> \<not> schedule_allows local s tz now
       then SuppressedV (if \<exists>p s. rp = Some p \<and> rp_schedule p = Some s then OffScheduleRule else OffScheduleGlobal)
     else Deliver)"
  by (auto simp: evaluate_cascade_def effective_schedule_def split: option.splits)

datatype reload = ReloadSettings "string + delivery_settings"
  | ReloadRules "string + (string \<rightharpoonup> rule_delivery_policy)"

fun apply_reload :: "(string \<Rightarrow> 'tz option) \<Rightarrow> 'tz \<Rightarrow> reload \<Rightarrow> 'tz cascading_policy \<Rightarrow> 'tz cascading_policy" where
  "apply_reload parse_tz utc (ReloadSettings r) p = snd (reload_settings parse_tz utc r p)"
| "apply_reload parse_tz utc (ReloadRules r) p = snd (reload_all_rules r p)"

definition reload_failed :: "reload \<Rightarrow> bool" where
  "reload_failed r = (case r of ReloadSettings x \<Rightarrow> (case x of Inl _ \<Rightarrow> True | Inr _ \<Rightarrow> False)
     | ReloadRules x \<Rightarrow> (case x of Inl _ \<Rightarrow> True | Inr _ \<Rightarrow> False))"

lemma failed_reload_keeps: "reload_failed r \<Longrightarrow> apply_reload parse_tz utc r p = p"
  by (cases r) (auto simp: reload_failed_def reload_settings_def reload_all_rules_def split: sum.splits)

text \<open>
  Arming and delivering cannot disagree on one cache: for any sequence of settings
  and rule reloads, successful or failed, the clip-arming decision \<open>would_deliver\<close> and
  the dispatcher's verdict for an event of that rule are the same, and a failed reload
  leaves the cache (hence every later verdict) unchanged.
\<close>

lemma arming_agrees_with_delivery:
  "let q = fold (apply_reload parse_tz utc) (filter (\<lambda>r. \<not> reload_failed r) reloads) p
   in fold (apply_reload parse_tz utc) reloads p = q
      \<and> (would_deliver local q (ev_rule_id event) now \<longleftrightarrow> cascading_evaluate local q row event now = Deliver)"
proof -
  have "fold (apply_reload parse_tz utc) reloads p =
      fold (apply_reload parse_tz utc) (filter (\<lambda>r. \<not> reload_failed r) reloads) p"
    by (induction reloads arbitrary: p) (simp_all add: failed_reload_keeps)
  then show ?thesis
    by (simp add: Let_def would_deliver_def cascading_evaluate_def)
qed

text \<open>
  The cloud audit sink is always on: no operator setting, rule policy or schedule
  suppresses a \<open>cloud:\<close> row, only a decoded suspension of the entitlement does; and a
  missing, malformed or undecodable entitlement never suspends (fail open).
\<close>

lemma cloud_sink_always_on:
  assumes "starts_with CLOUD_SINK_PREFIX (sink_id row)"
  shows "cloud_aware_evaluate inner_eval (is_suspended decode cache) row event now =
    (if \<exists>jwt h p s c. cache = Some jwt \<and> split_on CHR ''.'' jwt = [h, p, s] \<and> p \<noteq> [] \<and> s \<noteq> []
          \<and> decode p = Some c
          \<and> (ec_plan c = Some ''suspended'' \<or> (\<exists>n. ec_max_cameras c = Some n \<and> n \<le> 0))
     then SuppressedV EntitlementSuspended else Deliver)"
proof -
  have "decode_entitlement_claims decode jwt = Some c \<longleftrightarrow>
      (\<exists>h p s. split_on CHR ''.'' jwt = [h, p, s] \<and> p \<noteq> [] \<and> s \<noteq> [] \<and> decode p = Some c)" for jwt c
    by (auto simp: decode_entitlement_claims_def split: list.splits)
  then have "is_suspended decode cache \<longleftrightarrow> (\<exists>jwt h p s c. cache = Some jwt
      \<and> split_on CHR ''.'' jwt = [h, p, s] \<and> p \<noteq> [] \<and> s \<noteq> [] \<and> decode p = Some c
      \<and> (ec_plan c = Some ''suspended'' \<or> (\<exists>n. ec_max_cameras c = Some n \<and> n \<le> 0)))"
    by (fastforce simp: is_suspended_def split: option.splits)
  with assms show ?thesis by (simp add: cloud_aware_evaluate_def)
qed

definition demo_decode :: "string \<Rightarrow> entitlement_claims option" where
  "demo_decode p = (if p = ''zero'' then Some \<lparr> ec_plan = None, ec_max_cameras = Some 0 \<rparr> else None)"

end
