(* ===== verification/Sink_Dispatcher.thy ===== *)
theory Sink_Dispatcher
  imports Backoff Sinks Delivery_Policy "HOL-Library.Multiset" "HOL-Library.Sublist"
begin

text \<open>
  \<open>crates/nexus-sinks/src/dispatcher.rs\<close>: the task that drains the outbox.  The
  state is a \<open>world\<close> (the database, the outcomes handed to the bus, the snapshot
  files, and a log of the \<open>deliver\<close> calls made); \<open>process_row\<close> is one row of one
  sink group, \<open>tick\<close> one drain.  What the outside answers while a row is processed
  (clock readings, clip lookups, file existence, the result of \<open>deliver\<close>, failing
  queries and writes) is the record \<open>row_env\<close>; the properties hold for every such
  environment.  Sink groups run concurrently: \<open>tick_rel\<close> processes the rows in any
  interleaving of the groups, row by row.
\<close>

section \<open>Configuration, environment, world\<close>

datatype sink_delivery_outcome = FirstFailure | DeadOutcome

definition CLIP_LINK_GRACE_SECS :: int where
  "CLIP_LINK_GRACE_SECS = 10"

definition ALERT_CLIP_BUILD_GRACE_SECS :: int where
  "ALERT_CLIP_BUILD_GRACE_SECS = 45"

definition CLIP_WAIT_POLL_SECS :: int where
  "CLIP_WAIT_POLL_SECS = 1"

definition BATCH_SIZE :: int where
  "BATCH_SIZE = 64"

definition TICK_INTERVAL :: duration where
  "TICK_INTERVAL = 1000000000"

definition DELIVER_TIMEOUT :: duration where
  "DELIVER_TIMEOUT = 300 * 1000000000"

record dispatcher_config =
  tick_interval :: duration
  batch_size :: int
  clips_dir :: "string option"
  snapshots_dir :: "string option"
  deliver_timeout :: duration

definition default_dispatcher_config :: dispatcher_config where
  "default_dispatcher_config = \<lparr> tick_interval = TICK_INTERVAL, batch_size = BATCH_SIZE,
     clips_dir = None, snapshots_dir = None, deliver_timeout = DELIVER_TIMEOUT \<rparr>"

record dispatch_ctx =
  cfg :: dispatcher_config
  registry_of :: sink_registry
  policy :: "outbox_row \<Rightarrow> alert_event \<Rightarrow> instant \<Rightarrow> delivery_verdict"
  has_bus :: bool

record alert_clip =
  ac_path :: string
  ac_state :: string

record motion_clip =
  mc_ended_at :: "instant option"
  mc_hot_path :: "string option"

text \<open>\<open>tokio::time::timeout\<close> around \<open>deliver\<close>: its result, or the ceiling.\<close>

datatype deliver_result = Returned "sink_error + unit" | Elapsed

record row_env =
  t_policy :: instant
  t_grace :: instant
  t_write :: instant
  event_fault :: "string option"
  get_event_alert_clip :: "string + alert_clip option"
  get_event_clip_id :: "string + int option"
  get_clip :: "int \<Rightarrow> string + motion_clip option"
  file_exists :: "string \<Rightarrow> bool"
  deliver :: "sink \<Rightarrow> alert_event \<Rightarrow> deliver_result"
  write_fails :: bool
  for_event_fails :: bool
  remove_fails :: bool

record world =
  db :: outbox_db
  published :: "(string \<times> sink_delivery_outcome) list"
  snapshots :: "string set"
  calls :: "(int \<times> alert_event) list"

section \<open>Helpers\<close>

definition publish_outcome :: "dispatch_ctx \<Rightarrow> string \<Rightarrow> sink_delivery_outcome \<Rightarrow> world \<Rightarrow> world" where
  "publish_outcome ctx sid outcome w =
     (if \<not> has_bus ctx then w
      else (case sink_id_parse sid of None \<Rightarrow> w
            | Some parsed \<Rightarrow> w\<lparr>published := published w @ [(parsed, outcome)]\<rparr>))"

text \<open>A failed \<open>outbox_mark_*\<close> is logged and otherwise ignored.\<close>

definition write_row :: "row_env \<Rightarrow> (outbox_db \<Rightarrow> store_error + outbox_db) \<Rightarrow> world \<Rightarrow> world" where
  "write_row env upd w =
     (if write_fails env then w
      else (case upd (db w) of Inl _ \<Rightarrow> w | Inr d \<Rightarrow> w\<lparr>db := d\<rparr>))"

definition reclaim_snapshot_if_drained :: "dispatch_ctx \<Rightarrow> row_env \<Rightarrow> string \<Rightarrow> world \<Rightarrow> world" where
  "reclaim_snapshot_if_drained ctx env ev w =
     (case snapshots_dir (cfg ctx) of None \<Rightarrow> w
      | Some dir \<Rightarrow>
          if for_event_fails env then w
          else if list_ex (\<lambda>r. status r = Pending) (outbox_for_event ev (db w)) then w
          else if remove_fails env then w
          else w\<lparr>snapshots := snapshots w - {path_join dir (ev @ ''.jpg'')}\<rparr>)"

definition within_grace :: "row_env \<Rightarrow> outbox_row \<Rightarrow> int \<Rightarrow> bool" where
  "within_grace env row grace =
     (let age = t_grace env - created_at row in 0 \<le> age \<and> age < secs grace)"

definition within_clip_grace :: "row_env \<Rightarrow> outbox_row \<Rightarrow> bool" where
  "within_clip_grace env row = within_grace env row CLIP_LINK_GRACE_SECS"

definition within_alert_clip_grace :: "row_env \<Rightarrow> outbox_row \<Rightarrow> bool" where
  "within_alert_clip_grace env row = within_grace env row ALERT_CLIP_BUILD_GRACE_SECS"

definition report_first_failure :: "dispatch_ctx \<Rightarrow> outbox_row \<Rightarrow> world \<Rightarrow> world" where
  "report_first_failure ctx row w =
     (if attempts row = 0 then publish_outcome ctx (sink_id row) FirstFailure w else w)"

definition mark_dead :: "dispatch_ctx \<Rightarrow> row_env \<Rightarrow> outbox_row \<Rightarrow> string \<Rightarrow> world \<Rightarrow> world" where
  "mark_dead ctx env row msg w =
     reclaim_snapshot_if_drained ctx env (event_id row)
       (publish_outcome ctx (sink_id row) DeadOutcome
         (write_row env (outbox_mark_dead (row_id row) msg) w))"

definition schedule_retry :: "dispatch_ctx \<Rightarrow> row_env \<Rightarrow> outbox_row \<Rightarrow> string \<Rightarrow> world \<Rightarrow> world" where
  "schedule_retry ctx env row msg w =
     (let next_attempts = sat_add_word (word_of_int (attempts row) :: u32) 1
      in case backoff_for next_attempts of
           Some delay \<Rightarrow>
             write_row env (outbox_mark_failed (row_id row) msg (t_write env + int delay)) w
         | None \<Rightarrow> mark_dead ctx env row (''max retries exceeded ('' @ msg @ '')'') w)"

definition schedule_clip_wait :: "row_env \<Rightarrow> outbox_row \<Rightarrow> string \<Rightarrow> world \<Rightarrow> world" where
  "schedule_clip_wait env row msg w =
     write_row env (outbox_mark_waiting (row_id row) msg (t_write env + secs CLIP_WAIT_POLL_SECS)) w"

section \<open>Processing one row\<close>

text \<open>The outcome of a clip-resolution stage: the row is finished for this tick, or
  delivery goes on with the event (and whether the motion clip may still be tried).\<close>

datatype clip_step = Stop world | Go alert_event bool

definition resolve_alert_clip ::
    "dispatch_ctx \<Rightarrow> row_env \<Rightarrow> outbox_row \<Rightarrow> sink \<Rightarrow> alert_event \<Rightarrow> world \<Rightarrow> clip_step" where
  "resolve_alert_clip ctx env row sink event w =
     (if wants_clip sink \<and> art_clip event = None then
        (case get_event_alert_clip env of
           Inl e \<Rightarrow> Stop (schedule_retry ctx env row (''alert clip lookup: '' @ e) w)
         | Inr None \<Rightarrow> Go event True
         | Inr (Some clip) \<Rightarrow>
             if ac_state clip = ''ready'' then
               (case clips_dir (cfg ctx) of
                  None \<Rightarrow> Go event False
                | Some dir \<Rightarrow>
                    let abs_path = path_join dir (ac_path clip)
                    in if file_exists env abs_path then Go (event\<lparr>art_clip := Some abs_path\<rparr>) False
                       else Go event False)
             else if ac_state clip = ''failed'' then Go event False
             else if within_alert_clip_grace env row
               then Stop (schedule_clip_wait env row ''alert clip still building'' w)
             else Go event False)
      else Go event True)"

definition resolve_motion_clip ::
    "dispatch_ctx \<Rightarrow> row_env \<Rightarrow> outbox_row \<Rightarrow> sink \<Rightarrow> alert_event \<Rightarrow> bool \<Rightarrow> world \<Rightarrow> clip_step" where
  "resolve_motion_clip ctx env row sink event motion_clip_fallback w =
     (if wants_clip sink \<and> art_clip event = None \<and> motion_clip_fallback then
        (case get_event_clip_id env of
           Inl e \<Rightarrow> Stop (schedule_retry ctx env row (''clip lookup error: '' @ e) w)
         | Inr None \<Rightarrow>
             if within_clip_grace env row
             then Stop (schedule_clip_wait env row ''clip link pending; awaiting supervisor clip link'' w)
             else Go event False
         | Inr (Some clip_id) \<Rightarrow>
             (case get_clip env clip_id of
                Inl e \<Rightarrow> Stop (schedule_retry ctx env row (''get_clip error: '' @ e) w)
              | Inr None \<Rightarrow> Go event False
              | Inr (Some clip) \<Rightarrow>
                  if mc_ended_at clip = None then
                    Stop (schedule_clip_wait env row
                      (''clip '' @ dec_int clip_id @ '' still recording; awaiting post-roll close'') w)
                  else
                    (case (clips_dir (cfg ctx), mc_hot_path clip) of
                       (Some dir, Some rel) \<Rightarrow>
                         let abs_path = path_join dir rel
                         in if file_exists env abs_path then Go (event\<lparr>art_clip := Some abs_path\<rparr>) False
                            else if within_clip_grace env row then
                              Stop (schedule_clip_wait env row
                                ''clip hot file not yet on disk; awaiting recorder flush'' w)
                            else Go event False
                     | _ \<Rightarrow>
                         if clips_dir (cfg ctx) \<noteq> None \<and> within_clip_grace env row then
                           Stop (schedule_clip_wait env row
                             ''clip has no hot path yet; awaiting recorder finalize'' w)
                         else Go event False)))
      else Go event False)"

definition deliver_row ::
    "dispatch_ctx \<Rightarrow> row_env \<Rightarrow> outbox_row \<Rightarrow> sink \<Rightarrow> alert_event \<Rightarrow> world \<Rightarrow> world" where
  "deliver_row ctx env row sink event w =
     (let w1 = w\<lparr>calls := calls w @ [(row_id row, event)]\<rparr>;
          delivered = (case deliver env sink event of
              Returned result \<Rightarrow> result
            | Elapsed \<Rightarrow> Inl (Transient (''deliver() timed out after ''
                @ dec_nat (deliver_timeout (cfg ctx) div 1000000000) @ ''s'')))
      in case delivered of
           Inr _ \<Rightarrow> reclaim_snapshot_if_drained ctx env (event_id row)
                      (write_row env (outbox_mark_sent (row_id row) (t_write env)) w1)
         | Inl (Permanent msg) \<Rightarrow>
             mark_dead ctx env row (''permanent: '' @ msg) (report_first_failure ctx row w1)
         | Inl (Transient msg) \<Rightarrow>
             schedule_retry ctx env row (''transient: '' @ msg) (report_first_failure ctx row w1))"

definition get_event :: "row_env \<Rightarrow> outbox_db \<Rightarrow> string \<Rightarrow> string + alert_event option" where
  "get_event env d ev =
     (case event_fault env of Some e \<Rightarrow> Inl e | None \<Rightarrow> Inr (map_option fst (events d ev)))"

definition resolve_and_deliver ::
    "dispatch_ctx \<Rightarrow> row_env \<Rightarrow> outbox_row \<Rightarrow> alert_event \<Rightarrow> world \<Rightarrow> world" where
  "resolve_and_deliver ctx env row event w =
     (case sink_id_parse (sink_id row) of
        None \<Rightarrow> mark_dead ctx env row (''malformed sink_id: '' @ debug_str (sink_id row)) w
      | Some sid \<Rightarrow>
          (case registry_get (registry_of ctx) sid of
             None \<Rightarrow> mark_dead ctx env row (''no sink registered for '' @ sink_id row) w
           | Some sink \<Rightarrow>
               (case resolve_alert_clip ctx env row sink event w of
                  Stop w' \<Rightarrow> w'
                | Go event1 fallback \<Rightarrow>
                    (case resolve_motion_clip ctx env row sink event1 fallback w of
                       Stop w' \<Rightarrow> w'
                     | Go event2 _ \<Rightarrow> deliver_row ctx env row sink event2 w))))"

definition process_row :: "dispatch_ctx \<Rightarrow> row_env \<Rightarrow> outbox_row \<Rightarrow> world \<Rightarrow> world" where
  "process_row ctx env row w =
     (if status row \<noteq> Pending then w
      else
        (case get_event env (db w) (event_id row) of
           Inl e \<Rightarrow> schedule_retry ctx env row (''store error: '' @ e) w
         | Inr None \<Rightarrow>
             mark_dead ctx env row (''event '' @ event_id row @ '' missing (likely clip-evicted)'') w
         | Inr (Some event) \<Rightarrow>
             (case policy ctx row event (t_policy env) of
                SuppressedV reason \<Rightarrow>
                  reclaim_snapshot_if_drained ctx env (event_id row)
                    (write_row env (outbox_mark_suppressed (row_id row) reason) w)
              | Deliver \<Rightarrow> resolve_and_deliver ctx env row event w)))"

section \<open>Liveness counters\<close>

text \<open>Counters of \<open>DispatcherHealth\<close>; clock readings in Unix milliseconds, zero for never.\<close>

record dispatcher_health =
  completed_ms :: int
  started_ms :: int
  ticks_completed :: u64
  rows_processed :: u64
  last_batch_rows :: u64

definition default_health :: dispatcher_health where
  "default_health = \<lparr> completed_ms = 0, started_ms = 0, ticks_completed = 0, rows_processed = 0,
     last_batch_rows = 0 \<rparr>"

definition timestamp_millis :: "instant \<Rightarrow> int" where
  "timestamp_millis t = t div 1000000"

definition mark_tick_started :: "instant \<Rightarrow> dispatcher_health \<Rightarrow> dispatcher_health" where
  "mark_tick_started now h = h\<lparr>started_ms := timestamp_millis now\<rparr>"

definition mark_tick_completed :: "instant \<Rightarrow> u64 \<Rightarrow> u64 \<Rightarrow> dispatcher_health \<Rightarrow> dispatcher_health" where
  "mark_tick_completed now fetched processed h =
     h\<lparr>last_batch_rows := fetched, rows_processed := rows_processed h + processed,
       ticks_completed := ticks_completed h + 1, completed_ms := timestamp_millis now\<rparr>"

definition last_tick_completed_ms :: "dispatcher_health \<Rightarrow> int option" where
  "last_tick_completed_ms h = (if completed_ms h = 0 then None else Some (completed_ms h))"

definition last_tick_started_ms :: "dispatcher_health \<Rightarrow> int option" where
  "last_tick_started_ms h = (if started_ms h = 0 then None else Some (started_ms h))"

definition age_ms :: "dispatcher_health \<Rightarrow> instant \<Rightarrow> int option" where
  "age_ms h now = map_option (\<lambda>ms. sat_sub_i64 (timestamp_millis now) ms) (last_tick_completed_ms h)"

text \<open>\<open>as_millis() as i64\<close> keeps the low 64 bits.\<close>

definition is_live :: "dispatcher_health \<Rightarrow> instant \<Rightarrow> duration \<Rightarrow> bool" where
  "is_live h now stall_after =
     (case age_ms h now of None \<Rightarrow> False
      | Some age \<Rightarrow> age \<le> signed_take_bit 63 (int (stall_after div 1000000)))"

section \<open>One drain\<close>

text \<open>
  What a tick meets: its clock readings, whether the fetch fails, the environment of
  each row, and after which rows the group's budget has run out.
\<close>

record tick_env =
  tk_started :: instant
  tk_fetch :: instant
  tk_completed :: instant
  pending_fails :: bool
  env_of :: "outbox_row \<Rightarrow> row_env"
  out_of_budget :: "outbox_row \<Rightarrow> bool"

definition group_by_sink :: "outbox_row list \<Rightarrow> outbox_row list list" where
  "group_by_sink rows = map (\<lambda>s. filter (\<lambda>r. sink_id r = s) rows) (sort (remdups (map sink_id rows)))"

text \<open>The budget is looked at after each row, so the first row of a group always runs.\<close>

fun budgeted :: "(outbox_row \<Rightarrow> bool) \<Rightarrow> outbox_row list \<Rightarrow> outbox_row list" where
  "budgeted out [] = []"
| "budgeted out (r # rs) = r # (if out r then [] else budgeted out rs)"

definition tick_groups :: "dispatch_ctx \<Rightarrow> tick_env \<Rightarrow> world \<Rightarrow> outbox_row list list" where
  "tick_groups ctx te w =
     map (budgeted (out_of_budget te))
       (group_by_sink (outbox_pending (tk_fetch te) (batch_size (cfg ctx)) (db w)))"

definition process_rows :: "dispatch_ctx \<Rightarrow> tick_env \<Rightarrow> outbox_row list \<Rightarrow> world \<Rightarrow> world" where
  "process_rows ctx te rows w = fold (\<lambda>row. process_row ctx (env_of te row) row) rows w"

definition finish_tick ::
    "dispatch_ctx \<Rightarrow> tick_env \<Rightarrow> outbox_row list \<Rightarrow> dispatcher_health \<times> world \<Rightarrow> dispatcher_health \<times> world" where
  "finish_tick ctx te sched s =
     (mark_tick_completed (tk_completed te)
        (of_nat (length (outbox_pending (tk_fetch te) (batch_size (cfg ctx)) (db (snd s)))))
        (of_nat (length sched)) (mark_tick_started (tk_started te) (fst s)),
      process_rows ctx te sched (snd s))"

text \<open>The interleavings of the sink groups: each keeps its own order.\<close>

inductive interleave :: "'a list list \<Rightarrow> 'a list \<Rightarrow> bool" where
  il_done: "list_all (\<lambda>xs. xs = []) xss \<Longrightarrow> interleave xss []"
| il_step: "i < length xss \<Longrightarrow> xss ! i = x # xs \<Longrightarrow> interleave (xss[i := xs]) ys \<Longrightarrow> interleave xss (x # ys)"

text \<open>A failed fetch leaves the completion clock alone.\<close>

inductive tick_rel ::
    "dispatch_ctx \<Rightarrow> tick_env \<Rightarrow> dispatcher_health \<times> world \<Rightarrow> dispatcher_health \<times> world \<Rightarrow> bool"
  for ctx te where
  tick_fetch_failed: "pending_fails te \<Longrightarrow> tick_rel ctx te (h, w) (mark_tick_started (tk_started te) h, w)"
| tick_drained: "\<not> pending_fails te \<Longrightarrow> interleave (tick_groups ctx te w) sched
    \<Longrightarrow> tick_rel ctx te (h, w) (finish_tick ctx te sched (h, w))"

inductive_cases tick_relE: "tick_rel ctx te s s'"

text \<open>The schedule that runs the groups one after the other.\<close>

definition tick ::
    "dispatch_ctx \<Rightarrow> tick_env \<Rightarrow> dispatcher_health \<times> world \<Rightarrow> dispatcher_health \<times> world" where
  "tick ctx te s =
     (if pending_fails te then (mark_tick_started (tk_started te) (fst s), snd s)
      else finish_tick ctx te (concat (tick_groups ctx te (snd s))) s)"

text \<open>\<open>run_dispatcher\<close>: the boot pass and one tick per timer firing until shutdown.\<close>

definition run_dispatcher ::
    "dispatch_ctx \<Rightarrow> tick_env list \<Rightarrow> dispatcher_health \<times> world \<Rightarrow> dispatcher_health \<times> world" where
  "run_dispatcher ctx tes s = fold (tick ctx) tes s"

section \<open>What one row does to the database and the call log\<close>

lemma publish_outcome_frame [dispatch_simps]:
  "db (publish_outcome ctx s out w) = db w" "calls (publish_outcome ctx s out w) = calls w"
  "snapshots (publish_outcome ctx s out w) = snapshots w"
  by (simp_all add: publish_outcome_def split: option.split)

lemma report_first_failure_frame [dispatch_simps]:
  "db (report_first_failure ctx row w) = db w" "calls (report_first_failure ctx row w) = calls w"
  "snapshots (report_first_failure ctx row w) = snapshots w"
  by (simp_all add: report_first_failure_def dispatch_simps)

lemma write_row_frame [dispatch_simps]:
  "calls (write_row env upd w) = calls w" "snapshots (write_row env upd w) = snapshots w"
  by (simp_all add: write_row_def split: sum.split)

lemma reclaim_frame [dispatch_simps]:
  "db (reclaim_snapshot_if_drained ctx env ev w) = db w"
  "calls (reclaim_snapshot_if_drained ctx env ev w) = calls w"
  by (simp_all add: reclaim_snapshot_if_drained_def split: option.split)

definition db_write :: "row_env \<Rightarrow> (outbox_db \<Rightarrow> store_error + outbox_db) \<Rightarrow> outbox_db \<Rightarrow> outbox_db" where
  "db_write env upd d = (if write_fails env then d else case upd d of Inl _ \<Rightarrow> d | Inr d' \<Rightarrow> d')"

lemma db_write_row [dispatch_simps]: "db (write_row env upd w) = db_write env upd (db w)"
  by (simp add: write_row_def db_write_def split: sum.split)

lemma mark_dead_effect [dispatch_simps]:
  "db (mark_dead ctx env row msg w) = db_write env (sql_update (dead_row msg) (row_id row)) (db w)"
  "calls (mark_dead ctx env row msg w) = calls w"
  by (simp_all add: mark_dead_def outbox_mark_dead_def dispatch_simps)

lemma schedule_clip_wait_effect [dispatch_simps]:
  "db (schedule_clip_wait env row msg w)
     = db_write env (sql_update (waiting_row msg (t_write env + secs CLIP_WAIT_POLL_SECS)) (row_id row)) (db w)"
  "calls (schedule_clip_wait env row msg w) = calls w"
  by (simp_all add: schedule_clip_wait_def outbox_mark_waiting_def dispatch_simps)

text \<open>
  When a row may be parked for a clip: its sink wants one, and the row is inside a grace
  window or the motion clip linked to its event is still being recorded.
\<close>

definition resolved_sink :: "dispatch_ctx \<Rightarrow> outbox_row \<Rightarrow> sink option" where
  "resolved_sink ctx row = Option.bind (sink_id_parse (sink_id row)) (registry_get (registry_of ctx))"

definition clip_open :: "row_env \<Rightarrow> bool" where
  "clip_open env = (case get_event_clip_id env of
       Inr (Some c) \<Rightarrow> (case get_clip env c of Inr (Some clip) \<Rightarrow> mc_ended_at clip = None | _ \<Rightarrow> False)
     | _ \<Rightarrow> False)"

definition may_wait :: "dispatch_ctx \<Rightarrow> row_env \<Rightarrow> outbox_row \<Rightarrow> bool" where
  "may_wait ctx env row \<longleftrightarrow> (case resolved_sink ctx row of None \<Rightarrow> False | Some sink \<Rightarrow> wants_clip sink)
     \<and> (within_clip_grace env row \<or> within_alert_clip_grace env row \<or> clip_open env)"

text \<open>
  The contract of one row: the five updates the dispatcher may write, and whether
  \<open>deliver\<close> was called on the way.  A retry needs budget left after this attempt.
\<close>

inductive row_effect :: "dispatch_ctx \<Rightarrow> row_env \<Rightarrow> outbox_row \<Rightarrow> bool \<Rightarrow> (outbox_row \<Rightarrow> outbox_row) \<Rightarrow> bool"
  for ctx env row where
  eff_sent: "row_effect ctx env row True (sent_row (t_write env))"
| eff_retry: "backoff_for (sat_add_word (word_of_int (attempts row)) 1) = Some delay
    \<Longrightarrow> row_effect ctx env row called (failed_row msg (t_write env + int delay))"
| eff_dead: "row_effect ctx env row called (dead_row msg)"
| eff_wait: "may_wait ctx env row
    \<Longrightarrow> row_effect ctx env row False (waiting_row msg (t_write env + secs CLIP_WAIT_POLL_SECS))"
| eff_suppress: "row_effect ctx env row False (suppressed_row reason)"

inductive_cases row_effectE: "row_effect ctx env row called f"

definition effects ::
    "dispatch_ctx \<Rightarrow> row_env \<Rightarrow> outbox_row \<Rightarrow> (string \<rightharpoonup> alert_event \<times> bool) \<Rightarrow> (world \<Rightarrow> world) \<Rightarrow> bool" where
  "effects ctx env row E p \<longleftrightarrow>
     (\<exists>called f evs. row_effect ctx env row called f \<and> length evs = (if called then 1 else 0) \<and>
        (\<forall>w. events (db w) = E \<longrightarrow>
           db (p w) = db_write env (sql_update f (row_id row)) (db w) \<and>
           calls (p w) = calls w @ map (Pair (row_id row)) evs))"

lemma effectsI:
  assumes "row_effect ctx env row called f" and "length evs = (if called then 1 else 0)"
    and "\<And>w. events (db w) = E \<Longrightarrow> db (p w) = db_write env (sql_update f (row_id row)) (db w)"
    and "\<And>w. events (db w) = E \<Longrightarrow> calls (p w) = calls w @ map (Pair (row_id row)) evs"
  shows "effects ctx env row E p"
  unfolding effects_def using assms by blast

lemma effects_mark_dead: "effects ctx env row E (mark_dead ctx env row msg)"
  by (rule effectsI [OF eff_dead [where called = False], where evs = "[]"]) (simp_all add: dispatch_simps)

lemma effects_clip_wait:
  "may_wait ctx env row \<Longrightarrow> effects ctx env row E (schedule_clip_wait env row msg)"
  by (rule effectsI [OF eff_wait, where evs = "[]"]) (simp_all add: dispatch_simps)

lemma schedule_retry_effect:
  "\<exists>f. (\<forall>called. row_effect ctx env row called f) \<and>
       (\<forall>w. db (schedule_retry ctx env row msg w) = db_write env (sql_update f (row_id row)) (db w) \<and>
            calls (schedule_retry ctx env row msg w) = calls w)"
proof (cases "backoff_for (sat_add_word (word_of_int (attempts row)) 1)")
  case None
  then show ?thesis
    by (intro exI [of _ "dead_row (''max retries exceeded ('' @ msg @ '')'')"])
       (simp add: schedule_retry_def dispatch_simps eff_dead)
next
  case (Some delay)
  then show ?thesis
    by (intro exI [of _ "failed_row msg (t_write env + int delay)"])
       (simp add: schedule_retry_def dispatch_simps eff_retry outbox_mark_failed_def)
qed

lemma effects_retry: "effects ctx env row E (schedule_retry ctx env row msg)"
  using schedule_retry_effect [of ctx env row msg]
  by (elim exE conjE) (rule effectsI [where called = False and evs = "[]"], simp_all)

lemma deliver_row_cases:
  obtains (sent) "deliver_row ctx env row sink event = (\<lambda>w. reclaim_snapshot_if_drained ctx env (event_id row)
      (write_row env (outbox_mark_sent (row_id row) (t_write env))
        (w\<lparr>calls := calls w @ [(row_id row, event)]\<rparr>)))"
  | (dead) msg where "deliver_row ctx env row sink event = (\<lambda>w. mark_dead ctx env row msg
      (report_first_failure ctx row (w\<lparr>calls := calls w @ [(row_id row, event)]\<rparr>)))"
  | (retry) msg where "deliver_row ctx env row sink event = (\<lambda>w. schedule_retry ctx env row msg
      (report_first_failure ctx row (w\<lparr>calls := calls w @ [(row_id row, event)]\<rparr>)))"
proof -
  define delivered where "delivered = (case deliver env sink event of
              Returned result \<Rightarrow> result
            | Elapsed \<Rightarrow> Inl (Transient (''deliver() timed out after ''
                @ dec_nat (deliver_timeout (cfg ctx) div 1000000000) @ ''s'')))"
  note defs = deliver_row_def [abs_def] Let_def delivered_def [symmetric]
  consider u where "delivered = Inr u" | m where "delivered = Inl (Permanent m)"
    | m where "delivered = Inl (Transient m)"
    by (metis sink_error.exhaust old.sum.exhaust)
  then show ?thesis
    by cases (simp_all add: defs that)
qed

lemma effects_deliver: "effects ctx env row E (deliver_row ctx env row sink event)"
proof (cases rule: deliver_row_cases [of ctx env row sink event])
  case sent
  then show ?thesis
    by (intro effectsI [OF eff_sent, where evs = "[event]"]) (simp_all add: dispatch_simps outbox_mark_sent_def)
next
  case (dead msg)
  then show ?thesis
    by (intro effectsI [OF eff_dead [where called = True], where evs = "[event]"]) (simp_all add: dispatch_simps)
next
  case (retry msg)
  obtain f where "row_effect ctx env row True f"
    and "\<And>w. db (schedule_retry ctx env row msg w) = db_write env (sql_update f (row_id row)) (db w)"
    and "\<And>w. calls (schedule_retry ctx env row msg w) = calls w"
    using schedule_retry_effect [of ctx env row msg] by blast
  with retry show ?thesis
    by (intro effectsI [where called = True and evs = "[event]"]) (simp_all add: dispatch_simps)
qed

lemma effects_cong:
  assumes "effects ctx env row E p" and "\<And>w. events (db w) = E \<Longrightarrow> q w = p w"
  shows "effects ctx env row E q"
  using assms unfolding effects_def by metis

lemma effects_suppress:
  "effects ctx env row E (\<lambda>w. reclaim_snapshot_if_drained ctx env (event_id row)
     (write_row env (outbox_mark_suppressed (row_id row) reason) w))"
  by (rule effectsI [OF eff_suppress, where evs = "[]"])
     (simp_all add: dispatch_simps outbox_mark_suppressed_def)

text \<open>
  How a row may end: by a retry, a death, a parking, a suppression or a delivery.  A
  property \<open>P\<close> of world transformers that these five have is a property of
  \<open>process_row\<close>; the clip stages only choose among them, and what they choose does not
  depend on the outbox.
\<close>

locale row_endings =
  fixes ctx :: dispatch_ctx and env :: row_env and row :: outbox_row
    and E :: "string \<rightharpoonup> alert_event \<times> bool" and P :: "(world \<Rightarrow> world) \<Rightarrow> bool"
  assumes P_retry: "P (schedule_retry ctx env row msg)"
    and P_dead: "P (mark_dead ctx env row msg)"
    and P_wait: "may_wait ctx env row \<Longrightarrow> P (schedule_clip_wait env row msg)"
    and P_suppress: "P (\<lambda>w. reclaim_snapshot_if_drained ctx env (event_id row)
          (write_row env (outbox_mark_suppressed (row_id row) reason) w))"
    and P_deliver: "P (deliver_row ctx env row sink event)"
    and P_cong: "P p \<Longrightarrow> (\<And>w. events (db w) = E \<Longrightarrow> q w = p w) \<Longrightarrow> P q"
begin

definition stage_ok :: "(world \<Rightarrow> clip_step) \<Rightarrow> bool" where
  "stage_ok f \<longleftrightarrow> (\<exists>e b. f = (\<lambda>w. Go e b)) \<or> (\<exists>p. P p \<and> f = (\<lambda>w. Stop (p w)))"

lemma stage_ok_Go: "stage_ok (\<lambda>w. Go e b)"
  by (auto simp: stage_ok_def)

lemma stage_ok_Stop: "P p \<Longrightarrow> stage_ok (\<lambda>w. Stop (p w))"
  by (auto simp: stage_ok_def)

lemma stage_ok_if:
  "(c \<Longrightarrow> stage_ok f) \<Longrightarrow> (\<not> c \<Longrightarrow> stage_ok g) \<Longrightarrow> stage_ok (\<lambda>w. if c then f w else g w)"
  by (cases c) simp_all

lemma stage_ok_option:
  "(opt = None \<Longrightarrow> stage_ok f) \<Longrightarrow> (\<And>x. opt = Some x \<Longrightarrow> stage_ok (g x))
   \<Longrightarrow> stage_ok (\<lambda>w. case opt of None \<Rightarrow> f w | Some x \<Rightarrow> g x w)"
  by (cases opt) simp_all

lemma stage_ok_sum:
  "(\<And>x. s = Inl x \<Longrightarrow> stage_ok (f x)) \<Longrightarrow> (\<And>y. s = Inr y \<Longrightarrow> stage_ok (g y))
   \<Longrightarrow> stage_ok (\<lambda>w. case s of Inl x \<Rightarrow> f x w | Inr y \<Rightarrow> g y w)"
  by (cases s) simp_all

lemmas stage_ok_intros = stage_ok_if stage_ok_option stage_ok_sum stage_ok_Go
  stage_ok_Stop [OF P_retry] stage_ok_Stop [OF P_wait]

lemma stage_ok_alert:
  "resolved_sink ctx row = Some sink \<Longrightarrow> stage_ok (resolve_alert_clip ctx env row sink event)"
  unfolding resolve_alert_clip_def [abs_def] Let_def
  by (intro stage_ok_intros) (simp_all add: may_wait_def)

lemma stage_ok_motion:
  "resolved_sink ctx row = Some sink \<Longrightarrow> stage_ok (resolve_motion_clip ctx env row sink event fb)"
  unfolding resolve_motion_clip_def [abs_def] Let_def prod.case
  by (intro stage_ok_intros) (simp_all add: may_wait_def clip_open_def)

lemma P_stage:
  assumes "stage_ok f" and "\<And>e b. P (k e b)"
  shows "P (\<lambda>w. case f w of Stop w' \<Rightarrow> w' | Go e b \<Rightarrow> k e b w)"
  using assms by (auto simp: stage_ok_def)

lemma P_resolve_and_deliver: "P (resolve_and_deliver ctx env row event)"
proof -
  have "P (\<lambda>w. case resolve_alert_clip ctx env row sink event w of Stop w' \<Rightarrow> w'
          | Go event1 fb \<Rightarrow> (case resolve_motion_clip ctx env row sink event1 fb w of
              Stop w' \<Rightarrow> w' | Go event2 b \<Rightarrow> deliver_row ctx env row sink event2 w))"
    if "resolved_sink ctx row = Some sink" for sink
    using that by (intro P_stage stage_ok_alert stage_ok_motion P_deliver)
  then show ?thesis
    by (cases "sink_id_parse (sink_id row)"; cases "registry_get (registry_of ctx) (the (sink_id_parse (sink_id row)))")
       (simp_all add: resolve_and_deliver_def [abs_def] resolved_sink_def P_dead)
qed

lemma P_process_row:
  assumes "status row = Pending"
  shows "P (process_row ctx env row)"
proof -
  consider e where "event_fault env = Some e" | "event_fault env = None" "E (event_id row) = None"
    | ev a r where "event_fault env = None" "E (event_id row) = Some (ev, a)"
        "policy ctx row ev (t_policy env) = SuppressedV r"
    | ev a where "event_fault env = None" "E (event_id row) = Some (ev, a)"
        "policy ctx row ev (t_policy env) = Deliver"
    by (metis delivery_verdict.exhaust not_None_eq surj_pair)
  then show ?thesis
  proof cases
    case 1
    then show ?thesis
      using assms by (intro P_cong [OF P_retry]) (simp add: process_row_def get_event_def)
  next
    case 2
    then show ?thesis
      using assms by (intro P_cong [OF P_dead]) (simp add: process_row_def get_event_def)
  next
    case 3
    then show ?thesis
      using assms by (intro P_cong [OF P_suppress]) (simp add: process_row_def get_event_def)
  next
    case 4
    then show ?thesis
      using assms by (intro P_cong [OF P_resolve_and_deliver])
         (simp add: process_row_def get_event_def)
  qed
qed

end

interpretation outbox_endings: row_endings ctx env row E "effects ctx env row E" for ctx env row E
  by unfold_locales (blast intro: effects_retry effects_mark_dead effects_clip_wait effects_suppress
      effects_deliver effects_cong)+

lemmas effects_process_row = outbox_endings.P_process_row

section \<open>Consequences for the outbox\<close>

lemma row_effect_update: "row_effect ctx env row called f \<Longrightarrow> row_update f"
  by (erule row_effectE)
     (simp_all add: sent.row_update_axioms dead.row_update_axioms suppressed.row_update_axioms
        failed.row_update_axioms waiting.row_update_axioms)

lemma db_write_cases:
  "db_write env (sql_update f i) d = d \<or> sql_update f i d = Inr (db_write env (sql_update f i) d)"
  by (auto simp: db_write_def split: sum.split)

lemma sql_update_frame:
  assumes "row_update f" and "sql_update f i d = Inr d'"
  shows "events d' = events d" "autoinc d' = autoinc d"
    "map row_key (outbox d') = map row_key (outbox d)"
    "j \<noteq> i \<Longrightarrow> row_by_id j (outbox d') = row_by_id j (outbox d)"
    "table_inv d \<Longrightarrow> table_inv d'"
  using assms(2) row_update.update_keys [OF assms(1)] row_update.update_lookup [OF assms(1)]
    row_update.update_table_inv [OF assms(1) _ assms(2)]
  by (auto simp: sql_update_def split: if_splits)

lemma process_row_db:
  obtains "process_row ctx env row w = w"
  | called f evs where "status row = Pending" "row_effect ctx env row called f" "length evs = (if called then 1 else 0)"
      "db (process_row ctx env row w) = db_write env (sql_update f (row_id row)) (db w)"
      "calls (process_row ctx env row w) = calls w @ map (Pair (row_id row)) evs"
proof (cases "status row = Pending")
  case True
  with effects_process_row [of row ctx env "events (db w)"] that(2) show ?thesis
    unfolding effects_def by blast
next
  case False
  then show ?thesis by (intro that(1)) (simp add: process_row_def)
qed

lemma process_row_keeps:
  assumes "table_inv (db w)"
  shows "table_inv (db (process_row ctx env row w))"
    and "events (db (process_row ctx env row w)) = events (db w)"
    and "map row_key (outbox (db (process_row ctx env row w))) = map row_key (outbox (db w))"
    and "j \<noteq> row_id row \<Longrightarrow>
         row_by_id j (outbox (db (process_row ctx env row w))) = row_by_id j (outbox (db w))"
proof -
  consider "db (process_row ctx env row w) = db w"
    | called f where "row_effect ctx env row called f"
        "sql_update f (row_id row) (db w) = Inr (db (process_row ctx env row w))"
    by (rule process_row_db [of ctx env row w]) (metis db_write_cases)+
  then have "table_inv (db (process_row ctx env row w))
    \<and> events (db (process_row ctx env row w)) = events (db w)
    \<and> map row_key (outbox (db (process_row ctx env row w))) = map row_key (outbox (db w))
    \<and> (j \<noteq> row_id row \<longrightarrow>
         row_by_id j (outbox (db (process_row ctx env row w))) = row_by_id j (outbox (db w)))"
  proof cases
    case (2 called f)
    with assms sql_update_frame [OF row_effect_update [OF 2(1)] 2(2)] show ?thesis by simp
  qed (use assms in simp)
  then show "table_inv (db (process_row ctx env row w))"
    "events (db (process_row ctx env row w)) = events (db w)"
    "map row_key (outbox (db (process_row ctx env row w))) = map row_key (outbox (db w))"
    "j \<noteq> row_id row \<Longrightarrow>
         row_by_id j (outbox (db (process_row ctx env row w))) = row_by_id j (outbox (db w))"
    by blast+
qed

text \<open>
  Processing a row touches that row only: whatever the sink, the clip lookups and
  the clock answer, and whether or not the write goes through, the table invariant is
  kept, no other row changes, no event changes, and no row appears or disappears.
\<close>

lemma process_row_frame:
  assumes "table_inv (db w)"
  shows "table_inv (db (process_row ctx env row w))
    \<and> events (db (process_row ctx env row w)) = events (db w)
    \<and> map row_key (outbox (db (process_row ctx env row w))) = map row_key (outbox (db w))
    \<and> (\<forall>j. j \<noteq> row_id row \<longrightarrow>
         row_by_id j (outbox (db (process_row ctx env row w))) = row_by_id j (outbox (db w)))"
  using process_row_keeps [OF assms] by simp

section \<open>The life of a row\<close>

text \<open>
  The abstract machine of a row: what the outbox promises its readers.  A pending row
  is delivered, retried while attempts remain, parked, given up or suppressed; a
  terminal row never moves again.  The flag says whether the sink was called.
\<close>

inductive outbox_step :: "bool \<Rightarrow> outbox_row \<Rightarrow> outbox_row \<Rightarrow> bool" where
  delivered: "status r = Pending \<Longrightarrow> outbox_step True r (sent_row now r)"
| retried: "status r = Pending \<Longrightarrow> attempts r + 1 < int (unat MAX_ATTEMPTS)
    \<Longrightarrow> outbox_step called r (failed_row msg later r)"
| gave_up: "status r = Pending \<Longrightarrow> outbox_step called r (dead_row msg r)"
| parked: "status r = Pending \<Longrightarrow> outbox_step False r (waiting_row msg later r)"
| silenced: "status r = Pending \<Longrightarrow> outbox_step False r (suppressed_row reason r)"

inductive_cases outbox_stepE: "outbox_step called r r'"

lemma retry_budget:
  assumes "backoff_for (sat_add_word (word_of_int a :: u32) 1) = Some delay" and "0 \<le> a" and "a < 2 ^ 32"
  shows "a + 1 < int (unat MAX_ATTEMPTS)"
proof -
  have a: "int (unat (word_of_int a :: u32)) = a"
    using assms(2,3) by (simp add: uint_word_of_int flip: uint_nat)
  have "unat (sat_add_word (word_of_int a :: u32) 1) < 8"
    using assms(1) backoff_for_None [of "sat_add_word (word_of_int a) 1"] by force
  then have "unat (word_of_int a :: u32) + 1 < 8"
    by (simp add: unat_sat_add_word)
  with a have "a + 1 < 8" by linarith
  then show ?thesis by (simp add: MAX_ATTEMPTS_def)
qed

lemma row_effect_step:
  assumes "row_effect ctx env row called f" and "status row = Pending" and "0 \<le> attempts row" "attempts row < 2 ^ 32"
  shows "outbox_step called row (f row)"
  using assms(1)
proof cases
  case (eff_retry delay msg)
  then show ?thesis
    using assms(2-) retry_budget by (auto intro: outbox_step.retried)
qed (auto intro: outbox_step.intros assms)

lemma process_row_step:
  assumes "table_inv (db w)" and "row_by_id (row_id row) (outbox (db w)) = Some row"
    and "status row = Pending" "attempts row < 2 ^ 32" and "\<not> write_fails env"
  obtains called f evs where "row_effect ctx env row called f" "outbox_step called row (f row)"
    "length evs = (if called then 1 else 0)"
    "calls (process_row ctx env row w) = calls w @ map (Pair (row_id row)) evs"
    "db (process_row ctx env row w) = (db w)\<lparr>outbox := update_rows f (row_id row) (outbox (db w))\<rparr>"
proof -
  have "0 \<le> attempts row"
    using assms(1,2) by (auto simp: row_by_id_iff table_inv_def list_all_iff)
  note step = row_effect_step [OF _ assms(3) this assms(4)]
  obtain called f evs where f: "row_effect ctx env row called f" "length evs = (if called then 1 else 0)"
    "db (process_row ctx env row w) = db_write env (sql_update f (row_id row)) (db w)"
    "calls (process_row ctx env row w) = calls w @ map (Pair (row_id row)) evs"
    using effects_process_row [OF assms(3), of ctx env "events (db w)"] unfolding effects_def by blast
  with row_update.update_accepted [OF row_effect_update assms(1-3)] assms(5)
  have "db (process_row ctx env row w) = (db w)\<lparr>outbox := update_rows f (row_id row) (outbox (db w))\<rparr>"
    by (simp add: db_write_def)
  with f step that show ?thesis by blast
qed

text \<open>
  C2. The dispatcher implements the abstract row machine: processing a pending row of
  the table, with the write going through, replaces it by a row one \<open>outbox_step\<close>
  further, and the sink was called exactly once if the step says so and not at all
  otherwise.
\<close>

theorem process_row_refines_outbox_step:
  assumes "table_inv (db w)" and "row_by_id (row_id row) (outbox (db w)) = Some row"
    and "status row = Pending" "attempts row < 2 ^ 32" and "\<not> write_fails env"
  shows "\<exists>called row' evs. outbox_step called row row'
    \<and> row_by_id (row_id row) (outbox (db (process_row ctx env row w))) = Some row'
    \<and> calls (process_row ctx env row w) = calls w @ map (Pair (row_id row)) evs
    \<and> length evs = (if called then 1 else 0)"
proof (rule process_row_step [OF assms, of ctx])
  fix called f evs
  assume f: "row_effect ctx env row called f" and "outbox_step called row (f row)"
    "length evs = (if called then 1 else 0)"
    "calls (process_row ctx env row w) = calls w @ map (Pair (row_id row)) evs"
    "db (process_row ctx env row w) = (db w)\<lparr>outbox := update_rows f (row_id row) (outbox (db w))\<rparr>"
  then show ?thesis
    using assms(2) row_update.update_lookup [OF row_effect_update [OF f]]
    by (intro exI [of _ called] exI [of _ "f row"] exI [of _ evs]) simp
qed

section \<open>Reachable worlds\<close>

text \<open>
  Everything that moves the outbox: a new event and its rows, a processed row (with any
  registry, policy, configuration and environment, since each may change between rows),
  the pruner, the eviction of an event, and a camera that is registered or deleted (with its
  events).  The counter is the number of row updates the database refused.
\<close>

definition initial_world :: world where
  "initial_world = \<lparr> db = empty_db, published = [], snapshots = {}, calls = [] \<rparr>"

inductive dispatch_reach :: "nat \<Rightarrow> world \<Rightarrow> bool" where
  reach_init: "dispatch_reach 0 initial_world"
| reach_enqueue: "dispatch_reach n w
    \<Longrightarrow> record_event_and_enqueue_classified ev sinks alerted now (db w) = Inr d
    \<Longrightarrow> dispatch_reach n (w\<lparr>db := d, snapshots := shots\<rparr>)"
| reach_process: "dispatch_reach n w \<Longrightarrow> row_by_id (row_id row) (outbox (db w)) = Some row
    \<Longrightarrow> dispatch_reach (if write_fails env then Suc n else n) (process_row ctx env row w)"
| reach_prune: "dispatch_reach n w
    \<Longrightarrow> dispatch_reach n (w\<lparr>db := snd (prune_outbox_terminal_older_than cutoff limit (db w))\<rparr>)"
| reach_evict: "dispatch_reach n w \<Longrightarrow> dispatch_reach n (w\<lparr>db := delete_event ev (db w)\<rparr>)"
| reach_camera: "dispatch_reach n w \<Longrightarrow> dispatch_reach n (w\<lparr>db := upsert_camera i (db w)\<rparr>)"
| reach_camera_gone: "dispatch_reach n w \<Longrightarrow> dispatch_reach n (w\<lparr>db := drop_camera i clip_gone (db w)\<rparr>)"

definition calls_of :: "int \<Rightarrow> world \<Rightarrow> nat" where
  "calls_of i w = length (filter (\<lambda>c. fst c = i) (calls w))"

definition row_budget :: "nat \<Rightarrow> world \<Rightarrow> outbox_row \<Rightarrow> bool" where
  "row_budget n w r \<longleftrightarrow> status r \<noteq> Failed \<and> attempts r \<le> 8 \<and> (status r = Pending \<longrightarrow> attempts r < 8)
     \<and> int (calls_of (row_id r) w) \<le> attempts r + int n"

definition budget_inv :: "nat \<Rightarrow> world \<Rightarrow> bool" where
  "budget_inv n w \<longleftrightarrow> table_inv (db w) \<and> list_all (row_budget n w) (outbox (db w))
     \<and> (\<forall>i. calls_of i w \<le> 8 + n) \<and> (\<forall>i \<ge> autoinc (db w). calls_of i w = 0)"

lemma calls_of_append:
  assumes "calls w' = calls w @ map (Pair j) evs"
  shows "calls_of i w' = calls_of i w + (if i = j then length evs else 0)"
  using assms by (simp add: calls_of_def filter_map comp_def)

lemma outbox_step_attempts:
  assumes "outbox_step called r r'" and "attempts r < 8"
  shows "status r' \<noteq> Failed" "attempts r' \<le> 8" "status r' = Pending \<Longrightarrow> attempts r' < 8"
    and "attempts r + (if called then 1 else 0) \<le> attempts r'" "row_id r' = row_id r"
  using assms
  by (auto elim!: outbox_stepE simp: row_update_defs MAX_ATTEMPTS_def)

lemma budget_process:
  assumes inv: "budget_inv n w" and row: "row_by_id (row_id row) (outbox (db w)) = Some row"
    and ok: "\<not> write_fails env" and pending: "status row = Pending"
  shows "budget_inv n (process_row ctx env row w)"
proof -
  let ?w = "process_row ctx env row w"
  have t: "table_inv (db w)" and b: "row_budget n w row"
    and others: "\<And>r. r \<in> set (outbox (db w)) \<Longrightarrow> row_budget n w r"
    and bound: "\<And>i. calls_of i w \<le> 8 + n" and fresh: "\<And>i. autoinc (db w) \<le> i \<Longrightarrow> calls_of i w = 0"
    using inv row by (auto simp: budget_inv_def row_by_id_iff list_all_iff)
  then have a: "attempts row < 8" using pending by (simp add: row_budget_def)
  have id: "row_id row < autoinc (db w)"
    using t row by (auto simp: row_by_id_iff table_inv_def list_all_iff)
  obtain called f evs where f: "row_effect ctx env row called f" and step: "outbox_step called row (f row)"
    and len: "length evs = (if called then 1 else 0)"
    and cl: "calls ?w = calls w @ map (Pair (row_id row)) evs"
    and d: "db ?w = (db w)\<lparr>outbox := update_rows f (row_id row) (outbox (db w))\<rparr>"
    using a by (auto intro: process_row_step [OF t row pending _ ok, of ctx])
  note counts = calls_of_append [OF cl] and after = outbox_step_attempts [OF step a]
  have here: "row_budget n ?w (f row)"
    using b after by (cases called) (simp_all add: row_budget_def counts len)
  then have "calls_of (row_id row) ?w \<le> 8 + n"
    using after by (simp add: row_budget_def)
  then have "calls_of i ?w \<le> 8 + n" for i
    using bound [of i] by (cases "i = row_id row") (simp_all add: counts)
  moreover have "calls_of i ?w = 0" if "autoinc (db ?w) \<le> i" for i
    using that id fresh [of i] by (simp add: counts d)
  moreover have "row_budget n ?w r" if "r \<in> set (outbox (db ?w))" for r
  proof -
    from that obtain q where q: "q \<in> set (outbox (db w))" "r = (if row_id q = row_id row then f q else q)"
      by (auto simp: d update_rows_def)
    show ?thesis
    proof (cases "row_id q = row_id row")
      case True
      with q row t have "q = row" by (metis row_by_id_iff option.inject)
      with q here show ?thesis by simp
    next
      case False
      with q others [of q] show ?thesis by (simp add: row_budget_def counts)
    qed
  qed
  moreover have "table_inv (db ?w)"
    using row_update.update_table_inv [OF row_effect_update [OF f] t]
      row_update.update_accepted [OF row_effect_update [OF f] t row pending] d by simp
  ultimately show ?thesis by (simp add: budget_inv_def list_all_iff)
qed

lemma budget_process_failed:
  assumes "budget_inv n w" and "write_fails env" and "row_by_id (row_id row) (outbox (db w)) = Some row"
  shows "budget_inv (Suc n) (process_row ctx env row w)"
proof (rule process_row_db [of ctx env row w])
  assume "process_row ctx env row w = w"
  moreover have "calls_of i w \<le> 9 + n" for i
  proof -
    have "calls_of i w \<le> 8 + n" using assms(1) by (simp add: budget_inv_def)
    then show ?thesis by simp
  qed
  ultimately show ?thesis
    using assms(1) by (auto simp: budget_inv_def list_all_iff row_budget_def)
next
  fix called f and evs :: "alert_event list"
  let ?w = "process_row ctx env row w"
  assume len: "length evs = (if called then 1 else 0)"
    and d: "db ?w = db_write env (sql_update f (row_id row)) (db w)"
    and cl: "calls ?w = calls w @ map (Pair (row_id row)) evs"
  have same: "db ?w = db w" using d assms(2) by (simp add: db_write_def)
  have more: "calls_of i w \<le> calls_of i ?w" "calls_of i ?w \<le> Suc (calls_of i w)" for i
    using len by (simp_all add: calls_of_append [OF cl])
  have id: "row_id row < autoinc (db w)"
    using assms by (auto simp: budget_inv_def row_by_id_iff table_inv_def list_all_iff)
  have "row_budget (Suc n) ?w r" if "row_budget n w r" for r
    using that more(2) [of "row_id r"] by (simp add: row_budget_def)
  moreover have "calls_of i ?w \<le> 8 + Suc n" if "calls_of i w \<le> 8 + n" for i
    using that more(2) [of i] by simp
  moreover have "calls_of i ?w = calls_of i w" if "autoinc (db w) \<le> i" for i
    using that id by (simp add: calls_of_append [OF cl])
  ultimately show ?thesis
    using assms(1) by (simp add: budget_inv_def list_all_iff same)
qed

lemma budget_shrink:
  assumes "budget_inv n w" and "table_inv d" and "set (outbox d) \<subseteq> set (outbox (db w))"
    and "autoinc d = autoinc (db w)"
  shows "budget_inv n (w\<lparr>db := d\<rparr>)"
proof -
  have calls: "calls_of i (w\<lparr>db := d\<rparr>) = calls_of i w" for i
    by (simp add: calls_of_def)
  have "row_budget n (w\<lparr>db := d\<rparr>) r \<longleftrightarrow> row_budget n w r" for r
    by (simp add: row_budget_def calls)
  then show ?thesis
    using assms by (auto simp: budget_inv_def list_all_iff calls)
qed

lemma dispatch_reach_budget: "dispatch_reach n w \<Longrightarrow> budget_inv n w"
proof (induction rule: dispatch_reach.induct)
  case reach_init
  then show ?case
    by (simp add: initial_world_def budget_inv_def empty_db_inv calls_of_def) (simp add: empty_db_def)
next
  case (reach_enqueue n w ev sinks alerted now d shots)
  have inv: "table_inv (db w)" using reach_enqueue.IH by (simp add: budget_inv_def)
  note new = record_event_ok [OF inv reach_enqueue.hyps(2)]
  have calls: "calls_of i (w\<lparr>db := d, snapshots := shots\<rparr>) = calls_of i w" for i
    by (simp add: calls_of_def)
  have "row_budget n (w\<lparr>db := d, snapshots := shots\<rparr>) r" if "r \<in> set (outbox d)" for r
    using new(3) [OF that] reach_enqueue.IH by (auto simp: row_budget_def calls budget_inv_def list_all_iff)
  then show ?case
    using reach_enqueue.IH new(1,2) by (simp add: budget_inv_def list_all_iff calls)
next
  case (reach_process n w row env ctx)
  show ?case
  proof (cases "write_fails env")
    case True
    with reach_process budget_process_failed show ?thesis by simp
  next
    case False
    with reach_process budget_process show ?thesis
      by (cases "status row = Pending") (simp_all add: process_row_def)
  qed
next
  case (reach_prune n w cutoff limit)
  then show ?case by (intro budget_shrink prune_keeps) (simp_all add: budget_inv_def)
next
  case (reach_evict n w ev)
  then show ?case by (intro budget_shrink delete_event_keeps) (simp_all add: budget_inv_def)
next
  case (reach_camera n w i)
  then show ?case by (intro budget_shrink) (simp_all add: budget_inv_def camera_changes_keep)
next
  case (reach_camera_gone n w i clip_gone)
  then show ?case by (intro budget_shrink camera_changes_keep) (simp_all add: budget_inv_def)
qed

text \<open>
  C1. The retry budget bounds the calls.  In every reachable world no row has used more
  than eight attempts, a row still pending has some left, the status \<open>Failed\<close> is
  never stored, and the sink of a row has been called at most eight times, plus once
  for every update the database refused.
\<close>

theorem delivery_attempts_bounded:
  assumes "dispatch_reach n w"
  shows "(\<forall>i. calls_of i w \<le> unat MAX_ATTEMPTS + n)
    \<and> list_all (\<lambda>r. status r \<noteq> Failed \<and> 0 \<le> attempts r \<and> attempts r \<le> int (unat MAX_ATTEMPTS)
         \<and> (attempts r = int (unat MAX_ATTEMPTS) \<longrightarrow> terminal (status r))) (outbox (db w))"
proof -
  have "terminal s" if "s \<noteq> Pending" "s \<noteq> Failed" for s
    using that by (cases s) (simp_all add: terminal_def)
  with dispatch_reach_budget [OF assms] show ?thesis
    by (auto simp: budget_inv_def list_all_iff row_budget_def MAX_ATTEMPTS_def table_inv_def)
qed

section \<open>What each verdict does\<close>

text \<open>
  A suppressed alert is never sent.  When the policy suppresses a pending row, the
  sink is not called, the row is stored as suppressed with the reason, no attempt is
  spent and nothing is published.
\<close>

lemma suppressed_row_not_delivered:
  assumes "table_inv (db w)" and "row_by_id (row_id row) (outbox (db w)) = Some row"
    and "status row = Pending" and "\<not> write_fails env" and "event_fault env = None"
    and "events (db w) (event_id row) = Some (event, alerted)"
    and "policy ctx row event (t_policy env) = SuppressedV reason"
  shows "calls (process_row ctx env row w) = calls w
    \<and> published (process_row ctx env row w) = published w
    \<and> row_by_id (row_id row) (outbox (db (process_row ctx env row w)))
        = Some (row\<lparr>status := Suppressed, suppression_reason := Some reason,
                    next_attempt_at := None, last_error := None\<rparr>)"
proof -
  have p: "process_row ctx env row w = reclaim_snapshot_if_drained ctx env (event_id row)
      (write_row env (outbox_mark_suppressed (row_id row) reason) w)"
    using assms by (simp add: process_row_def get_event_def)
  have "published (process_row ctx env row w) = published w"
    unfolding p by (simp add: reclaim_snapshot_if_drained_def write_row_def split: option.split sum.split)
  then show ?thesis
    unfolding p using assms(2,4) suppressed.update_accepted [OF assms(1-3), of reason]
    by (simp add: dispatch_simps db_write_def outbox_mark_suppressed_def suppressed.update_lookup suppressed_row_def)
qed

text \<open>The snapshot file: removed only for the row's event and only once it is drained.\<close>

definition spares_snapshots ::
    "dispatch_ctx \<Rightarrow> outbox_row \<Rightarrow> (string \<rightharpoonup> alert_event \<times> bool) \<Rightarrow> (world \<Rightarrow> world) \<Rightarrow> bool" where
  "spares_snapshots ctx row E p \<longleftrightarrow>
     (\<forall>w x. events (db w) = E \<longrightarrow> x \<in> snapshots w \<longrightarrow> x \<notin> snapshots (p w) \<longrightarrow>
        (\<exists>dir. snapshots_dir (cfg ctx) = Some dir \<and> x = path_join dir (event_id row @ ''.jpg''))
        \<and> list_all (\<lambda>r. event_id r = event_id row \<longrightarrow> status r \<noteq> Pending) (outbox (db (p w))))"

lemma reclaim_snapshots:
  assumes "x \<in> snapshots w" and "x \<notin> snapshots (reclaim_snapshot_if_drained ctx env ev w)"
  shows "(\<exists>dir. snapshots_dir (cfg ctx) = Some dir \<and> x = path_join dir (ev @ ''.jpg''))
    \<and> list_all (\<lambda>r. event_id r = ev \<longrightarrow> status r \<noteq> Pending) (outbox (db w))"
  using assms
  by (auto simp: reclaim_snapshot_if_drained_def outbox_for_event_def list_ex_iff list_all_iff
      split: option.splits if_splits)

lemma spares_reclaim:
  assumes "\<And>w. snapshots (p w) = snapshots w"
  shows "spares_snapshots ctx row E (\<lambda>w. reclaim_snapshot_if_drained ctx env (event_id row) (p w))"
  unfolding spares_snapshots_def
proof (intro allI impI)
  fix w x
  assume "x \<in> snapshots w" and x: "x \<notin> snapshots (reclaim_snapshot_if_drained ctx env (event_id row) (p w))"
  then have "x \<in> snapshots (p w)" by (simp add: assms)
  from reclaim_snapshots [OF this x]
  show "(\<exists>dir. snapshots_dir (cfg ctx) = Some dir \<and> x = path_join dir (event_id row @ ''.jpg''))
    \<and> list_all (\<lambda>r. event_id r = event_id row \<longrightarrow> status r \<noteq> Pending)
        (outbox (db (reclaim_snapshot_if_drained ctx env (event_id row) (p w))))"
    by (simp add: dispatch_simps)
qed

lemma spares_mark_dead:
  "(\<And>w. snapshots (p w) = snapshots w) \<Longrightarrow> spares_snapshots ctx row E (\<lambda>w. mark_dead ctx env row msg (p w))"
  unfolding mark_dead_def by (rule spares_reclaim) (simp add: dispatch_simps)

lemma spares_frame: "(\<And>w. snapshots (p w) = snapshots w) \<Longrightarrow> spares_snapshots ctx row E p"
  by (simp add: spares_snapshots_def)

lemma spares_retry:
  assumes "\<And>w. snapshots (p w) = snapshots w"
  shows "spares_snapshots ctx row E (\<lambda>w. schedule_retry ctx env row msg (p w))"
proof (cases "backoff_for (sat_add_word (word_of_int (attempts row)) 1)")
  case None
  then show ?thesis using assms by (simp add: schedule_retry_def spares_mark_dead)
next
  case (Some delay)
  then show ?thesis using assms by (intro spares_frame) (simp add: schedule_retry_def dispatch_simps)
qed

lemma spares_deliver: "spares_snapshots ctx row E (deliver_row ctx env row sink event)"
proof (cases rule: deliver_row_cases [of ctx env row sink event])
  case sent
  show ?thesis unfolding sent by (rule spares_reclaim) (simp add: dispatch_simps)
next
  case (dead msg)
  show ?thesis unfolding dead by (rule spares_mark_dead) (simp add: dispatch_simps)
next
  case (retry msg)
  show ?thesis unfolding retry by (rule spares_retry) (simp add: dispatch_simps)
qed

interpretation snapshot_endings: row_endings ctx env row E "spares_snapshots ctx row E" for ctx env row E
proof unfold_locales
  show "spares_snapshots ctx row E (schedule_retry ctx env row msg)" for msg
    by (rule spares_retry) simp
  show "spares_snapshots ctx row E (mark_dead ctx env row msg)" for msg
    by (rule spares_mark_dead) simp
  show "spares_snapshots ctx row E (schedule_clip_wait env row msg)" for msg
    by (rule spares_frame) (simp add: schedule_clip_wait_def dispatch_simps)
  show "spares_snapshots ctx row E (\<lambda>w. reclaim_snapshot_if_drained ctx env (event_id row)
      (write_row env (outbox_mark_suppressed (row_id row) reason) w))" for reason
    by (rule spares_reclaim) (simp add: dispatch_simps)
  show "spares_snapshots ctx row E (deliver_row ctx env row sink event)" for sink event
    by (rule spares_deliver)
  show "spares_snapshots ctx row E q"
    if "spares_snapshots ctx row E p" "\<And>w. events (db w) = E \<Longrightarrow> q w = p w" for p q
    using that by (simp add: spares_snapshots_def)
qed

text \<open>
  The shared snapshot outlives every sink that needs it.  Processing a pending row
  deletes at most the snapshot of that row's event, and only when, after the row's own
  update, no row of the event is pending.
\<close>

lemma snapshot_removed_only_when_drained:
  assumes "status row = Pending" and "x \<in> snapshots w" and "x \<notin> snapshots (process_row ctx env row w)"
  shows "(\<exists>dir. snapshots_dir (cfg ctx) = Some dir \<and> x = path_join dir (event_id row @ ''.jpg''))
    \<and> list_all (\<lambda>r. event_id r = event_id row \<longrightarrow> status r \<noteq> Pending) (outbox (db (process_row ctx env row w)))"
  using snapshot_endings.P_process_row [OF assms(1), of ctx "events (db w)" env] assms(2,3)
  unfolding spares_snapshots_def by simp

section \<open>Waiting and progress\<close>

lemma row_effect_progress:
  assumes "row_effect ctx env row called f"
  shows "terminal (status (f r)) \<or> status (f r) = Pending \<and> attempts (f r) = attempts r + 1
    \<or> may_wait ctx env row \<and> \<not> called"
  using assms by cases (auto simp: row_update_defs terminal_def)

text \<open>
  A clip wait is the only way to come back without spending an attempt.  If a
  processed row is still pending with its old attempt count, then its sink wants a clip,
  the row is inside the alert-clip or clip-link grace window or its motion clip is still
  open, and the sink was not called.
\<close>

lemma unspent_row_waits_for_clip:
  assumes "table_inv (db w)" and "row_by_id (row_id row) (outbox (db w)) = Some row"
    and "status row = Pending" "attempts row < 2 ^ 32" and "\<not> write_fails env"
    and "row_by_id (row_id row) (outbox (db (process_row ctx env row w))) = Some row'"
    and "status row' = Pending" and "attempts row' = attempts row"
  shows "may_wait ctx env row \<and> calls (process_row ctx env row w) = calls w"
proof (rule process_row_step [OF assms(1-5), of ctx])
  fix called f evs
  assume f: "row_effect ctx env row called f" and len: "length evs = (if called then 1 else 0)"
    and cl: "calls (process_row ctx env row w) = calls w @ map (Pair (row_id row)) evs"
    and "db (process_row ctx env row w) = (db w)\<lparr>outbox := update_rows f (row_id row) (outbox (db w))\<rparr>"
  then have "row' = f row"
    using assms(2,6) row_update.update_lookup [OF row_effect_update [OF f]] by simp
  with row_effect_progress [OF f, of row] assms(7,8) len cl show ?thesis
    by (auto simp: terminal_def)
qed

text \<open>
  The wait for an open motion clip has no bound: as long as the clip linked to the
  event is not closed, a clip-wanting row without an alert clip is parked again, however
  long ago it was created, and spends no attempt.
\<close>

lemma open_clip_wait_is_unbounded:
  assumes "table_inv (db w)" and "row_by_id (row_id row) (outbox (db w)) = Some row"
    and "status row = Pending" and "\<not> write_fails env" and "event_fault env = None"
    and "events (db w) (event_id row) = Some (event, alerted)"
    and "policy ctx row event (t_policy env) = Deliver"
    and "sink_id_parse (sink_id row) = Some sid" and "registry_get (registry_of ctx) sid = Some sink"
    and "wants_clip sink" and "art_clip event = None"
    and "get_event_alert_clip env = Inr None" and "get_event_clip_id env = Inr (Some c)"
    and "get_clip env c = Inr (Some clip)" and "mc_ended_at clip = None"
  shows "\<exists>msg. row_by_id (row_id row) (outbox (db (process_row ctx env row w)))
      = Some (row\<lparr>last_error := Some msg, next_attempt_at := Some (t_write env + secs 1)\<rparr>)"
proof -
  let ?msg = "''clip '' @ dec_int c @ '' still recording; awaiting post-roll close''"
  have "process_row ctx env row w = schedule_clip_wait env row ?msg w"
    using assms by (simp add: process_row_def get_event_def resolve_and_deliver_def
        resolve_alert_clip_def resolve_motion_clip_def)
  then show ?thesis
    using assms(2-4) waiting.update_accepted [OF assms(1-3), of ?msg "t_write env + secs 1"]
    by (intro exI [of _ ?msg]) (simp add: dispatch_simps db_write_def CLIP_WAIT_POLL_SECS_def
        waiting.update_lookup waiting_row_def)
qed

text \<open>One row, driven through as many passes as there are environments.\<close>

fun drive :: "dispatch_ctx \<Rightarrow> row_env list \<Rightarrow> int \<Rightarrow> world \<Rightarrow> world" where
  "drive ctx [] i w = w"
| "drive ctx (env # envs) i w =
     (case row_by_id i (outbox (db w)) of
        None \<Rightarrow> w
      | Some row \<Rightarrow> drive ctx envs i (process_row ctx env row w))"

lemma may_wait_cong:
  "sink_id r' = sink_id r \<Longrightarrow> created_at r' = created_at r \<Longrightarrow> may_wait ctx env r' = may_wait ctx env r"
  by (simp add: may_wait_def resolved_sink_def within_clip_grace_def within_alert_clip_grace_def within_grace_def)

lemma drive_terminal_fixed:
  "row_by_id i (outbox (db w)) = Some row \<Longrightarrow> status row \<noteq> Pending \<Longrightarrow> drive ctx envs i w = w"
  by (induction envs) (simp_all add: process_row_def)

text \<open>
  C4. Every row is settled.  Eight passes over a pending row in which the database
  accepts the update and no clip is waited for leave it terminal: sent, dead or
  suppressed.
\<close>

theorem row_settles_within_budget:
  assumes "table_inv (db w)" and "row_by_id i (outbox (db w)) = Some row" and "attempts row < 8"
    and "status row \<noteq> Failed"
    and "list_all (\<lambda>env. \<not> write_fails env \<and> \<not> may_wait ctx env row) envs"
    and "8 \<le> attempts row + int (length envs)"
  shows "\<exists>row'. row_by_id i (outbox (db (drive ctx envs i w))) = Some row' \<and> terminal (status row')"
  using assms
proof (induction envs arbitrary: w row)
  case Nil
  then show ?case by simp
next
  case (Cons env envs)
  show ?case
  proof (cases "status row = Pending")
    case False
    then have "terminal (status row)" using Cons.prems(4) by (cases "status row") (simp_all add: terminal_def)
    with False Cons.prems(2) drive_terminal_fixed [OF Cons.prems(2) False, of ctx "env # envs"]
    show ?thesis by auto
  next
    case True
    have id: "row_id row = i" using Cons.prems(1,2) by (simp add: row_by_id_iff)
    have here: "row_by_id (row_id row) (outbox (db w)) = Some row" and ok: "\<not> write_fails env"
      and a: "attempts row < 2 ^ 32"
      using Cons.prems id by simp_all
    obtain called f evs where f: "row_effect ctx env row called f" and st: "outbox_step called row (f row)"
      and d: "db (process_row ctx env row w) = (db w)\<lparr>outbox := update_rows f (row_id row) (outbox (db w))\<rparr>"
      by (rule process_row_step [OF Cons.prems(1) here True a ok, of ctx])
    note upd = row_effect_update [OF f]
    have t: "table_inv (db (process_row ctx env row w))"
      using row_update.update_table_inv [OF upd Cons.prems(1)]
        row_update.update_accepted [OF upd Cons.prems(1) here True] d by simp
    have look: "row_by_id i (outbox (db (process_row ctx env row w))) = Some (f row)"
      using d here id row_update.update_lookup [OF upd] by simp
    note after = outbox_step_attempts [OF st Cons.prems(3)]
    have same: "may_wait ctx e (f row) = may_wait ctx e row" for e
      using row_update.keeps_key(2) [OF upd] row_update.keeps_created [OF upd] by (intro may_wait_cong)
    consider "terminal (status (f row))" | "status (f row) = Pending" "attempts (f row) = attempts row + 1"
      using row_effect_progress [OF f, of row] Cons.prems(5) by auto
    then show ?thesis
    proof cases
      case 1
      then have "status (f row) \<noteq> Pending" by (auto simp: terminal_def)
      from drive_terminal_fixed [OF look this] 1 look Cons.prems(2) show ?thesis by simp
    next
      case 2
      with Cons.IH [OF t look] after Cons.prems(2,5,6) same show ?thesis by simp
    qed
  qed
qed

section \<open>A whole tick\<close>

lemma interleave_mset: "interleave xss ys \<Longrightarrow> mset ys = mset (concat xss)"
proof (induction rule: interleave.induct)
  case (il_done xss)
  then have "concat xss = []" by (simp add: list_all_iff)
  then show ?case by simp
next
  case (il_step i xss x xs ys)
  have "xss = take i xss @ (x # xs) # drop (Suc i) xss"
    using il_step.hyps by (metis id_take_nth_drop)
  then have "mset (concat xss) = mset (concat (take i xss)) + mset (x # xs) + mset (concat (drop (Suc i) xss))"
    by (metis concat.simps(2) concat_append mset_append union_assoc)
  moreover have "mset (concat (xss[i := xs])) = mset (concat (take i xss)) + mset xs + mset (concat (drop (Suc i) xss))"
    using il_step.hyps by (simp add: upd_conv_take_nth_drop)
  ultimately show ?case using il_step.IH by simp
qed

lemma interleave_filter:
  assumes "interleave xss ys" and "\<And>j x. j < length xss \<Longrightarrow> x \<in> set (xss ! j) \<Longrightarrow> Q x \<longleftrightarrow> j = i" and "i < length xss"
  shows "filter Q ys = xss ! i"
  using assms
proof (induction rule: interleave.induct)
  case (il_done xss)
  then show ?case by (simp add: list_all_length)
next
  case (il_step j xss x xs ys)
  have "Q x \<longleftrightarrow> j = i" using il_step.prems(1) [of j x] il_step.hyps by simp
  moreover have "filter Q ys = xss[j := xs] ! i"
  proof (rule il_step.IH)
    show "Q z \<longleftrightarrow> k = i" if "k < length (xss[j := xs])" "z \<in> set (xss[j := xs] ! k)" for k z
      using that il_step.prems(1) [of k z] il_step.hyps by (cases "k = j") simp_all
    show "i < length (xss[j := xs])" using il_step.prems(2) by simp
  qed
  ultimately show ?case using il_step.hyps by (cases "i = j") auto
qed

lemma interleave_Cons: "interleave xss ys \<Longrightarrow> interleave ([] # xss) ys"
proof (induction rule: interleave.induct)
  case (il_done xss)
  then show ?case by (intro interleave.il_done) simp
next
  case (il_step i xss x xs ys)
  then show ?case by (intro interleave.il_step [of "Suc i" "[] # xss" x xs ys]) simp_all
qed

lemma interleave_concat: "interleave xss (concat xss)"
proof (induction xss)
  case Nil
  then show ?case by (simp add: interleave.il_done)
next
  case (Cons xs xss)
  have "interleave (xs # xss) (xs @ concat xss)"
  proof (induction xs)
    case Nil
    show ?case using interleave_Cons [OF Cons.IH] by simp
  next
    case (Cons x xs)
    then show ?case using interleave.il_step [of 0 "(x # xs) # xss" x xs "xs @ concat xss"] by simp
  qed
  then show ?case by simp
qed

lemma tick_tick_rel: "tick_rel ctx te s (tick ctx te s)"
  using interleave_concat
  by (cases s) (auto simp: tick_def intro: tick_fetch_failed tick_drained)

lemma update_rows_commute:
  assumes "row_update f" "row_update g" "i \<noteq> j"
  shows "update_rows f i (update_rows g j rs) = update_rows g j (update_rows f i rs)"
  using assms by (simp add: update_rows_def row_update.keeps_id)

lemma sql_check_stable:
  assumes "row_update g" "i \<noteq> j"
  shows "list_all (\<lambda>r. row_id r = i \<longrightarrow> check_row (f r)) (update_rows g j rs)
     = list_all (\<lambda>r. row_id r = i \<longrightarrow> check_row (f r)) rs"
  using assms by (auto simp: update_rows_def list_all_iff row_update.keeps_id)

lemma db_write_sql:
  "db_write env (sql_update f i) d =
     (if \<not> write_fails env \<and> list_all (\<lambda>r. row_id r = i \<longrightarrow> check_row (f r)) (outbox d)
      then d\<lparr>outbox := update_rows f i (outbox d)\<rparr> else d)"
  by (simp add: db_write_def sql_update_def)

lemma db_write_commute:
  assumes "row_update f" "row_update g" "i \<noteq> j"
  shows "db_write e (sql_update f i) \<circ> db_write e' (sql_update g j)
       = db_write e' (sql_update g j) \<circ> db_write e (sql_update f i)"
  using assms
  by (simp add: fun_eq_iff db_write_sql sql_check_stable update_rows_commute)

lemma row_writer_exists:
  "\<exists>F. \<forall>r. status r = Pending \<longrightarrow> row_update (F r) \<and> (\<forall>w. events (db w) = E \<longrightarrow>
     db (process_row ctx (env_of te r) r w) = db_write (env_of te r) (sql_update (F r) (row_id r)) (db w))"
proof (rule choice, rule allI)
  fix r
  show "\<exists>f. status r = Pending \<longrightarrow> row_update f \<and> (\<forall>w. events (db w) = E \<longrightarrow>
     db (process_row ctx (env_of te r) r w) = db_write (env_of te r) (sql_update f (row_id r)) (db w))"
    using effects_process_row [of r ctx "env_of te r" E] unfolding effects_def
    by (blast intro: row_effect_update)
qed

lemma process_rows_db:
  assumes "\<And>r. status r = Pending \<Longrightarrow> row_update (F r) \<and> (\<forall>w. events (db w) = E \<longrightarrow>
     db (process_row ctx (env_of te r) r w) = db_write (env_of te r) (sql_update (F r) (row_id r)) (db w))"
    and "list_all (\<lambda>r. status r = Pending) rows" and "events (db w) = E"
  shows "db (process_rows ctx te rows w)
       = fold (\<lambda>r. db_write (env_of te r) (sql_update (F r) (row_id r))) rows (db w)"
  using assms(2,3)
proof (induction rows arbitrary: w)
  case Nil
  then show ?case by (simp add: process_rows_def)
next
  case (Cons r rows)
  let ?w = "process_row ctx (env_of te r) r w"
  have d: "db ?w = db_write (env_of te r) (sql_update (F r) (row_id r)) (db w)"
    using Cons.prems assms(1) [of r] by simp
  then have "events (db ?w) = E" using Cons.prems(2) by (simp add: db_write_sql)
  with Cons.IH [of ?w] Cons.prems(1) d show ?case by (simp add: process_rows_def)
qed

lemma process_rows_permute:
  assumes "table_inv (db w)" and "set rows \<subseteq> set (outbox (db w))"
    and "list_all (\<lambda>r. status r = Pending) rows" and "mset rows = mset rows'"
  shows "db (process_rows ctx te rows w) = db (process_rows ctx te rows' w)"
proof -
  obtain F where F: "\<And>r. status r = Pending \<Longrightarrow> row_update (F r) \<and> (\<forall>v. events (db v) = events (db w) \<longrightarrow>
     db (process_row ctx (env_of te r) r v) = db_write (env_of te r) (sql_update (F r) (row_id r)) (db v))"
    using row_writer_exists [of "events (db w)" ctx te] by blast
  let ?g = "\<lambda>r. db_write (env_of te r) (sql_update (F r) (row_id r))"
  have pending: "status r = Pending" "r \<in> set (outbox (db w))" if "r \<in> set rows" for r
    using assms(2,3) that by (auto simp: list_all_iff)
  have inj: "inj_on row_id (set (outbox (db w)))"
    using assms(1) by (simp add: table_inv_def strict_sorted_iff distinct_map)
  have "?g x \<circ> ?g y = ?g y \<circ> ?g x" if "x \<in> set rows" "y \<in> set rows" for x y
  proof (cases "x = y")
    case False
    then have "row_id x \<noteq> row_id y" using that pending inj by (metis inj_onD)
    then show ?thesis using db_write_commute F pending that by blast
  qed simp
  then have "fold ?g rows = fold ?g rows'"
    using assms(4) by (intro fold_multiset_equiv)
  moreover have "list_all (\<lambda>r. status r = Pending) rows'"
    using assms(3,4) by (metis list_all_iff mset_eq_setD)
  ultimately show ?thesis
    using process_rows_db [OF F assms(3)] process_rows_db [OF F, of rows'] by simp
qed

lemma budgeted_prefix: "\<exists>n. budgeted out rs = take n rs"
proof (induction rs)
  case Nil
  then show ?case by simp
next
  case (Cons r rs)
  then obtain n where "budgeted out rs = take n rs" by blast
  then show ?case by (intro exI [of _ "if out r then 1 else Suc n"]) simp
qed

lemma set_budgeted: "r \<in> set (budgeted out rs) \<Longrightarrow> r \<in> set rs"
  by (metis budgeted_prefix in_set_takeD)

lemma tick_groups_due:
  assumes "r \<in> set (concat (tick_groups ctx te w))"
  shows "r \<in> set (outbox (db w)) \<and> status r = Pending"
proof -
  from assms obtain g where "g \<in> set (group_by_sink (outbox_pending (tk_fetch te) (batch_size (cfg ctx)) (db w)))"
    "r \<in> set (budgeted (out_of_budget te) g)"
    by (auto simp: tick_groups_def)
  then have "r \<in> set (outbox_pending (tk_fetch te) (batch_size (cfg ctx)) (db w))"
    by (auto simp: group_by_sink_def dest!: set_budgeted)
  then show ?thesis using outbox_pending_due by (auto simp: due_def)
qed

lemma interleave_due:
  assumes "interleave (tick_groups ctx te w) sched" and "r \<in> set sched"
  shows "r \<in> set (outbox (db w)) \<and> status r = Pending"
  using tick_groups_due [of r ctx te w] assms(2) mset_eq_setD [OF interleave_mset [OF assms(1)]] by simp

text \<open>
  C3. Concurrency does not show in the outbox.  Whatever order the concurrent sink
  groups of a tick happen to run in, the database and the health counters end up as if
  the groups had run one after the other.
\<close>

theorem tick_interleaving_irrelevant:
  assumes "table_inv (db w)" and "tick_rel ctx te (h, w) (h', w')"
  shows "h' = fst (tick ctx te (h, w)) \<and> db w' = db (snd (tick ctx te (h, w)))"
  using assms(2)
proof (cases rule: tick_rel.cases)
  case tick_fetch_failed
  then show ?thesis by (simp add: tick_def)
next
  case (tick_drained sched)
  have m: "mset sched = mset (concat (tick_groups ctx te w))"
    using tick_drained(3) by (rule interleave_mset)
  have "set sched \<subseteq> set (outbox (db w))" "list_all (\<lambda>r. status r = Pending) sched"
    using interleave_due [OF tick_drained(3)] by (auto simp: list_all_iff)
  from process_rows_permute [OF assms(1) this m, of ctx te] m tick_drained
  show ?thesis by (auto simp: tick_def finish_tick_def dest: mset_eq_length)
qed

lemma subseq_sorted_wrt: "subseq xs ys \<Longrightarrow> sorted_wrt P ys \<Longrightarrow> sorted_wrt P xs"
  by (induction rule: list_emb.induct) (auto dest: list_emb_set)

lemma outbox_pending_strict_order:
  assumes "table_inv d"
  shows "sorted_wrt (<) (map row_id (outbox_pending now limit d))"
proof -
  have "sorted_wrt (<) (map row_id (filter (due now) (outbox d)))"
    using assms by (simp add: table_inv_def sorted_wrt_map sorted_wrt_filter)
  moreover from this have "sort_key row_id (filter (due now) (outbox d)) = filter (due now) (outbox d)"
    by (intro sort_key_id_if_sorted) (simp add: strict_sorted_iff)
  ultimately show ?thesis
    by (simp add: outbox_pending_def sql_limit_def flip: take_map)
qed

lemma sched_of_sink:
  assumes "interleave (tick_groups ctx te w) sched"
  shows "\<exists>n. filter (\<lambda>r. sink_id r = s) sched
    = take n (filter (\<lambda>r. sink_id r = s) (outbox_pending (tk_fetch te) (batch_size (cfg ctx)) (db w)))"
proof -
  let ?rows = "outbox_pending (tk_fetch te) (batch_size (cfg ctx)) (db w)"
  define sinks where "sinks = sort (remdups (map sink_id ?rows))"
  have groups: "tick_groups ctx te w
      = map (\<lambda>s. budgeted (out_of_budget te) (filter (\<lambda>r. sink_id r = s) ?rows)) sinks"
    by (simp add: tick_groups_def group_by_sink_def sinks_def)
  show ?thesis
  proof (cases "s \<in> set sinks")
    case False
    then have "filter (\<lambda>r. sink_id r = s) sched = []"
      using mset_eq_setD [OF interleave_mset [OF assms]]
      by (auto simp: groups filter_empty_conv dest!: set_budgeted)
    then show ?thesis by (intro exI [of _ 0]) simp
  next
    case True
    then obtain i where i: "i < length sinks" "sinks ! i = s" by (metis in_set_conv_nth)
    have "distinct sinks" by (simp add: sinks_def)
    then have "filter (\<lambda>r. sink_id r = s) sched = tick_groups ctx te w ! i"
      using i by (intro interleave_filter [OF assms]) (auto simp: groups nth_eq_iff_index_eq dest!: set_budgeted)
    then show ?thesis using i budgeted_prefix by (simp add: groups)
  qed
qed

lemma process_rows_calls:
  "\<exists>new. calls (process_rows ctx te rows w) = calls w @ new \<and> subseq (map fst new) (map row_id rows)"
proof (induction rows arbitrary: w)
  case Nil
  then show ?case by (simp add: process_rows_def)
next
  case (Cons r rows)
  let ?w = "process_row ctx (env_of te r) r w"
  obtain new where new: "calls (process_rows ctx te rows ?w) = calls ?w @ new"
    "subseq (map fst new) (map row_id rows)"
    using Cons.IH by blast
  have "\<exists>evs. calls ?w = calls w @ map (Pair (row_id r)) evs \<and> length evs \<le> 1"
    by (rule process_row_db [of ctx "env_of te r" r w]) (auto split: if_splits intro: exI [of _ "[]"])
  then obtain evs where evs: "calls ?w = calls w @ map (Pair (row_id r)) evs" "length evs \<le> 1"
    by blast
  then have "subseq (map fst (map (Pair (row_id r)) evs @ new)) (row_id r # map row_id rows)"
    using new(2) by (cases evs) auto
  with evs new(1) show ?case
    by (intro exI [of _ "map (Pair (row_id r)) evs @ new"]) (simp add: process_rows_def)
qed

definition sink_of :: "world \<Rightarrow> int \<Rightarrow> string option" where
  "sink_of w i = map_option sink_id (row_by_id i (outbox (db w)))"

lemma distinct_by_class:
  assumes "\<And>c. distinct (filter (\<lambda>x. g x = c) xs)"
  shows "distinct xs"
  using assms
proof (induction xs)
  case Nil
  then show ?case by simp
next
  case (Cons x xs)
  have "distinct (filter (\<lambda>y. g y = c) xs)" for c
    using Cons.prems [of c] by (simp split: if_splits)
  moreover have "x \<notin> set xs"
    using Cons.prems [of "g x"] by simp
  ultimately show ?case using Cons.IH by simp
qed

lemma sched_ids_in_order:
  assumes "table_inv (db w)" and il: "interleave (tick_groups ctx te w) sched"
  shows "sorted_wrt (<) (filter (\<lambda>i. sink_of w i = Some s) (map row_id sched))" "distinct (map row_id sched)"
proof -
  let ?rows = "outbox_pending (tk_fetch te) (batch_size (cfg ctx)) (db w)"
  have sink: "sink_of w (row_id r) = Some (sink_id r)" if "r \<in> set sched" for r
    using interleave_due [OF il that] row_by_id_iff [OF assms(1), of "row_id r" r]
    by (simp add: sink_of_def)
  then have ids: "filter (\<lambda>i. sink_of w i = Some s) (map row_id sched)
      = map row_id (filter (\<lambda>r. sink_id r = s) sched)" for s
    by (induction sched) auto
  show sorted: "sorted_wrt (<) (filter (\<lambda>i. sink_of w i = Some s) (map row_id sched))" for s
    using sched_of_sink [OF il, of s] outbox_pending_strict_order [OF assms(1)]
    by (auto simp: ids sorted_wrt_map sorted_wrt_filter)
  have "distinct (filter (\<lambda>i. sink_of w i = c) (map row_id sched))" for c
  proof (cases c)
    case None
    then have "filter (\<lambda>i. sink_of w i = c) (map row_id sched) = []"
      using sink by (auto simp: filter_empty_conv)
    then show ?thesis by simp
  next
    case (Some s)
    with sorted [of s] show ?thesis by (simp add: strict_sorted_iff)
  qed
  then show "distinct (map row_id sched)" by (rule distinct_by_class)
qed

text \<open>
  No double delivery and no reordering within a sink.  The \<open>deliver\<close> calls of
  one tick are for distinct rows, and for each sink they come in ascending row id,
  whatever the interleaving of the groups.
\<close>

lemma tick_calls_in_order:
  assumes "table_inv (db w)" and "tick_rel ctx te (h, w) (h', w')"
  shows "\<exists>new. calls w' = calls w @ new \<and> distinct (map fst new)
    \<and> (\<forall>s. sorted_wrt (<) (filter (\<lambda>i. sink_of w i = Some s) (map fst new)))"
  using assms(2)
proof (cases rule: tick_rel.cases)
  case tick_fetch_failed
  then show ?thesis by simp
next
  case (tick_drained sched)
  obtain new where new: "calls (process_rows ctx te sched w) = calls w @ new"
    "subseq (map fst new) (map row_id sched)"
    using process_rows_calls by blast
  have "distinct (map fst new)"
    using new(2) sched_ids_in_order(2) [OF assms(1) tick_drained(3)]
    by (metis subseq_conv_nths distinct_nthsI)
  moreover have "sorted_wrt (<) (filter (\<lambda>i. sink_of w i = Some s) (map fst new))" for s
    using subseq_sorted_wrt [OF subseq_filter [OF new(2)]] sched_ids_in_order(1) [OF assms(1) tick_drained(3)]
    by blast
  ultimately show ?thesis
    using new(1) tick_drained by (auto simp: finish_tick_def)
qed

lemma process_rows_reach:
  assumes "dispatch_reach n w" and "distinct (map row_id rows)"
    and "\<And>r. r \<in> set rows \<Longrightarrow> row_by_id (row_id r) (outbox (db w)) = Some r"
  shows "dispatch_reach (n + length (filter (\<lambda>r. write_fails (env_of te r)) rows)) (process_rows ctx te rows w)"
  using assms
proof (induction rows arbitrary: n w)
  case Nil
  then show ?case by (auto simp: process_rows_def)
next
  case (Cons r rows)
  let ?w = "process_row ctx (env_of te r) r w" and ?n = "if write_fails (env_of te r) then Suc n else n"
  have t: "table_inv (db w)" using dispatch_reach_budget [OF Cons.prems(1)] by (simp add: budget_inv_def)
  have "dispatch_reach ?n ?w" using Cons.prems by (intro reach_process) simp_all
  moreover have "row_by_id (row_id q) (outbox (db ?w)) = Some q" if "q \<in> set rows" for q
  proof -
    have "row_id q \<noteq> row_id r" using Cons.prems(2) imageI [OF that, of row_id] by auto
    then show ?thesis using process_row_keeps(4) [OF t] Cons.prems(3) [of q] that by simp
  qed
  ultimately show ?case
    using Cons.IH [of ?n ?w] Cons.prems(2) by (simp add: process_rows_def split: if_splits)
qed

lemma tick_reachable:
  assumes "dispatch_reach n w" and "tick_rel ctx te (h, w) (h', w')" and "\<And>r. \<not> write_fails (env_of te r)"
  shows "dispatch_reach n w'"
  using assms(2)
proof (cases rule: tick_rel.cases)
  case tick_fetch_failed
  with assms(1) show ?thesis by auto
next
  case (tick_drained sched)
  have t: "table_inv (db w)" using dispatch_reach_budget [OF assms(1)] by (simp add: budget_inv_def)
  have "row_by_id (row_id r) (outbox (db w)) = Some r" if "r \<in> set sched" for r
    using interleave_due [OF tick_drained(3) that] row_by_id_iff [OF t] by blast
  with process_rows_reach [OF assms(1) sched_ids_in_order(2) [OF t tick_drained(3)], of te ctx]
  show ?thesis using tick_drained assms(3) by (simp add: finish_tick_def)
qed

text \<open>
  Across any number of ticks, each with its own clip and sink answers, no row costs
  its sink more than eight calls while the database accepts the updates.
\<close>

lemma run_dispatcher_bounded:
  assumes "dispatch_reach 0 w" and "\<And>te r. te \<in> set tes \<Longrightarrow> \<not> write_fails (env_of te r)"
  shows "calls_of i (snd (run_dispatcher ctx tes (h, w))) \<le> unat MAX_ATTEMPTS"
proof -
  have "dispatch_reach 0 (snd (run_dispatcher ctx tes (h, w)))"
    using assms
  proof (induction tes arbitrary: h w)
    case Nil
    then show ?case by (simp add: run_dispatcher_def)
  next
    case (Cons te tes)
    obtain h1 w1 where t: "tick ctx te (h, w) = (h1, w1)" by fastforce
    then have "dispatch_reach 0 w1"
      using tick_reachable [OF Cons.prems(1), of ctx te h h1 w1] tick_tick_rel [of ctx te "(h, w)"]
        Cons.prems(2) by simp
    with Cons.IH [of w1 h1] Cons.prems(2) t show ?case by (simp add: run_dispatcher_def)
  qed
  from dispatch_reach_budget [OF this] show ?thesis
    by (simp add: budget_inv_def MAX_ATTEMPTS_def)
qed

text \<open>
  The liveness clock tells a wedged drain from a working one: a tick whose fetch
  fails leaves the verdict of \<open>is_live\<close> as it was, a completed tick makes the loop live
  for exactly the stall window after it (within the range of a 64-bit millisecond
  clock), and a loop that never completed a tick is never live.
\<close>

lemma liveness_tracks_completed_ticks:
  assumes "tick_rel ctx te (h, w) (h', w')"
    and "0 < timestamp_millis (tk_completed te)" "timestamp_millis (tk_completed te) \<le> max_i64"
    and "0 \<le> timestamp_millis now" "timestamp_millis now \<le> max_i64"
    and "int (stall div 1000000) \<le> max_i64"
  shows "(is_live h' now stall \<longleftrightarrow>
     (if pending_fails te then is_live h now stall
      else timestamp_millis now \<le> timestamp_millis (tk_completed te) + int (stall div 1000000)))
    \<and> \<not> is_live default_health now stall"
proof
  have cast: "signed_take_bit 63 (int (stall div 1000000)) = int (stall div 1000000)"
    using assms(6) by (intro signed_take_bit_int_eq_self) (simp_all add: max_i64_def)
  show "\<not> is_live default_health now stall"
    by (simp add: is_live_def age_ms_def last_tick_completed_ms_def default_health_def)
  from assms(1) show "is_live h' now stall \<longleftrightarrow>
     (if pending_fails te then is_live h now stall
      else timestamp_millis now \<le> timestamp_millis (tk_completed te) + int (stall div 1000000))"
    using assms(2-5) cast
    by cases (auto simp: is_live_def age_ms_def last_tick_completed_ms_def mark_tick_started_def
        finish_tick_def mark_tick_completed_def sat_sub_i64_def max_i64_def min_i64_def)
qed

section \<open>Witnesses\<close>

definition demo_env :: row_env where
  "demo_env = \<lparr> t_policy = 0, t_grace = secs 600, t_write = secs 600, event_fault = None,
     get_event_alert_clip = Inr None, get_event_clip_id = Inr (Some 5),
     get_clip = (\<lambda>_. Inr (Some \<lparr> mc_ended_at = None, mc_hot_path = None \<rparr>)), file_exists = (\<lambda>_. True),
     deliver = (\<lambda>_ _. Returned (Inl (Transient ''503''))), write_fails = False, for_event_fails = False,
     remove_fails = False \<rparr>"

definition demo_ctx :: dispatch_ctx where
  "demo_ctx = \<lparr> cfg = default_dispatcher_config\<lparr>snapshots_dir := Some ''/snap''\<rparr>, registry_of = demo_registry,
     policy = allow_all_evaluate, has_bus = True \<rparr>"

definition demo_world :: world where
  "demo_world = \<lparr> db = aged_db, published = [], snapshots = {''/snap/ev-1.jpg''}, calls = [] \<rparr>"

definition clip_world :: world where
  "clip_world = demo_world\<lparr>db := aged_db\<lparr>outbox := [fresh_row 2 ''ev-1'' ''email:ops'' 0]\<rparr>\<rparr>"

definition cloud_row :: outbox_row where
  "cloud_row = fresh_row 2 ''ev-1'' ''cloud:console'' 0"

definition clip_row :: outbox_row where
  "clip_row = fresh_row 2 ''ev-1'' ''email:ops'' 0"

lemmas demo_row_defs = aged_db_def empty_db_def sent_row_def fresh_row_def

lemma demo_world_inv: "table_inv (db demo_world)" "table_inv (db clip_world)"
  using aged_db_inv
  by (simp_all add: demo_world_def clip_world_def table_inv_def demo_row_defs row_key_def check_row_def
      del: not_None_eq)

lemma demo_rows:
  "row_by_id (row_id cloud_row) (outbox (db demo_world)) = Some cloud_row" "row_id cloud_row = 2"
  "row_by_id (row_id clip_row) (outbox (db clip_world)) = Some clip_row" "row_id clip_row = 2"
  "status cloud_row = Pending" "attempts cloud_row = 0" "status clip_row = Pending" "attempts clip_row = 0"
  by (simp_all add: demo_world_def clip_world_def cloud_row_def clip_row_def demo_row_defs row_by_id_def)

lemma demo_sinks:
  "sink_id_parse ''cloud:console'' = Some ''cloud:console''" "sink_id_parse ''email:ops'' = Some ''email:ops''"
  "registry_get demo_registry ''cloud:console'' = Some (demo_sink ''cloud:console'' False)"
  "registry_get demo_registry ''email:ops'' = Some (demo_sink ''email:ops'' True)"
  by (simp_all add: sink_id_parse_def sink_id_new_def str_defs demo_registry_eq registry_get_def)

theorem process_row_refines_outbox_step_witness:
  "\<exists>called row'. outbox_step called cloud_row row'
    \<and> row_by_id 2 (outbox (db (process_row demo_ctx demo_env cloud_row demo_world))) = Some row'"
  using process_row_refines_outbox_step [OF demo_world_inv(1) demo_rows(1,5), of demo_env demo_ctx]
  by (auto simp: demo_rows demo_env_def)

text \<open>A reachable world: one event enqueued for two sinks, one row tried once.\<close>

definition queued_db :: outbox_db where
  "queued_db = \<lparr> events = [''ev-1'' \<mapsto> (event_1, True)],
     outbox = [fresh_row 1 ''ev-1'' ''webhook:a'' 0, fresh_row 2 ''ev-1'' ''cloud:console'' 0], autoinc = 3,
     cameras = [4] \<rparr>"

definition queued_world :: world where
  "queued_world = initial_world\<lparr>db := queued_db, snapshots := {''/snap/ev-1.jpg''}\<rparr>"

lemma queued_reach: "dispatch_reach 0 queued_world"
proof -
  have "record_event_and_enqueue_classified event_1 [''webhook:a'', ''cloud:console''] True 0
      (db (initial_world\<lparr>db := upsert_camera 4 (db initial_world)\<rparr>)) = Inr queued_db"
    by (simp add: initial_world_def upsert_camera_def empty_db_def record_event_and_enqueue_classified_def event_1_def
        queued_db_def fresh_row_def whole_second_def)
  from reach_enqueue [OF reach_camera [OF reach_init] this, of "{''/snap/ev-1.jpg''}"] show ?thesis
    by (simp add: queued_world_def)
qed

lemma queued_row: "row_by_id (row_id cloud_row) (outbox (db queued_world)) = Some cloud_row"
  by (simp add: queued_world_def queued_db_def row_by_id_def cloud_row_def fresh_row_def)

lemmas demo_process_defs = process_row_def get_event_def resolve_and_deliver_def resolve_alert_clip_def
  resolve_motion_clip_def deliver_row_def allow_all_evaluate_def

lemma cloud_row_tried: "calls (process_row demo_ctx demo_env cloud_row queued_world) = [(2, event_1)]"
  by (simp add: demo_process_defs demo_ctx_def demo_env_def cloud_row_def fresh_row_def demo_sinks
      queued_world_def queued_db_def initial_world_def demo_sink_def report_first_failure_def
      schedule_retry_def Let_def dispatch_simps split: option.split)

theorem delivery_attempts_bounded_witness:
  "dispatch_reach 0 (process_row demo_ctx demo_env cloud_row queued_world)
   \<and> calls_of 2 (process_row demo_ctx demo_env cloud_row queued_world) = 1
   \<and> calls_of 2 (process_row demo_ctx demo_env cloud_row queued_world) \<le> unat MAX_ATTEMPTS + 0"
proof -
  have "dispatch_reach 0 (process_row demo_ctx demo_env cloud_row queued_world)"
    using reach_process [OF queued_reach queued_row, of demo_env demo_ctx] by (simp add: demo_env_def)
  moreover from this have "calls_of 2 (process_row demo_ctx demo_env cloud_row queued_world) \<le> unat MAX_ATTEMPTS + 0"
    using delivery_attempts_bounded by blast
  ultimately show ?thesis by (simp add: calls_of_def cloud_row_tried)
qed

text \<open>A webhook that answers, for the last pending row of the event.\<close>

lemma clip_row_parked:
  "row_by_id 2 (outbox (db (process_row demo_ctx demo_env clip_row clip_world)))
    = Some (clip_row\<lparr>last_error := Some (''clip '' @ dec_int 5 @ '' still recording; awaiting post-roll close''),
                     next_attempt_at := Some (secs 601)\<rparr>)"
  by (simp add: demo_process_defs demo_ctx_def demo_env_def clip_row_def demo_row_defs demo_sinks event_1_def
      clip_world_def demo_world_def demo_sink_def schedule_clip_wait_def write_row_def outbox_mark_waiting_def
      sql_update_def check_row_def update_rows_def row_by_id_def waiting_row_def CLIP_WAIT_POLL_SECS_def
      secs_def)

theorem row_settles_within_budget_witness:
  "\<exists>row'. row_by_id 2 (outbox (db (drive demo_ctx (replicate 8 demo_env) 2 demo_world))) = Some row'
     \<and> terminal (status row')"
proof -
  have "\<not> may_wait demo_ctx demo_env cloud_row"
    by (simp add: may_wait_def resolved_sink_def demo_ctx_def cloud_row_def fresh_row_def demo_sinks demo_sink_def)
  then show ?thesis
    using row_settles_within_budget [OF demo_world_inv(1), of 2 cloud_row demo_ctx "replicate 8 demo_env"]
      demo_rows by (simp add: demo_env_def list_all_iff)
qed

definition demo_tick :: tick_env where
  "demo_tick = \<lparr> tk_started = secs 600, tk_fetch = secs 600, tk_completed = secs 601, pending_fails = False,
     env_of = (\<lambda>_. demo_env), out_of_budget = (\<lambda>_. False) \<rparr>"

lemma queued_inv: "table_inv (db queued_world)"
  using dispatch_reach_budget [OF queued_reach] by (simp add: budget_inv_def)

text \<open>The two groups of the queued event in the order that is not the sequential one.\<close>

lemma demo_tick_groups:
  "tick_groups demo_ctx demo_tick queued_world
    = [[fresh_row 2 ''ev-1'' ''cloud:console'' 0], [fresh_row 1 ''ev-1'' ''webhook:a'' 0]]"
  by (simp add: tick_groups_def group_by_sink_def demo_tick_def queued_world_def queued_db_def outbox_pending_def
      due_def fresh_row_def sql_limit_def demo_ctx_def default_dispatcher_config_def BATCH_SIZE_def less_char_def)

lemma demo_tick_rel:
  "tick_rel demo_ctx demo_tick (default_health, queued_world)
     (finish_tick demo_ctx demo_tick [fresh_row 1 ''ev-1'' ''webhook:a'' 0, fresh_row 2 ''ev-1'' ''cloud:console'' 0]
        (default_health, queued_world))"
proof (rule tick_drained)
  show "\<not> pending_fails demo_tick" by (simp add: demo_tick_def)
  show "interleave (tick_groups demo_ctx demo_tick queued_world)
      [fresh_row 1 ''ev-1'' ''webhook:a'' 0, fresh_row 2 ''ev-1'' ''cloud:console'' 0]"
    unfolding demo_tick_groups
    by (rule il_step [where i = 1 and xs = "[]"], simp, simp, rule il_step [where i = 0 and xs = "[]"],
        simp, simp, rule il_done, simp)
qed

definition swapped_world :: world where
  "swapped_world = process_rows demo_ctx demo_tick
     [fresh_row 1 ''ev-1'' ''webhook:a'' 0, fresh_row 2 ''ev-1'' ''cloud:console'' 0] queued_world"

lemma swapped_rel:
  "\<exists>h'. tick_rel demo_ctx demo_tick (default_health, queued_world) (h', swapped_world)"
  using demo_tick_rel by (auto simp: finish_tick_def swapped_world_def)

theorem tick_interleaving_irrelevant_witness:
  "db swapped_world = db (snd (tick demo_ctx demo_tick (default_health, queued_world)))"
  using swapped_rel tick_interleaving_irrelevant [OF queued_inv] by blast

end
