(* ===== verification/Replay_Caches.thy ===== *)
theory Replay_Caches
  imports Prelude "HOL-Library.Sublist"
begin

text \<open>
  \<open>crates/nexus-cloud-client/src/jti_cache.rs\<close> and \<open>response_cache.rs\<close>: the bounded
  replay window over \<open>(jti, request_id)\<close> keys and the bounded store of response bodies.
  Both pair a membership structure with a queue of keys in order of admission.  The
  interface \<open>fifo_window\<close> states what they share (a key already present is not
  admitted again, a full queue drops its oldest key) and derives that the queue always
  holds the last \<open>capacity\<close> admitted keys; \<open>fifo_store\<close> adds the stored values.
\<close>

type_synonym bytes = "8 word list"

section \<open>The replay window\<close>

record jti_cache =
  seen :: "string set"
  jti_order :: "string list"
  jti_capacity :: nat

definition DEFAULT_CAPACITY :: nat where
  "DEFAULT_CAPACITY = 10000"

definition jti_with_capacity :: "nat \<Rightarrow> jti_cache" where
  "jti_with_capacity c = \<lparr> seen = {}, jti_order = [], jti_capacity = c \<rparr>"

definition jti_new :: jti_cache where
  "jti_new = jti_with_capacity DEFAULT_CAPACITY"

definition jti_len :: "jti_cache \<Rightarrow> nat" where
  "jti_len c = length (jti_order c)"

definition jti_is_empty :: "jti_cache \<Rightarrow> bool" where
  "jti_is_empty c = (jti_len c = 0)"

definition compose_key :: "string \<Rightarrow> string option \<Rightarrow> string" where
  "compose_key jti request_id =
     (case request_id of None \<Rightarrow> jti | Some rid \<Rightarrow> jti @ ''|'' @ rid)"

text \<open>The body of \<open>insert_keyed\<close> on the composite key.\<close>

definition jti_admit :: "string \<Rightarrow> jti_cache \<Rightarrow> bool \<times> jti_cache" where
  "jti_admit key c =
     (if jti_capacity c = 0 then (True, c)
      else if key \<in> seen c then (False, c)
      else
        let c1 = (if length (jti_order c) = jti_capacity c
                  then (case jti_order c of [] \<Rightarrow> c
                        | evicted # rest \<Rightarrow> c\<lparr>jti_order := rest, seen := seen c - {evicted}\<rparr>)
                  else c)
        in (True, c1\<lparr>seen := insert key (seen c1), jti_order := jti_order c1 @ [key]\<rparr>))"

definition insert_keyed :: "string \<Rightarrow> string option \<Rightarrow> jti_cache \<Rightarrow> bool \<times> jti_cache" where
  "insert_keyed jti request_id c = jti_admit (compose_key jti request_id) c"

definition jti_insert :: "string \<Rightarrow> jti_cache \<Rightarrow> bool \<times> jti_cache" where
  "jti_insert jti c = insert_keyed jti None c"

definition contains_keyed :: "string \<Rightarrow> string option \<Rightarrow> jti_cache \<Rightarrow> bool" where
  "contains_keyed jti request_id c = (compose_key jti request_id \<in> seen c)"

definition jti_contains :: "string \<Rightarrow> jti_cache \<Rightarrow> bool" where
  "jti_contains jti c = contains_keyed jti None c"

section \<open>The response store\<close>

record response_cache =
  bodies :: "string \<rightharpoonup> bytes"
  resp_order :: "string list"
  resp_capacity :: nat

definition resp_with_capacity :: "nat \<Rightarrow> response_cache" where
  "resp_with_capacity c = \<lparr> bodies = Map.empty, resp_order = [], resp_capacity = c \<rparr>"

definition resp_new :: response_cache where
  "resp_new = resp_with_capacity DEFAULT_CAPACITY"

definition resp_len :: "response_cache \<Rightarrow> nat" where
  "resp_len c = length (resp_order c)"

definition resp_is_empty :: "response_cache \<Rightarrow> bool" where
  "resp_is_empty c = (resp_len c = 0)"

definition resp_compose_key :: "string \<Rightarrow> string \<Rightarrow> string" where
  "resp_compose_key jti request_id = jti @ ''|'' @ request_id"

definition resp_lookup :: "string \<Rightarrow> response_cache \<Rightarrow> bytes option" where
  "resp_lookup key c = (if resp_capacity c = 0 then None else bodies c key)"

definition resp_get :: "string \<Rightarrow> string \<Rightarrow> response_cache \<Rightarrow> bytes option" where
  "resp_get jti request_id c = resp_lookup (resp_compose_key jti request_id) c"

definition resp_put :: "string \<Rightarrow> bytes \<Rightarrow> response_cache \<Rightarrow> response_cache" where
  "resp_put key body c =
     (if resp_capacity c = 0 then c
      else if bodies c key \<noteq> None then c\<lparr>bodies := (bodies c)(key \<mapsto> body)\<rparr>
      else
        let c1 = (if length (resp_order c) = resp_capacity c
                  then (case resp_order c of [] \<Rightarrow> c
                        | evicted # rest \<Rightarrow> c\<lparr>resp_order := rest, bodies := (bodies c)(evicted := None)\<rparr>)
                  else c)
        in c1\<lparr>bodies := (bodies c1)(key \<mapsto> body), resp_order := resp_order c1 @ [key]\<rparr>)"

definition resp_insert :: "string \<Rightarrow> string \<Rightarrow> bytes \<Rightarrow> response_cache \<Rightarrow> response_cache" where
  "resp_insert jti request_id body c = resp_put (resp_compose_key jti request_id) body c"

section \<open>What a bounded FIFO promises\<close>

locale fifo_window =
  fixes keys :: "'s \<Rightarrow> 'k set" and order :: "'s \<Rightarrow> 'k list" and cap :: "'s \<Rightarrow> nat"
    and put :: "'k \<Rightarrow> 'v \<Rightarrow> 's \<Rightarrow> 's"
  assumes put_cap: "cap (put k v s) = cap s"
    and put_order: "set (order s) = keys s \<Longrightarrow> order (put k v s) =
      (if cap s = 0 \<or> k \<in> keys s then order s
       else (if length (order s) = cap s then tl (order s) else order s) @ [k])"
    and put_keys: "set (order s) = keys s \<Longrightarrow> distinct (order s) \<Longrightarrow> keys (put k v s) = set (order (put k v s))"
begin

definition wf :: "'s \<Rightarrow> bool" where
  "wf s \<longleftrightarrow> set (order s) = keys s \<and> distinct (order s) \<and> length (order s) \<le> cap s"

lemma wf_put: "wf s \<Longrightarrow> wf (put k v s)"
proof -
  assume w: "wf s"
  then have o: "order (put k v s) =
      (if cap s = 0 \<or> k \<in> keys s then order s
       else (if length (order s) = cap s then tl (order s) else order s) @ [k])"
    by (simp add: wf_def put_order)
  then show ?thesis
    using w by (cases "order s") (auto simp: wf_def put_cap put_keys)
qed

text \<open>The history (what the queue holds, then what is admitted) only loses its head.\<close>

lemma put_history:
  assumes "wf s" and "0 < cap s" and "k \<notin> keys s"
  shows "order s @ k # rest =
    (if length (order s) = cap s then hd (order s) # order (put k v s) @ rest else order (put k v s) @ rest)"
    and "length (order s) = cap s \<Longrightarrow> distinct (order s @ [k])"
  using assms by (cases "order s"; auto simp: wf_def put_order)+

text \<open>A held key moves towards the head by at most one place per admission.\<close>

lemma put_keeps_place:
  assumes "wf s" and "order s = older @ k # newer" and "Suc (length newer) < cap s"
  obtains older' newer' where "order (put k2 v2 s) = older' @ k # newer'" "length newer' \<le> Suc (length newer)"
proof (cases "k2 \<in> keys s")
  case True
  then show ?thesis using assms put_order [of s k2 v2] that [of older newer] by (simp add: wf_def)
next
  case False
  have o: "order (put k2 v2 s) = (if length (order s) = cap s then tl (order s) else order s) @ [k2]"
    using assms(1,3) False by (simp add: wf_def put_order)
  show ?thesis
  proof (cases "length (order s) = cap s")
    case True
    then obtain x xs where "older = x # xs" using assms(2,3) by (cases older) simp_all
    then show ?thesis using that [of xs "newer @ [k2]"] o assms(2) True by simp
  next
    case short: False
    then show ?thesis using that [of older "newer @ [k2]"] o assms(2) by simp
  qed
qed

fun puts :: "('k \<times> 'v) list \<Rightarrow> 's \<Rightarrow> 's" where
  "puts [] s = s"
| "puts ((k, v) # kvs) s = puts kvs (put k v s)"

fun admitted :: "('k \<times> 'v) list \<Rightarrow> 's \<Rightarrow> 'k list" where
  "admitted [] s = []"
| "admitted ((k, v) # kvs) s =
     (if cap s = 0 \<or> k \<in> keys s then admitted kvs (put k v s) else k # admitted kvs (put k v s))"

lemma puts_cap: "cap (puts kvs s) = cap s"
  by (induction kvs s rule: puts.induct) (simp_all add: put_cap)

lemma key_survives:
  assumes "wf s" and "order s = older @ k # newer" and "length newer + length kvs < cap s"
  shows "k \<in> keys (puts kvs s)"
  using assms
proof (induction kvs s arbitrary: older newer rule: puts.induct)
  case (1 s)
  then show ?case by (auto simp: wf_def)
next
  case (2 k2 v2 kvs s)
  have room: "Suc (length newer) < cap s" using "2.prems"(3) by simp
  obtain older' newer' where "order (put k2 v2 s) = older' @ k # newer'" "length newer' \<le> Suc (length newer)"
    using put_keeps_place [OF "2.prems"(1,2) room] by blast
  with "2.IH" [OF wf_put [OF "2.prems"(1)]] "2.prems"(3) show ?case by (simp add: put_cap)
qed

lemma wf_puts: "wf s \<Longrightarrow> wf (puts kvs s)"
  by (induction kvs s rule: puts.induct) (simp_all add: wf_put)

text \<open>The queue is the last \<open>cap\<close> keys of what it held and what was admitted since.\<close>

lemma order_puts:
  "wf s \<Longrightarrow> order (puts kvs s)
     = drop (length (order s @ admitted kvs s) - cap s) (order s @ admitted kvs s)"
proof (induction kvs s rule: puts.induct)
  case (1 s)
  then show ?case by (simp add: wf_def)
next
  case (2 k v kvs s)
  note IH = "2.IH" [OF wf_put [OF "2.prems"]] and w = "2.prems"
  have o: "order (put k v s) =
      (if cap s = 0 \<or> k \<in> keys s then order s
       else (if length (order s) = cap s then tl (order s) else order s) @ [k])"
    using w by (simp add: wf_def put_order)
  show ?case
  proof (cases "cap s = 0 \<or> k \<in> keys s")
    case True
    with IH o show ?thesis by (simp add: put_cap)
  next
    case False
    show ?thesis
    proof (cases "length (order s) = cap s")
      case True
      then obtain x xs where "order s = x # xs" using False by (cases "order s") auto
      with IH o False True show ?thesis by (simp add: put_cap Suc_diff_le)
    next
      case short: False
      with IH o False show ?thesis by (simp add: put_cap)
    qed
  qed
qed

text \<open>Two admissions of one key are more than \<open>cap\<close> admissions apart.\<close>

lemma admitted_spread:
  assumes "wf s" and "i < j" and "j < length (order s @ admitted kvs s)"
    and "(order s @ admitted kvs s) ! i = (order s @ admitted kvs s) ! j"
  shows "cap s < j - i"
  using assms
proof (induction kvs s arbitrary: i j rule: admitted.induct)
  case (1 s)
  then show ?case by (auto simp: wf_def nth_eq_iff_index_eq)
next
  case (2 k v kvs s)
  let ?h = "order (put k v s) @ admitted kvs (put k v s)"
  have wf': "wf (put k v s)" using "2.prems"(1) by (rule wf_put)
  show ?case
  proof (cases "cap s = 0 \<or> k \<in> keys s")
    case True
    then have "order (put k v s) = order s" using "2.prems"(1) by (auto simp: wf_def put_order)
    with "2.IH"(1) [OF True wf' "2.prems"(2)] "2.prems" True show ?thesis by (simp add: put_cap)
  next
    case False
    then have new: "0 < cap s" "k \<notin> keys s" by simp_all
    note hist = put_history(1) [OF "2.prems"(1) new, where rest = "admitted kvs (put k v s)" and v = v]
    have tr: "order s @ admitted ((k, v) # kvs) s
        = (if length (order s) = cap s then hd (order s) # ?h else ?h)"
      using False hist by simp
    show ?thesis
    proof (cases "length (order s) = cap s")
      case short: False
      with "2.IH"(2) [OF False wf' "2.prems"(2)] "2.prems"(3,4) tr show ?thesis by (simp only: put_cap if_False)
    next
      case full: True
      show ?thesis
      proof (cases i)
        case (Suc i')
        then obtain j' where j': "j = Suc j'" using "2.prems"(2) by (cases j) auto
        have "cap (put k v s) < j' - i'"
          using "2.prems"(2-4) full Suc j' unfolding tr by (intro "2.IH"(2) [OF False wf']) simp_all
        then show ?thesis by (simp add: put_cap Suc j')
      next
        case 0
        have "distinct (order s @ [k])" by (rule put_history(2) [OF "2.prems"(1) new full])
        moreover have "(order s @ [k]) ! 0 = (order s @ [k]) ! j" if "j \<le> cap s"
          using "2.prems"(4) 0 that full False new by (auto simp: nth_append)
        ultimately have "\<not> j \<le> cap s"
          using "2.prems"(2) 0 full by (auto simp: nth_eq_iff_index_eq)
        then show ?thesis using 0 by simp
      qed
    qed
  qed
qed

end

locale fifo_store = fifo_window keys order cap put
  for keys :: "'s \<Rightarrow> 'k set" and order :: "'s \<Rightarrow> 'k list" and cap :: "'s \<Rightarrow> nat"
    and put :: "'k \<Rightarrow> 'v \<Rightarrow> 's \<Rightarrow> 's" +
  fixes get :: "'k \<Rightarrow> 's \<Rightarrow> 'v option"
  assumes get_put: "wf s \<Longrightarrow> get k' (put k v s) =
      (if cap s = 0 then None else if k' = k then Some v
       else if k' \<in> keys (put k v s) then get k' s else None)"
begin

text \<open>A value survives until as many new keys have been admitted as there is room for.\<close>

lemma get_survives:
  assumes "wf s" and "order s = older @ k # newer" and "get k s = Some v" and "k \<notin> fst ` set kvs"
    and "length newer + length kvs < cap s"
  shows "get k (puts kvs s) = Some v"
  using assms
proof (induction kvs s arbitrary: older newer rule: admitted.induct)
  case (1 s)
  then show ?case by simp
next
  case (2 k2 v2 kvs s)
  note w = "2.prems"(1)
  have room: "Suc (length newer) < cap s" using "2.prems"(5) by simp
  obtain older' newer' where o': "order (put k2 v2 s) = older' @ k # newer'"
    and len: "length newer' \<le> Suc (length newer)"
    using put_keeps_place [OF w "2.prems"(2) room] by blast
  have "k \<in> keys (put k2 v2 s)" using wf_put [OF w, of k2 v2] o' by (auto simp: wf_def)
  then have g: "get k (put k2 v2 s) = Some v"
    using get_put [OF w, of k k2 v2] "2.prems"(3-5) by simp
  have "get k (puts kvs (put k2 v2 s)) = Some v"
  proof (cases "cap s = 0 \<or> k2 \<in> keys s")
    case True
    show ?thesis
      by (rule "2.IH"(1) [OF True wf_put [OF w] o' g]) (use "2.prems"(4,5) len in \<open>simp_all add: put_cap\<close>)
  next
    case False
    show ?thesis
      by (rule "2.IH"(2) [OF False wf_put [OF w] o' g]) (use "2.prems"(4,5) len in \<open>simp_all add: put_cap\<close>)
  qed
  then show ?case by simp
qed

lemma get_until_evicted:
  assumes "wf s" and "k \<notin> keys s" and "k \<notin> fst ` set kvs" and "length kvs < cap s"
  shows "get k (puts kvs (put k v s)) = Some v"
proof -
  have "order (put k v s) = (if length (order s) = cap s then tl (order s) else order s) @ [k]"
    using assms by (simp add: wf_def put_order)
  then show ?thesis
    using assms get_put [OF assms(1), of k k v]
    by (intro get_survives [OF wf_put [OF assms(1)], where newer = "[]"]) (simp_all add: put_cap)
qed

end

interpretation jti_window: fifo_window seen jti_order jti_capacity "\<lambda>k (_ :: unit) c. snd (jti_admit k c)"
proof
  fix k :: string and v :: unit and s :: jti_cache
  show "jti_capacity (snd (jti_admit k s)) = jti_capacity s"
    by (simp add: jti_admit_def Let_def split: list.split)
  assume w: "set (jti_order s) = seen s"
  show "jti_order (snd (jti_admit k s)) =
      (if jti_capacity s = 0 \<or> k \<in> seen s then jti_order s
       else (if length (jti_order s) = jti_capacity s then tl (jti_order s) else jti_order s) @ [k])"
    by (cases "jti_order s") (simp_all add: jti_admit_def Let_def)
  assume d: "distinct (jti_order s)"
  show "seen (snd (jti_admit k s)) = set (jti_order (snd (jti_admit k s)))"
  proof (cases "jti_order s")
    case Nil
    with w show ?thesis by (simp add: jti_admit_def Let_def)
  next
    case (Cons x xs)
    with w d have "seen s = insert x (set xs)" "x \<notin> set xs" by simp_all
    with Cons show ?thesis by (simp add: jti_admit_def Let_def)
  qed
qed

interpretation resp_store: fifo_store "\<lambda>c. dom (bodies c)" resp_order resp_capacity resp_put resp_lookup
proof
  fix k k' :: string and v :: bytes and s :: response_cache
  show "resp_capacity (resp_put k v s) = resp_capacity s"
    by (simp add: resp_put_def Let_def split: list.split)
  show "resp_order (resp_put k v s) =
      (if resp_capacity s = 0 \<or> k \<in> dom (bodies s) then resp_order s
       else (if length (resp_order s) = resp_capacity s then tl (resp_order s) else resp_order s) @ [k])"
    by (cases "resp_order s") (auto simp: resp_put_def Let_def)
  show "dom (bodies (resp_put k v s)) = set (resp_order (resp_put k v s))"
    if w: "set (resp_order s) = dom (bodies s)" and d: "distinct (resp_order s)"
  proof (cases "resp_order s")
    case Nil
    with w have "dom (bodies s) = {}" by simp
    with Nil show ?thesis by (simp add: resp_put_def Let_def)
  next
    case (Cons x xs)
    with w d have "dom (bodies s) = insert x (set xs)" "x \<notin> set xs" by simp_all
    with Cons show ?thesis by (auto simp: resp_put_def Let_def)
  qed
  show "resp_lookup k' (resp_put k v s) =
      (if resp_capacity s = 0 then None else if k' = k then Some v
       else if k' \<in> dom (bodies (resp_put k v s)) then resp_lookup k' s else None)"
    by (cases "resp_order s") (auto simp: resp_lookup_def resp_put_def Let_def)
qed

section \<open>Properties\<close>

text \<open>A sequence of verified tokens presented to the replay window.\<close>

fun admit_all :: "(string \<times> string option) list \<Rightarrow> jti_cache \<Rightarrow> bool list \<times> jti_cache" where
  "admit_all [] c = ([], c)"
| "admit_all ((jti, rid) # reqs) c =
     (let r = insert_keyed jti rid c; rest = admit_all reqs (snd r) in (fst r # fst rest, snd rest))"

definition keyed :: "(string \<times> string option) list \<Rightarrow> (string \<times> unit) list" where
  "keyed reqs = map (\<lambda>(jti, rid). (compose_key jti rid, ())) reqs"

lemma jti_admit_fst: "0 < jti_capacity c \<Longrightarrow> fst (jti_admit k c) \<longleftrightarrow> k \<notin> seen c"
  by (simp add: jti_admit_def Let_def)

lemma admit_all_admitted:
  assumes "0 < jti_capacity c"
  shows "jti_window.admitted (keyed reqs) c
      = map (\<lambda>(b, jti, rid). compose_key jti rid) (filter fst (zip (fst (admit_all reqs c)) reqs))
    \<and> length (fst (admit_all reqs c)) = length reqs"
  using assms
proof (induction reqs c rule: admit_all.induct)
  case (1 c)
  then show ?case by (simp add: keyed_def)
next
  case (2 jti rid reqs c)
  have "0 < jti_capacity (snd (jti_admit (compose_key jti rid) c))"
    using "2.prems" jti_window.put_cap [of "compose_key jti rid" c] by simp
  with "2.IH" [OF refl] "2.prems" jti_admit_fst [OF "2.prems", of "compose_key jti rid"] show ?case
    by (simp add: keyed_def insert_keyed_def Let_def)
qed

lemma filter_take_nth:
  "i < length xs \<Longrightarrow> P (xs ! i) \<Longrightarrow> length (filter P (take i xs)) < length (filter P xs)
     \<and> filter P xs ! length (filter P (take i xs)) = xs ! i"
proof (induction xs arbitrary: i)
  case Nil
  then show ?case by simp
next
  case (Cons x xs)
  then show ?case by (cases i) auto
qed

lemma filter_take_take:
  "i < j \<Longrightarrow> length (filter P (take j xs)) = length (filter P (take i xs)) + length (filter P (take (j - i) (drop i xs)))"
proof -
  assume "i < j"
  then have "take j xs = take i xs @ take (j - i) (drop i xs)"
    by (metis le_add_diff_inverse less_imp_le take_add)
  then show ?thesis by (simp flip: length_append filter_append)
qed

lemma jti_fresh_wf: "jti_window.wf (jti_with_capacity c)"
  by (simp add: jti_window.wf_def jti_with_capacity_def)

lemma zip_filter_fst: "length bs = length xs \<Longrightarrow> length (filter fst (take n (zip bs xs))) = length (filter id (take n bs))"
  by (induction bs xs arbitrary: n rule: list_induct2) (auto simp: take_Cons split: nat.split)

text \<open>
  A token cannot be replayed inside the window.  In any sequence of presentations to
  a window of capacity \<open>c > 0\<close>, two accepted presentations of the same
  \<open>(jti, request_id)\<close> have more than \<open>c\<close> acceptances from the first one (included) to
  the second one (excluded): a replay succeeds only after the key was pushed out by
  \<open>c\<close> other accepted tokens.
\<close>

lemma jti_replay_needs_full_window:
  assumes "0 < c" and "oks = fst (admit_all reqs (jti_with_capacity c))"
    and "i < j" "j < length reqs" "reqs ! i = reqs ! j" and "oks ! i" "oks ! j"
  shows "c < length (filter id (take (j - i) (drop i oks)))"
proof -
  let ?s = "jti_with_capacity c"
  let ?key = "\<lambda>(b :: bool, jti, rid). compose_key jti rid"
  let ?z = "zip oks reqs"
  have cap: "jti_capacity ?s = c" and empty: "jti_order ?s = []" by (simp_all add: jti_with_capacity_def)
  have adm: "jti_window.admitted (keyed reqs) ?s = map ?key (filter fst ?z)" and len: "length oks = length reqs"
    using admit_all_admitted [of ?s reqs] assms(1,2) cap by auto
  let ?i = "length (filter fst (take i ?z))" and ?j = "length (filter fst (take j ?z))"
  have at: "?i < length (filter fst ?z)" "filter fst ?z ! ?i = ?z ! i"
    "?j < length (filter fst ?z)" "filter fst ?z ! ?j = ?z ! j"
    using filter_take_nth [of i ?z fst] filter_take_nth [of j ?z fst] assms(3-7) len by simp_all
  have lt: "?i < ?j"
    using filter_take_nth [of i "take j ?z" fst] assms(3,4,6) len by (simp add: min_def)
  have "jti_capacity ?s < ?j - ?i"
    by (rule jti_window.admitted_spread [OF jti_fresh_wf lt, where kvs = "keyed reqs"])
       (use at assms(3-5) len in \<open>simp_all add: adm empty\<close>)
  then show ?thesis
    using filter_take_take [OF assms(3), of id oks] zip_filter_fst [OF len] cap by simp
qed

lemma admit_all_puts: "snd (admit_all reqs c) = jti_window.puts (keyed reqs) c"
  by (induction reqs c rule: admit_all.induct)
     (simp_all add: keyed_def insert_keyed_def Let_def)

lemma admit_all_append:
  "fst (admit_all (xs @ ys) c) = fst (admit_all xs c) @ fst (admit_all ys (snd (admit_all xs c)))"
  by (induction xs c rule: admit_all.induct) (simp_all add: Let_def)

lemma compose_key_inj:
  assumes "CHR ''|'' \<notin> set jti" and "CHR ''|'' \<notin> set jti'" and "compose_key jti rid = compose_key jti' rid'"
  shows "jti = jti' \<and> rid = rid'"
proof -
  have split: "split_once CHR ''|'' (compose_key j r) = map_option (Pair j) r" if "CHR ''|'' \<notin> set j" for j r
  proof (cases r)
    case None
    then show ?thesis using that by (simp add: compose_key_def split_once_None_iff)
  next
    case (Some x)
    have "split_once CHR ''|'' (j @ CHR ''|'' # x) = Some (j, x)"
      using that by (subst split_once_Some_iff) simp
    then show ?thesis using Some by (simp add: compose_key_def)
  qed
  have "map_option (Pair jti) rid = map_option (Pair jti') rid'"
    using split [OF assms(1)] split [OF assms(2)] assms(3) by metis
  then show ?thesis
    using assms(3) by (cases rid; cases rid') (simp_all add: compose_key_def)
qed

text \<open>
  The window refuses nothing else: when token ids do not contain the separator, a
  presentation is refused only if the very same \<open>(jti, request_id)\<close> was accepted
  before.
\<close>

lemma jti_refusal_is_replay:
  assumes "0 < c" and "oks = fst (admit_all reqs (jti_with_capacity c))"
    and "list_all (\<lambda>(jti, rid). CHR ''|'' \<notin> set jti) reqs"
    and "j < length reqs" and "\<not> oks ! j"
  shows "\<exists>i < j. oks ! i \<and> reqs ! i = reqs ! j"
proof -
  let ?s = "jti_with_capacity c"
  let ?pre = "take j reqs" and ?b = "fst (admit_all (take j reqs) ?s)"
  obtain jti rid where r: "reqs ! j = (jti, rid)" by fastforce
  have cap: "jti_capacity ?s = c" and empty: "jti_order ?s = []" by (simp_all add: jti_with_capacity_def)
  let ?c = "snd (admit_all ?pre ?s)"
  have capc: "0 < jti_capacity ?c"
    using assms(1) cap by (simp add: admit_all_puts jti_window.puts_cap)
  have len: "length ?b = j" and adm: "jti_window.admitted (keyed ?pre) ?s
      = map (\<lambda>(b, jti, rid). compose_key jti rid) (filter fst (zip ?b ?pre))"
    using admit_all_admitted [of ?s ?pre] assms(1,4) cap by auto
  have split: "reqs = ?pre @ (jti, rid) # drop (Suc j) reqs"
    using assms(4) r by (metis id_take_nth_drop)
  have oks: "oks = ?b @ fst (admit_all ((jti, rid) # drop (Suc j) reqs) ?c)"
    using assms(2) split admit_all_append by metis
  then have "oks ! j \<longleftrightarrow> fst (insert_keyed jti rid ?c)"
    using len by (simp add: nth_append Let_def)
  then have "compose_key jti rid \<in> seen ?c"
    using assms(5) jti_admit_fst [OF capc, of "compose_key jti rid"] by (simp add: insert_keyed_def)
  also have "seen ?c = set (jti_order ?c)"
    using jti_window.wf_puts [OF jti_fresh_wf] by (simp add: admit_all_puts jti_window.wf_def)
  also have "\<dots> \<subseteq> set (jti_window.admitted (keyed ?pre) ?s)"
    using jti_window.order_puts [OF jti_fresh_wf, of "keyed ?pre" c] empty
    by (simp add: admit_all_puts set_drop_subset)
  finally obtain b jti' rid' where m: "(b, jti', rid') \<in> set (zip ?b ?pre)" "b"
    "compose_key jti rid = compose_key jti' rid'"
    by (auto simp: adm)
  then obtain i where i: "i < j" "?b ! i" "?pre ! i = (jti', rid')"
    using len by (auto simp: in_set_zip)
  have "CHR ''|'' \<notin> set jti'" "CHR ''|'' \<notin> set jti"
    using assms(3,4) i r nth_mem [of i reqs] nth_mem [of j reqs] by (simp_all add: list_all_iff) fastforce+
  then have "reqs ! i = reqs ! j"
    using compose_key_inj m(3) i r by fastforce
  moreover have "oks ! i" using oks i len by (simp add: nth_append)
  ultimately show ?thesis using i(1) by blast
qed

definition resp_inv :: "response_cache \<Rightarrow> bool" where
  "resp_inv c \<longleftrightarrow> set (resp_order c) = dom (bodies c) \<and> distinct (resp_order c)
     \<and> length (resp_order c) \<le> resp_capacity c"

text \<open>
  A retry is answered byte for byte: a body stored for a fresh \<open>(jti, request_id)\<close>
  is returned unchanged as long as fewer other responses than the capacity were stored
  since.
\<close>

lemma response_replayed_until_evicted:
  assumes "resp_inv c" and "resp_get jti rid c = None"
    and "length others < resp_capacity c"
    and "list_all (\<lambda>((j, r), b). resp_compose_key j r \<noteq> resp_compose_key jti rid) others"
  shows "resp_get jti rid (fold (\<lambda>((j, r), b). resp_insert j r b) others (resp_insert jti rid body c)) = Some body"
proof -
  let ?key = "resp_compose_key jti rid"
  let ?kvs = "map (\<lambda>((j, r), b). (resp_compose_key j r, b)) others"
  have "fold (\<lambda>((j, r), b). resp_insert j r b) others s = resp_store.puts ?kvs s" for s
    by (induction others arbitrary: s) (auto simp: resp_insert_def)
  moreover have "?key \<notin> dom (bodies c)"
    using assms(2,3) by (auto simp: resp_get_def resp_lookup_def split: if_splits)
  moreover have "?key \<notin> fst ` set ?kvs"
    using assms(4) by (auto simp: list_all_iff)
  ultimately show ?thesis
    using resp_store.get_until_evicted [of c ?key ?kvs body] assms(1,3)
    by (simp add: resp_get_def resp_insert_def resp_store.wf_def resp_inv_def)
qed

section \<open>Witnesses\<close>

text \<open>A window of two: the token is refused while it is held and accepted again after two
  others pushed it out.\<close>

definition demo_reqs :: "(string \<times> string option) list" where
  "demo_reqs = [(''a'', None), (''a'', None), (''b'', Some ''r''), (''c'', None), (''a'', None)]"

lemma demo_reqs_run:
  "fst (admit_all demo_reqs (jti_with_capacity 2)) = [True, False, True, True, True]"
  by (simp add: demo_reqs_def jti_with_capacity_def insert_keyed_def jti_admit_def compose_key_def Let_def)

end
