(* ===== verification/Actor_Token.thy ===== *)
theory Actor_Token
  imports Replay_Caches "HOL-Library.AList"
begin

text \<open>
  \<open>crates/nexus-cloud-client/src/actor_token.rs\<close> and \<open>error.rs\<close>: the verifier of the
  signed tokens that accompany cloud RPC calls, the table that maps a route to the
  permissions that may call it, and the check that binds a request body to the camera
  of its path.  Base64, JSON and Ed25519 are not part of the repository: they are the
  fields of the record \<open>token_lib\<close>, a parameter of every definition that needs them.
  The replay window is passed and returned explicitly.
\<close>

section \<open>Rejections\<close>

datatype invalid_reason = MalformedJws | UnsupportedAlg | MalformedClaims | BadSignature | UnknownKeyId
  | WrongAudience | WrongCoreId | MethodMismatch | PathMismatch | PermissionMismatch | Expired
  | NotYetValid | Replay | SystemSubNotPermittedForMethod

datatype reject_reason = Missing | Invalid invalid_reason

fun reject_wire_code :: "reject_reason \<Rightarrow> string" where
  "reject_wire_code Missing = ''actor_token_missing''"
| "reject_wire_code (Invalid _) = ''actor_token_invalid''"

datatype dispatch_error = Reject reject_reason | HandlerError string

fun wire_code :: "dispatch_error \<Rightarrow> string" where
  "wire_code (Reject r) = reject_wire_code r"
| "wire_code (HandlerError _) = ''internal_error''"

section \<open>Claims, keys and the library\<close>

definition EXPECTED_AUDIENCE :: string where
  "EXPECTED_AUDIENCE = ''nexus-edge-rpc''"

definition SHELL_AUDIENCE :: string where
  "SHELL_AUDIENCE = ''nexus-edge-shell''"

definition CLOCK_SKEW_SECS :: int where
  "CLOCK_SKEW_SECS = 30"

definition UPDATE_ORCHESTRATOR_ACTIONS :: "string list" where
  "UPDATE_ORCHESTRATOR_ACTIONS = [''update_assignment'', ''update_cancel'', ''update_rollback'']"

definition FLEET_CATEGORIES :: "string list" where
  "FLEET_CATEGORIES = [''rules'', ''text_prompts'', ''visual_prompts'', ''detector_config'',
     ''delivery_settings'', ''alert_sinks'', ''live_view'']"

record actor_claims =
  cl_actor_org_id :: "string option"
  cl_aud :: string
  cl_core_id :: string
  cl_exp :: u64
  cl_http_method :: string
  cl_iat :: u64
  cl_iss :: string
  cl_jti :: string
  cl_org_id :: string
  cl_path :: string
  cl_perm :: "string option"
  cl_role :: string
  cl_sub :: string

record shell_claims =
  sc_aud :: string
  sc_core_id :: string
  sc_exp :: u64
  sc_iat :: u64
  sc_iss :: string
  sc_jti :: string
  sc_org_id :: string
  sc_role :: string
  sc_session_id :: string
  sc_sub :: string

record jws_header =
  hd_alg :: string
  hd_kid :: "string option"

text \<open>A \<open>serde_json::Value\<close>; numbers are unsigned, negative or floating.\<close>

datatype json = JNull | JBool bool | JPos u64 | JNeg int | JFloat string | JStr string
  | JArr "json list" | JObj "(string \<times> json) list"

record 'key token_lib =
  b64_decode :: "string \<Rightarrow> bytes option"
  parse_header :: "bytes \<Rightarrow> jws_header option"
  parse_claims :: "bytes \<Rightarrow> actor_claims option"
  parse_shell_claims :: "bytes \<Rightarrow> shell_claims option"
  parse_json :: "bytes \<Rightarrow> json option"
  sig_verify :: "'key \<Rightarrow> bytes \<Rightarrow> bytes \<Rightarrow> bool"

record 'key trusted_key =
  tk_kid :: string
  tk_key :: 'key

record verified_actor =
  va_sub :: string
  va_role :: string
  va_perm :: "string option"
  va_jti :: string
  va_org_id :: string
  va_actor_org_id :: "string option"

record envelope_context =
  ec_method :: string
  ec_path :: string

section \<open>Routes and permissions\<close>

definition rpc_path_parts :: "string \<Rightarrow> string list option" where
  "rpc_path_parts path0 =
     (let path1 = (case split_on CHR ''?'' path0 of [] \<Rightarrow> path0 | p # _ \<Rightarrow> p)
      in if list_ex (\<lambda>c. c \<in> {CHR ''%'', CHR ''#'', CHR 0x5C}) path1 \<or> contains_sub ''//'' path1
            \<or> list_ex (\<lambda>part. part = ''.'' \<or> part = ''..'') (split_on CHR ''/'' path1)
         then None
         else
           let path2 = (case strip_suffix ''/'' path1 of None \<Rightarrow> path1 | Some p \<Rightarrow> p)
           in Some (split_on CHR ''/'' (dropWhile (\<lambda>c. c = CHR ''/'') path2)))"

text \<open>The slice patterns of the route table: a literal, an alternative, a binding, and a
  binding guarded by \<open>parse::<u64>\<close>.\<close>

datatype seg = Lit string | Alt "string list" | Wild | U64

fun seg_match :: "seg \<Rightarrow> string \<Rightarrow> bool" where
  "seg_match (Lit l) s = (s = l)"
| "seg_match (Alt ls) s = (s \<in> set ls)"
| "seg_match Wild s = True"
| "seg_match U64 s = (parse_u64 s \<noteq> None)"

fun pat_match :: "seg list \<Rightarrow> string list \<Rightarrow> bool" where
  "pat_match [] [] = True"
| "pat_match (p # ps) (s # ss) = (seg_match p s \<and> pat_match ps ss)"
| "pat_match _ _ = False"

type_synonym route = "string list \<times> seg list \<times> string list"

fun first_route :: "route list \<Rightarrow> string \<Rightarrow> string list \<Rightarrow> string list option" where
  "first_route [] m parts = None"
| "first_route ((verbs, pat, perms) # rs) m parts =
     (if m \<in> set verbs \<and> pat_match pat parts then Some perms else first_route rs m parts)"

text \<open>The arms of the match, in order: those before the camera arm, the camera's own, and
  those after it.\<close>

definition core_routes :: "route list" where
  [rpc_defs]: "core_routes = [
     ([''POST''], [Lit ''diag_collect''], [''diagnostics.collect'']),
     ([''POST''], [Alt [''update_assignment'', ''update_cancel'', ''update_rollback'']], [''fleet.apply'', ''fleet.firmware'']),
     ([''PUT''], [Lit ''admin'', Lit ''remote_access''], [''shell.policy'']),
     ([''POST''], [Lit ''admin'', Lit ''remote-access'', Lit ''restart-sshd''], [''shell.manage'']),
     ([''POST''], [Lit ''admin'', Lit ''clips'', U64, Lit ''replicate''], [''clips.expedite'']),
     ([''POST''], [Lit ''admin'', Lit ''fleet'', Alt FLEET_CATEGORIES], [''fleet.apply'']),
     ([''PUT''], [Lit ''admin'', Lit ''network'', Alt [''plan'', ''roles'']], [''settings.network'']),
     ([''POST''], [Lit ''admin'', Lit ''network'', Lit ''plan'', Alt [''apply'', ''confirm'', ''rollback'']], [''settings.network''])]"

definition camera_routes :: "route list" where
  [rpc_defs]: "camera_routes = [
     ([''POST''], [Lit ''ptz''], [''live.ptz'', ''settings.write'']),
     ([''POST''], [Lit ''firmware:upgrade''], [''fleet.firmware'']),
     ([''PUT''], [Lit ''network'', Lit ''interface''], [''settings.network'']),
     ([''POST''], [Lit ''talk-down''], [''live.talkdown'']),
     ([''POST''], [Lit ''talk-down'', Lit ''stop''], [''live.talkdown'']),
     ([''GET''], [Lit ''talk-down''], [''settings.read'', ''live.talkdown'']),
     ([''PUT''], [Lit ''talk-down''], [''settings.write'']),
     ([''PUT'', ''DELETE''], [], [''settings.write'']),
     ([''PUT''], [Alt [''imaging'', ''encoder'']], [''settings.write'']),
     ([''PUT''], [Lit ''network'', Lit ''safe''], [''settings.write'']),
     ([''PUT''], [Lit ''deviceio'', Lit ''relays''], [''settings.write'']),
     ([''POST''], [Lit ''device''], [''settings.write'']),
     ([''POST''], [Lit ''imaging'', Lit ''focus''], [''settings.write'']),
     ([''POST''], [Lit ''deviceio'', Lit ''osd''], [''settings.write'']),
     ([''POST'', ''DELETE''], [Lit ''visual-prompts'', Wild], [''settings.write'']),
     ([''GET''], [Alt [''stats'', ''imaging'', ''encoder'', ''snapshot'', ''network'', ''speakers'', ''device'', ''visual-prompts'']], [''settings.read'']),
     ([''GET''], [Lit ''ptz'', Alt [''presets'', ''nodes'', ''status'', ''config-options'']], [''settings.read'']),
     ([''GET''], [Lit ''media'', Lit ''profiles''], [''settings.read'']),
     ([''GET''], [Lit ''device'', Lit ''log''], [''settings.read'']),
     ([''GET''], [Lit ''deviceio'', Alt [''relays'', ''inputs'', ''audio-sources'', ''osds'']], [''settings.read''])]"

definition admin_routes :: "route list" where
  [rpc_defs]: "admin_routes = [
     ([''PUT''], [Lit ''admin'', Lit ''server'', Lit ''identity''], [''settings.write'', ''cores.manage'']),
     ([''DELETE''], [Lit ''admin'', Lit ''cloud'', Lit ''enrollment''], [''settings.write'', ''cores.manage'']),
     ([''POST''], [Lit ''admin'', Lit ''cameras''], [''settings.write'']),
     ([''POST''], [Lit ''admin'', Lit ''cameras'', Lit ''reprobe''], [''settings.write'']),
     ([''POST''], [Lit ''admin'', Lit ''cameras'', Lit ''reprobe'', Lit ''apply''], [''settings.write'']),
     ([''PUT''], [Lit ''admin'', Lit ''storage'', Lit ''cold''], [''settings.write'']),
     ([''PUT'', ''DELETE''], [Lit ''admin'', Lit ''storage'', Lit ''backends'', Wild], [''settings.write'']),
     ([''PUT''], [Lit ''admin'', Lit ''runtime'', Lit ''usb_preferred''], [''settings.write'']),
     ([''PUT''], [Lit ''admin'', Lit ''delivery''], [''settings.write'']),
     ([''PUT'', ''DELETE''], [Lit ''admin'', Lit ''sinks'', Lit ''config'', Wild, Wild], [''settings.write'']),
     ([''POST''], [Lit ''admin'', Lit ''sinks'', Lit ''config'', Wild, Wild, Lit ''test''], [''settings.write'']),
     ([''PUT''], [Lit ''admin'', Lit ''reid'', Lit ''config''], [''settings.write'']),
     ([''PUT''], [Lit ''admin'', Lit ''live-view'', Lit ''transport''], [''settings.write'']),
     ([''POST''], [Lit ''admin'', Lit ''oauth'', Wild, Lit ''start''], [''settings.write'']),
     ([''POST''], [Lit ''admin'', Lit ''discovery'', Alt [''onvif'', ''scan'']], [''settings.write'']),
     ([''POST''], [Lit ''admin'', Lit ''discovery'', Lit ''sessions'', Wild, Alt [''probe-rtsp'', ''onvif-streams'', ''cancel'']], [''settings.write'']),
     ([''POST''], [Lit ''admin'', Lit ''visual-prompts''], [''settings.write'']),
     ([''DELETE''], [Lit ''admin'', Lit ''visual-prompts'', Wild], [''settings.write'']),
     ([''PUT''], [Lit ''admin'', Lit ''server'', Alt [''bind'', ''watermarks'', ''inference'']], [''settings.write'']),
     ([''POST''], [Lit ''admin'', Lit ''server'', Lit ''restart''], [''settings.write'']),
     ([''PUT''], [Lit ''admin'', Lit ''auth'', Lit ''config''], [''settings.write'']),
     ([''POST''], [Lit ''admin'', Lit ''auth'', Lit ''oidc'', Lit ''test-discovery''], [''settings.write'']),
     ([''POST''], [Lit ''admin'', Lit ''cloud'', Lit ''enroll''], [''settings.write'']),
     ([''POST''], [Lit ''admin'', Lit ''speakers''], [''settings.write'']),
     ([''PUT'', ''DELETE''], [Lit ''admin'', Lit ''speakers'', Wild], [''settings.write'']),
     ([''PUT''], [Lit ''admin'', Lit ''speakers'', Wild, Lit ''cameras''], [''settings.write'']),
     ([''POST''], [Lit ''admin'', Lit ''speakers'', Wild, Lit ''test''], [''settings.write'']),
     ([''POST''], [Lit ''admin'', Lit ''users''], [''members.manage'']),
     ([''PUT'', ''DELETE''], [Lit ''admin'', Lit ''users'', Wild], [''members.manage'']),
     ([''POST''], [Lit ''admin'', Lit ''users'', Wild, Alt [''reset-password'', ''unlock'']], [''members.manage'']),
     ([''GET''], [Lit ''admin'', Lit ''diagnostics'', Lit ''export''], [''diagnostics.read'']),
     ([''GET''], [Lit ''admin'', Alt [''storage'', ''delivery'', ''sinks'', ''remote_access'', ''users'', ''audit'', ''visual-prompts'', ''cameras'']], [''settings.read'']),
     ([''GET''], [Lit ''admin'', Lit ''cameras'', Lit ''stats''], [''settings.read'']),
     ([''GET''], [Lit ''admin'', Lit ''sinks'', Lit ''health''], [''settings.read'']),
     ([''GET''], [Lit ''admin'', Lit ''live'', Lit ''status''], [''settings.read'']),
     ([''GET''], [Lit ''admin'', Lit ''reid'', Lit ''status''], [''settings.read'']),
     ([''GET''], [Lit ''admin'', Lit ''system'', Lit ''metrics-history''], [''settings.read'']),
     ([''GET''], [Lit ''admin'', Lit ''live-view'', Lit ''transport''], [''settings.read'']),
     ([''GET''], [Lit ''admin'', Lit ''oauth'', Lit ''status''], [''settings.read'']),
     ([''GET''], [Lit ''admin'', Lit ''discovery'', Lit ''sessions'', Wild], [''settings.read'']),
     ([''GET''], [Lit ''admin'', Lit ''audit'', Lit ''resource'', Wild, Wild], [''settings.read'']),
     ([''GET''], [Lit ''admin'', Lit ''visual-prompts'', Wild], [''settings.read'']),
     ([''GET''], [Lit ''admin'', Lit ''fleet'', Lit ''managed''], [''settings.read'']),
     ([''GET''], [Lit ''admin'', Lit ''server'', Alt [''bind'', ''watermarks'', ''inference'', ''identity'', ''all'']], [''settings.read'']),
     ([''GET''], [Lit ''admin'', Lit ''auth'', Lit ''config''], [''settings.read'']),
     ([''GET''], [Lit ''admin'', Lit ''cloud'', Lit ''enrollment''], [''settings.read'']),
     ([''GET''], [Lit ''admin'', Lit ''network'', Alt [''interfaces'', ''plan'', ''roles'']], [''settings.read'']),
     ([''GET''], [Lit ''admin'', Lit ''network'', Lit ''apply'', Lit ''status''], [''settings.read'']),
     ([''GET''], [Lit ''admin'', Lit ''speakers''], [''settings.read'']),
     ([''GET''], [Lit ''admin'', Lit ''speakers'', Wild], [''settings.read''])]"

definition camera_rpc_permissions :: "string \<Rightarrow> string list \<Rightarrow> string list" where
  "camera_rpc_permissions m tail =
     (case first_route camera_routes m tail of None \<Rightarrow> [] | Some perms \<Rightarrow> perms)"

definition rpc_permissions :: "envelope_context \<Rightarrow> string list" where
  "rpc_permissions env =
     (case rpc_path_parts (ec_path env) of None \<Rightarrow> []
      | Some parts \<Rightarrow>
          let m = to_ascii_uppercase (ec_method env)
          in case first_route core_routes m parts of
               Some perms \<Rightarrow> perms
             | None \<Rightarrow>
                 (case parts of
                    a # b # i # tail \<Rightarrow>
                      if a = ''admin'' \<and> b = ''cameras'' \<and> parse_u64 i \<noteq> None
                      then camera_rpc_permissions m tail
                      else (case first_route admin_routes m parts of None \<Rightarrow> [] | Some perms \<Rightarrow> perms)
                  | _ \<Rightarrow> (case first_route admin_routes m parts of None \<Rightarrow> [] | Some perms \<Rightarrow> perms)))"

section \<open>The body of a camera request\<close>

definition camera_key :: "string \<Rightarrow> bool" where
  "camera_key k = (k \<in> {''camera_id'', ''edge_camera_id'', ''camera_ids''})"

fun as_u64 :: "json \<Rightarrow> nat option" where
  "as_u64 (JPos n) = Some (unat n)"
| "as_u64 _ = None"

fun as_str :: "json \<Rightarrow> string option" where
  "as_str (JStr s) = Some s"
| "as_str _ = None"

fun id_values :: "json \<Rightarrow> json list" where
  "id_values (JArr ids) = ids"
| "id_values v = [v]"

definition names_camera :: "nat \<Rightarrow> json \<Rightarrow> bool" where
  "names_camera camera v =
     ((case as_u64 v of Some n \<Rightarrow> Some n | None \<Rightarrow> Option.bind (as_str v) parse_u64) = Some camera)"

fun json_get :: "string \<Rightarrow> json \<Rightarrow> json option" where
  "json_get k (JObj kvs) = map_of kvs k"
| "json_get k _ = None"

fun json_weight :: "json \<Rightarrow> nat" where
  "json_weight (JArr vs) = Suc (\<Sum>v \<leftarrow> vs. json_weight v)"
| "json_weight (JObj kvs) = Suc (\<Sum>f \<leftarrow> kvs. json_weight (snd f))"
| "json_weight _ = 1"

text \<open>The work stack of the loop, top first: \<open>pop\<close> takes the last value pushed.\<close>

function body_scan :: "nat \<Rightarrow> json list \<Rightarrow> bool" where
  "body_scan camera [] = True"
| "body_scan camera (v # pending) =
     (case v of
        JObj kvs \<Rightarrow>
          if list_ex (\<lambda>(k, x). camera_key k \<and> list_ex (\<lambda>i. \<not> names_camera camera i) (id_values x)) kvs
          then False
          else body_scan camera (rev (map snd (filter (\<lambda>(k, x). \<not> camera_key k) kvs)) @ pending)
      | JArr vs \<Rightarrow> body_scan camera (rev vs @ pending)
      | _ \<Rightarrow> body_scan camera pending)"
  by pat_completeness auto

lemma weight_rev_filter:
  "(\<Sum>v \<leftarrow> rev (map snd (filter P kvs)). json_weight v) \<le> (\<Sum>f \<leftarrow> kvs. json_weight (snd f))"
  by (induction kvs) auto

termination body_scan
proof (relation "measure (\<lambda>(camera, vs). \<Sum>v \<leftarrow> vs. json_weight v)"; clarsimp)
  fix kvs :: "(string \<times> json) list"
  show "(\<Sum>v \<leftarrow> rev (map snd (filter (\<lambda>(k, x). \<not> camera_key k) kvs)). json_weight v)
      < Suc (\<Sum>f \<leftarrow> kvs. json_weight (snd f))"
    using weight_rev_filter le_imp_less_Suc by blast
qed (simp_all flip: rev_map)

text \<open>The permission a PTZ action needs.\<close>

definition ptz_permission :: "string option \<Rightarrow> string option" where
  "ptz_permission action =
     (case action of None \<Rightarrow> None
      | Some a \<Rightarrow>
          if a \<in> {''move'', ''relative_move'', ''absolute_move'', ''stop'', ''goto_preset'', ''goto_home''}
          then Some ''live.ptz''
          else if a \<in> {''set_preset'', ''remove_preset'', ''set_home'', ''aux''} then Some ''settings.write''
          else None)"

definition rpc_body_matches ::
    "('key, 'z) token_lib_scheme \<Rightarrow> envelope_context \<Rightarrow> string \<Rightarrow> bytes option \<Rightarrow> bool" where
  "rpc_body_matches lib env permission body =
     (case rpc_path_parts (ec_path env) of
        None \<Rightarrow> False
      | Some (a # b # i # tail) \<Rightarrow>
          if a \<noteq> ''admin'' \<or> b \<noteq> ''cameras'' then True
          else (case parse_u64 i of None \<Rightarrow> True
            | Some camera \<Rightarrow>
                let payload = Option.bind body (parse_json lib)
                in if tail = [''ptz''] \<and> to_ascii_uppercase (ec_method env) = ''POST''
                      \<and> ptz_permission (Option.bind (Option.bind payload (json_get ''action'')) as_str)
                          \<noteq> Some permission
                   then False
                   else body_scan camera (case payload of None \<Rightarrow> [] | Some v \<Rightarrow> [v]))
      | Some _ \<Rightarrow> True)"

section \<open>What an actor may do\<close>

definition allows_system_action :: "verified_actor \<Rightarrow> envelope_context \<Rightarrow> bool" where
  "allows_system_action actor env =
     (if \<not> starts_with ''system:'' (va_sub actor)
      then va_role actor \<noteq> ''system'' \<and> \<not> starts_with ''system:'' (va_role actor)
      else ec_method env = ''POST'' \<and>
        (if va_sub actor = ''system:update-orchestrator''
         then ec_path env \<in> set UPDATE_ORCHESTRATOR_ACTIONS
         else if va_sub actor = ''system:api-gateway''
         then (case strip_prefix ''/admin/fleet/'' (ec_path env) of None \<Rightarrow> False
               | Some category \<Rightarrow> category \<in> set FLEET_CATEGORIES)
         else False))"

definition safe_verb :: "string \<Rightarrow> bool" where
  "safe_verb m = (to_ascii_uppercase m \<in> {''GET'', ''HEAD'', ''OPTIONS''})"

definition allows_rpc ::
    "('key, 'z) token_lib_scheme \<Rightarrow> verified_actor \<Rightarrow> envelope_context \<Rightarrow> bytes option \<Rightarrow> bool \<Rightarrow> bool" where
  "allows_rpc lib actor env body legacy_allowed =
     (if \<not> allows_system_action actor env then False
      else case va_perm actor of
             None \<Rightarrow> legacy_allowed \<and> (safe_verb (ec_method env) \<or> rpc_permissions env \<noteq> [])
           | Some permission \<Rightarrow>
               permission \<in> set (rpc_permissions env) \<and> rpc_body_matches lib env permission body)"

section \<open>The verifier\<close>

record 'key verifier =
  v_core_id :: string
  v_trusted_keys :: "(string \<times> 'key) list"
  v_allow_kidless_when_single :: bool

definition collect_keys :: "'key trusted_key list \<Rightarrow> (string \<times> 'key) list" where
  "collect_keys ks = fold (\<lambda>k. AList.update (tk_kid k) (tk_key k)) ks []"

definition verifier_new :: "string \<Rightarrow> 'key trusted_key list \<Rightarrow> 'key verifier option" where
  "verifier_new core_id ks =
     (if ks = [] then None
      else Some \<lparr> v_core_id = core_id, v_trusted_keys = collect_keys ks, v_allow_kidless_when_single = False \<rparr>)"

record 'key verifier_builder =
  vb_core_id :: string
  vb_trusted_keys :: "'key trusted_key list"
  vb_replay :: "jti_cache option"
  vb_allow_kidless :: bool

definition builder_new :: "string \<Rightarrow> 'key verifier_builder" where
  "builder_new core_id = \<lparr> vb_core_id = core_id, vb_trusted_keys = [], vb_replay = None, vb_allow_kidless = False \<rparr>"

definition builder_trusted_key :: "'key trusted_key \<Rightarrow> 'key verifier_builder \<Rightarrow> 'key verifier_builder" where
  "builder_trusted_key k b = b\<lparr>vb_trusted_keys := vb_trusted_keys b @ [k]\<rparr>"

definition builder_replay :: "jti_cache \<Rightarrow> 'key verifier_builder \<Rightarrow> 'key verifier_builder" where
  "builder_replay c b = b\<lparr>vb_replay := Some c\<rparr>"

definition builder_allow_kidless :: "'key verifier_builder \<Rightarrow> 'key verifier_builder" where
  "builder_allow_kidless b = b\<lparr>vb_allow_kidless := True\<rparr>"

definition builder_build :: "'key verifier_builder \<Rightarrow> ('key verifier \<times> jti_cache) option" where
  "builder_build b =
     (if vb_trusted_keys b = [] then None
      else Some (\<lparr> v_core_id = vb_core_id b, v_trusted_keys = collect_keys (vb_trusted_keys b),
                   v_allow_kidless_when_single = vb_allow_kidless b \<rparr>,
                 case vb_replay b of None \<Rightarrow> jti_new | Some c \<Rightarrow> c))"

definition ascii_bytes :: "string \<Rightarrow> bytes" where
  "ascii_bytes s = map (\<lambda>c. of_nat (of_char c)) s"

definition resolve_key :: "'key verifier \<Rightarrow> string option \<Rightarrow> 'key option" where
  "resolve_key v kid =
     (case kid of
        Some k \<Rightarrow> map_of (v_trusted_keys v) k
      | None \<Rightarrow>
          if v_allow_kidless_when_single v \<and> length (v_trusted_keys v) = 1
          then (case v_trusted_keys v of [] \<Rightarrow> None | (_, k) # _ \<Rightarrow> Some k)
          else None)"

definition verified_claims_bytes ::
    "('key, 'z) token_lib_scheme \<Rightarrow> 'key verifier \<Rightarrow> string \<Rightarrow> reject_reason + bytes" where
  "verified_claims_bytes lib v token =
     (case split_on CHR ''.'' token of
        [header_b64, claims_b64, sig_b64] \<Rightarrow>
          (case (b64_decode lib header_b64, b64_decode lib claims_b64, b64_decode lib sig_b64) of
             (Some header_bytes, Some claims_bytes, Some sig_bytes) \<Rightarrow>
               (case parse_header lib header_bytes of
                  None \<Rightarrow> Inl (Invalid MalformedJws)
                | Some header \<Rightarrow>
                    if hd_alg header \<noteq> ''EdDSA'' then Inl (Invalid UnsupportedAlg)
                    else (case resolve_key v (hd_kid header) of
                            None \<Rightarrow> Inl (Invalid UnknownKeyId)
                          | Some key \<Rightarrow>
                              if length sig_bytes \<noteq> 64 then Inl (Invalid BadSignature)
                              else if \<not> sig_verify lib key (ascii_bytes (header_b64 @ ''.'' @ claims_b64)) sig_bytes
                              then Inl (Invalid BadSignature)
                              else Inr claims_bytes))
           | _ \<Rightarrow> Inl (Invalid MalformedJws))
      | _ \<Rightarrow> Inl (Invalid MalformedJws))"

definition check_window :: "int \<Rightarrow> u64 \<Rightarrow> u64 \<Rightarrow> reject_reason + unit" where
  "check_window now iat exp =
     (if max_i64 < uint iat then Inl (Invalid MalformedClaims)
      else if max_i64 < uint exp then Inl (Invalid MalformedClaims)
      else if now + CLOCK_SKEW_SECS < uint iat then Inl (Invalid NotYetValid)
      else if uint exp \<le> now - CLOCK_SKEW_SECS then Inl (Invalid Expired)
      else Inr ())"

definition actor_of_claims :: "actor_claims \<Rightarrow> verified_actor" where
  "actor_of_claims c = \<lparr> va_sub = cl_sub c, va_role = cl_role c, va_perm = cl_perm c, va_jti = cl_jti c,
     va_org_id = cl_org_id c, va_actor_org_id = cl_actor_org_id c \<rparr>"

definition verify_no_replay ::
    "('key, 'z) token_lib_scheme \<Rightarrow> 'key verifier \<Rightarrow> int \<Rightarrow> string \<Rightarrow> envelope_context \<Rightarrow> reject_reason + verified_actor" where
  "verify_no_replay lib v now token env =
     (case verified_claims_bytes lib v token of
        Inl e \<Rightarrow> Inl e
      | Inr claims_bytes \<Rightarrow>
          (case parse_claims lib claims_bytes of
             None \<Rightarrow> Inl (Invalid MalformedClaims)
           | Some claims \<Rightarrow>
               if cl_aud claims \<noteq> EXPECTED_AUDIENCE then Inl (Invalid WrongAudience)
               else if cl_core_id claims \<noteq> v_core_id v then Inl (Invalid WrongCoreId)
               else if cl_http_method claims \<noteq> ec_method env then Inl (Invalid MethodMismatch)
               else if cl_path claims \<noteq> ec_path env then Inl (Invalid PathMismatch)
               else (case check_window now (cl_iat claims) (cl_exp claims) of
                       Inl e \<Rightarrow> Inl e
                     | Inr _ \<Rightarrow>
                         if (case cl_perm claims of None \<Rightarrow> False
                             | Some permission \<Rightarrow> permission \<notin> set (rpc_permissions env))
                         then Inl (Invalid PermissionMismatch)
                         else let actor = actor_of_claims claims
                              in if \<not> allows_system_action actor env
                                 then Inl (Invalid SystemSubNotPermittedForMethod)
                                 else Inr actor)))"

definition verify_with_request_id ::
    "('key, 'z) token_lib_scheme \<Rightarrow> 'key verifier \<Rightarrow> int \<Rightarrow> string \<Rightarrow> envelope_context \<Rightarrow> string option \<Rightarrow>
     jti_cache \<Rightarrow> (reject_reason + verified_actor) \<times> jti_cache" where
  "verify_with_request_id lib v now token env request_id replay =
     (case verify_no_replay lib v now token env of
        Inl e \<Rightarrow> (Inl e, replay)
      | Inr actor \<Rightarrow>
          let (ok, replay1) = insert_keyed (va_jti actor) request_id replay
          in if \<not> ok then (Inl (Invalid Replay), replay1) else (Inr actor, replay1))"

definition verify ::
    "('key, 'z) token_lib_scheme \<Rightarrow> 'key verifier \<Rightarrow> int \<Rightarrow> string \<Rightarrow> envelope_context \<Rightarrow>
     jti_cache \<Rightarrow> (reject_reason + verified_actor) \<times> jti_cache" where
  "verify lib v now token env replay = verify_with_request_id lib v now token env None replay"

definition actor_of_shell_claims :: "shell_claims \<Rightarrow> verified_actor" where
  "actor_of_shell_claims c = \<lparr> va_sub = sc_sub c, va_role = sc_role c, va_perm = None, va_jti = sc_jti c,
     va_org_id = sc_org_id c, va_actor_org_id = None \<rparr>"

definition verify_shell ::
    "('key, 'z) token_lib_scheme \<Rightarrow> 'key verifier \<Rightarrow> int \<Rightarrow> string \<Rightarrow> string \<Rightarrow>
     jti_cache \<Rightarrow> (reject_reason + verified_actor) \<times> jti_cache" where
  "verify_shell lib v now token session_id replay =
     (case verified_claims_bytes lib v token of
        Inl e \<Rightarrow> (Inl e, replay)
      | Inr claims_bytes \<Rightarrow>
          (case parse_shell_claims lib claims_bytes of
             None \<Rightarrow> (Inl (Invalid MalformedClaims), replay)
           | Some claims \<Rightarrow>
               if sc_aud claims \<noteq> SHELL_AUDIENCE then (Inl (Invalid WrongAudience), replay)
               else if sc_core_id claims \<noteq> v_core_id v then (Inl (Invalid WrongCoreId), replay)
               else if sc_session_id claims \<noteq> session_id then (Inl (Invalid PathMismatch), replay)
               else (case check_window now (sc_iat claims) (sc_exp claims) of
                       Inl e \<Rightarrow> (Inl e, replay)
                     | Inr _ \<Rightarrow>
                         let (ok, replay1) = insert_keyed (sc_jti claims) None replay
                         in if \<not> ok then (Inl (Invalid Replay), replay1)
                            else (Inr (actor_of_shell_claims claims), replay1))))"

section \<open>Properties of the body check\<close>

text \<open>
  The specification: every value found under a camera key, at any depth outside other
  camera keys, names the camera.
\<close>

function targets_only :: "nat \<Rightarrow> json \<Rightarrow> bool" where
  "targets_only camera (JObj kvs) =
     (\<forall>(k, v) \<in> set kvs. if camera_key k then (\<forall>i \<in> set (id_values v). names_camera camera i)
                          else targets_only camera v)"
| "targets_only camera (JArr vs) = (\<forall>v \<in> set vs. targets_only camera v)"
| "targets_only camera JNull = True"
| "targets_only camera (JBool b) = True"
| "targets_only camera (JPos n) = True"
| "targets_only camera (JNeg i) = True"
| "targets_only camera (JFloat f) = True"
| "targets_only camera (JStr t) = True"
  by pat_completeness auto

lemma weight_member: "v \<in> set vs \<Longrightarrow> json_weight v \<le> (\<Sum>v \<leftarrow> vs. json_weight v)"
  by (induction vs) auto

lemma weight_field: "(k, v) \<in> set kvs \<Longrightarrow> json_weight v \<le> (\<Sum>f \<leftarrow> kvs. json_weight (snd f))"
  by (induction kvs) auto

termination targets_only
  by (relation "measure (\<lambda>(camera, v). json_weight v)")
     (auto intro: le_imp_less_Suc weight_member weight_field)

lemma scan_fields:
  "list_ex (\<lambda>(k, x). camera_key k \<and> list_ex (\<lambda>i. \<not> names_camera camera i) (id_values x)) kvs
   \<or> \<not> list_all (targets_only camera) (rev (map snd (filter (\<lambda>(k, x). \<not> camera_key k) kvs)))
   \<longleftrightarrow> \<not> targets_only camera (JObj kvs)"
  by (fastforce simp: list_ex_iff list_all_iff split: if_splits)

lemma body_scan_eq: "body_scan camera vs \<longleftrightarrow> list_all (targets_only camera) vs"
proof (induction camera vs rule: body_scan.induct)
  case (1 camera)
  then show ?case by simp
next
  case (2 camera v pending)
  show ?case
  proof (cases v)
    case (JObj kvs)
    with 2 scan_fields [of camera kvs] show ?thesis by (auto simp del: targets_only.simps)
  next
    case (JArr vs)
    with 2 show ?thesis by (simp add: list_all_iff ball_Un)
  qed (use 2 in simp_all)
qed

text \<open>
  A request to a camera route is bound to that camera.  The body check, with its
  work-list loop, accepts exactly when a PTZ post carries an action that needs the
  presented permission, and every camera id anywhere in the parsed body, at any depth,
  names the camera of the path.
\<close>

lemma rpc_body_matches_camera:
  assumes "rpc_path_parts (ec_path env) = Some (''admin'' # ''cameras'' # i # tail)"
    and "parse_u64 i = Some camera"
  shows "rpc_body_matches lib env permission body \<longleftrightarrow>
    (tail = [''ptz''] \<and> to_ascii_uppercase (ec_method env) = ''POST'' \<longrightarrow>
       ptz_permission (Option.bind (Option.bind (Option.bind body (parse_json lib)) (json_get ''action'')) as_str)
         = Some permission)
    \<and> (\<forall>v. Option.bind body (parse_json lib) = Some v \<longrightarrow> targets_only camera v)"
  using assms
  by (simp add: rpc_body_matches_def Let_def body_scan_eq split: option.split)

section \<open>Properties of the paths\<close>

lemma split_on_set: "p \<in> set (split_on c s) \<Longrightarrow> x \<in> set p \<Longrightarrow> x \<in> set s"
proof (induction s arbitrary: p)
  case Nil
  then show ?case by simp
next
  case (Cons y s)
  obtain q qs where q: "split_on c s = q # qs" by (metis list.exhaust split_on_nonempty)
  with Cons.prems Cons.IH [of p] Cons.IH [of q] show ?case by (auto split: if_splits)
qed

lemma split_on_dropWhile:
  "split_on c (dropWhile (\<lambda>x. x = c) s)
     = (case dropWhile (\<lambda>p. p = []) (split_on c s) of [] \<Rightarrow> [[]] | ps \<Rightarrow> ps)"
  by (induction s) (auto split: list.splits simp: neq_Nil_conv)

lemma split_on_trim: "p \<in> set (split_on c (dropWhile (\<lambda>x. x = c) s)) \<Longrightarrow> p \<noteq> [] \<Longrightarrow> p \<in> set (split_on c s)"
  using set_dropWhileD [of p "\<lambda>p. p = []" "split_on c s"]
  by (auto simp: split_on_dropWhile split: list.splits)

definition path_char_ok :: "char \<Rightarrow> bool" where
  "path_char_ok c \<longleftrightarrow> c \<notin> {CHR ''/'', CHR ''?'', CHR ''%'', CHR ''#'', CHR 0x5C}"

definition clean_segment :: "string \<Rightarrow> bool" where
  "clean_segment p \<longleftrightarrow> list_all path_char_ok p \<and> p \<noteq> ''.'' \<and> p \<noteq> ''..''"

fun join_path :: "string list \<Rightarrow> string" where
  "join_path [] = []"
| "join_path [p] = p"
| "join_path (p # q # ps) = p @ ''/'' @ join_path (q # ps)"

lemma contains_dslash_skip: "CHR ''/'' \<notin> set a \<Longrightarrow> contains_sub ''//'' (a @ t) = contains_sub ''//'' t"
  by (induction a) (auto simp: starts_with_def)

lemma split_on_slash_Cons: "split_on CHR ''/'' (p @ CHR ''/'' # t) = p # split_on CHR ''/'' t"
  if "CHR ''/'' \<notin> set p"
  using that by (simp add: split_on_append split_on_no_sep)

lemma join_path_split:
  "list_all (\<lambda>p. CHR ''/'' \<notin> set p) ps \<Longrightarrow> ps \<noteq> [] \<Longrightarrow> split_on CHR ''/'' (join_path ps) = ps"
  by (induction ps rule: join_path.induct) (simp_all add: split_on_no_sep split_on_slash_Cons)

lemma join_path_head:
  "list_all (\<lambda>p. p \<noteq> [] \<and> CHR ''/'' \<notin> set p) ps \<Longrightarrow> ps \<noteq> [] \<Longrightarrow>
     \<exists>c t. join_path ps = c # t \<and> c \<noteq> CHR ''/''"
  by (induction ps rule: join_path.induct) (auto simp: neq_Nil_conv)

lemma join_path_no_dslash:
  assumes "list_all (\<lambda>p. p \<noteq> [] \<and> CHR ''/'' \<notin> set p) ps" and "t = [] \<or> t = ''/''"
  shows "\<not> contains_sub ''//'' (join_path ps @ t)"
  using assms
proof (induction ps rule: join_path.induct)
  case 1
  then show ?case by (auto simp: starts_with_def)
next
  case (2 p)
  then show ?case by (auto simp: contains_dslash_skip starts_with_def)
next
  case (3 p q ps)
  then obtain c r where "join_path (q # ps) = c # r" "c \<noteq> CHR ''/''"
    using join_path_head [of "q # ps"] by auto
  with 3 show ?case by (simp add: contains_dslash_skip starts_with_def)
qed

lemma join_path_chars: "c \<in> set (join_path ps) \<Longrightarrow> c = CHR ''/'' \<or> (\<exists>p \<in> set ps. c \<in> set p)"
  by (induction ps rule: join_path.induct) auto

lemma join_path_last:
  "list_all (\<lambda>p. p \<noteq> [] \<and> CHR ''/'' \<notin> set p) ps \<Longrightarrow> ps \<noteq> [] \<Longrightarrow>
     join_path ps \<noteq> [] \<and> last (join_path ps) \<noteq> CHR ''/''"
proof (induction ps rule: join_path.induct)
  case (2 p)
  then show ?case by simp (metis last_in_set)
qed auto

lemma strip_slash:
  assumes "x \<noteq> []" and "last x \<noteq> CHR ''/''" and "t = [] \<or> t = ''/''"
  shows "(case strip_suffix ''/'' (x @ t) of None \<Rightarrow> x @ t | Some p \<Rightarrow> p) = x"
proof -
  obtain y z where "x = y @ [z]" "z \<noteq> CHR ''/''" using assms(1,2) by (metis append_butlast_last_id)
  with assms(3) show ?thesis by (auto simp: strip_suffix_def)
qed

lemma strip_suffix_pieces:
  assumes "p \<in> set (split_on CHR ''/'' (case strip_suffix ''/'' s of None \<Rightarrow> s | Some r \<Rightarrow> r))"
  shows "p \<in> set (split_on CHR ''/'' s)"
proof (cases "strip_suffix ''/'' s")
  case None
  with assms show ?thesis by simp
next
  case (Some r)
  then have "s = r @ CHR ''/'' # []"
    by (auto simp: strip_suffix_def split: if_splits) (metis append_take_drop_id)
  with assms Some show ?thesis using split_on_append [of "CHR ''/''" r "[]"] by simp
qed

lemma rpc_path_parts_eq:
  assumes "(case split_on CHR ''?'' p of [] \<Rightarrow> p | q # _ \<Rightarrow> q) = p1"
    and "\<not> list_ex (\<lambda>c. c \<in> {CHR ''%'', CHR ''#'', CHR 0x5C}) p1" and "\<not> contains_sub ''//'' p1"
    and "\<not> list_ex (\<lambda>part. part = ''.'' \<or> part = ''..'') (split_on CHR ''/'' p1)"
    and "(case strip_suffix ''/'' p1 of None \<Rightarrow> p1 | Some r \<Rightarrow> r) = p2"
  shows "rpc_path_parts p = Some (split_on CHR ''/'' (dropWhile (\<lambda>c. c = CHR ''/'') p2))"
  unfolding rpc_path_parts_def Let_def assms(1) assms(5) using assms(2-4) by simp

lemma rpc_path_parts_clean:
  assumes "rpc_path_parts path = Some parts" and "p \<in> set parts"
  shows "clean_segment p"
proof (cases "p = []")
  case True
  then show ?thesis by (simp add: clean_segment_def)
next
  case False
  define path1 where "path1 = (case split_on CHR ''?'' path of [] \<Rightarrow> path | p # _ \<Rightarrow> p)"
  have q: "CHR ''?'' \<notin> set path1"
    using split_on_pieces [of path1 "CHR ''?''" path] by (auto simp: path1_def split: list.split)
  have ok: "\<not> list_ex (\<lambda>c. c \<in> {CHR ''%'', CHR ''#'', CHR 0x5C}) path1"
    "\<not> list_ex (\<lambda>part. part = ''.'' \<or> part = ''..'') (split_on CHR ''/'' path1)"
    "parts = split_on CHR ''/'' (dropWhile (\<lambda>c. c = CHR ''/'')
        (case strip_suffix ''/'' path1 of None \<Rightarrow> path1 | Some r \<Rightarrow> r))"
    using assms(1) unfolding rpc_path_parts_def Let_def path1_def [symmetric] by (auto split: if_splits)
  have "p \<in> set (split_on CHR ''/'' path1)"
    using assms(2) ok(3) False strip_suffix_pieces split_on_trim by metis
  then have "p \<noteq> ''.''" "p \<noteq> ''..''" "CHR ''/'' \<notin> set p" "\<And>x. x \<in> set p \<Longrightarrow> x \<in> set path1"
    using ok(2) split_on_pieces split_on_set by (fastforce simp: list_ex_iff)+
  with q ok(1) show ?thesis
    by (auto simp: clean_segment_def list_all_iff path_char_ok_def list_ex_iff)
qed

text \<open>
  Routes are read from the path alone.  Any list of clean, non-empty segments is
  recovered from its path, with or without a leading slash, a trailing slash and a
  query, whatever the query says; and every segment the normaliser yields is clean
  (no separator, no escape, no dot segment), so a route cannot be reached by a disguised
  path.
\<close>

lemma rpc_path_parts_canonical:
  assumes "list_all (\<lambda>p. p \<noteq> [] \<and> clean_segment p) ps" and "ps \<noteq> []"
    and "lead = [] \<or> lead = ''/''" and "trail = [] \<or> trail = ''/''" and "query = [] \<or> query = ''?'' @ q"
  shows "rpc_path_parts (lead @ join_path ps @ trail @ query) = Some ps
    \<and> (\<forall>path parts. rpc_path_parts path = Some parts \<longrightarrow> list_all clean_segment parts)"
proof
  let ?path = "lead @ join_path ps @ trail"
  have seg: "p \<noteq> []" "\<forall>c \<in> set p. path_char_ok c" "p \<noteq> ''.''" "p \<noteq> ''..''" if "p \<in> set ps" for p
    using assms(1) that by (auto simp: list_all_iff clean_segment_def)
  have slash: "list_all (\<lambda>p. p \<noteq> [] \<and> CHR ''/'' \<notin> set p) ps"
    using seg by (auto simp: list_all_iff path_char_ok_def)
  then have slash': "list_all (\<lambda>p. CHR ''/'' \<notin> set p) ps" by (simp add: list_all_iff)
  obtain c t where head: "join_path ps = c # t" "c \<noteq> CHR ''/''" using join_path_head [OF slash assms(2)] by blast
  have chars: "x = CHR ''/'' \<or> path_char_ok x" if "x \<in> set ?path" for x
    using that assms(3,4) seg join_path_chars [of x ps] by auto
  then have noq: "CHR ''?'' \<notin> set ?path" and bad: "\<not> list_ex (\<lambda>c. c \<in> {CHR ''%'', CHR ''#'', CHR 0x5C}) ?path"
    by (auto simp: path_char_ok_def list_ex_iff)
  have first: "(case split_on CHR ''?'' (?path @ query) of [] \<Rightarrow> ?path @ query | p # _ \<Rightarrow> p) = ?path"
    using noq assms(5) split_on_append [of "CHR ''?''" ?path q] split_on_no_sep [OF noq] by auto
  have dd: "\<not> contains_sub ''//'' ?path"
    using assms(3) join_path_no_dslash [OF slash assms(4)] head by (auto simp: starts_with_def)
  have "split_on CHR ''/'' (join_path ps @ trail) = ps @ (if trail = [] then [] else [[]])"
    using assms(4) join_path_split [OF slash' assms(2)] split_on_append [of "CHR ''/''" "join_path ps" "[]"] by auto
  then have "split_on CHR ''/'' ?path = (if lead = [] then [] else [[]]) @ ps @ (if trail = [] then [] else [[]])"
    using assms(3) by auto
  then have dots: "\<not> list_ex (\<lambda>part. part = ''.'' \<or> part = ''..'') (split_on CHR ''/'' ?path)"
    using seg by (auto simp: list_ex_iff)
  have strip: "(case strip_suffix ''/'' ?path of None \<Rightarrow> ?path | Some p \<Rightarrow> p) = lead @ join_path ps"
    using strip_slash [of "lead @ join_path ps" trail, unfolded append_assoc] join_path_last [OF slash assms(2)] assms(4) by simp
  have trim: "dropWhile (\<lambda>c. c = CHR ''/'') (lead @ join_path ps) = join_path ps"
    using head assms(3) by auto
  show "rpc_path_parts (lead @ join_path ps @ trail @ query) = Some ps"
    using rpc_path_parts_eq [OF first bad dd dots strip] trim join_path_split [OF slash' assms(2)] by simp
  show "\<forall>path parts. rpc_path_parts path = Some parts \<longrightarrow> list_all clean_segment parts"
    using rpc_path_parts_clean by (simp add: list_all_iff)
qed

section \<open>Properties of the permission table\<close>

lemma first_route_member:
  "first_route rs m parts = Some perms \<Longrightarrow> \<exists>verbs pat. (verbs, pat, perms) \<in> set rs \<and> m \<in> set verbs \<and> pat_match pat parts"
  by (induction rs m parts rule: first_route.induct) (auto split: if_splits)

lemma rpc_permissions_route:
  assumes "p \<in> set (rpc_permissions env)"
  shows "\<exists>verbs pat perms. (verbs, pat, perms) \<in> set (core_routes @ camera_routes @ admin_routes)
    \<and> to_ascii_uppercase (ec_method env) \<in> set verbs \<and> p \<in> set perms"
proof -
  let ?m = "to_ascii_uppercase (ec_method env)"
  let ?all = "core_routes @ camera_routes @ admin_routes"
  have hit: ?thesis if "p \<in> set (case first_route rs ?m parts of None \<Rightarrow> [] | Some perms \<Rightarrow> perms)" "set rs \<subseteq> set ?all" for rs parts
  proof (cases "first_route rs ?m parts")
    case None
    with that(1) show ?thesis by simp
  next
    case (Some perms)
    with that first_route_member [OF Some] show ?thesis by auto
  qed
  show ?thesis
  proof (cases "rpc_path_parts (ec_path env)")
    case None
    with assms show ?thesis by (simp add: rpc_permissions_def)
  next
    case (Some parts)
    show ?thesis
    proof (cases "first_route core_routes ?m parts")
      case route: (Some perms)
      with assms Some have "p \<in> set (case first_route core_routes ?m parts of None \<Rightarrow> [] | Some perms \<Rightarrow> perms)"
        by (simp add: rpc_permissions_def Let_def)
      then show ?thesis by (rule hit) auto
    next
      case None
      with assms Some have "(\<exists>tail. p \<in> set (case first_route camera_routes ?m tail of None \<Rightarrow> [] | Some perms \<Rightarrow> perms))
          \<or> p \<in> set (case first_route admin_routes ?m parts of None \<Rightarrow> [] | Some perms \<Rightarrow> perms)"
        unfolding rpc_permissions_def Let_def camera_rpc_permissions_def
        by (simp split: list.splits if_splits) (blast | simp)+
      then show ?thesis
      proof (elim disjE exE)
        fix tail
        assume "p \<in> set (case first_route camera_routes ?m tail of None \<Rightarrow> [] | Some perms \<Rightarrow> perms)"
        then show ?thesis by (rule hit) auto
      next
        assume "p \<in> set (case first_route admin_routes ?m parts of None \<Rightarrow> [] | Some perms \<Rightarrow> perms)"
        then show ?thesis by (rule hit) auto
      qed
    qed
  qed
qed

definition read_permission :: "string \<Rightarrow> bool" where
  "read_permission p = (p \<in> {''settings.read'', ''diagnostics.read''})"

lemma read_routes_are_gets:
  "list_all (\<lambda>(verbs, pat, perms). list_ex read_permission perms \<longrightarrow> verbs = [''GET''])
     (core_routes @ camera_routes @ admin_routes)"
  by (simp add: rpc_defs read_permission_def)

text \<open>
  A read permission only reads: an actor whose signed permission is
  \<open>settings.read\<close> or \<open>diagnostics.read\<close> is allowed on no request but a
  \<open>GET\<close>, whatever the path, the body and its role.
\<close>

lemma read_permission_only_reads:
  assumes "va_perm actor = Some p" and "read_permission p" and "allows_rpc lib actor env body legacy"
  shows "to_ascii_uppercase (ec_method env) = ''GET''"
proof -
  have "p \<in> set (rpc_permissions env)"
    using assms(1,3) by (simp add: allows_rpc_def split: if_splits)
  then obtain verbs pat perms where "(verbs, pat, perms) \<in> set (core_routes @ camera_routes @ admin_routes)"
    "to_ascii_uppercase (ec_method env) \<in> set verbs" "p \<in> set perms"
    using rpc_permissions_route by blast
  moreover from this have "list_ex read_permission perms \<longrightarrow> verbs = [''GET'']"
    using read_routes_are_gets unfolding list_all_iff by blast
  moreover have "list_ex read_permission perms"
    using calculation(3) assms(2) by (auto simp: list_ex_iff)
  ultimately show ?thesis by simp
qed

text \<open>Every route a service account may call, written out.\<close>

definition system_routes :: "string \<Rightarrow> string list" where
  "system_routes sub =
     (if sub = ''system:update-orchestrator'' then UPDATE_ORCHESTRATOR_ACTIONS
      else if sub = ''system:api-gateway'' then map (\<lambda>c. ''/admin/fleet/'' @ c) FLEET_CATEGORIES
      else [])"

lemma system_routes_mapped:
  "list_all (\<lambda>path. ''fleet.apply'' \<in> set (rpc_permissions \<lparr> ec_method = ''POST'', ec_path = path \<rparr>))
     (system_routes ''system:update-orchestrator'' @ system_routes ''system:api-gateway'')"
  by code_simp

lemma system_routes_known:
  "path \<in> set (system_routes sub)
   \<Longrightarrow> path \<in> set (system_routes ''system:update-orchestrator'' @ system_routes ''system:api-gateway'')"
  by (cases "sub = ''system:update-orchestrator''"; cases "sub = ''system:api-gateway''")
     (simp_all only: system_routes_def if_True if_False simp_thms list.set set_append Un_iff empty_iff)

lemma system_action_iff:
  assumes sys: "starts_with ''system:'' (va_sub actor)"
  shows "allows_system_action actor env \<longleftrightarrow>
    ec_method env = ''POST'' \<and> ec_path env \<in> set (system_routes (va_sub actor))"
proof -
  have fleet: "(case strip_prefix ''/admin/fleet/'' (ec_path env) of None \<Rightarrow> False
        | Some category \<Rightarrow> category \<in> set FLEET_CATEGORIES)
      \<longleftrightarrow> ec_path env \<in> set (system_routes ''system:api-gateway'')"
    by (simp only: strip_prefix_case_in) (simp add: system_routes_def)
  consider "va_sub actor = ''system:update-orchestrator''" | "va_sub actor = ''system:api-gateway''"
    | "va_sub actor \<noteq> ''system:update-orchestrator''" "va_sub actor \<noteq> ''system:api-gateway''"
    by blast
  then show ?thesis
  proof cases
    case 1
    show ?thesis using sys unfolding allows_system_action_def 1 by (simp add: system_routes_def)
  next
    case 2
    show ?thesis using sys fleet unfolding allows_system_action_def 2 by simp
  next
    case 3
    then show ?thesis using sys by (simp add: allows_system_action_def system_routes_def)
  qed
qed

lemma system_action_routes:
  assumes "starts_with ''system:'' (va_sub actor)" and "allows_system_action actor env"
  shows "ec_path env \<in> set (system_routes ''system:update-orchestrator'' @ system_routes ''system:api-gateway'')"
  using assms system_action_iff system_routes_known by blast

text \<open>
  Service accounts are confined: a \<open>system:\<close> subject is allowed exactly the posts
  written out for its service, each of which the action table maps to
  \<open>fleet.apply\<close>; any other subject is refused as soon as it claims a system role.
\<close>

lemma system_subject_confined:
  "allows_system_action actor env \<longleftrightarrow>
    (if starts_with ''system:'' (va_sub actor)
     then ec_method env = ''POST'' \<and> ec_path env \<in> set (system_routes (va_sub actor))
          \<and> ''fleet.apply'' \<in> set (rpc_permissions env)
     else va_role actor \<noteq> ''system'' \<and> \<not> starts_with ''system:'' (va_role actor))"
proof (cases "starts_with ''system:'' (va_sub actor)")
  case False
  then show ?thesis by (simp only: allows_system_action_def if_False if_True simp_thms)
next
  case True
  have "''fleet.apply'' \<in> set (rpc_permissions env)"
    if m: "ec_method env = ''POST''" and r: "ec_path env \<in> set (system_routes (va_sub actor))"
  proof -
    have "''fleet.apply'' \<in> set (rpc_permissions \<lparr> ec_method = ''POST'', ec_path = ec_path env \<rparr>)"
      by (rule bspec [OF system_routes_mapped [unfolded list_all_iff] system_routes_known [OF r]])
    moreover obtain mt pt where "env = \<lparr> ec_method = mt, ec_path = pt \<rparr>" by (cases env)
    ultimately show ?thesis using m by simp
  qed
  with True system_action_iff [OF True] show ?thesis by (simp only: if_True) blast
qed

section \<open>Properties of the verifier\<close>

lemma split_on_concat: "split_on c s = p # ps \<Longrightarrow> s = p @ concat (map (\<lambda>q. c # q) ps)"
proof (induction s arbitrary: p ps)
  case Nil
  then show ?case by simp
next
  case (Cons x s)
  obtain q qs where q: "split_on c s = q # qs" by (metis list.exhaust split_on_nonempty)
  show ?case
  proof (cases "x = c")
    case True
    with Cons.prems q have "p = []" "ps = q # qs" by simp_all
    with Cons.IH [OF q] True show ?thesis by simp
  next
    case False
    with Cons.prems q have "p = x # q" "ps = qs" by simp_all
    with Cons.IH [OF q] show ?thesis by simp
  qed
qed

lemma resolve_key_trusted: "resolve_key v kid = Some key \<Longrightarrow> key \<in> snd ` set (v_trusted_keys v)"
  by (cases kid) (auto simp: resolve_key_def split: if_splits list.splits dest: map_of_SomeD intro: rev_image_eqI)

text \<open>What a good signature means.\<close>

definition signed_by_trusted ::
    "('key, 'z) token_lib_scheme \<Rightarrow> 'key verifier \<Rightarrow> string \<Rightarrow> bytes \<Rightarrow> bool" where
  "signed_by_trusted lib v token claims_bytes \<longleftrightarrow>
     (\<exists>h c s sig key. token = h @ ''.'' @ c @ ''.'' @ s \<and> b64_decode lib c = Some claims_bytes
        \<and> b64_decode lib s = Some sig \<and> length sig = 64 \<and> key \<in> snd ` set (v_trusted_keys v)
        \<and> sig_verify lib key (ascii_bytes (h @ ''.'' @ c)) sig)"

lemma verified_claims_bytes_signed:
  assumes "verified_claims_bytes lib v token = Inr bs"
  shows "signed_by_trusted lib v token bs"
proof -
  obtain h c s where sp: "split_on CHR ''.'' token = [h, c, s]"
    using assms by (auto simp: verified_claims_bytes_def split: list.splits)
  then have "token = h @ ''.'' @ c @ ''.'' @ s" using split_on_concat [OF sp] by simp
  moreover obtain hb where hb: "b64_decode lib h = Some hb"
    using assms sp by (cases "b64_decode lib h") (simp_all add: verified_claims_bytes_def)
  moreover obtain cb where cb: "b64_decode lib c = Some cb"
    using assms sp hb by (cases "b64_decode lib c") (simp_all add: verified_claims_bytes_def)
  moreover obtain sig where sig: "b64_decode lib s = Some sig"
    using assms sp hb cb by (cases "b64_decode lib s") (simp_all add: verified_claims_bytes_def)
  moreover obtain hdr where hdr: "parse_header lib hb = Some hdr"
    using assms sp hb cb sig by (cases "parse_header lib hb") (simp_all add: verified_claims_bytes_def)
  moreover obtain key where key: "resolve_key v (hd_kid hdr) = Some key"
    using assms sp hb cb sig hdr
    by (cases "resolve_key v (hd_kid hdr)") (simp_all add: verified_claims_bytes_def split: if_splits)
  moreover have "cb = bs" "length sig = 64" "sig_verify lib key (ascii_bytes (h @ ''.'' @ c)) sig"
    using assms sp hb cb sig hdr key by (simp_all add: verified_claims_bytes_def split: if_splits)
  moreover have "key \<in> snd ` set (v_trusted_keys v)" using key by (rule resolve_key_trusted)
  ultimately show ?thesis
    unfolding signed_by_trusted_def by (intro exI [of _ h] exI [of _ c] exI [of _ s] exI [of _ sig] exI [of _ key]) simp
qed

lemma check_window_ok:
  "check_window now iat exp = Inr () \<longleftrightarrow> uint iat \<le> max_i64 \<and> uint exp \<le> max_i64
     \<and> uint iat \<le> now + 30 \<and> now < uint exp + 30"
  by (auto simp: check_window_def CLOCK_SKEW_SECS_def)

lemma verify_no_replay_ok:
  assumes "verify_no_replay lib v now token env = Inr actor"
  obtains bs claims where "verified_claims_bytes lib v token = Inr bs" "parse_claims lib bs = Some claims"
    "cl_aud claims = EXPECTED_AUDIENCE" "cl_core_id claims = v_core_id v"
    "cl_http_method claims = ec_method env" "cl_path claims = ec_path env"
    "check_window now (cl_iat claims) (cl_exp claims) = Inr ()"
    "\<And>p. cl_perm claims = Some p \<Longrightarrow> p \<in> set (rpc_permissions env)"
    "actor = actor_of_claims claims" "allows_system_action actor env"
proof -
  obtain bs where bs: "verified_claims_bytes lib v token = Inr bs"
    using assms by (cases "verified_claims_bytes lib v token") (simp_all add: verify_no_replay_def)
  obtain claims where c: "parse_claims lib bs = Some claims"
    using assms bs by (cases "parse_claims lib bs") (simp_all add: verify_no_replay_def)
  have w: "check_window now (cl_iat claims) (cl_exp claims) = Inr ()"
    using assms bs c
    by (cases "check_window now (cl_iat claims) (cl_exp claims)") (simp_all add: verify_no_replay_def split: if_splits)
  show ?thesis
    by (rule that [OF bs c _ _ _ _ w])
       (use assms bs c w in \<open>simp_all add: verify_no_replay_def Let_def split: if_splits option.splits\<close>)
qed

text \<open>
  C8. An accepted token is bound to this call.  If verification succeeds, a trusted key signed
  the very header and claims segments of the token, and the claims are for this core and
  audience, name the method and path of the envelope, are valid now (with thirty seconds of skew
  on either side), and, where they name a permission, name one the route grants.  A token
  whose claims name no permission is accepted on the other grounds alone: the claim is
  optional in the source.  A token of the system subject passes only for an action the
  system may take.
\<close>

theorem verified_token_sound:
  assumes "verify_no_replay lib v now token env = Inr actor"
  shows "\<exists>bs claims. signed_by_trusted lib v token bs \<and> parse_claims lib bs = Some claims
    \<and> cl_aud claims = ''nexus-edge-rpc'' \<and> cl_core_id claims = v_core_id v
    \<and> cl_http_method claims = ec_method env \<and> cl_path claims = ec_path env
    \<and> uint (cl_iat claims) \<le> now + 30 \<and> now < uint (cl_exp claims) + 30
    \<and> (\<forall>p. cl_perm claims = Some p \<longrightarrow> p \<in> set (rpc_permissions env))
    \<and> actor = actor_of_claims claims \<and> allows_system_action actor env"
  by (rule verify_no_replay_ok [OF assms])
     (use verified_claims_bytes_signed in \<open>force simp: EXPECTED_AUDIENCE_def check_window_ok\<close>)

text \<open>
  An RPC token opens no shell and a shell grant calls no RPC: provided both claim
  parsers read the audience of the same bytes alike, no token passes both verifiers,
  whatever the envelope, the session, the times and the replay window.
\<close>

lemma rpc_and_shell_tokens_disjoint:
  assumes "\<And>bs c sc. parse_claims lib bs = Some c \<Longrightarrow> parse_shell_claims lib bs = Some sc \<Longrightarrow> cl_aud c = sc_aud sc"
    and "verify_no_replay lib v now token env = Inr actor"
  shows "\<exists>e. fst (verify_shell lib v now' token session_id replay) = Inl e"
proof (rule verify_no_replay_ok [OF assms(2)])
  fix bs claims
  assume bs: "verified_claims_bytes lib v token = Inr bs" and c: "parse_claims lib bs = Some claims"
    and aud: "cl_aud claims = EXPECTED_AUDIENCE"
  show ?thesis
  proof (cases "parse_shell_claims lib bs")
    case None
    with bs show ?thesis by (simp add: verify_shell_def)
  next
    case (Some sc)
    have "sc_aud sc = EXPECTED_AUDIENCE" using assms(1) [OF c Some] aud by metis
    then have "sc_aud sc \<noteq> SHELL_AUDIENCE"
      by (simp add: EXPECTED_AUDIENCE_def SHELL_AUDIENCE_def)
    with bs Some show ?thesis by (simp add: verify_shell_def)
  qed
qed

lemma insert_keyed_twice:
  assumes "0 < jti_capacity c" and "insert_keyed jti rid c = (True, c')"
  shows "insert_keyed jti rid c' = (False, c')"
proof -
  let ?k = "compose_key jti rid"
  have "?k \<in> seen c'" "jti_capacity c' = jti_capacity c"
    using assms by (auto simp: insert_keyed_def jti_admit_def Let_def split: if_splits list.splits)
  with assms(1) show ?thesis by (simp add: insert_keyed_def jti_admit_def)
qed

text \<open>
  A token is spent by its first use: once accepted, the same token presented again
  with the same request id is refused as a replay, at any later time at which it would
  still verify, and a refused token leaves the window untouched.
\<close>

lemma accepted_token_is_spent:
  assumes "0 < jti_capacity replay"
    and "verify_with_request_id lib v now token env rid replay = (Inr actor, replay')"
  shows "(verify_no_replay lib v later token env = Inr actor \<longrightarrow>
      verify_with_request_id lib v later token env rid replay' = (Inl (Invalid Replay), replay'))
    \<and> (\<forall>t2 r. (\<exists>e. verify_no_replay lib v later t2 env = Inl e) \<longrightarrow>
          snd (verify_with_request_id lib v later t2 env r replay') = replay')"
proof
  have v: "verify_no_replay lib v now token env = Inr actor"
    using assms(2)
    by (cases "verify_no_replay lib v now token env")
       (auto simp: verify_with_request_id_def Let_def split: prod.splits if_splits)
  have "insert_keyed (va_jti actor) rid replay = (True, replay')"
    using assms(2) v by (auto simp: verify_with_request_id_def Let_def split: prod.splits if_splits)
  then show "verify_no_replay lib v later token env = Inr actor \<longrightarrow>
      verify_with_request_id lib v later token env rid replay' = (Inl (Invalid Replay), replay')"
    using insert_keyed_twice [OF assms(1)] by (simp add: verify_with_request_id_def)
  show "\<forall>t2 r. (\<exists>e. verify_no_replay lib v later t2 env = Inl e) \<longrightarrow>
          snd (verify_with_request_id lib v later t2 env r replay') = replay'"
    by (auto simp: verify_with_request_id_def)
qed

section \<open>Witnesses\<close>

definition demo_claims :: actor_claims where
  "demo_claims = \<lparr> cl_actor_org_id = None, cl_aud = ''nexus-edge-rpc'', cl_core_id = ''core-1'', cl_exp = 130,
     cl_http_method = ''POST'', cl_iat = 100, cl_iss = ''i'', cl_jti = ''j1'', cl_org_id = ''o'',
     cl_path = ''diag_collect'', cl_perm = Some ''diagnostics.collect'', cl_role = ''admin'', cl_sub = ''user-1'' \<rparr>"

text \<open>A library in which \<open>'h'\<close> is the only header and \<open>'c'\<close> the only claims segment,
  and key 7 signs everything.\<close>

definition demo_lib :: "nat token_lib" where
  "demo_lib = \<lparr> b64_decode = (\<lambda>s. Some (ascii_bytes s)),
     parse_header = (\<lambda>b. if b = ascii_bytes ''h'' then Some \<lparr> hd_alg = ''EdDSA'', hd_kid = Some ''k'' \<rparr> else None),
     parse_claims = (\<lambda>b. if b = ascii_bytes ''c'' then Some demo_claims else None),
     parse_shell_claims = (\<lambda>b. None),
     parse_json = (\<lambda>b. if b = [] then Some (JObj [(''camera_id'', JPos 5)]) else None),
     sig_verify = (\<lambda>k m s. k = 7) \<rparr>"

definition demo_verifier :: "nat verifier" where
  "demo_verifier = \<lparr> v_core_id = ''core-1'', v_trusted_keys = [(''k'', 7)], v_allow_kidless_when_single = False \<rparr>"

definition demo_token :: string where
  "demo_token = ''h.c.'' @ replicate 64 CHR ''x''"

definition demo_envelope :: envelope_context where
  "demo_envelope = \<lparr> ec_method = ''POST'', ec_path = ''diag_collect'' \<rparr>"

lemma demo_token_split: "split_on CHR ''.'' demo_token = [''h'', ''c'', replicate 64 CHR ''x'']"
proof -
  have t: "demo_token = ''h'' @ CHR ''.'' # (''c'' @ CHR ''.'' # replicate 64 CHR ''x'')"
    by (simp add: demo_token_def)
  show ?thesis unfolding t split_on_append by (simp add: split_on_no_sep)
qed

lemma demo_permissions: "rpc_permissions demo_envelope = [''diagnostics.collect'']"
  by code_simp

lemma demo_verified:
  assumes "75 < now" and "now < 150"
  shows "verify_no_replay demo_lib demo_verifier now demo_token demo_envelope = Inr (actor_of_claims demo_claims)"
proof -
  have b: "verified_claims_bytes demo_lib demo_verifier demo_token = Inr (ascii_bytes ''c'')"
    by (simp add: verified_claims_bytes_def demo_token_split demo_lib_def demo_verifier_def resolve_key_def
        ascii_bytes_def)
  have w: "check_window now (cl_iat demo_claims) (cl_exp demo_claims) = Inr ()"
    using assms by (simp add: check_window_ok demo_claims_def max_i64_def)
  have a: "allows_system_action (actor_of_claims demo_claims) demo_envelope"
    by (simp add: allows_system_action_def actor_of_claims_def demo_claims_def starts_with_def)
  have c: "parse_claims demo_lib (ascii_bytes ''c'') = Some demo_claims" "cl_aud demo_claims = EXPECTED_AUDIENCE"
    "cl_core_id demo_claims = v_core_id demo_verifier" "cl_http_method demo_claims = ec_method demo_envelope"
    "cl_path demo_claims = ec_path demo_envelope" "cl_perm demo_claims = Some ''diagnostics.collect''"
    by (simp_all add: demo_lib_def demo_claims_def demo_verifier_def demo_envelope_def EXPECTED_AUDIENCE_def)
  show ?thesis
    by (simp add: verify_no_replay_def b w a c demo_permissions Let_def)
qed

theorem verified_token_sound_witness:
  "\<exists>bs claims. signed_by_trusted demo_lib demo_verifier demo_token bs \<and> parse_claims demo_lib bs = Some claims"
  using verified_token_sound [OF demo_verified, of 100] by auto

end
