(* ===== verification/Rpc_Dispatcher.thy ===== *)
theory Rpc_Dispatcher
  imports Actor_Token
begin

text \<open>
  \<open>crates/nexus-cloud-client/src/dispatcher.rs\<close>: how an inbound \<open>rpc_call\<close> becomes a
  handler call.  The state is the replay window of the verifier, the optional response
  cache, and the log of audit records and handler calls.  The handler is a parameter;
  it may depend on everything that was handled before (the log), so it stands for a
  stateful handler.  One dispatch is one step; \<open>dispatch_all\<close> runs a sequence of calls.
\<close>

section \<open>Policy, state, handler\<close>

record system_method_policy =
  permitted :: "string set"

definition deny_all :: system_method_policy where
  "deny_all = \<lparr> permitted = {} \<rparr>"

definition permitting :: "string list \<Rightarrow> system_method_policy" where
  "permitting ms = \<lparr> permitted = set ms \<rparr>"

definition permit :: "string \<Rightarrow> system_method_policy \<Rightarrow> system_method_policy" where
  "permit m p = p\<lparr>permitted := insert m (permitted p)\<rparr>"

definition policy_allows :: "system_method_policy \<Rightarrow> string \<Rightarrow> bool" where
  "policy_allows p m = (m \<in> permitted p)"

definition default_system_policy :: system_method_policy where
  "default_system_policy = permitting [''entitlement_update'']"

text \<open>The policy the engine builds in \<open>cloud_tunnel.rs\<close>.\<close>

definition engine_system_policy :: system_method_policy where
  "engine_system_policy = fold permit (UPDATE_ORCHESTRATOR_ACTIONS @ FLEET_CATEGORIES) default_system_policy"

datatype rpc_event =
    Audited string envelope_context verified_actor
  | Handled string envelope_context verified_actor "bytes option"

type_synonym handler =
  "rpc_event list \<Rightarrow> string \<Rightarrow> envelope_context \<Rightarrow> verified_actor \<Rightarrow> bytes option \<Rightarrow> string + bytes"

record 'key rpc_dispatcher =
  d_lib :: "'key token_lib"
  d_verifier :: "'key verifier"
  d_policy :: system_method_policy
  d_handler :: handler

record rpc_state =
  replay :: jti_cache
  response_cache :: "response_cache option"
  rpc_log :: "rpc_event list"

section \<open>Anonymous reads\<close>

definition ANONYMOUS_READ_SUB :: string where
  "ANONYMOUS_READ_SUB = ''anonymous:cloud-read''"

definition ANONYMOUS_READ_ROLE :: string where
  "ANONYMOUS_READ_ROLE = ''anonymous''"

definition is_safe_http_method :: "string \<Rightarrow> bool" where
  "is_safe_http_method m = (to_ascii_uppercase m \<in> {''GET'', ''HEAD'', ''OPTIONS''})"

definition anonymous_read_actor :: verified_actor where
  "anonymous_read_actor = \<lparr> va_sub = ANONYMOUS_READ_SUB, va_role = ANONYMOUS_READ_ROLE, va_perm = None,
     va_jti = [], va_org_id = [], va_actor_org_id = None \<rparr>"

section \<open>Dispatch\<close>

definition run_handler ::
    "'key rpc_dispatcher \<Rightarrow> string \<Rightarrow> envelope_context \<Rightarrow> verified_actor \<Rightarrow> bytes option \<Rightarrow> rpc_state \<Rightarrow>
     (dispatch_error + bytes) \<times> rpc_state" where
  "run_handler d m env actor body s =
     ((case d_handler d (rpc_log s) m env actor body of Inl e \<Rightarrow> Inl (HandlerError e) | Inr out \<Rightarrow> Inr out),
      s\<lparr>rpc_log := rpc_log s @ [Handled m env actor body]\<rparr>)"

definition check_system_sub_and_audit ::
    "'key rpc_dispatcher \<Rightarrow> string \<Rightarrow> envelope_context \<Rightarrow> verified_actor \<Rightarrow> rpc_state \<Rightarrow>
     (dispatch_error + unit) \<times> rpc_state" where
  "check_system_sub_and_audit d m env actor s =
     (if starts_with ''system:'' (va_sub actor) \<and> \<not> policy_allows (d_policy d) m
      then (Inl (Reject (Invalid SystemSubNotPermittedForMethod)), s)
      else (Inr (), s\<lparr>rpc_log := rpc_log s @ [Audited m env actor]\<rparr>))"

text \<open>The path with a response cache and a request id.\<close>

definition dispatch_cached ::
    "'key rpc_dispatcher \<Rightarrow> int \<Rightarrow> response_cache \<Rightarrow> string \<Rightarrow> envelope_context \<Rightarrow> string \<Rightarrow> string \<Rightarrow>
     bytes option \<Rightarrow> rpc_state \<Rightarrow> (dispatch_error + bytes) \<times> rpc_state" where
  "dispatch_cached d now cache m env token rid body s =
     (case verify_no_replay (d_lib d) (d_verifier d) now token env of
        Inl e \<Rightarrow> (Inl (Reject e), s)
      | Inr actor \<Rightarrow>
          if \<not> allows_rpc (d_lib d) actor env body True
          then (Inl (Reject (Invalid PermissionMismatch)), s)
          else
            (case resp_get (va_jti actor) rid cache of
               Some cached \<Rightarrow> (Inr cached, s)
             | None \<Rightarrow>
                 let (ok, replay1) = insert_keyed (va_jti actor) (Some rid) (replay s);
                     s1 = s\<lparr>replay := replay1\<rparr>
                 in if \<not> ok then (Inl (Reject (Invalid Replay)), s1)
                    else (case check_system_sub_and_audit d m env actor s1 of
                            (Inl e, s2) \<Rightarrow> (Inl e, s2)
                          | (Inr _, s2) \<Rightarrow>
                              (case run_handler d m env actor body s2 of
                                 (Inl e, s3) \<Rightarrow> (Inl e, s3)
                               | (Inr out, s3) \<Rightarrow>
                                   (Inr out, s3\<lparr>response_cache := Some (resp_insert (va_jti actor) rid out cache)\<rparr>)))))"

text \<open>The path without: the verifier's own replay check decides.\<close>

definition dispatch_uncached ::
    "'key rpc_dispatcher \<Rightarrow> int \<Rightarrow> string \<Rightarrow> envelope_context \<Rightarrow> string \<Rightarrow> string option \<Rightarrow>
     bytes option \<Rightarrow> rpc_state \<Rightarrow> (dispatch_error + bytes) \<times> rpc_state" where
  "dispatch_uncached d now m env token request_id body s =
     (case verify_with_request_id (d_lib d) (d_verifier d) now token env request_id (replay s) of
        (Inl e, replay1) \<Rightarrow> (Inl (Reject e), s\<lparr>replay := replay1\<rparr>)
      | (Inr actor, replay1) \<Rightarrow>
          let s1 = s\<lparr>replay := replay1\<rparr>
          in if \<not> allows_rpc (d_lib d) actor env body True
             then (Inl (Reject (Invalid PermissionMismatch)), s1)
             else (case check_system_sub_and_audit d m env actor s1 of
                     (Inl e, s2) \<Rightarrow> (Inl e, s2)
                   | (Inr _, s2) \<Rightarrow> run_handler d m env actor body s2))"

definition dispatch_inner ::
    "'key rpc_dispatcher \<Rightarrow> int \<Rightarrow> string \<Rightarrow> envelope_context \<Rightarrow> string option \<Rightarrow> string option \<Rightarrow>
     bytes option \<Rightarrow> rpc_state \<Rightarrow> (dispatch_error + bytes) \<times> rpc_state" where
  "dispatch_inner d now m env token request_id body s =
     (case token of
        None \<Rightarrow>
          if is_safe_http_method (ec_method env)
          then run_handler d m env anonymous_read_actor body s
          else (Inl (Reject Missing), s)
      | Some t \<Rightarrow>
          (case (response_cache s, request_id) of
             (Some cache, Some rid) \<Rightarrow> dispatch_cached d now cache m env t rid body s
           | _ \<Rightarrow> dispatch_uncached d now m env t request_id body s))"

definition dispatch ::
    "'key rpc_dispatcher \<Rightarrow> int \<Rightarrow> string \<Rightarrow> envelope_context \<Rightarrow> string option \<Rightarrow> bytes option \<Rightarrow>
     rpc_state \<Rightarrow> (dispatch_error + bytes) \<times> rpc_state" where
  "dispatch d now m env token body s = dispatch_inner d now m env token None body s"

section \<open>Envelopes\<close>

record rpc_call_payload =
  pl_actor_token :: "string option"
  pl_body :: "string option"
  pl_method :: string
  pl_path :: string
  pl_request_id :: "string option"

datatype envelope_body = RpcCall rpc_call_payload | OtherBody

record rpc_response_payload =
  rs_body :: json
  rs_status :: nat

text \<open>\<open>b64_std\<close> is padded base64, \<open>lossy\<close> is \<open>String::from_utf8_lossy\<close>.\<close>

definition decode_payload_body ::
    "(string \<Rightarrow> bytes option) \<Rightarrow> rpc_call_payload \<Rightarrow> dispatch_error + bytes option" where
  "decode_payload_body b64_std p =
     (case pl_body p of None \<Rightarrow> Inr None
      | Some b64 \<Rightarrow>
          (case b64_std b64 of
             None \<Rightarrow> Inl (Reject (Invalid MalformedClaims))
           | Some bs \<Rightarrow> Inr (Some bs)))"

definition derive_method_name :: "rpc_call_payload \<Rightarrow> string" where
  "derive_method_name p =
     (case find (\<lambda>t. t \<noteq> []) (rev (split_on CHR ''/'' (pl_path p))) of None \<Rightarrow> ''_root'' | Some t \<Rightarrow> t)"

definition response_json :: "'key token_lib \<Rightarrow> (bytes \<Rightarrow> string) \<Rightarrow> bytes \<Rightarrow> json" where
  "response_json lib lossy out =
     (if out = [] then JNull
      else (case parse_json lib out of Some v \<Rightarrow> v | None \<Rightarrow> JStr (lossy out)))"

definition dispatch_envelope ::
    "'key rpc_dispatcher \<Rightarrow> (string \<Rightarrow> bytes option) \<Rightarrow> (bytes \<Rightarrow> string) \<Rightarrow> int \<Rightarrow> envelope_body \<Rightarrow>
     rpc_state \<Rightarrow> (dispatch_error + rpc_response_payload) \<times> rpc_state" where
  "dispatch_envelope d b64_std lossy now envelope s =
     (case envelope of
        OtherBody \<Rightarrow> (Inl (Reject (Invalid MalformedClaims)), s)
      | RpcCall p \<Rightarrow>
          (case decode_payload_body b64_std p of
             Inl e \<Rightarrow> (Inl e, s)
           | Inr body \<Rightarrow>
               (case dispatch_inner d now (derive_method_name p) \<lparr> ec_method = pl_method p, ec_path = pl_path p \<rparr>
                       (pl_actor_token p) (pl_request_id p) body s of
                  (Inl e, s1) \<Rightarrow> (Inl e, s1)
                | (Inr out, s1) \<Rightarrow>
                    (Inr \<lparr> rs_body = response_json (d_lib d) lossy out, rs_status = 200 \<rparr>, s1))))"

section \<open>What one dispatch does\<close>

text \<open>The gate a call with a token has to pass before the handler runs.\<close>

definition authorised ::
    "'key rpc_dispatcher \<Rightarrow> int \<Rightarrow> string \<Rightarrow> envelope_context \<Rightarrow> string \<Rightarrow> bytes option \<Rightarrow> verified_actor \<Rightarrow> bool" where
  "authorised d now m env token body actor \<longleftrightarrow>
     verify_no_replay (d_lib d) (d_verifier d) now token env = Inr actor
     \<and> allows_rpc (d_lib d) actor env body True
     \<and> (starts_with ''system:'' (va_sub actor) \<longrightarrow> policy_allows (d_policy d) m)"

lemma run_handler_effect:
  "rpc_log (snd (run_handler d m env actor body s)) = rpc_log s @ [Handled m env actor body]"
  "replay (snd (run_handler d m env actor body s)) = replay s"
  "response_cache (snd (run_handler d m env actor body s)) = response_cache s"
  by (simp_all add: run_handler_def)

lemma run_handler_no_reject: "fst (run_handler d m env actor body s) \<noteq> Inl (Reject r)"
  by (simp add: run_handler_def split: sum.split)

text \<open>The two gated paths end alike: refused with the log unchanged, or handled.\<close>

definition gated ::
    "'key rpc_dispatcher \<Rightarrow> int \<Rightarrow> string \<Rightarrow> envelope_context \<Rightarrow> string \<Rightarrow> string option \<Rightarrow> bytes option \<Rightarrow>
     rpc_state \<Rightarrow> (dispatch_error + bytes) \<times> rpc_state \<Rightarrow> bool" where
  "gated d now m env token rid body s r \<longleftrightarrow>
     rpc_log (snd r) = rpc_log s
       \<and> (replay (snd r) = replay s \<or>
          (\<exists>jti. replay (snd r) = snd (insert_keyed jti rid (replay s))))
       \<and> response_cache (snd r) = response_cache s
     \<or> (\<exists>actor. authorised d now m env token body actor
         \<and> fst (insert_keyed (va_jti actor) rid (replay s))
         \<and> replay (snd r) = snd (insert_keyed (va_jti actor) rid (replay s))
         \<and> rpc_log (snd r) = rpc_log s @ [Audited m env actor, Handled m env actor body]
         \<and> (\<forall>e. fst r \<noteq> Inl (Reject e)))"

lemma gated_refused:
  "rpc_log s' = rpc_log s \<Longrightarrow> response_cache s' = response_cache s \<Longrightarrow> replay s' = replay s
   \<Longrightarrow> gated d now m env token rid body s (x, s')"
  by (simp add: gated_def)

lemma gated_spent:
  "rpc_log s' = rpc_log s \<Longrightarrow> response_cache s' = response_cache s
   \<Longrightarrow> replay s' = snd (insert_keyed jti rid (replay s))
   \<Longrightarrow> gated d now m env token rid body s (x, s')"
  unfolding gated_def by auto

lemma gated_cached:
  "gated d now m env token (Some rid) body s (dispatch_cached d now cache m env token rid body s)"
proof (cases "verify_no_replay (d_lib d) (d_verifier d) now token env")
  case (Inl e)
  then show ?thesis by (simp add: dispatch_cached_def gated_refused)
next
  case (Inr actor)
  let ?i = "insert_keyed (va_jti actor) (Some rid) (replay s)"
  show ?thesis
  proof (cases "allows_rpc (d_lib d) actor env body True \<and> resp_get (va_jti actor) rid cache = None")
    case False
    with Inr show ?thesis
      by (cases "resp_get (va_jti actor) rid cache") (auto simp: dispatch_cached_def intro: gated_refused)
  next
    case pass: True
    show ?thesis
    proof (cases "fst ?i \<and> (starts_with ''system:'' (va_sub actor) \<longrightarrow> policy_allows (d_policy d) m)")
      case False
      with Inr pass show ?thesis
        by (cases "fst ?i") (auto simp: dispatch_cached_def check_system_sub_and_audit_def Let_def case_prod_unfold
            gated_spent [where jti = "va_jti actor"])
    next
      case True
      then have "authorised d now m env token body actor" using Inr pass by (simp add: authorised_def)
      with True Inr pass show ?thesis
        unfolding gated_def
        by (intro disjI2 exI [of _ actor])
           (auto simp: dispatch_cached_def check_system_sub_and_audit_def run_handler_def Let_def case_prod_unfold
             split: sum.split)
    qed
  qed
qed

lemma gated_uncached:
  "gated d now m env token rid body s (dispatch_uncached d now m env token rid body s)"
proof (cases "verify_no_replay (d_lib d) (d_verifier d) now token env")
  case (Inl e)
  then show ?thesis by (simp add: dispatch_uncached_def verify_with_request_id_def gated_refused)
next
  case (Inr actor)
  let ?i = "insert_keyed (va_jti actor) rid (replay s)"
  note defs = dispatch_uncached_def verify_with_request_id_def check_system_sub_and_audit_def Let_def case_prod_unfold
  show ?thesis
  proof (cases "fst ?i \<and> allows_rpc (d_lib d) actor env body True
      \<and> (starts_with ''system:'' (va_sub actor) \<longrightarrow> policy_allows (d_policy d) m)")
    case False
    with Inr show ?thesis
      by (cases "fst ?i") (auto simp: defs gated_spent [where jti = "va_jti actor"])
  next
    case True
    then have "authorised d now m env token body actor" using Inr by (simp add: authorised_def)
    with True Inr show ?thesis
      unfolding gated_def
      by (intro disjI2 exI [of _ actor]) (auto simp: defs run_handler_def split: sum.split)
  qed
qed

lemma dispatch_inner_gated:
  "gated d now m env t rid body s (dispatch_inner d now m env (Some t) rid body s)"
  by (cases "response_cache s"; cases rid)
     (simp_all add: dispatch_inner_def gated_uncached gated_cached)

text \<open>
  C6. Nothing reaches the handler unauthorised.  A dispatch either leaves the log as it
  was, or appends one handler call: the anonymous reader on a token-less call with a safe
  method, or the verified actor of an authorised call, with its audit record written
  first.  A rejected call leaves the log as it was.
\<close>

theorem dispatch_only_authorised:
  fixes d :: "'key rpc_dispatcher"
  shows "let r = dispatch_inner d now m env token rid body s; log' = rpc_log (snd r)
    in (log' = rpc_log s
        \<or> token = None \<and> is_safe_http_method (ec_method env)
            \<and> log' = rpc_log s @ [Handled m env anonymous_read_actor body]
        \<or> (\<exists>t actor. token = Some t \<and> authorised d now m env t body actor
            \<and> log' = rpc_log s @ [Audited m env actor, Handled m env actor body]))
      \<and> ((\<exists>e. fst r = Inl (Reject e)) \<longrightarrow> log' = rpc_log s)"
proof (cases token)
  case None
  then show ?thesis
    using run_handler_no_reject [of d m env anonymous_read_actor body s]
    by (auto simp: dispatch_inner_def Let_def run_handler_effect)
next
  case (Some t)
  with dispatch_inner_gated [of d now m env t rid body s] show ?thesis
    unfolding gated_def Let_def by blast
qed

section \<open>Sequences of calls\<close>

record rpc_request =
  rq_now :: int
  rq_method :: string
  rq_env :: envelope_context
  rq_token :: "string option"
  rq_id :: "string option"
  rq_body :: "bytes option"

definition dispatch_request :: "'key rpc_dispatcher \<Rightarrow> rpc_request \<Rightarrow> rpc_state \<Rightarrow> rpc_state" where
  "dispatch_request d q s =
     snd (dispatch_inner d (rq_now q) (rq_method q) (rq_env q) (rq_token q) (rq_id q) (rq_body q) s)"

definition dispatch_all :: "'key rpc_dispatcher \<Rightarrow> rpc_request list \<Rightarrow> rpc_state \<Rightarrow> rpc_state" where
  "dispatch_all d qs s = fold (dispatch_request d) qs s"

definition jti_inv :: "jti_cache \<Rightarrow> bool" where
  "jti_inv c \<longleftrightarrow> set (jti_order c) = seen c \<and> distinct (jti_order c) \<and> length (jti_order c) \<le> jti_capacity c"

lemma jti_inv_wf: "jti_inv c = jti_window.wf c"
  by (simp add: jti_inv_def jti_window.wf_def)

lemma insert_keyed_put: "snd (insert_keyed jti rid c) = jti_window.puts [(compose_key jti rid, ())] c"
  by (simp add: insert_keyed_def)

lemma dispatch_request_replay:
  "\<exists>kvs. length kvs \<le> 1 \<and> replay (dispatch_request d q s) = jti_window.puts kvs (replay s)"
proof (cases "rq_token q")
  case None
  then have "replay (dispatch_request d q s) = jti_window.puts [] (replay s)"
    by (simp add: dispatch_request_def dispatch_inner_def run_handler_effect)
  then show ?thesis by (intro exI [of _ "[]"]) simp
next
  case (Some t)
  have "replay (dispatch_request d q s) = replay s
    \<or> (\<exists>jti. replay (dispatch_request d q s) = snd (insert_keyed jti (rq_id q) (replay s)))"
    using dispatch_inner_gated [of d "rq_now q" "rq_method q" "rq_env q" t "rq_id q" "rq_body q" s] Some
    unfolding gated_def dispatch_request_def by auto
  then show ?thesis
  proof (elim disjE exE)
    assume "replay (dispatch_request d q s) = replay s"
    then show ?thesis by (intro exI [of _ "[]"]) simp
  next
    fix jti
    assume "replay (dispatch_request d q s) = snd (insert_keyed jti (rq_id q) (replay s))"
    then show ?thesis by (intro exI [of _ "[(compose_key jti (rq_id q), ())]"]) (simp add: insert_keyed_def)
  qed
qed

lemma puts_append: "jti_window.puts (xs @ ys) c = jti_window.puts ys (jti_window.puts xs c)"
  by (induction xs c rule: jti_window.puts.induct) simp_all

lemma dispatch_all_replay:
  "\<exists>kvs. length kvs \<le> length qs \<and> replay (dispatch_all d qs s) = jti_window.puts kvs (replay s)"
proof (induction qs arbitrary: s)
  case Nil
  then show ?case by (intro exI [of _ "[]"]) (simp add: dispatch_all_def)
next
  case (Cons q qs)
  obtain k1 where "length k1 \<le> 1" "replay (dispatch_request d q s) = jti_window.puts k1 (replay s)"
    using dispatch_request_replay by blast
  moreover obtain k2 where "length k2 \<le> length qs"
    "replay (dispatch_all d qs (dispatch_request d q s)) = jti_window.puts k2 (replay (dispatch_request d q s))"
    using Cons.IH by blast
  ultimately show ?case
    by (intro exI [of _ "k1 @ k2"]) (simp add: dispatch_all_def puts_append)
qed

lemma verify_same_token:
  assumes "verify_no_replay lib v n1 t e1 = Inr a1" and "verify_no_replay lib v n2 t e2 = Inr a2"
  shows "a1 = a2"
  by (rule verify_no_replay_ok [OF assms(1)], rule verify_no_replay_ok [OF assms(2)]) simp

text \<open>
  C7. The handler runs at most once per token and request id.  After a call with a token
  reached the handler, and as long as fewer further calls were dispatched than the
  replay window holds, presenting the same token with the same request id again, at any
  time, for any method, path and body, runs neither the handler nor the audit.
\<close>

theorem handler_at_most_once:
  assumes "jti_inv (replay s)"
    and "s1 = snd (dispatch_inner d now m env (Some t) rid body s)" and "rpc_log s1 \<noteq> rpc_log s"
    and "length others < jti_capacity (replay s)" and "s2 = dispatch_all d others s1"
  shows "rpc_log (snd (dispatch_inner d later m' env' (Some t) rid body' s2)) = rpc_log s2"
proof -
  obtain actor where auth: "authorised d now m env t body actor"
    and ok: "fst (insert_keyed (va_jti actor) rid (replay s))"
    and rep: "replay s1 = snd (insert_keyed (va_jti actor) rid (replay s))"
    using dispatch_inner_gated [of d now m env t rid body s] assms(2,3) unfolding gated_def by auto
  let ?key = "compose_key (va_jti actor) rid"
  have wf: "jti_window.wf (replay s)" using assms(1) by (simp add: jti_inv_wf)
  have cap: "jti_capacity (replay s1) = jti_capacity (replay s)"
    using rep jti_window.puts_cap by (simp add: insert_keyed_put del: jti_window.puts.simps)
  have wf1: "jti_window.wf (replay s1)"
    using rep jti_window.wf_puts [OF wf] by (simp add: insert_keyed_put del: jti_window.puts.simps)
  have "?key \<notin> seen (replay s)"
    using ok jti_admit_fst [of "replay s" ?key] assms(4) by (simp add: insert_keyed_def)
  then obtain older where ord: "jti_order (replay s1) = older @ ?key # []"
    using jti_window.put_order [of "replay s" ?key] wf rep assms(4)
    by (auto simp: jti_window.wf_def insert_keyed_def)
  obtain kvs where kvs: "length kvs \<le> length others" "replay s2 = jti_window.puts kvs (replay s1)"
    using dispatch_all_replay [of others d s1] assms(5) by blast
  have seen: "?key \<in> seen (replay s2)"
    unfolding kvs(2) by (rule jti_window.key_survives [OF wf1 ord]) (use kvs(1) assms(4) cap in simp)
  have cap2: "0 < jti_capacity (replay s2)"
    using kvs(2) cap assms(4) by (simp add: jti_window.puts_cap)
  have "\<not> (authorised d later m' env' t body' a \<and> fst (insert_keyed (va_jti a) rid (replay s2)))" for a
  proof (rule notI, elim conjE)
    assume a: "authorised d later m' env' t body' a" and f: "fst (insert_keyed (va_jti a) rid (replay s2))"
    have "a = actor" using a auth verify_same_token unfolding authorised_def by blast
    with f seen jti_admit_fst [OF cap2, of ?key] show False by (simp add: insert_keyed_def)
  qed
  with dispatch_inner_gated [of d later m' env' t rid body' s2] show ?thesis
    unfolding gated_def by blast
qed

lemma resp_get_insert: "0 < resp_capacity c \<Longrightarrow> resp_get jti rid (resp_insert jti rid out c) = Some out"
  by (simp add: resp_get_def resp_lookup_def resp_insert_def resp_put_def Let_def split: list.split)

text \<open>
  A retry gets the same bytes.  With a response cache, a call that was answered with
  \<open>out\<close> is answered with the same \<open>out\<close> when the same token and request id come
  again while the token still verifies, and the second answer changes nothing: no
  handler call, no audit record, no cache movement.
\<close>

lemma retry_is_byte_identical:
  assumes "response_cache s = Some cache" and "0 < resp_capacity cache"
    and "dispatch_inner d now m env (Some t) (Some rid) body s = (Inr out, s1)"
    and "verify_no_replay (d_lib d) (d_verifier d) later t env = Inr actor"
  shows "dispatch_inner d later m env (Some t) (Some rid) body s1 = (Inr out, s1)"
proof -
  have d1: "dispatch_cached d now cache m env t rid body s = (Inr out, s1)"
    using assms(1,3) by (simp add: dispatch_inner_def)
  then obtain a where a: "verify_no_replay (d_lib d) (d_verifier d) now t env = Inr a"
    by (cases "verify_no_replay (d_lib d) (d_verifier d) now t env") (simp_all add: dispatch_cached_def)
  have same: "a = actor" by (rule verify_same_token [OF a assms(4)])
  have ok: "allows_rpc (d_lib d) actor env body True"
    using d1 a same by (simp add: dispatch_cached_def split: if_splits)
  have "\<exists>cache'. response_cache s1 = Some cache' \<and> resp_get (va_jti actor) rid cache' = Some out"
  proof (cases "resp_get (va_jti actor) rid cache")
    case (Some b)
    then have "b = out" "s1 = s" using d1 a same ok by (simp_all add: dispatch_cached_def)
    with Some assms(1) show ?thesis by simp
  next
    case None
    then have "response_cache s1 = Some (resp_insert (va_jti actor) rid out cache)"
      using d1 a same ok
      by (auto simp: dispatch_cached_def check_system_sub_and_audit_def Let_def split: prod.splits sum.splits if_splits)
    with resp_get_insert [OF assms(2)] show ?thesis by simp
  qed
  with assms(4) ok show ?thesis
    by (auto simp: dispatch_inner_def dispatch_cached_def)
qed

text \<open>
  The token alone is not single-use.  A token already spent under one request id runs
  the handler again under another one, with the same actor and the same \<open>jti\<close>, as long
  as it verifies: the replay window is keyed by the pair, and the request id is not part
  of what was signed.
\<close>

lemma token_reusable_with_new_request_id:
  assumes "compose_key (va_jti actor) (Some rid) \<in> seen (replay s)"
    and "compose_key (va_jti actor) (Some rid') \<notin> seen (replay s)"
    and "0 < jti_capacity (replay s)"
    and "authorised d now m env t body actor"
    and "response_cache s = Some cache" and "resp_get (va_jti actor) rid' cache = None"
  shows "rpc_log (snd (dispatch_inner d now m env (Some t) (Some rid') body s))
    = rpc_log s @ [Audited m env actor, Handled m env actor body]"
proof -
  have "fst (insert_keyed (va_jti actor) (Some rid') (replay s))"
    using jti_admit_fst [OF assms(3)] assms(2) by (simp add: insert_keyed_def)
  with assms(4-6) show ?thesis
    by (auto simp: authorised_def dispatch_inner_def dispatch_cached_def check_system_sub_and_audit_def
        run_handler_def Let_def case_prod_unfold split: sum.split)
qed

lemma engine_policy_members:
  "permitted engine_system_policy = set (''entitlement_update'' # UPDATE_ORCHESTRATOR_ACTIONS @ FLEET_CATEGORIES)"
proof -
  have "permitted (fold permit ms p) = permitted p \<union> set ms" for ms p
    by (induction ms arbitrary: p) (auto simp: permit_def)
  then show ?thesis
    by (simp add: engine_system_policy_def default_system_policy_def permitting_def insert_commute)
qed

lemma system_route_names:
  "list_all (\<lambda>path. derive_method_name \<lparr> pl_actor_token = None, pl_body = None, pl_method = ''POST'',
       pl_path = path, pl_request_id = None \<rparr> \<in> set (UPDATE_ORCHESTRATOR_ACTIONS @ FLEET_CATEGORIES))
     (system_routes ''system:update-orchestrator'' @ system_routes ''system:api-gateway'')"
  by code_simp

text \<open>
  The two gates on service accounts agree: every route the token check grants a
  \<open>system:\<close> subject passes the method policy the engine builds, under the method
  name the dispatcher derives from the path.
\<close>

lemma system_policy_covers_routes:
  assumes "starts_with ''system:'' (va_sub actor)"
    and "allows_system_action actor \<lparr> ec_method = pl_method p, ec_path = pl_path p \<rparr>"
  shows "policy_allows engine_system_policy (derive_method_name p)"
proof -
  let ?routes = "system_routes ''system:update-orchestrator'' @ system_routes ''system:api-gateway''"
  have "pl_path p \<in> set ?routes"
    using system_action_routes [OF assms(1), of "\<lparr> ec_method = pl_method p, ec_path = pl_path p \<rparr>"] assms(2) by simp
  then have "derive_method_name \<lparr> pl_actor_token = None, pl_body = None, pl_method = ''POST'',
       pl_path = pl_path p, pl_request_id = None \<rparr> \<in> set (UPDATE_ORCHESTRATOR_ACTIONS @ FLEET_CATEGORIES)"
    by (rule bspec [OF system_route_names [unfolded list_all_iff]])
  then show ?thesis
    by (simp add: policy_allows_def engine_policy_members derive_method_name_def)
qed

section \<open>Witnesses\<close>

definition demo_dispatcher :: "nat rpc_dispatcher" where
  "demo_dispatcher = \<lparr> d_lib = demo_lib, d_verifier = demo_verifier, d_policy = engine_system_policy,
     d_handler = (\<lambda>_ _ _ _ _. Inr [1]) \<rparr>"

definition demo_rpc_state :: rpc_state where
  "demo_rpc_state = \<lparr> replay = jti_with_capacity 4, response_cache = Some (resp_with_capacity 4), rpc_log = [] \<rparr>"

definition demo_actor :: verified_actor where
  "demo_actor = actor_of_claims demo_claims"

definition served_rpc_state :: rpc_state where
  "served_rpc_state = \<lparr> replay = snd (insert_keyed ''j1'' (Some ''r1'') (jti_with_capacity 4)),
     response_cache = Some (resp_insert ''j1'' ''r1'' [1] (resp_with_capacity 4)),
     rpc_log = [Audited ''diag_collect'' demo_envelope demo_actor, Handled ''diag_collect'' demo_envelope demo_actor None] \<rparr>"

lemma demo_authorised:
  assumes "75 < now" and "now < 150"
  shows "authorised demo_dispatcher now ''diag_collect'' demo_envelope demo_token None demo_actor"
proof -
  have "rpc_path_parts ''diag_collect'' = Some [''diag_collect'']" by code_simp
  then have "allows_rpc demo_lib demo_actor demo_envelope None True"
    by (simp add: allows_rpc_def demo_permissions demo_actor_def actor_of_claims_def demo_claims_def
        allows_system_action_def rpc_body_matches_def starts_with_def)
      (simp add: demo_envelope_def)
  then show ?thesis
    using demo_verified [OF assms]
    by (simp add: authorised_def demo_dispatcher_def demo_actor_def)
       (simp add: actor_of_claims_def demo_claims_def starts_with_def)
qed

lemma demo_served:
  "dispatch_inner demo_dispatcher 100 ''diag_collect'' demo_envelope (Some demo_token) (Some ''r1'') None demo_rpc_state
     = (Inr [1], served_rpc_state)"
proof -
  have a: "verify_no_replay demo_lib demo_verifier 100 demo_token demo_envelope = Inr demo_actor"
    "allows_rpc demo_lib demo_actor demo_envelope None True"
    using demo_authorised [of 100] by (simp_all add: authorised_def demo_dispatcher_def)
  have j: "va_jti demo_actor = ''j1''" "\<not> starts_with ''system:'' (va_sub demo_actor)"
    by (simp_all add: demo_actor_def actor_of_claims_def demo_claims_def starts_with_def)
  show ?thesis
    by (simp add: dispatch_inner_def dispatch_cached_def demo_rpc_state_def demo_dispatcher_def a j
        resp_get_def resp_lookup_def resp_with_capacity_def insert_keyed_def jti_admit_def jti_with_capacity_def
        check_system_sub_and_audit_def run_handler_def Let_def served_rpc_state_def)
qed

lemma served_seen:
  "seen (replay served_rpc_state) = {''j1|r1''}" "jti_capacity (replay served_rpc_state) = 4"
  by (simp_all add: served_rpc_state_def insert_keyed_def jti_admit_def jti_with_capacity_def compose_key_def Let_def)

theorem dispatch_only_authorised_witness:
  "let r = dispatch_inner demo_dispatcher 100 ''diag_collect'' demo_envelope None None None demo_rpc_state
   in fst r = Inl (Reject Missing) \<and> rpc_log (snd r) = []"
proof -
  let ?r = "dispatch_inner demo_dispatcher 100 ''diag_collect'' demo_envelope None None None demo_rpc_state"
  have "fst ?r = Inl (Reject Missing)"
    by (simp add: dispatch_inner_def is_safe_http_method_def demo_envelope_def to_ascii_uppercase_def
        ascii_upper_char_def)
  moreover from this have "rpc_log (snd ?r) = rpc_log demo_rpc_state"
    using dispatch_only_authorised [of demo_dispatcher 100 "''diag_collect''" demo_envelope None None None demo_rpc_state]
    by (simp add: Let_def)
  ultimately show ?thesis by (simp add: demo_rpc_state_def Let_def)
qed

theorem handler_at_most_once_witness:
  "rpc_log (snd (dispatch_inner demo_dispatcher 120 ''other'' demo_envelope (Some demo_token) (Some ''r1'') (Some [2])
     (dispatch_all demo_dispatcher [] served_rpc_state))) = rpc_log (dispatch_all demo_dispatcher [] served_rpc_state)"
  by (rule handler_at_most_once [of demo_rpc_state served_rpc_state demo_dispatcher 100 "''diag_collect''"
        demo_envelope demo_token "Some ''r1''" None "[]"])
     (simp_all add: demo_served, simp_all add: demo_rpc_state_def served_rpc_state_def jti_inv_def jti_with_capacity_def)

end
