(* ===== verification/Preroll.thy ===== *)
theory Preroll
  imports Prelude "HOL-Library.Sublist"
begin

text \<open>
  The pre-roll ring of \<open>nexus-pipeline\<close> (\<open>preroll.rs\<close>): a rolling window of
  H.264 samples grouped into GOPs, trimmed by duration with a byte cap as
  backstop, and restarted with a new epoch when the timeline steps back.  The
  two trimming loops are functions with termination proofs; the interface they
  share (whole GOPs leave from the front, never the last one) is the locale
  \<open>gop_trim\<close>, interpreted on both.  The lemmas show what a recorder that
  splices a snapshot relies on: it starts at a keyframe, belongs to one epoch,
  is a gap-free tail of the broadcast stream, and stays within the two bounds.

  Lengths and byte counts are natural numbers; \<open>pop_front_gop\<close>'s subtraction
  never truncates (\<open>ring_inv\<close>).  The epoch counter is a \<open>u64\<close>.
\<close>

section \<open>Samples, GOPs and the ring\<close>

definition MIN_DISCONTINUITY :: duration where
  "MIN_DISCONTINUITY = 2000000000"

definition MAX_RING_BYTES :: nat where
  "MAX_RING_BYTES = 64 * 1024 * 1024"

record nal_sample =
  pts :: "duration option"
  dts :: "duration option"
  is_keyframe :: bool
  nal_data :: "8 word list"
  sample_epoch :: u64

record gop =
  samples :: "nal_sample list"

definition gop_new :: "nal_sample \<Rightarrow> gop" where
  "gop_new keyframe = \<lparr>samples = [keyframe]\<rparr>"

text \<open>\<open>Iterator::find_map\<close>.\<close>

fun find_map :: "('a \<Rightarrow> 'b option) \<Rightarrow> 'a list \<Rightarrow> 'b option" where
  "find_map f [] = None"
| "find_map f (x # xs) = (case f x of None \<Rightarrow> find_map f xs | Some y \<Rightarrow> Some y)"

definition first_pts :: "gop \<Rightarrow> duration option" where
  "first_pts g = find_map pts (samples g)"

record nal_ring =
  gops :: "gop list"
  max_duration :: duration
  newest_pts :: "duration option"
  ring_epoch :: u64
  ring_bytes :: nat
  max_bytes :: nat
  byte_cap_trip :: bool
  byte_capped :: bool

definition ring_new :: "duration \<Rightarrow> nal_ring" where
  "ring_new d =
     \<lparr>gops = [], max_duration = d, newest_pts = None, ring_epoch = 0, ring_bytes = 0,
      max_bytes = MAX_RING_BYTES, byte_cap_trip = False, byte_capped = False\<rparr>"

definition take_byte_cap_trip :: "nal_ring \<Rightarrow> bool \<times> nal_ring" where
  "take_byte_cap_trip r = (byte_cap_trip r, r\<lparr>byte_cap_trip := False\<rparr>)"

definition begin_epoch :: "nal_ring \<Rightarrow> nal_ring" where
  "begin_epoch r =
     r\<lparr>gops := [], newest_pts := None, ring_bytes := 0, byte_cap_trip := False,
       byte_capped := False, ring_epoch := ring_epoch r + 1\<rparr>"

definition sample_count :: "nal_ring \<Rightarrow> nat" where
  "sample_count r = sum_list (map (\<lambda>g. length (samples g)) (gops r))"

definition gop_count :: "nal_ring \<Rightarrow> nat" where
  "gop_count r = length (gops r)"

definition oldest_pts :: "nal_ring \<Rightarrow> duration option" where
  "oldest_pts r = (case gops r of [] \<Rightarrow> None | g # gs \<Rightarrow> first_pts g)"

definition buffered_duration :: "nal_ring \<Rightarrow> duration" where
  "buffered_duration r =
     (case (oldest_pts r, newest_pts r) of
        (Some old, Some new) \<Rightarrow> if new \<ge> old then new - old else 0
      | _ \<Rightarrow> 0)"

definition gop_bytes :: "gop \<Rightarrow> nat" where
  "gop_bytes g = sum_list (map (\<lambda>s. length (nal_data s)) (samples g))"

definition pop_front_gop :: "nal_ring \<Rightarrow> nal_ring" where
  "pop_front_gop r =
     (case gops r of
        [] \<Rightarrow> r
      | g # gs \<Rightarrow> r\<lparr>gops := gs, ring_bytes := ring_bytes r - gop_bytes g\<rparr>)"

lemma length_pop [simp]: "length (gops (pop_front_gop r)) = length (gops r) - 1"
  by (simp add: pop_front_gop_def split: list.split)

text \<open>The loop of \<open>trim\<close>; subtraction on durations is \<open>saturating_sub\<close>.\<close>

function trim_loop :: "duration \<Rightarrow> nal_ring \<Rightarrow> nal_ring" where
  "trim_loop newest r =
     (if length (gops r) > 1
      then (case first_pts (gops r ! 0) of
              None \<Rightarrow> r
            | Some first \<Rightarrow>
                (case first_pts (gops r ! 1) of
                   None \<Rightarrow> r
                 | Some second \<Rightarrow>
                     if newest - second > max_duration r
                     then trim_loop newest (pop_front_gop r)
                     else if newest - first > max_duration r then pop_front_gop r
                     else r))
      else r)"
  by pat_completeness auto
termination
  by (relation "measure (\<lambda>(newest, r). length (gops r))") auto

declare trim_loop.simps [simp del]

definition trim :: "nal_ring \<Rightarrow> nal_ring" where
  "trim r = (case newest_pts r of None \<Rightarrow> r | Some newest \<Rightarrow> trim_loop newest r)"

function byte_loop :: "bool \<Rightarrow> nal_ring \<Rightarrow> bool \<times> nal_ring" where
  "byte_loop trimmed r =
     (if ring_bytes r > max_bytes r \<and> length (gops r) > 1
      then byte_loop True (pop_front_gop r)
      else (trimmed, r))"
  by pat_completeness auto
termination
  by (relation "measure (\<lambda>(trimmed, r). length (gops r))") auto

declare byte_loop.simps [simp del]

definition trim_bytes :: "nal_ring \<Rightarrow> nal_ring" where
  "trim_bytes r0 =
     (let (trimmed, r) = byte_loop False r0 in
      if trimmed
      then r\<lparr>byte_cap_trip := byte_cap_trip r \<or> \<not> byte_capped r, byte_capped := True\<rparr>
      else if ring_bytes r \<le> max_bytes r div 2 then r\<lparr>byte_capped := False\<rparr>
      else r)"

definition timeline_reset :: "nal_sample \<Rightarrow> nal_ring \<Rightarrow> bool" where
  "timeline_reset s r =
     (case (pts s, newest_pts r) of
        (Some p, Some newest) \<Rightarrow> newest - p > max (max_duration r) MIN_DISCONTINUITY
      | _ \<Rightarrow> False)"

definition note_pts :: "nal_sample \<Rightarrow> nal_ring \<Rightarrow> nal_ring" where
  "note_pts s r =
     (case pts s of
        None \<Rightarrow> r
      | Some p \<Rightarrow> r\<lparr>newest_pts := Some (case newest_pts r of None \<Rightarrow> p | Some n \<Rightarrow> max n p)\<rparr>)"

definition append_sample :: "nal_sample \<Rightarrow> nal_ring \<Rightarrow> nal_ring" where
  "append_sample s r =
     (if is_keyframe s
      then let r = trim r in
           r\<lparr>ring_bytes := ring_bytes r + length (nal_data s), gops := gops r @ [gop_new s]\<rparr>
      else if gops r = [] then r
      else r\<lparr>ring_bytes := ring_bytes r + length (nal_data s),
             gops := (gops r)[length (gops r) - 1 :=
                       (last (gops r))\<lparr>samples := samples (last (gops r)) @ [s]\<rparr>]\<rparr>)"

definition push :: "nal_sample \<Rightarrow> nal_ring \<Rightarrow> nal_sample \<times> nal_ring" where
  "push sample r0 =
     (let r = (if timeline_reset sample r0 then begin_epoch r0 else r0);
          stamped = sample\<lparr>sample_epoch := ring_epoch r\<rparr>
      in (stamped, trim_bytes (trim (append_sample stamped (note_pts stamped r)))))"

definition snapshot :: "nal_ring \<Rightarrow> nal_sample list" where
  "snapshot r = concat (map samples (gops r))"

text \<open>What the ingester does to the ring over its life; the broadcast receives
  every stamped sample, in push order.\<close>

datatype ring_op = Push nal_sample | Begin_Epoch | Take_Trip

fun ring_run :: "ring_op list \<Rightarrow> nal_ring \<Rightarrow> nal_sample list \<times> nal_ring" where
  "ring_run [] r = ([], r)"
| "ring_run (Push s # ops) r =
     (let (stamped, r1) = push s r; (out, r2) = ring_run ops r1 in (stamped # out, r2))"
| "ring_run (Begin_Epoch # ops) r = ring_run ops (begin_epoch r)"
| "ring_run (Take_Trip # ops) r = ring_run ops (snd (take_byte_cap_trip r))"

section \<open>The ring invariant\<close>

definition gop_ok :: "gop \<Rightarrow> bool" where
  "gop_ok g =
     (case samples g of
        [] \<Rightarrow> False
      | k # ds \<Rightarrow> is_keyframe k \<and> list_all (\<lambda>s. \<not> is_keyframe s) ds)"

definition sample_ok :: "nal_ring \<Rightarrow> nal_sample \<Rightarrow> bool" where
  "sample_ok r s =
     (sample_epoch s = ring_epoch r \<and>
      (case pts s of
         None \<Rightarrow> True
       | Some p \<Rightarrow> (case newest_pts r of None \<Rightarrow> False | Some n \<Rightarrow> p \<le> n)))"

definition ring_inv :: "nal_ring \<Rightarrow> bool" where
  "ring_inv r =
     (list_all gop_ok (gops r) \<and> list_all (\<lambda>g. list_all (sample_ok r) (samples g)) (gops r) \<and>
      ring_bytes r = sum_list (map gop_bytes (gops r)))"

lemma sample_ok_cong:
  "ring_epoch r' = ring_epoch r \<Longrightarrow> newest_pts r' = newest_pts r \<Longrightarrow> sample_ok r' = sample_ok r"
  by (rule ext) (simp add: sample_ok_def split: option.split)

subsection \<open>Whole GOPs leave from the front\<close>

text \<open>
  The contract of a trimming pass: it drops some GOPs from the front but never
  the last one, takes their payload off the count, and leaves the timeline alone.
\<close>

definition trims :: "nal_ring \<Rightarrow> nal_ring \<Rightarrow> bool" where
  "trims r r' \<longleftrightarrow>
     (\<exists>k. gops r' = drop k (gops r) \<and> (k < length (gops r) \<or> k = 0) \<and>
          ring_bytes r' = ring_bytes r - sum_list (map gop_bytes (take k (gops r)))) \<and>
     newest_pts r' = newest_pts r \<and> ring_epoch r' = ring_epoch r \<and>
     max_duration r' = max_duration r \<and> max_bytes r' = max_bytes r"

lemma trims_refl [simp]: "trims r r"
  unfolding trims_def by (simp add: exI [of _ 0])

lemma trims_pop:
  assumes "length (gops r) > 1" "trims (pop_front_gop r) r'"
  shows "trims r r'"
proof -
  obtain g gs where g: "gops r = g # gs" using assms(1) by (cases "gops r") auto
  have p: "pop_front_gop r = r\<lparr>gops := gs, ring_bytes := ring_bytes r - gop_bytes g\<rparr>"
    by (simp add: pop_front_gop_def g)
  obtain k where k: "gops r' = drop k gs" "k < length gs \<or> k = 0"
      "ring_bytes r' = ring_bytes r - gop_bytes g - sum_list (map gop_bytes (take k gs))"
    using assms(2) unfolding trims_def p by auto
  show ?thesis
    using assms k unfolding trims_def p
    by (intro conjI exI [of _ "Suc k"]) (auto simp: g)
qed

text \<open>The three ways an iteration of \<open>trim\<close> goes.\<close>

lemma trim_loop_cases:
  obtains (stop) "trim_loop newest r = r"
  | (last) "length (gops r) > 1" "trim_loop newest r = pop_front_gop r"
  | (again) first second where "length (gops r) > 1" "first_pts (gops r ! 0) = Some first"
      "first_pts (gops r ! 1) = Some second" "newest - second > max_duration r"
      "trim_loop newest r = trim_loop newest (pop_front_gop r)"
proof (cases "length (gops r) > 1")
  case False
  then show ?thesis by (intro stop) (simp add: trim_loop.simps [of newest r])
next
  case True
  show ?thesis
  proof (cases "first_pts (gops r ! 0)")
    case None
    with True show ?thesis by (intro stop) (simp add: trim_loop.simps [of newest r])
  next
    case f: (Some first)
    show ?thesis
    proof (cases "first_pts (gops r ! 1)")
      case None
      with True f show ?thesis by (intro stop) (simp add: trim_loop.simps [of newest r])
    next
      case s: (Some second)
      note eq = trim_loop.simps [of newest r]
      show ?thesis
      proof (cases "newest - second > max_duration r")
        case over: True
        with True f s have "trim_loop newest r = trim_loop newest (pop_front_gop r)"
          by (subst eq) simp
        with True f s over show ?thesis by (intro again)
      next
        case False
        with True f s have
          "trim_loop newest r = (if newest - first > max_duration r then pop_front_gop r else r)"
          by (subst eq) simp
        then show ?thesis using True stop last by (metis (full_types))
      qed
    qed
  qed
qed

lemma trims_trim_loop: "trims r (trim_loop newest r)"
proof (induction newest r rule: trim_loop.induct)
  case (1 newest r)
  show ?case
  proof (cases newest r rule: trim_loop_cases)
    case stop
    then show ?thesis by simp
  next
    case last
    then show ?thesis using trims_pop [of r "pop_front_gop r"] by simp
  next
    case (again first second)
    then have "trims (pop_front_gop r) (trim_loop newest (pop_front_gop r))"
      by (intro 1)
    with again show ?thesis using trims_pop by simp
  qed
qed

lemma trims_trim: "trims r (trim r)"
  by (simp add: trim_def trims_trim_loop split: option.split)

lemma pop_front_flags [simp]:
  "byte_capped (pop_front_gop r) = byte_capped r" "byte_cap_trip (pop_front_gop r) = byte_cap_trip r"
  by (simp_all add: pop_front_gop_def split: list.split)

lemma byte_loop_spec:
  "trims r (snd (byte_loop t r)) \<and>
   (ring_bytes (snd (byte_loop t r)) \<le> max_bytes (snd (byte_loop t r)) \<or>
    length (gops (snd (byte_loop t r))) \<le> 1) \<and>
   byte_capped (snd (byte_loop t r)) = byte_capped r \<and>
   byte_cap_trip (snd (byte_loop t r)) = byte_cap_trip r"
proof (induction t r rule: byte_loop.induct)
  case (1 t r)
  show ?case
  proof (cases "ring_bytes r > max_bytes r \<and> length (gops r) > 1")
    case True
    then have eq: "byte_loop t r = byte_loop True (pop_front_gop r)"
      by (simp add: byte_loop.simps [of t r])
    from "1.IH" [OF True] True trims_pop [of r "snd (byte_loop True (pop_front_gop r))"]
    show ?thesis unfolding eq by simp
  next
    case False
    then have "byte_loop t r = (t, r)" by (subst byte_loop.simps) (simp only: if_False)
    with False show ?thesis by auto
  qed
qed

lemma trim_bytes_fields:
  "gops (trim_bytes r) = gops (snd (byte_loop False r))"
  "ring_bytes (trim_bytes r) = ring_bytes (snd (byte_loop False r))"
  "newest_pts (trim_bytes r) = newest_pts (snd (byte_loop False r))"
  "ring_epoch (trim_bytes r) = ring_epoch (snd (byte_loop False r))"
  "max_duration (trim_bytes r) = max_duration (snd (byte_loop False r))"
  "max_bytes (trim_bytes r) = max_bytes (snd (byte_loop False r))"
  by (simp_all add: trim_bytes_def Let_def split: prod.split)

lemma trims_trim_bytes: "trims r (trim_bytes r)"
  using byte_loop_spec [of r False] unfolding trims_def trim_bytes_fields by blast

lemma trim_bytes_bound:
  "ring_bytes (trim_bytes r) \<le> max_bytes (trim_bytes r) \<or> length (gops (trim_bytes r)) \<le> 1"
  using byte_loop_spec [of r False] unfolding trim_bytes_fields by blast

locale gop_trim =
  fixes t :: "nal_ring \<Rightarrow> nal_ring"
  assumes trims_front: "trims r (t r)"
begin

lemma keeps:
  "newest_pts (t r) = newest_pts r" "ring_epoch (t r) = ring_epoch r"
  "max_duration (t r) = max_duration r" "max_bytes (t r) = max_bytes r"
  using trims_front [of r] by (auto simp: trims_def)

lemma suffix_gops: "suffix (gops (t r)) (gops r)"
  using trims_front [of r] suffix_drop by (auto simp: trims_def)

lemma suffix_snapshot: "suffix (snapshot (t r)) (snapshot r)"
proof -
  obtain ys where "gops r = ys @ gops (t r)" using suffix_gops by (auto simp: suffix_def)
  then have "snapshot r = concat (map samples ys) @ snapshot (t r)" by (simp add: snapshot_def)
  then show ?thesis by (rule suffixI)
qed

lemma never_empties: "gops (t r) = [] \<longleftrightarrow> gops r = []"
  using trims_front [of r] by (auto simp: trims_def)

lemma keeps_last: "gops r \<noteq> [] \<Longrightarrow> last (gops (t r)) = last (gops r)"
  using trims_front [of r] by (auto simp: trims_def)

lemma keeps_single: "length (gops r) \<le> 1 \<Longrightarrow> gops (t r) = gops r"
  using trims_front [of r] unfolding trims_def by (cases "gops r") auto

lemma inv_trim:
  assumes "ring_inv r"
  shows "ring_inv (t r)"
proof -
  obtain k where k: "gops (t r) = drop k (gops r)"
      "ring_bytes (t r) = ring_bytes r - sum_list (map gop_bytes (take k (gops r)))"
    using trims_front [of r] by (auto simp: trims_def)
  have s: "sample_ok (t r) = sample_ok r" by (rule sample_ok_cong) (simp_all add: keeps)
  have "sum_list (map gop_bytes (gops r)) =
        sum_list (map gop_bytes (take k (gops r))) + sum_list (map gop_bytes (drop k (gops r)))"
    by (metis append_take_drop_id map_append sum_list_append)
  with assms k have "ring_bytes (t r) = sum_list (map gop_bytes (gops (t r)))"
    by (simp add: ring_inv_def)
  moreover have "set (gops (t r)) \<subseteq> set (gops r)" by (simp add: k set_drop_subset)
  ultimately show ?thesis
    using assms by (auto simp: ring_inv_def s list_all_iff)
qed

end

interpretation by_duration: gop_trim trim
  by unfold_locales (rule trims_trim)

interpretation by_bytes: gop_trim trim_bytes
  by unfold_locales (rule trims_trim_bytes)

subsection \<open>One push\<close>

lemma note_pts_keeps [simp]:
  "gops (note_pts s r) = gops r" "ring_epoch (note_pts s r) = ring_epoch r"
  "ring_bytes (note_pts s r) = ring_bytes r" "max_duration (note_pts s r) = max_duration r"
  "max_bytes (note_pts s r) = max_bytes r" "byte_capped (note_pts s r) = byte_capped r"
  "byte_cap_trip (note_pts s r) = byte_cap_trip r"
  by (simp_all add: note_pts_def split: option.split)

lemma begin_epoch_keeps [simp]:
  "gops (begin_epoch r) = []" "max_duration (begin_epoch r) = max_duration r"
  "max_bytes (begin_epoch r) = max_bytes r" "newest_pts (begin_epoch r) = None"
  "ring_epoch (begin_epoch r) = ring_epoch r + 1"
  by (simp_all add: begin_epoch_def)

lemma snapshot_note_pts [simp]: "snapshot (note_pts s r) = snapshot r"
  by (simp add: snapshot_def)

lemma snapshot_begin_epoch [simp]: "snapshot (begin_epoch r) = []"
  by (simp add: snapshot_def)

lemma sample_ok_note_pts:
  "sample_ok r x \<Longrightarrow> sample_ok (note_pts s r) x"
  "sample_epoch s = ring_epoch r \<Longrightarrow> sample_ok (note_pts s r) s"
  by (auto simp: sample_ok_def note_pts_def split: option.splits)

lemma inv_note_pts: "ring_inv r \<Longrightarrow> ring_inv (note_pts s r)"
  by (auto simp: ring_inv_def list_all_iff sample_ok_note_pts)

lemma append_delta_gops:
  assumes "gops r \<noteq> []" "\<not> is_keyframe s"
  shows "gops (append_sample s r) =
    butlast (gops r) @ [(last (gops r))\<lparr>samples := samples (last (gops r)) @ [s]\<rparr>]"
  using assms by (cases "gops r" rule: rev_cases) (simp_all add: append_sample_def)

lemma append_keyframe_gops:
  "is_keyframe s \<Longrightarrow> gops (append_sample s r) = gops (trim r) @ [gop_new s]"
  by (simp add: append_sample_def Let_def)

lemma append_sample_keeps [simp]:
  "newest_pts (append_sample s r) = newest_pts r" "ring_epoch (append_sample s r) = ring_epoch r"
  "max_duration (append_sample s r) = max_duration r" "max_bytes (append_sample s r) = max_bytes r"
  by (simp_all add: append_sample_def Let_def by_duration.keeps)

lemma inv_append:
  assumes "ring_inv r" "sample_ok r s"
  shows "ring_inv (append_sample s r)"
proof -
  have so: "sample_ok (append_sample s r) = sample_ok r" by (rule sample_ok_cong) simp_all
  consider (key) "is_keyframe s" | (drop) "\<not> is_keyframe s" "gops r = []"
    | (delta) "\<not> is_keyframe s" "gops r \<noteq> []" by blast
  then show ?thesis
  proof cases
    case key
    have t: "ring_inv (trim r)" using assms(1) by (rule by_duration.inv_trim)
    have st: "sample_ok (trim r) = sample_ok r"
      by (rule sample_ok_cong) (simp_all add: by_duration.keeps)
    have "gop_ok (gop_new s)" "list_all (sample_ok r) (samples (gop_new s))"
        "gop_bytes (gop_new s) = length (nal_data s)"
      using key assms(2) by (simp_all add: gop_new_def gop_ok_def gop_bytes_def)
    moreover have "ring_bytes (append_sample s r) = ring_bytes (trim r) + length (nal_data s)"
      using key by (simp add: append_sample_def Let_def)
    ultimately show ?thesis
      using t by (simp add: ring_inv_def append_keyframe_gops key so st)
  next
    case drop
    with assms show ?thesis by (simp add: append_sample_def)
  next
    case delta
    obtain gs g where g: "gops r = gs @ [g]" using delta(2) by (cases "gops r" rule: rev_cases) auto
    have "gop_ok (g\<lparr>samples := samples g @ [s]\<rparr>)"
      using assms(1) delta(1) by (auto simp: ring_inv_def g gop_ok_def split: list.splits)
    moreover have "ring_bytes (append_sample s r) = ring_bytes r + length (nal_data s)"
      using delta by (simp add: append_sample_def)
    moreover have "gop_bytes (g\<lparr>samples := samples g @ [s]\<rparr>) = gop_bytes g + length (nal_data s)"
      by (simp add: gop_bytes_def)
    ultimately show ?thesis
      using assms delta by (simp add: ring_inv_def append_delta_gops so g)
  qed
qed

lemma suffix_append_sample: "suffix (snapshot (append_sample s r)) (snapshot r @ [s])"
proof -
  consider (key) "is_keyframe s" | (drop) "\<not> is_keyframe s" "gops r = []"
    | (delta) "\<not> is_keyframe s" "gops r \<noteq> []" by blast
  then show ?thesis
  proof cases
    case key
    then have "snapshot (append_sample s r) = snapshot (trim r) @ [s]"
      by (simp add: snapshot_def append_keyframe_gops gop_new_def)
    then show ?thesis using by_duration.suffix_snapshot [of r] by simp
  next
    case drop
    then show ?thesis by (simp add: snapshot_def append_sample_def)
  next
    case delta
    then have "snapshot (append_sample s r) = snapshot r @ [s]"
      by (cases "gops r" rule: rev_cases) (simp_all add: snapshot_def append_delta_gops)
    then show ?thesis by simp
  qed
qed

lemma push_result:
  "fst (push s r) = s\<lparr>sample_epoch := ring_epoch (if timeline_reset s r then begin_epoch r else r)\<rparr>"
  "snd (push s r) =
     trim_bytes (trim (append_sample (fst (push s r))
       (note_pts (fst (push s r)) (if timeline_reset s r then begin_epoch r else r))))"
  by (simp_all only: push_def Let_def fst_conv snd_conv)

lemma inv_push:
  assumes "ring_inv r"
  shows "ring_inv (snd (push s r))"
proof -
  let ?r = "if timeline_reset s r then begin_epoch r else r"
  have "ring_inv ?r" using assms by (simp add: ring_inv_def begin_epoch_def)
  then have "ring_inv (append_sample (fst (push s r)) (note_pts (fst (push s r)) ?r))"
    by (intro inv_append inv_note_pts sample_ok_note_pts) (simp_all add: push_result(1))
  then show ?thesis
    unfolding push_result(2) by (intro by_bytes.inv_trim by_duration.inv_trim)
qed

lemma suffix_push: "suffix (snapshot (snd (push s r))) (snapshot r @ [fst (push s r)])"
proof -
  let ?r = "if timeline_reset s r then begin_epoch r else r"
  have "suffix (snapshot (snd (push s r))) (snapshot ?r @ [fst (push s r)])"
    unfolding push_result(2)
    using by_bytes.suffix_snapshot by_duration.suffix_snapshot
      suffix_append_sample [of "fst (push s r)" "note_pts (fst (push s r)) ?r"]
    unfolding snapshot_note_pts by (meson suffix_order.trans)
  moreover have "suffix (snapshot ?r @ [fst (push s r)]) (snapshot r @ [fst (push s r)])"
    by (simp add: suffix_def)
  ultimately show ?thesis by (rule suffix_order.trans)
qed

subsection \<open>Runs of the ring\<close>

lemma inv_ring_run: "ring_inv r \<Longrightarrow> ring_inv (snd (ring_run ops r))"
proof (induction ops r rule: ring_run.induct)
  case (2 s ops r)
  have "ring_inv (snd (push s r))" using "2.prems" by (rule inv_push)
  then show ?case using "2.IH" [of "push s r" "fst (push s r)" "snd (push s r)"]
    by (simp add: case_prod_beta Let_def)
next
  case (3 ops r)
  have "ring_inv (begin_epoch r)" by (simp add: ring_inv_def begin_epoch_def)
  then show ?case using 3 by simp
next
  case (4 ops r)
  have "sample_ok (r\<lparr>byte_cap_trip := False\<rparr>) = sample_ok r" by (rule sample_ok_cong) simp_all
  then have "ring_inv (snd (take_byte_cap_trip r))"
    using 4(2) by (simp add: ring_inv_def take_byte_cap_trip_def)
  then show ?case using 4(1) by simp
qed simp

lemma inv_ring_new: "ring_inv (ring_new d)"
  by (simp add: ring_inv_def ring_new_def)

lemma suffix_ring_run:
  "suffix (snapshot (snd (ring_run ops r))) (snapshot r @ fst (ring_run ops r))"
proof (induction ops r rule: ring_run.induct)
  case (2 s ops r)
  let ?r = "snd (push s r)" and ?s = "fst (push s r)"
  have "suffix (snapshot (snd (ring_run ops ?r))) (snapshot ?r @ fst (ring_run ops ?r))"
    using "2.IH" [of "push s r" ?s ?r] by simp
  moreover have "suffix (snapshot ?r @ fst (ring_run ops ?r))
      ((snapshot r @ [?s]) @ fst (ring_run ops ?r))"
    using suffix_push [of s r] by (simp only: same_suffix_suffix)
  ultimately have "suffix (snapshot (snd (ring_run ops ?r)))
      ((snapshot r @ [?s]) @ fst (ring_run ops ?r))" by (rule suffix_order.trans)
  then show ?case by (simp add: case_prod_beta Let_def)
next
  case (3 ops r)
  then show ?case by (simp add: suffix_appendI)
next
  case (4 ops r)
  have "snapshot (snd (take_byte_cap_trip r)) = snapshot r"
    by (simp add: snapshot_def take_byte_cap_trip_def)
  with 4 show ?case by simp
qed simp

lemma snapshot_of_inv:
  assumes "ring_inv r"
  shows "snapshot r = [] \<or> is_keyframe (hd (snapshot r))"
    "list_all (\<lambda>s. sample_epoch s = ring_epoch r) (snapshot r)"
    "ring_bytes r = sum_list (map (\<lambda>s. length (nal_data s)) (snapshot r))"
    "sample_count r = length (snapshot r)"
proof -
  show "snapshot r = [] \<or> is_keyframe (hd (snapshot r))"
  proof (cases "gops r")
    case (Cons g gs)
    with assms have "gop_ok g" by (simp add: ring_inv_def)
    then show ?thesis
      by (auto simp: snapshot_def Cons gop_ok_def split: list.splits)
  qed (simp add: snapshot_def)
  show "list_all (\<lambda>s. sample_epoch s = ring_epoch r) (snapshot r)"
    using assms by (auto simp: ring_inv_def snapshot_def list_all_iff sample_ok_def)
  have "sum_list (map gop_bytes gs) = sum_list (map (\<lambda>s. length (nal_data s)) (concat (map samples gs)))"
    for gs by (induction gs) (simp_all add: gop_bytes_def)
  with assms show "ring_bytes r = sum_list (map (\<lambda>s. length (nal_data s)) (snapshot r))"
    by (simp add: ring_inv_def snapshot_def)
  show "sample_count r = length (snapshot r)"
    by (simp add: sample_count_def snapshot_def length_concat comp_def)
qed

text \<open>
  C37. Whatever the ingester pushes, and whenever it begins epochs or takes the
  byte-cap report, the snapshot of the ring is a gap-free tail of what was
  broadcast: it starts at a keyframe (or is empty), all its samples carry the
  ring's current epoch, and the byte counter is exactly the payload it holds.
\<close>

theorem snapshot_splices_into_stream:
  "let (out, r) = ring_run ops (ring_new d) in
   suffix (snapshot r) out \<and>
   (snapshot r = [] \<or> is_keyframe (hd (snapshot r))) \<and>
   list_all (\<lambda>s. sample_epoch s = ring_epoch r) (snapshot r) \<and>
   ring_bytes r = sum_list (map (\<lambda>s. length (nal_data s)) (snapshot r)) \<and>
   sample_count r = length (snapshot r)"
proof -
  have "ring_inv (snd (ring_run ops (ring_new d)))"
    by (intro inv_ring_run inv_ring_new)
  note inv = snapshot_of_inv [OF this]
  have "snapshot (ring_new d) = []" by (simp add: snapshot_def ring_new_def)
  with suffix_ring_run [of ops "ring_new d"]
  have "suffix (snapshot (snd (ring_run ops (ring_new d)))) (fst (ring_run ops (ring_new d)))"
    by simp
  with inv show ?thesis by (simp add: case_prod_beta Let_def)
qed

section \<open>The duration window and the byte cap\<close>

text \<open>GOPs whose starting PTS are known and do not go backwards.\<close>

definition gops_ordered :: "gop list \<Rightarrow> bool" where
  "gops_ordered gs =
     (list_all (\<lambda>g. first_pts g \<noteq> None) gs \<and> sorted (map (\<lambda>g. the (first_pts g)) gs))"

definition within_window :: "duration \<Rightarrow> nal_ring \<Rightarrow> bool" where
  "within_window newest r =
     (length (gops r) > 1 \<longrightarrow> newest - the (first_pts (hd (gops r))) \<le> max_duration r)"

lemma ordered_suffix: "gops_ordered gs \<Longrightarrow> suffix gs' gs \<Longrightarrow> gops_ordered gs'"
  by (auto simp: gops_ordered_def suffix_def sorted_append)

lemma trim_loop_window:
  "list_all (\<lambda>g. first_pts g \<noteq> None) (gops r) \<Longrightarrow> within_window newest (trim_loop newest r)"
proof (induction newest r rule: trim_loop.induct)
  case (1 newest r)
  show ?case
  proof (cases "length (gops r) > 1")
    case False
    then show ?thesis by (simp add: trim_loop.simps [of newest r] within_window_def)
  next
    case True
    then obtain g h gs where g: "gops r = g # h # gs"
      by (cases "gops r" rule: list.exhaust [case_product list.exhaust]) (auto, metis list.exhaust)
    from "1.prems" obtain f s where fs: "first_pts g = Some f" "first_pts h = Some s"
      by (auto simp: g)
    have pop: "gops (pop_front_gop r) = h # gs" "max_duration (pop_front_gop r) = max_duration r"
      by (simp_all add: pop_front_gop_def g)
    show ?thesis
    proof (cases "newest - s > max_duration r")
      case over: True
      then have "within_window newest (trim_loop newest (pop_front_gop r))"
        using 1 True by (simp add: g fs pop)
      then show ?thesis using over by (simp add: trim_loop.simps [of newest r] g fs)
    next
      case False
      then show ?thesis
        by (simp add: trim_loop.simps [of newest r] g fs within_window_def pop)
    qed
  qed
qed

lemma trim_window:
  assumes "newest_pts r = Some n" "gops_ordered (gops r)"
  shows "within_window n (trim r)"
  using assms trim_loop_window [of r n] by (simp add: trim_def gops_ordered_def)

lemma suffix_window:
  assumes "gops_ordered (gops r)" "within_window newest r"
    "suffix (gops r') (gops r)" "max_duration r' = max_duration r"
  shows "within_window newest r'"
  unfolding within_window_def
proof
  assume l: "length (gops r') > 1"
  obtain ys where ys: "gops r = ys @ gops r'" using assms(3) by (auto simp: suffix_def)
  obtain g gs where g: "gops r' = g # gs" using l by (cases "gops r'") auto
  have "the (first_pts (hd (gops r))) \<le> the (first_pts g)"
    using assms(1) by (cases ys) (auto simp: gops_ordered_def ys g)
  then show "newest - the (first_pts (hd (gops r'))) \<le> max_duration r'"
    using assms(2,4) l by (simp add: within_window_def ys g)
qed

text \<open>The next sample continues the ring's timeline: a keyframe carries a PTS that
  does not precede the keyframes already held.\<close>

definition in_order :: "nal_sample \<Rightarrow> nal_ring \<Rightarrow> bool" where
  "in_order s r =
     (is_keyframe s \<longrightarrow>
        (case pts s of
           None \<Rightarrow> False
         | Some p \<Rightarrow> list_all (\<lambda>g. the (first_pts g) \<le> p) (gops r)))"

lemma find_map_append:
  "find_map f xs = Some y \<Longrightarrow> find_map f (xs @ ys) = Some y"
  by (induction xs) (auto split: option.splits)

lemma ordered_append_sample:
  assumes "gops_ordered (gops r)" "in_order s r"
  shows "gops_ordered (gops (append_sample s r))"
proof -
  consider (key) "is_keyframe s" | (drop) "\<not> is_keyframe s" "gops r = []"
    | (delta) "\<not> is_keyframe s" "gops r \<noteq> []" by blast
  then show ?thesis
  proof cases
    case key
    obtain p where p: "pts s = Some p" "list_all (\<lambda>g. the (first_pts g) \<le> p) (gops r)"
      using key assms(2) by (auto simp: in_order_def split: option.splits)
    have "set (gops (trim r)) \<subseteq> set (gops r)"
      using by_duration.suffix_gops by (rule set_mono_suffix)
    moreover have "first_pts (gop_new s) = Some p" by (simp add: first_pts_def gop_new_def p)
    ultimately show ?thesis
      using ordered_suffix [OF assms(1) by_duration.suffix_gops] p(2)
      by (auto simp: append_keyframe_gops key gops_ordered_def sorted_append list_all_iff)
  next
    case drop
    with assms show ?thesis by (simp add: append_sample_def)
  next
    case delta
    obtain gs g where g: "gops r = gs @ [g]" using delta(2) by (cases "gops r" rule: rev_cases) auto
    obtain p where p: "first_pts g = Some p" using assms(1) by (auto simp: gops_ordered_def g)
    then have "first_pts (g\<lparr>samples := samples g @ [s]\<rparr>) = Some p"
      by (simp add: first_pts_def find_map_append)
    with assms(1) p show ?thesis
      by (simp add: append_delta_gops delta g gops_ordered_def sorted_append)
  qed
qed

lemma in_order_cong: "is_keyframe s' = is_keyframe s \<Longrightarrow> pts s' = pts s \<Longrightarrow> gops r' = gops r \<Longrightarrow>
  in_order s' r' = in_order s r"
  by (simp add: in_order_def split: option.split)

lemma window_buffered:
  assumes "list_all (\<lambda>g. first_pts g \<noteq> None) (gops r)"
    "\<And>n. newest_pts r = Some n \<Longrightarrow> within_window n r"
  shows "gop_count r \<le> 1 \<or> buffered_duration r \<le> max_duration r"
proof (cases "gops r")
  case (Cons g gs)
  with assms(1) obtain f where f: "first_pts g = Some f" by auto
  show ?thesis
    using assms(2)
    by (auto simp: buffered_duration_def oldest_pts_def Cons f gop_count_def within_window_def
             split: option.split)
qed (simp add: gop_count_def)

text \<open>
  A push on a timeline whose keyframes carry non-decreasing PTS leaves a
  single GOP, or a ring within both bounds: no more than \<open>max_duration\<close> between
  its oldest and newest PTS and no more than \<open>max_bytes\<close> of payload.  The order
  of the keyframes is kept, so the next push is bounded too, and a keyframe just
  pushed is never trimmed away.
\<close>

lemma push_within_window:
  assumes "gops_ordered (gops r)" and "in_order s r"
  shows "let r' = snd (push s r) in
     gops_ordered (gops r') \<and>
     (gop_count r' \<le> 1 \<or>
      buffered_duration r' \<le> max_duration r \<and> ring_bytes r' \<le> max_bytes r) \<and>
     (is_keyframe s \<longrightarrow> fst (push s r) \<in> set (snapshot r'))"
proof -
  let ?s = "fst (push s r)" and ?r0 = "if timeline_reset s r then begin_epoch r else r"
  let ?r1 = "append_sample ?s (note_pts ?s ?r0)"
  let ?r2 = "trim ?r1" let ?r' = "trim_bytes ?r2"
  have r': "snd (push s r) = ?r'" by (rule push_result(2))
  have "in_order s ?r0" using assms(2) by (simp add: in_order_def split: option.splits)
  moreover have "is_keyframe ?s = is_keyframe s" "pts ?s = pts s" by (simp_all add: push_result(1))
  ultimately have "in_order ?s (note_pts ?s ?r0)" using in_order_cong note_pts_keeps(1) by blast
  moreover have "gops_ordered (gops (note_pts ?s ?r0))"
    using assms(1) by (simp add: gops_ordered_def)
  ultimately have o1: "gops_ordered (gops ?r1)" by (intro ordered_append_sample)
  have o2: "gops_ordered (gops ?r2)" using o1 by_duration.suffix_gops by (rule ordered_suffix)
  have o3: "gops_ordered (gops ?r')" using o2 by_bytes.suffix_gops by (rule ordered_suffix)
  have w: "within_window n ?r'" if n: "newest_pts ?r' = Some n" for n
  proof -
    have "newest_pts ?r1 = Some n" using n by (simp only: by_duration.keeps by_bytes.keeps)
    then have "within_window n ?r2" using o1 by (rule trim_window)
    with o2 show ?thesis using by_bytes.suffix_gops by_bytes.keeps(3) by (rule suffix_window)
  qed
  have md: "max_duration ?r' = max_duration r" "max_bytes ?r' = max_bytes r"
    by (simp_all add: by_duration.keeps by_bytes.keeps)
  have "gop_count ?r' \<le> 1 \<or> buffered_duration ?r' \<le> max_duration r"
    using window_buffered [OF _ w] o3 md by (simp add: gops_ordered_def)
  moreover have "gop_count ?r' \<le> 1 \<or> ring_bytes ?r' \<le> max_bytes r"
    using trim_bytes_bound [of ?r2] md by (auto simp: gop_count_def)
  moreover have "?s \<in> set (snapshot ?r')" if k: "is_keyframe s"
  proof -
    have ne: "gops ?r1 \<noteq> []" "last (gops ?r1) = gop_new ?s"
      using k by (simp_all add: append_keyframe_gops push_result(1))
    then have "gops ?r' \<noteq> []" "last (gops ?r') = gop_new ?s"
      by (simp_all add: by_duration.never_empties by_bytes.never_empties
            by_duration.keeps_last by_bytes.keeps_last)
    then show ?thesis by (cases "gops ?r'" rule: rev_cases) (simp_all add: snapshot_def gop_new_def)
  qed
  ultimately show ?thesis using o3 unfolding r' Let_def by blast
qed

definition frame :: "duration \<Rightarrow> bool \<Rightarrow> nal_sample" where
  "frame t k = \<lparr>pts = Some t, dts = Some t, is_keyframe = k, nal_data = [0, 0, 1], sample_epoch = 0\<rparr>"

definition demo_ring :: nal_ring where
  "demo_ring = (ring_new 5)\<lparr>
     gops := [\<lparr>samples = [frame 1 True, frame 3 False]\<rparr>, \<lparr>samples = [frame 4 True]\<rparr>],
     newest_pts := Some 4, ring_bytes := 9\<rparr>"

text \<open>
  A PTS step back beyond the window (and beyond two seconds) starts a new
  timeline: nothing of the old one survives in the ring, the sample carries the
  next epoch, and the trim watermark is the new PTS, so the ring does not freeze
  on the old clock.
\<close>

lemma push_restarts_timeline:
  assumes "pts s = Some p" and "newest_pts r = Some n"
    and "n - p > max (max_duration r) MIN_DISCONTINUITY"
  shows "let (stamped, r') = push s r in
     stamped = s\<lparr>sample_epoch := ring_epoch r + 1\<rparr> \<and>
     ring_epoch r' = ring_epoch r + 1 \<and> newest_pts r' = Some p \<and>
     snapshot r' = (if is_keyframe s then [stamped] else [])"
proof -
  let ?s = "s\<lparr>sample_epoch := ring_epoch r + 1\<rparr>"
  let ?r1 = "append_sample ?s (note_pts ?s (begin_epoch r))"
  have reset: "timeline_reset s r" using assms by (simp add: timeline_reset_def)
  then have eq: "push s r = (?s, trim_bytes (trim ?r1))"
    by (simp add: push_def Let_def)
  have "gops (trim (note_pts ?s (begin_epoch r))) = []" by (simp add: by_duration.never_empties)
  then have "gops ?r1 = (if is_keyframe s then [gop_new ?s] else [])"
    by (simp add: append_sample_def Let_def)
  moreover have "gops (trim_bytes (trim ?r1)) = gops ?r1"
    using calculation by (simp add: by_bytes.keeps_single by_duration.keeps_single)
  ultimately have "snapshot (trim_bytes (trim ?r1)) = (if is_keyframe s then [?s] else [])"
    by (simp add: snapshot_def gop_new_def)
  moreover have "newest_pts ?r1 = Some p" by (simp add: note_pts_def assms(1))
  ultimately show ?thesis by (simp add: eq by_duration.keeps by_bytes.keeps)
qed

end
