(* ===== verification/Users.thy ===== *)
theory Users
  imports Prelude "HOL-Library.List_Lexorder"
begin

text \<open>
  The local-user table of \<open>nexus-store\<close> (\<open>users.rs\<close> with the schema of
  migration \<open>0010_local_users.sql\<close>) and the roles of \<open>nexus-types\<close>.  A table is
  a list of rows and the next \<open>AUTOINCREMENT\<close> id; every operation of the store
  is a function that returns its result and the new table, with the clock that
  SQLite (or \<open>Utc::now\<close>) reads as its first argument.  The \<open>UNIQUE\<close> indices and
  the \<open>CHECK\<close>s of the schema are the guards that make a statement fail; they
  are the invariant \<open>users_inv\<close>.  The central lemmas show that the invariant
  holds along every run of operations and that the last active admin cannot be
  removed.  I/O failures of the database are not modelled.
\<close>

section \<open>Roles\<close>

datatype role = Admin | Operator | Viewer

fun role_as_str :: "role \<Rightarrow> string" where
  "role_as_str Admin = ''admin''"
| "role_as_str Operator = ''operator''"
| "role_as_str Viewer = ''viewer''"

fun level :: "role \<Rightarrow> u32" where
  "level Admin = 100"
| "level Operator = 50"
| "level Viewer = 10"

definition satisfies :: "role \<Rightarrow> role \<Rightarrow> bool" where
  "satisfies r required = (level r \<ge> level required)"

definition all_roles :: "role list" where
  "all_roles = [Viewer, Operator, Admin]"

section \<open>The table\<close>

record user_row =
  uid :: int
  username :: string
  password_hash :: "string option"
  oidc_subject :: "string option"
  user_role :: role
  force_password_reset :: bool
  disabled :: bool
  failed_login_count :: int
  locked_until :: "instant option"
  last_login_at :: "instant option"
  last_failed_login_at :: "instant option"
  user_created_at :: instant
  updated_at :: instant
  deleted_at :: "instant option"

record users_db =
  users :: "user_row list"
  next_user_id :: int

record new_user =
  nu_username :: string
  nu_role :: role
  nu_password_hash :: "string option"
  nu_oidc_subject_hash :: "string option"
  nu_force_password_reset :: bool

datatype users_error =
  Users_Store | Username_Taken | Oidc_Subject_Taken | User_Not_Found | No_Auth_Method | Last_Admin

text \<open>SQLite's \<open>NOCASE\<close> collation folds ASCII letters only.\<close>

definition nocase_eq :: "string \<Rightarrow> string \<Rightarrow> bool" where
  "nocase_eq a b = (to_ascii_uppercase a = to_ascii_uppercase b)"

definition is_active_admin :: "user_row \<Rightarrow> bool" where
  "is_active_admin u = (user_role u = Admin \<and> deleted_at u = None \<and> \<not> disabled u)"

subsection \<open>Queries\<close>

definition get_user_by_username :: "string \<Rightarrow> users_db \<Rightarrow> user_row option" where
  "get_user_by_username n db = find (\<lambda>u. nocase_eq (username u) n \<and> deleted_at u = None) (users db)"

definition get_user_by_id :: "int \<Rightarrow> users_db \<Rightarrow> user_row option" where
  "get_user_by_id i db = find (\<lambda>u. uid u = i) (users db)"

definition get_user_by_oidc_subject :: "string \<Rightarrow> users_db \<Rightarrow> user_row option" where
  "get_user_by_oidc_subject h db =
     find (\<lambda>u. oidc_subject u = Some h \<and> deleted_at u = None) (users db)"

definition get_password_hash_for_login :: "string \<Rightarrow> users_db \<Rightarrow> (int \<times> string) option" where
  "get_password_hash_for_login n db =
     map_option (\<lambda>u. (uid u, the (password_hash u)))
       (find (\<lambda>u. nocase_eq (username u) n \<and> deleted_at u = None \<and> password_hash u \<noteq> None)
         (users db))"

text \<open>\<open>ORDER BY username COLLATE NOCASE\<close>, tombstones last.\<close>

definition nocase_key :: "user_row \<Rightarrow> nat list" where
  "nocase_key u = map of_char (to_ascii_lowercase (username u))"

definition list_users :: "bool \<Rightarrow> users_db \<Rightarrow> user_row list" where
  "list_users include_deleted db =
     sort_key nocase_key (filter (\<lambda>u. deleted_at u = None) (users db))
     @ (if include_deleted then sort_key nocase_key (filter (\<lambda>u. deleted_at u \<noteq> None) (users db)) else [])"

definition count_users :: "users_db \<Rightarrow> nat" where
  "count_users db = length (users db)"

definition count_active_admins :: "users_db \<Rightarrow> nat" where
  "count_active_admins db = length (filter is_active_admin (users db))"

definition read_user_for_update :: "int \<Rightarrow> users_db \<Rightarrow> users_error + user_row" where
  "read_user_for_update i db =
     (case find (\<lambda>u. uid u = i \<and> deleted_at u = None) (users db) of
        None \<Rightarrow> Inl User_Not_Found
      | Some u \<Rightarrow> Inr u)"

subsection \<open>Statements\<close>

definition update_where :: "(user_row \<Rightarrow> bool) \<Rightarrow> (user_row \<Rightarrow> user_row) \<Rightarrow> users_db \<Rightarrow> users_db" where
  "update_where P f db = db\<lparr>users := map (\<lambda>u. if P u then f u else u) (users db)\<rparr>"

definition insert_violates :: "new_user \<Rightarrow> users_db \<Rightarrow> bool" where
  "insert_violates new db =
     list_ex (\<lambda>u. nocase_eq (username u) (nu_username new) \<or>
                  nu_oidc_subject_hash new \<noteq> None \<and> oidc_subject u = nu_oidc_subject_hash new)
       (users db)"

definition create_user :: "instant \<Rightarrow> new_user \<Rightarrow> users_db \<Rightarrow> (users_error + int) \<times> users_db" where
  "create_user ts new db =
     (if nu_password_hash new = None \<and> nu_oidc_subject_hash new = None
      then (Inl No_Auth_Method, db)
      else if insert_violates new db
      then (case nu_oidc_subject_hash new of
              Some h \<Rightarrow> if get_user_by_oidc_subject h db \<noteq> None
                        then (Inl Oidc_Subject_Taken, db) else (Inl Username_Taken, db)
            | None \<Rightarrow> (Inl Username_Taken, db))
      else (Inr (next_user_id db),
            db\<lparr>users := users db @
                 [\<lparr>uid = next_user_id db, username = nu_username new,
                   password_hash = nu_password_hash new, oidc_subject = nu_oidc_subject_hash new,
                   user_role = nu_role new, force_password_reset = nu_force_password_reset new,
                   disabled = False, failed_login_count = 0, locked_until = None,
                   last_login_at = None, last_failed_login_at = None, user_created_at = ts,
                   updated_at = ts, deleted_at = None\<rparr>],
               next_user_id := next_user_id db + 1\<rparr>))"

definition update_user_role ::
  "instant \<Rightarrow> int \<Rightarrow> role \<Rightarrow> users_db \<Rightarrow> (users_error + unit) \<times> users_db" where
  "update_user_role ts i new_role db =
     (case read_user_for_update i db of
        Inl e \<Rightarrow> (Inl e, db)
      | Inr current \<Rightarrow>
          if user_role current = Admin \<and> new_role \<noteq> Admin \<and> count_active_admins db \<le> 1
          then (Inl Last_Admin, db)
          else (Inr (),
                update_where (\<lambda>u. uid u = i) (\<lambda>u. u\<lparr>user_role := new_role, updated_at := ts\<rparr>) db))"

definition set_user_disabled ::
  "instant \<Rightarrow> int \<Rightarrow> bool \<Rightarrow> users_db \<Rightarrow> (users_error + unit) \<times> users_db" where
  "set_user_disabled ts i d db =
     (case read_user_for_update i db of
        Inl e \<Rightarrow> (Inl e, db)
      | Inr current \<Rightarrow>
          if d \<and> \<not> disabled current \<and> user_role current = Admin \<and> count_active_admins db \<le> 1
          then (Inl Last_Admin, db)
          else (Inr (), update_where (\<lambda>u. uid u = i) (\<lambda>u. u\<lparr>disabled := d, updated_at := ts\<rparr>) db))"

definition update_user_password ::
  "instant \<Rightarrow> int \<Rightarrow> string \<Rightarrow> bool \<Rightarrow> users_db \<Rightarrow> (users_error + unit) \<times> users_db" where
  "update_user_password ts i phc force db =
     (if list_ex (\<lambda>u. uid u = i \<and> deleted_at u = None) (users db)
      then (Inr (),
            update_where (\<lambda>u. uid u = i \<and> deleted_at u = None)
              (\<lambda>u. u\<lparr>password_hash := Some phc, force_password_reset := force, updated_at := ts\<rparr>) db)
      else (Inl User_Not_Found, db))"

definition set_user_oidc_subject ::
  "instant \<Rightarrow> int \<Rightarrow> string \<Rightarrow> users_db \<Rightarrow> (users_error + unit) \<times> users_db" where
  "set_user_oidc_subject ts i h db =
     (if \<not> list_ex (\<lambda>u. uid u = i \<and> deleted_at u = None) (users db) then (Inl User_Not_Found, db)
      else if list_ex (\<lambda>u. uid u \<noteq> i \<and> oidc_subject u = Some h) (users db)
      then (Inl Oidc_Subject_Taken, db)
      else (Inr (),
            update_where (\<lambda>u. uid u = i \<and> deleted_at u = None)
              (\<lambda>u. u\<lparr>oidc_subject := Some h, updated_at := ts\<rparr>) db))"

definition record_login_success :: "instant \<Rightarrow> int \<Rightarrow> users_db \<Rightarrow> users_db" where
  "record_login_success ts i db =
     update_where (\<lambda>u. uid u = i)
       (\<lambda>u. u\<lparr>last_login_at := Some ts, failed_login_count := 0, locked_until := None,
              updated_at := ts\<rparr>) db"

definition record_login_failure ::
  "instant \<Rightarrow> int \<Rightarrow> int \<Rightarrow> instant option \<Rightarrow> users_db \<Rightarrow> (users_error + unit) \<times> users_db" where
  "record_login_failure ts i new_count lock_until db =
     (if new_count < 0 \<and> list_ex (\<lambda>u. uid u = i) (users db) then (Inl Users_Store, db)
      else (Inr (),
            update_where (\<lambda>u. uid u = i)
              (\<lambda>u. u\<lparr>failed_login_count := new_count, last_failed_login_at := Some ts,
                     locked_until := lock_until, updated_at := ts\<rparr>) db))"

definition clear_lockout :: "instant \<Rightarrow> int \<Rightarrow> users_db \<Rightarrow> (users_error + unit) \<times> users_db" where
  "clear_lockout ts i db =
     (if list_ex (\<lambda>u. uid u = i) (users db)
      then (Inr (),
            update_where (\<lambda>u. uid u = i)
              (\<lambda>u. u\<lparr>failed_login_count := 0, locked_until := None, updated_at := ts\<rparr>) db)
      else (Inl User_Not_Found, db))"

text \<open>\<open>fmt\<close> is \<open>chrono\<close>'s \<open>format("%Y%m%dT%H%M%S%.3fZ")\<close>.\<close>

definition tombstone_name :: "(instant \<Rightarrow> string) \<Rightarrow> int \<Rightarrow> instant \<Rightarrow> string" where
  "tombstone_name fmt i now = dec_int i @ '':deleted-'' @ fmt now"

definition soft_delete_user ::
  "(instant \<Rightarrow> string) \<Rightarrow> instant \<Rightarrow> int \<Rightarrow> users_db \<Rightarrow> (users_error + unit) \<times> users_db" where
  "soft_delete_user fmt now i db =
     (case read_user_for_update i db of
        Inl e \<Rightarrow> (Inl e, db)
      | Inr current \<Rightarrow>
          if user_role current = Admin \<and> count_active_admins db \<le> 1 then (Inl Last_Admin, db)
          else if list_ex (\<lambda>u. uid u \<noteq> i \<and> nocase_eq (username u) (tombstone_name fmt i now)) (users db)
          then (Inl Users_Store, db)
          else (Inr (),
                update_where (\<lambda>u. uid u = i \<and> deleted_at u = None)
                  (\<lambda>u. u\<lparr>username := tombstone_name fmt i now, disabled := True,
                         deleted_at := Some now, updated_at := now\<rparr>) db))"

subsection \<open>Runs of operations\<close>

datatype user_op =
  Create_User new_user
| Update_Role int role
| Set_Disabled int bool
| Update_Password int string bool
| Set_Oidc_Subject int string
| Login_Success int
| Login_Failure int int "instant option"
| Clear_Lockout int
| Soft_Delete int

fun user_exec :: "(instant \<Rightarrow> string) \<Rightarrow> instant \<times> user_op \<Rightarrow> users_db \<Rightarrow> users_db" where
  "user_exec fmt (ts, Create_User new) db = snd (create_user ts new db)"
| "user_exec fmt (ts, Update_Role i r) db = snd (update_user_role ts i r db)"
| "user_exec fmt (ts, Set_Disabled i d) db = snd (set_user_disabled ts i d db)"
| "user_exec fmt (ts, Update_Password i phc force) db = snd (update_user_password ts i phc force db)"
| "user_exec fmt (ts, Set_Oidc_Subject i h) db = snd (set_user_oidc_subject ts i h db)"
| "user_exec fmt (ts, Login_Success i) db = record_login_success ts i db"
| "user_exec fmt (ts, Login_Failure i n l) db = snd (record_login_failure ts i n l db)"
| "user_exec fmt (ts, Clear_Lockout i) db = snd (clear_lockout ts i db)"
| "user_exec fmt (ts, Soft_Delete i) db = snd (soft_delete_user fmt ts i db)"

section \<open>The schema invariant\<close>

definition row_ok :: "user_row \<Rightarrow> bool" where
  "row_ok u = ((password_hash u \<noteq> None \<or> oidc_subject u \<noteq> None) \<and> failed_login_count u \<ge> 0)"

definition clash :: "user_row \<Rightarrow> user_row \<Rightarrow> bool" where
  "clash u v = (nocase_eq (username u) (username v) \<or>
                oidc_subject u \<noteq> None \<and> oidc_subject u = oidc_subject v)"

definition users_inv :: "users_db \<Rightarrow> bool" where
  "users_inv db =
     (distinct (map uid (users db)) \<and> list_all (\<lambda>u. uid u < next_user_id db) (users db) \<and>
      list_all row_ok (users db) \<and>
      (\<forall>u \<in> set (users db). \<forall>v \<in> set (users db). clash u v \<longrightarrow> uid u = uid v))"

lemma users_update_where [simp]:
  "users (update_where P f db) = map (\<lambda>u. if P u then f u else u) (users db)"
  "next_user_id (update_where P f db) = next_user_id db"
  by (simp_all add: update_where_def)

lemma inv_map:
  assumes "users_inv db" "\<And>u. uid (g u) = uid u" "\<And>u. row_ok u \<Longrightarrow> row_ok (g u)"
    "\<And>u v. u \<in> set (users db) \<Longrightarrow> v \<in> set (users db) \<Longrightarrow> clash (g u) (g v) \<Longrightarrow> uid u = uid v"
    "users db' = map g (users db)" "next_user_id db' = next_user_id db"
  shows "users_inv db'"
proof -
  have "map uid (users db') = map uid (users db)" by (simp add: assms(2,5))
  then have "distinct (map uid (users db'))" using assms(1) by (simp add: users_inv_def)
  moreover have "list_all (\<lambda>u. uid u < next_user_id db') (users db')" "list_all row_ok (users db')"
    using assms(1,3) by (auto simp: users_inv_def list_all_iff assms(2,5,6))
  moreover have "\<forall>u \<in> set (users db'). \<forall>v \<in> set (users db'). clash u v \<longrightarrow> uid u = uid v"
    using assms(4) by (auto simp: assms(2,5))
  ultimately show ?thesis by (simp add: users_inv_def)
qed

text \<open>An update that touches neither the id nor a \<open>UNIQUE\<close> column.\<close>

lemma inv_update_where:
  assumes "users_inv db"
    and "\<And>u. uid (f u) = uid u \<and> username (f u) = username u \<and> oidc_subject (f u) = oidc_subject u"
    and "\<And>u. row_ok u \<Longrightarrow> row_ok (f u)"
  shows "users_inv (update_where P f db)"
proof (rule inv_map [OF assms(1), where g = "\<lambda>u. if P u then f u else u"])
  fix u v
  assume "u \<in> set (users db)" "v \<in> set (users db)"
    "clash (if P u then f u else u) (if P v then f v else v)"
  moreover have "clash (if P u then f u else u) (if P v then f v else v) = clash u v"
    by (simp add: clash_def assms(2))
  ultimately show "uid u = uid v" using assms(1) by (simp add: users_inv_def)
qed (simp_all add: assms(2,3))

text \<open>An update of one row's \<open>UNIQUE\<close> columns, checked against every other row.\<close>

lemma inv_update_unique:
  assumes inv: "users_inv db"
    and id: "\<And>u. uid (f u) = uid u" and ok: "\<And>u. row_ok u \<Longrightarrow> row_ok (f u)"
    and P: "\<And>u. P u \<Longrightarrow> uid u = i"
    and free: "\<And>u v. u \<in> set (users db) \<Longrightarrow> v \<in> set (users db) \<Longrightarrow> P u \<Longrightarrow> uid v \<noteq> i \<Longrightarrow>
      \<not> clash (f u) v \<and> \<not> clash v (f u)"
  shows "users_inv (update_where P f db)"
proof (rule inv_map [OF inv, where g = "\<lambda>u. if P u then f u else u"])
  fix u v
  assume u: "u \<in> set (users db)" and v: "v \<in> set (users db)"
    and c: "clash (if P u then f u else u) (if P v then f v else v)"
  show "uid u = uid v"
  proof (rule ccontr)
    assume ne: "uid u \<noteq> uid v"
    consider "\<not> P u" "\<not> P v" | "P u" "\<not> P v" | "P v" "\<not> P u"
      using P ne by metis
    then show False
    proof cases
      case 1
      with c u v ne inv show False by (simp add: users_inv_def)
    next
      case 2
      with free [OF u v] P ne c show False by auto
    next
      case 3
      with free [OF v u] P ne c show False by auto
    qed
  qed
qed (simp_all add: id ok)

lemma find_member: "find P xs = Some x \<Longrightarrow> x \<in> set xs \<and> P x"
  by (metis find_Some_iff nth_mem)

lemma inv_create_user:
  assumes "users_inv db"
  shows "users_inv (snd (create_user ts new db))"
proof (cases "(nu_password_hash new = None \<and> nu_oidc_subject_hash new = None) \<or> insert_violates new db")
  case True
  then show ?thesis using assms by (auto simp: create_user_def split: option.split)
next
  case False
  define row where "row =
    \<lparr>uid = next_user_id db, username = nu_username new,
     password_hash = nu_password_hash new, oidc_subject = nu_oidc_subject_hash new,
     user_role = nu_role new, force_password_reset = nu_force_password_reset new,
     disabled = False, failed_login_count = 0, locked_until = None,
     last_login_at = None, last_failed_login_at = None, user_created_at = ts,
     updated_at = ts, deleted_at = None\<rparr>"
  have eq: "snd (create_user ts new db) =
      db\<lparr>users := users db @ [row], next_user_id := next_user_id db + 1\<rparr>"
    using False by (simp add: create_user_def row_def)
  have free: "\<not> clash u row \<and> \<not> clash row u" if "u \<in> set (users db)" for u
    using False that
    by (auto simp: insert_violates_def clash_def row_def list_ex_iff nocase_eq_def)
  have row: "row_ok row" "uid row = next_user_id db" using False by (auto simp: row_ok_def row_def)
  have "next_user_id db \<notin> uid ` set (users db)" using assms by (auto simp: users_inv_def list_all_iff)
  then show ?thesis
    unfolding eq using assms free row
    by (auto simp: users_inv_def list_all_iff)
qed


lemma inv_set_oidc:
  assumes "users_inv db"
  shows "users_inv (snd (set_user_oidc_subject ts i h db))"
proof (cases "list_ex (\<lambda>u. uid u = i \<and> deleted_at u = None) (users db) \<and>
    \<not> list_ex (\<lambda>u. uid u \<noteq> i \<and> oidc_subject u = Some h) (users db)")
  case True
  have "users_inv (update_where (\<lambda>u. uid u = i \<and> deleted_at u = None)
      (\<lambda>u. u\<lparr>oidc_subject := Some h, updated_at := ts\<rparr>) db)"
  proof (rule inv_update_unique [OF assms, where i = i])
    fix u v
    assume u: "u \<in> set (users db)" and v: "v \<in> set (users db)"
      and "uid u = i \<and> deleted_at u = None" and "uid v \<noteq> i"
    then have "\<not> clash u v \<and> \<not> clash v u" using assms by (auto simp: users_inv_def)
    moreover have "oidc_subject v \<noteq> Some h" using True v \<open>uid v \<noteq> i\<close> by (auto simp: list_ex_iff)
    ultimately show "\<not> clash (u\<lparr>oidc_subject := Some h, updated_at := ts\<rparr>) v \<and>
        \<not> clash v (u\<lparr>oidc_subject := Some h, updated_at := ts\<rparr>)"
      by (auto simp: clash_def)
  qed (auto simp: row_ok_def)
  with True show ?thesis by (simp add: set_user_oidc_subject_def)
next
  case False
  then show ?thesis using assms by (auto simp: set_user_oidc_subject_def)
qed

lemma inv_soft_delete:
  assumes "users_inv db"
  shows "users_inv (snd (soft_delete_user fmt now i db))"
proof (cases "fst (soft_delete_user fmt now i db)")
  case (Inl e)
  then have "snd (soft_delete_user fmt now i db) = db"
    by (auto simp: soft_delete_user_def split: sum.splits if_splits)
  with assms show ?thesis by simp
next
  case (Inr r)
  let ?f = "\<lambda>u. u\<lparr>username := tombstone_name fmt i now, disabled := True,
      deleted_at := Some now, updated_at := now\<rparr>"
  have eq: "snd (soft_delete_user fmt now i db) =
        update_where (\<lambda>u. uid u = i \<and> deleted_at u = None) ?f db"
    and free: "\<not> list_ex (\<lambda>u. uid u \<noteq> i \<and> nocase_eq (username u) (tombstone_name fmt i now)) (users db)"
    using Inr by (auto simp: soft_delete_user_def split: sum.splits if_splits)
  have "users_inv (update_where (\<lambda>u. uid u = i \<and> deleted_at u = None) ?f db)"
  proof (rule inv_update_unique [OF assms, where i = i])
    fix u v
    assume u: "u \<in> set (users db)" and v: "v \<in> set (users db)"
      and "uid u = i \<and> deleted_at u = None" and "uid v \<noteq> i"
    then have "\<not> clash u v \<and> \<not> clash v u" using assms by (auto simp: users_inv_def)
    moreover have "\<not> nocase_eq (username v) (tombstone_name fmt i now)"
      using free v \<open>uid v \<noteq> i\<close> by (auto simp: list_ex_iff)
    ultimately show "\<not> clash (?f u) v \<and> \<not> clash v (?f u)"
      by (auto simp: clash_def nocase_eq_def)
  qed (auto simp: row_ok_def)
  then show ?thesis by (simp only: eq)
qed

lemma inv_user_exec:
  assumes "users_inv db"
  shows "users_inv (user_exec fmt (ts, op) db)"
proof (cases op)
  case (Create_User new)
  then show ?thesis using assms by (simp add: inv_create_user)
next
  case (Update_Role i r)
  then show ?thesis using assms
    by (auto simp: update_user_role_def row_ok_def intro!: inv_update_where split: sum.split)
next
  case (Set_Disabled i d)
  then show ?thesis using assms
    by (auto simp: set_user_disabled_def row_ok_def intro!: inv_update_where split: sum.split)
next
  case (Update_Password i phc force)
  then show ?thesis using assms
    by (auto simp: update_user_password_def row_ok_def intro!: inv_update_where)
next
  case (Set_Oidc_Subject i h)
  then show ?thesis using assms by (simp add: inv_set_oidc)
next
  case (Login_Success i)
  then show ?thesis using assms
    by (auto simp: record_login_success_def row_ok_def intro!: inv_update_where)
next
  case (Login_Failure i n l)
  show ?thesis
  proof (cases "n < 0")
    case True
    have "map (\<lambda>u. if uid u = i then f u else u) us = us"
      if "\<not> list_ex (\<lambda>u. uid u = i) us" for f and us :: "user_row list"
      using that by (induction us) auto
    with True assms Login_Failure show ?thesis
      by (auto simp: record_login_failure_def update_where_def)
  next
    case False
    with assms Login_Failure show ?thesis
      by (auto simp: record_login_failure_def row_ok_def intro!: inv_update_where)
  qed
next
  case (Clear_Lockout i)
  then show ?thesis using assms
    by (auto simp: clear_lockout_def row_ok_def intro!: inv_update_where)
next
  case (Soft_Delete i)
  then show ?thesis using assms by (simp add: inv_soft_delete)
qed

section \<open>The last active admin\<close>

lemma count_active_admins_pos: "count_active_admins db \<ge> 1 \<longleftrightarrow> list_ex is_active_admin (users db)"
proof -
  have "list_ex is_active_admin (users db) \<longleftrightarrow> filter is_active_admin (users db) \<noteq> []"
    by (simp add: list_ex_iff filter_empty_conv)
  then show ?thesis
    unfolding count_active_admins_def by (cases "filter is_active_admin (users db)") auto
qed

lemma another_admin:
  assumes "users_inv db" "count_active_admins db > 1"
  shows "\<exists>v \<in> set (users db). is_active_admin v \<and> uid v \<noteq> i"
proof -
  obtain a b rest where f: "filter is_active_admin (users db) = a # b # rest"
    using assms(2) unfolding count_active_admins_def
    by (metis One_nat_def Suc_length_conv length_Cons less_irrefl_nat list.exhaust list.size(3) not_less_zero)
  have "distinct (map uid (filter is_active_admin (users db)))"
    using assms(1) by (simp add: users_inv_def distinct_map_filter)
  then have "uid a \<noteq> uid b" by (simp add: f)
  moreover have "a \<in> set (filter is_active_admin (users db))" "b \<in> set (filter is_active_admin (users db))"
    by (simp_all only: f list.set_intros)
  ultimately show ?thesis by (metis filter_is_subset set_filter mem_Collect_eq)
qed

text \<open>An update of row \<open>i\<close> keeps an active admin when another one exists, or when it
  keeps each admin it touches.\<close>

lemma admin_kept:
  assumes "list_ex is_active_admin (users db)" "\<And>u. P u \<Longrightarrow> uid u = i"
    "(\<exists>v \<in> set (users db). is_active_admin v \<and> uid v \<noteq> i) \<or>
     (\<forall>u \<in> set (users db). P u \<and> is_active_admin u \<longrightarrow> is_active_admin (f u))"
  shows "list_ex is_active_admin (users (update_where P f db))"
proof -
  obtain v where v: "v \<in> set (users db)" "is_active_admin v"
      "P v \<Longrightarrow> is_active_admin (f v)"
    using assms unfolding list_ex_iff by blast
  then have "(if P v then f v else v) \<in> set (users (update_where P f db))"
      "is_active_admin (if P v then f v else v)"
    by auto
  then show ?thesis unfolding list_ex_iff by blast
qed

lemma read_for_update_unique:
  assumes "users_inv db" "read_user_for_update i db = Inr c" "u \<in> set (users db)" "uid u = i"
  shows "c = u"
proof -
  have c: "c \<in> set (users db)" "uid c = i"
    using assms(2) find_member [of _ "users db" c]
    by (auto simp: read_user_for_update_def split: option.splits)
  then show ?thesis
    using assms by (metis (no_types, lifting) distinct_map inj_on_eq_iff users_inv_def)
qed


text \<open>The guard of the three operations that can take an admin away.\<close>

lemma guarded_admin_kept:
  assumes "users_inv db" "list_ex is_active_admin (users db)"
    "read_user_for_update i db = Inr c"
    "\<And>u. P u \<Longrightarrow> uid u = i"
    "count_active_admins db > 1 \<or> \<not> is_active_admin c \<or> is_active_admin (f c)"
  shows "list_ex is_active_admin (users (update_where P f db))"
proof (rule admin_kept [OF assms(2,4)])
  show "(\<exists>v \<in> set (users db). is_active_admin v \<and> uid v \<noteq> i) \<or>
     (\<forall>u \<in> set (users db). P u \<and> is_active_admin u \<longrightarrow> is_active_admin (f u))"
  proof (cases "count_active_admins db > 1")
    case True
    then show ?thesis using another_admin [OF assms(1)] by blast
  next
    case False
    have "is_active_admin (f u)" if "u \<in> set (users db)" "P u" "is_active_admin u" for u
      using read_for_update_unique [OF assms(1,3) that(1)] that False assms(4,5) by blast
    then show ?thesis by blast
  qed
qed

lemma admin_user_exec:
  assumes inv: "users_inv db" and adm: "list_ex is_active_admin (users db)"
  shows "list_ex is_active_admin (users (user_exec fmt (ts, op) db))"
proof -
  have upd: "list_ex is_active_admin (users (update_where P f db))"
    if "\<And>u. is_active_admin u \<Longrightarrow> is_active_admin (f u)" for P f
    using adm that unfolding list_ex_iff by auto
  show ?thesis
  proof (cases op)
    case (Create_User new)
    then show ?thesis using adm by (auto simp: create_user_def split: option.split)
  next
    case (Update_Role i r)
    show ?thesis
    proof (cases "fst (update_user_role ts i r db)")
      case (Inr x)
      then obtain c where "read_user_for_update i db = Inr c"
          "\<not> (user_role c = Admin \<and> r \<noteq> Admin \<and> count_active_admins db \<le> 1)"
        by (auto simp: update_user_role_def split: sum.splits if_splits)
      moreover from this have "list_ex is_active_admin (users (update_where (\<lambda>u. uid u = i)
          (\<lambda>u. u\<lparr>user_role := r, updated_at := ts\<rparr>) db))"
        by (intro guarded_admin_kept [OF inv adm]) (auto simp: is_active_admin_def)
      ultimately show ?thesis by (auto simp: Update_Role update_user_role_def)
    qed (use adm Update_Role in \<open>auto simp: update_user_role_def split: sum.splits if_splits\<close>)
  next
    case (Set_Disabled i d)
    show ?thesis
    proof (cases "fst (set_user_disabled ts i d db)")
      case (Inr x)
      then obtain c where "read_user_for_update i db = Inr c"
          "\<not> (d \<and> \<not> disabled c \<and> user_role c = Admin \<and> count_active_admins db \<le> 1)"
        by (auto simp: set_user_disabled_def split: sum.splits if_splits)
      moreover from this have "list_ex is_active_admin (users (update_where (\<lambda>u. uid u = i)
          (\<lambda>u. u\<lparr>disabled := d, updated_at := ts\<rparr>) db))"
        by (intro guarded_admin_kept [OF inv adm]) (auto simp: is_active_admin_def)
      ultimately show ?thesis by (auto simp: Set_Disabled set_user_disabled_def)
    qed (use adm Set_Disabled in \<open>auto simp: set_user_disabled_def split: sum.splits if_splits\<close>)
  next
    case (Soft_Delete i)
    show ?thesis
    proof (cases "fst (soft_delete_user fmt ts i db)")
      case (Inr x)
      let ?f = "\<lambda>u. u\<lparr>username := tombstone_name fmt i ts, disabled := True,
                      deleted_at := Some ts, updated_at := ts\<rparr>"
      obtain c where "read_user_for_update i db = Inr c"
          "\<not> (user_role c = Admin \<and> count_active_admins db \<le> 1)"
        and eq: "snd (soft_delete_user fmt ts i db) =
          update_where (\<lambda>u. uid u = i \<and> deleted_at u = None) ?f db"
        using Inr by (auto simp: soft_delete_user_def split: sum.splits if_splits)
      then have "list_ex is_active_admin (users (update_where
          (\<lambda>u. uid u = i \<and> deleted_at u = None) ?f db))"
        by (intro guarded_admin_kept [OF inv adm]) (auto simp: is_active_admin_def)
      then show ?thesis by (simp only: Soft_Delete user_exec.simps eq)
    qed (use adm Soft_Delete in \<open>auto simp: soft_delete_user_def split: sum.splits if_splits\<close>)
  next
    case (Update_Password i phc force)
    then show ?thesis using adm upd by (simp add: update_user_password_def is_active_admin_def)
  next
    case (Set_Oidc_Subject i h)
    then show ?thesis using adm upd by (simp add: set_user_oidc_subject_def is_active_admin_def)
  next
    case (Login_Success i)
    then show ?thesis using upd by (simp add: record_login_success_def is_active_admin_def)
  next
    case (Login_Failure i n l)
    then show ?thesis using adm upd by (simp add: record_login_failure_def is_active_admin_def)
  next
    case (Clear_Lockout i)
    then show ?thesis using adm upd by (simp add: clear_lockout_def is_active_admin_def)
  qed
qed

interpretation user_table: preserved "user_exec fmt"
  "\<lambda>db. users_inv db \<and> list_ex is_active_admin (users db)"
  by unfold_locales (auto simp: inv_user_exec admin_user_exec split_paired_all)

text \<open>
  No run of user operations locks the operators out: from a table with an
  active admin, whatever is created, demoted, disabled, deleted, linked or
  locked in whatever order, an active admin remains, and the schema's
  uniqueness and checks hold.
\<close>

lemma last_admin_survives:
  assumes "users_inv db" and "count_active_admins db \<ge> 1"
  shows "users_inv (fold (user_exec fmt) ops db) \<and> count_active_admins (fold (user_exec fmt) ops db) \<ge> 1"
  using assms user_table.run_keeps [of db fmt ops] unfolding count_active_admins_pos by blast

definition demo_user :: "int \<Rightarrow> string \<Rightarrow> role \<Rightarrow> user_row" where
  "demo_user i n r =
     \<lparr>uid = i, username = n, password_hash = Some ''phc'', oidc_subject = None, user_role = r,
      force_password_reset = False, disabled = False, failed_login_count = 0, locked_until = None,
      last_login_at = None, last_failed_login_at = None, user_created_at = 0, updated_at = 0,
      deleted_at = None\<rparr>"

definition demo_users :: users_db where
  "demo_users = \<lparr>users = [demo_user 1 ''ann'' Admin, demo_user 2 ''bob'' Viewer], next_user_id = 3\<rparr>"

lemma demo_users_ok: "users_inv demo_users" "count_active_admins demo_users = 1"
  by (simp_all add: users_inv_def demo_users_def demo_user_def row_ok_def clash_def nocase_eq_def
      to_ascii_uppercase_def ascii_upper_char_def Let_def count_active_admins_def is_active_admin_def)

text \<open>
  A soft-deleted account keeps its OIDC subject: while its row stands, no
  account can be created with that subject, and the refusal is reported as a
  taken username, whatever the username is.
\<close>

lemma deleted_subject_blocks_recreation:
  assumes "users_inv db" and "u \<in> set (users db)" and "deleted_at u \<noteq> None"
    and "oidc_subject u = Some h" and "nu_oidc_subject_hash new = Some h"
  shows "create_user ts new db = (Inl Username_Taken, db)"
proof -
  have "v = u" if "v \<in> set (users db)" "oidc_subject v = Some h" for v
    using assms that
    by (metis (no_types, lifting) clash_def distinct_map inj_on_eq_iff option.discI users_inv_def)
  then have "find (\<lambda>v. oidc_subject v = Some h \<and> deleted_at v = None) (users db) = None"
    using assms(3) by (auto simp: find_None_iff)
  moreover have "insert_violates new db"
    using assms by (auto simp: insert_violates_def list_ex_iff)
  ultimately show ?thesis
    using assms(5) by (simp add: create_user_def get_user_by_oidc_subject_def)
qed

text \<open>
  The guard protects more than the last active admin: with one active
  admin left, demoting or deleting a disabled admin is refused, although the
  update it refuses would leave the active admin in place.
\<close>

lemma disabled_admin_is_protected:
  assumes "users_inv db" and "count_active_admins db = 1"
    and "read_user_for_update i db = Inr u" and "user_role u = Admin" and "disabled u" and "r \<noteq> Admin"
  shows "update_user_role ts i r db = (Inl Last_Admin, db) \<and>
    soft_delete_user fmt ts i db = (Inl Last_Admin, db) \<and>
    count_active_admins (update_where (\<lambda>v. uid v = i)
      (\<lambda>v. v\<lparr>user_role := r, updated_at := ts\<rparr>) db) \<ge> 1"
proof -
  have "list_ex is_active_admin (users (update_where (\<lambda>v. uid v = i)
      (\<lambda>v. v\<lparr>user_role := r, updated_at := ts\<rparr>) db))"
    using assms(2,5) count_active_admins_pos [of db]
    by (intro guarded_admin_kept [OF assms(1) _ assms(3)]) (auto simp: is_active_admin_def)
  then show ?thesis
    using assms(2-) unfolding count_active_admins_pos
    by (simp add: update_user_role_def soft_delete_user_def)
qed

end
