(* ===== verification/Sessions.thy ===== *)
theory Sessions
  imports Prelude
begin

text \<open>
  The refresh-token table of \<open>nexus-store/src/sessions.rs\<close>.  A login starts a
  chain of tokens; every refresh rotates the head of its chain into a new row.
  Each SQL statement is a function on the list of rows, with the schema's
  \<open>UNIQUE(token_hash)\<close> and \<open>ON DELETE SET NULL\<close> written out.  Timestamps are
  compared as instants: both sides of every comparison are rendered by
  \<open>to_rfc3339\<close> in UTC, whose text order is the order of time.

  The lemmas show that the table keeps its keys unique, that no statement
  brings a token back (a row that is rotated, revoked, idle-revoked or expired
  stays so), and that revoking a chain kills every row of it.
\<close>

section \<open>Rows and queries\<close>

record refresh_token =
  tok_id :: int
  token_hash :: string
  tok_user :: int
  chain_id :: string
  parent_id :: "int option"
  expires_at :: instant
  rotated_at :: "instant option"
  revoked_at :: "instant option"
  tok_user_agent :: "string option"
  tok_ip :: "string option"
  tok_created_at :: instant
  last_active_at :: "instant option"
  idle_revoked_at :: "instant option"

record new_refresh_token =
  nt_token_hash :: string
  nt_user_id :: int
  nt_chain_id :: string
  nt_parent_id :: "int option"
  nt_expires_at :: instant
  nt_user_agent :: "string option"
  nt_ip :: "string option"

record sessions_db =
  tokens :: "refresh_token list"
  next_token_id :: int

datatype sessions_error = Token_Hash_Collision | Token_Not_Found int

definition is_live_at :: "instant \<Rightarrow> refresh_token \<Rightarrow> bool" where
  "is_live_at now r =
     (rotated_at r = None \<and> revoked_at r = None \<and> idle_revoked_at r = None \<and> expires_at r > now)"

definition effective_last_active_at :: "refresh_token \<Rightarrow> instant" where
  "effective_last_active_at r = (case last_active_at r of None \<Rightarrow> tok_created_at r | Some t \<Rightarrow> t)"

definition get_refresh_token_by_hash :: "string \<Rightarrow> sessions_db \<Rightarrow> refresh_token option" where
  "get_refresh_token_by_hash h db = find (\<lambda>r. token_hash r = h) (tokens db)"

definition list_active_refresh_tokens_for_user ::
  "int \<Rightarrow> instant \<Rightarrow> sessions_db \<Rightarrow> refresh_token list" where
  "list_active_refresh_tokens_for_user i now db =
     sort_key (\<lambda>r. - tok_created_at r)
       (filter (\<lambda>r. tok_user r = i \<and> rotated_at r = None \<and> revoked_at r = None \<and> expires_at r > now)
         (tokens db))"

text \<open>\<open>SELECT MAX(COALESCE(last_active_at, created_at))\<close>: no row, no maximum.\<close>

definition max_chain_last_active_at :: "string \<Rightarrow> sessions_db \<Rightarrow> instant option" where
  "max_chain_last_active_at c db =
     (case map effective_last_active_at
        (filter (\<lambda>r. chain_id r = c \<and> revoked_at r = None \<and> idle_revoked_at r = None) (tokens db)) of
        [] \<Rightarrow> None
      | t # ts \<Rightarrow> Some (foldl max t ts))"

section \<open>Statements\<close>

definition update_tokens ::
  "(refresh_token \<Rightarrow> bool) \<Rightarrow> (refresh_token \<Rightarrow> refresh_token) \<Rightarrow> sessions_db \<Rightarrow> sessions_db" where
  "update_tokens P f db = db\<lparr>tokens := map (\<lambda>r. if P r then f r else r) (tokens db)\<rparr>"

definition token_row :: "instant \<Rightarrow> int \<Rightarrow> new_refresh_token \<Rightarrow> refresh_token" where
  "token_row ts i t =
     \<lparr>tok_id = i, token_hash = nt_token_hash t, tok_user = nt_user_id t,
      chain_id = nt_chain_id t, parent_id = nt_parent_id t, expires_at = nt_expires_at t,
      rotated_at = None, revoked_at = None, tok_user_agent = nt_user_agent t, tok_ip = nt_ip t,
      tok_created_at = ts, last_active_at = Some ts, idle_revoked_at = None\<rparr>"

definition insert_refresh_token ::
  "instant \<Rightarrow> new_refresh_token \<Rightarrow> sessions_db \<Rightarrow> (sessions_error + refresh_token) \<times> sessions_db" where
  "insert_refresh_token ts t db =
     (if list_ex (\<lambda>r. token_hash r = nt_token_hash t) (tokens db)
      then (Inl Token_Hash_Collision, db)
      else let row = token_row ts (next_token_id db) t
           in (Inr row, db\<lparr>tokens := tokens db @ [row], next_token_id := next_token_id db + 1\<rparr>))"

definition mark_refresh_token_rotated ::
  "int \<Rightarrow> instant \<Rightarrow> sessions_db \<Rightarrow> (sessions_error + unit) \<times> sessions_db" where
  "mark_refresh_token_rotated i t db =
     (if list_ex (\<lambda>r. tok_id r = i) (tokens db)
      then (Inr (), update_tokens (\<lambda>r. tok_id r = i) (\<lambda>r. r\<lparr>rotated_at := Some t\<rparr>) db)
      else (Inl (Token_Not_Found i), db))"

definition revoke_chain :: "string \<Rightarrow> instant \<Rightarrow> sessions_db \<Rightarrow> nat \<times> sessions_db" where
  "revoke_chain c t db =
     (length (filter (\<lambda>r. chain_id r = c \<and> revoked_at r = None) (tokens db)),
      update_tokens (\<lambda>r. chain_id r = c \<and> revoked_at r = None) (\<lambda>r. r\<lparr>revoked_at := Some t\<rparr>) db)"

definition revoke_refresh_token ::
  "int \<Rightarrow> instant \<Rightarrow> sessions_db \<Rightarrow> (sessions_error + unit) \<times> sessions_db" where
  "revoke_refresh_token i t db =
     (if list_ex (\<lambda>r. tok_id r = i) (tokens db)
      then (Inr (), update_tokens (\<lambda>r. tok_id r = i) (\<lambda>r. r\<lparr>revoked_at := Some t\<rparr>) db)
      else (Inl (Token_Not_Found i), db))"

definition doomed :: "instant \<Rightarrow> refresh_token \<Rightarrow> bool" where
  "doomed now r = (expires_at r \<le> now \<and> (rotated_at r \<noteq> None \<or> revoked_at r \<noteq> None))"

definition delete_expired_refresh_tokens :: "instant \<Rightarrow> sessions_db \<Rightarrow> nat \<times> sessions_db" where
  "delete_expired_refresh_tokens now db =
     (let gone = filter (doomed now) (tokens db);
          orphan = (\<lambda>r. case parent_id r of None \<Rightarrow> False | Some p \<Rightarrow> p \<in> set (map tok_id gone))
      in (length gone,
          db\<lparr>tokens := map (\<lambda>r. if orphan r then r\<lparr>parent_id := None\<rparr> else r)
                        (filter (\<lambda>r. \<not> doomed now r) (tokens db))\<rparr>))"

definition bump_refresh_chain_active_at :: "string \<Rightarrow> instant \<Rightarrow> sessions_db \<Rightarrow> nat \<times> sessions_db" where
  "bump_refresh_chain_active_at c t db =
     (let P = (\<lambda>r. chain_id r = c \<and> revoked_at r = None \<and> idle_revoked_at r = None \<and>
                   (case last_active_at r of None \<Rightarrow> True | Some a \<Rightarrow> a < t))
      in (length (filter P (tokens db)), update_tokens P (\<lambda>r. r\<lparr>last_active_at := Some t\<rparr>) db))"

definition idle_revoke_chain :: "string \<Rightarrow> instant \<Rightarrow> sessions_db \<Rightarrow> nat \<times> sessions_db" where
  "idle_revoke_chain c t db =
     (let P = (\<lambda>r. chain_id r = c \<and> idle_revoked_at r = None \<and> revoked_at r = None)
      in (length (filter P (tokens db)), update_tokens P (\<lambda>r. r\<lparr>idle_revoked_at := Some t\<rparr>) db))"

section \<open>Statements and the table invariant\<close>

definition tokens_inv :: "sessions_db \<Rightarrow> bool" where
  "tokens_inv db =
     (distinct (map tok_id (tokens db)) \<and> distinct (map token_hash (tokens db)) \<and>
      list_all (\<lambda>r. tok_id r < next_token_id db) (tokens db))"

text \<open>
  What no statement takes back: \<open>r'\<close> is a later state of row \<open>r\<close>.
\<close>

definition later_row :: "refresh_token \<Rightarrow> refresh_token \<Rightarrow> bool" where
  "later_row r r' =
     (tok_id r' = tok_id r \<and> token_hash r' = token_hash r \<and> tok_user r' = tok_user r \<and>
      chain_id r' = chain_id r \<and> expires_at r' = expires_at r \<and>
      (rotated_at r \<noteq> None \<longrightarrow> rotated_at r' \<noteq> None) \<and>
      (revoked_at r \<noteq> None \<longrightarrow> revoked_at r' \<noteq> None) \<and>
      (idle_revoked_at r \<noteq> None \<longrightarrow> idle_revoked_at r' \<noteq> None))"

text \<open>Every row of the new table is a later state of an old one, or satisfies \<open>N\<close>.\<close>

definition evolves :: "(refresh_token \<Rightarrow> bool) \<Rightarrow> sessions_db \<Rightarrow> sessions_db \<Rightarrow> bool" where
  "evolves N db db' \<longleftrightarrow>
     (\<forall>r' \<in> set (tokens db'). N r' \<or> (\<exists>r \<in> set (tokens db). later_row r r'))"

lemma later_row_refl [simp]: "later_row r r"
  by (simp add: later_row_def)

lemma later_row_trans: "later_row a b \<Longrightarrow> later_row b c \<Longrightarrow> later_row a c"
  by (auto simp: later_row_def)

lemma later_not_live: "later_row r r' \<Longrightarrow> is_live_at t r' \<Longrightarrow> is_live_at t r"
  by (auto simp: later_row_def is_live_at_def)

lemma live_earlier: "is_live_at t r \<Longrightarrow> s \<le> t \<Longrightarrow> is_live_at s r"
  by (simp add: is_live_at_def)

lemma evolves_refl [simp]: "evolves N db db"
  unfolding evolves_def using later_row_refl by blast

lemma evolvesE:
  assumes "evolves N db db'" "r' \<in> set (tokens db')"
  obtains "N r'" | r where "r \<in> set (tokens db)" "later_row r r'"
  using assms unfolding evolves_def by blast

lemma evolves_trans:
  assumes "evolves N a b" "evolves N b c" "\<And>r r'. N r \<Longrightarrow> later_row r r' \<Longrightarrow> N r'"
  shows "evolves N a c"
proof -
  have "N r' \<or> (\<exists>r \<in> set (tokens a). later_row r r')" if r': "r' \<in> set (tokens c)" for r'
  proof (cases "N r'")
    case False
    then obtain m where "m \<in> set (tokens b)" "later_row m r'"
      using assms(2) r' by (auto simp: evolves_def)
    then show ?thesis using assms(1,3) later_row_trans unfolding evolves_def by blast
  qed simp
  then show ?thesis by (simp add: evolves_def)
qed

lemma evolves_mono: "evolves N a b \<Longrightarrow> (\<And>r. N r \<Longrightarrow> M r) \<Longrightarrow> evolves M a b"
  by (auto simp: evolves_def)

lemma tokens_update_tokens [simp]:
  "tokens (update_tokens P f db) = map (\<lambda>r. if P r then f r else r) (tokens db)"
  "next_token_id (update_tokens P f db) = next_token_id db"
  by (simp_all add: update_tokens_def)

text \<open>An update that keeps the keys and only adds marks.\<close>

lemma update_tokens_later:
  assumes "\<And>r. later_row r (f r)"
  shows "evolves N db (update_tokens P f db)" "tokens_inv db \<Longrightarrow> tokens_inv (update_tokens P f db)"
proof -
  have "later_row r (if P r then f r else r)" for r using assms by simp
  then show "evolves N db (update_tokens P f db)"
    unfolding evolves_def tokens_update_tokens set_map by blast
  assume inv: "tokens_inv db"
  have "tok_id (if P r then f r else r) = tok_id r" "token_hash (if P r then f r else r) = token_hash r" for r
    using assms [of r] by (auto simp: later_row_def)
  then have "map tok_id (tokens (update_tokens P f db)) = map tok_id (tokens db)"
    "map token_hash (tokens (update_tokens P f db)) = map token_hash (tokens db)"
    "list_all (\<lambda>r. tok_id r < next_token_id db) (tokens (update_tokens P f db)) =
     list_all (\<lambda>r. tok_id r < next_token_id db) (tokens db)"
    by (simp_all only: tokens_update_tokens list.pred_map comp_def map_map)
  with inv show "tokens_inv (update_tokens P f db)" by (simp only: tokens_inv_def tokens_update_tokens(2))
qed

text \<open>
  The contract every statement but the insert meets: keys stay unique and no
  row loses a mark.
\<close>

locale token_statement =
  fixes stmt :: "sessions_db \<Rightarrow> sessions_db"
  assumes keeps_keys: "tokens_inv db \<Longrightarrow> tokens_inv (stmt db)"
    and evolves_stmt: "evolves (\<lambda>_. False) db (stmt db)"
begin

lemma row_from:
  "r' \<in> set (tokens (stmt db)) \<Longrightarrow> \<exists>r \<in> set (tokens db). later_row r r'"
  using evolves_stmt [of db] by (auto simp: evolves_def)

lemma nothing_revived:
  "r' \<in> set (tokens (stmt db)) \<Longrightarrow> is_live_at t r' \<Longrightarrow>
     \<exists>r \<in> set (tokens db). tok_id r = tok_id r' \<and> is_live_at t r"
  using row_from later_not_live by (metis later_row_def)

lemma evolves_any: "evolves N db (stmt db)"
  using evolves_stmt evolves_mono by blast

end

interpretation rotate: token_statement "\<lambda>db. snd (mark_refresh_token_rotated i t db)"
  by unfold_locales
    (auto simp: mark_refresh_token_rotated_def later_row_def intro!: update_tokens_later)

interpretation revoke: token_statement "\<lambda>db. snd (revoke_chain c t db)"
  by unfold_locales (auto simp: revoke_chain_def later_row_def intro!: update_tokens_later)

interpretation revoke_one: token_statement "\<lambda>db. snd (revoke_refresh_token i t db)"
  by unfold_locales (auto simp: revoke_refresh_token_def later_row_def intro!: update_tokens_later)

interpretation bump: token_statement "\<lambda>db. snd (bump_refresh_chain_active_at c t db)"
  by unfold_locales
    (auto simp: bump_refresh_chain_active_at_def later_row_def Let_def intro!: update_tokens_later)

interpretation idle_revoke: token_statement "\<lambda>db. snd (idle_revoke_chain c t db)"
  by unfold_locales (auto simp: idle_revoke_chain_def later_row_def Let_def intro!: update_tokens_later)

lemma sweep_keeps:
  "tokens_inv db \<Longrightarrow> tokens_inv (snd (delete_expired_refresh_tokens now db))"
  "evolves N db (snd (delete_expired_refresh_tokens now db))"
proof -
  define orphan where "orphan = (\<lambda>r :: refresh_token. case parent_id r of None \<Rightarrow> False
    | Some p \<Rightarrow> p \<in> set (map tok_id (filter (doomed now) (tokens db))))"
  let ?g = "\<lambda>r. if orphan r then r\<lparr>parent_id := None\<rparr> else r"
  have eq: "snd (delete_expired_refresh_tokens now db) =
      db\<lparr>tokens := map ?g (filter (\<lambda>r. \<not> doomed now r) (tokens db))\<rparr>"
    by (simp add: delete_expired_refresh_tokens_def Let_def orphan_def)
  have g: "later_row r (?g r)" "tok_id (?g r) = tok_id r" "token_hash (?g r) = token_hash r" for r
    by (auto simp: later_row_def)
  have t: "tokens (snd (delete_expired_refresh_tokens now db)) =
      map ?g (filter (\<lambda>r. \<not> doomed now r) (tokens db))" by (simp add: eq)
  show "evolves N db (snd (delete_expired_refresh_tokens now db))"
    unfolding evolves_def t set_map set_filter using g(1) by blast
  assume inv: "tokens_inv db"
  have "map tok_id (map ?g xs) = map tok_id xs" "map token_hash (map ?g xs) = map token_hash xs" for xs
    by (simp_all add: g(2,3))
  with inv show "tokens_inv (snd (delete_expired_refresh_tokens now db))"
    unfolding eq tokens_inv_def
    by (auto simp: distinct_map_filter list_all_iff g(2) simp del: map_map)
qed

interpretation sweep: token_statement "\<lambda>db. snd (delete_expired_refresh_tokens now db)"
  by unfold_locales (simp_all add: sweep_keeps)

lemma insert_keeps:
  assumes "tokens_inv db"
  shows "tokens_inv (snd (insert_refresh_token ts t db))"
    "evolves (\<lambda>r. r = token_row ts (next_token_id db) t) db (snd (insert_refresh_token ts t db))"
proof -
  have k: "tok_id (token_row ts i t) = i" "token_hash (token_row ts i t) = nt_token_hash t" for i
    by (simp_all add: token_row_def)
  show "tokens_inv (snd (insert_refresh_token ts t db))"
    using assms by (auto simp: insert_refresh_token_def tokens_inv_def Let_def k list_ex_iff list_all_iff)
  show "evolves (\<lambda>r. r = token_row ts (next_token_id db) t) db (snd (insert_refresh_token ts t db))"
  proof (cases "list_ex (\<lambda>r. token_hash r = nt_token_hash t) (tokens db)")
    case False
    then have "tokens (snd (insert_refresh_token ts t db)) =
        tokens db @ [token_row ts (next_token_id db) t]"
      by (simp add: insert_refresh_token_def Let_def)
    then show ?thesis unfolding evolves_def
      by (simp add: ball_Un) (blast intro: later_row_refl)
  qed (simp add: insert_refresh_token_def)
qed

lemma lookup_hash:
  assumes "tokens_inv db" "r \<in> set (tokens db)"
  shows "get_refresh_token_by_hash (token_hash r) db = Some r"
proof -
  have u: "s = r" if "s \<in> set (tokens db)" "token_hash s = token_hash r" for s
    using assms that by (metis (no_types, lifting) distinct_map inj_on_eq_iff tokens_inv_def)
  obtain s where "get_refresh_token_by_hash (token_hash r) db = Some s"
    using assms(2) by (cases "get_refresh_token_by_hash (token_hash r) db")
      (auto simp: get_refresh_token_by_hash_def find_None_iff)
  then show ?thesis
    using u by (metis (mono_tags, lifting) find_Some_iff get_refresh_token_by_hash_def nth_mem)
qed

lemma lookup_hash_member:
  "get_refresh_token_by_hash h db = Some r \<Longrightarrow> r \<in> set (tokens db) \<and> token_hash r = h"
  unfolding get_refresh_token_by_hash_def by (metis (mono_tags, lifting) find_Some_iff nth_mem)

section \<open>Closed chains and spent tokens\<close>

definition closed_row :: "refresh_token \<Rightarrow> bool" where
  "closed_row r = (revoked_at r \<noteq> None \<or> idle_revoked_at r \<noteq> None)"

definition chain_closed :: "string \<Rightarrow> sessions_db \<Rightarrow> bool" where
  "chain_closed c db = list_all (\<lambda>r. chain_id r = c \<longrightarrow> closed_row r) (tokens db)"

definition spent :: "string \<Rightarrow> sessions_db \<Rightarrow> bool" where
  "spent h db = list_all (\<lambda>r. token_hash r = h \<longrightarrow> rotated_at r \<noteq> None) (tokens db)"

lemma closes_chain:
  "chain_closed c (snd (revoke_chain c t db))" "chain_closed c (snd (idle_revoke_chain c t db))"
  unfolding chain_closed_def revoke_chain_def idle_revoke_chain_def Let_def snd_conv
    tokens_update_tokens list.pred_map comp_def
  by (auto simp: list_all_iff closed_row_def)

lemma closed_later: "later_row r r' \<Longrightarrow> closed_row r \<Longrightarrow> closed_row r'"
  by (auto simp: later_row_def closed_row_def)

lemma closed_evolves:
  assumes "evolves (\<lambda>r. chain_id r \<noteq> c) db db'" "chain_closed c db"
  shows "chain_closed c db'"
  unfolding chain_closed_def list_all_iff
proof (intro ballI impI)
  fix r'
  assume r': "r' \<in> set (tokens db')" and c: "chain_id r' = c"
  from assms(1) r' show "closed_row r'"
  proof (cases rule: evolvesE)
    case (2 r)
    then have "chain_id r = c" using c by (simp add: later_row_def)
    then have "closed_row r" using assms(2) 2(1) by (simp add: chain_closed_def list_all_iff)
    with 2(2) show ?thesis by (rule closed_later)
  qed (use c in simp)
qed

lemma spent_evolves:
  assumes "evolves (\<lambda>r. token_hash r \<noteq> h) db db'" "spent h db"
  shows "spent h db'"
  unfolding spent_def list_all_iff
proof (intro ballI impI)
  fix r'
  assume r': "r' \<in> set (tokens db')" and h: "token_hash r' = h"
  from assms(1) r' show "rotated_at r' \<noteq> None"
  proof (cases rule: evolvesE)
    case (2 r)
    then have "token_hash r = h" "rotated_at r \<noteq> None \<longrightarrow> rotated_at r' \<noteq> None"
      using h by (simp_all add: later_row_def)
    then show ?thesis using assms(2) 2(1) by (simp add: spent_def list_all_iff)
  qed (use h in simp)
qed

end
