(* ===== verification/Access.thy ===== *)
theory Access
  imports Users
begin

text \<open>
  Passwords, access tokens and the role gate of \<open>nexus-engine/src/auth\<close>:
  the password policy (\<open>passwords.rs\<close>), the claims of an access token
  (\<open>sessions.rs\<close>) and the extractor that turns a bearer into a session
  (\<open>require_role.rs\<close>).  Argon2, SHA-256 and the JWT codec are the parameter
  \<open>crypto_lib\<close>; a token is accepted for what its claims say, so the theorems
  assume of the codec only that decoding inverts signing under the same key.
\<close>

section \<open>Claims and parameters\<close>

record access_claims =
  ac_sub :: string
  ac_role :: role
  ac_iat :: int
  ac_exp :: int
  ac_jti :: string
  ac_chain_id :: "string option"

text \<open>\<open>EitherClaims\<close>: an access token, or a legacy token without a role.\<close>

record either_claims =
  ec_sub :: "string option"
  ec_role :: "role option"
  ec_exp :: int
  ec_iat :: "int option"
  ec_jti :: "string option"
  ec_chain_id :: "string option"

record crypto_lib =
  argon2_hash :: "string \<Rightarrow> string option"
  argon2_verify :: "string \<Rightarrow> string \<Rightarrow> bool"
  sha256_hex :: "string \<Rightarrow> string"
  jwt_sign :: "string \<Rightarrow> access_claims \<Rightarrow> string option"
  jwt_decode :: "string \<Rightarrow> string \<Rightarrow> either_claims option"
  common_lines :: "string list"

section \<open>Passwords\<close>

definition MIN_PASSWORD_LEN :: nat where
  "MIN_PASSWORD_LEN = 12"

datatype password_policy_error = Too_Short | Common

datatype password_error = Argon2_Error | Policy_Error password_policy_error

definition common_password_set :: "string list \<Rightarrow> string list" where
  "common_password_set ls = filter (\<lambda>l. l \<noteq> [] \<and> \<not> starts_with ''#'' l) (map trim_str ls)"

definition is_common_password :: "string list \<Rightarrow> string \<Rightarrow> bool" where
  "is_common_password ls plain = (to_ascii_lowercase plain \<in> set (common_password_set ls))"

definition check_password_policy :: "string list \<Rightarrow> string \<Rightarrow> password_policy_error + unit" where
  "check_password_policy ls plain =
     (if length plain < MIN_PASSWORD_LEN then Inl Too_Short
      else if is_common_password ls plain then Inl Common
      else Inr ())"

definition hash_password :: "crypto_lib \<Rightarrow> string \<Rightarrow> password_error + string" where
  "hash_password lib plain =
     (case check_password_policy (common_lines lib) plain of
        Inl e \<Rightarrow> Inl (Policy_Error e)
      | Inr _ \<Rightarrow> (case argon2_hash lib plain of None \<Rightarrow> Inl Argon2_Error | Some phc \<Rightarrow> Inr phc))"

definition verify_password :: "crypto_lib \<Rightarrow> string \<Rightarrow> string \<Rightarrow> bool" where
  "verify_password lib plain phc = argon2_verify lib plain phc"

definition hash_refresh_secret :: "crypto_lib \<Rightarrow> string \<Rightarrow> string" where
  "hash_refresh_secret lib secret = sha256_hex lib secret"

section \<open>Access tokens\<close>

text \<open>\<open>DateTime::timestamp\<close>: whole seconds, rounded down.\<close>

definition timestamp :: "instant \<Rightarrow> int" where
  "timestamp t = t div 1000000000"

definition issue_access_token ::
  "crypto_lib \<Rightarrow> int \<Rightarrow> role \<Rightarrow> string \<Rightarrow> instant \<Rightarrow> int \<Rightarrow> string option \<Rightarrow> string \<Rightarrow> string option" where
  "issue_access_token lib user_id r secret now ttl chain jti =
     jwt_sign lib secret
       \<lparr>ac_sub = dec_int user_id, ac_role = r, ac_iat = timestamp now,
        ac_exp = timestamp (now + ttl), ac_jti = jti, ac_chain_id = chain\<rparr>"

section \<open>Sessions and the role gate\<close>

record session_context =
  ctx_user_id :: int
  ctx_role :: role
  ctx_jti :: string
  is_legacy_admin :: bool
  ctx_chain_id :: "string option"

datatype session_rejection = Missing | Invalid_Bearer | Insufficient_Role role role

definition ctx_satisfies :: "session_context \<Rightarrow> role \<Rightarrow> bool" where
  "ctx_satisfies ctx required = satisfies (ctx_role ctx) required"

definition ctx_require :: "session_context \<Rightarrow> role \<Rightarrow> session_rejection + unit" where
  "ctx_require ctx required =
     (if ctx_satisfies ctx required then Inr () else Inl (Insufficient_Role (ctx_role ctx) required))"

definition rejection_status :: "session_rejection \<Rightarrow> nat \<times> string" where
  "rejection_status r =
     (case r of
        Missing \<Rightarrow> (401, ''authentication required'')
      | Invalid_Bearer \<Rightarrow> (401, ''authentication required'')
      | Insufficient_Role have' need \<Rightarrow> (403, ''insufficient role''))"

definition or_else :: "'a option \<Rightarrow> 'a option \<Rightarrow> 'a option" where
  "or_else a b = (case a of None \<Rightarrow> b | Some x \<Rightarrow> Some x)"

definition decode_to_context ::
  "crypto_lib \<Rightarrow> instant \<Rightarrow> string \<Rightarrow> string \<Rightarrow> session_rejection + session_context" where
  "decode_to_context lib now token key =
     (case jwt_decode lib key token of
        None \<Rightarrow> Inl Invalid_Bearer
      | Some c \<Rightarrow>
          if ec_exp c \<le> timestamp now then Inl Invalid_Bearer
          else let (r, legacy) = (case ec_role c of Some r \<Rightarrow> (r, False) | None \<Rightarrow> (Admin, True));
                   i = (case Option.bind (ec_sub c) parse_i64 of None \<Rightarrow> 0 | Some i \<Rightarrow> i);
                   jti = (case (if legacy then or_else (ec_sub c) (ec_jti c) else ec_jti c) of
                            None \<Rightarrow> ''legacy'' | Some j \<Rightarrow> j)
               in Inr \<lparr>ctx_user_id = i, ctx_role = r, ctx_jti = jti, is_legacy_admin = legacy,
                       ctx_chain_id = ec_chain_id c\<rparr>)"

text \<open>The \<open>Authorization\<close> header: scheme \<open>Bearer\<close> in any case, token not empty.\<close>

definition extract_bearer :: "string option \<Rightarrow> string option" where
  "extract_bearer h =
     Option.bind (Option.bind h (split_once (CHR '' '')))
       (\<lambda>(scheme, token). if to_ascii_lowercase scheme = ''bearer'' \<and> token \<noteq> [] then Some token else None)"

definition dev_context :: session_context where
  "dev_context =
     \<lparr>ctx_user_id = 0, ctx_role = Admin, ctx_jti = ''dev-no-secret'', is_legacy_admin = True,
      ctx_chain_id = None\<rparr>"

definition authorise ::
  "crypto_lib \<Rightarrow> instant \<Rightarrow> string option \<Rightarrow> string option \<Rightarrow> session_rejection + session_context" where
  "authorise lib now secret bearer =
     (case (secret, bearer) of
        (None, _) \<Rightarrow> Inr dev_context
      | (Some s, None) \<Rightarrow> Inl Missing
      | (Some s, Some t) \<Rightarrow> decode_to_context lib now t s)"

definition from_request_parts ::
  "crypto_lib \<Rightarrow> instant \<Rightarrow> string option \<Rightarrow> string option \<Rightarrow> session_rejection + session_context" where
  "from_request_parts lib now secret header = authorise lib now secret (extract_bearer header)"

definition admin_context ::
  "crypto_lib \<Rightarrow> instant \<Rightarrow> string option \<Rightarrow> string option \<Rightarrow> session_rejection + session_context" where
  "admin_context lib now secret header =
     (case from_request_parts lib now secret header of
        Inl e \<Rightarrow> Inl e
      | Inr ctx \<Rightarrow> (case ctx_require ctx Admin of Inl e \<Rightarrow> Inl e | Inr _ \<Rightarrow> Inr ctx))"

section \<open>The gate\<close>

text \<open>What the codec promises: decoding under the signing key gives the claims back.\<close>

definition either_of :: "access_claims \<Rightarrow> either_claims" where
  "either_of c =
     \<lparr>ec_sub = Some (ac_sub c), ec_role = Some (ac_role c), ec_exp = ac_exp c,
      ec_iat = Some (ac_iat c), ec_jti = Some (ac_jti c), ec_chain_id = ac_chain_id c\<rparr>"

definition codec_inverts :: "crypto_lib \<Rightarrow> string \<Rightarrow> bool" where
  "codec_inverts lib key \<longleftrightarrow>
     (\<forall>c token. jwt_sign lib key c = Some token \<longrightarrow> jwt_decode lib key token = Some (either_of c))"

lemma satisfies_admin: "satisfies r Admin \<longleftrightarrow> r = Admin"
  by (cases r) (simp_all add: satisfies_def)

lemma satisfies_order:
  "satisfies r r" "satisfies a b \<Longrightarrow> satisfies b c \<Longrightarrow> satisfies a c" "satisfies a b \<or> satisfies b a"
  by (cases a; cases b; cases c; simp add: satisfies_def)+

lemma extract_bearer_Bearer: "t \<noteq> [] \<Longrightarrow> extract_bearer (Some (''Bearer '' @ t)) = Some t"
proof -
  have "to_ascii_lowercase ''Bearer'' = ''bearer''" by code_simp
  then show "t \<noteq> [] \<Longrightarrow> extract_bearer (Some (''Bearer '' @ t)) = Some t"
    by (simp add: extract_bearer_def)
qed

text \<open>
  An access token is good for what it was issued for: presented as a
  bearer it yields the user, the role and the session chain it was signed for,
  at every instant whose second is before its expiry, and it is refused from
  that second on.
\<close>

lemma access_token_roundtrip:
  assumes "codec_inverts lib key" and "min_i64 \<le> i" "i \<le> max_i64"
    and "issue_access_token lib i r key now ttl chain jti = Some token" and "token \<noteq> []"
  shows "from_request_parts lib later (Some key) (Some (''Bearer '' @ token)) =
    (if timestamp later < timestamp (now + ttl)
     then Inr \<lparr>ctx_user_id = i, ctx_role = r, ctx_jti = jti, is_legacy_admin = False, ctx_chain_id = chain\<rparr>
     else Inl Invalid_Bearer)"
proof -
  have "jwt_decode lib key token = Some (either_of
      \<lparr>ac_sub = dec_int i, ac_role = r, ac_iat = timestamp now, ac_exp = timestamp (now + ttl),
       ac_jti = jti, ac_chain_id = chain\<rparr>)"
    using assms(1,4) by (simp add: codec_inverts_def issue_access_token_def)
  then show ?thesis
    using parse_i64_dec_int [OF assms(2,3)] extract_bearer_Bearer [OF assms(5)]
    by (simp add: from_request_parts_def authorise_def decode_to_context_def either_of_def Let_def)
qed

definition demo_lib :: crypto_lib where
  "demo_lib =
     \<lparr>argon2_hash = (\<lambda>p. Some (''phc:'' @ p)), argon2_verify = (\<lambda>p h. h = ''phc:'' @ p),
      sha256_hex = (\<lambda>s. ''h:'' @ s),
      jwt_sign = (\<lambda>k c. Some ''tok''), jwt_decode = (\<lambda>k t. None),
      common_lines = [''# list'', ''password1234'']\<rparr>"

text \<open>A library whose codec does invert: the token is a rendering of the claims under the key.\<close>

definition table_lib :: "access_claims \<Rightarrow> crypto_lib" where
  "table_lib c0 = demo_lib\<lparr>
     jwt_sign := (\<lambda>k c. if c = c0 then Some ''tok'' else None),
     jwt_decode := (\<lambda>k t. if t = ''tok'' then Some (either_of c0) else None)\<rparr>"

lemma table_lib_inverts: "codec_inverts (table_lib c0) key"
  by (simp add: codec_inverts_def table_lib_def)

text \<open>
  With a secret configured, the admin gate opens only to a bearer that the
  codec accepts under that secret, has not expired, and carries the admin role
  or, as a legacy token, no role at all.
\<close>

lemma admin_gate_sound:
  assumes "admin_context lib now (Some key) header = Inr ctx"
  shows "\<exists>token c. extract_bearer header = Some token \<and> jwt_decode lib key token = Some c
    \<and> timestamp now < ec_exp c \<and> (ec_role c = Some Admin \<or> ec_role c = None)
    \<and> ctx_role ctx = Admin \<and> (is_legacy_admin ctx \<longleftrightarrow> ec_role c = None)"
proof -
  obtain token where t: "extract_bearer header = Some token"
      "decode_to_context lib now token key = Inr ctx"
      and adm: "ctx_role ctx = Admin"
    using assms
    by (auto simp: admin_context_def from_request_parts_def authorise_def ctx_require_def
        ctx_satisfies_def satisfies_admin split: sum.splits option.splits if_splits)
  obtain c where c: "jwt_decode lib key token = Some c" "timestamp now < ec_exp c"
    using t(2) by (cases "jwt_decode lib key token")
      (auto simp: decode_to_context_def split: if_splits)
  show ?thesis
    using t c adm
    by (cases "ec_role c") (auto simp: decode_to_context_def Let_def split: if_splits)
qed

end
