(* ===== verification/Login.thy ===== *)
theory Login
  imports Lockout Sessions Access
begin

text \<open>
  The authentication handlers of \<open>nexus-engine/src/auth/login.rs\<close> over the user
  table (\<open>Users\<close>), the lockout state machine (\<open>Lockout\<close>) and the refresh-token
  table (\<open>Sessions\<close>).  The state is the database the handlers share; every
  handler is one function from the state to its HTTP result and the new state.
  A request brings the two clocks it reads (the handler's \<open>Utc::now()\<close> and the
  one SQLite writes), the random values it draws, and which of its best-effort
  statements the store refuses: the handlers log such an error and answer as if the
  statement had run.  Store errors that end a request with 500 and refused audit
  writes are not modelled; neither is the bootstrap sentinel file.

  \<open>post_refresh\<close> is split at its only gap: \<open>refresh_check\<close> reads and decides,
  \<open>refresh_commit\<close> writes; two requests may interleave between them.
\<close>

section \<open>State and parameters\<close>

record audit_entry =
  au_action :: string
  au_label :: string
  au_actor_id :: "string option"
  au_resource_id :: "string option"
  au_success :: bool
  au_ip :: "string option"
  au_user_agent :: "string option"

record auth_db =
  auth_users :: users_db
  auth_tokens :: sessions_db
  auth_audit :: "audit_entry list"

datatype auth_mode = Local | Oidc | Hybrid

definition allows_local :: "auth_mode \<Rightarrow> bool" where
  "allows_local m = (m \<in> {Local, Hybrid})"

record login_state =
  crypto :: crypto_lib
  admin_secret :: "string option"
  lockout :: lockout_config
  auth_mode_of :: auth_mode

text \<open>What a request brings: the clocks, the peer, the random draws, and which of the statements
  whose errors it swallows fail, numbered in the order it runs them.\<close>

record request =
  now :: instant
  db_now :: instant
  ip :: string
  ua :: "string option"
  fresh_secret :: "string option"
  fresh_uuid :: string
  fresh_jti :: string
  store_refuses :: "nat \<Rightarrow> bool"

datatype auth_api_error =
  Invalid_Credentials
| Password_Policy password_policy_error
| Auth_Not_Configured
| First_Run_Already_Complete
| First_Run_Mode_Disallowed
| Password_Hash
| Session_Internal
| Auth_Store
| Auth_Users users_error
| Idle_Expired int

fun from_password_error :: "password_error \<Rightarrow> auth_api_error" where
  "from_password_error Argon2_Error = Password_Hash"
| "from_password_error (Policy_Error p) = Password_Policy p"

text \<open>\<open>IntoResponse\<close>: the status and the \<open>error\<close> text of the body.\<close>

fun error_response :: "auth_api_error \<Rightarrow> nat \<times> string" where
  "error_response Invalid_Credentials = (401, ''invalid_credentials'')"
| "error_response (Password_Policy p) = (400, ''password_policy'')"
| "error_response Auth_Not_Configured = (503, ''auth_not_configured'')"
| "error_response First_Run_Already_Complete = (409, ''first_run_already_complete'')"
| "error_response First_Run_Mode_Disallowed = (403, ''first_run_mode_disallowed'')"
| "error_response (Idle_Expired n) = (401, ''session idle: '' @ dec_int n @ ''s since last activity'')"
| "error_response Password_Hash = (500, ''internal'')"
| "error_response Session_Internal = (500, ''internal'')"
| "error_response Auth_Store = (500, ''internal'')"
| "error_response (Auth_Users e) = (500, ''internal'')"

record session_user =
  su_id :: int
  su_username :: string
  su_role :: role
  su_force_password_reset :: bool

record token_response =
  access_token :: string
  refresh_token_out :: string
  expires_in :: int
  refresh_expires_in :: int
  resp_user :: session_user
  set_cookie :: "string option"

definition ACCESS_TOKEN_TTL :: int where "ACCESS_TOKEN_TTL = secs (15 * 60)"

definition REFRESH_TOKEN_TTL :: int where "REFRESH_TOKEN_TTL = secs (30 * 24 * 60 * 60)"

definition IDLE_TIMEOUT :: int where "IDLE_TIMEOUT = secs (20 * 60)"

definition SESSION_COOKIE_NAME :: string where "SESSION_COOKIE_NAME = ''__Host-nexus_session''"

definition BOOTSTRAP_USERNAME :: string where "BOOTSTRAP_USERNAME = ''admin''"

section \<open>Helpers\<close>

text \<open>\<open>Duration::num_seconds\<close> truncates towards zero.\<close>

definition num_seconds :: "int \<Rightarrow> int" where
  "num_seconds d = (if d < 0 then - ((- d) div 1000000000) else d div 1000000000)"

definition build_session_cookie :: "string \<Rightarrow> int \<Rightarrow> string" where
  "build_session_cookie token ttl =
     SESSION_COOKIE_NAME @ ''='' @ token @ ''; Max-Age='' @ dec_int (max (num_seconds ttl) 0)
       @ ''; Path=/; HttpOnly; Secure; SameSite=Lax''"

definition build_clear_session_cookie :: string where
  "build_clear_session_cookie =
     SESSION_COOKIE_NAME @ ''=; Max-Age=0; Path=/; HttpOnly; Secure; SameSite=Lax''"

text \<open>\<open>HeaderValue::from_str\<close> refuses control characters other than the tab.\<close>

definition header_value :: "string \<Rightarrow> string option" where
  "header_value s =
     (if list_all (\<lambda>c. let n = (of_char c :: nat) in n = 9 \<or> 32 \<le> n \<and> n \<noteq> 127) s then Some s else None)"

definition extract_client_ip :: "string option \<Rightarrow> string \<Rightarrow> string" where
  "extract_client_ip xff peer =
     (case xff of
        None \<Rightarrow> peer
      | Some v \<Rightarrow> let first = trim_str (hd (split_on (CHR '','') v)) in if first \<noteq> [] then first else peer)"

definition audit :: "audit_entry \<Rightarrow> auth_db \<Rightarrow> auth_db" where
  "audit e db = db\<lparr>auth_audit := auth_audit db @ [e]\<rparr>"

definition record_login_failure_audit :: "request \<Rightarrow> string \<Rightarrow> auth_db \<Rightarrow> auth_db" where
  "record_login_failure_audit q uname =
     audit \<lparr>au_action = ''login.failure'', au_label = uname, au_actor_id = None, au_resource_id = None, au_success = False,
            au_ip = Some (ip q), au_user_agent = ua q\<rparr>"

definition record_login_success_audit :: "request \<Rightarrow> int \<Rightarrow> string \<Rightarrow> auth_db \<Rightarrow> auth_db" where
  "record_login_success_audit q i uname =
     audit \<lparr>au_action = ''login.success'', au_label = uname, au_actor_id = Some (dec_int i), au_resource_id = None,
            au_success = True, au_ip = Some (ip q), au_user_agent = ua q\<rparr>"

definition record_lockout_audit :: "int \<Rightarrow> string \<Rightarrow> auth_db \<Rightarrow> auth_db" where
  "record_lockout_audit i uname =
     audit \<lparr>au_action = ''lockout.tripped'', au_label = uname, au_actor_id = Some (dec_int i), au_resource_id = None,
            au_success = True, au_ip = None, au_user_agent = None\<rparr>"

definition record_action_audit :: "request \<Rightarrow> int \<Rightarrow> string \<Rightarrow> string \<Rightarrow> bool \<Rightarrow> auth_db \<Rightarrow> auth_db" where
  "record_action_audit q i uname action ok =
     audit \<lparr>au_action = action, au_label = uname, au_actor_id = Some (dec_int i), au_resource_id = None, au_success = ok,
            au_ip = Some (ip q), au_user_agent = ua q\<rparr>"

definition make_token_response :: "string \<Rightarrow> string \<Rightarrow> session_user \<Rightarrow> token_response" where
  "make_token_response access refresh user =
     \<lparr>access_token = access, refresh_token_out = refresh, expires_in = num_seconds ACCESS_TOKEN_TTL,
      refresh_expires_in = num_seconds REFRESH_TOKEN_TTL, resp_user = user,
      set_cookie = header_value (build_session_cookie access ACCESS_TOKEN_TTL)\<rparr>"

definition on_users :: "(users_db \<Rightarrow> users_db) \<Rightarrow> auth_db \<Rightarrow> auth_db" where
  "on_users f db = db\<lparr>auth_users := f (auth_users db)\<rparr>"

definition on_tokens :: "(sessions_db \<Rightarrow> sessions_db) \<Rightarrow> auth_db \<Rightarrow> auth_db" where
  "on_tokens f db = db\<lparr>auth_tokens := f (auth_tokens db)\<rparr>"

text \<open>\<open>if let Err(e) = \<dots> { warn }\<close>: a refused statement changes nothing and stops nothing.\<close>

definition best_effort :: "request \<Rightarrow> nat \<Rightarrow> (auth_db \<Rightarrow> auth_db) \<Rightarrow> auth_db \<Rightarrow> auth_db" where
  "best_effort q n stmt db = (if store_refuses q n then db else stmt db)"

definition mint_refresh_row ::
  "login_state \<Rightarrow> request \<Rightarrow> int \<Rightarrow> string \<Rightarrow> int option \<Rightarrow> auth_db \<Rightarrow> (auth_api_error + string) \<times> auth_db" where
  "mint_refresh_row st q i chain parent db =
     (case fresh_secret q of
        None \<Rightarrow> (Inl Session_Internal, db)
      | Some secret \<Rightarrow>
          (case insert_refresh_token (db_now q)
             \<lparr>nt_token_hash = hash_refresh_secret (crypto st) secret, nt_user_id = i, nt_chain_id = chain,
              nt_parent_id = parent, nt_expires_at = now q + REFRESH_TOKEN_TTL, nt_user_agent = ua q,
              nt_ip = Some (ip q)\<rparr> (auth_tokens db) of
             (Inl e, t) \<Rightarrow> (Inl Session_Internal, db\<lparr>auth_tokens := t\<rparr>)
           | (Inr row, t) \<Rightarrow> (Inr secret, db\<lparr>auth_tokens := t\<rparr>)))"

text \<open>The common tail of \<open>post_login\<close> and \<open>post_first_run_setup\<close>: a new chain.\<close>

definition start_session ::
  "login_state \<Rightarrow> request \<Rightarrow> string \<Rightarrow> session_user \<Rightarrow> auth_db
     \<Rightarrow> (auth_api_error + token_response) \<times> auth_db" where
  "start_session st q secret user db =
     (case issue_access_token (crypto st) (su_id user) (su_role user) secret (now q) ACCESS_TOKEN_TTL
             (Some (fresh_uuid q)) (fresh_jti q) of
        None \<Rightarrow> (Inl Session_Internal, db)
      | Some access \<Rightarrow>
          (case mint_refresh_row st q (su_id user) (fresh_uuid q) None db of
             (Inl e, db1) \<Rightarrow> (Inl e, db1)
           | (Inr refresh, db1) \<Rightarrow> (Inr (make_token_response access refresh user), db1)))"

definition session_user_of :: "int \<Rightarrow> user_row \<Rightarrow> session_user" where
  "session_user_of i u =
     \<lparr>su_id = i, su_username = username u, su_role = user_role u,
      su_force_password_reset = force_password_reset u\<rparr>"

section \<open>Handlers\<close>

subsection \<open>Login\<close>

definition login_rejected ::
  "request \<Rightarrow> string \<Rightarrow> auth_db \<Rightarrow> (auth_api_error + 'a) \<times> auth_db" where
  "login_rejected q uname db = (Inl Invalid_Credentials, record_login_failure_audit q uname db)"

definition login_bad_password ::
  "login_state \<Rightarrow> request \<Rightarrow> string \<Rightarrow> user_row \<Rightarrow> int \<Rightarrow> auth_db
     \<Rightarrow> (auth_api_error + token_response) \<times> auth_db" where
  "login_bad_password st q uname user i db =
     (let out = evaluate_failure (now q) user (lockout st) in
      case record_login_failure (db_now q) i (new_count out) (lock_until out) (auth_users db) of
        (Inl e, u) \<Rightarrow> (Inl Auth_Store, db\<lparr>auth_users := u\<rparr>)
      | (Inr _, u) \<Rightarrow>
          let db1 = db\<lparr>auth_users := u\<rparr>;
              db2 = (if lockout_tripped out then record_lockout_audit i uname db1 else db1)
          in login_rejected q uname db2)"

definition login_granted ::
  "login_state \<Rightarrow> request \<Rightarrow> string \<Rightarrow> string \<Rightarrow> user_row \<Rightarrow> int \<Rightarrow> auth_db
     \<Rightarrow> (auth_api_error + token_response) \<times> auth_db" where
  "login_granted st q secret uname user i db =
     start_session st q secret (session_user_of i user)
       (record_login_success_audit q i uname (on_users (record_login_success (db_now q) i) db))"

definition post_login ::
  "login_state \<Rightarrow> request \<Rightarrow> string \<Rightarrow> string \<Rightarrow> auth_db \<Rightarrow> (auth_api_error + token_response) \<times> auth_db" where
  "post_login st q body_username password db =
     (case admin_secret st of
        None \<Rightarrow> (Inl Auth_Not_Configured, db)
      | Some secret \<Rightarrow>
          let uname = to_ascii_lowercase (trim_str body_username) in
          case get_user_by_username uname (auth_users db) of
            None \<Rightarrow> login_rejected q uname db
          | Some user \<Rightarrow>
              if disabled user \<or> deleted_at user \<noteq> None then login_rejected q uname db
              else (case evaluate (now q) user of
                      Locked until \<Rightarrow> login_rejected q uname db
                    | Unlocked \<Rightarrow>
                        (case get_password_hash_for_login uname (auth_users db) of
                           None \<Rightarrow> login_rejected q uname db
                         | Some (i, phc) \<Rightarrow>
                             if \<not> verify_password (crypto st) password phc
                             then login_bad_password st q uname user i db
                             else login_granted st q secret uname user i db)))"

subsection \<open>Refresh\<close>

definition revoked :: "string \<Rightarrow> instant \<Rightarrow> auth_db \<Rightarrow> auth_db" where
  "revoked c t = on_tokens (\<lambda>d. snd (revoke_chain c t d))"

definition idle_for :: "request \<Rightarrow> refresh_token \<Rightarrow> auth_db \<Rightarrow> int option" where
  "idle_for q row db =
     (case max_chain_last_active_at (chain_id row) (auth_tokens db) of
        None \<Rightarrow> None
      | Some peak \<Rightarrow> if now q - peak > IDLE_TIMEOUT then Some (now q - peak) else None)"

definition refresh_check ::
  "login_state \<Rightarrow> request \<Rightarrow> string \<Rightarrow> auth_db
     \<Rightarrow> (auth_api_error + string \<times> refresh_token \<times> user_row) \<times> auth_db" where
  "refresh_check st q presented db =
     (case admin_secret st of
        None \<Rightarrow> (Inl Auth_Not_Configured, db)
      | Some secret \<Rightarrow>
          (case get_refresh_token_by_hash (hash_refresh_secret (crypto st) presented) (auth_tokens db) of
             None \<Rightarrow> (Inl Invalid_Credentials, db)
           | Some row \<Rightarrow>
               (case idle_for q row db of
                  Some idle \<Rightarrow>
                    (Inl (Idle_Expired (num_seconds idle)),
                     best_effort q 0 (on_tokens (\<lambda>d. snd (idle_revoke_chain (chain_id row) (now q) d))) db)
                | None \<Rightarrow>
                    if rotated_at row \<noteq> None \<or> revoked_at row \<noteq> None
                    then (Inl Invalid_Credentials, best_effort q 0 (revoked (chain_id row) (now q)) db)
                    else if \<not> is_live_at (now q) row then (Inl Invalid_Credentials, db)
                    else (case get_user_by_id (tok_user row) (auth_users db) of
                            None \<Rightarrow> (Inl Invalid_Credentials, best_effort q 0 (revoked (chain_id row) (now q)) db)
                          | Some user \<Rightarrow>
                              if disabled user \<or> deleted_at user \<noteq> None
                              then (Inl Invalid_Credentials, best_effort q 0 (revoked (chain_id row) (now q)) db)
                              else (Inr (secret, row, user), db)))))"

definition refresh_commit ::
  "login_state \<Rightarrow> request \<Rightarrow> string \<times> refresh_token \<times> user_row \<Rightarrow> auth_db
     \<Rightarrow> (auth_api_error + token_response) \<times> auth_db" where
  "refresh_commit st q found db =
     (case found of (secret, row, user) \<Rightarrow>
        (case issue_access_token (crypto st) (uid user) (user_role user) secret (now q) ACCESS_TOKEN_TTL
                (Some (chain_id row)) (fresh_jti q) of
           None \<Rightarrow> (Inl Session_Internal, db)
         | Some access \<Rightarrow>
             (case mint_refresh_row st q (uid user) (chain_id row) (Some (tok_id row)) db of
                (Inl e, db1) \<Rightarrow> (Inl e, db1)
              | (Inr refresh, db1) \<Rightarrow>
                  let db2 = best_effort q 0 (on_tokens (\<lambda>d. snd (mark_refresh_token_rotated (tok_id row) (now q) d))) db1
                  in (Inr (make_token_response access refresh (session_user_of (uid user) user)),
                      record_action_audit q (uid user) (username user) ''session.refresh'' True db2))))"

definition post_refresh ::
  "login_state \<Rightarrow> request \<Rightarrow> string \<Rightarrow> auth_db \<Rightarrow> (auth_api_error + token_response) \<times> auth_db" where
  "post_refresh st q presented db =
     (case refresh_check st q presented db of
        (Inl e, db1) \<Rightarrow> (Inl e, db1)
      | (Inr found, db1) \<Rightarrow> refresh_commit st q found db1)"

subsection \<open>Logout\<close>

text \<open>Always 204 with the clearing cookie.\<close>

definition post_logout ::
  "login_state \<Rightarrow> request \<Rightarrow> string option \<Rightarrow> auth_db \<Rightarrow> string option \<times> auth_db" where
  "post_logout st q presented db =
     (header_value build_clear_session_cookie,
      case presented of
        None \<Rightarrow> db
      | Some refresh \<Rightarrow>
          (case get_refresh_token_by_hash (hash_refresh_secret (crypto st) refresh) (auth_tokens db) of
             None \<Rightarrow> db
           | Some row \<Rightarrow> best_effort q 0 (revoked (chain_id row) (now q)) db))"

subsection \<open>Change of password\<close>

definition revoke_user_sessions :: "request \<Rightarrow> int \<Rightarrow> auth_db \<Rightarrow> auth_db" where
  "revoke_user_sessions q i db =
     fold (\<lambda>(n, row). best_effort q n (revoked (chain_id row) (now q)))
       (enumerate 0 (list_active_refresh_tokens_for_user i (now q) (auth_tokens db))) db"

definition post_change_password ::
  "login_state \<Rightarrow> request \<Rightarrow> session_context \<Rightarrow> string \<Rightarrow> string \<Rightarrow> auth_db
     \<Rightarrow> (auth_api_error + unit) \<times> auth_db" where
  "post_change_password st q ctx old_password new_password db =
     (if is_legacy_admin ctx \<or> ctx_user_id ctx = 0 then (Inl Invalid_Credentials, db)
      else (case get_user_by_id (ctx_user_id ctx) (auth_users db) of
        None \<Rightarrow> (Inl Invalid_Credentials, db)
      | Some user \<Rightarrow>
          (case get_password_hash_for_login (username user) (auth_users db) of
             None \<Rightarrow> (Inl Invalid_Credentials, db)
           | Some (i, phc) \<Rightarrow>
               if \<not> verify_password (crypto st) old_password phc
               then (Inl Invalid_Credentials,
                     record_action_audit q i (username user) ''password.change'' False db)
               else (case hash_password (crypto st) new_password of
                       Inl e \<Rightarrow> (Inl (from_password_error e), db)
                     | Inr h \<Rightarrow>
                         (case update_user_password (db_now q) i h False (auth_users db) of
                            (Inl e, u) \<Rightarrow> (Inl (Auth_Users e), db)
                          | (Inr _, u) \<Rightarrow>
                              (Inr (),
                               record_action_audit q i (username user) ''password.change'' True
                                 (revoke_user_sessions q i (db\<lparr>auth_users := u\<rparr>))))))))"

subsection \<open>First run\<close>

definition first_run_username :: "string option \<Rightarrow> string" where
  "first_run_username u =
     to_ascii_lowercase
       (case map_option trim_str u of
          None \<Rightarrow> BOOTSTRAP_USERNAME
        | Some s \<Rightarrow> if s = [] then BOOTSTRAP_USERNAME else s)"

definition post_first_run_setup ::
  "login_state \<Rightarrow> request \<Rightarrow> string option \<Rightarrow> string \<Rightarrow> auth_db
     \<Rightarrow> (auth_api_error + token_response) \<times> auth_db" where
  "post_first_run_setup st q body_username password db =
     (if \<not> allows_local (auth_mode_of st) then (Inl First_Run_Mode_Disallowed, db)
      else (case admin_secret st of
        None \<Rightarrow> (Inl Auth_Not_Configured, db)
      | Some secret \<Rightarrow>
          if count_users (auth_users db) > 0 then (Inl First_Run_Already_Complete, db)
          else let uname = first_run_username body_username in
            (case hash_password (crypto st) password of
               Inl e \<Rightarrow> (Inl (from_password_error e), db)
             | Inr h \<Rightarrow>
                 (case create_user (db_now q)
                    \<lparr>nu_username = uname, nu_role = Admin, nu_password_hash = Some h,
                     nu_oidc_subject_hash = None, nu_force_password_reset = False\<rparr> (auth_users db) of
                    (Inl Username_Taken, u) \<Rightarrow> (Inl First_Run_Already_Complete, db)
                  | (Inl e, u) \<Rightarrow> (Inl (Auth_Users e), db)
                  | (Inr i, u) \<Rightarrow>
                      start_session st q secret
                        \<lparr>su_id = i, su_username = uname, su_role = Admin, su_force_password_reset = False\<rparr>
                        (record_login_success_audit q i uname
                          (on_users (record_login_success (db_now q) i)
                            (record_action_audit q i uname ''setup.first_run'' True
                              (db\<lparr>auth_users := u\<rparr>))))))))"

subsection \<open>Runs of requests\<close>

datatype auth_request =
  Login string string
| Refresh string
| Logout "string option"
| Change_Password session_context string string
| First_Run "string option" string
| Idle_Bump string instant
| Sweep_Tokens

fun auth_exec :: "login_state \<Rightarrow> request \<times> auth_request \<Rightarrow> auth_db \<Rightarrow> auth_db" where
  "auth_exec st (q, Login u p) db = snd (post_login st q u p db)"
| "auth_exec st (q, Refresh s) db = snd (post_refresh st q s db)"
| "auth_exec st (q, Logout s) db = snd (post_logout st q s db)"
| "auth_exec st (q, Change_Password ctx old new) db = snd (post_change_password st q ctx old new db)"
| "auth_exec st (q, First_Run u p) db = snd (post_first_run_setup st q u p db)"
| "auth_exec st (q, Idle_Bump c t) db = on_tokens (\<lambda>d. snd (bump_refresh_chain_active_at c t d)) db"
| "auth_exec st (q, Sweep_Tokens) db = on_tokens (\<lambda>d. snd (delete_expired_refresh_tokens (now q) d)) db"

end
