(* ===== verification/Session_Security.thy ===== *)
theory Session_Security
  imports Login
begin

text \<open>
  What the authentication handlers guarantee.  The first part says what a
  request may do to the two tables: users keep their invariant, and every
  refresh-token row is a later state of an old one or the one row the request
  minted.  The second part states the security properties: a login needs an
  unlocked account and the right password, a series of wrong passwords locks
  the account, a refresh token works once, a replay ends the session, a change
  of password ends every session, and sequential requests keep one live head
  per session, while two refreshes that interleave do not.
\<close>

section \<open>What the handlers touch\<close>

lemma audit_keeps [simp]:
  "auth_users (audit e db) = auth_users db" "auth_tokens (audit e db) = auth_tokens db"
  by (simp_all add: audit_def)

lemma record_audits_keep [simp]:
  "auth_users (record_login_failure_audit q n db) = auth_users db"
  "auth_tokens (record_login_failure_audit q n db) = auth_tokens db"
  "auth_users (record_login_success_audit q i n db) = auth_users db"
  "auth_tokens (record_login_success_audit q i n db) = auth_tokens db"
  "auth_users (record_lockout_audit i n db) = auth_users db"
  "auth_tokens (record_lockout_audit i n db) = auth_tokens db"
  "auth_users (record_action_audit q i n a ok db) = auth_users db"
  "auth_tokens (record_action_audit q i n a ok db) = auth_tokens db"
  by (simp_all add: record_login_failure_audit_def record_login_success_audit_def
      record_lockout_audit_def record_action_audit_def)

lemma on_parts [simp]:
  "auth_users (on_users f db) = f (auth_users db)" "auth_tokens (on_users f db) = auth_tokens db"
  "auth_tokens (on_tokens g db) = g (auth_tokens db)" "auth_users (on_tokens g db) = auth_users db"
  by (simp_all add: on_users_def on_tokens_def)

lemma best_effort_parts [simp]:
  "auth_tokens (best_effort q n f db) = (if store_refuses q n then auth_tokens db else auth_tokens (f db))"
  "auth_users (best_effort q n f db) = (if store_refuses q n then auth_users db else auth_users (f db))"
  by (simp_all add: best_effort_def)

lemma revoked_parts [simp]:
  "auth_tokens (revoked c t db) = snd (revoke_chain c t (auth_tokens db))"
  "auth_users (revoked c t db) = auth_users db"
  by (simp_all add: revoked_def)

subsection \<open>Minting\<close>

text \<open>The row a request may add: its hash is that of the secret it drew.\<close>

definition minted :: "login_state \<Rightarrow> request \<Rightarrow> string \<Rightarrow> refresh_token \<Rightarrow> bool" where
  "minted st q c r =
     (chain_id r = c \<and>
      (case fresh_secret q of
         None \<Rightarrow> False
       | Some s \<Rightarrow> token_hash r = hash_refresh_secret (crypto st) s))"

definition adds_row ::
  "login_state \<Rightarrow> request \<Rightarrow> int \<Rightarrow> string \<Rightarrow> sessions_db \<Rightarrow> sessions_db \<Rightarrow> refresh_token \<Rightarrow> bool" where
  "adds_row st q i c d d' row =
     (tokens d' = tokens d @ [row] \<and> next_token_id d' = next_token_id d + 1 \<and>
      \<not> list_ex (\<lambda>r. token_hash r = token_hash row) (tokens d) \<and>
      tok_id row = next_token_id d \<and> minted st q c row \<and> tok_user row = i \<and>
      rotated_at row = None \<and> revoked_at row = None \<and> idle_revoked_at row = None \<and>
      expires_at row = now q + REFRESH_TOKEN_TTL)"

lemma minted_later: "minted st q c r \<Longrightarrow> later_row r r' \<Longrightarrow> minted st q c r'"
  by (auto simp: minted_def later_row_def split: option.splits)

lemma mint_cases:
  assumes "mint_refresh_row st q i chain parent db = (res, db1)"
  obtains (fail) e where "res = Inl e" "auth_tokens db1 = auth_tokens db" "auth_users db1 = auth_users db"
  | (mint) s row where "res = Inr s" "fresh_secret q = Some s" "auth_users db1 = auth_users db"
      "adds_row st q i chain (auth_tokens db) (auth_tokens db1) row"
proof (cases "fresh_secret q")
  case None
  then show ?thesis using assms by (intro fail) (auto simp: mint_refresh_row_def)
next
  case (Some s)
  show ?thesis
  proof (cases "list_ex (\<lambda>r. token_hash r = hash_refresh_secret (crypto st) s) (tokens (auth_tokens db))")
    case True
    then show ?thesis using assms Some
      by (intro fail) (auto simp: mint_refresh_row_def insert_refresh_token_def)
  next
    case False
    then show ?thesis using assms Some
      by (intro mint [of s]) (auto simp: mint_refresh_row_def insert_refresh_token_def Let_def
          token_row_def minted_def adds_row_def)
  qed
qed

lemma adds_row_evolves:
  assumes "adds_row st q i c d d' row"
  shows "evolves (minted st q c) d d'" "tokens_inv d \<Longrightarrow> tokens_inv d'"
proof -
  have row: "tokens d' = tokens d @ [row]" "next_token_id d' = next_token_id d + 1"
    "\<not> list_ex (\<lambda>r. token_hash r = token_hash row) (tokens d)" "tok_id row = next_token_id d"
    "minted st q c row" using assms by (simp_all add: adds_row_def)
  show "evolves (minted st q c) d d'"
    unfolding evolves_def row(1) using row(5) by (simp add: ball_Un) (blast intro: later_row_refl)
  show "tokens_inv d'" if "tokens_inv d"
    using that row(3) by (auto simp: tokens_inv_def row(1,2,4) list_all_iff list_ex_iff)
qed

lemma mint_keeps:
  assumes "mint_refresh_row st q i chain parent db = (res, db1)"
  shows "tokens_inv (auth_tokens db) \<Longrightarrow> tokens_inv (auth_tokens db1)"
    "evolves (minted st q chain) (auth_tokens db) (auth_tokens db1)" "auth_users db1 = auth_users db"
  using assms by (cases rule: mint_cases; simp add: adds_row_evolves)+

definition auth_inv :: "auth_db \<Rightarrow> bool" where
  "auth_inv db = (users_inv (auth_users db) \<and> tokens_inv (auth_tokens db))"

lemma start_session_keeps:
  assumes "start_session st q secret user db = (res, db1)"
  shows "auth_users db1 = auth_users db"
    "tokens_inv (auth_tokens db) \<Longrightarrow> tokens_inv (auth_tokens db1)"
    "evolves (minted st q (fresh_uuid q)) (auth_tokens db) (auth_tokens db1)"
proof -
  have "auth_users db1 = auth_users db \<and> (tokens_inv (auth_tokens db) \<longrightarrow> tokens_inv (auth_tokens db1)) \<and>
    evolves (minted st q (fresh_uuid q)) (auth_tokens db) (auth_tokens db1)"
  proof (cases "issue_access_token (crypto st) (su_id user) (su_role user) secret (now q)
      ACCESS_TOKEN_TTL (Some (fresh_uuid q)) (fresh_jti q)")
    case None
    then show ?thesis using assms by (simp add: start_session_def)
  next
    case (Some access)
    obtain r m where m: "mint_refresh_row st q (su_id user) (fresh_uuid q) None db = (r, m)" by fastforce
    have "db1 = m" using assms Some m by (simp add: start_session_def split: sum.splits)
    then show ?thesis using mint_keeps [OF m] by simp
  qed
  then show "auth_users db1 = auth_users db"
    "tokens_inv (auth_tokens db) \<Longrightarrow> tokens_inv (auth_tokens db1)"
    "evolves (minted st q (fresh_uuid q)) (auth_tokens db) (auth_tokens db1)" by blast+
qed

subsection \<open>Tokens\<close>

text \<open>
  The abstract session table.  Seen from outside, a request does one of four
  things to it: it runs statements that only add marks or sweep rows, it opens
  a new chain with one row, it rotates a live row into a new row of the same
  chain, or, when the store refuses the mark of a rotation, it extends the chain
  of a live row by a second live one.
\<close>

inductive session_step :: "login_state \<Rightarrow> request \<Rightarrow> sessions_db \<Rightarrow> sessions_db \<Rightarrow> bool"
  for st q where
  mark: "evolves (\<lambda>_. False) d d' \<Longrightarrow> (tokens_inv d \<longrightarrow> tokens_inv d') \<Longrightarrow> session_step st q d d'"
| open_chain: "adds_row st q i (fresh_uuid q) d d' new \<Longrightarrow> session_step st q d d'"
| rotate: "row \<in> set (tokens d) \<Longrightarrow> is_live_at (now q) row \<Longrightarrow>
    adds_row st q i (chain_id row) d d1 new \<Longrightarrow>
    d' = snd (mark_refresh_token_rotated (tok_id row) (now q) d1) \<Longrightarrow> session_step st q d d'"
| extend: "row \<in> set (tokens d) \<Longrightarrow> is_live_at (now q) row \<Longrightarrow> store_refuses q 0 \<Longrightarrow>
    adds_row st q i (chain_id row) d d' new \<Longrightarrow> session_step st q d d'"

lemma step_same [simp]: "session_step st q d d"
  by (rule mark) simp_all

context token_statement
begin

lemma step_stmt: "session_step st q d (stmt d)"
  using keeps_keys evolves_stmt by (intro mark) simp_all

end

lemma step_start_session:
  assumes "start_session st q secret user db0 = (res, db')"
  shows "session_step st q (auth_tokens db0) (auth_tokens db')"
proof (cases "issue_access_token (crypto st) (su_id user) (su_role user) secret (now q)
    ACCESS_TOKEN_TTL (Some (fresh_uuid q)) (fresh_jti q)")
  case None
  then show ?thesis using assms by (simp add: start_session_def)
next
  case (Some access)
  obtain r m where m: "mint_refresh_row st q (su_id user) (fresh_uuid q) None db0 = (r, m)" by fastforce
  have "db' = m" using assms Some m by (simp add: start_session_def split: sum.splits)
  from m show ?thesis by (cases rule: mint_cases) (auto simp: \<open>db' = m\<close> intro: open_chain)
qed

lemma step_login: "session_step st q (auth_tokens db) (auth_tokens (snd (post_login st q u p db)))"
proof -
  let ?n = "to_ascii_lowercase (trim_str u)"
  have bad: "auth_tokens (snd (login_bad_password st q ?n user i db)) = auth_tokens db" for user i
    by (auto simp: login_bad_password_def login_rejected_def Let_def split: prod.split sum.split)
  have ok: "session_step st q (auth_tokens db) (auth_tokens (snd (login_granted st q secret ?n user i db)))"
    for secret user i
  proof -
    let ?db0 = "record_login_success_audit q i ?n (on_users (record_login_success (db_now q) i) db)"
    have "session_step st q (auth_tokens ?db0)
        (auth_tokens (snd (start_session st q secret (session_user_of i user) ?db0)))"
      by (rule step_start_session [OF surjective_pairing])
    then show ?thesis by (simp add: login_granted_def)
  qed
  show ?thesis
    using bad ok
    by (auto simp: post_login_def login_rejected_def Let_def
        split: option.split lock_state.split prod.split)
qed

lemma refresh_check_cases:
  assumes "refresh_check st q s db = (res, db1)"
  obtains (stop) e where "res = Inl e" "auth_tokens db1 = auth_tokens db" "auth_users db1 = auth_users db"
  | (idle) row n where "res = Inl (Idle_Expired n)"
      "get_refresh_token_by_hash (hash_refresh_secret (crypto st) s) (auth_tokens db) = Some row"
      "auth_tokens db1 = (if store_refuses q 0 then auth_tokens db
         else snd (idle_revoke_chain (chain_id row) (now q) (auth_tokens db)))"
      "auth_users db1 = auth_users db"
  | (kill) row where "res = Inl Invalid_Credentials" "idle_for q row db = None"
      "get_refresh_token_by_hash (hash_refresh_secret (crypto st) s) (auth_tokens db) = Some row"
      "auth_tokens db1 = (if store_refuses q 0 then auth_tokens db
         else snd (revoke_chain (chain_id row) (now q) (auth_tokens db)))"
      "auth_users db1 = auth_users db"
  | (pass) secret row user where "res = Inr (secret, row, user)" "db1 = db"
      "admin_secret st = Some secret" "idle_for q row db = None"
      "get_refresh_token_by_hash (hash_refresh_secret (crypto st) s) (auth_tokens db) = Some row"
      "is_live_at (now q) row" "get_user_by_id (tok_user row) (auth_users db) = Some user"
      "\<not> disabled user" "deleted_at user = None"
proof (cases "admin_secret st")
  case None
  then show ?thesis using assms by (intro stop) (auto simp: refresh_check_def)
next
  case secret: (Some secret)
  show ?thesis
  proof (cases "get_refresh_token_by_hash (hash_refresh_secret (crypto st) s) (auth_tokens db)")
    case None
    then show ?thesis using assms secret by (intro stop) (auto simp: refresh_check_def)
  next
    case row: (Some row)
    show ?thesis
    proof (cases "idle_for q row db")
      case (Some n)
      then show ?thesis using assms secret row by (intro idle [of "num_seconds n" row]) (auto simp: refresh_check_def)
    next
      case None
      note eqs = assms secret row None
      consider "rotated_at row \<noteq> None \<or> revoked_at row \<noteq> None"
        | "rotated_at row = None" "revoked_at row = None" "\<not> is_live_at (now q) row"
        | "is_live_at (now q) row" unfolding is_live_at_def by blast
      then show ?thesis
      proof cases
        case 1
        then show ?thesis using eqs by (intro kill [of row]) (auto simp: refresh_check_def)
      next
        case 2
        then show ?thesis using eqs by (intro stop) (auto simp: refresh_check_def)
      next
        case 3
        then have live: "rotated_at row = None" "revoked_at row = None" by (simp_all add: is_live_at_def)
        show ?thesis
        proof (cases "get_user_by_id (tok_user row) (auth_users db)")
          case None
          then show ?thesis using eqs 3 live by (intro kill [of row]) (auto simp: refresh_check_def)
        next
          case (Some user)
          show ?thesis
          proof (cases "disabled user \<or> deleted_at user \<noteq> None")
            case True
            then show ?thesis using eqs 3 live Some by (intro kill [of row]) (auto simp: refresh_check_def)
          next
            case False
            then show ?thesis using eqs 3 live Some
              by (intro pass [of secret row user]) (auto simp: refresh_check_def)
          qed
        qed
      qed
    qed
  qed
qed

lemma refresh_commit_cases:
  assumes "refresh_commit st q (secret, row, user) db = (res, db2)"
  obtains (fail) e where "res = Inl e" "auth_tokens db2 = auth_tokens db" "auth_users db2 = auth_users db"
  | (rotated) access s new d where
      "res = Inr (make_token_response access s (session_user_of (uid user) user))"
      "fresh_secret q = Some s"
      "issue_access_token (crypto st) (uid user) (user_role user) secret (now q) ACCESS_TOKEN_TTL
         (Some (chain_id row)) (fresh_jti q) = Some access"
      "adds_row st q (uid user) (chain_id row) (auth_tokens db) d new"
      "auth_tokens db2 = (if store_refuses q 0 then d else snd (mark_refresh_token_rotated (tok_id row) (now q) d))"
      "auth_users db2 = auth_users db"
proof (cases "issue_access_token (crypto st) (uid user) (user_role user) secret (now q) ACCESS_TOKEN_TTL
         (Some (chain_id row)) (fresh_jti q)")
  case None
  then show ?thesis using assms by (intro fail) (auto simp: refresh_commit_def)
next
  case (Some access)
  obtain r m where m: "mint_refresh_row st q (uid user) (chain_id row) (Some (tok_id row)) db = (r, m)"
    by fastforce
  from m show ?thesis
  proof (cases rule: mint_cases)
    case (fail e)
    then show ?thesis using assms Some m by (intro that(1)) (auto simp: refresh_commit_def)
  next
    case (mint s new)
    then show ?thesis using assms Some m
      by (intro that(2) [of access s "auth_tokens m" new]) (auto simp: refresh_commit_def Let_def)
  qed
qed

lemma rotate_evolves:
  "evolves N d d' \<Longrightarrow> (\<And>r r'. N r \<Longrightarrow> later_row r r' \<Longrightarrow> N r') \<Longrightarrow>
     evolves N d (snd (mark_refresh_token_rotated i t d'))"
  using evolves_trans rotate.evolves_any by blast

lemma post_refresh_cases:
  obtains (refused) e db1 where "refresh_check st q s db = (Inl e, db1)" "post_refresh st q s db = (Inl e, db1)"
  | (found) secret row user where "refresh_check st q s db = (Inr (secret, row, user), db)"
      "get_refresh_token_by_hash (hash_refresh_secret (crypto st) s) (auth_tokens db) = Some row"
      "is_live_at (now q) row" "idle_for q row db = None"
      "post_refresh st q s db = refresh_commit st q (secret, row, user) db"
proof -
  obtain res db1 where c: "refresh_check st q s db = (res, db1)" by fastforce
  from c show ?thesis
  proof (cases rule: refresh_check_cases)
    case (pass secret row user)
    then show ?thesis using c by (intro that(2)) (auto simp: post_refresh_def)
  qed (use c in \<open>auto simp: post_refresh_def intro: that(1)\<close>)
qed

lemma step_refresh: "session_step st q (auth_tokens db) (auth_tokens (snd (post_refresh st q s db)))"
proof (cases rule: post_refresh_cases [of st q s db])
  case (refused e db1)
  from refused(1) have "session_step st q (auth_tokens db) (auth_tokens db1)"
  proof (cases rule: refresh_check_cases)
    case (idle row n)
    then show ?thesis by (simp add: idle_revoke.step_stmt)
  next
    case (kill row)
    then show ?thesis by (simp add: revoke.step_stmt)
  qed simp_all
  then show ?thesis by (simp add: refused)
next
  case (found secret row user)
  obtain res db2 where c: "refresh_commit st q (secret, row, user) db = (res, db2)" by fastforce
  from c have "session_step st q (auth_tokens db) (auth_tokens db2)"
  proof (cases rule: refresh_commit_cases)
    case (fail e)
    then show ?thesis by simp
  next
    case (rotated access s' new d)
    show ?thesis
      using lookup_hash_member [OF found(2)] found(3) rotated(4,5)
      by (cases "store_refuses q 0") (auto intro: session_step.rotate session_step.extend)
  qed
  then show ?thesis by (simp add: found c)
qed

text \<open>The sweep over the chains of a user, seen from the token table.\<close>

fun revoke_rows :: "request \<Rightarrow> (nat \<times> refresh_token) list \<Rightarrow> sessions_db \<Rightarrow> sessions_db" where
  "revoke_rows q [] d = d"
| "revoke_rows q ((n, row) # rows) d =
     revoke_rows q rows (if store_refuses q n then d else snd (revoke_chain (chain_id row) (now q) d))"

lemma revoke_all_tokens:
  "auth_tokens (fold (\<lambda>(n, row). best_effort q n (revoked (chain_id row) (now q))) rows db) =
     revoke_rows q rows (auth_tokens db) \<and>
   auth_users (fold (\<lambda>(n, row). best_effort q n (revoked (chain_id row) (now q))) rows db) = auth_users db"
proof (induction rows arbitrary: db)
  case (Cons x rows)
  obtain n row where "x = (n, row)" by fastforce
  then show ?case using Cons by simp
qed simp

lemma revoke_all_keeps:
  "tokens_inv d \<Longrightarrow> tokens_inv (revoke_rows q rows d)"
  "evolves (\<lambda>_. False) d (revoke_rows q rows d)"
proof (induction q rows d rule: revoke_rows.induct)
  case (2 q n row rows d)
  { case 1
    then show ?case using 2 by (simp add: revoke.keeps_keys)
  next
    case 2
    have "evolves (\<lambda>_. False) d (if store_refuses q n then d else snd (revoke_chain (chain_id row) (now q) d))"
      using revoke.evolves_stmt by simp
    from evolves_trans [OF this "2.IH"(2)] show ?case by simp
  }
qed simp_all

interpretation revoke_all: token_statement "\<lambda>d. revoke_rows q rows d"
  by unfold_locales (simp_all add: revoke_all_keeps)

lemma change_password_cases:
  assumes "post_change_password st q ctx old new db = (res, db')"
  obtains (refused) e where "res = Inl e" "auth_tokens db' = auth_tokens db" "auth_users db' = auth_users db"
  | (changed) user i phc h u where "res = Inr ()"
      "get_user_by_id (ctx_user_id ctx) (auth_users db) = Some user"
      "get_password_hash_for_login (username user) (auth_users db) = Some (i, phc)"
      "verify_password (crypto st) old phc" "hash_password (crypto st) new = Inr h"
      "update_user_password (db_now q) i h False (auth_users db) = (Inr (), u)"
      "auth_users db' = u"
      "auth_tokens db' = revoke_rows q
         (enumerate 0 (list_active_refresh_tokens_for_user i (now q) (auth_tokens db))) (auth_tokens db)"
proof (cases "is_legacy_admin ctx \<or> ctx_user_id ctx = 0 \<or>
    get_user_by_id (ctx_user_id ctx) (auth_users db) = None")
  case True
  then have "res = Inl Invalid_Credentials \<and> db' = db"
    using assms by (auto simp: post_change_password_def split: if_splits)
  then show ?thesis by (intro refused) simp_all
next
  case False
  then obtain user where u: "get_user_by_id (ctx_user_id ctx) (auth_users db) = Some user" by auto
  show ?thesis
  proof (cases "get_password_hash_for_login (username user) (auth_users db)")
    case None
    then show ?thesis using assms False u by (intro refused) (auto simp: post_change_password_def)
  next
    case (Some a)
    obtain i phc where a: "a = (i, phc)" by fastforce
    note base = assms False u Some a
    show ?thesis
    proof (cases "verify_password (crypto st) old phc")
      case False
      then show ?thesis using base by (intro refused) (auto simp: post_change_password_def)
    next
      case v: True
      show ?thesis
      proof (cases "hash_password (crypto st) new")
        case (Inl e)
        then show ?thesis using base v by (intro refused) (auto simp: post_change_password_def)
      next
        case h: (Inr h)
        obtain ur un where upd: "update_user_password (db_now q) i h False (auth_users db) = (ur, un)"
          by fastforce
        show ?thesis
        proof (cases ur)
          case (Inl e)
          then show ?thesis using base v h upd by (intro refused) (auto simp: post_change_password_def)
        next
          case (Inr x)
          then have "db' = record_action_audit q i (username user) ''password.change'' True
              (revoke_user_sessions q i (db\<lparr>auth_users := un\<rparr>))" "res = Inr ()"
            using base v h upd by (auto simp: post_change_password_def)
          then show ?thesis
            using base v h upd Inr
            by (intro changed [of user i phc h un]) (simp_all add: revoke_user_sessions_def revoke_all_tokens)
        qed
      qed
    qed
  qed
qed

lemma step_change_password:
  "session_step st q (auth_tokens db) (auth_tokens (snd (post_change_password st q ctx old new db)))"
proof -
  obtain res db' where r: "post_change_password st q ctx old new db = (res, db')" by fastforce
  from r show ?thesis
  proof (cases rule: change_password_cases)
    case (refused e)
    then show ?thesis using r by simp
  next
    case (changed user i phc h u)
    then show ?thesis using r by (simp add: revoke_all.step_stmt)
  qed
qed

lemma step_logout: "session_step st q (auth_tokens db) (auth_tokens (snd (post_logout st q s db)))"
  by (simp add: post_logout_def revoke.step_stmt split: option.split)

lemma step_first_run:
  "session_step st q (auth_tokens db) (auth_tokens (snd (post_first_run_setup st q u p db)))"
proof -
  obtain res db' where r: "post_first_run_setup st q u p db = (res, db')" by fastforce
  consider "auth_tokens db' = auth_tokens db"
    | secret user db0 where "start_session st q secret user db0 = (res, db')" "auth_tokens db0 = auth_tokens db"
    using r by (auto simp: post_first_run_setup_def Let_def
        split: if_splits option.splits sum.splits prod.splits users_error.splits)
  then show ?thesis by cases (use r step_start_session in \<open>force+\<close>)
qed

lemma step_exec: "session_step st q (auth_tokens db) (auth_tokens (auth_exec st (q, req) db))"
  by (cases req)
    (simp_all add: step_login step_refresh step_logout step_change_password step_first_run
      bump.step_stmt sweep.step_stmt)

subsection \<open>Users\<close>

definition user_ops :: "(instant \<Rightarrow> string) \<Rightarrow> users_db \<Rightarrow> users_db \<Rightarrow> bool" where
  "user_ops fmt u u' \<longleftrightarrow> (\<exists>ops. u' = fold (user_exec fmt) ops u)"

lemma user_ops_refl [simp]: "user_ops fmt u u"
  unfolding user_ops_def by (rule exI [of _ "[]"]) simp

lemma user_ops_one: "u' = user_exec fmt op u \<Longrightarrow> user_ops fmt u u'"
  unfolding user_ops_def by (rule exI [of _ "[op]"]) simp

lemma start_session_users: "auth_users (snd (start_session st q secret user db)) = auth_users db"
  using start_session_keeps(1) [OF surjective_pairing] by simp

lemma users_login: "user_ops fmt (auth_users db) (auth_users (snd (post_login st q u p db)))"
proof -
  let ?n = "to_ascii_lowercase (trim_str u)"
  have bad: "user_ops fmt (auth_users db) (auth_users (snd (login_bad_password st q ?n user i db)))" for user i
    using user_ops_one [of _ fmt "(db_now q, Login_Failure i (new_count (evaluate_failure (now q) user (lockout st)))
           (lock_until (evaluate_failure (now q) user (lockout st))))" "auth_users db"]
    by (auto simp: login_bad_password_def login_rejected_def Let_def split: prod.split sum.split)
  have ok: "user_ops fmt (auth_users db) (auth_users (snd (login_granted st q secret ?n user i db)))"
    for secret user i
    using user_ops_one [of _ fmt "(db_now q, Login_Success i)" "auth_users db"]
    by (simp add: login_granted_def start_session_users)
  show ?thesis
    using bad ok
    by (auto simp: post_login_def login_rejected_def Let_def
        split: option.split lock_state.split prod.split)
qed

lemma users_refresh [simp]: "auth_users (snd (post_refresh st q s db)) = auth_users db"
proof (cases rule: post_refresh_cases [of st q s db])
  case (refused e db1)
  from refused(1) have "auth_users db1 = auth_users db"
    by (cases rule: refresh_check_cases) simp_all
  then show ?thesis by (simp add: refused)
next
  case (found secret row user)
  obtain res db2 where c: "refresh_commit st q (secret, row, user) db = (res, db2)" by fastforce
  from c have "auth_users db2 = auth_users db" by (cases rule: refresh_commit_cases) simp_all
  then show ?thesis by (simp add: found c)
qed

lemma users_change_password:
  "user_ops fmt (auth_users db) (auth_users (snd (post_change_password st q ctx old new db)))"
proof -
  obtain res db' where r: "post_change_password st q ctx old new db = (res, db')" by fastforce
  from r show ?thesis
  proof (cases rule: change_password_cases)
    case (refused e)
    then show ?thesis using r by simp
  next
    case (changed user i phc h u)
    then show ?thesis
      using r user_ops_one [of u fmt "(db_now q, Update_Password i h False)" "auth_users db"] by simp
  qed
qed

lemma users_first_run:
  "user_ops fmt (auth_users db) (auth_users (snd (post_first_run_setup st q u p db)))"
proof (cases "\<not> allows_local (auth_mode_of st) \<or> admin_secret st = None \<or> count_users (auth_users db) > 0")
  case True
  then show ?thesis by (auto simp: post_first_run_setup_def split: option.split)
next
  case False
  then obtain secret where sec: "admin_secret st = Some secret" by auto
  show ?thesis
  proof (cases "hash_password (crypto st) p")
    case (Inl e)
    then show ?thesis using False sec by (simp add: post_first_run_setup_def Let_def)
  next
    case (Inr h)
    let ?new = "\<lparr>nu_username = first_run_username u, nu_role = Admin, nu_password_hash = Some h,
                     nu_oidc_subject_hash = None, nu_force_password_reset = False\<rparr>"
    obtain cr cu where c: "create_user (db_now q) ?new (auth_users db) = (cr, cu)" by fastforce
    show ?thesis
    proof (cases cr)
      case (Inl e)
      then show ?thesis using False sec Inr c
        by (cases e) (simp_all add: post_first_run_setup_def Let_def)
    next
      case i: (Inr i)
      then have "auth_users (snd (post_first_run_setup st q u p db)) = record_login_success (db_now q) i cu"
        using False sec Inr c
        by (simp add: post_first_run_setup_def Let_def start_session_users)
      also have "\<dots> = fold (user_exec fmt) [(db_now q, Create_User ?new), (db_now q, Login_Success i)] (auth_users db)"
        by (simp add: c)
      finally show ?thesis unfolding user_ops_def by blast
    qed
  qed
qed

lemma users_exec: "user_ops fmt (auth_users db) (auth_users (auth_exec st (q, req) db))"
proof (cases req)
  case (Logout s)
  then show ?thesis by (simp add: post_logout_def split: option.split)
qed (simp_all add: users_login users_change_password users_first_run)

text \<open>
  C9. Every request implements the abstract session table and the user table, on
  every branch of its handler that does not end in a store error, and whichever of
  its best-effort statements the store refuses: the tokens take one step of
  \<open>session_step\<close> (mark, open a chain, rotate a live row, or extend its chain when
  the rotation mark was refused), and the users change by operations of the
  store only.
\<close>

theorem request_refines_tables:
  "session_step st q (auth_tokens db) (auth_tokens (auth_exec st (q, req) db)) \<and>
   user_ops fmt (auth_users db) (auth_users (auth_exec st (q, req) db))"
  by (simp add: step_exec users_exec)

subsection \<open>What a step preserves\<close>

text \<open>A row a step may add to table \<open>d\<close>: of a new chain, or of one not closed.\<close>

definition may_add :: "login_state \<Rightarrow> request \<Rightarrow> sessions_db \<Rightarrow> refresh_token \<Rightarrow> bool" where
  "may_add st q d r =
     (minted st q (chain_id r) r \<and>
      (chain_id r = fresh_uuid q \<or>
       list_ex (\<lambda>row. chain_id row = chain_id r \<and> \<not> closed_row row) (tokens d)))"

lemma may_add_later: "may_add st q d r \<Longrightarrow> later_row r r' \<Longrightarrow> may_add st q d r'"
  using minted_later by (auto simp: may_add_def later_row_def)

lemma step_evolves:
  assumes "session_step st q d d'"
  shows "evolves (may_add st q d) d d'" "tokens_inv d \<Longrightarrow> tokens_inv d'"
proof -
  have "evolves (may_add st q d) d d' \<and> (tokens_inv d \<longrightarrow> tokens_inv d')"
    using assms
  proof cases
    case mark
    then show ?thesis using evolves_mono by blast
  next
    case (open_chain i new)
    have "evolves (may_add st q d) d d'"
      by (rule evolves_mono [OF adds_row_evolves(1) [OF open_chain]]) (auto simp: may_add_def minted_def)
    then show ?thesis using adds_row_evolves(2) [OF open_chain] by simp
  next
    case (rotate row i d1 new)
    have "\<not> closed_row row" using rotate(2) by (simp add: is_live_at_def closed_row_def)
    then have "evolves (may_add st q d) d d1"
      using rotate(1)
      by (intro evolves_mono [OF adds_row_evolves(1) [OF rotate(3)]])
        (auto simp: may_add_def minted_def list_ex_iff)
    then have "evolves (may_add st q d) d d'"
      unfolding rotate(4) by (rule rotate_evolves) (rule may_add_later)
    then show ?thesis
      using adds_row_evolves(2) [OF rotate(3)] rotate.keeps_keys by (simp add: rotate(4))
  next
    case (extend row i new)
    have "\<not> closed_row row" using extend(2) by (simp add: is_live_at_def closed_row_def)
    then have "evolves (may_add st q d) d d'"
      using extend(1)
      by (intro evolves_mono [OF adds_row_evolves(1) [OF extend(4)]])
        (auto simp: may_add_def minted_def list_ex_iff)
    then show ?thesis using adds_row_evolves(2) [OF extend(4)] by simp
  qed
  then show "evolves (may_add st q d) d d'" "tokens_inv d \<Longrightarrow> tokens_inv d'" by blast+
qed

section \<open>Refresh tokens work once\<close>

lemma refresh_success:
  assumes "post_refresh st q s db = (Inr resp, db1)" "\<not> store_refuses q 0"
  obtains row and user :: user_row and new d where
    "get_refresh_token_by_hash (hash_refresh_secret (crypto st) s) (auth_tokens db) = Some row"
    "is_live_at (now q) row" "admin_secret st \<noteq> None"
    "adds_row st q (uid user) (chain_id row) (auth_tokens db) d new"
    "auth_tokens db1 = snd (mark_refresh_token_rotated (tok_id row) (now q) d)"
    "auth_users db1 = auth_users db"
proof (cases rule: post_refresh_cases [of st q s db])
  case (refused e db1)
  with assms show ?thesis by simp
next
  case (found secret row user)
  have "admin_secret st \<noteq> None" using found(1) by (cases "admin_secret st") (simp_all add: refresh_check_def)
  from found(5) assms have "refresh_commit st q (secret, row, user) db = (Inr resp, db1)" by simp
  then show ?thesis
  proof (cases rule: refresh_commit_cases)
    case (rotated access s' new d)
    show ?thesis
      using rotated(5) assms(2)
      by (intro that [OF found(2,3) \<open>admin_secret st \<noteq> None\<close> rotated(4) _ rotated(6)]) simp
  qed simp
qed

lemma rotated_spent:
  assumes "tokens_inv d" "r \<in> set (tokens d)"
  shows "spent (token_hash r) (snd (mark_refresh_token_rotated (tok_id r) t d))"
proof -
  have u: "tok_id s = tok_id r" if "s \<in> set (tokens d)" "token_hash s = token_hash r" for s
    using assms that by (metis (no_types, lifting) distinct_map inj_on_eq_iff tokens_inv_def)
  have "list_ex (\<lambda>s. tok_id s = tok_id r) (tokens d)" using assms(2) by (auto simp: list_ex_iff)
  then have t: "tokens (snd (mark_refresh_token_rotated (tok_id r) t d)) =
      map (\<lambda>s. if tok_id s = tok_id r then s\<lparr>rotated_at := Some t\<rparr> else s) (tokens d)"
    by (simp add: mark_refresh_token_rotated_def)
  show ?thesis
    unfolding spent_def t list.pred_map comp_def using u by (auto simp: list_all_iff)
qed

lemma refresh_spends:
  assumes "tokens_inv (auth_tokens db)" "post_refresh st q s db = (Inr resp, db1)" "\<not> store_refuses q 0"
  shows "spent (hash_refresh_secret (crypto st) s) (auth_tokens db1)" "tokens_inv (auth_tokens db1)"
proof -
  obtain row and user :: user_row and new d where
    r: "get_refresh_token_by_hash (hash_refresh_secret (crypto st) s) (auth_tokens db) = Some row"
    and d: "adds_row st q (uid user) (chain_id row) (auth_tokens db) d new"
    and m: "auth_tokens db1 = snd (mark_refresh_token_rotated (tok_id row) (now q) d)"
    by (rule refresh_success [OF assms(2,3)])
  have inv: "tokens_inv d" using adds_row_evolves(2) [OF d assms(1)] .
  have "row \<in> set (tokens d)" "token_hash row = hash_refresh_secret (crypto st) s"
    using lookup_hash_member [OF r] d by (auto simp: adds_row_def)
  then show "spent (hash_refresh_secret (crypto st) s) (auth_tokens db1)"
    using rotated_spent [OF inv] m by metis
  show "tokens_inv (auth_tokens db1)" unfolding m by (rule rotate.keeps_keys [OF inv])
qed

lemma spent_refused:
  assumes "spent (hash_refresh_secret (crypto st) s) (auth_tokens db)"
  shows "\<exists>e. fst (post_refresh st q s db) = Inl e"
proof (cases rule: post_refresh_cases [of st q s db])
  case (found secret row user)
  have "row \<in> set (tokens (auth_tokens db))" "token_hash row = hash_refresh_secret (crypto st) s"
    using lookup_hash_member [OF found(2)] by auto
  then have "rotated_at row \<noteq> None" using assms by (auto simp: spent_def list_all_iff)
  then show ?thesis using found(3) by (simp add: is_live_at_def)
qed simp

text \<open>Runs in which no request draws a secret with hash \<open>h\<close>.\<close>

definition draws_other :: "login_state \<Rightarrow> string \<Rightarrow> request \<Rightarrow> bool" where
  "draws_other st h q =
     (case fresh_secret q of None \<Rightarrow> True | Some s \<Rightarrow> hash_refresh_secret (crypto st) s \<noteq> h)"

lemma spent_exec:
  assumes "draws_other st h q" "spent h (auth_tokens db)"
  shows "spent h (auth_tokens (auth_exec st (q, req) db))"
proof (rule spent_evolves [OF _ assms(2)])
  have "evolves (may_add st q (auth_tokens db)) (auth_tokens db) (auth_tokens (auth_exec st (q, req) db))"
    by (rule step_evolves(1) [OF step_exec])
  then show "evolves (\<lambda>r. token_hash r \<noteq> h) (auth_tokens db) (auth_tokens (auth_exec st (q, req) db))"
    by (rule evolves_mono)
      (use assms(1) in \<open>auto simp: may_add_def minted_def draws_other_def split: option.splits\<close>)
qed

lemma spent_run:
  "list_all (\<lambda>(q, req). draws_other st h q) reqs \<Longrightarrow> spent h (auth_tokens db) \<Longrightarrow>
     spent h (auth_tokens (fold (auth_exec st) reqs db))"
  by (induction reqs arbitrary: db) (auto simp: spent_exec)

text \<open>
  C10. A refresh token works once.  After a refresh with a secret succeeded and the
  store took its rotation mark, and after any further requests (logins, refreshes,
  logouts, password changes, idle bumps, retention sweeps), whichever of their
  best-effort statements the store refuses, that do not draw a secret of the same
  hash, presenting it again is refused, at any time.
\<close>

theorem refresh_token_single_use:
  assumes "tokens_inv (auth_tokens db)" and "post_refresh st q s db = (Inr resp, db1)"
    and "\<not> store_refuses q 0"
    and "list_all (\<lambda>(q, req). draws_other st (hash_refresh_secret (crypto st) s) q) reqs"
  shows "\<exists>e. fst (post_refresh st q' s (fold (auth_exec st) reqs db1)) = Inl e"
  using refresh_spends(1) [OF assms(1-3)] spent_run [OF assms(4)] spent_refused by blast

text \<open>
  When the store refuses the mark, the exchanged token stays as it was: the refresh
  succeeds and the presented row is still live beside the new one.
\<close>

lemma unmarked_refresh_keeps_token:
  assumes "post_refresh st q s db = (Inr resp, db1)" and "store_refuses q 0"
  shows "\<exists>row new. row \<in> set (tokens (auth_tokens db1)) \<and> new \<in> set (tokens (auth_tokens db1))
    \<and> token_hash row = hash_refresh_secret (crypto st) s \<and> chain_id new = chain_id row
    \<and> is_live_at (now q) row \<and> is_live_at (now q) new"
proof (cases rule: post_refresh_cases [of st q s db])
  case (found secret row user)
  from found(5) assms(1) have "refresh_commit st q (secret, row, user) db = (Inr resp, db1)" by simp
  then show ?thesis
  proof (cases rule: refresh_commit_cases)
    case (rotated access s' new d)
    have "is_live_at (now q) new" "chain_id new = chain_id row" "tokens d = tokens (auth_tokens db) @ [new]"
      using rotated(4) by (auto simp: adds_row_def minted_def is_live_at_def REFRESH_TOKEN_TTL_def secs_def)
    then show ?thesis
      using rotated(5) assms(2) lookup_hash_member [OF found(2)] found(3) by (intro exI [of _ row] exI [of _ new]) auto
  qed simp
qed (use assms(1) in simp)

section \<open>A replay ends the session\<close>

lemma closed_exec:
  assumes "fresh_uuid q \<noteq> c" "chain_closed c (auth_tokens db)"
  shows "chain_closed c (auth_tokens (auth_exec st (q, req) db))"
proof (rule closed_evolves [OF _ assms(2)])
  have "evolves (may_add st q (auth_tokens db)) (auth_tokens db) (auth_tokens (auth_exec st (q, req) db))"
    by (rule step_evolves(1) [OF step_exec])
  then show "evolves (\<lambda>r. chain_id r \<noteq> c) (auth_tokens db) (auth_tokens (auth_exec st (q, req) db))"
    by (rule evolves_mono)
      (use assms in \<open>auto simp: may_add_def chain_closed_def list_all_iff list_ex_iff\<close>)
qed

lemma closed_run:
  "list_all (\<lambda>(q, req). fresh_uuid q \<noteq> c) reqs \<Longrightarrow> chain_closed c (auth_tokens db) \<Longrightarrow>
     chain_closed c (auth_tokens (fold (auth_exec st) reqs db))"
  by (induction reqs arbitrary: db) (auto simp: closed_exec)

lemma closed_refused:
  assumes "chain_closed c (auth_tokens db)"
    "get_refresh_token_by_hash (hash_refresh_secret (crypto st) s) (auth_tokens db) = Some row" "chain_id row = c"
  shows "\<exists>e. fst (post_refresh st q s db) = Inl e"
proof (cases rule: post_refresh_cases [of st q s db])
  case (found secret row' user)
  then have "row' = row" using assms(2) by simp
  then have "closed_row row'"
    using assms lookup_hash_member [OF found(2)] by (auto simp: chain_closed_def list_all_iff)
  then show ?thesis using found(3) by (simp add: is_live_at_def closed_row_def)
qed simp

lemma replay_closes:
  assumes "admin_secret st \<noteq> None" "rotated_at row \<noteq> None" "\<not> store_refuses q 0"
    "get_refresh_token_by_hash (hash_refresh_secret (crypto st) s) (auth_tokens db) = Some row"
  shows "chain_closed (chain_id row) (auth_tokens (snd (post_refresh st q s db)))"
proof -
  obtain secret where "admin_secret st = Some secret" using assms(1) by auto
  then have "post_refresh st q s db =
      (case idle_for q row db of
         Some idle \<Rightarrow> (Inl (Idle_Expired (num_seconds idle)),
           on_tokens (\<lambda>d. snd (idle_revoke_chain (chain_id row) (now q) d)) db)
       | None \<Rightarrow> (Inl Invalid_Credentials, revoked (chain_id row) (now q) db))"
    using assms by (simp add: post_refresh_def refresh_check_def best_effort_def split: option.split)
  then show ?thesis by (simp add: closes_chain split: option.split)
qed

text \<open>
  A replay ends the session for good, when the store takes the mark and the revocation.  When a secret that was already
  exchanged comes back, the whole chain of its login is closed, the token that
  replaced it included: after any further requests, no refresh with a token of
  that chain succeeds (new logins draw other chain ids).
\<close>

lemma replay_ends_session:
  assumes "tokens_inv (auth_tokens db)" and "post_refresh st q s db = (Inr resp, db1)"
    and "get_refresh_token_by_hash (hash_refresh_secret (crypto st) s) (auth_tokens db) = Some row"
    and "\<not> store_refuses q 0" and "\<not> store_refuses q' 0"
    and "list_all (\<lambda>(q, req). fresh_uuid q \<noteq> chain_id row) reqs"
    and "db3 = fold (auth_exec st) reqs (snd (post_refresh st q' s db1))"
    and "get_refresh_token_by_hash (hash_refresh_secret (crypto st) s3) (auth_tokens db3) = Some row3"
    and "chain_id row3 = chain_id row"
  shows "\<exists>e. fst (post_refresh st q3 s3 db3) = Inl e"
proof -
  obtain r and user :: user_row and new d where
    r: "get_refresh_token_by_hash (hash_refresh_secret (crypto st) s) (auth_tokens db) = Some r"
    and sec: "admin_secret st \<noteq> None"
    and d: "adds_row st q (uid user) (chain_id r) (auth_tokens db) d new"
    and m: "auth_tokens db1 = snd (mark_refresh_token_rotated (tok_id r) (now q) d)"
    by (rule refresh_success [OF assms(2,4)])
  have r': "row \<in> set (tokens d)" "r = row" "token_hash row = hash_refresh_secret (crypto st) s"
    using lookup_hash_member [OF assms(3)] r assms(3) d by (auto simp: adds_row_def)
  have "row\<lparr>rotated_at := Some (now q)\<rparr> \<in> set (tokens (auth_tokens db1))"
    using r'(1) unfolding m r'(2) mark_refresh_token_rotated_def by (auto simp: list_ex_iff)
  from lookup_hash [OF refresh_spends(2) [OF assms(1,2,4)] this]
  have "get_refresh_token_by_hash (hash_refresh_secret (crypto st) s) (auth_tokens db1) =
      Some (row\<lparr>rotated_at := Some (now q)\<rparr>)" by (simp add: r'(3))
  from replay_closes [OF sec _ assms(5) this]
  have "chain_closed (chain_id row) (auth_tokens (snd (post_refresh st q' s db1)))" by simp
  from closed_run [OF assms(6) this]
  have "chain_closed (chain_id row) (auth_tokens db3)" by (simp add: assms(7))
  from closed_refused [OF this assms(8,9)] show ?thesis .
qed


section \<open>One head per session\<close>

definition heads_ok :: "sessions_db \<Rightarrow> bool" where
  "heads_ok d \<longleftrightarrow>
     (\<forall>a \<in> set (tokens d). \<forall>b \<in> set (tokens d).
        chain_id a = chain_id b \<and> rotated_at a = None \<and> rotated_at b = None \<longrightarrow> tok_id a = tok_id b)"

lemma later_rotated: "later_row r r' \<Longrightarrow> rotated_at r' = None \<Longrightarrow> rotated_at r = None"
  by (cases "rotated_at r = None") (simp_all add: later_row_def)

lemma heads_evolve:
  assumes "evolves (\<lambda>_. False) d d'" "heads_ok d"
  shows "heads_ok d'"
  unfolding heads_ok_def
proof (intro ballI impI)
  fix a' b'
  assume a': "a' \<in> set (tokens d')" and b': "b' \<in> set (tokens d')"
    and h: "chain_id a' = chain_id b' \<and> rotated_at a' = None \<and> rotated_at b' = None"
  obtain a b where ab: "a \<in> set (tokens d)" "later_row a a'" "b \<in> set (tokens d)" "later_row b b'"
    using assms(1) a' b' unfolding evolves_def by blast
  have "chain_id a = chain_id b" "tok_id a' = tok_id a" "tok_id b' = tok_id b"
    using ab(2,4) h by (simp_all add: later_row_def)
  moreover have "rotated_at a = None" "rotated_at b = None"
    using later_rotated [OF ab(2)] later_rotated [OF ab(4)] h by simp_all
  ultimately show "tok_id a' = tok_id b'"
    using assms(2) ab(1,3) unfolding heads_ok_def by metis
qed

text \<open>One new row, the only unrotated one of its chain.\<close>

lemma heads_one_new:
  assumes "heads_ok d"
    "\<And>r. r \<in> set (tokens d') \<Longrightarrow> rotated_at r = None \<Longrightarrow>
       r = new \<or> r \<in> set (tokens d) \<and> chain_id r \<noteq> chain_id new"
  shows "heads_ok d'"
  unfolding heads_ok_def
proof (intro ballI impI)
  fix a b
  assume "a \<in> set (tokens d')" "b \<in> set (tokens d')"
    and h: "chain_id a = chain_id b \<and> rotated_at a = None \<and> rotated_at b = None"
  then consider "a = new" "b = new" | "a \<in> set (tokens d)" "b \<in> set (tokens d)"
    using assms(2) by metis
  then show "tok_id a = tok_id b"
  proof cases
    case 2
    then show ?thesis using assms(1) h unfolding heads_ok_def by blast
  qed simp
qed

lemma heads_open_chain:
  assumes "adds_row st q i c d d' new" "heads_ok d" "list_all (\<lambda>r. chain_id r \<noteq> c) (tokens d)"
  shows "heads_ok d'"
proof (rule heads_one_new [OF assms(2), of _ new])
  have "tokens d' = tokens d @ [new]" "chain_id new = c"
    using assms(1) by (simp_all add: adds_row_def minted_def)
  then show "\<And>r. r \<in> set (tokens d') \<Longrightarrow> r = new \<or> r \<in> set (tokens d) \<and> chain_id r \<noteq> chain_id new"
    using assms(3) by (auto simp: list_all_iff)
qed

lemma heads_rotate:
  assumes "tokens_inv d" "heads_ok d" "row \<in> set (tokens d)" "rotated_at row = None"
    "adds_row st q i (chain_id row) d d1 new"
  shows "heads_ok (snd (mark_refresh_token_rotated (tok_id row) t d1))"
proof (rule heads_one_new [OF assms(2), of _ new])
  have d1: "tokens d1 = tokens d @ [new]" "chain_id new = chain_id row" "tok_id new = next_token_id d"
    using assms(5) by (simp_all add: adds_row_def minted_def)
  have ne: "tok_id new \<noteq> tok_id row" using assms(1,3) by (auto simp: d1 tokens_inv_def list_all_iff)
  have ex: "list_ex (\<lambda>r. tok_id r = tok_id row) (tokens d1)"
    using assms(3) unfolding d1(1) list_ex_iff by auto
  fix r'
  assume "r' \<in> set (tokens (snd (mark_refresh_token_rotated (tok_id row) t d1)))" and n: "rotated_at r' = None"
  then obtain r where r: "r \<in> set (tokens d1)"
      "r' = (if tok_id r = tok_id row then r\<lparr>rotated_at := Some t\<rparr> else r)"
    using ex by (auto simp: mark_refresh_token_rotated_def)
  then have "r' = r" "tok_id r \<noteq> tok_id row" using n by (auto split: if_splits)
  show "r' = new \<or> r' \<in> set (tokens d) \<and> chain_id r' \<noteq> chain_id new"
  proof (cases "r = new")
    case False
    then have "r \<in> set (tokens d)" using r(1) by (simp add: d1)
    moreover have "chain_id r \<noteq> chain_id row"
      using assms(2,3,4) calculation n \<open>r' = r\<close> \<open>tok_id r \<noteq> tok_id row\<close> unfolding heads_ok_def by blast
    ultimately show ?thesis using \<open>r' = r\<close> by (simp add: d1)
  qed (simp add: \<open>r' = r\<close>)
qed

lemma heads_exec:
  assumes "tokens_inv (auth_tokens db)" "heads_ok (auth_tokens db)"
    "list_all (\<lambda>r. chain_id r \<noteq> fresh_uuid q) (tokens (auth_tokens db))" "\<not> store_refuses q 0"
  shows "heads_ok (auth_tokens (auth_exec st (q, req) db))"
  using step_exec [of st q db req]
proof cases
  case mark
  then show ?thesis using heads_evolve assms(2) by blast
next
  case (open_chain i new)
  then show ?thesis using heads_open_chain assms(2,3) by blast
next
  case (rotate row i d1 new)
  then show ?thesis
    using heads_rotate [OF assms(1,2) rotate(1) _ rotate(3)] by (simp add: is_live_at_def)
next
  case (extend row i new)
  with assms(4) show ?thesis by simp
qed

text \<open>Chain ids are drawn once: no request of a run draws one that is already in use.  And the store
  takes the rotation marks.\<close>

fun fresh_run :: "login_state \<Rightarrow> (request \<times> auth_request) list \<Rightarrow> auth_db \<Rightarrow> bool" where
  "fresh_run st [] db = True"
| "fresh_run st ((q, req) # reqs) db =
     (list_all (\<lambda>r. chain_id r \<noteq> fresh_uuid q) (tokens (auth_tokens db)) \<and> \<not> store_refuses q 0 \<and>
      fresh_run st reqs (auth_exec st (q, req) db))"

lemma heads_run:
  "tokens_inv (auth_tokens db) \<Longrightarrow> heads_ok (auth_tokens db) \<Longrightarrow> fresh_run st reqs db \<Longrightarrow>
     heads_ok (auth_tokens (fold (auth_exec st) reqs db))"
proof (induction reqs arbitrary: db)
  case (Cons x reqs)
  obtain q req where x: "x = (q, req)" by fastforce
  have "tokens_inv (auth_tokens (auth_exec st (q, req) db))"
    using step_evolves(2) [OF step_exec Cons.prems(1)] .
  then show ?case using Cons heads_exec x by simp
qed simp

text \<open>
  Requests served one after the other keep one live head per session: in
  every run from an empty token table whose chain ids are drawn fresh, two
  live rows of the same chain are the same row.
\<close>

lemma sequential_one_head:
  assumes "tokens (auth_tokens db) = []" and "fresh_run st reqs db"
    and "a \<in> set (tokens (auth_tokens (fold (auth_exec st) reqs db)))"
    and "b \<in> set (tokens (auth_tokens (fold (auth_exec st) reqs db)))"
    and "chain_id a = chain_id b" and "is_live_at t a" and "is_live_at t b"
  shows "a = b"
proof -
  let ?d = "auth_tokens (fold (auth_exec st) reqs db)"
  have inv: "tokens_inv (auth_tokens db)" "heads_ok (auth_tokens db)"
    using assms(1) by (simp_all add: tokens_inv_def heads_ok_def)
  have "tokens_inv ?d" using inv(1)
  proof (induction reqs arbitrary: db)
    case (Cons x reqs)
    obtain q req where x: "x = (q, req)" by fastforce
    show ?case using Cons step_evolves(2) [OF step_exec Cons.prems] by (simp add: x)
  qed simp
  moreover have "tok_id a = tok_id b"
    using heads_run [OF inv assms(2)] assms(3-) unfolding heads_ok_def is_live_at_def by blast
  ultimately show ?thesis
    using assms(3,4) by (metis (no_types, lifting) distinct_map inj_on_eq_iff tokens_inv_def)
qed

text \<open>A refresh whose check passed is served when its draws are usable: a secret whose hash is new
  to the table, and an access token the signer issues.\<close>

definition can_serve :: "login_state \<Rightarrow> request \<Rightarrow> string \<times> refresh_token \<times> user_row \<Rightarrow> sessions_db \<Rightarrow> bool" where
  "can_serve st q found d \<longleftrightarrow>
     (case found of (secret, row, user) \<Rightarrow>
        issue_access_token (crypto st) (uid user) (user_role user) secret (now q) ACCESS_TOKEN_TTL
          (Some (chain_id row)) (fresh_jti q) \<noteq> None)
     \<and> (case fresh_secret q of
          None \<Rightarrow> False
        | Some s \<Rightarrow> list_all (\<lambda>r. token_hash r \<noteq> hash_refresh_secret (crypto st) s) (tokens d))"

lemma served:
  assumes "can_serve st q found (auth_tokens db)"
  shows "\<exists>resp db1. refresh_commit st q found db = (Inr resp, db1)"
proof -
  obtain secret row user where f: "found = (secret, row, user)" by (cases found)
  obtain access where a: "issue_access_token (crypto st) (uid user) (user_role user) secret (now q) ACCESS_TOKEN_TTL
      (Some (chain_id row)) (fresh_jti q) = Some access" using assms by (auto simp: can_serve_def f)
  obtain s where s: "fresh_secret q = Some s"
    "list_all (\<lambda>r. token_hash r \<noteq> hash_refresh_secret (crypto st) s) (tokens (auth_tokens db))"
    using assms by (auto simp: can_serve_def split: option.splits)
  then have "\<not> list_ex (\<lambda>r. token_hash r = hash_refresh_secret (crypto st) s) (tokens (auth_tokens db))"
    by (auto simp: list_all_iff list_ex_iff)
  then show ?thesis using s(1)
    by (simp add: refresh_commit_def f a mint_refresh_row_def insert_refresh_token_def Let_def)
qed

text \<open>The row a served refresh adds is in the table afterwards, whether or not the mark was taken.\<close>

lemma served_adds:
  assumes "refresh_commit st q (secret, row, user) db = (Inr resp, db1)" "tok_id row < next_token_id (auth_tokens db)"
    "t < now q + REFRESH_TOKEN_TTL"
  obtains new s where "fresh_secret q = Some s" "token_hash new = hash_refresh_secret (crypto st) s"
    "tok_id new = next_token_id (auth_tokens db)" "next_token_id (auth_tokens db1) = next_token_id (auth_tokens db) + 1"
    "chain_id new = chain_id row" "is_live_at t new" "new \<in> set (tokens (auth_tokens db1))"
    "\<And>r. r \<in> set (tokens (auth_tokens db)) \<Longrightarrow> tok_id r \<noteq> tok_id row \<Longrightarrow> r \<in> set (tokens (auth_tokens db1))"
    "token_hash ` set (tokens (auth_tokens db1)) = insert (token_hash new) (token_hash ` set (tokens (auth_tokens db)))"
  using assms(1)
proof (cases rule: refresh_commit_cases)
  case (rotated access s new d)
  have n: "tokens d = tokens (auth_tokens db) @ [new]" "next_token_id d = next_token_id (auth_tokens db) + 1"
    "tok_id new = next_token_id (auth_tokens db)" "chain_id new = chain_id row" "is_live_at t new"
    "token_hash new = hash_refresh_secret (crypto st) s"
    using rotated(2,4) assms(3) by (simp_all add: adds_row_def minted_def is_live_at_def)
  have keep: "r \<in> set (tokens (auth_tokens db1))" if "r \<in> set (tokens d)" "tok_id r \<noteq> tok_id row" for r
    using that by (auto simp: rotated(5) mark_refresh_token_rotated_def)
  show ?thesis
  proof (rule that [OF rotated(2) n(6,3) _ n(4,5)])
    show "next_token_id (auth_tokens db1) = next_token_id (auth_tokens db) + 1"
      by (simp add: rotated(5) mark_refresh_token_rotated_def n(2))
    show "new \<in> set (tokens (auth_tokens db1))" using keep n(1,3) assms(2) by simp
    show "\<And>r. r \<in> set (tokens (auth_tokens db)) \<Longrightarrow> tok_id r \<noteq> tok_id row \<Longrightarrow> r \<in> set (tokens (auth_tokens db1))"
      using keep n(1) by simp
    have "map token_hash (tokens (auth_tokens db1)) = map token_hash (tokens d)"
      by (simp add: rotated(5) mark_refresh_token_rotated_def)
    then have "token_hash ` set (tokens (auth_tokens db1)) = token_hash ` set (tokens d)" by (metis set_map)
    then show "token_hash ` set (tokens (auth_tokens db1)) = insert (token_hash new) (token_hash ` set (tokens (auth_tokens db)))"
      by (simp add: n(1))
  qed
qed simp

text \<open>
  C11. Two refreshes that interleave fork the session.  If a second request with the same
  secret passes its check before the first one has marked the row, and both drew secrets
  that are new and different and can be given access tokens, then both are served, and
  the chain ends with two live tokens, each good for thirty days: single use holds only as
  far as requests do not overlap.
\<close>

theorem concurrent_refresh_forks_session:
  assumes "tokens_inv (auth_tokens db)"
    and "refresh_check st q1 s db = (Inr found1, db)" and "refresh_check st q2 s db = (Inr found2, db)"
    and "can_serve st q1 found1 (auth_tokens db)" and "can_serve st q2 found2 (auth_tokens db)"
    and "fresh_secret q1 = Some s1" and "fresh_secret q2 = Some s2"
    and "hash_refresh_secret (crypto st) s1 \<noteq> hash_refresh_secret (crypto st) s2"
    and "t < now q1 + REFRESH_TOKEN_TTL" and "t < now q2 + REFRESH_TOKEN_TTL"
  shows "\<exists>resp1 db1 resp2 db2.
    refresh_commit st q1 found1 db = (Inr resp1, db1) \<and> refresh_commit st q2 found2 db1 = (Inr resp2, db2)
    \<and> (\<exists>a \<in> set (tokens (auth_tokens db2)). \<exists>b \<in> set (tokens (auth_tokens db2)).
         tok_id a \<noteq> tok_id b \<and> chain_id a = chain_id b \<and> is_live_at t a \<and> is_live_at t b)"
proof -
  obtain k1 row1 u1 where f1: "found1 = (k1, row1, u1)"
    "get_refresh_token_by_hash (hash_refresh_secret (crypto st) s) (auth_tokens db) = Some row1"
    using assms(2) by (cases rule: refresh_check_cases) auto
  obtain k2 row2 u2 where f2: "found2 = (k2, row2, u2)"
    "get_refresh_token_by_hash (hash_refresh_secret (crypto st) s) (auth_tokens db) = Some row2"
    using assms(3) by (cases rule: refresh_check_cases) auto
  have rr: "row2 = row1" using f1(2) f2(2) by simp
  have i1: "tok_id row1 < next_token_id (auth_tokens db)"
    using lookup_hash_member [OF f1(2)] assms(1) by (auto simp: tokens_inv_def list_all_iff)
  obtain resp1 db1 where c1: "refresh_commit st q1 found1 db = (Inr resp1, db1)" using served [OF assms(4)] by blast
  obtain new1 where n1: "token_hash new1 = hash_refresh_secret (crypto st) s1"
    "tok_id new1 = next_token_id (auth_tokens db)" "next_token_id (auth_tokens db1) = next_token_id (auth_tokens db) + 1"
    "chain_id new1 = chain_id row1" "is_live_at t new1" "new1 \<in> set (tokens (auth_tokens db1))"
    "token_hash ` set (tokens (auth_tokens db1)) = insert (token_hash new1) (token_hash ` set (tokens (auth_tokens db)))"
    using served_adds [OF c1 [unfolded f1(1)] i1 assms(9)] assms(6) by (metis option.inject)
  have "hash_refresh_secret (crypto st) s2 \<notin> token_hash ` set (tokens (auth_tokens db1))"
    using assms(5,7,8) n1(1) unfolding n1(7) by (auto simp: can_serve_def list_all_iff)
  then have "\<forall>r \<in> set (tokens (auth_tokens db1)). token_hash r \<noteq> hash_refresh_secret (crypto st) s2" by (metis imageI)
  then have "can_serve st q2 found2 (auth_tokens db1)"
    using assms(5,7) by (auto simp: can_serve_def list_all_iff)
  from served [OF this] obtain resp2 db2 where c2: "refresh_commit st q2 found2 db1 = (Inr resp2, db2)" by blast
  have i2: "tok_id row2 < next_token_id (auth_tokens db1)" using i1 n1(3) rr by simp
  obtain new2 where n2: "tok_id new2 = next_token_id (auth_tokens db1)" "chain_id new2 = chain_id row1"
    "is_live_at t new2" "new2 \<in> set (tokens (auth_tokens db2))" "new1 \<in> set (tokens (auth_tokens db2))"
    using served_adds [OF c2 [unfolded f2(1)] i2 assms(10)] n1(2,6) i1 unfolding rr by (metis less_irrefl)
  have "tok_id new1 \<noteq> tok_id new2" using n1(2,3) n2(1) by simp
  then show ?thesis using c1 c2 n1(4,5) n2(2-5) by metis
qed

section \<open>A concrete session\<close>

definition demo_state :: login_state where
  "demo_state =
     \<lparr>crypto = demo_lib, admin_secret = Some ''k'', lockout = default_lockout, auth_mode_of = Local\<rparr>"

definition demo_req :: "int \<Rightarrow> string \<Rightarrow> request" where
  "demo_req n s =
     \<lparr>now = secs n, db_now = secs n, ip = ''10.0.0.9'', ua = None, fresh_secret = Some s,
      fresh_uuid = ''u'' @ s, fresh_jti = ''j'', store_refuses = (\<lambda>n. False)\<rparr>"

definition demo_token :: "int \<Rightarrow> int \<Rightarrow> string \<Rightarrow> int option \<Rightarrow> refresh_token" where
  "demo_token n i s p =
     \<lparr>tok_id = i, token_hash = ''h:'' @ s, tok_user = 1, chain_id = ''c0'', parent_id = p,
      expires_at = secs (n + 2592000), rotated_at = None, revoked_at = None, tok_user_agent = None,
      tok_ip = Some ''10.0.0.9'', tok_created_at = secs n, last_active_at = Some (secs n),
      idle_revoked_at = None\<rparr>"

definition demo_auth :: auth_db where
  "demo_auth =
     \<lparr>auth_users = \<lparr>users = [(demo_user 1 ''ann'' Admin)\<lparr>password_hash := Some ''phc:correct horse''\<rparr>],
                     next_user_id = 2\<rparr>,
      auth_tokens = \<lparr>tokens = [demo_token 5 1 ''s0'' None], next_token_id = 2\<rparr>, auth_audit = []\<rparr>"

definition demo_auth1 :: auth_db where
  "demo_auth1 = snd (post_refresh demo_state (demo_req 10 ''s1'') ''s0'' demo_auth)"

lemmas demo_defs = demo_state_def demo_req_def demo_token_def demo_auth_def demo_lib_def demo_user_def

lemmas refresh_eval = post_refresh_def refresh_check_def refresh_commit_def hash_refresh_secret_def
  get_refresh_token_by_hash_def idle_for_def max_chain_last_active_at_def effective_last_active_at_def
  IDLE_TIMEOUT_def is_live_at_def secs_def get_user_by_id_def issue_access_token_def
  best_effort_def mint_refresh_row_def insert_refresh_token_def mark_refresh_token_rotated_def token_row_def
  REFRESH_TOKEN_TTL_def

lemma demo_inv: "tokens_inv (auth_tokens demo_auth)"
  by (simp add: tokens_inv_def demo_defs)

lemma demo_refresh:
  "\<exists>resp. post_refresh demo_state (demo_req 10 ''s1'') ''s0'' demo_auth = (Inr resp, demo_auth1)"
  by (simp add: demo_auth1_def demo_defs refresh_eval Let_def)

lemma demo_auth1_tokens:
  "auth_tokens demo_auth1 =
     \<lparr>tokens = [(demo_token 5 1 ''s0'' None)\<lparr>rotated_at := Some (secs 10)\<rparr>, demo_token 10 2 ''s1'' (Some 1)],
      next_token_id = 3\<rparr>"
  by (simp add: demo_auth1_def demo_defs refresh_eval Let_def)

theorem refresh_token_single_use_witness:
  "\<exists>e. fst (post_refresh demo_state (demo_req 20 ''s3'') ''s0''
     (fold (auth_exec demo_state) [(demo_req 15 ''s2'', Refresh ''s1'')] demo_auth1)) = Inl e"
proof -
  obtain resp where r: "post_refresh demo_state (demo_req 10 ''s1'') ''s0'' demo_auth = (Inr resp, demo_auth1)"
    using demo_refresh by blast
  have "list_all (\<lambda>(q, req). draws_other demo_state (hash_refresh_secret (crypto demo_state) ''s0'') q)
      [(demo_req 15 ''s2'', Refresh ''s1'')]"
    by (simp add: draws_other_def hash_refresh_secret_def demo_defs)
  from refresh_token_single_use [OF demo_inv r _ this] show ?thesis by (simp add: demo_req_def)
qed

theorem concurrent_refresh_forks_session_witness:
  "\<exists>found1 found2 resp1 resp2 db1 db2.
     refresh_check demo_state (demo_req 10 ''s1'') ''s0'' demo_auth = (Inr found1, demo_auth)
   \<and> refresh_check demo_state (demo_req 10 ''s2'') ''s0'' demo_auth = (Inr found2, demo_auth)
   \<and> refresh_commit demo_state (demo_req 10 ''s1'') found1 demo_auth = (Inr resp1, db1)
   \<and> refresh_commit demo_state (demo_req 10 ''s2'') found2 db1 = (Inr resp2, db2)
   \<and> (\<exists>a \<in> set (tokens (auth_tokens db2)). \<exists>b \<in> set (tokens (auth_tokens db2)).
        tok_id a \<noteq> tok_id b \<and> chain_id a = chain_id b \<and> is_live_at (secs 11) a \<and> is_live_at (secs 11) b)"
proof -
  let ?u = "(demo_user 1 ''ann'' Admin)\<lparr>password_hash := Some ''phc:correct horse''\<rparr>"
  let ?f = "(''k'', demo_token 5 1 ''s0'' None, ?u)"
  have c: "refresh_check demo_state (demo_req 10 s) ''s0'' demo_auth = (Inr ?f, demo_auth)" for s
    by (simp add: demo_defs refresh_eval Let_def)
  have v: "can_serve demo_state (demo_req 10 ''s1'') ?f (auth_tokens demo_auth)"
    "can_serve demo_state (demo_req 10 ''s2'') ?f (auth_tokens demo_auth)"
    by (simp_all add: can_serve_def demo_defs issue_access_token_def hash_refresh_secret_def)
  have d: "fresh_secret (demo_req 10 ''s1'') = Some ''s1''" "fresh_secret (demo_req 10 ''s2'') = Some ''s2''"
    "hash_refresh_secret (crypto demo_state) ''s1'' \<noteq> hash_refresh_secret (crypto demo_state) ''s2''"
    by (simp_all add: demo_defs hash_refresh_secret_def)
  have "secs 11 < now (demo_req 10 s) + REFRESH_TOKEN_TTL" for s
    by (simp add: demo_req_def REFRESH_TOKEN_TTL_def secs_def)
  from concurrent_refresh_forks_session [OF demo_inv c c v d this this] c show ?thesis by blast
qed

end
