(* ===== verification/Login_Security.thy ===== *)
theory Login_Security
  imports Session_Security
begin

text \<open>
  Accounts under attack: what a successful login implies, that a series of wrong
  passwords locks the account against the right one too, and that a change of
  password ends every session of the user.  The lemmas on lookups carry a row
  of the user table through the updates of the handlers.
\<close>

section \<open>Lookups\<close>

lemma find_map_keeps:
  "(\<And>x. x \<in> set xs \<Longrightarrow> P (g x) = P x) \<Longrightarrow> find P (map g xs) = map_option g (find P xs)"
  by (induction xs) auto

lemma same_uid:
  "users_inv db \<Longrightarrow> u \<in> set (users db) \<Longrightarrow> v \<in> set (users db) \<Longrightarrow> uid u = uid v \<Longrightarrow> u = v"
  by (metis (no_types, lifting) distinct_map inj_on_eq_iff users_inv_def)

lemma same_name:
  assumes "users_inv db" "u \<in> set (users db)" "v \<in> set (users db)"
    "nocase_eq (username u) n" "nocase_eq (username v) n"
  shows "u = v"
proof -
  have "clash u v" using assms(4,5) by (simp add: clash_def nocase_eq_def)
  then have "uid u = uid v" using assms(1-3) unfolding users_inv_def by blast
  then show ?thesis using same_uid assms(1-3) by blast
qed

lemma by_username:
  "get_user_by_username n db = Some u \<Longrightarrow> u \<in> set (users db) \<and> nocase_eq (username u) n \<and> deleted_at u = None"
  unfolding get_user_by_username_def using find_member by fastforce

lemma by_id: "get_user_by_id i db = Some u \<Longrightarrow> u \<in> set (users db) \<and> uid u = i"
  unfolding get_user_by_id_def using find_member by fastforce

lemma find_unique:
  assumes "v \<in> set xs" "P v" "\<And>w. w \<in> set xs \<Longrightarrow> P w \<Longrightarrow> w = v"
  shows "find P xs = Some v"
proof -
  obtain w where "find P xs = Some w"
    using assms(1,2) by (cases "find P xs") (auto simp: find_None_iff)
  then show ?thesis using find_member [of P xs w] assms(3) by auto
qed

lemma by_username_iff:
  assumes "users_inv db"
  shows "get_user_by_username n db = Some u \<longleftrightarrow>
    u \<in> set (users db) \<and> nocase_eq (username u) n \<and> deleted_at u = None"
proof
  assume u: "u \<in> set (users db) \<and> nocase_eq (username u) n \<and> deleted_at u = None"
  show "get_user_by_username n db = Some u"
    unfolding get_user_by_username_def
    by (rule find_unique) (use u same_name [OF assms] in auto)
qed (rule by_username)

lemma by_id_iff:
  assumes "users_inv db"
  shows "get_user_by_id i db = Some u \<longleftrightarrow> u \<in> set (users db) \<and> uid u = i"
proof
  assume u: "u \<in> set (users db) \<and> uid u = i"
  show "get_user_by_id i db = Some u"
    unfolding get_user_by_id_def by (rule find_unique) (use u same_uid [OF assms] in auto)
qed (rule by_id)

lemma password_hash_iff:
  assumes "users_inv db"
  shows "get_password_hash_for_login n db = Some (i, phc) \<longleftrightarrow>
    (\<exists>u. get_user_by_username n db = Some u \<and> uid u = i \<and> password_hash u = Some phc)"
proof
  assume "get_password_hash_for_login n db = Some (i, phc)"
  then obtain u where u: "find (\<lambda>u. nocase_eq (username u) n \<and> deleted_at u = None \<and> password_hash u \<noteq> None)
      (users db) = Some u" "uid u = i" "the (password_hash u) = phc"
    by (auto simp: get_password_hash_for_login_def)
  then have "u \<in> set (users db)" "nocase_eq (username u) n" "deleted_at u = None" "password_hash u = Some phc"
    using find_member [OF u(1)] by auto
  then show "\<exists>u. get_user_by_username n db = Some u \<and> uid u = i \<and> password_hash u = Some phc"
    using u(2) by_username_iff [OF assms] by blast
next
  assume "\<exists>u. get_user_by_username n db = Some u \<and> uid u = i \<and> password_hash u = Some phc"
  then obtain u where u: "u \<in> set (users db)" "nocase_eq (username u) n" "deleted_at u = None"
      "uid u = i" "password_hash u = Some phc" using by_username by blast
  have "find (\<lambda>u. nocase_eq (username u) n \<and> deleted_at u = None \<and> password_hash u \<noteq> None) (users db) = Some u"
    by (rule find_unique) (use u same_name [OF assms] in auto)
  then show "get_password_hash_for_login n db = Some (i, phc)"
    using u by (simp add: get_password_hash_for_login_def)
qed

text \<open>A row replaced in place, its id kept.\<close>

lemma replaced_by_username:
  assumes "users_inv db" "users_inv db'" "get_user_by_username n db = Some u"
    "users db' = map (\<lambda>v. if uid v = uid u then u' else v) (users db)"
    "username u' = username u" "deleted_at u' = None"
  shows "get_user_by_username n db' = Some u'"
proof -
  have "u' \<in> set (users db')" using by_username [OF assms(3)] unfolding assms(4) by auto
  then show ?thesis using by_username [OF assms(3)] assms(5,6) by (simp add: by_username_iff [OF assms(2)])
qed

section \<open>Login\<close>

lemma login_cases:
  assumes "users_inv (auth_users db)" "admin_secret st = Some secret"
    "get_user_by_username (to_ascii_lowercase (trim_str u)) (auth_users db) = Some user"
    "\<not> disabled user" "evaluate (now q) user = Unlocked" "password_hash user = Some phc"
  shows "post_login st q u p db =
    (if verify_password (crypto st) p phc
     then login_granted st q secret (to_ascii_lowercase (trim_str u)) user (uid user) db
     else login_bad_password st q (to_ascii_lowercase (trim_str u)) user (uid user) db)"
proof -
  have "get_password_hash_for_login (to_ascii_lowercase (trim_str u)) (auth_users db) = Some (uid user, phc)"
    using assms(3,6) by (simp add: password_hash_iff [OF assms(1)])
  then show ?thesis using assms by_username [OF assms(3)] by (simp add: post_login_def Let_def)
qed

lemma login_locked:
  assumes "get_user_by_username (to_ascii_lowercase (trim_str u)) (auth_users db) = Some user"
    "evaluate (now q) user = Locked t" "admin_secret st = Some secret"
  shows "post_login st q u p db = login_rejected q (to_ascii_lowercase (trim_str u)) db"
  using assms by (simp add: post_login_def Let_def)

lemma bad_password_refused: "\<exists>e. fst (login_bad_password st q n user i db) = Inl e"
  by (auto simp: login_bad_password_def login_rejected_def Let_def split: prod.split sum.split)

lemma login_granted_success:
  assumes "login_granted st q secret n user i db = (Inr resp, db')"
  shows "resp_user resp = session_user_of i user"
    "auth_users db' = record_login_success (db_now q) i (auth_users db)"
    "\<exists>r \<in> set (tokens (auth_tokens db')). tok_user r = i \<and> chain_id r = fresh_uuid q \<and> is_live_at (now q) r"
proof -
  let ?db0 = "record_login_success_audit q i n (on_users (record_login_success (db_now q) i) db)"
  obtain access where a: "issue_access_token (crypto st) i (user_role user) secret (now q)
      ACCESS_TOKEN_TTL (Some (fresh_uuid q)) (fresh_jti q) = Some access"
    using assms by (cases "issue_access_token (crypto st) i (user_role user) secret (now q)
      ACCESS_TOKEN_TTL (Some (fresh_uuid q)) (fresh_jti q)")
      (auto simp: login_granted_def start_session_def session_user_of_def)
  obtain r m where m: "mint_refresh_row st q i (fresh_uuid q) None ?db0 = (r, m)" by fastforce
  have rm: "db' = m" "\<exists>s. r = Inr s \<and> resp = make_token_response access s (session_user_of i user)"
    using assms a m by (auto simp: login_granted_def start_session_def session_user_of_def split: sum.splits)
  then show "resp_user resp = session_user_of i user" by (auto simp: make_token_response_def)
  from m show "auth_users db' = record_login_success (db_now q) i (auth_users db)"
    by (cases rule: mint_cases) (use rm in auto)
  from m show "\<exists>r \<in> set (tokens (auth_tokens db')). tok_user r = i \<and> chain_id r = fresh_uuid q \<and> is_live_at (now q) r"
    by (cases rule: mint_cases)
      (use rm in \<open>auto simp: adds_row_def minted_def is_live_at_def REFRESH_TOKEN_TTL_def secs_def\<close>)
qed

lemma login_success_cases:
  assumes "users_inv (auth_users db)" "post_login st q u p db = (Inr resp, db')"
  obtains secret user phc where
    "get_user_by_username (to_ascii_lowercase (trim_str u)) (auth_users db) = Some user"
    "\<not> disabled user" "evaluate (now q) user = Unlocked" "password_hash user = Some phc"
    "verify_password (crypto st) p phc"
    "login_granted st q secret (to_ascii_lowercase (trim_str u)) user (uid user) db = (Inr resp, db')"
proof -
  let ?n = "to_ascii_lowercase (trim_str u)"
  obtain secret where sec: "admin_secret st = Some secret"
    using assms(2) by (cases "admin_secret st") (auto simp: post_login_def)
  obtain user where user: "get_user_by_username ?n (auth_users db) = Some user"
    using assms(2) sec by (cases "get_user_by_username ?n (auth_users db)")
      (auto simp: post_login_def login_rejected_def Let_def)
  have un: "\<not> disabled user" "evaluate (now q) user = Unlocked"
    using assms(2) sec user
    by (auto simp: post_login_def login_rejected_def Let_def split: if_splits lock_state.splits)
  obtain phc where phc: "password_hash user = Some phc"
  proof (cases "get_password_hash_for_login ?n (auth_users db)")
    case None
    then show ?thesis using assms(2) sec user un
      by (auto simp: post_login_def login_rejected_def Let_def split: if_splits)
  next
    case (Some a)
    then show ?thesis
      using that user password_hash_iff [OF assms(1), of ?n "fst a" "snd a"] by auto
  qed
  have "post_login st q u p db = (if verify_password (crypto st) p phc
      then login_granted st q secret ?n user (uid user) db
      else login_bad_password st q ?n user (uid user) db)"
    by (rule login_cases [OF assms(1) sec user un phc])
  then have "verify_password (crypto st) p phc"
    "login_granted st q secret ?n user (uid user) db = (Inr resp, db')"
    using assms(2) bad_password_refused [of st q ?n user "uid user" db]
    by (metis fst_conv sum.distinct(1))+
  then show ?thesis by (rule that [OF user un phc])
qed

text \<open>
  C12. A login succeeds only for an enabled, existing, unlocked account whose
  stored hash accepts the password.  It then clears the lockout state of that
  account and opens a chain of its own with one live token of that user; the
  session speaks for that user with the stored role.
\<close>

theorem login_sound:
  assumes "users_inv (auth_users db)" and "post_login st q u p db = (Inr resp, db')"
  shows "\<exists>user phc. get_user_by_username (to_ascii_lowercase (trim_str u)) (auth_users db) = Some user
    \<and> \<not> disabled user \<and> evaluate (now q) user = Unlocked
    \<and> password_hash user = Some phc \<and> verify_password (crypto st) p phc
    \<and> resp_user resp = session_user_of (uid user) user
    \<and> get_user_by_id (uid user) (auth_users db') = Some (user\<lparr>last_login_at := Some (db_now q),
        failed_login_count := 0, locked_until := None, updated_at := db_now q\<rparr>)
    \<and> (\<exists>r \<in> set (tokens (auth_tokens db')). tok_user r = uid user \<and> chain_id r = fresh_uuid q
        \<and> is_live_at (now q) r)"
proof -
  obtain secret user phc where
    user: "get_user_by_username (to_ascii_lowercase (trim_str u)) (auth_users db) = Some user"
    and ok: "\<not> disabled user" "evaluate (now q) user = Unlocked" "password_hash user = Some phc"
      "verify_password (crypto st) p phc"
    and g: "login_granted st q secret (to_ascii_lowercase (trim_str u)) user (uid user) db = (Inr resp, db')"
    by (rule login_success_cases [OF assms])
  note res = login_granted_success [OF g]
  have inv: "users_inv (auth_users db')"
    using inv_user_exec [OF assms(1), of "\<lambda>_. []" "db_now q" "Login_Success (uid user)"]
    by (simp add: res(2))
  have "user\<lparr>last_login_at := Some (db_now q), failed_login_count := 0, locked_until := None,
      updated_at := db_now q\<rparr> \<in> set (users (auth_users db'))"
    using by_username [OF user] by (auto simp: res(2) record_login_success_def)
  then have "get_user_by_id (uid user) (auth_users db') = Some (user\<lparr>last_login_at := Some (db_now q),
        failed_login_count := 0, locked_until := None, updated_at := db_now q\<rparr>)"
    by (simp add: by_id_iff [OF inv])
  then show ?thesis using user ok res(1,3) by blast
qed

section \<open>Lockout\<close>

lemma bad_password_step:
  assumes "users_inv (auth_users db)" "user \<in> set (users (auth_users db))"
  shows "users (auth_users (snd (login_bad_password st q n user (uid user) db))) =
    map (\<lambda>v. if uid v = uid user then fail_row (lockout st) (now q) (db_now q) user else v)
      (users (auth_users db))"
proof -
  obtain u' where "record_login_failure (db_now q) (uid user)
      (new_count (evaluate_failure (now q) user (lockout st)))
      (lock_until (evaluate_failure (now q) user (lockout st))) (auth_users db) = (Inr (), u')"
    "users u' = map (\<lambda>v. if uid v = uid user then fail_row (lockout st) (now q) (db_now q) user else v)
      (users (auth_users db))"
    using record_failure_is_fail_row [OF assms refl, where now = "now q" and cfg = "lockout st" and ts = "db_now q"]
    by blast
  then show ?thesis by (simp add: login_bad_password_def login_rejected_def Let_def)
qed

lemma users_inv_login:
  assumes "users_inv (auth_users db)"
  shows "users_inv (auth_users (snd (post_login st q u p db)))"
proof -
  obtain ops where ops: "auth_users (snd (post_login st q u p db)) = fold (user_exec (\<lambda>_. [])) ops (auth_users db)"
    using users_login unfolding user_ops_def by blast
  have "users_inv (fold (user_exec (\<lambda>_. [])) ops v)" if "users_inv v" for v
    using that
  proof (induction ops arbitrary: v)
    case (Cons x xs)
    then show ?case using inv_user_exec by (cases x) simp
  qed simp
  then show ?thesis using assms by (simp add: ops)
qed

text \<open>A series of wrong passwords against one name.\<close>

definition attempts :: "login_state \<Rightarrow> string \<Rightarrow> (request \<times> string) list \<Rightarrow> auth_db \<Rightarrow> auth_db" where
  "attempts st u xs db = fold (\<lambda>(q, p) db. snd (post_login st q u p db)) xs db"

definition instants :: "(request \<times> string) list \<Rightarrow> (instant \<times> instant) list" where
  "instants xs = map (\<lambda>(q, p). (now q, db_now q)) xs"

lemma within_gaps_butlast: "within_gaps w (xs @ [x]) \<Longrightarrow> within_gaps w xs"
  by (induction w xs rule: within_gaps.induct) auto

lemma fail_run_snoc: "fail_run cfg (ts @ [t]) u = fail_row cfg (fst t) (snd t) (fail_run cfg ts u)"
  by (simp add: fail_run_def case_prod_beta)

lemma fail_run_keeps:
  "username (fail_run cfg ts u) = username u" "deleted_at (fail_run cfg ts u) = deleted_at u"
  "disabled (fail_run cfg ts u) = disabled u" "password_hash (fail_run cfg ts u) = password_hash u"
  "uid (fail_run cfg ts u) = uid u"
  by (induction ts arbitrary: u) (simp_all add: fail_row_def)

lemma attempts_run:
  assumes "users_inv (auth_users db)" "admin_secret st = Some secret"
    "get_user_by_username (to_ascii_lowercase (trim_str u)) (auth_users db) = Some user"
    "\<not> disabled user" "locked_until user = None" "failed_login_count user = 0" "password_hash user = Some phc"
    "list_all (\<lambda>(q, p). \<not> verify_password (crypto st) p phc) xs"
    "within_gaps (secs (uint (window_secs (lockout st)))) (instants xs)"
    "int (length xs) \<le> uint (max_attempts (lockout st))"
  shows "users_inv (auth_users (attempts st u xs db)) \<and>
    get_user_by_username (to_ascii_lowercase (trim_str u)) (auth_users (attempts st u xs db)) =
      Some (fail_run (lockout st) (instants xs) user)"
  using assms(8-10)
proof (induction xs rule: rev_induct)
  case Nil
  then show ?case using assms(1,3) by (simp add: attempts_def instants_def)
next
  case (snoc x xs)
  obtain q p where x: "x = (q, p)" by fastforce
  let ?n = "to_ascii_lowercase (trim_str u)" and ?cfg = "lockout st"
  let ?db = "attempts st u xs db" and ?u = "fail_run ?cfg (instants xs) user"
  have gaps: "within_gaps (secs (uint (window_secs ?cfg))) (instants xs)"
    using snoc.prems(2) within_gaps_butlast by (simp add: instants_def)
  then have IH: "users_inv (auth_users ?db)" "get_user_by_username ?n (auth_users ?db) = Some ?u"
    using snoc by simp_all
  have "locked_until ?u = None"
  proof (cases "instants xs = []")
    case False
    have small: "uint (max_attempts ?cfg) \<le> 4294967295"
      using uint_lt2p [of "max_attempts ?cfg"] by simp
    then show ?thesis
      using fail_run_fresh [OF gaps False, of user] assms(6) snoc.prems(3)
      by (simp add: instants_def max_i64_def)
  qed (simp add: assms(5))
  then have "evaluate (now q) ?u = Unlocked" by (simp add: evaluate_def)
  moreover have "\<not> verify_password (crypto st) p phc" using snoc.prems(1) x by simp
  ultimately have "post_login st q u p ?db = login_bad_password st q ?n ?u (uid ?u) ?db"
    using login_cases [OF IH(1) assms(2) IH(2), of q phc p] assms(4,7) by (simp add: fail_run_keeps)
  then have step: "attempts st u (xs @ [x]) db = snd (login_bad_password st q ?n ?u (uid ?u) ?db)"
    by (simp add: attempts_def x)
  have inv: "users_inv (auth_users (attempts st u (xs @ [x]) db))"
    using users_inv_login [OF IH(1), of st q u p] by (simp add: attempts_def x)
  have mem: "?u \<in> set (users (auth_users ?db))" using by_username [OF IH(2)] by blast
  have "get_user_by_username ?n (auth_users (attempts st u (xs @ [x]) db)) =
      Some (fail_row ?cfg (now q) (db_now q) ?u)"
    using replaced_by_username [OF IH(1) inv IH(2), of "fail_row ?cfg (now q) (db_now q) ?u"]
      bad_password_step [OF IH(1) mem, of st q ?n] by_username [OF IH(2)]
    by (simp add: step fail_row_def)
  then show ?case using inv by (simp add: fail_run_snoc instants_def x)
qed

text \<open>
  C13. The lock is enforced at the door.  After \<open>max_attempts\<close> wrong passwords
  for an account, no two of them further apart than the window, every login to
  that account before the lock runs out is refused, with the right password
  too, and changes nothing but the audit log.
\<close>

theorem lockout_enforced:
  assumes "users_inv (auth_users db)" and "admin_secret st = Some secret"
    and "get_user_by_username (to_ascii_lowercase (trim_str u)) (auth_users db) = Some user"
    and "\<not> disabled user" and "locked_until user = None" and "failed_login_count user = 0"
    and "password_hash user = Some phc"
    and "list_all (\<lambda>(q, p). \<not> verify_password (crypto st) p phc) xs" and "xs \<noteq> []"
    and "within_gaps (secs (uint (window_secs (lockout st)))) (instants xs)"
    and "int (length xs) = uint (max_attempts (lockout st))"
    and "now q < now (fst (last xs)) + secs (uint (lockout_secs (lockout st)))"
  shows "post_login st q u p (attempts st u xs db) =
    login_rejected q (to_ascii_lowercase (trim_str u)) (attempts st u xs db)"
proof -
  let ?u = "fail_run (lockout st) (instants xs) user"
  have u: "get_user_by_username (to_ascii_lowercase (trim_str u)) (auth_users (attempts st u xs db)) = Some ?u"
    using attempts_run [OF assms(1-8,10)] assms(11) by simp
  have ne: "instants xs \<noteq> []" "fst (last (instants xs)) = now (fst (last xs))"
    using assms(9) by (simp_all add: instants_def last_map case_prod_beta)
  have "uint (max_attempts (lockout st)) \<le> 4294967295"
    using uint_lt2p [of "max_attempts (lockout st)"] by simp
  then have "locked_until ?u = Some (now (fst (last xs)) + secs (uint (lockout_secs (lockout st))))"
    using fail_run_fresh [OF assms(10) ne(1), of user] assms(6,11) ne(2)
    by (simp add: instants_def max_i64_def)
  then have "evaluate (now q) ?u = Locked (now (fst (last xs)) + secs (uint (lockout_secs (lockout st))))"
    using assms(12) by (simp add: evaluate_def)
  then show ?thesis by (rule login_locked [OF u _ assms(2)])
qed

section \<open>Change of password\<close>

lemma revoke_all_closes:
  assumes "\<forall>n. \<not> store_refuses q n"
  shows "row \<in> snd ` set rows \<Longrightarrow> chain_closed (chain_id row) (revoke_rows q rows d)"
proof (induction rows arbitrary: d)
  case (Cons x rows)
  obtain n row' where x: "x = (n, row')" by fastforce
  have keep: "chain_closed (chain_id row) (revoke_rows q rows y)" if "chain_closed (chain_id row) y" for y
    by (rule closed_evolves [OF _ that]) (rule revoke_all.evolves_any)
  show ?case
  proof (cases "row = row'")
    case True
    then show ?thesis using keep closes_chain(1) assms x by simp
  qed (use Cons assms x in auto)
qed simp

lemma user_sessions_dead:
  assumes "r \<in> set (tokens (auth_tokens (revoke_user_sessions q i db)))" "tok_user r = i" "now q \<le> t"
    "\<forall>n. \<not> store_refuses q n"
  shows "\<not> is_live_at t r"
proof
  let ?live = "list_active_refresh_tokens_for_user i (now q) (auth_tokens db)"
  have eq: "auth_tokens (revoke_user_sessions q i db) = revoke_rows q (enumerate 0 ?live) (auth_tokens db)"
    by (simp add: revoke_user_sessions_def revoke_all_tokens)
  assume live: "is_live_at t r"
  obtain r0 where r0: "r0 \<in> set (tokens (auth_tokens db))" "later_row r0 r"
    using revoke_all.row_from [of r q "enumerate 0 ?live" "auth_tokens db"] assms(1) by (auto simp: eq)
  have "is_live_at (now q) r0" using later_not_live [OF r0(2) live] live_earlier assms(3) by blast
  then have "r0 \<in> set ?live"
    using r0 assms(2) by (simp add: list_active_refresh_tokens_for_user_def is_live_at_def later_row_def)
  then have "chain_closed (chain_id r0) (auth_tokens (revoke_user_sessions q i db))"
    unfolding eq by (intro revoke_all_closes [OF assms(4)]) (simp flip: set_map)
  then have "closed_row r"
    using assms(1) r0(2) by (simp add: chain_closed_def list_all_iff later_row_def)
  then show False using live by (simp add: is_live_at_def closed_row_def)
qed

text \<open>
  C14. A change of password ends every session: when it succeeds, the account's
  stored hash is that of the new password, and when the store refused none of the
  revocations, no refresh token of the user, of any chain, is live from then on.
\<close>

theorem change_password_ends_sessions:
  assumes "users_inv (auth_users db)" and "post_change_password st q ctx old new db = (Inr (), db')"
  shows "(\<exists>user h. hash_password (crypto st) new = Inr h
      \<and> get_user_by_id (ctx_user_id ctx) (auth_users db') = Some user \<and> password_hash user = Some h)
    \<and> ((\<forall>n. \<not> store_refuses q n) \<longrightarrow>
        (\<forall>r t. r \<in> set (tokens (auth_tokens db')) \<longrightarrow> tok_user r = ctx_user_id ctx \<longrightarrow> now q \<le> t \<longrightarrow> \<not> is_live_at t r))"
  using assms(2)
proof (cases rule: change_password_cases)
  case (changed user i phc h u)
  obtain v where v: "get_user_by_username (username user) (auth_users db) = Some v" "uid v = i"
    using changed(3) by (auto simp: password_hash_iff [OF assms(1)])
  have "v = user"
    using same_name [OF assms(1)] by_username [OF v(1)] by_id [OF changed(2)] by (simp add: nocase_eq_def)
  then have i: "i = ctx_user_id ctx" "user \<in> set (users (auth_users db))" "deleted_at user = None"
    using v(2) by_id [OF changed(2)] by_username [OF v(1)] by auto
  have "\<not> is_live_at t r" if "\<forall>n. \<not> store_refuses q n" "r \<in> set (tokens (auth_tokens db'))"
      "tok_user r = ctx_user_id ctx" "now q \<le> t" for r t
    using user_sessions_dead [of r q i db t] that i(1)
    by (simp add: changed(8) revoke_user_sessions_def revoke_all_tokens)
  moreover have "users_inv u"
    using inv_user_exec [OF assms(1), of "\<lambda>_. []" "db_now q" "Update_Password i h False"] changed(6) by simp
  moreover have "u = update_where (\<lambda>u. uid u = i \<and> deleted_at u = None)
      (\<lambda>u. u\<lparr>password_hash := Some h, force_password_reset := False, updated_at := db_now q\<rparr>) (auth_users db)"
    using changed(6) by (auto simp: update_user_password_def split: if_splits)
  then have "user\<lparr>password_hash := Some h, force_password_reset := False, updated_at := db_now q\<rparr> \<in> set (users u)"
    using i v(2) \<open>v = user\<close> by auto
  ultimately show ?thesis
    using changed(5,7) i by_id [OF changed(2)] by_id_iff [of u "ctx_user_id ctx"] by auto
qed simp


section \<open>The properties on the concrete session\<close>

definition ann :: user_row where
  "ann = (demo_user 1 ''ann'' Admin)\<lparr>password_hash := Some ''phc:correct horse''\<rparr>"

lemma demo_users_inv: "users_inv (auth_users demo_auth)"
  by (simp add: users_inv_def demo_defs row_ok_def)

lemma ann_name: "to_ascii_lowercase (trim_str '' Ann'') = ''ann''"
  by code_simp

lemma ann_found: "get_user_by_username (to_ascii_lowercase (trim_str '' Ann'')) (auth_users demo_auth) = Some ann"
  unfolding ann_name by (simp add: get_user_by_username_def nocase_eq_def demo_auth_def demo_user_def ann_def)

lemma ann_fields:
  "\<not> disabled ann" "locked_until ann = None" "failed_login_count ann = 0"
  "password_hash ann = Some ''phc:correct horse''" "uid ann = 1" "username ann = ''ann''"
  by (simp_all add: ann_def demo_user_def)

lemma demo_login:
  "\<exists>resp db'. post_login demo_state (demo_req 10 ''s1'') '' Ann'' ''correct horse'' demo_auth = (Inr resp, db')"
proof -
  have "admin_secret demo_state = Some ''k''" "evaluate (now (demo_req 10 ''s1'')) ann = Unlocked"
    "verify_password (crypto demo_state) ''correct horse'' ''phc:correct horse''"
    by (simp_all add: demo_state_def evaluate_def ann_fields verify_password_def demo_lib_def)
  then have "post_login demo_state (demo_req 10 ''s1'') '' Ann'' ''correct horse'' demo_auth =
      login_granted demo_state (demo_req 10 ''s1'') ''k'' ''ann'' ann 1 demo_auth"
    using login_cases [OF demo_users_inv _ ann_found ann_fields(1) _ ann_fields(4)]
    by (simp add: ann_name ann_fields)
  then show ?thesis
    by (simp add: login_granted_def start_session_def session_user_of_def demo_defs refresh_eval Let_def)
qed

theorem login_sound_witness:
  "\<exists>resp db'. post_login demo_state (demo_req 10 ''s1'') '' Ann'' ''correct horse'' demo_auth = (Inr resp, db')
    \<and> resp_user resp = session_user_of 1 ann"
proof -
  obtain resp db' where p:
    "post_login demo_state (demo_req 10 ''s1'') '' Ann'' ''correct horse'' demo_auth = (Inr resp, db')"
    using demo_login by blast
  from login_sound [OF demo_users_inv this] ann_found have "resp_user resp = session_user_of (uid ann) ann"
    by auto
  then show ?thesis using p by (simp add: ann_fields)
qed

definition guesses :: "(request \<times> string) list" where
  "guesses = map (\<lambda>n. (demo_req n ''s9'', ''guess'')) [10, 20, 30, 40, 50]"

theorem lockout_enforced_witness:
  "post_login demo_state (demo_req 900 ''s1'') '' Ann'' ''correct horse'' (attempts demo_state '' Ann'' guesses demo_auth) =
   login_rejected (demo_req 900 ''s1'') ''ann'' (attempts demo_state '' Ann'' guesses demo_auth)"
proof -
  have "admin_secret demo_state = Some ''k''"
    "list_all (\<lambda>(q, p). \<not> verify_password (crypto demo_state) p ''phc:correct horse'') guesses" "guesses \<noteq> []"
    "within_gaps (secs (uint (window_secs (lockout demo_state)))) (instants guesses)"
    "int (length guesses) = uint (max_attempts (lockout demo_state))"
    "now (demo_req 900 ''s1'') < now (fst (last guesses)) + secs (uint (lockout_secs (lockout demo_state)))"
    by (simp_all add: guesses_def demo_defs verify_password_def instants_def default_lockout_def secs_def)
  from lockout_enforced [OF demo_users_inv this(1) ann_found ann_fields(1-4) this(2-6)]
  show ?thesis by (simp add: ann_name)
qed

definition ann_ctx :: session_context where
  "ann_ctx = \<lparr>ctx_user_id = 1, ctx_role = Admin, ctx_jti = ''j'', is_legacy_admin = False, ctx_chain_id = Some ''c0''\<rparr>"

lemma demo_change:
  "\<exists>db'. post_change_password demo_state (demo_req 10 ''s1'') ann_ctx ''correct horse'' ''battery staple'' demo_auth
     = (Inr (), db')
   \<and> auth_tokens db' =
       \<lparr>tokens = [(demo_token 5 1 ''s0'' None)\<lparr>revoked_at := Some (secs 10)\<rparr>], next_token_id = 2\<rparr>"
proof -
  have "check_password_policy [''# list'', ''password1234''] ''battery staple'' = Inr ()" by code_simp
  then have "hash_password demo_lib ''battery staple'' = Inr ''phc:battery staple''"
    by (simp add: hash_password_def demo_lib_def)
  then show ?thesis
    by (simp add: post_change_password_def ann_ctx_def demo_state_def demo_req_def demo_token_def
        demo_auth_def demo_user_def get_user_by_id_def get_password_hash_for_login_def nocase_eq_def
        verify_password_def demo_lib_def update_user_password_def revoke_user_sessions_def
        list_active_refresh_tokens_for_user_def revoke_chain_def secs_def)
qed

theorem change_password_ends_sessions_witness:
  "\<exists>db' r. post_change_password demo_state (demo_req 10 ''s1'') ann_ctx ''correct horse'' ''battery staple'' demo_auth
     = (Inr (), db') \<and> r \<in> set (tokens (auth_tokens db')) \<and> \<not> is_live_at (secs 11) r"
proof -
  obtain db' where p: "post_change_password demo_state (demo_req 10 ''s1'') ann_ctx ''correct horse'' ''battery staple''
      demo_auth = (Inr (), db')"
    and t: "auth_tokens db' =
       \<lparr>tokens = [(demo_token 5 1 ''s0'' None)\<lparr>revoked_at := Some (secs 10)\<rparr>], next_token_id = 2\<rparr>"
    using demo_change by blast
  let ?r = "(demo_token 5 1 ''s0'' None)\<lparr>revoked_at := Some (secs 10)\<rparr>"
  have "?r \<in> set (tokens (auth_tokens db'))" "tok_user ?r = ctx_user_id ann_ctx"
    "now (demo_req 10 ''s1'') \<le> secs 11"
    by (simp_all add: t demo_token_def ann_ctx_def demo_req_def secs_def)
  moreover have "\<forall>n. \<not> store_refuses (demo_req 10 ''s1'') n" by (simp add: demo_req_def)
  ultimately show ?thesis using change_password_ends_sessions [OF demo_users_inv p] p by blast
qed

end
