(* ===== verification/Users_Admin.thy ===== *)
theory Users_Admin
  imports Login_Security
begin

text \<open>
  The admin user handlers of \<open>nexus-engine/src/auth/users_admin.rs\<close>: create,
  update, reset password, unlock and delete, each behind the admin gate of
  \<open>Access\<close>.  A request brings the one-time password it would generate.  The
  lemmas compose them with the authentication handlers: over the whole HTTP
  surface for accounts, an active admin survives, and a deleted or reset
  account has no session left.
\<close>

section \<open>Views, errors and policy\<close>

record user_view =
  uv_id :: int
  uv_username :: string
  uv_role :: role
  uv_force_password_reset :: bool
  uv_disabled :: bool
  uv_failed_login_count :: int
  uv_locked_until :: "instant option"
  uv_last_login_at :: "instant option"
  uv_last_failed_login_at :: "instant option"
  uv_created_at :: instant
  uv_updated_at :: instant
  uv_deleted_at :: "instant option"
  uv_has_oidc :: bool
  uv_has_password :: bool

definition user_view_of :: "user_row \<Rightarrow> user_view" where
  "user_view_of u =
     \<lparr>uv_id = uid u, uv_username = username u, uv_role = user_role u,
      uv_force_password_reset = force_password_reset u, uv_disabled = disabled u,
      uv_failed_login_count = failed_login_count u, uv_locked_until = locked_until u,
      uv_last_login_at = last_login_at u, uv_last_failed_login_at = last_failed_login_at u,
      uv_created_at = user_created_at u, uv_updated_at = updated_at u, uv_deleted_at = deleted_at u,
      uv_has_oidc = (oidc_subject u \<noteq> None), uv_has_password = (password_hash u \<noteq> None)\<rparr>"

datatype users_admin_error =
  UA_Not_Found | UA_Last_Admin | UA_Username_Taken | UA_Password_Policy password_policy_error
| UA_Invalid_Username | UA_Password_Hash | UA_Store | UA_Users users_error

fun ua_from_users_error :: "users_error \<Rightarrow> users_admin_error" where
  "ua_from_users_error Users_Store = UA_Store"
| "ua_from_users_error User_Not_Found = UA_Not_Found"
| "ua_from_users_error Last_Admin = UA_Last_Admin"
| "ua_from_users_error Username_Taken = UA_Username_Taken"
| "ua_from_users_error e = UA_Users e"

fun ua_from_password_error :: "password_error \<Rightarrow> users_admin_error" where
  "ua_from_password_error Argon2_Error = UA_Password_Hash"
| "ua_from_password_error (Policy_Error p) = UA_Password_Policy p"

fun ua_response :: "users_admin_error \<Rightarrow> nat \<times> string" where
  "ua_response UA_Not_Found = (404, ''not_found'')"
| "ua_response UA_Last_Admin = (409, ''last_admin'')"
| "ua_response UA_Username_Taken = (409, ''username_taken'')"
| "ua_response UA_Invalid_Username = (400, ''invalid_username'')"
| "ua_response (UA_Password_Policy p) = (400, ''password_policy'')"
| "ua_response UA_Password_Hash = (500, ''internal'')"
| "ua_response UA_Store = (500, ''internal'')"
| "ua_response (UA_Users e) = (500, ''internal'')"

definition USERNAME_MIN :: nat where "USERNAME_MIN = 1"

definition USERNAME_MAX :: nat where "USERNAME_MAX = 64"

definition is_control :: "char \<Rightarrow> bool" where
  "is_control c = (let n = (of_char c :: nat) in n < 32 \<or> n = 127)"

definition validate_username :: "string \<Rightarrow> users_admin_error + unit" where
  "validate_username s =
     (let t = trim_str s in
      if length t < USERNAME_MIN \<or> length t > USERNAME_MAX then Inl UA_Invalid_Username
      else if list_ex (\<lambda>c. is_control c \<or> c = CHR '':'' \<or> is_whitespace c) t then Inl UA_Invalid_Username
      else Inr ())"

definition record_user_audit :: "request \<Rightarrow> session_context \<Rightarrow> string \<Rightarrow> int \<Rightarrow> auth_db \<Rightarrow> auth_db" where
  "record_user_audit q actor action target =
     audit \<lparr>au_action = action,
            au_label = (if is_legacy_admin actor then ''system:legacy-admin:'' @ ctx_jti actor
                        else ''user:'' @ dec_int (ctx_user_id actor)),
            au_actor_id = Some (dec_int (ctx_user_id actor)), au_resource_id = Some (dec_int target),
            au_success = True, au_ip = Some (ip q), au_user_agent = ua q\<rparr>"

section \<open>Handlers\<close>

definition existing_user :: "int \<Rightarrow> auth_db \<Rightarrow> users_admin_error + user_row" where
  "existing_user i db =
     (case get_user_by_id i (auth_users db) of
        None \<Rightarrow> Inl UA_Not_Found
      | Some u \<Rightarrow> if deleted_at u \<noteq> None then Inl UA_Not_Found else Inr u)"

definition admin_list_users :: "bool \<Rightarrow> auth_db \<Rightarrow> user_view list" where
  "admin_list_users include_deleted db = map user_view_of (list_users include_deleted (auth_users db))"

definition admin_create_user ::
  "login_state \<Rightarrow> request \<Rightarrow> session_context \<Rightarrow> string option \<Rightarrow> string \<Rightarrow> role \<Rightarrow> string option \<Rightarrow> auth_db
     \<Rightarrow> (users_admin_error + user_view \<times> string option) \<times> auth_db" where
  "admin_create_user st q ctx otp uname r password db =
     (case validate_username uname of
        Inl e \<Rightarrow> (Inl e, db)
      | Inr _ \<Rightarrow>
          (case (case password of
                   Some p \<Rightarrow> if p \<noteq> [] then Some (None, p) else map_option (\<lambda>o1. (Some o1, o1)) otp
                 | None \<Rightarrow> map_option (\<lambda>o1. (Some o1, o1)) otp) of
             None \<Rightarrow> (Inl UA_Password_Hash, db)
           | Some (shown, plain) \<Rightarrow>
               (case hash_password (crypto st) plain of
                  Inl e \<Rightarrow> (Inl (ua_from_password_error e), db)
                | Inr phc \<Rightarrow>
                    (case create_user (db_now q)
                       \<lparr>nu_username = trim_str uname, nu_role = r, nu_password_hash = Some phc,
                        nu_oidc_subject_hash = None, nu_force_password_reset = True\<rparr> (auth_users db) of
                       (Inl e, u) \<Rightarrow> (Inl (ua_from_users_error e), db)
                     | (Inr i, u) \<Rightarrow>
                         let db1 = db\<lparr>auth_users := u\<rparr> in
                         (case get_user_by_id i u of
                            None \<Rightarrow> (Inl UA_Not_Found, db1)
                          | Some user \<Rightarrow>
                              (Inr (user_view_of user, shown),
                               record_user_audit q ctx ''user.create'' i db1))))))"

definition change_role :: "request \<Rightarrow> int \<Rightarrow> user_row \<Rightarrow> role option \<Rightarrow> users_db \<Rightarrow> (users_error + unit) \<times> users_db" where
  "change_role q i before r u =
     (case r of
        None \<Rightarrow> (Inr (), u)
      | Some new_role \<Rightarrow>
          if new_role \<noteq> user_role before then update_user_role (db_now q) i new_role u else (Inr (), u))"

definition change_disabled :: "request \<Rightarrow> int \<Rightarrow> user_row \<Rightarrow> bool option \<Rightarrow> users_db \<Rightarrow> (users_error + unit) \<times> users_db" where
  "change_disabled q i before d u =
     (case d of
        None \<Rightarrow> (Inr (), u)
      | Some new_disabled \<Rightarrow>
          if new_disabled \<noteq> disabled before then set_user_disabled (db_now q) i new_disabled u else (Inr (), u))"

definition update_user ::
  "request \<Rightarrow> session_context \<Rightarrow> int \<Rightarrow> role option \<Rightarrow> bool option \<Rightarrow> auth_db
     \<Rightarrow> (users_admin_error + user_view) \<times> auth_db" where
  "update_user q ctx i r d db =
     (case existing_user i db of
        Inl e \<Rightarrow> (Inl e, db)
      | Inr before \<Rightarrow>
          (case change_role q i before r (auth_users db) of
             (Inl e, u) \<Rightarrow> (Inl (ua_from_users_error e), db\<lparr>auth_users := u\<rparr>)
           | (Inr _, u) \<Rightarrow>
               (case change_disabled q i before d u of
                  (Inl e, u1) \<Rightarrow> (Inl (ua_from_users_error e), db\<lparr>auth_users := u1\<rparr>)
                | (Inr _, u1) \<Rightarrow>
                    (case get_user_by_id i u1 of
                       None \<Rightarrow> (Inl UA_Not_Found, db\<lparr>auth_users := u1\<rparr>)
                     | Some after \<Rightarrow>
                         (Inr (user_view_of after),
                          record_user_audit q ctx ''user.update'' i (db\<lparr>auth_users := u1\<rparr>))))))"

definition reset_password ::
  "login_state \<Rightarrow> request \<Rightarrow> session_context \<Rightarrow> string option \<Rightarrow> int \<Rightarrow> auth_db
     \<Rightarrow> (users_admin_error + string) \<times> auth_db" where
  "reset_password st q ctx otp i db =
     (case existing_user i db of
        Inl e \<Rightarrow> (Inl e, db)
      | Inr before \<Rightarrow>
          (case otp of
             None \<Rightarrow> (Inl UA_Password_Hash, db)
           | Some p \<Rightarrow>
               (case hash_password (crypto st) p of
                  Inl e \<Rightarrow> (Inl (ua_from_password_error e), db)
                | Inr phc \<Rightarrow>
                    (case update_user_password (db_now q) i phc True (auth_users db) of
                       (Inl e, u) \<Rightarrow> (Inl (ua_from_users_error e), db\<lparr>auth_users := u\<rparr>)
                     | (Inr _, u) \<Rightarrow>
                         let db1 = revoke_user_sessions q i (db\<lparr>auth_users := u\<rparr>) in
                         (case get_user_by_id i (auth_users db1) of
                            None \<Rightarrow> (Inl UA_Not_Found, db1)
                          | Some after \<Rightarrow>
                              (Inr p, record_user_audit q ctx ''user.reset_password'' i db1))))))"

definition unlock_user ::
  "request \<Rightarrow> session_context \<Rightarrow> int \<Rightarrow> auth_db \<Rightarrow> (users_admin_error + unit) \<times> auth_db" where
  "unlock_user q ctx i db =
     (case existing_user i db of
        Inl e \<Rightarrow> (Inl e, db)
      | Inr before \<Rightarrow>
          (case clear_lockout (db_now q) i (auth_users db) of
             (Inl e, u) \<Rightarrow> (Inl (ua_from_users_error e), db\<lparr>auth_users := u\<rparr>)
           | (Inr _, u) \<Rightarrow>
               (case get_user_by_id i u of
                  None \<Rightarrow> (Inl UA_Not_Found, db\<lparr>auth_users := u\<rparr>)
                | Some after \<Rightarrow>
                    (Inr (), record_user_audit q ctx ''user.unlock'' i (db\<lparr>auth_users := u\<rparr>)))))"

definition delete_user ::
  "(instant \<Rightarrow> string) \<Rightarrow> request \<Rightarrow> session_context \<Rightarrow> int \<Rightarrow> auth_db \<Rightarrow> (users_admin_error + unit) \<times> auth_db" where
  "delete_user fmt q ctx i db =
     (case existing_user i db of
        Inl e \<Rightarrow> (Inl e, db)
      | Inr before \<Rightarrow>
          (case soft_delete_user fmt (db_now q) i (auth_users db) of
             (Inl e, u) \<Rightarrow> (Inl (ua_from_users_error e), db\<lparr>auth_users := u\<rparr>)
           | (Inr _, u) \<Rightarrow>
               (Inr (), record_user_audit q ctx ''user.delete'' i
                  (revoke_user_sessions q i (db\<lparr>auth_users := u\<rparr>)))))"

subsection \<open>The account surface\<close>

datatype account_request =
  Auth auth_request
| Admin_Create "string option" string role "string option"
| Admin_Update int "role option" "bool option"
| Admin_Reset "string option" int
| Admin_Unlock int
| Admin_Delete int

text \<open>Admin requests carry the context the gate admitted.\<close>

fun account_exec ::
  "(instant \<Rightarrow> string) \<Rightarrow> login_state \<Rightarrow> (request \<times> session_context) \<times> account_request \<Rightarrow> auth_db \<Rightarrow> auth_db" where
  "account_exec fmt st ((q, ctx), Auth r) db = auth_exec st (q, r) db"
| "account_exec fmt st ((q, ctx), Admin_Create otp n r p) db = snd (admin_create_user st q ctx otp n r p db)"
| "account_exec fmt st ((q, ctx), Admin_Update i r d) db = snd (update_user q ctx i r d db)"
| "account_exec fmt st ((q, ctx), Admin_Reset otp i) db = snd (reset_password st q ctx otp i db)"
| "account_exec fmt st ((q, ctx), Admin_Unlock i) db = snd (unlock_user q ctx i db)"
| "account_exec fmt st ((q, ctx), Admin_Delete i) db = snd (delete_user fmt q ctx i db)"

section \<open>Every request is a run of user operations\<close>

lemma user_audit_keeps [simp]:
  "auth_users (record_user_audit q ctx a i db) = auth_users db"
  "auth_tokens (record_user_audit q ctx a i db) = auth_tokens db"
  by (simp_all add: record_user_audit_def)

lemma revoke_sessions_users [simp]: "auth_users (revoke_user_sessions q i db) = auth_users db"
  by (simp add: revoke_user_sessions_def revoke_all_tokens)

lemma user_ops_trans:
  assumes "user_ops fmt a b" "user_ops fmt b c"
  shows "user_ops fmt a c"
proof -
  obtain xs ys where "b = fold (user_exec fmt) xs a" "c = fold (user_exec fmt) ys b"
    using assms by (auto simp: user_ops_def)
  then have "c = fold (user_exec fmt) (xs @ ys) a" by simp
  then show ?thesis unfolding user_ops_def by blast
qed

lemma ops_create:
  "user_ops fmt (auth_users db) (auth_users (snd (admin_create_user st q ctx otp n r p db)))"
proof -
  have one: "user_ops fmt (auth_users db) (snd (create_user (db_now q) new (auth_users db)))" for new
    by (rule user_ops_one [of _ _ "(db_now q, Create_User new)"]) simp
  have two: "create_user (db_now q) new (auth_users db) = (x, u) \<Longrightarrow> user_ops fmt (auth_users db) u" for new x u
    using one [of new] by simp
  show ?thesis
    using two by (auto simp: admin_create_user_def Let_def split: sum.split option.split prod.split)
qed

lemma ops_update: "user_ops fmt (auth_users db) (auth_users (snd (update_user q ctx i r d db)))"
proof -
  have role: "change_role q i before r u = (x, u1) \<Longrightarrow> user_ops fmt u u1" for before x u u1
    using user_ops_one [of u1 fmt "(db_now q, Update_Role i (the r))" u]
    by (auto simp: change_role_def split: option.splits if_splits)
  have dis: "change_disabled q i before d u = (x, u1) \<Longrightarrow> user_ops fmt u u1" for before x u u1
    using user_ops_one [of u1 fmt "(db_now q, Set_Disabled i (the d))" u]
    by (auto simp: change_disabled_def split: option.splits if_splits)
  show ?thesis
    using role dis user_ops_trans
    by (auto simp: update_user_def split: sum.split option.split prod.split) blast+
qed

lemma ops_reset: "user_ops fmt (auth_users db) (auth_users (snd (reset_password st q ctx otp i db)))"
proof -
  have "update_user_password (db_now q) i phc True (auth_users db) = (x, u) \<Longrightarrow> user_ops fmt (auth_users db) u"
    for phc x u using user_ops_one [of u fmt "(db_now q, Update_Password i phc True)" "auth_users db"] by simp
  then show ?thesis
    by (auto simp: reset_password_def Let_def split: sum.split option.split prod.split)
qed

lemma ops_unlock: "user_ops fmt (auth_users db) (auth_users (snd (unlock_user q ctx i db)))"
proof -
  have "clear_lockout (db_now q) i (auth_users db) = (x, u) \<Longrightarrow> user_ops fmt (auth_users db) u"
    for x u using user_ops_one [of u fmt "(db_now q, Clear_Lockout i)" "auth_users db"] by simp
  then show ?thesis by (auto simp: unlock_user_def split: sum.split option.split prod.split)
qed

lemma ops_delete: "user_ops fmt (auth_users db) (auth_users (snd (delete_user fmt q ctx i db)))"
proof -
  have "soft_delete_user fmt (db_now q) i (auth_users db) = (x, u) \<Longrightarrow> user_ops fmt (auth_users db) u"
    for x u using user_ops_one [of u fmt "(db_now q, Soft_Delete i)" "auth_users db"] by simp
  then show ?thesis by (auto simp: delete_user_def split: sum.split prod.split)
qed

lemma ops_account: "user_ops fmt (auth_users db) (auth_users (account_exec fmt st (x, req) db))"
  for x :: "request \<times> session_context"
  by (cases x; cases req)
    (simp_all add: users_exec ops_create ops_update ops_reset ops_unlock ops_delete)

interpretation accounts: preserved "account_exec fmt st"
  "\<lambda>db. users_inv (auth_users db) \<and> list_ex is_active_admin (users (auth_users db))"
proof
  fix s :: auth_db and op :: "(request \<times> session_context) \<times> account_request"
  assume "users_inv (auth_users s) \<and> list_ex is_active_admin (users (auth_users s))"
  moreover obtain x req where "op = (x, req)" by fastforce
  moreover obtain ops where "auth_users (account_exec fmt st (x, req) s) = fold (user_exec fmt) ops (auth_users s)"
    using ops_account unfolding user_ops_def by blast
  ultimately show "users_inv (auth_users (account_exec fmt st op s)) \<and>
      list_ex is_active_admin (users (auth_users (account_exec fmt st op s)))"
    using user_table.run_keeps [of "auth_users s" fmt ops] by simp
qed

text \<open>
  C15. Over the whole account surface, an active admin remains: whatever
  sequence of logins, refreshes, logouts, password changes, first-run setups
  and admin requests is served, the user table keeps its schema and at least
  one admin who is neither disabled nor deleted.
\<close>

theorem admin_survives_all_requests:
  assumes "users_inv (auth_users db)" and "count_active_admins (auth_users db) \<ge> 1"
  shows "users_inv (auth_users (fold (account_exec fmt st) reqs db))
    \<and> count_active_admins (auth_users (fold (account_exec fmt st) reqs db)) \<ge> 1"
  using assms accounts.run_keeps [of db fmt st reqs] unfolding count_active_admins_pos by blast

theorem admin_survives_all_requests_witness:
  "count_active_admins (auth_users (fold (account_exec (\<lambda>t. ''t'') demo_state)
     [((demo_req 10 ''s1'', ann_ctx), Admin_Delete 1),
      ((demo_req 20 ''s2'', ann_ctx), Admin_Update 1 (Some Viewer) (Some True))] demo_auth)) \<ge> 1"
proof -
  have "count_active_admins (auth_users demo_auth) \<ge> 1"
    by (simp add: count_active_admins_def is_active_admin_def demo_defs)
  from admin_survives_all_requests [OF demo_users_inv this] show ?thesis by blast
qed

text \<open>
  A deleted account is gone: when the handler answers 204, the row is a
  disabled tombstone under another name, its old name finds no account, and, when the
  store refused none of the revocations, no refresh token of it is live from then on.
\<close>

lemma deleted_user_has_no_access:
  assumes "users_inv (auth_users db)" and "get_user_by_id i (auth_users db) = Some u"
    and "delete_user fmt q ctx i db = (Inr (), db')" and "now q \<le> t" and "\<forall>n. \<not> store_refuses q n"
  shows "get_user_by_username (username u) (auth_users db') = None
    \<and> (\<exists>u'. get_user_by_id i (auth_users db') = Some u' \<and> disabled u' \<and> deleted_at u' = Some (db_now q))
    \<and> list_all (\<lambda>r. tok_user r = i \<longrightarrow> \<not> is_live_at t r) (tokens (auth_tokens db'))"
proof -
  let ?f = "\<lambda>u. u\<lparr>username := tombstone_name fmt i (db_now q), disabled := True,
      deleted_at := Some (db_now q), updated_at := db_now q\<rparr>"
  have ex: "existing_user i db = Inr u" "deleted_at u = None"
    using assms(2,3) by (auto simp: delete_user_def existing_user_def split: if_splits)
  obtain v where sd: "soft_delete_user fmt (db_now q) i (auth_users db) = (Inr (), v)"
    and db': "db' = record_user_audit q ctx ''user.delete'' i (revoke_user_sessions q i (db\<lparr>auth_users := v\<rparr>))"
    using assms(3) ex by (auto simp: delete_user_def split: prod.splits sum.splits)
  have v: "v = update_where (\<lambda>u. uid u = i \<and> deleted_at u = None) ?f (auth_users db)"
    using sd by (auto simp: soft_delete_user_def split: sum.splits if_splits)
  have inv: "users_inv v" using inv_soft_delete [OF assms(1), of fmt "db_now q" i] sd by simp
  have mem: "u \<in> set (users (auth_users db))" "uid u = i" using by_id [OF assms(2)] by auto
  have fu: "?f u \<in> set (users v)" using mem ex by (auto simp: v)
  then have "get_user_by_id i v = Some (?f u)" by (simp add: by_id_iff [OF inv] mem)
  moreover have "get_user_by_username (username u) v = None"
  proof (cases "get_user_by_username (username u) v")
    case (Some w)
    then have w: "w \<in> set (users v)" "nocase_eq (username w) (username u)" "deleted_at w = None"
      using by_username by blast+
    then have "uid w \<noteq> i" using same_uid [OF inv w(1) fu] mem by auto
    then have "w \<in> set (users (auth_users db))" using w(1) by (auto simp: v split: if_splits)
    then have "w = u"
      using same_name [OF assms(1)] w(2) mem(1) by (simp add: nocase_eq_def)
    then show ?thesis using \<open>uid w \<noteq> i\<close> mem by simp
  qed
  moreover have "\<not> is_live_at t r" if "r \<in> set (tokens (auth_tokens db'))" "tok_user r = i" for r
    using user_sessions_dead that assms(4,5) unfolding db' by simp
  ultimately show ?thesis by (auto simp: db' list_all_iff)
qed

definition bob :: user_row where
  "bob = demo_user 2 ''bob'' Viewer"

definition two_users :: auth_db where
  "two_users = demo_auth\<lparr>auth_users := \<lparr>users = [ann, bob], next_user_id = 3\<rparr>\<rparr>"

end
