(* ===== verification/Disk.thy ===== *)
theory Disk
  imports Prelude "HOL-Library.Sublist"
begin

text \<open>
  The part of the file system that clip storage touches: a tree of directories
  and regular files with their modification times, paths as lists of
  components (the way \<open>PathBuf\<close> compares them), \<open>tokio::fs::remove_file\<close>, and
  the directory walk of \<open>nexus-engine/src/retention.rs\<close>.  The walk is the
  source's loop over a stack of directories; the lemmas show that it ends and
  returns exactly the regular files below its root.
\<close>

section \<open>Paths and trees\<close>

type_synonym path = "string list"

definition components :: "string \<Rightarrow> path" where
  "components s = filter (\<lambda>c. c \<noteq> [] \<and> c \<noteq> ''.'') (split_on (CHR ''/'') s)"

text \<open>\<open>Path::join\<close>: an absolute right side replaces the left one.\<close>

definition join_path :: "path \<Rightarrow> string \<Rightarrow> path" where
  "join_path base rel = (if starts_with ''/'' rel then components rel else base @ components rel)"

datatype node = Regular "instant option" | Special | Directory entries
and entries = Empty | Entry string node entries

primrec files :: "node \<Rightarrow> (path \<times> instant option) list"
  and entry_files :: "entries \<Rightarrow> (path \<times> instant option) list" where
  "files (Regular m) = [([], m)]"
| "files Special = []"
| "files (Directory es) = entry_files es"
| "entry_files Empty = []"
| "entry_files (Entry n c es) = map (\<lambda>(p, m). (n # p, m)) (files c) @ entry_files es"

abbreviation paths :: "node \<Rightarrow> path set" where
  "paths t \<equiv> fst ` set (files t)"

fun lookup_entry :: "string \<Rightarrow> entries \<Rightarrow> node option" where
  "lookup_entry x Empty = None"
| "lookup_entry x (Entry n c es) = (if n = x then Some c else lookup_entry x es)"

fun node_at :: "path \<Rightarrow> node \<Rightarrow> node option" where
  "node_at [] t = Some t"
| "node_at (x # p) (Directory es) = (case lookup_entry x es of None \<Rightarrow> None | Some c \<Rightarrow> node_at p c)"
| "node_at (x # p) t = None"

fun is_dir :: "node option \<Rightarrow> bool" where
  "is_dir (Some (Directory es)) = True"
| "is_dir n = False"

definition exists_file :: "path \<Rightarrow> node \<Rightarrow> bool" where
  "exists_file p t = list_ex (\<lambda>(q, m). q = p) (files t)"

section \<open>Removing a file\<close>

fun remove_at :: "path \<Rightarrow> node \<Rightarrow> node"
  and remove_in :: "string \<Rightarrow> path \<Rightarrow> entries \<Rightarrow> entries" where
  "remove_at (x # p) (Directory es) = Directory (remove_in x p es)"
| "remove_at p t = t"
| "remove_in x p Empty = Empty"
| "remove_in x p (Entry n c es) =
     (if n \<noteq> x then Entry n c (remove_in x p es)
      else case c of
             Regular m \<Rightarrow> if p = [] then remove_in x p es else Entry n c (remove_in x p es)
           | _ \<Rightarrow> Entry n (remove_at p c) (remove_in x p es))"

datatype io_result = Io_Ok | Io_Not_Found | Io_Error

text \<open>
  \<open>tokio::fs::remove_file\<close>; \<open>locked\<close> tells which files the system refuses to
  unlink (permissions, a read-only medium).  A target that exists and is no regular
  file is refused, as \<open>unlink\<close> does with a directory.
\<close>

definition remove_file :: "(path \<Rightarrow> bool) \<Rightarrow> path \<Rightarrow> node \<Rightarrow> io_result \<times> node" where
  "remove_file locked p t =
     (if \<not> exists_file p t then (if node_at p t = None then Io_Not_Found else Io_Error, t)
      else if locked p then (Io_Error, t)
      else (Io_Ok, remove_at p t))"

lemma exists_file_paths: "exists_file p t \<longleftrightarrow> p \<in> paths t"
  by (force simp: exists_file_def list_ex_iff)

lemma files_Nil: "([], m) \<in> set (files t) \<Longrightarrow> \<exists>m. t = Regular m"
  and entry_files_Nil: "([], m) \<notin> set (entry_files es)"
  by (induction t and es) auto


lemma filter_Cons_path:
  "filter (\<lambda>(r, m). r \<noteq> x # p) (map (\<lambda>(q, m). (x # q, m)) fs) =
   map (\<lambda>(q, m). (x # q, m)) (filter (\<lambda>(q, m). q \<noteq> p) fs)"
  by (induction fs) auto

lemma filter_other_path:
  "n \<noteq> x \<Longrightarrow> filter (\<lambda>(r, m). r \<noteq> x # p) (map (\<lambda>(q, m). (n # q, m)) fs) = map (\<lambda>(q, m). (n # q, m)) fs"
  by (induction fs) auto

lemma files_remove:
  "p \<noteq> [] \<Longrightarrow> files (remove_at p t) = filter (\<lambda>(q, m). q \<noteq> p) (files t)"
  "entry_files (remove_in x q es) = filter (\<lambda>(r, m). r \<noteq> x # q) (entry_files es)"
proof (induction p t and x q es rule: remove_at_remove_in.induct)
  case (4 x p n c es)
  have keep: "filter (\<lambda>(q, m). q \<noteq> []) (entry_files d) = entry_files d" for d
    using entry_files_Nil by (fastforce intro: filter_True)
  show ?case
    using 4 keep by (cases c; cases "p = []") (auto simp: filter_Cons_path filter_other_path)
qed auto

lemma paths_remove: "p \<noteq> [] \<Longrightarrow> paths (remove_at p t) = paths t - {p}"
  by (force simp: files_remove)

lemma remove_file_paths:
  assumes "remove_file locked p t = (r, t')" and "\<nexists>m. t = Regular m"
  shows "paths t' = (if r = Io_Ok then paths t - {p} else paths t)"
    "r = Io_Error \<Longrightarrow> p \<in> paths t \<longrightarrow> locked p"
    "r = Io_Not_Found \<Longrightarrow> p \<notin> paths t"
    "r = Io_Ok \<Longrightarrow> p \<in> paths t \<and> \<not> locked p"
    "\<nexists>m. t' = Regular m"
proof -
  have "p \<noteq> []" if "p \<in> paths t" using that assms(2) files_Nil by fastforce
  then have "paths (remove_at p t) = paths t - {p}" if "p \<in> paths t" using that paths_remove by blast
  then show "paths t' = (if r = Io_Ok then paths t - {p} else paths t)"
    "r = Io_Error \<Longrightarrow> p \<in> paths t \<longrightarrow> locked p" "r = Io_Not_Found \<Longrightarrow> p \<notin> paths t"
    "r = Io_Ok \<Longrightarrow> p \<in> paths t \<and> \<not> locked p"
    using assms(1) unfolding remove_file_def exists_file_paths by (simp_all split: if_splits)
  show "\<nexists>m. t' = Regular m"
    using assms by (cases p; cases t) (auto simp: remove_file_def split: if_splits)
qed

section \<open>Walking a directory\<close>

text \<open>One \<open>read_dir\<close>: the subdirectories and the regular files, in entry order.\<close>

fun read_dir :: "path \<Rightarrow> entries \<Rightarrow> (path \<times> entries) list \<times> path list" where
  "read_dir d Empty = ([], [])"
| "read_dir d (Entry n c es) =
     (case read_dir d es of (ds, fs) \<Rightarrow>
        (case c of
           Regular m \<Rightarrow> (ds, (d @ [n]) # fs)
         | Special \<Rightarrow> (ds, fs)
         | Directory sub \<Rightarrow> ((d @ [n], sub) # ds, fs)))"

lemma read_dir_size: "(\<Sum>(p, sub)\<leftarrow>fst (read_dir d es). Suc (size sub)) \<le> size es"
  by (induction d es rule: read_dir.induct) (auto split: prod.splits node.splits)

text \<open>\<open>while let Some(dir) = stack.pop()\<close>: the last directory pushed is read next.\<close>

function walk_loop :: "(path \<times> entries) list \<Rightarrow> path list \<Rightarrow> path list" where
  "walk_loop [] out = out"
| "walk_loop ((d, es) # stack) out =
     walk_loop (rev (fst (read_dir d es)) @ stack) (out @ snd (read_dir d es))"
  by pat_completeness auto

termination
proof (relation "measure (\<lambda>(stack, out). sum_list (map (\<lambda>(d, es). Suc (size es)) stack))", goal_cases)
  case (2 d es stack out)
  have "(\<Sum>(p, sub)\<leftarrow>rev (fst (read_dir d es)). Suc (size sub)) = (\<Sum>(p, sub)\<leftarrow>fst (read_dir d es). Suc (size sub))"
    by (simp add: rev_map [symmetric])
  then show ?case using read_dir_size [of d es] by simp
qed simp

text \<open>A missing root has no files; reading a root that is not a directory fails.\<close>

definition walk_clip_files :: "path \<Rightarrow> node \<Rightarrow> string + path list" where
  "walk_clip_files root t =
     (case node_at root t of
        None \<Rightarrow> Inr []
      | Some (Directory es) \<Rightarrow> Inr (walk_loop [(root, es)] [])
      | Some _ \<Rightarrow> Inl ''not a directory'')"

definition below :: "path \<Rightarrow> entries \<Rightarrow> path set" where
  "below d es = (\<lambda>p. d @ p) ` fst ` set (entry_files es)"

lemma below_Entry:
  "below d (Entry n c es) = (\<lambda>p. d @ n # p) ` paths c \<union> below d es"
  by (auto simp: below_def image_image image_Un split_beta)

lemma read_dir_below:
  "below d es = set (snd (read_dir d es)) \<union> (\<Union>(p, sub) \<in> set (fst (read_dir d es)). below p sub)"
proof (induction d es rule: read_dir.induct)
  case (2 d n c es)
  show ?case
  proof (cases c)
    case (Directory sub)
    have "(\<lambda>p. d @ n # p) ` paths c = below (d @ [n]) sub"
      by (simp add: Directory below_def image_image)
    then show ?thesis using 2 Directory by (auto simp: below_Entry split: prod.splits)
  qed (use 2 in \<open>auto simp: below_Entry split: prod.splits\<close>)
qed (simp add: below_def)

lemma walk_loop_set:
  "set (walk_loop stack out) = set out \<union> (\<Union>(d, es) \<in> set stack. below d es)"
proof (induction stack out rule: walk_loop.induct)
  case (2 d es stack out)
  then show ?case using read_dir_below [of d es] by auto
qed simp

text \<open>Directories hold each name once.\<close>

primrec wf_node :: "node \<Rightarrow> bool" and wf_entries :: "entries \<Rightarrow> bool" where
  "wf_node (Regular m) = True"
| "wf_node Special = True"
| "wf_node (Directory es) = wf_entries es"
| "wf_entries Empty = True"
| "wf_entries (Entry n c es) = (wf_node c \<and> wf_entries es \<and> lookup_entry n es = None)"

lemma lookup_None_files: "lookup_entry n es = None \<Longrightarrow> (n # p, m) \<notin> set (entry_files es)"
  by (induction n es rule: lookup_entry.induct) (auto split: if_splits)

lemma lookup_Some_files:
  "wf_entries es \<Longrightarrow> lookup_entry n es = Some c \<Longrightarrow> (n # p, m) \<in> set (entry_files es) \<longleftrightarrow> (p, m) \<in> set (files c)"
  using lookup_None_files by (induction n es rule: lookup_entry.induct) (fastforce split: if_splits)+

lemma wf_lookup: "wf_entries es \<Longrightarrow> lookup_entry n es = Some c \<Longrightarrow> wf_node c"
  by (induction n es rule: lookup_entry.induct) (auto split: if_splits)

lemma node_at_files:
  "wf_node t \<Longrightarrow> node_at d t = Some n \<Longrightarrow> (d @ p, m) \<in> set (files t) \<longleftrightarrow> (p, m) \<in> set (files n)"
  by (induction d t rule: node_at.induct)
    (auto simp: lookup_Some_files wf_lookup split: option.splits)

lemma node_at_None_files: "wf_node t \<Longrightarrow> node_at d t = None \<Longrightarrow> (d @ p, m) \<notin> set (files t)"
  by (induction d t rule: node_at.induct)
    (auto simp: lookup_Some_files lookup_None_files wf_lookup split: option.splits)

lemma walk_finds_files:
  assumes "wf_node t" and "walk_clip_files root t = Inr ps"
  shows "set ps = {p \<in> paths t. prefix root p}"
proof (cases "node_at root t")
  case None
  then have "ps = []" using assms(2) by (simp add: walk_clip_files_def)
  moreover have "\<not> prefix root (fst f)" if "f \<in> set (files t)" for f
    using node_at_None_files [OF assms(1) None] that by (cases f) (auto simp: prefix_def)
  ultimately show ?thesis by auto
next
  case (Some n)
  then obtain es where n: "n = Directory es" and ps: "ps = walk_loop [(root, es)] []"
    using assms(2) by (cases n) (auto simp: walk_clip_files_def)
  have "(root @ p, m) \<in> set (files t) \<longleftrightarrow> (p, m) \<in> set (entry_files es)" for p m
    using node_at_files [OF assms(1) Some] n by simp
  then have "root @ p \<in> paths t \<longleftrightarrow> p \<in> fst ` set (entry_files es)" for p
    by (auto simp: image_iff Bex_def)
  then have "q \<in> paths t \<and> prefix root q \<longleftrightarrow> q \<in> below root es" for q
    unfolding below_def prefix_def by (metis (no_types, lifting) imageE imageI)
  then have "{p \<in> paths t. prefix root p} = below root es" by (simp add: set_eq_iff)
  then show ?thesis by (simp add: ps walk_loop_set del: walk_loop.simps)
qed

section \<open>Removing keeps the tree and the other files\<close>

lemma lookup_remove_in: "lookup_entry n es = None \<Longrightarrow> lookup_entry n (remove_in x p es) = None"
  by (induction n es rule: lookup_entry.induct) (auto split: if_splits node.split)

lemma wf_remove: "wf_node t \<Longrightarrow> wf_node (remove_at p t)"
  and wf_remove_in: "wf_entries es \<Longrightarrow> wf_entries (remove_in x q es)"
proof (induction p t and x q es rule: remove_at_remove_in.induct)
  case (4 x p n c es)
  then show ?case using lookup_remove_in by (cases c) auto
qed auto

lemma map_of_without: "map_of (filter (\<lambda>(q, m). q \<noteq> p) fs) q = (if q = p then None else map_of fs q)"
  by (induction fs) auto

end
