(* ===== verification/Clip_Store.thy ===== *)
theory Clip_Store
  imports Outbox
begin

text \<open>
  The clip tables of \<open>nexus-store\<close>: motion clips and motion events
  (\<open>motion.rs\<close>), alert clips (\<open>alert_clip.rs\<close>), the storage backends and the
  cold-replica policy, with the foreign keys that tie them to the alert events
  and the outbox of \<open>Outbox\<close>.  A table is a list of rows; a statement is a
  function from the database to its result and the new database; the clock a
  statement reads is an argument.  Timestamps are compared as instants: the
  store writes them all as RFC 3339 in UTC, whose text order is their order.
  \<open>media_inv\<close> states the schema: keys, checks and references.
\<close>

section \<open>Rows\<close>

datatype motion_event_kind = Born | Updated | Died

fun kind_as_str :: "motion_event_kind \<Rightarrow> string" where
  "kind_as_str Born = ''born''"
| "kind_as_str Updated = ''updated''"
| "kind_as_str Died = ''died''"

definition kind_parse :: "string \<Rightarrow> string + motion_event_kind" where
  "kind_parse s =
     (if s = ''born'' then Inr Born else if s = ''updated'' then Inr Updated
      else if s = ''died'' then Inr Died else Inl (''motion_event.kind='' @ s))"

record new_clip =
  nc_camera :: int
  nc_started :: instant
  nc_hot_path :: string
  nc_hot_handle :: string
  nc_codec :: string
  nc_container :: string
  nc_frame_width :: u32
  nc_frame_height :: u32

record clip_close =
  cc_ended :: instant
  cc_duration_ms :: int
  cc_size :: int
  cc_hot_path :: "string option"
  cc_sha256 :: "string option"

text \<open>A hydrated row, and the columns of later migrations that no row type carries.\<close>

record clip_row =
  cl_id :: int
  cl_camera :: int
  cl_started :: instant
  cl_ended :: "instant option"
  cl_duration_ms :: int
  cl_size :: int
  cl_codec :: string
  cl_container :: string
  hot_handle :: "string option"
  hot_path :: "string option"
  cold_handle :: "string option"
  cold_path :: "string option"
  cold_uploaded_at :: "instant option"
  cl_sha256 :: "string option"
  cl_priority :: int
  cl_frame_width :: u32
  cl_frame_height :: u32
  cold_attempts :: int
  cold_last_attempt_at :: "instant option"
  cold_next_attempt_at :: "instant option"
  cold_quarantined :: bool
  cold_last_error :: "string option"
  dropped_samples :: int
  degraded :: bool
  cl_blob_url :: "string option"
  cl_announce_id :: "string option"
  cl_announce_core :: "string option"
  cl_announced_at :: "instant option"
  cl_announce_error :: "string option"
  cl_announce_attempts :: int
  cl_announce_next_at :: "instant option"

record cold_mark =
  cm_handle :: string
  cm_path :: string
  cm_uploaded_at :: instant

record alert_clip_row =
  al_id :: int
  al_camera :: int
  al_path :: string
  al_started :: instant
  al_ready_at :: "instant option"
  al_state :: string
  al_duration_ms :: int
  al_size :: int
  al_sha256 :: "string option"
  al_cold_handle :: "string option"
  al_cold_path :: "string option"
  al_cold_uploaded_at :: "instant option"
  al_cold_attempts :: int
  al_cold_last_attempt_at :: "instant option"
  al_cold_last_error :: "string option"
  al_blob_url :: "string option"
  al_announce_id :: "string option"
  al_announce_core :: "string option"
  al_announced_at :: "instant option"
  al_announce_error :: "string option"
  al_announce_attempts :: int
  al_announce_next_at :: "instant option"

text \<open>The bounding box and the confidence, floats that no statement reads, are left out.\<close>

record motion_event =
  me_id :: int
  me_camera :: int
  me_clip :: int
  me_track :: u64
  me_kind :: motion_event_kind
  me_captured_at :: instant
  me_label :: string
  me_attributes :: string

record storage_backend =
  sb_handle :: string
  sb_kind :: string
  sb_config :: string
  sb_updated_at :: instant

text \<open>
  \<open>event_clip\<close> and \<open>event_alert_clip\<close> are the columns \<open>clip_id\<close> and
  \<open>alert_clip_id\<close> of the \<open>events\<close> table.
\<close>

record media_db =
  clips :: "clip_row list"
  next_clip :: int
  motion_events :: "motion_event list"
  next_motion_event :: int
  alert_clips :: "alert_clip_row list"
  next_alert_clip :: int
  alerts :: outbox_db
  event_clip :: "string \<rightharpoonup> int"
  event_alert_clip :: "string \<rightharpoonup> int"
  backends :: "storage_backend list"
  replica_handle :: "string option"
  throttle_bps :: int
  enrolled_core :: "string option"

datatype clip_error = Row_Missing | Fk_Violation | Check_Failed

datatype delete_backend_error = Backend_In_Use | Active_Cold | Local_Backend | Backend_Store clip_error

section \<open>Statements\<close>

definition update_clips :: "(clip_row \<Rightarrow> bool) \<Rightarrow> (clip_row \<Rightarrow> clip_row) \<Rightarrow> media_db \<Rightarrow> nat \<times> media_db" where
  "update_clips P f db =
     (length (filter P (clips db)), db\<lparr>clips := map (\<lambda>c. if P c then f c else c) (clips db)\<rparr>)"

definition update_alert_clips ::
  "(alert_clip_row \<Rightarrow> bool) \<Rightarrow> (alert_clip_row \<Rightarrow> alert_clip_row) \<Rightarrow> media_db \<Rightarrow> nat \<times> media_db" where
  "update_alert_clips P f db =
     (length (filter P (alert_clips db)), db\<lparr>alert_clips := map (\<lambda>c. if P c then f c else c) (alert_clips db)\<rparr>)"

text \<open>\<open>rows_affected() == 0\<close> is reported as a missing row.\<close>

definition must_hit :: "nat \<times> media_db \<Rightarrow> (clip_error + unit) \<times> media_db" where
  "must_hit r = ((if fst r = 0 then Inl Row_Missing else Inr ()), snd r)"

definition has_backend :: "string \<Rightarrow> media_db \<Rightarrow> bool" where
  "has_backend h db = list_ex (\<lambda>b. sb_handle b = h) (backends db)"

definition has_clip :: "int \<Rightarrow> media_db \<Rightarrow> bool" where
  "has_clip i db = list_ex (\<lambda>c. cl_id c = i) (clips db)"

definition has_alert_clip :: "int \<Rightarrow> media_db \<Rightarrow> bool" where
  "has_alert_clip i db = list_ex (\<lambda>a. al_id a = i) (alert_clips db)"

subsection \<open>Recording\<close>

definition open_clip :: "new_clip \<Rightarrow> media_db \<Rightarrow> (clip_error + int) \<times> media_db" where
  "open_clip new db =
     (if nc_camera new \<notin> set (cameras (alerts db)) \<or> \<not> has_backend (nc_hot_handle new) db then (Inl Fk_Violation, db)
      else (Inr (next_clip db),
            db\<lparr>clips := clips db @
                 [\<lparr>cl_id = next_clip db, cl_camera = nc_camera new, cl_started = nc_started new,
                   cl_ended = None, cl_duration_ms = 0, cl_size = 0, cl_codec = nc_codec new,
                   cl_container = nc_container new, hot_handle = Some (nc_hot_handle new),
                   hot_path = Some (nc_hot_path new), cold_handle = None, cold_path = None,
                   cold_uploaded_at = None, cl_sha256 = None, cl_priority = 0,
                   cl_frame_width = nc_frame_width new, cl_frame_height = nc_frame_height new,
                   cold_attempts = 0, cold_last_attempt_at = None, cold_next_attempt_at = None,
                   cold_quarantined = False, cold_last_error = None, dropped_samples = 0, degraded = False,
                   cl_blob_url = None, cl_announce_id = None, cl_announce_core = None,
                   cl_announced_at = None, cl_announce_error = None, cl_announce_attempts = 0,
                   cl_announce_next_at = None\<rparr>],
               next_clip := next_clip db + 1\<rparr>))"

definition mark_clip_degraded :: "int \<Rightarrow> int \<Rightarrow> media_db \<Rightarrow> media_db" where
  "mark_clip_degraded i n db =
     snd (update_clips (\<lambda>c. cl_id c = i) (\<lambda>c. c\<lparr>dropped_samples := n, degraded := True\<rparr>) db)"

definition close_clip :: "int \<Rightarrow> clip_close \<Rightarrow> media_db \<Rightarrow> (clip_error + unit) \<times> media_db" where
  "close_clip i close db =
     must_hit (update_clips (\<lambda>c. cl_id c = i)
       (\<lambda>c. c\<lparr>cl_ended := Some (cc_ended close), cl_duration_ms := cc_duration_ms close,
              cl_size := cc_size close,
              hot_path := (case cc_hot_path close of None \<Rightarrow> hot_path c | Some p \<Rightarrow> Some p),
              cl_sha256 := (case cc_sha256 close of None \<Rightarrow> cl_sha256 c | Some s \<Rightarrow> Some s)\<rparr>) db)"

definition insert_motion_event ::
  "int \<Rightarrow> int \<Rightarrow> u64 \<Rightarrow> motion_event_kind \<Rightarrow> instant \<Rightarrow> string \<Rightarrow> string \<Rightarrow> media_db
     \<Rightarrow> (clip_error + int) \<times> media_db" where
  "insert_motion_event cam clip track kind at label attrs db =
     (if cam \<notin> set (cameras (alerts db)) \<or> \<not> has_clip clip db then (Inl Fk_Violation, db)
      else (Inr (next_motion_event db),
            db\<lparr>motion_events := motion_events db @
                 [\<lparr>me_id = next_motion_event db, me_camera = cam, me_clip = clip, me_track = track,
                   me_kind = kind, me_captured_at = at, me_label = label, me_attributes = attrs\<rparr>],
               next_motion_event := next_motion_event db + 1\<rparr>))"

definition link_event_to_clip :: "string \<Rightarrow> int \<Rightarrow> media_db \<Rightarrow> (clip_error + unit) \<times> media_db" where
  "link_event_to_clip ev i db =
     (if events (alerts db) ev = None then (Inl Row_Missing, db)
      else if \<not> has_clip i db then (Inl Fk_Violation, db)
      else (Inr (), db\<lparr>event_clip := (event_clip db)(ev \<mapsto> i)\<rparr>))"

definition get_event_clip_id :: "string \<Rightarrow> media_db \<Rightarrow> clip_error + int option" where
  "get_event_clip_id ev db = (if events (alerts db) ev = None then Inl Row_Missing else Inr (event_clip db ev))"

subsection \<open>Lookups\<close>

definition get_clip :: "int \<Rightarrow> media_db \<Rightarrow> clip_row option" where
  "get_clip i db = find (\<lambda>c. cl_id c = i) (clips db)"

text \<open>\<open>ORDER BY started_at ASC LIMIT 1\<close>.\<close>

definition oldest :: "clip_row list \<Rightarrow> clip_row option" where
  "oldest cs = (case sort_key cl_started cs of [] \<Rightarrow> None | c # rest \<Rightarrow> Some c)"

definition oldest_clip_for_camera :: "int \<Rightarrow> media_db \<Rightarrow> clip_row option" where
  "oldest_clip_for_camera cam db = oldest (filter (\<lambda>c. cl_camera c = cam) (clips db))"

definition cameras_with_clips :: "media_db \<Rightarrow> int list" where
  "cameras_with_clips db = sorted_list_of_set (cl_camera ` set (clips db))"

definition known_clip_paths :: "media_db \<Rightarrow> string list" where
  "known_clip_paths db = List.map_filter hot_path (clips db)"

definition clips_older_than :: "instant \<Rightarrow> int \<Rightarrow> media_db \<Rightarrow> clip_row list" where
  "clips_older_than cutoff limit db =
     sql_limit limit (sort_key cl_started (filter (\<lambda>c. cl_started c < cutoff) (clips db)))"

text \<open>\<open>(started_at, count, bytes)\<close> per camera, in camera order.\<close>

definition per_camera_clip_stats :: "media_db \<Rightarrow> (int \<times> nat \<times> int \<times> instant) list" where
  "per_camera_clip_stats db =
     map (\<lambda>cam. let cs = filter (\<lambda>c. cl_camera c = cam) (clips db)
                in (cam, length cs, sum_list (map cl_size cs), Min (set (map cl_started cs))))
       (cameras_with_clips db)"

subsection \<open>Eviction\<close>

text \<open>
  \<open>DELETE FROM motion_clips WHERE id = ?\<close> with its cascades: the motion events
  of the clip, the alert events linked to it, and their outbox rows.
\<close>

definition cascade_delete_clip_metadata :: "int \<Rightarrow> media_db \<Rightarrow> (clip_error + unit) \<times> media_db" where
  "cascade_delete_clip_metadata i db =
     (if \<not> has_clip i db then (Inl Row_Missing, db)
      else let gone = (\<lambda>e. event_clip db e = Some i) in
        (Inr (), db\<lparr>clips := filter (\<lambda>c. cl_id c \<noteq> i) (clips db),
                    motion_events := filter (\<lambda>m. me_clip m \<noteq> i) (motion_events db),
                    alerts := drop_events gone (alerts db),
                    event_clip := (\<lambda>e. if gone e then None else event_clip db e),
                    event_alert_clip := (\<lambda>e. if gone e then None else event_alert_clip db e)\<rparr>))"

definition soft_evictable :: "int \<Rightarrow> clip_row \<Rightarrow> bool" where
  "soft_evictable cam c \<longleftrightarrow> cl_camera c = cam \<and> hot_handle c \<noteq> None \<and> cold_handle c \<noteq> None"

definition hard_evictable :: "int \<Rightarrow> instant \<Rightarrow> clip_row \<Rightarrow> bool" where
  "hard_evictable cam cutoff c \<longleftrightarrow>
     cl_camera c = cam \<and> cold_handle c = None \<and> (cl_ended c \<noteq> None \<or> cl_started c < cutoff)"

definition find_soft_evict_candidate :: "int \<Rightarrow> media_db \<Rightarrow> clip_row option" where
  "find_soft_evict_candidate cam db = oldest (filter (soft_evictable cam) (clips db))"

definition find_hard_evict_candidate :: "int \<Rightarrow> instant \<Rightarrow> media_db \<Rightarrow> clip_row option" where
  "find_hard_evict_candidate cam cutoff db = oldest (filter (hard_evictable cam cutoff) (clips db))"

definition find_largest_quarantined_hot_clip :: "media_db \<Rightarrow> clip_row option" where
  "find_largest_quarantined_hot_clip db =
     (case sort_key (\<lambda>c. - cl_size c) (filter (\<lambda>c. cold_quarantined c \<and> hot_handle c \<noteq> None) (clips db)) of
        [] \<Rightarrow> None | c # rest \<Rightarrow> Some c)"

definition clear_hot_pointer :: "int \<Rightarrow> media_db \<Rightarrow> nat \<times> media_db" where
  "clear_hot_pointer i =
     update_clips (\<lambda>c. cl_id c = i \<and> cold_handle c \<noteq> None) (\<lambda>c. c\<lparr>hot_handle := None, hot_path := None\<rparr>)"

definition repopulate_hot_pointer ::
  "int \<Rightarrow> string \<Rightarrow> string \<Rightarrow> media_db \<Rightarrow> (clip_error + nat) \<times> media_db" where
  "repopulate_hot_pointer i h p db =
     (let hit = (\<lambda>c. cl_id c = i \<and> hot_handle c = None) in
      if list_ex hit (clips db) \<and> \<not> has_backend h db then (Inl Fk_Violation, db)
      else case update_clips hit (\<lambda>c. c\<lparr>hot_handle := Some h, hot_path := Some p\<rparr>) db of
             (n, db') \<Rightarrow> (Inr n, db'))"

subsection \<open>Cold replication\<close>

text \<open>Closed, hashed, hot, not yet cold and not quarantined.\<close>

definition awaits_upload :: "clip_row \<Rightarrow> bool" where
  "awaits_upload c \<longleftrightarrow> cold_handle c = None \<and> cl_ended c \<noteq> None \<and> cl_sha256 c \<noteq> None
     \<and> hot_handle c \<noteq> None \<and> hot_path c \<noteq> None \<and> \<not> cold_quarantined c"

definition by_priority :: "clip_row list \<Rightarrow> clip_row list" where
  "by_priority cs = sort_key (\<lambda>c. - cl_priority c) (sort_key (\<lambda>c. the (cl_ended c)) cs)"

definition above_floor :: "instant option \<Rightarrow> instant \<Rightarrow> bool" where
  "above_floor fl t = (case fl of None \<Rightarrow> True | Some f \<Rightarrow> f \<le> t)"

definition elapsed_at :: "instant \<Rightarrow> instant option \<Rightarrow> bool" where
  "elapsed_at now next = (case next of None \<Rightarrow> True | Some t \<Rightarrow> t \<le> now)"

definition clips_pending_cold_upload :: "instant \<Rightarrow> int \<Rightarrow> instant option \<Rightarrow> media_db \<Rightarrow> clip_row list" where
  "clips_pending_cold_upload now limit fl db =
     sql_limit limit (by_priority (filter
       (\<lambda>c. awaits_upload c \<and> elapsed_at now (cold_next_attempt_at c) \<and> above_floor fl (cl_started c)) (clips db)))"

fun position_of :: "int \<Rightarrow> int list \<Rightarrow> nat option" where
  "position_of x [] = None"
| "position_of x (y # ys) = (if y = x then Some 0 else map_option Suc (position_of x ys))"

definition pending_cold_upload_position :: "int \<Rightarrow> media_db \<Rightarrow> nat option" where
  "pending_cold_upload_position i db =
     map_option Suc (position_of i (map cl_id (by_priority (filter awaits_upload (clips db)))))"

definition bump_clip_priority :: "int \<Rightarrow> int \<Rightarrow> media_db \<Rightarrow> bool \<times> media_db" where
  "bump_clip_priority i prio db =
     (case update_clips (\<lambda>c. cl_id c = i \<and> cl_priority c < prio) (\<lambda>c. c\<lparr>cl_priority := prio\<rparr>) db of
        (n, db') \<Rightarrow> (n > 0, db'))"

definition bump_latest_pending_clip_for_camera :: "int \<Rightarrow> int \<Rightarrow> media_db \<Rightarrow> int option \<times> media_db" where
  "bump_latest_pending_clip_for_camera cam prio db =
     (case sort_key (\<lambda>c. - the (cl_ended c)) (filter (\<lambda>c. cl_camera c = cam \<and> awaits_upload c) (clips db)) of
        [] \<Rightarrow> (None, db)
      | c # rest \<Rightarrow>
          (case bump_clip_priority (cl_id c) prio db of
             (hit, db') \<Rightarrow> (if hit then Some (cl_id c) else None, db')))"

text \<open>\<open>(pending, replicated, cold only, bytes)\<close>.\<close>

definition cold_replica_stats :: "media_db \<Rightarrow> nat \<times> nat \<times> nat \<times> int" where
  "cold_replica_stats db =
     (let cold = filter (\<lambda>c. cold_handle c \<noteq> None) (clips db) in
      (length (filter awaits_upload (clips db)), length cold,
       length (filter (\<lambda>c. hot_path c = None) cold), sum_list (map cl_size cold)))"

definition mark_cold_replicated :: "int \<Rightarrow> cold_mark \<Rightarrow> media_db \<Rightarrow> (clip_error + unit) \<times> media_db" where
  "mark_cold_replicated i m db =
     (if has_clip i db \<and> \<not> has_backend (cm_handle m) db then (Inl Fk_Violation, db)
      else must_hit (update_clips (\<lambda>c. cl_id c = i)
        (\<lambda>c. c\<lparr>cold_handle := Some (cm_handle m), cold_path := Some (cm_path m),
               cold_uploaded_at := Some (cm_uploaded_at m)\<rparr>) db))"

definition record_cold_upload_failure ::
  "int \<Rightarrow> instant \<Rightarrow> string \<Rightarrow> instant option \<Rightarrow> bool \<Rightarrow> media_db \<Rightarrow> (clip_error + unit) \<times> media_db" where
  "record_cold_upload_failure i now err next q db =
     must_hit (update_clips (\<lambda>c. cl_id c = i)
       (\<lambda>c. c\<lparr>cold_attempts := cold_attempts c + 1, cold_last_attempt_at := Some now,
              cold_last_error := Some err, cold_next_attempt_at := next, cold_quarantined := q\<rparr>) db)"

definition quarantine_clip :: "int \<Rightarrow> instant \<Rightarrow> string \<Rightarrow> media_db \<Rightarrow> (clip_error + unit) \<times> media_db" where
  "quarantine_clip i now reason db =
     must_hit (update_clips (\<lambda>c. cl_id c = i)
       (\<lambda>c. c\<lparr>cold_quarantined := True, cold_last_attempt_at := Some now, cold_last_error := Some reason\<rparr>) db)"

subsection \<open>Announcements\<close>

definition stamp_clip_announce :: "int \<Rightarrow> string \<Rightarrow> string \<Rightarrow> media_db \<Rightarrow> (clip_error + unit) \<times> media_db" where
  "stamp_clip_announce i url aid db =
     must_hit (update_clips (\<lambda>c. cl_id c = i)
       (\<lambda>c. c\<lparr>cl_blob_url := Some url, cl_announce_id := Some aid, cl_announce_core := enrolled_core db\<rparr>) db)"

definition record_clip_announce_sent :: "int \<Rightarrow> instant \<Rightarrow> media_db \<Rightarrow> (clip_error + unit) \<times> media_db" where
  "record_clip_announce_sent i next db =
     must_hit (update_clips (\<lambda>c. cl_id c = i)
       (\<lambda>c. c\<lparr>cl_announce_attempts := cl_announce_attempts c + 1, cl_announce_next_at := Some next\<rparr>) db)"

text \<open>\<open>NULL\<close> sorts first in an ascending order; a comparison with \<open>NULL\<close> is not true.\<close>

definition sort_null_first :: "('a \<Rightarrow> instant option) \<Rightarrow> 'a list \<Rightarrow> 'a list" where
  "sort_null_first f xs =
     filter (\<lambda>x. f x = None) xs @ sort_key (\<lambda>x. the (f x)) (filter (\<lambda>x. f x \<noteq> None) xs)"

definition same_core :: "string option \<Rightarrow> string option \<Rightarrow> bool" where
  "same_core a b \<longleftrightarrow> a \<noteq> None \<and> a = b"

definition clips_pending_cloud_announce ::
  "int \<Rightarrow> instant \<Rightarrow> instant option \<Rightarrow> media_db \<Rightarrow> (clip_row \<times> string \<times> int) list" where
  "clips_pending_cloud_announce limit now fl db =
     map (\<lambda>c. (c, the (cl_blob_url c), cl_announce_attempts c))
       (sql_limit limit (sort_null_first cl_announce_next_at (filter
         (\<lambda>c. cl_blob_url c \<noteq> None \<and> cl_announced_at c = None \<and> cold_uploaded_at c \<noteq> None
              \<and> same_core (cl_announce_core c) (enrolled_core db) \<and> above_floor fl (cl_started c)
              \<and> elapsed_at now (cl_announce_next_at c)) (clips db))))"

definition record_clip_announce_ack :: "string \<Rightarrow> instant \<Rightarrow> string option \<Rightarrow> media_db \<Rightarrow> nat \<times> media_db" where
  "record_clip_announce_ack aid at rejection db =
     (case update_clips (\<lambda>c. cl_announce_id c = Some aid \<and> cl_announced_at c = None)
             (\<lambda>c. c\<lparr>cl_announced_at := Some at, cl_announce_error := rejection\<rparr>) db of
        (n, db1) \<Rightarrow>
          (case update_alert_clips (\<lambda>c. al_announce_id c = Some aid \<and> al_announced_at c = None)
                  (\<lambda>c. c\<lparr>al_announced_at := Some at, al_announce_error := rejection\<rparr>) db1 of
             (m, db2) \<Rightarrow> (n + m, db2)))"

subsection \<open>Alert clips\<close>

definition is_ready :: "alert_clip_row \<Rightarrow> bool" where
  "is_ready a \<longleftrightarrow> al_state a = ''ready''"

definition known_alert_clip_paths :: "media_db \<Rightarrow> (int \<times> string \<times> string) list" where
  "known_alert_clip_paths db =
     map (\<lambda>a. (al_id a, al_path a, al_state a))
       (filter (\<lambda>a. al_state a \<in> {''building'', ''ready''}) (alert_clips db))"

definition insert_alert_clip :: "int \<Rightarrow> instant \<Rightarrow> string \<Rightarrow> media_db \<Rightarrow> (clip_error + int) \<times> media_db" where
  "insert_alert_clip cam started path db =
     (if cam \<notin> set (cameras (alerts db)) then (Inl Fk_Violation, db)
      else (Inr (next_alert_clip db),
            db\<lparr>alert_clips := alert_clips db @
                 [\<lparr>al_id = next_alert_clip db, al_camera = cam, al_path = path, al_started = started,
                   al_ready_at = None, al_state = ''building'', al_duration_ms = 0, al_size = 0,
                   al_sha256 = None, al_cold_handle = None, al_cold_path = None,
                   al_cold_uploaded_at = None, al_cold_attempts = 0, al_cold_last_attempt_at = None,
                   al_cold_last_error = None, al_blob_url = None, al_announce_id = None,
                   al_announce_core = None, al_announced_at = None, al_announce_error = None,
                   al_announce_attempts = 0, al_announce_next_at = None\<rparr>],
               next_alert_clip := next_alert_clip db + 1\<rparr>))"

definition mark_alert_clip_ready ::
  "instant \<Rightarrow> int \<Rightarrow> int \<Rightarrow> int \<Rightarrow> string option \<Rightarrow> media_db \<Rightarrow> (clip_error + unit) \<times> media_db" where
  "mark_alert_clip_ready now i dur bytes sha db =
     must_hit (update_alert_clips (\<lambda>a. al_id a = i \<and> al_state a = ''building'')
       (\<lambda>a. a\<lparr>al_state := ''ready'', al_duration_ms := dur, al_size := bytes, al_sha256 := sha,
              al_ready_at := Some now\<rparr>) db)"

definition mark_alert_clip_failed :: "int \<Rightarrow> media_db \<Rightarrow> media_db" where
  "mark_alert_clip_failed i db =
     snd (update_alert_clips (\<lambda>a. al_id a = i \<and> al_state a = ''building'') (\<lambda>a. a\<lparr>al_state := ''failed''\<rparr>) db)"

definition mark_alert_clip_evicted :: "int \<Rightarrow> media_db \<Rightarrow> media_db" where
  "mark_alert_clip_evicted i db =
     snd (update_alert_clips (\<lambda>a. al_id a = i \<and> al_state a = ''ready'') (\<lambda>a. a\<lparr>al_state := ''evicted''\<rparr>) db)"

definition mark_alert_clip_cold_replicated ::
  "int \<Rightarrow> cold_mark \<Rightarrow> media_db \<Rightarrow> (clip_error + unit) \<times> media_db" where
  "mark_alert_clip_cold_replicated i m db =
     (if has_alert_clip i db \<and> \<not> has_backend (cm_handle m) db then (Inl Fk_Violation, db)
      else must_hit (update_alert_clips (\<lambda>a. al_id a = i)
        (\<lambda>a. a\<lparr>al_cold_handle := Some (cm_handle m), al_cold_path := Some (cm_path m),
               al_cold_uploaded_at := Some (cm_uploaded_at m)\<rparr>) db))"

definition stamp_alert_clip_announce :: "int \<Rightarrow> string \<Rightarrow> string \<Rightarrow> media_db \<Rightarrow> (clip_error + unit) \<times> media_db" where
  "stamp_alert_clip_announce i url aid db =
     must_hit (update_alert_clips (\<lambda>a. al_id a = i)
       (\<lambda>a. a\<lparr>al_blob_url := Some url, al_announce_id := Some aid, al_announce_core := enrolled_core db\<rparr>) db)"

definition record_alert_clip_announce_sent :: "int \<Rightarrow> instant \<Rightarrow> media_db \<Rightarrow> (clip_error + unit) \<times> media_db" where
  "record_alert_clip_announce_sent i next db =
     must_hit (update_alert_clips (\<lambda>a. al_id a = i)
       (\<lambda>a. a\<lparr>al_announce_attempts := al_announce_attempts a + 1, al_announce_next_at := Some next\<rparr>) db)"

definition alert_clips_pending_cloud_announce ::
  "int \<Rightarrow> instant \<Rightarrow> instant option \<Rightarrow> media_db \<Rightarrow> (alert_clip_row \<times> string \<times> int) list" where
  "alert_clips_pending_cloud_announce limit now fl db =
     map (\<lambda>a. (a, the (al_blob_url a), al_announce_attempts a))
       (sql_limit limit (sort_null_first al_announce_next_at (filter
         (\<lambda>a. al_blob_url a \<noteq> None \<and> al_announced_at a = None \<and> al_cold_uploaded_at a \<noteq> None
              \<and> same_core (al_announce_core a) (enrolled_core db) \<and> above_floor fl (al_started a)
              \<and> elapsed_at now (al_announce_next_at a)) (alert_clips db))))"

definition record_alert_clip_cold_failure :: "int \<Rightarrow> instant \<Rightarrow> string \<Rightarrow> media_db \<Rightarrow> media_db" where
  "record_alert_clip_cold_failure i now err db =
     snd (update_alert_clips (\<lambda>a. al_id a = i)
       (\<lambda>a. a\<lparr>al_cold_attempts := al_cold_attempts a + 1, al_cold_last_attempt_at := Some now,
              al_cold_last_error := Some err\<rparr>) db)"

definition alert_clips_pending_cold_upload ::
  "int \<Rightarrow> instant option \<Rightarrow> instant \<Rightarrow> media_db \<Rightarrow> alert_clip_row list" where
  "alert_clips_pending_cold_upload limit fl retry_cutoff db =
     sql_limit limit (sort_null_first al_ready_at (filter
       (\<lambda>a. is_ready a \<and> al_cold_uploaded_at a = None \<and> al_sha256 a \<noteq> None
            \<and> elapsed_at retry_cutoff (al_cold_last_attempt_at a) \<and> above_floor fl (al_started a)) (alert_clips db)))"

definition get_alert_clip :: "int \<Rightarrow> media_db \<Rightarrow> alert_clip_row option" where
  "get_alert_clip i db = find (\<lambda>a. al_id a = i) (alert_clips db)"

definition get_event_alert_clip :: "string \<Rightarrow> media_db \<Rightarrow> alert_clip_row option" where
  "get_event_alert_clip ev db =
     (if events (alerts db) ev = None then None
      else Option.bind (event_alert_clip db ev) (\<lambda>i. get_alert_clip i db))"

definition link_event_alert_clip :: "string \<Rightarrow> int \<Rightarrow> media_db \<Rightarrow> (clip_error + unit) \<times> media_db" where
  "link_event_alert_clip ev i db =
     (if events (alerts db) ev = None then (Inl Row_Missing, db)
      else if \<not> has_alert_clip i db then (Inl Fk_Violation, db)
      else (Inr (), db\<lparr>event_alert_clip := (event_alert_clip db)(ev \<mapsto> i)\<rparr>))"

text \<open>An outbox row of an event that shares the clip and has not reached a terminal status.\<close>

definition outstanding :: "int \<Rightarrow> media_db \<Rightarrow> outbox_row \<Rightarrow> bool" where
  "outstanding i db r \<longleftrightarrow> events (alerts db) (event_id r) \<noteq> None
     \<and> event_alert_clip db (event_id r) = Some i \<and> status r \<in> {Pending, Failed}"

definition alert_clip_pending_deliveries :: "int \<Rightarrow> media_db \<Rightarrow> nat" where
  "alert_clip_pending_deliveries i db = length (filter (outstanding i db) (outbox (alerts db)))"

definition alert_clips_evictable :: "int \<Rightarrow> instant \<Rightarrow> media_db \<Rightarrow> alert_clip_row list" where
  "alert_clips_evictable limit grace_cutoff db =
     sql_limit limit (sort_null_first al_ready_at (filter
       (\<lambda>a. is_ready a
            \<and> (al_cold_uploaded_at a \<noteq> None \<or> (case al_ready_at a of None \<Rightarrow> False | Some t \<Rightarrow> t \<le> grace_cutoff))
            \<and> \<not> list_ex (outstanding (al_id a) db) (outbox (alerts db))) (alert_clips db)))"

subsection \<open>Backends\<close>

definition BACKEND_KINDS :: "string list" where
  "BACKEND_KINDS = [''local'', ''usb'', ''lan'', ''gdrive'', ''onedrive'', ''azure_blob'']"

definition read_cold_replica :: "media_db \<Rightarrow> string option \<times> int" where
  "read_cold_replica db = (replica_handle db, throttle_bps db)"

definition write_cold_replica :: "string option \<Rightarrow> int \<Rightarrow> media_db \<Rightarrow> (clip_error + unit) \<times> media_db" where
  "write_cold_replica h bps db =
     (case h of
        Some x \<Rightarrow> if has_backend x db then (Inr (), db\<lparr>replica_handle := h, throttle_bps := bps\<rparr>)
                  else (Inl Fk_Violation, db)
      | None \<Rightarrow> (Inr (), db\<lparr>replica_handle := None, throttle_bps := bps\<rparr>))"

definition upsert_storage_backend :: "instant \<Rightarrow> string \<Rightarrow> string \<Rightarrow> string \<Rightarrow> media_db \<Rightarrow> (clip_error + unit) \<times> media_db" where
  "upsert_storage_backend now h kind config db =
     (if kind \<notin> set BACKEND_KINDS then (Inl Check_Failed, db)
      else let b = \<lparr>sb_handle = h, sb_kind = kind, sb_config = config, sb_updated_at = now\<rparr> in
        (Inr (), db\<lparr>backends :=
           (if has_backend h db then map (\<lambda>x. if sb_handle x = h then b else x) (backends db)
            else backends db @ [b])\<rparr>))"

definition delete_storage_backend :: "string \<Rightarrow> media_db \<Rightarrow> (delete_backend_error + unit) \<times> media_db" where
  "delete_storage_backend h db =
     (if h = ''local'' then (Inl Local_Backend, db)
      else if replica_handle db = Some h then (Inl Active_Cold, db)
      else if list_ex (\<lambda>c. hot_handle c = Some h \<or> cold_handle c = Some h) (clips db) then (Inl Backend_In_Use, db)
      else if \<not> has_backend h db then (Inl (Backend_Store Row_Missing), db)
      else if list_ex (\<lambda>a. al_cold_handle a = Some h) (alert_clips db) then (Inl (Backend_Store Fk_Violation), db)
      else (Inr (), db\<lparr>backends := filter (\<lambda>b. sb_handle b \<noteq> h) (backends db)\<rparr>))"

subsection \<open>Cameras\<close>

text \<open>
  The statements on \<open>cameras\<close> as far as the media tables see them: the key column.  A
  deleted camera takes its clips, motion events, alert clips and alert events with it
  (\<open>ON DELETE CASCADE\<close>), its clips take their own dependants, and an event that stays
  and was linked to one of its alert clips loses the link (\<open>ON DELETE SET NULL\<close>).
\<close>

definition next_camera :: "media_db \<Rightarrow> int" where
  "next_camera db = (if cameras (alerts db) = [] then 1 else Max (set (cameras (alerts db))) + 1)"

definition upsert_camera_row :: "int \<Rightarrow> media_db \<Rightarrow> media_db" where
  "upsert_camera_row i db = db\<lparr>alerts := upsert_camera i (alerts db)\<rparr>"

definition create_camera :: "media_db \<Rightarrow> media_db" where
  "create_camera db = upsert_camera_row (next_camera db) db"

definition clip_of_camera :: "int \<Rightarrow> media_db \<Rightarrow> int \<Rightarrow> bool" where
  "clip_of_camera cam db j = list_ex (\<lambda>c. cl_id c = j \<and> cl_camera c = cam) (clips db)"

definition alert_clip_of_camera :: "int \<Rightarrow> media_db \<Rightarrow> int \<Rightarrow> bool" where
  "alert_clip_of_camera cam db j = list_ex (\<lambda>a. al_id a = j \<and> al_camera a = cam) (alert_clips db)"

definition linked_to :: "(int \<Rightarrow> bool) \<Rightarrow> int option \<Rightarrow> bool" where
  "linked_to P l = (case l of None \<Rightarrow> False | Some j \<Rightarrow> P j)"

definition delete_camera :: "int \<Rightarrow> media_db \<Rightarrow> media_db" where
  "delete_camera cam db =
     (let clip_gone = (\<lambda>e. linked_to (clip_of_camera cam db) (event_clip db e));
          event_gone = (\<lambda>e. event_of_camera cam (alerts db) e \<or> clip_gone e)
      in db\<lparr>clips := filter (\<lambda>c. cl_camera c \<noteq> cam) (clips db),
            motion_events := filter (\<lambda>m. me_camera m \<noteq> cam \<and> \<not> clip_of_camera cam db (me_clip m)) (motion_events db),
            alert_clips := filter (\<lambda>a. al_camera a \<noteq> cam) (alert_clips db),
            alerts := drop_camera cam clip_gone (alerts db),
            event_clip := (\<lambda>e. if event_gone e then None else event_clip db e),
            event_alert_clip := (\<lambda>e. if event_gone e \<or> linked_to (alert_clip_of_camera cam db) (event_alert_clip db e)
                                     then None else event_alert_clip db e)\<rparr>)"

text \<open>The alert and the pruner of \<^verbatim>\<open>Outbox\<close>, on the whole database.\<close>

definition record_alert :: "alert_event \<Rightarrow> string list \<Rightarrow> bool \<Rightarrow> instant \<Rightarrow> media_db \<Rightarrow> (store_error + unit) \<times> media_db" where
  "record_alert ev sinks alerted now db =
     (case record_event_and_enqueue_classified ev sinks alerted now (alerts db) of
        Inl e \<Rightarrow> (Inl e, db) | Inr d \<Rightarrow> (Inr (), db\<lparr>alerts := d\<rparr>))"

definition prune_alerts :: "instant \<Rightarrow> int \<Rightarrow> media_db \<Rightarrow> media_db" where
  "prune_alerts cutoff limit db = db\<lparr>alerts := snd (prune_outbox_terminal_older_than cutoff limit (alerts db))\<rparr>"

section \<open>The schema\<close>

definition check_clip :: "clip_row \<Rightarrow> bool" where
  "check_clip c \<longleftrightarrow> (hot_handle c \<noteq> None \<or> cold_handle c \<noteq> None)
     \<and> (hot_handle c = None \<or> hot_path c \<noteq> None)
     \<and> (cold_handle c = None \<or> cold_path c \<noteq> None \<and> cold_uploaded_at c \<noteq> None)"

definition ref_ok :: "media_db \<Rightarrow> string option \<Rightarrow> bool" where
  "ref_ok db h = (case h of None \<Rightarrow> True | Some x \<Rightarrow> has_backend x db)"

definition clip_ok :: "media_db \<Rightarrow> clip_row \<Rightarrow> bool" where
  "clip_ok db c \<longleftrightarrow> cl_id c < next_clip db \<and> cl_camera c \<in> set (cameras (alerts db)) \<and> check_clip c \<and> ref_ok db (hot_handle c) \<and> ref_ok db (cold_handle c)"

definition alert_clip_ok :: "media_db \<Rightarrow> alert_clip_row \<Rightarrow> bool" where
  "alert_clip_ok db a \<longleftrightarrow> al_id a < next_alert_clip db \<and> al_camera a \<in> set (cameras (alerts db)) \<and> ref_ok db (al_cold_handle a)
     \<and> al_state a \<in> {''building'', ''ready'', ''failed'', ''evicted''}"

definition links_ok :: "media_db \<Rightarrow> bool" where
  "links_ok db \<longleftrightarrow>
     (\<forall>e i. event_clip db e = Some i \<longrightarrow> events (alerts db) e \<noteq> None \<and> has_clip i db)
     \<and> (\<forall>e i. event_alert_clip db e = Some i \<longrightarrow> events (alerts db) e \<noteq> None \<and> has_alert_clip i db)
     \<and> list_all (\<lambda>m. has_clip (me_clip m) db) (motion_events db)"

definition motion_ok :: "media_db \<Rightarrow> motion_event \<Rightarrow> bool" where
  "motion_ok db m \<longleftrightarrow> me_id m < next_motion_event db \<and> me_camera m \<in> set (cameras (alerts db))"

text \<open>Keys and camera references of the tables that are not clips.\<close>

definition keys_ok :: "media_db \<Rightarrow> bool" where
  "keys_ok db \<longleftrightarrow>
     distinct (map me_id (motion_events db)) \<and> list_all (motion_ok db) (motion_events db)
     \<and> distinct (map sb_handle (backends db)) \<and> distinct (cameras (alerts db))
     \<and> (\<forall>e ev alerted. events (alerts db) e = Some (ev, alerted) \<longrightarrow> ev_camera_id ev \<in> set (cameras (alerts db)))"

definition media_inv :: "media_db \<Rightarrow> bool" where
  "media_inv db \<longleftrightarrow>
     distinct (map cl_id (clips db)) \<and> list_all (clip_ok db) (clips db)
     \<and> distinct (map al_id (alert_clips db)) \<and> list_all (alert_clip_ok db) (alert_clips db)
     \<and> links_ok db \<and> table_inv (alerts db)
     \<and> ref_ok db (replica_handle db) \<and> has_backend ''local'' db \<and> keys_ok db"

lemma inv_parts:
  assumes "media_inv db"
  shows "distinct (map cl_id (clips db))" "list_all (clip_ok db) (clips db)"
    "distinct (map al_id (alert_clips db))" "list_all (alert_clip_ok db) (alert_clips db)"
    "links_ok db" "table_inv (alerts db)" "ref_ok db (replica_handle db)" "has_backend ''local'' db"
    "keys_ok db"
  using assms by (simp_all add: media_inv_def)

lemma same_clip:
  assumes "media_inv db" "c \<in> set (clips db)" "d \<in> set (clips db)" "cl_id c = cl_id d"
  shows "c = d"
  using assms inv_parts(1) by (metis distinct_map inj_onD)

lemma has_clip_iff: "has_clip i db \<longleftrightarrow> i \<in> cl_id ` set (clips db)"
  by (auto simp: has_clip_def list_ex_iff)

lemma has_alert_clip_iff: "has_alert_clip i db \<longleftrightarrow> i \<in> al_id ` set (alert_clips db)"
  by (auto simp: has_alert_clip_def list_ex_iff)

lemma has_clip_ids: "has_clip i db \<longleftrightarrow> i \<in> set (map cl_id (clips db))"
  by (simp add: has_clip_iff)

lemma has_alert_clip_ids: "has_alert_clip i db \<longleftrightarrow> i \<in> set (map al_id (alert_clips db))"
  by (simp add: has_alert_clip_iff)

lemma ref_ok_simps [simp]: "ref_ok db None" "ref_ok db (Some h) = has_backend h db"
  by (simp_all add: ref_ok_def)

text \<open>The checks depend on a few fields only.\<close>

lemma has_backend_frame [simp]:
  "has_backend h (db\<lparr>clips := v_clips\<rparr>) = has_backend h db"
  "has_backend h (db\<lparr>next_clip := v_next_clip\<rparr>) = has_backend h db"
  "has_backend h (db\<lparr>motion_events := v_motion_events\<rparr>) = has_backend h db"
  "has_backend h (db\<lparr>next_motion_event := v_next_motion_event\<rparr>) = has_backend h db"
  "has_backend h (db\<lparr>alert_clips := v_alert_clips\<rparr>) = has_backend h db"
  "has_backend h (db\<lparr>next_alert_clip := v_next_alert_clip\<rparr>) = has_backend h db"
  "has_backend h (db\<lparr>alerts := v_alerts\<rparr>) = has_backend h db"
  "has_backend h (db\<lparr>event_clip := v_event_clip\<rparr>) = has_backend h db"
  "has_backend h (db\<lparr>event_alert_clip := v_event_alert_clip\<rparr>) = has_backend h db"
  "has_backend h (db\<lparr>replica_handle := v_replica_handle\<rparr>) = has_backend h db"
  "has_backend h (db\<lparr>throttle_bps := v_throttle_bps\<rparr>) = has_backend h db"
  by (simp_all add: has_backend_def)

lemma ref_ok_frame [simp]:
  "ref_ok (db\<lparr>clips := v_clips\<rparr>) x = ref_ok db x"
  "ref_ok (db\<lparr>next_clip := v_next_clip\<rparr>) x = ref_ok db x"
  "ref_ok (db\<lparr>motion_events := v_motion_events\<rparr>) x = ref_ok db x"
  "ref_ok (db\<lparr>next_motion_event := v_next_motion_event\<rparr>) x = ref_ok db x"
  "ref_ok (db\<lparr>alert_clips := v_alert_clips\<rparr>) x = ref_ok db x"
  "ref_ok (db\<lparr>next_alert_clip := v_next_alert_clip\<rparr>) x = ref_ok db x"
  "ref_ok (db\<lparr>alerts := v_alerts\<rparr>) x = ref_ok db x"
  "ref_ok (db\<lparr>event_clip := v_event_clip\<rparr>) x = ref_ok db x"
  "ref_ok (db\<lparr>event_alert_clip := v_event_alert_clip\<rparr>) x = ref_ok db x"
  "ref_ok (db\<lparr>replica_handle := v_replica_handle\<rparr>) x = ref_ok db x"
  "ref_ok (db\<lparr>throttle_bps := v_throttle_bps\<rparr>) x = ref_ok db x"
  by (simp_all add: ref_ok_def split: option.split)

lemma has_clip_frame [simp]:
  "has_clip i (db\<lparr>next_clip := v_next_clip\<rparr>) = has_clip i db"
  "has_clip i (db\<lparr>motion_events := v_motion_events\<rparr>) = has_clip i db"
  "has_clip i (db\<lparr>next_motion_event := v_next_motion_event\<rparr>) = has_clip i db"
  "has_clip i (db\<lparr>alert_clips := v_alert_clips\<rparr>) = has_clip i db"
  "has_clip i (db\<lparr>next_alert_clip := v_next_alert_clip\<rparr>) = has_clip i db"
  "has_clip i (db\<lparr>alerts := v_alerts\<rparr>) = has_clip i db"
  "has_clip i (db\<lparr>event_clip := v_event_clip\<rparr>) = has_clip i db"
  "has_clip i (db\<lparr>event_alert_clip := v_event_alert_clip\<rparr>) = has_clip i db"
  "has_clip i (db\<lparr>backends := v_backends\<rparr>) = has_clip i db"
  "has_clip i (db\<lparr>replica_handle := v_replica_handle\<rparr>) = has_clip i db"
  "has_clip i (db\<lparr>throttle_bps := v_throttle_bps\<rparr>) = has_clip i db"
  by (simp_all add: has_clip_def)

lemma has_alert_clip_frame [simp]:
  "has_alert_clip i (db\<lparr>clips := v_clips\<rparr>) = has_alert_clip i db"
  "has_alert_clip i (db\<lparr>next_clip := v_next_clip\<rparr>) = has_alert_clip i db"
  "has_alert_clip i (db\<lparr>motion_events := v_motion_events\<rparr>) = has_alert_clip i db"
  "has_alert_clip i (db\<lparr>next_motion_event := v_next_motion_event\<rparr>) = has_alert_clip i db"
  "has_alert_clip i (db\<lparr>next_alert_clip := v_next_alert_clip\<rparr>) = has_alert_clip i db"
  "has_alert_clip i (db\<lparr>alerts := v_alerts\<rparr>) = has_alert_clip i db"
  "has_alert_clip i (db\<lparr>event_clip := v_event_clip\<rparr>) = has_alert_clip i db"
  "has_alert_clip i (db\<lparr>event_alert_clip := v_event_alert_clip\<rparr>) = has_alert_clip i db"
  "has_alert_clip i (db\<lparr>backends := v_backends\<rparr>) = has_alert_clip i db"
  "has_alert_clip i (db\<lparr>replica_handle := v_replica_handle\<rparr>) = has_alert_clip i db"
  "has_alert_clip i (db\<lparr>throttle_bps := v_throttle_bps\<rparr>) = has_alert_clip i db"
  by (simp_all add: has_alert_clip_def)

lemma keys_ok_frame [simp]:
  "keys_ok (db\<lparr>clips := v_clips\<rparr>) = keys_ok db"
  "keys_ok (db\<lparr>next_clip := v_next_clip\<rparr>) = keys_ok db"
  "keys_ok (db\<lparr>alert_clips := v_alert_clips\<rparr>) = keys_ok db"
  "keys_ok (db\<lparr>next_alert_clip := v_next_alert_clip\<rparr>) = keys_ok db"
  "keys_ok (db\<lparr>event_clip := v_event_clip\<rparr>) = keys_ok db"
  "keys_ok (db\<lparr>event_alert_clip := v_event_alert_clip\<rparr>) = keys_ok db"
  "keys_ok (db\<lparr>replica_handle := v_replica_handle\<rparr>) = keys_ok db"
  "keys_ok (db\<lparr>throttle_bps := v_throttle_bps\<rparr>) = keys_ok db"
  by (simp_all add: keys_ok_def motion_ok_def list_all_iff)

lemma cameras_drop_events [simp]: "cameras (drop_events P d) = cameras d"
  by (simp add: drop_events_def)

lemma row_ok_frame [simp]:
  "clip_ok (db\<lparr>clips := cs\<rparr>) = clip_ok db"
  "alert_clip_ok (db\<lparr>clips := cs\<rparr>) = alert_clip_ok db"
  "clip_ok (db\<lparr>alert_clips := as\<rparr>) = clip_ok db"
  "alert_clip_ok (db\<lparr>alert_clips := as\<rparr>) = alert_clip_ok db"
  by (simp_all add: clip_ok_def alert_clip_ok_def fun_eq_iff)

lemma update_clips_inv:
  assumes "media_inv db"
    and keep: "\<And>c. c \<in> set (clips db) \<Longrightarrow> clip_ok db c \<Longrightarrow> P c \<Longrightarrow> cl_id (f c) = cl_id c \<and> clip_ok db (f c)"
  shows "media_inv (snd (update_clips P f db))"
proof -
  let ?cs = "map (\<lambda>c. if P c then f c else c) (clips db)"
  let ?db' = "db\<lparr>clips := ?cs\<rparr>"
  have ok: "clip_ok db c" if "c \<in> set (clips db)" for c
    using inv_parts(2) [OF assms(1)] that by (simp add: list_all_iff)
  have "cl_id (if P c then f c else c) = cl_id c" if "c \<in> set (clips db)" for c
    using keep [OF that ok [OF that]] by simp
  then have ids: "map cl_id ?cs = map cl_id (clips db)" by simp
  have new: "clips ?db' = ?cs" by simp
  have has: "has_clip i ?db' = has_clip i db" for i
    unfolding has_clip_ids new ids ..
  have "list_all (clip_ok db) ?cs"
    using keep ok by (auto simp: list_all_iff)
  moreover have "links_ok ?db'"
    using inv_parts(5) [OF assms(1)] by (simp add: links_ok_def has)
  moreover have "distinct (map cl_id ?cs)" using inv_parts(1) [OF assms(1)] unfolding ids .
  ultimately show ?thesis
    using assms(1) by (simp add: media_inv_def update_clips_def del: map_map)
qed

lemma update_alert_clips_inv:
  assumes "media_inv db"
    and keep: "\<And>a. a \<in> set (alert_clips db) \<Longrightarrow> alert_clip_ok db a \<Longrightarrow> P a \<Longrightarrow> al_id (f a) = al_id a \<and> alert_clip_ok db (f a)"
  shows "media_inv (snd (update_alert_clips P f db))"
proof -
  let ?as = "map (\<lambda>a. if P a then f a else a) (alert_clips db)"
  let ?db' = "db\<lparr>alert_clips := ?as\<rparr>"
  have ok: "alert_clip_ok db a" if "a \<in> set (alert_clips db)" for a
    using inv_parts(4) [OF assms(1)] that by (simp add: list_all_iff)
  have "al_id (if P a then f a else a) = al_id a" if "a \<in> set (alert_clips db)" for a
    using keep [OF that ok [OF that]] by simp
  then have ids: "map al_id ?as = map al_id (alert_clips db)" by simp
  have new: "alert_clips ?db' = ?as" by simp
  have has: "has_alert_clip i ?db' = has_alert_clip i db" for i
    unfolding has_alert_clip_ids new ids ..
  have "list_all (alert_clip_ok db) ?as"
    using keep ok by (auto simp: list_all_iff)
  moreover have "links_ok ?db'"
    using inv_parts(5) [OF assms(1)] by (simp add: links_ok_def has)
  moreover have "distinct (map al_id ?as)" using inv_parts(3) [OF assms(1)] unfolding ids .
  ultimately show ?thesis
    using assms(1) by (simp add: media_inv_def update_alert_clips_def del: map_map)
qed

text \<open>Appending a row, and other columns of the state.\<close>

lemma snd_must_hit [simp]: "snd (must_hit r) = snd r"
  by (simp add: must_hit_def)

lemma inv_open_clip:
  assumes "media_inv db" shows "media_inv (snd (open_clip new db))"
proof (cases "nc_camera new \<in> set (cameras (alerts db)) \<and> has_backend (nc_hot_handle new) db")
  case True
  have below: "cl_id c < next_clip db" if "c \<in> set (clips db)" for c
    using inv_parts(2) [OF assms] that by (auto simp: list_all_iff clip_ok_def)
  then have "next_clip db \<notin> cl_id ` set (clips db)" by fastforce
  moreover have "list_all (\<lambda>c. cl_id c < next_clip db + 1 \<and> cl_camera c \<in> set (cameras (alerts db)) \<and> check_clip c \<and> ref_ok db (hot_handle c) \<and> ref_ok db (cold_handle c)) (clips db)"
    using inv_parts(2) [OF assms] by (auto simp: list_all_iff clip_ok_def)
  moreover have "links_ok (snd (open_clip new db))"
    using inv_parts(5) [OF assms] True
    by (auto simp: open_clip_def links_ok_def has_clip_def has_alert_clip_def list_all_iff)
  ultimately show ?thesis
    using True assms
    by (simp add: open_clip_def media_inv_def clip_ok_def alert_clip_ok_def list_all_iff)
      (simp add: check_clip_def ref_ok_def)
qed (use assms in \<open>auto simp: open_clip_def\<close>)

lemma inv_insert_alert_clip:
  assumes "media_inv db" shows "media_inv (snd (insert_alert_clip cam st p db))"
proof (cases "cam \<in> set (cameras (alerts db))")
  case True
  have below: "al_id a < next_alert_clip db" if "a \<in> set (alert_clips db)" for a
    using inv_parts(4) [OF assms] that by (auto simp: list_all_iff alert_clip_ok_def)
  then have "next_alert_clip db \<notin> al_id ` set (alert_clips db)" by fastforce
  moreover have "\<forall>a\<in>set (alert_clips db). al_id a < next_alert_clip db + 1" using below by fastforce
  moreover have "links_ok (snd (insert_alert_clip cam st p db))"
    using inv_parts(5) [OF assms] True
    by (auto simp: insert_alert_clip_def links_ok_def has_clip_def has_alert_clip_def list_all_iff)
  ultimately show ?thesis
    using True assms
    by (simp add: insert_alert_clip_def media_inv_def clip_ok_def alert_clip_ok_def list_all_iff)
qed (use assms in \<open>simp add: insert_alert_clip_def\<close>)

lemma keys_ok_new_motion:
  assumes "keys_ok db" "me_id m = next_motion_event db" "me_camera m \<in> set (cameras (alerts db))"
  shows "keys_ok (db\<lparr>motion_events := motion_events db @ [m], next_motion_event := next_motion_event db + 1\<rparr>)"
proof -
  have "me_id x < next_motion_event db" if "x \<in> set (motion_events db)" for x
    using assms(1) that by (auto simp: keys_ok_def motion_ok_def list_all_iff)
  then have "next_motion_event db \<notin> me_id ` set (motion_events db)" "\<forall>x\<in>set (motion_events db). me_id x < next_motion_event db + 1"
    by fastforce+
  with assms show ?thesis by (simp add: keys_ok_def motion_ok_def list_all_iff)
qed

lemma inv_insert_motion_event:
  "media_inv db \<Longrightarrow> media_inv (snd (insert_motion_event cam i tr k t l a db))"
  by (simp add: insert_motion_event_def media_inv_def links_ok_def clip_ok_def alert_clip_ok_def list_all_iff
      keys_ok_new_motion)

lemma inv_link_event_to_clip: "media_inv db \<Longrightarrow> media_inv (snd (link_event_to_clip ev i db))"
  by (simp add: link_event_to_clip_def media_inv_def links_ok_def clip_ok_def alert_clip_ok_def list_all_iff)

lemma inv_link_event_alert_clip: "media_inv db \<Longrightarrow> media_inv (snd (link_event_alert_clip ev i db))"
  by (simp add: link_event_alert_clip_def media_inv_def links_ok_def clip_ok_def alert_clip_ok_def list_all_iff)

lemma inv_write_cold_replica: "media_inv db \<Longrightarrow> media_inv (snd (write_cold_replica h bps db))"
  by (cases h)
    (simp_all add: write_cold_replica_def media_inv_def links_ok_def clip_ok_def alert_clip_ok_def list_all_iff)

lemma has_clip_after_delete:
  "has_clip i db \<Longrightarrow> has_clip j (snd (cascade_delete_clip_metadata i db)) \<longleftrightarrow> has_clip j db \<and> j \<noteq> i"
  by (auto simp: cascade_delete_clip_metadata_def has_clip_def list_ex_iff Let_def)

lemma inv_cascade:
  assumes "media_inv db" shows "media_inv (snd (cascade_delete_clip_metadata i db))"
proof (cases "has_clip i db")
  case True
  let ?db' = "snd (cascade_delete_clip_metadata i db)"
  have cols: "event_clip ?db' = (\<lambda>e. if event_clip db e = Some i then None else event_clip db e)"
    "event_alert_clip ?db' = (\<lambda>e. if event_clip db e = Some i then None else event_alert_clip db e)"
    "motion_events ?db' = filter (\<lambda>m. me_clip m \<noteq> i) (motion_events db)"
    "events (alerts ?db') = (\<lambda>e. if event_clip db e = Some i then None else events (alerts db) e)"
    "\<And>j. has_alert_clip j ?db' = has_alert_clip j db"
    using True by (simp_all add: cascade_delete_clip_metadata_def drop_events_def Let_def)
  have "links_ok ?db'"
    using inv_parts(5) [OF assms] unfolding links_ok_def cols has_clip_after_delete [OF True]
    by (auto simp: list_all_iff)
  moreover have "keys_ok ?db'"
    using inv_parts(9) [OF assms] True
    by (simp add: keys_ok_def motion_ok_def cascade_delete_clip_metadata_def drop_events_def Let_def
        distinct_map_filter list_all_iff)
  ultimately show ?thesis
    using assms True drop_events_keeps
    by (simp add: cascade_delete_clip_metadata_def media_inv_def clip_ok_def alert_clip_ok_def
        distinct_map_filter list_all_iff Let_def)
qed (use assms in \<open>simp add: cascade_delete_clip_metadata_def\<close>)

lemma inv_clear_hot: "media_inv db \<Longrightarrow> media_inv (snd (clear_hot_pointer i db))"
  unfolding clear_hot_pointer_def
  by (rule update_clips_inv) (auto simp: clip_ok_def check_clip_def ref_ok_def)

lemma inv_repopulate: "media_inv db \<Longrightarrow> media_inv (snd (repopulate_hot_pointer i h p db))"
proof -
  let ?hit = "\<lambda>c. cl_id c = i \<and> hot_handle c = None"
  let ?f = "\<lambda>c. c\<lparr>hot_handle := Some h, hot_path := Some p\<rparr>"
  assume inv: "media_inv db"
  have "media_inv (snd (update_clips ?hit ?f db))" if "\<not> (list_ex ?hit (clips db) \<and> \<not> has_backend h db)"
    by (rule update_clips_inv [OF inv]) (use that in \<open>auto simp: clip_ok_def check_clip_def ref_ok_def list_ex_iff\<close>)
  then show ?thesis using inv by (auto simp: repopulate_hot_pointer_def Let_def split: prod.splits)
qed

lemma inv_mark_cold:
  assumes "media_inv db" shows "media_inv (snd (mark_cold_replicated i m db))"
proof (cases "has_clip i db \<and> \<not> has_backend (cm_handle m) db")
  case False
  then show ?thesis
    unfolding mark_cold_replicated_def using assms
    by (auto intro!: update_clips_inv simp: clip_ok_def check_clip_def ref_ok_def has_clip_iff)
qed (use assms in \<open>simp add: mark_cold_replicated_def\<close>)

lemma inv_mark_alert_cold:
  assumes "media_inv db" shows "media_inv (snd (mark_alert_clip_cold_replicated i m db))"
proof (cases "has_alert_clip i db \<and> \<not> has_backend (cm_handle m) db")
  case False
  then show ?thesis
    unfolding mark_alert_clip_cold_replicated_def using assms
    by (auto intro!: update_alert_clips_inv simp: alert_clip_ok_def ref_ok_def has_alert_clip_iff)
qed (use assms in \<open>simp add: mark_alert_clip_cold_replicated_def\<close>)

lemma has_backend_iff: "has_backend h db \<longleftrightarrow> h \<in> set (map sb_handle (backends db))"
  by (auto simp: has_backend_def list_ex_iff)

lemma inv_backends:
  assumes inv: "media_inv db" and local: "has_backend ''local'' (db\<lparr>backends := bs\<rparr>)"
    and refs: "\<And>c. c \<in> set (clips db) \<Longrightarrow> clip_ok db c \<Longrightarrow>
        ref_ok (db\<lparr>backends := bs\<rparr>) (hot_handle c) \<and> ref_ok (db\<lparr>backends := bs\<rparr>) (cold_handle c)"
    "\<And>a. a \<in> set (alert_clips db) \<Longrightarrow> alert_clip_ok db a \<Longrightarrow> ref_ok (db\<lparr>backends := bs\<rparr>) (al_cold_handle a)"
    "ref_ok (db\<lparr>backends := bs\<rparr>) (replica_handle db)"
    and keys: "distinct (map sb_handle bs)"
  shows "media_inv (db\<lparr>backends := bs\<rparr>)"
proof -
  have "clip_ok (db\<lparr>backends := bs\<rparr>) c" if "c \<in> set (clips db)" for c
    using refs(1) [OF that] inv_parts(2) [OF inv] that by (simp add: clip_ok_def list_all_iff)
  moreover have "alert_clip_ok (db\<lparr>backends := bs\<rparr>) a" if "a \<in> set (alert_clips db)" for a
    using refs(2) [OF that] inv_parts(4) [OF inv] that by (simp add: alert_clip_ok_def list_all_iff)
  moreover have "links_ok (db\<lparr>backends := bs\<rparr>)"
    using inv_parts(5) [OF inv] by (simp add: links_ok_def)
  moreover have "keys_ok (db\<lparr>backends := bs\<rparr>)"
    using inv_parts(9) [OF inv] keys by (simp add: keys_ok_def motion_ok_def list_all_iff)
  ultimately show ?thesis
    using inv local refs(3) by (simp add: media_inv_def list_all_iff)
qed

lemma inv_upsert_backend:
  assumes "media_inv db" shows "media_inv (snd (upsert_storage_backend now h k cfg db))"
proof (cases "k \<in> set BACKEND_KINDS")
  case True
  let ?b = "\<lparr>sb_handle = h, sb_kind = k, sb_config = cfg, sb_updated_at = now\<rparr>"
  let ?bs = "if has_backend h db then map (\<lambda>x. if sb_handle x = h then ?b else x) (backends db) else backends db @ [?b]"
  let ?m = "map (\<lambda>x. if sb_handle x = h then ?b else x) (backends db)"
  have same: "map sb_handle ?m = map sb_handle (backends db)" and new: "backends (db\<lparr>backends := ?m\<rparr>) = ?m"
    by simp_all
  have keep: "has_backend x (db\<lparr>backends := ?bs\<rparr>)" if "has_backend x db" for x
  proof (cases "has_backend h db")
    case True
    have "has_backend x (db\<lparr>backends := ?m\<rparr>)"
      using that unfolding has_backend_iff new same .
    then show ?thesis using True by simp
  qed (use that in \<open>simp add: has_backend_iff\<close>)
  then have ref: "ref_ok db x \<Longrightarrow> ref_ok (db\<lparr>backends := ?bs\<rparr>) x" for x by (cases x) auto
  have uniq: "distinct (map sb_handle (backends db))"
    using inv_parts(9) [OF assms] by (simp add: keys_ok_def)
  have "distinct (map sb_handle ?bs)"
  proof (cases "has_backend h db")
    case True
    have "distinct (map sb_handle ?m)" unfolding same by (rule uniq)
    then show ?thesis using True by simp
  qed (use uniq in \<open>auto simp: has_backend_iff\<close>)
  then have "media_inv (db\<lparr>backends := ?bs\<rparr>)"
    using inv_parts(7,8) [OF assms] keep
    by (intro inv_backends [OF assms] ref conjI) (simp_all add: clip_ok_def alert_clip_ok_def)
  then show ?thesis using True by (simp add: upsert_storage_backend_def Let_def)
qed (use assms in \<open>simp add: upsert_storage_backend_def\<close>)

text \<open>The references that \<open>delete_storage_backend\<close> asks about, and the one it does not.\<close>

lemma five_guards:
  assumes "fst (if a then (Inl p, s) else if b then (Inl q, s) else if c then (Inl r, s) else if d then (Inl v, s)
    else if e then (Inl w, s) else (Inr (), s')) = Inr u"
  shows "\<not> a \<and> \<not> b \<and> \<not> c \<and> \<not> d \<and> \<not> e \<and>
    snd (if a then (Inl p, s) else if b then (Inl q, s) else if c then (Inl r, s) else if d then (Inl v, s)
    else if e then (Inl w, s) else (Inr (), s')) = s'"
  using assms by (simp split: if_splits)

lemma five_guards_error:
  assumes "fst (if a then (Inl p, s) else if b then (Inl q, s) else if c then (Inl r, s) else if d then (Inl v, s)
    else if e then (Inl w, s) else (Inr (), s')) = Inl x"
  shows "snd (if a then (Inl p, s) else if b then (Inl q, s) else if c then (Inl r, s) else if d then (Inl v, s)
    else if e then (Inl w, s) else (Inr (), s')) = s"
  using assms by (simp split: if_splits)

lemma inv_delete_backend:
  assumes "media_inv db" shows "media_inv (snd (delete_storage_backend h db))"
proof (cases "fst (delete_storage_backend h db)")
  case (Inr u)
  let ?bs = "filter (\<lambda>b. sb_handle b \<noteq> h) (backends db)"
  note ok = five_guards [OF Inr [unfolded delete_storage_backend_def]]
  then have used: "h \<noteq> ''local''" "replica_handle db \<noteq> Some h"
    "\<not> list_ex (\<lambda>c. hot_handle c = Some h \<or> cold_handle c = Some h) (clips db)"
    "\<not> list_ex (\<lambda>a. al_cold_handle a = Some h) (alert_clips db)" by blast+
  from ok have db': "snd (delete_storage_backend h db) = db\<lparr>backends := ?bs\<rparr>"
    unfolding delete_storage_backend_def by blast
  have free: "hot_handle c \<noteq> Some h \<and> cold_handle c \<noteq> Some h" if "c \<in> set (clips db)" for c
    using used that unfolding list_ex_iff by blast
  have free2: "al_cold_handle a \<noteq> Some h" if "a \<in> set (alert_clips db)" for a
    using used that unfolding list_ex_iff by blast
  have keep: "has_backend x (db\<lparr>backends := ?bs\<rparr>) = (x \<noteq> h \<and> has_backend x db)" for x
    by (auto simp: has_backend_iff)
  then have ref: "ref_ok db x \<Longrightarrow> x \<noteq> Some h \<Longrightarrow> ref_ok (db\<lparr>backends := ?bs\<rparr>) x" for x by (cases x) auto
  show ?thesis
    unfolding db' using inv_parts(7,8) [OF assms] inv_parts(9) [OF assms, unfolded keys_ok_def] free free2 used
    by (intro inv_backends [OF assms] ref conjI) (simp_all add: clip_ok_def alert_clip_ok_def keep distinct_map_filter)
next
  case (Inl e)
  then have "snd (delete_storage_backend h db) = db"
    unfolding delete_storage_backend_def by (rule five_guards_error)
  then show ?thesis using assms by simp
qed

lemma cameras_drop_camera [simp]: "cameras (drop_camera i P d) = filter (\<lambda>c. c \<noteq> i) (cameras d)"
  by (simp add: drop_camera_def)

lemma kept_clip: "has_clip j db \<Longrightarrow> \<not> clip_of_camera cam db j \<Longrightarrow> has_clip j (delete_camera cam db)"
  by (auto simp: has_clip_def clip_of_camera_def delete_camera_def Let_def list_ex_iff)

lemma kept_alert_clip:
  "has_alert_clip j db \<Longrightarrow> \<not> alert_clip_of_camera cam db j \<Longrightarrow> has_alert_clip j (delete_camera cam db)"
  by (auto simp: has_alert_clip_def alert_clip_of_camera_def delete_camera_def Let_def list_ex_iff)

lemma links_ok_delete_camera:
  assumes "links_ok db" shows "links_ok (delete_camera cam db)"
proof -
  let ?db' = "delete_camera cam db"
  have here: "events (alerts ?db') e \<noteq> None \<longleftrightarrow> events (alerts db) e \<noteq> None
      \<and> \<not> event_of_camera cam (alerts db) e \<and> \<not> linked_to (clip_of_camera cam db) (event_clip db e)" for e
    by (simp add: delete_camera_def drop_camera_def drop_events_def Let_def)
  have "events (alerts ?db') e \<noteq> None \<and> has_clip j ?db'" if e: "event_clip ?db' e = Some j" for e j
  proof -
    from e have "event_clip db e = Some j" "\<not> event_of_camera cam (alerts db) e" "\<not> clip_of_camera cam db j"
      by (auto simp: delete_camera_def Let_def linked_to_def split: if_splits)
    moreover from this assms have "events (alerts db) e \<noteq> None" "has_clip j db" by (auto simp: links_ok_def)
    ultimately show ?thesis unfolding here using kept_clip by (simp add: linked_to_def)
  qed
  moreover have "events (alerts ?db') e \<noteq> None \<and> has_alert_clip j ?db'" if e: "event_alert_clip ?db' e = Some j" for e j
  proof -
    from e have "event_alert_clip db e = Some j" "\<not> event_of_camera cam (alerts db) e"
      "\<not> linked_to (clip_of_camera cam db) (event_clip db e)" "\<not> alert_clip_of_camera cam db j"
      by (auto simp: delete_camera_def Let_def linked_to_def split: if_splits)
    moreover from this assms have "events (alerts db) e \<noteq> None" "has_alert_clip j db" by (auto simp: links_ok_def)
    ultimately show ?thesis unfolding here using kept_alert_clip by simp
  qed
  moreover have "has_clip (me_clip m) ?db'" if m: "m \<in> set (motion_events ?db')" for m
  proof -
    from m have "m \<in> set (motion_events db)" "\<not> clip_of_camera cam db (me_clip m)"
      by (simp_all add: delete_camera_def Let_def)
    with assms show ?thesis by (auto simp: links_ok_def list_all_iff intro: kept_clip)
  qed
  ultimately show ?thesis by (simp add: links_ok_def list_all_iff)
qed

lemma keys_ok_delete_camera:
  assumes "keys_ok db" shows "keys_ok (delete_camera cam db)"
proof -
  have "ev_camera_id ev \<in> set (cameras (alerts db)) \<and> ev_camera_id ev \<noteq> cam"
    if "events (alerts (delete_camera cam db)) e = Some (ev, alerted)" for e ev alerted
    using that assms
    by (auto simp: keys_ok_def delete_camera_def drop_camera_def drop_events_def event_of_camera_def Let_def
        split: if_splits)
  with assms show ?thesis
    by (auto simp: keys_ok_def motion_ok_def delete_camera_def Let_def distinct_map_filter list_all_iff)
qed

lemma inv_delete_camera:
  assumes "media_inv db" shows "media_inv (delete_camera cam db)"
proof -
  have same: "has_backend h (delete_camera cam db) = has_backend h db" for h
    by (simp add: has_backend_def delete_camera_def Let_def)
  then have ref: "ref_ok (delete_camera cam db) x = ref_ok db x" for x by (cases x) simp_all
  have "table_inv (alerts (delete_camera cam db))"
    using inv_parts(6) [OF assms] by (simp add: delete_camera_def Let_def camera_changes_keep)
  moreover have "list_all (clip_ok (delete_camera cam db)) (clips (delete_camera cam db))"
    using inv_parts(2) [OF assms] by (auto simp: list_all_iff clip_ok_def ref) (auto simp: delete_camera_def Let_def)
  moreover have "list_all (alert_clip_ok (delete_camera cam db)) (alert_clips (delete_camera cam db))"
    using inv_parts(4) [OF assms] by (auto simp: list_all_iff alert_clip_ok_def ref) (auto simp: delete_camera_def Let_def)
  moreover have "distinct (map cl_id (clips (delete_camera cam db)))" "distinct (map al_id (alert_clips (delete_camera cam db)))"
    "replica_handle (delete_camera cam db) = replica_handle db"
    using inv_parts(1,3) [OF assms] by (simp_all add: delete_camera_def Let_def distinct_map_filter)
  ultimately show ?thesis
    using links_ok_delete_camera keys_ok_delete_camera inv_parts(5,7,8,9) [OF assms]
    by (simp add: media_inv_def same ref)
qed

text \<open>A change of the alert tables that loses no linked event and no camera.\<close>

lemma inv_new_alerts:
  assumes inv: "media_inv db" and d: "table_inv d" "set (cameras (alerts db)) \<subseteq> set (cameras d)" "distinct (cameras d)"
    "\<And>e. events (alerts db) e \<noteq> None \<Longrightarrow> events d e \<noteq> None"
    "\<And>e ev alerted. events d e = Some (ev, alerted) \<Longrightarrow> ev_camera_id ev \<in> set (cameras d)"
  shows "media_inv (db\<lparr>alerts := d\<rparr>)"
proof -
  have "links_ok (db\<lparr>alerts := d\<rparr>)"
    using inv_parts(5) [OF inv] d(4) unfolding links_ok_def by (simp del: not_None_eq)
  moreover have "keys_ok (db\<lparr>alerts := d\<rparr>)"
    using inv_parts(9) [OF inv] d(2,3,5) by (auto simp: keys_ok_def motion_ok_def list_all_iff)
  moreover have "list_all (clip_ok (db\<lparr>alerts := d\<rparr>)) (clips db)"
    "list_all (alert_clip_ok (db\<lparr>alerts := d\<rparr>)) (alert_clips db)"
    using inv_parts(2,4) [OF inv] d(2) by (auto simp: list_all_iff clip_ok_def alert_clip_ok_def)
  ultimately show ?thesis using inv d(1) by (simp add: media_inv_def)
qed

lemma keys_okD:
  "keys_ok db \<Longrightarrow> distinct (cameras (alerts db))"
  "keys_ok db \<Longrightarrow> events (alerts db) e = Some (ev, alerted) \<Longrightarrow> ev_camera_id ev \<in> set (cameras (alerts db))"
  by (auto simp: keys_ok_def)

lemma inv_upsert_camera: "media_inv db \<Longrightarrow> media_inv (upsert_camera_row i db)"
  unfolding upsert_camera_row_def
  by (rule inv_new_alerts)
    (auto simp: camera_changes_keep inv_parts(6) upsert_camera_def dest: keys_okD [OF inv_parts(9)])

lemma inv_record_alert: 
  assumes "media_inv db" shows "media_inv (snd (record_alert ev sinks alerted now db))"
proof (cases "record_event_and_enqueue_classified ev sinks alerted now (alerts db)")
  case (Inr d)
  note new = record_event_commits [OF Inr]
  have "media_inv (db\<lparr>alerts := d\<rparr>)"
    using record_event_ok(1) [OF inv_parts(6) [OF assms] Inr] new inv_parts(9) [OF assms]
    by (intro inv_new_alerts [OF assms]) (auto dest: keys_okD split: if_splits)
  then show ?thesis by (simp add: record_alert_def Inr)
qed (use assms in \<open>simp add: record_alert_def\<close>)

lemma inv_prune_alerts: "media_inv db \<Longrightarrow> media_inv (prune_alerts cutoff limit db)"
  unfolding prune_alerts_def
  by (rule inv_new_alerts)
    (auto simp: prune_keeps inv_parts(6) prune_outbox_terminal_older_than_def Let_def dest: keys_okD [OF inv_parts(9)]
      intro: prune_keeps(1) [unfolded prune_outbox_terminal_older_than_def Let_def snd_conv])

subsection \<open>Runs of statements\<close>

datatype media_op =
  Open_Clip new_clip
| Mark_Degraded int int
| Close_Clip int clip_close
| Insert_Motion_Event int int u64 motion_event_kind string string
| Link_Clip string int
| Cascade_Delete int
| Clear_Hot int
| Repopulate_Hot int string string
| Bump_Priority int int
| Bump_Latest int int
| Mark_Cold int cold_mark
| Cold_Failure int string "instant option" bool
| Quarantine int string
| Stamp_Announce int string string
| Announce_Sent int instant
| Announce_Ack string "string option"
| Insert_Alert_Clip int instant string
| Alert_Ready int int int "string option"
| Alert_Failed int
| Alert_Evicted int
| Alert_Cold int cold_mark
| Alert_Stamp_Announce int string string
| Alert_Announce_Sent int instant
| Alert_Cold_Failure int string
| Link_Alert_Clip string int
| Write_Replica "string option" int
| Upsert_Backend string string string
| Delete_Backend string
| Upsert_Camera int
| Create_Camera
| Delete_Camera int
| Record_Alert alert_event "string list" bool
| Prune_Alerts instant int

fun media_exec :: "instant \<times> media_op \<Rightarrow> media_db \<Rightarrow> media_db" where
  "media_exec (t, Open_Clip n) db = snd (open_clip n db)"
| "media_exec (t, Mark_Degraded i n) db = mark_clip_degraded i n db"
| "media_exec (t, Close_Clip i c) db = snd (close_clip i c db)"
| "media_exec (t, Insert_Motion_Event cam i tr k l a) db = snd (insert_motion_event cam i tr k t l a db)"
| "media_exec (t, Link_Clip e i) db = snd (link_event_to_clip e i db)"
| "media_exec (t, Cascade_Delete i) db = snd (cascade_delete_clip_metadata i db)"
| "media_exec (t, Clear_Hot i) db = snd (clear_hot_pointer i db)"
| "media_exec (t, Repopulate_Hot i h p) db = snd (repopulate_hot_pointer i h p db)"
| "media_exec (t, Bump_Priority i p) db = snd (bump_clip_priority i p db)"
| "media_exec (t, Bump_Latest cam p) db = snd (bump_latest_pending_clip_for_camera cam p db)"
| "media_exec (t, Mark_Cold i m) db = snd (mark_cold_replicated i m db)"
| "media_exec (t, Cold_Failure i e n q) db = snd (record_cold_upload_failure i t e n q db)"
| "media_exec (t, Quarantine i r) db = snd (quarantine_clip i t r db)"
| "media_exec (t, Stamp_Announce i u a) db = snd (stamp_clip_announce i u a db)"
| "media_exec (t, Announce_Sent i n) db = snd (record_clip_announce_sent i n db)"
| "media_exec (t, Announce_Ack a r) db = snd (record_clip_announce_ack a t r db)"
| "media_exec (t, Insert_Alert_Clip cam st p) db = snd (insert_alert_clip cam st p db)"
| "media_exec (t, Alert_Ready i d b s) db = snd (mark_alert_clip_ready t i d b s db)"
| "media_exec (t, Alert_Failed i) db = mark_alert_clip_failed i db"
| "media_exec (t, Alert_Evicted i) db = mark_alert_clip_evicted i db"
| "media_exec (t, Alert_Cold i m) db = snd (mark_alert_clip_cold_replicated i m db)"
| "media_exec (t, Alert_Stamp_Announce i u a) db = snd (stamp_alert_clip_announce i u a db)"
| "media_exec (t, Alert_Announce_Sent i n) db = snd (record_alert_clip_announce_sent i n db)"
| "media_exec (t, Alert_Cold_Failure i e) db = record_alert_clip_cold_failure i t e db"
| "media_exec (t, Link_Alert_Clip e i) db = snd (link_event_alert_clip e i db)"
| "media_exec (t, Write_Replica h n) db = snd (write_cold_replica h n db)"
| "media_exec (t, Upsert_Backend h k c) db = snd (upsert_storage_backend t h k c db)"
| "media_exec (t, Delete_Backend h) db = snd (delete_storage_backend h db)"
| "media_exec (t, Upsert_Camera i) db = upsert_camera_row i db"
| "media_exec (t, Create_Camera) db = create_camera db"
| "media_exec (t, Delete_Camera i) db = delete_camera i db"
| "media_exec (t, Record_Alert ev ss al) db = snd (record_alert ev ss al t db)"
| "media_exec (t, Prune_Alerts cutoff limit) db = prune_alerts cutoff limit db"

lemma inv_row_updates:
  assumes "media_inv db"
  shows "media_inv (mark_clip_degraded i n db)" "media_inv (snd (close_clip i c db))"
    "media_inv (snd (bump_clip_priority i p db))" "media_inv (snd (record_cold_upload_failure i t e nx q db))"
    "media_inv (snd (quarantine_clip i t r db))" "media_inv (snd (stamp_clip_announce i u a db))"
    "media_inv (snd (record_clip_announce_sent i t db))"
  using assms
  by (auto simp: mark_clip_degraded_def close_clip_def bump_clip_priority_def record_cold_upload_failure_def
      quarantine_clip_def stamp_clip_announce_def record_clip_announce_sent_def split_beta
      clip_ok_def check_clip_def intro!: update_clips_inv split: option.split)

lemma inv_alert_row_updates:
  assumes "media_inv db"
  shows "media_inv (snd (mark_alert_clip_ready t i d b s db))" "media_inv (mark_alert_clip_failed i db)"
    "media_inv (mark_alert_clip_evicted i db)" "media_inv (snd (stamp_alert_clip_announce i u a db))"
    "media_inv (snd (record_alert_clip_announce_sent i t db))" "media_inv (record_alert_clip_cold_failure i t e db)"
  using assms
  by (auto simp: mark_alert_clip_ready_def mark_alert_clip_failed_def mark_alert_clip_evicted_def
      stamp_alert_clip_announce_def record_alert_clip_announce_sent_def record_alert_clip_cold_failure_def
      alert_clip_ok_def intro!: update_alert_clips_inv)

lemma inv_bump_latest: "media_inv db \<Longrightarrow> media_inv (snd (bump_latest_pending_clip_for_camera cam p db))"
  using inv_row_updates(3)
  by (auto simp: bump_latest_pending_clip_for_camera_def split_beta split: list.split)

lemma inv_announce_ack: "media_inv db \<Longrightarrow> media_inv (snd (record_clip_announce_ack a t r db))"
  by (auto simp: record_clip_announce_ack_def split_beta clip_ok_def check_clip_def alert_clip_ok_def
      intro!: update_alert_clips_inv update_clips_inv)

interpretation media: preserved media_exec media_inv
proof
  fix s :: media_db and op :: "instant \<times> media_op"
  obtain t o1 where op: "op = (t, o1)" by (cases op)
  assume "media_inv s"
  then show "media_inv (media_exec op s)"
    unfolding op
    by (cases o1) (simp_all add: inv_open_clip inv_row_updates inv_insert_motion_event inv_link_event_to_clip
        inv_cascade inv_clear_hot inv_repopulate inv_bump_latest inv_mark_cold inv_announce_ack
        inv_insert_alert_clip inv_alert_row_updates inv_mark_alert_cold inv_link_event_alert_clip
        inv_write_cold_replica inv_upsert_backend inv_delete_backend inv_upsert_camera create_camera_def
        inv_delete_camera inv_record_alert inv_prune_alerts)
qed

subsection \<open>Properties\<close>

text \<open>
  C16. Type invariant of the clip database: every sequence of statements keeps
  the schema.  The keys of clips, alert clips, motion events, backends and cameras
  are unique, a clip always has a hot or a cold copy with its path (and a cold one
  its upload time), alert clips are in one of the four states, no clip, event,
  motion event, alert clip or policy refers to a camera, clip, alert clip or backend
  that does not exist, and every queued delivery has its event.  The statements are those on the clip, alert
  clip, motion event and backend tables, the recording and pruning of alerts, and
  the creation and the (cascading) deletion of a camera.
\<close>

theorem media_tables_typed: "media_inv db \<Longrightarrow> media_inv (fold media_exec ops db)"
  by (rule media.run_keeps)

text \<open>A store after its migrations, and two clips of camera 7: one recording, one replicated.\<close>

definition fresh_media :: media_db where
  "fresh_media = \<lparr>clips = [], next_clip = 1, motion_events = [], next_motion_event = 1, alert_clips = [],
     next_alert_clip = 1, alerts = empty_db\<lparr>cameras := [7]\<rparr>, event_clip = Map.empty, event_alert_clip = Map.empty,
     backends = [\<lparr>sb_handle = ''local'', sb_kind = ''local'', sb_config = ''{}'', sb_updated_at = 0\<rparr>],
     replica_handle = None, throttle_bps = 0, enrolled_core = None\<rparr>"

definition demo_new :: "string \<Rightarrow> new_clip" where
  "demo_new p = \<lparr>nc_camera = 7, nc_started = 0, nc_hot_path = p, nc_hot_handle = ''local'', nc_codec = ''h264'',
     nc_container = ''mp4'', nc_frame_width = 640, nc_frame_height = 480\<rparr>"

definition demo_ops :: "(instant \<times> media_op) list" where
  "demo_ops = [(0, Open_Clip (demo_new ''a'')), (0, Open_Clip (demo_new ''b'')),
     (60, Close_Clip 2 \<lparr>cc_ended = 60, cc_duration_ms = 60, cc_size = 9, cc_hot_path = None, cc_sha256 = None\<rparr>),
     (90, Mark_Cold 2 \<lparr>cm_handle = ''local'', cm_path = ''x'', cm_uploaded_at = 90\<rparr>)]"

lemma fresh_media_inv: "media_inv fresh_media"
  by (simp add: fresh_media_def media_inv_def links_ok_def keys_ok_def empty_db_inv has_backend_def)
    (simp add: empty_db_def)

lemma media_tables_typed_witness:
  "media_inv (fold media_exec demo_ops fresh_media)
   \<and> map (\<lambda>c. (cl_id c, hot_path c, cold_path c)) (clips (fold media_exec demo_ops fresh_media))
       = [(1, Some ''a'', None), (2, Some ''b'', Some ''x'')]"
  using media_tables_typed [OF fresh_media_inv, of demo_ops]
  by (simp add: demo_ops_def demo_new_def fresh_media_def open_clip_def close_clip_def mark_cold_replicated_def
      must_hit_def update_clips_def has_backend_def has_clip_def)

end
