(* ===== verification/Clip_Queries.thy ===== *)
theory Clip_Queries
  imports Clip_Store "HOL-Library.Multiset"
begin

text \<open>
  The read side of \<open>nexus-store/src/motion.rs\<close>: the motion-event listings of the
  timeline, the overlay and the rule preview, the bucketed histogram, the
  backend listing, and the runtime settings table that the same file keeps.
  The lemmas tie the listings to the table and the histogram to the listing.
\<close>

section \<open>Motion events\<close>

definition captured_between :: "instant \<Rightarrow> instant \<Rightarrow> motion_event \<Rightarrow> bool" where
  "captured_between from until m \<longleftrightarrow> from \<le> me_captured_at m \<and> me_captured_at m \<le> until"

definition list_motion_events_for_camera :: "int \<Rightarrow> instant \<Rightarrow> instant \<Rightarrow> int \<Rightarrow> media_db \<Rightarrow> motion_event list" where
  "list_motion_events_for_camera cam from until limit db =
     sql_limit limit (sort_key me_captured_at
       (filter (\<lambda>m. me_camera m = cam \<and> captured_between from until m) (motion_events db)))"

definition list_motion_events_for_clip :: "int \<Rightarrow> media_db \<Rightarrow> motion_event list" where
  "list_motion_events_for_clip i db = sort_key me_captured_at (filter (\<lambda>m. me_clip m = i) (motion_events db))"

text \<open>No list and the empty list both mean every camera; a long list is cut at 1000.\<close>

definition camera_filter :: "int list option \<Rightarrow> int \<Rightarrow> bool" where
  "camera_filter ids cam = (case ids of None \<Rightarrow> True | Some [] \<Rightarrow> True | Some xs \<Rightarrow> cam \<in> set (take 1000 xs))"

definition list_motion_events_across_cameras ::
  "int list option \<Rightarrow> instant \<Rightarrow> instant \<Rightarrow> int \<Rightarrow> media_db \<Rightarrow> motion_event list" where
  "list_motion_events_across_cameras ids from until limit db =
     sql_limit limit (sort_key (\<lambda>m. - me_captured_at m)
       (filter (\<lambda>m. captured_between from until m \<and> camera_filter ids (me_camera m)) (motion_events db)))"

subsection \<open>The histogram\<close>

record histogram_bucket =
  hb_bucket :: int
  hb_start :: instant
  hb_events :: nat
  hb_clips :: nat

text \<open>\<open>strftime('%s')\<close> and \<open>timestamp()\<close> are whole seconds; SQL division truncates.\<close>

definition bucket_of :: "instant \<Rightarrow> int \<Rightarrow> motion_event \<Rightarrow> int" where
  "bucket_of from width m =
     (let d = me_captured_at m div secs 1 - from div secs 1 in sgn d * (\<bar>d\<bar> div width))"

definition list_motion_histogram_for_camera ::
  "int \<Rightarrow> instant \<Rightarrow> instant \<Rightarrow> int \<Rightarrow> media_db \<Rightarrow> histogram_bucket list" where
  "list_motion_histogram_for_camera cam from until width db =
     (let ms = filter (\<lambda>m. me_camera m = cam \<and> captured_between from until m) (motion_events db) in
      map (\<lambda>b. let hits = filter (\<lambda>m. bucket_of from width m = b) ms in
             \<lparr>hb_bucket = b, hb_start = from + secs (b * width), hb_events = length hits,
              hb_clips = length (remdups (map me_clip hits))\<rparr>)
        (sort (remdups (map (bucket_of from width) ms))))"

section \<open>Backends and settings\<close>

definition list_storage_backends :: "media_db \<Rightarrow> storage_backend list" where
  "list_storage_backends db = sort_key (\<lambda>b. map (of_char :: char \<Rightarrow> nat) (sb_handle b)) (backends db)"

text \<open>
  \<open>engine_runtime_settings\<close>: a key with no row, with \<open>NULL\<close> or with a value.
\<close>

type_synonym settings = "string \<rightharpoonup> string option"

definition read_runtime_setting :: "string \<Rightarrow> settings \<Rightarrow> string option option" where
  "read_runtime_setting k st = st k"

definition write_runtime_setting :: "string \<Rightarrow> string option \<Rightarrow> settings \<Rightarrow> settings" where
  "write_runtime_setting k v st = st(k \<mapsto> v)"

definition delete_runtime_setting :: "string \<Rightarrow> settings \<Rightarrow> settings" where
  "delete_runtime_setting k st = st(k := None)"

section \<open>Lemmas\<close>

lemma camera_listing_window:
  "m \<in> set (list_motion_events_for_camera cam from until limit db) \<Longrightarrow>
     m \<in> set (motion_events db) \<and> me_camera m = cam \<and> captured_between from until m"
  by (auto simp: list_motion_events_for_camera_def dest!: set_sql_limit)

lemma camera_listing_complete:
  "limit < 0 \<Longrightarrow> set (list_motion_events_for_camera cam from until limit db) =
     {m \<in> set (motion_events db). me_camera m = cam \<and> captured_between from until m}"
  by (auto simp: list_motion_events_for_camera_def sql_limit_def)

lemma listings_sorted:
  "sorted (map me_captured_at (list_motion_events_for_camera cam from until limit db))"
  "sorted (map me_captured_at (list_motion_events_for_clip i db))"
  "sorted (map (\<lambda>m. - me_captured_at m) (list_motion_events_across_cameras ids from until limit db))"
  by (simp_all add: list_motion_events_for_camera_def list_motion_events_for_clip_def
      list_motion_events_across_cameras_def sql_limit_def flip: take_map)

text \<open>Buckets start at zero, and every event falls in the interval of its bucket.\<close>

lemma bucket_interval:
  assumes "captured_between from until m" and "width > 0"
  shows "0 \<le> bucket_of from width m"
    "from div secs 1 + bucket_of from width m * width \<le> me_captured_at m div secs 1"
    "me_captured_at m div secs 1 < from div secs 1 + (bucket_of from width m + 1) * width"
proof -
  let ?d = "me_captured_at m div secs 1 - from div secs 1"
  have "0 \<le> ?d" using assms(1) by (simp add: captured_between_def secs_def zdiv_mono1)
  then have b: "bucket_of from width m = ?d div width"
    by (cases "?d = 0") (simp_all add: bucket_of_def Let_def)
  then show "0 \<le> bucket_of from width m" using \<open>0 \<le> ?d\<close> assms(2) by (simp add: pos_imp_zdiv_nonneg_iff)
  have q: "(?d div width) * width \<le> ?d" "?d < (?d div width + 1) * width"
    using assms(2) pos_mod_bound [of width ?d] pos_mod_sign [of width ?d] div_mult_mod_eq [of ?d width]
    by (simp_all only: distrib_right mult_1, linarith+)
  then show "from div secs 1 + bucket_of from width m * width \<le> me_captured_at m div secs 1"
    "me_captured_at m div secs 1 < from div secs 1 + (bucket_of from width m + 1) * width"
    unfolding b by linarith+
qed

lemma count_by_class: "sum_list (map (\<lambda>b. length (filter (\<lambda>m. f m = b) ms)) (remdups (map f ms))) = length ms"
proof -
  have "(\<Sum>b\<in>f ` set ms. length (filter (\<lambda>m. f m = b) ms)) = length ms"
  proof -
    have "(\<Sum>b\<in>S. length (filter (\<lambda>m. f m = b) ms)) = length ms" if "finite S" "f ` set ms \<subseteq> S" for S
      using that
    proof (induction ms)
      case (Cons m ms)
      have "(\<Sum>b\<in>S. length (filter (\<lambda>x. f x = b) (m # ms)))
          = (\<Sum>b\<in>S. (if f m = b then 1 else 0) + length (filter (\<lambda>x. f x = b) ms))"
        by (rule sum.cong) simp_all
      also have "\<dots> = 1 + length ms"
        using Cons by (simp add: sum.distrib)
      finally show ?case by simp
    qed simp
    then show ?thesis by blast
  qed
  then show ?thesis by (simp add: sum_list_distinct_conv_sum_set)
qed

lemma sum_list_sort: "sum_list (map f (sort xs)) = sum_list (map f (xs :: int list))" for f :: "int \<Rightarrow> nat"
  by (metis mset_map mset_sort sum_mset_sum_list)

lemma histogram_counts_events:
  "sum_list (map hb_events (list_motion_histogram_for_camera cam from until width db)) =
     length (list_motion_events_for_camera cam from until (- 1) db)"
  by (simp add: list_motion_histogram_for_camera_def list_motion_events_for_camera_def sql_limit_def Let_def
      comp_def sum_list_sort count_by_class del: filter_filter)

lemma histogram_buckets:
  "sorted (map hb_bucket (list_motion_histogram_for_camera cam from until width db))"
  "distinct (map hb_bucket (list_motion_histogram_for_camera cam from until width db))"
  by (simp_all add: list_motion_histogram_for_camera_def Let_def comp_def)

text \<open>A cleared setting is not an absent one.\<close>

lemma runtime_settings:
  "read_runtime_setting k (write_runtime_setting k' v st) = (if k = k' then Some v else read_runtime_setting k st)"
  "read_runtime_setting k (delete_runtime_setting k' st) = (if k = k' then None else read_runtime_setting k st)"
  by (simp_all add: read_runtime_setting_def write_runtime_setting_def delete_runtime_setting_def)

end
