(* ===== verification/Storage_Safety.thy ===== *)
theory Storage_Safety
  imports Complex_Main Clip_Store Disk
begin

text \<open>
  The storage safety floor of \<open>nexus-engine/src/storage_safety.rs\<close> with the
  alert-clip evictor of \<open>alert_clip_evict.rs\<close>: the watermark controller, the
  reclaim ladder over the clip tables (\<open>Clip_Store\<close>) and the disk (\<open>Disk\<close>), and
  the sampling loop that drives them.  Free space is a rational, which the
  code's \<open>f32\<close> values are: they are only compared with whole percentages.  A
  tick brings what it reads from outside: the clock, the results of the
  free-space probe, the files that cannot be unlinked and the writes the store
  refuses.  A store read is taken to succeed.
\<close>

section \<open>The watermark controller\<close>

definition HYSTERESIS_PCT :: "8 word" where "HYSTERESIS_PCT = 5"

definition MAX_CLIP_DURATION_MS :: int where "MAX_CLIP_DURATION_MS = 5 * 60 * 1000"

definition ABANDONED_CLIP_GRACE_MS :: int where "ABANDONED_CLIP_GRACE_MS = 2 * MAX_CLIP_DURATION_MS"

definition PRESSURE_RECLAIM_BATCH :: int where "PRESSURE_RECLAIM_BATCH = 64"

definition MAX_RECLAIM_STEPS_PER_TICK :: nat where "MAX_RECLAIM_STEPS_PER_TICK = 64"

definition RECLAIM_REPROBE_EVERY :: nat where "RECLAIM_REPROBE_EVERY = 8"

datatype watermark_level = Level_Ok | Level_Low | Level_Panic

fun level_as_u8 :: "watermark_level \<Rightarrow> 8 word" where
  "level_as_u8 Level_Ok = 0"
| "level_as_u8 Level_Low = 1"
| "level_as_u8 Level_Panic = 2"

definition level_from_u8 :: "8 word \<Rightarrow> watermark_level" where
  "level_from_u8 v = (if v = 0 then Level_Ok else if v = 1 then Level_Low else Level_Panic)"

datatype transition = Stable | Entered watermark_level | Exited watermark_level

record controller =
  low_pct :: "8 word"
  panic_pct :: "8 word"
  ctl_level :: watermark_level

definition controller_new :: "8 word \<Rightarrow> 8 word \<Rightarrow> controller" where
  "controller_new low panic = \<lparr>low_pct = low, panic_pct = panic, ctl_level = Level_Ok\<rparr>"

definition pct :: "8 word \<Rightarrow> rat" where
  "pct p = rat_of_nat (unat p)"

text \<open>The sum is a \<open>u8\<close> and wraps, as in a release build.\<close>

definition recovery_floor :: "controller \<Rightarrow> rat" where
  "recovery_floor c = pct (low_pct c + HYSTERESIS_PCT)"

definition next_level :: "controller \<Rightarrow> rat \<Rightarrow> watermark_level" where
  "next_level c free =
     (case ctl_level c of
        Level_Ok \<Rightarrow>
          if free \<le> pct (panic_pct c) then Level_Panic
          else if free \<le> pct (low_pct c) then Level_Low else Level_Ok
      | Level_Low \<Rightarrow>
          if free \<le> pct (panic_pct c) then Level_Panic
          else if recovery_floor c \<le> free then Level_Ok else Level_Low
      | Level_Panic \<Rightarrow>
          if recovery_floor c \<le> free then Level_Ok
          else if pct (panic_pct c) < free then Level_Low else Level_Panic)"

fun severity :: "watermark_level \<Rightarrow> nat" where
  "severity Level_Ok = 0"
| "severity Level_Low = 1"
| "severity Level_Panic = 2"

definition observe :: "rat \<Rightarrow> controller \<Rightarrow> transition \<times> controller" where
  "observe free c =
     (let new = next_level c free in
      if new = ctl_level c then (Stable, c)
      else ((if severity new > severity (ctl_level c) then Entered new else Exited new), c\<lparr>ctl_level := new\<rparr>))"

text \<open>The shared signal: its level, and how often the waiters were woken.\<close>

record watermark_signal =
  sig_level :: watermark_level
  wakeups :: nat

definition signal_set :: "watermark_level \<Rightarrow> watermark_signal \<Rightarrow> watermark_signal" where
  "signal_set l s =
     \<lparr>sig_level = l,
      wakeups = (if l \<noteq> Level_Ok \<and> level_from_u8 (level_as_u8 (sig_level s)) \<noteq> l then wakeups s + 1 else wakeups s)\<rparr>"

definition signal_is_ok :: "watermark_signal \<Rightarrow> bool" where
  "signal_is_ok s \<longleftrightarrow> sig_level s = Level_Ok"

section \<open>The reclaim ladder\<close>

datatype bus_event =
  Storage_Event watermark_level rat
| Clip_Hot_Evicted int int "string option" "string option" int
| Clip_Hard_Evicted int int int bool

record media_world =
  mdb :: media_db
  disk :: node
  bus :: "bus_event list"

record safety_config =
  clips_dir :: path
  snapshots_dir :: "path option"

datatype reclaim_error = Store_Error clip_error | Store_Fault | Io_Fault

text \<open>The writes of the ladder, each of which the store may refuse.\<close>

datatype ladder_write = Mark_Evicted int | Delete_Row int | Clear_Pointer int

definition publish :: "bus_event \<Rightarrow> media_world \<Rightarrow> media_world" where
  "publish e w = w\<lparr>bus := bus w @ [e]\<rparr>"

definition unlink :: "(path \<Rightarrow> bool) \<Rightarrow> path \<Rightarrow> media_world \<Rightarrow> io_result \<times> media_world" where
  "unlink locked p w = (case remove_file locked p (disk w) of (r, t) \<Rightarrow> (r, w\<lparr>disk := t\<rparr>))"

subsection \<open>Delivered alert clips\<close>

definition EVICT_BATCH :: int where "EVICT_BATCH = 64"

definition COLD_GRACE :: int where "COLD_GRACE = secs (15 * 60)"

definition reclaim_alert_clip ::
  "(path \<Rightarrow> bool) \<Rightarrow> (ladder_write \<Rightarrow> bool) \<Rightarrow> path \<Rightarrow> alert_clip_row \<Rightarrow> nat \<times> media_world \<Rightarrow> nat \<times> media_world" where
  "reclaim_alert_clip locked refused dir a s =
     (case s of (n, w) \<Rightarrow>
        (case unlink locked (join_path dir (al_path a)) w of
           (Io_Error, w1) \<Rightarrow> (n, w1)
         | (r, w1) \<Rightarrow>
             if refused (Mark_Evicted (al_id a)) then (n, w1)
             else (n + 1, w1\<lparr>mdb := mark_alert_clip_evicted (al_id a) (mdb w1)\<rparr>)))"

definition reclaim_evictable_alert_clips ::
  "(path \<Rightarrow> bool) \<Rightarrow> (ladder_write \<Rightarrow> bool) \<Rightarrow> path \<Rightarrow> instant \<Rightarrow> int \<Rightarrow> media_world \<Rightarrow> nat \<times> media_world" where
  "reclaim_evictable_alert_clips locked refused dir cutoff batch w =
     fold (reclaim_alert_clip locked refused dir) (alert_clips_evictable batch cutoff (mdb w)) (0, w)"

definition evictor_sweep ::
  "(path \<Rightarrow> bool) \<Rightarrow> (ladder_write \<Rightarrow> bool) \<Rightarrow> path \<Rightarrow> instant \<Rightarrow> media_world \<Rightarrow> nat \<times> media_world" where
  "evictor_sweep locked refused dir now = reclaim_evictable_alert_clips locked refused dir (now - COLD_GRACE) EVICT_BATCH"

subsection \<open>Orphaned snapshots\<close>

fun entry_names :: "entries \<Rightarrow> string list" where
  "entry_names Empty = []"
| "entry_names (Entry n c es) = n # entry_names es"

text \<open>The stem of a name whose extension is \<open>jpg\<close>.\<close>

definition jpg_stem :: "string \<Rightarrow> string option" where
  "jpg_stem n =
     (if length n > 4 \<and> drop (length n - 4) n = ''.jpg'' then Some (take (length n - 4) n) else None)"

definition existing_event_ids :: "string list \<Rightarrow> media_db \<Rightarrow> string set" where
  "existing_event_ids ids db = {e \<in> set ids. events (alerts db) e \<noteq> None}"

definition snapshot_candidates :: "entries \<Rightarrow> (string \<times> string) list" where
  "snapshot_candidates es =
     take (nat PRESSURE_RECLAIM_BATCH)
       (List.map_filter (\<lambda>n. map_option (\<lambda>stem. (stem, n)) (jpg_stem n)) (entry_names es))"

definition reclaim_snapshot ::
  "(path \<Rightarrow> bool) \<Rightarrow> path \<Rightarrow> string set \<Rightarrow> string \<times> string \<Rightarrow> nat \<times> media_world \<Rightarrow> nat \<times> media_world" where
  "reclaim_snapshot locked dir live cand s =
     (case (cand, s) of ((stem, name), (n, w)) \<Rightarrow>
        if stem \<in> live then (n, w)
        else (case unlink locked (dir @ [name]) w of
                (Io_Ok, w1) \<Rightarrow> (n + 1, w1)
              | (r, w1) \<Rightarrow> (n, w1)))"

text \<open>Reading a directory that is not one is an error; a missing one has no snapshots.\<close>

definition sweep_orphan_snapshots :: "(path \<Rightarrow> bool) \<Rightarrow> path \<Rightarrow> media_world \<Rightarrow> (reclaim_error + nat) \<times> media_world" where
  "sweep_orphan_snapshots locked dir w =
     (case node_at dir (disk w) of
        None \<Rightarrow> (Inr 0, w)
      | Some (Directory es) \<Rightarrow>
          let cands = snapshot_candidates es;
              live = existing_event_ids (map fst cands) (mdb w);
              (n, w') = fold (reclaim_snapshot locked dir live) cands (0, w)
          in (Inr n, w')
      | Some _ \<Rightarrow> (Inl Io_Fault, w))"

subsection \<open>Quarantined clips and motion footage\<close>

definition evict_row ::
  "(path \<Rightarrow> bool) \<Rightarrow> (ladder_write \<Rightarrow> bool) \<Rightarrow> path \<Rightarrow> bool \<Rightarrow> clip_row \<Rightarrow> media_world
     \<Rightarrow> (reclaim_error + bool) \<times> media_world" where
  "evict_row locked refused dir quarantined clip w =
     (if refused (Delete_Row (cl_id clip)) then (Inl Store_Fault, w)
      else case cascade_delete_clip_metadata (cl_id clip) (mdb w) of
        (Inl e, d) \<Rightarrow> (Inl (Store_Error e), w)
      | (Inr _, d) \<Rightarrow>
          let w1 = w\<lparr>mdb := d\<rparr>;
              w2 = (case hot_path clip of None \<Rightarrow> w1 | Some p \<Rightarrow> snd (unlink locked (join_path dir p) w1))
          in (Inr True, publish (Clip_Hard_Evicted (cl_id clip) (cl_camera clip) (cl_size clip) quarantined) w2))"

text \<open>File first, row second: when the update is refused, the row keeps a path without its file.\<close>

definition soft_evict ::
  "(path \<Rightarrow> bool) \<Rightarrow> (ladder_write \<Rightarrow> bool) \<Rightarrow> path \<Rightarrow> clip_row \<Rightarrow> string \<Rightarrow> media_world
     \<Rightarrow> (reclaim_error + bool) \<times> media_world" where
  "soft_evict locked refused dir clip p w =
     (case unlink locked (join_path dir p) w of
        (Io_Error, w1) \<Rightarrow> (Inr False, w1)
      | (r, w1) \<Rightarrow>
          if refused (Clear_Pointer (cl_id clip)) then (Inl Store_Fault, w1)
          else (case clear_hot_pointer (cl_id clip) (mdb w1) of
             (0, d) \<Rightarrow> (Inr True, w1\<lparr>mdb := d\<rparr>)
           | (Suc k, d) \<Rightarrow>
               (Inr True, publish (Clip_Hot_Evicted (cl_id clip) (cl_camera clip) (cold_handle clip) (cold_path clip)
                                 (cl_size clip)) (w1\<lparr>mdb := d\<rparr>))))"

text \<open>One camera of the round: \<open>None\<close> when it has nothing to evict.\<close>

definition evict_camera ::
  "(path \<Rightarrow> bool) \<Rightarrow> (ladder_write \<Rightarrow> bool) \<Rightarrow> path \<Rightarrow> instant \<Rightarrow> int \<Rightarrow> nat \<Rightarrow> nat \<Rightarrow> media_world
     \<Rightarrow> ((reclaim_error + bool) \<times> nat \<times> media_world) option" where
  "evict_camera locked refused dir now cam idx cursor w =
     (case find_soft_evict_candidate cam (mdb w) of
        Some clip \<Rightarrow>
          (case hot_path clip of
             None \<Rightarrow> Some (Inr False, cursor, w)
           | Some p \<Rightarrow>
               (case soft_evict locked refused dir clip p w of
                  (Inl e, w') \<Rightarrow> Some (Inl e, cursor, w')
                | (Inr b, w') \<Rightarrow> Some (Inr b, idx + 1, w')))
      | None \<Rightarrow>
          (case find_hard_evict_candidate cam (now - millis ABANDONED_CLIP_GRACE_MS) (mdb w) of
             Some clip \<Rightarrow>
               (case evict_row locked refused dir False clip w of
                  (Inl e, w') \<Rightarrow> Some (Inl e, cursor, w')
                | (Inr b, w') \<Rightarrow> Some (Inr b, idx + 1, w'))
           | None \<Rightarrow> None))"

fun evict_round ::
  "(path \<Rightarrow> bool) \<Rightarrow> (ladder_write \<Rightarrow> bool) \<Rightarrow> path \<Rightarrow> instant \<Rightarrow> int list \<Rightarrow> nat \<Rightarrow> nat list \<Rightarrow> media_world
     \<Rightarrow> (reclaim_error + bool) \<times> nat \<times> media_world" where
  "evict_round locked refused dir now cams cursor [] w = (Inr False, cursor + 1, w)"
| "evict_round locked refused dir now cams cursor (off # offs) w =
     (let idx = (cursor + off) mod length cams in
      case evict_camera locked refused dir now (cams ! idx) idx cursor w of
        Some out \<Rightarrow> out
      | None \<Rightarrow> evict_round locked refused dir now cams cursor offs w)"

definition evict_one ::
  "(path \<Rightarrow> bool) \<Rightarrow> (ladder_write \<Rightarrow> bool) \<Rightarrow> path \<Rightarrow> instant \<Rightarrow> nat \<Rightarrow> media_world
     \<Rightarrow> (reclaim_error + bool) \<times> nat \<times> media_world" where
  "evict_one locked refused dir now cursor w =
     (let cams = cameras_with_clips (mdb w) in
      if cams = [] then (Inr False, cursor, w)
      else evict_round locked refused dir now cams cursor [0..<length cams] w)"

definition pressure_reclaim ::
  "safety_config \<Rightarrow> (path \<Rightarrow> bool) \<Rightarrow> (ladder_write \<Rightarrow> bool) \<Rightarrow> instant \<Rightarrow> nat \<Rightarrow> media_world
     \<Rightarrow> (reclaim_error + bool) \<times> nat \<times> media_world" where
  "pressure_reclaim cfg locked refused now cursor w =
     (case reclaim_evictable_alert_clips locked refused (clips_dir cfg) now PRESSURE_RECLAIM_BATCH w of
        (n1, w1) \<Rightarrow>
          if n1 > 0 then (Inr True, cursor, w1)
          else (case (case snapshots_dir cfg of
                        None \<Rightarrow> (Inr 0, w1) | Some dir \<Rightarrow> sweep_orphan_snapshots locked dir w1) of
                  (Inl e, w2) \<Rightarrow> (Inl e, cursor, w2)
                | (Inr n2, w2) \<Rightarrow>
                    if n2 > 0 then (Inr True, cursor, w2)
                    else (case find_largest_quarantined_hot_clip (mdb w2) of
                            Some clip \<Rightarrow>
                              (case evict_row locked refused (clips_dir cfg) True clip w2 of (r, w3) \<Rightarrow> (r, cursor, w3))
                          | None \<Rightarrow> evict_one locked refused (clips_dir cfg) now cursor w2)))"

section \<open>The sampling loop\<close>

record safety_state =
  ctl :: controller
  signal :: watermark_signal
  recorder_panic :: bool
  rr_cursor :: nat
  world :: media_world
  oneshots :: nat

definition note_level :: "safety_state \<Rightarrow> safety_state" where
  "note_level s = s\<lparr>signal := signal_set (ctl_level (ctl s)) (signal s)\<rparr>"

definition publish_storage_event :: "rat \<Rightarrow> safety_state \<Rightarrow> safety_state" where
  "publish_storage_event free s = s\<lparr>world := publish (Storage_Event (ctl_level (ctl s)) free) (world s)\<rparr>"

text \<open>The transition of the sample at the head of a tick.\<close>

definition on_sample :: "rat \<Rightarrow> safety_state \<Rightarrow> safety_state" where
  "on_sample free s =
     (case observe free (ctl s) of (tr, c) \<Rightarrow>
        let s1 = note_level (s\<lparr>ctl := c\<rparr>);
            s2 = (case tr of
                    Entered Level_Panic \<Rightarrow> publish_storage_event free (s1\<lparr>recorder_panic := True\<rparr>)
                  | Exited Level_Ok \<Rightarrow> publish_storage_event free (s1\<lparr>recorder_panic := False\<rparr>)
                  | Entered Level_Low \<Rightarrow> publish_storage_event free s1
                  | Exited Level_Low \<Rightarrow> publish_storage_event free s1
                  | _ \<Rightarrow> s1)
        in if tr \<in> {Entered Level_Low, Entered Level_Panic} then s2\<lparr>oneshots := oneshots s2 + 1\<rparr> else s2)"

text \<open>The re-probe inside a reclaim batch.\<close>

definition on_reprobe :: "rat \<Rightarrow> safety_state \<Rightarrow> safety_state" where
  "on_reprobe free s =
     (case observe free (ctl s) of (tr, c) \<Rightarrow>
        let s1 = note_level (s\<lparr>ctl := c\<rparr>) in
        if tr = Exited Level_Ok then publish_storage_event free (s1\<lparr>recorder_panic := False\<rparr>) else s1)"

text \<open>
  What a tick reads: which files cannot be unlinked, and per step the clock, the probe and
  the writes the store refuses.
\<close>

record tick_env =
  locked_files :: "path \<Rightarrow> bool"
  step_now :: "nat \<Rightarrow> instant"
  probe :: "rat option"
  step_probe :: "nat \<Rightarrow> rat option"
  refused_writes :: "nat \<Rightarrow> ladder_write \<Rightarrow> bool"

fun reclaim_batch :: "safety_config \<Rightarrow> tick_env \<Rightarrow> nat list \<Rightarrow> safety_state \<Rightarrow> safety_state" where
  "reclaim_batch cfg env [] s = s"
| "reclaim_batch cfg env (step # steps) s =
     (case pressure_reclaim cfg (locked_files env) (refused_writes env step) (step_now env step) (rr_cursor s) (world s) of
        (r, cur, w) \<Rightarrow>
          let s1 = s\<lparr>rr_cursor := cur, world := w\<rparr> in
          if r \<noteq> Inr True then s1
          else if step mod RECLAIM_REPROBE_EVERY = RECLAIM_REPROBE_EVERY - 1 then
            (case step_probe env step of
               None \<Rightarrow> reclaim_batch cfg env steps s1
             | Some p \<Rightarrow>
                 let s2 = on_reprobe p s1 in
                 if ctl_level (ctl s2) = Level_Ok then s2 else reclaim_batch cfg env steps s2)
          else reclaim_batch cfg env steps s1)"

definition safety_tick :: "safety_config \<Rightarrow> tick_env \<Rightarrow> safety_state \<Rightarrow> safety_state" where
  "safety_tick cfg env s =
     (case probe env of
        None \<Rightarrow> s
      | Some free \<Rightarrow>
          let s1 = on_sample free s in
          if ctl_level (ctl s1) = Level_Ok then s1
          else reclaim_batch cfg env [0..<MAX_RECLAIM_STEPS_PER_TICK] s1)"

end
