(* ===== verification/Reclaim_Safety.thy ===== *)
theory Reclaim_Safety
  imports Storage_Safety
begin

text \<open>
  What the reclaim ladder of \<open>Storage_Safety\<close> keeps: the schema, footage that is
  being recorded, cold copies, a copy of every clip that stays, and the clips of
  alerts still being delivered; that every step that reports progress shrinks
  the store, so the ladder ends; and what the sampling loop does with the
  recorder.
\<close>

section \<open>Frames\<close>

definition root_dir :: "node \<Rightarrow> bool" where
  "root_dir t = (case t of Regular m \<Rightarrow> False | _ \<Rightarrow> True)"

definition world_inv :: "media_world \<Rightarrow> bool" where
  "world_inv w \<longleftrightarrow> media_inv (mdb w) \<and> root_dir (disk w)"

text \<open>Everything but the alert clips' own rows is untouched.\<close>

definition same_footage :: "media_db \<Rightarrow> media_db \<Rightarrow> bool" where
  "same_footage d d' \<longleftrightarrow> clips d' = clips d \<and> motion_events d' = motion_events d \<and> alerts d' = alerts d
     \<and> event_clip d' = event_clip d \<and> event_alert_clip d' = event_alert_clip d \<and> backends d' = backends d
     \<and> replica_handle d' = replica_handle d"

definition removes_only :: "path set \<Rightarrow> media_world \<Rightarrow> media_world \<Rightarrow> bool" where
  "removes_only S w w' \<longleftrightarrow> paths (disk w') \<subseteq> paths (disk w) \<and> paths (disk w) - paths (disk w') \<subseteq> S"

lemma root_dir_iff: "root_dir t \<longleftrightarrow> (\<nexists>m. t = Regular m)"
  by (cases t) (auto simp: root_dir_def)

lemma same_footage_refl [simp]: "same_footage d d"
  by (simp add: same_footage_def)

lemma same_footage_trans: "same_footage a b \<Longrightarrow> same_footage b c \<Longrightarrow> same_footage a c"
  by (simp add: same_footage_def)

lemma removes_only_refl [simp]: "removes_only S w w"
  by (simp add: removes_only_def)

lemma diff_trans:
  "B \<subseteq> A \<and> A - B \<subseteq> S \<Longrightarrow> C \<subseteq> B \<and> B - C \<subseteq> T \<Longrightarrow> C \<subseteq> A \<and> A - C \<subseteq> S \<union> T"
  by blast

lemma removes_only_trans: "removes_only S u v \<Longrightarrow> removes_only T v w \<Longrightarrow> removes_only (S \<union> T) u w"
  unfolding removes_only_def by (rule diff_trans)

lemma removes_only_mono: "removes_only S u v \<Longrightarrow> S \<subseteq> T \<Longrightarrow> removes_only T u v"
  unfolding removes_only_def by (meson order_trans)

lemma removes_only_disk: "disk w' = disk w \<Longrightarrow> removes_only S w w'"
  by (simp add: removes_only_def)

lemma unlink_frame:
  assumes "unlink locked p w = (r, w')" and "root_dir (disk w)"
  shows "mdb w' = mdb w" "bus w' = bus w" "root_dir (disk w')" "removes_only {p} w w'"
    "r = Io_Error \<Longrightarrow> w' = w" "r \<noteq> Io_Error \<Longrightarrow> p \<notin> paths (disk w')"
    "length (files (disk w')) \<le> length (files (disk w))"
    "r = Io_Ok \<Longrightarrow> length (files (disk w')) < length (files (disk w))"
proof -
  obtain t where t: "remove_file locked p (disk w) = (r, t)" and w': "w' = w\<lparr>disk := t\<rparr>"
    using assms(1) by (auto simp: unlink_def split: prod.splits)
  note rf = remove_file_paths [OF t assms(2) [unfolded root_dir_iff]]
  show "mdb w' = mdb w" "bus w' = bus w" by (simp_all add: w')
  show "root_dir (disk w')" using rf(5) by (simp add: w' root_dir_iff)
  show "removes_only {p} w w'" using rf(1) by (auto simp: w' removes_only_def split: if_splits)
  show "r = Io_Error \<Longrightarrow> w' = w" using t by (auto simp: w' remove_file_def split: if_splits)
  show "p \<notin> paths (disk w')" if "r \<noteq> Io_Error"
    using rf(1,3) that by (cases r) (auto simp: w')
  have len: "length (files t) < length (files (disk w))" if "r = Io_Ok"
  proof -
    have "p \<in> paths (disk w)" "t = remove_at p (disk w)"
      using t that by (auto simp: remove_file_def exists_file_paths split: if_splits)
    moreover have "p \<noteq> []"
      using calculation(1) assms(2) files_Nil unfolding root_dir_iff by fastforce
    ultimately show ?thesis
      by (auto simp: files_remove intro!: length_filter_less)
  qed
  then show "r = Io_Ok \<Longrightarrow> length (files (disk w')) < length (files (disk w))" by (simp add: w')
  show "length (files (disk w')) \<le> length (files (disk w))"
    using len t by (cases r) (auto simp: w' remove_file_def split: if_splits)
qed

section \<open>Alert clips\<close>

definition ready_count :: "media_db \<Rightarrow> nat" where
  "ready_count d = length (filter is_ready (alert_clips d))"

lemma mark_evicted_frame: "same_footage d (mark_alert_clip_evicted i d)"
  by (simp add: same_footage_def mark_alert_clip_evicted_def update_alert_clips_def)

lemma mark_evicted_rows:
  "alert_clips (mark_alert_clip_evicted i d) =
     map (\<lambda>a. if al_id a = i \<and> is_ready a then a\<lparr>al_state := ''evicted''\<rparr> else a) (alert_clips d)"
  by (simp add: mark_alert_clip_evicted_def update_alert_clips_def is_ready_def)

lemma ready_after_mark:
  "filter is_ready (alert_clips (mark_alert_clip_evicted i d)) =
   filter (\<lambda>a. al_id a \<noteq> i) (filter is_ready (alert_clips d))"
proof -
  have "filter is_ready (map (\<lambda>a. if al_id a = i \<and> is_ready a then a\<lparr>al_state := ''evicted''\<rparr> else a) as)
      = filter (\<lambda>a. al_id a \<noteq> i) (filter is_ready as)" for as
    by (induction as) (auto simp: is_ready_def)
  then show ?thesis unfolding mark_evicted_rows .
qed

lemma reclaim_one:
  assumes "reclaim_alert_clip locked refused dir a (n, w) = (n1, w1)" and "root_dir (disk w)"
  shows "root_dir (disk w1) \<and> removes_only {join_path dir (al_path a)} w w1 \<and> bus w1 = bus w
      \<and> length (files (disk w1)) \<le> length (files (disk w))"
    "n1 = n \<and> mdb w1 = mdb w \<or> n1 = n + 1 \<and> mdb w1 = mark_alert_clip_evicted (al_id a) (mdb w)"
proof -
  obtain r u where u: "unlink locked (join_path dir (al_path a)) w = (r, u)" by fastforce
  note fr = unlink_frame [OF u assms(2)]
  have out: "(n1, w1) = (if r = Io_Error \<or> refused (Mark_Evicted (al_id a)) then (n, u) else (n + 1, u\<lparr>mdb := mark_alert_clip_evicted (al_id a) (mdb u)\<rparr>))"
    using assms(1) u by (cases r) (simp_all add: reclaim_alert_clip_def)
  show "root_dir (disk w1) \<and> removes_only {join_path dir (al_path a)} w w1 \<and> bus w1 = bus w
      \<and> length (files (disk w1)) \<le> length (files (disk w))"
    using out fr(2,3,4,7) by (auto simp: removes_only_def split: if_splits)
  show "n1 = n \<and> mdb w1 = mdb w \<or> n1 = n + 1 \<and> mdb w1 = mark_alert_clip_evicted (al_id a) (mdb w)"
    using out fr(1) by (auto split: if_splits)
qed

lemma reclaim_fold:
  assumes "fold (reclaim_alert_clip locked refused dir) rows (n, w) = (n', w')" and "world_inv w"
  shows "world_inv w' \<and> same_footage (mdb w) (mdb w') \<and> bus w' = bus w \<and> n \<le> n'
      \<and> length (files (disk w')) \<le> length (files (disk w))"
    "removes_only ((\<lambda>a. join_path dir (al_path a)) ` set rows) w w'"
    "a \<in> set (alert_clips (mdb w)) \<Longrightarrow> al_id a \<notin> al_id ` set rows \<Longrightarrow> a \<in> set (alert_clips (mdb w'))"
proof (atomize (full), use assms in \<open>induction rows arbitrary: n w a\<close>)
  case (Cons r rows)
  obtain n1 w1 where one: "reclaim_alert_clip locked refused dir r (n, w) = (n1, w1)" by fastforce
  have rest: "fold (reclaim_alert_clip locked refused dir) rows (n1, w1) = (n', w')" using Cons.prems(1) one by simp
  have root: "root_dir (disk w)" and inv0: "media_inv (mdb w)"
    using Cons.prems(2) by (simp_all add: world_inv_def)
  note st = reclaim_one [OF one root]
  have db: "mdb w1 = mdb w \<and> n1 = n \<or> mdb w1 = mark_alert_clip_evicted (al_id r) (mdb w) \<and> n1 = n + 1"
    using st by blast
  then have inv: "world_inv w1" using st(1) inv_alert_row_updates(3) [OF inv0] inv0 unfolding world_inv_def by metis
  have same: "same_footage (mdb w) (mdb w1)" using db mark_evicted_frame by auto
  have keep: "a \<in> set (alert_clips (mdb w1))" if "a \<in> set (alert_clips (mdb w))" "al_id a \<noteq> al_id r"
    using db that by (auto simp: mark_evicted_rows)
  note IH = Cons.IH [OF rest inv, of a]
  then have w': "world_inv w'" "same_footage (mdb w1) (mdb w')" "bus w' = bus w1" "n1 \<le> n'"
    "length (files (disk w')) \<le> length (files (disk w1))"
    "removes_only ((\<lambda>a. join_path dir (al_path a)) ` set rows) w1 w'"
    "a \<in> set (alert_clips (mdb w1)) \<Longrightarrow> al_id a \<notin> al_id ` set rows \<Longrightarrow> a \<in> set (alert_clips (mdb w'))"
    by blast+
  have w1: "bus w1 = bus w" "length (files (disk w1)) \<le> length (files (disk w))"
    "removes_only {join_path dir (al_path r)} w w1"
    using st by blast+
  have "removes_only ((\<lambda>a. join_path dir (al_path a)) ` set (r # rows)) w w'"
    using removes_only_trans [OF w1(3) w'(6)] by simp
  moreover have "same_footage (mdb w) (mdb w')" using same_footage_trans [OF same w'(2)] .
  moreover have "n \<le> n'" using db w'(4) by linarith
  moreover have "a \<in> set (alert_clips (mdb w)) \<longrightarrow> al_id a \<notin> al_id ` set (r # rows) \<longrightarrow> a \<in> set (alert_clips (mdb w'))"
    using keep w'(7) by simp
  moreover have "length (files (disk w')) \<le> length (files (disk w))" using w'(5) w1(2) by (rule le_trans)
  moreover have "bus w' = bus w" using w'(3) w1(1) by simp
  ultimately show ?case using w'(1) by blast
qed simp

lemma reclaim_fold_paths:
  assumes "fold (reclaim_alert_clip locked refused dir) rows (n, w) = (n', w')" and "world_inv w"
  shows "map al_path (alert_clips (mdb w')) = map al_path (alert_clips (mdb w))"
  using assms
proof (induction rows arbitrary: n w)
  case (Cons r rows)
  obtain n1 w1 where one: "reclaim_alert_clip locked refused dir r (n, w) = (n1, w1)" by fastforce
  have rest: "fold (reclaim_alert_clip locked refused dir) rows (n1, w1) = (n', w')" using Cons.prems(1) one by simp
  have root: "root_dir (disk w)" and inv0: "media_inv (mdb w)"
    using Cons.prems(2) by (simp_all add: world_inv_def)
  note st = reclaim_one [OF one root]
  have "world_inv w1"
    using st inv_alert_row_updates(3) [OF inv0] inv0 unfolding world_inv_def by metis
  moreover have "map al_path (alert_clips (mdb w1)) = map al_path (alert_clips (mdb w))"
    using st(2) by (auto simp: mark_evicted_rows)
  ultimately show ?case using Cons.IH [OF rest] by simp
qed simp

lemma mark_keeps_ready:
  "a \<in> set (alert_clips d) \<Longrightarrow> is_ready a \<Longrightarrow> al_id a \<noteq> i \<Longrightarrow> a \<in> set (alert_clips (mark_alert_clip_evicted i d))"
  by (force simp: mark_evicted_rows)

lemma ready_count_mark:
  "ready_count (mark_alert_clip_evicted i d) \<le> ready_count d"
  "a \<in> set (alert_clips d) \<Longrightarrow> is_ready a \<Longrightarrow> ready_count (mark_alert_clip_evicted (al_id a) d) < ready_count d"
  unfolding ready_count_def ready_after_mark
  by (rule length_filter_le, rule length_filter_less [of a]) simp_all

lemma reclaim_fold_counts:
  assumes "fold (reclaim_alert_clip locked refused dir) rows (n, w) = (n', w')" and "world_inv w"
    and "\<forall>r\<in>set rows. r \<in> set (alert_clips (mdb w)) \<and> is_ready r" and "distinct (map al_id rows)"
  shows "ready_count (mdb w') + n' \<le> ready_count (mdb w) + n"
  using assms
proof (induction rows arbitrary: n w)
  case (Cons r rows)
  obtain n1 w1 where one: "reclaim_alert_clip locked refused dir r (n, w) = (n1, w1)" by fastforce
  have rest: "fold (reclaim_alert_clip locked refused dir) rows (n1, w1) = (n', w')" using Cons.prems(1) one by simp
  have root: "root_dir (disk w)" and inv0: "media_inv (mdb w)"
    using Cons.prems(2) by (simp_all add: world_inv_def)
  from reclaim_one(2) [OF one root] show ?case
  proof
    assume same: "n1 = n \<and> mdb w1 = mdb w"
    then have "world_inv w1" using reclaim_one(1) [OF one root] inv0 by (simp add: world_inv_def)
    then show ?thesis using same Cons.IH [OF rest] Cons.prems(3,4) by simp
  next
    assume new: "n1 = n + 1 \<and> mdb w1 = mark_alert_clip_evicted (al_id r) (mdb w)"
    have "world_inv w1"
      using reclaim_one(1) [OF one root] new inv_alert_row_updates(3) [OF inv0] by (simp add: world_inv_def)
    moreover have "\<forall>a\<in>set rows. a \<in> set (alert_clips (mdb w1)) \<and> is_ready a"
      using Cons.prems(3,4) new mark_keeps_ready by (fastforce simp: image_iff)
    ultimately have "ready_count (mdb w') + n' \<le> ready_count (mdb w1) + n1"
      using Cons.IH [OF rest] Cons.prems(4) by simp
    moreover have "ready_count (mdb w1) < ready_count (mdb w)"
      using new ready_count_mark(2) Cons.prems(3) by simp
    ultimately show ?thesis using new by linarith
  qed
qed simp

section \<open>Snapshots\<close>

lemma snapshot_one:
  assumes "reclaim_snapshot locked dir live cand (n, w) = (n1, w1)" and "root_dir (disk w)"
  shows "mdb w1 = mdb w \<and> bus w1 = bus w \<and> root_dir (disk w1) \<and> n \<le> n1
      \<and> length (files (disk w1)) + n1 \<le> length (files (disk w)) + n"
    "n1 = n \<Longrightarrow> w1 = w"
    "removes_only (if fst cand \<in> live then {} else {dir @ [snd cand]}) w w1"
proof -
  obtain r u where u: "unlink locked (dir @ [snd cand]) w = (r, u)" by fastforce
  note fr = unlink_frame [OF u assms(2)]
  have out: "(n1, w1) = (if fst cand \<in> live then (n, w) else if r = Io_Ok then (n + 1, u) else (n, u))"
    using assms(1) u by (cases r; cases cand) (simp_all add: reclaim_snapshot_def split: if_splits)
  have same: "u = w" if "r \<noteq> Io_Ok"
    using u that by (cases r) (auto simp: unlink_def remove_file_def split: if_splits)
  show "mdb w1 = mdb w \<and> bus w1 = bus w \<and> root_dir (disk w1) \<and> n \<le> n1
      \<and> length (files (disk w1)) + n1 \<le> length (files (disk w)) + n"
    using out fr(1,2,3,8) same assms(2) by (auto split: if_splits)
  show "n1 = n \<Longrightarrow> w1 = w" using out same by (auto split: if_splits)
  show "removes_only (if fst cand \<in> live then {} else {dir @ [snd cand]}) w w1"
    using out fr(4) same by (auto split: if_splits)
qed

lemma snapshot_fold:
  assumes "fold (reclaim_snapshot locked dir live) cands (n, w) = (n', w')" and "root_dir (disk w)"
  shows "(mdb w' = mdb w \<and> bus w' = bus w \<and> root_dir (disk w') \<and> n \<le> n'
      \<and> length (files (disk w')) + n' \<le> length (files (disk w)) + n) \<and> (n' = n \<longrightarrow> w' = w)
    \<and> removes_only ((\<lambda>c. dir @ [snd c]) ` {c \<in> set cands. fst c \<notin> live}) w w'"
  using assms
proof (induction cands arbitrary: n w)
  case (Cons c cands)
  obtain n1 w1 where one: "reclaim_snapshot locked dir live c (n, w) = (n1, w1)" by fastforce
  have rest: "fold (reclaim_snapshot locked dir live) cands (n1, w1) = (n', w')" using Cons.prems(1) one by simp
  note st = snapshot_one [OF one Cons.prems(2)]
  note IH = Cons.IH [OF rest]
  have rm: "removes_only ((if fst c \<in> live then {} else {dir @ [snd c]})
      \<union> (\<lambda>c. dir @ [snd c]) ` {c \<in> set cands. fst c \<notin> live}) w w'"
    using removes_only_trans [OF st(3)] IH st(1) by blast
  have "removes_only ((\<lambda>c. dir @ [snd c]) ` {d \<in> set (c # cands). fst d \<notin> live}) w w'"
    by (rule removes_only_mono [OF rm]) auto
  moreover have "n' = n \<longrightarrow> w' = w"
  proof
    assume "n' = n"
    then have "n1 = n" using st(1) IH by linarith
    then show "w' = w" using st IH \<open>n' = n\<close> by simp
  qed
  ultimately show ?case using st(1) IH by simp
qed simp

section \<open>The abstract eviction machine\<close>

text \<open>A clip whose row the ladder may delete, and the row after a soft eviction.\<close>

definition expendable :: "instant \<Rightarrow> clip_row \<Rightarrow> bool" where
  "expendable now c \<longleftrightarrow> cold_quarantined c \<and> hot_handle c \<noteq> None
     \<or> cold_handle c = None \<and> (cl_ended c \<noteq> None \<or> cl_started c < now - millis ABANDONED_CLIP_GRACE_MS)"

definition cooled :: "clip_row \<Rightarrow> clip_row" where
  "cooled c = c\<lparr>hot_handle := None, hot_path := None\<rparr>"

definition clip_files :: "path \<Rightarrow> clip_row \<Rightarrow> path set" where
  "clip_files dir c = (case hot_path c of None \<Rightarrow> {} | Some p \<Rightarrow> {join_path dir p})"

definition delivered :: "media_db \<Rightarrow> alert_clip_row \<Rightarrow> bool" where
  "delivered d a \<longleftrightarrow> is_ready a \<and> \<not> list_ex (outstanding (al_id a) d) (outbox (alerts d))"

text \<open>\<open>R\<close> holds the clips whose hot pointer the store may refuse to clear.\<close>

inductive evict_step :: "safety_config \<Rightarrow> int set \<Rightarrow> instant \<Rightarrow> media_world \<Rightarrow> media_world \<Rightarrow> bool"
  for cfg R now where
  quiet: "mdb w' = mdb w \<Longrightarrow> disk w' = disk w \<Longrightarrow> evict_step cfg R now w w'"
| alerts: "S \<subseteq> {a \<in> set (alert_clips (mdb w)). delivered (mdb w) a} \<Longrightarrow>
    same_footage (mdb w) (mdb w') \<Longrightarrow> media_inv (mdb w') \<Longrightarrow> root_dir (disk w') \<Longrightarrow>
    (\<And>a. a \<in> set (alert_clips (mdb w)) \<Longrightarrow> a \<notin> S \<Longrightarrow> a \<in> set (alert_clips (mdb w'))) \<Longrightarrow>
    map al_path (alert_clips (mdb w')) = map al_path (alert_clips (mdb w)) \<Longrightarrow>
    removes_only ((\<lambda>a. join_path (clips_dir cfg) (al_path a)) ` S) w w' \<Longrightarrow> evict_step cfg R now w w'"
| snapshots: "snapshots_dir cfg = Some dir \<Longrightarrow> mdb w' = mdb w \<Longrightarrow> root_dir (disk w') \<Longrightarrow>
    removes_only {dir @ [name] |name stem. jpg_stem name = Some stem \<and> events (alerts (mdb w)) stem = None} w w'
    \<Longrightarrow> evict_step cfg R now w w'"
| hard: "c \<in> set (clips (mdb w)) \<Longrightarrow> expendable now c \<Longrightarrow>
    mdb w' = snd (cascade_delete_clip_metadata (cl_id c) (mdb w)) \<Longrightarrow> root_dir (disk w') \<Longrightarrow>
    removes_only (clip_files (clips_dir cfg) c) w w' \<Longrightarrow> evict_step cfg R now w w'"
| soft: "c \<in> set (clips (mdb w)) \<Longrightarrow> hot_handle c \<noteq> None \<Longrightarrow> cold_handle c \<noteq> None \<Longrightarrow>
    mdb w' = snd (clear_hot_pointer (cl_id c) (mdb w)) \<Longrightarrow> root_dir (disk w') \<Longrightarrow>
    removes_only (clip_files (clips_dir cfg) c) w w' \<Longrightarrow> evict_step cfg R now w w'"
| unlinked: "c \<in> set (clips (mdb w)) \<Longrightarrow> hot_handle c \<noteq> None \<Longrightarrow> cold_handle c \<noteq> None \<Longrightarrow> cl_id c \<in> R \<Longrightarrow>
    mdb w' = mdb w \<Longrightarrow> root_dir (disk w') \<Longrightarrow>
    removes_only (clip_files (clips_dir cfg) c) w w' \<Longrightarrow> evict_step cfg R now w w'"

lemma idle: "evict_step cfg R now w w"
  by (rule quiet) simp_all

text \<open>What the ladder works off: ready alert clips, files, rows and hot pointers.\<close>

definition store_size :: "media_world \<Rightarrow> nat" where
  "store_size w = ready_count (mdb w) + length (files (disk w)) + length (clips (mdb w))
     + length (filter (\<lambda>c. hot_handle c \<noteq> None) (clips (mdb w)))"

lemma first_of_sort: "(case sort_key k xs of [] \<Rightarrow> None | x # r \<Rightarrow> Some x) = Some c \<Longrightarrow> c \<in> set xs"
  by (metis list.case_eq_if list.set_sel(1) option.distinct(1) option.sel set_sort)

lemma oldest_mem: "oldest cs = Some c \<Longrightarrow> c \<in> set cs"
  unfolding oldest_def by (rule first_of_sort)

lemma quarantined_mem:
  assumes "find_largest_quarantined_hot_clip d = Some c"
  shows "c \<in> set (clips d)" "cold_quarantined c" "hot_handle c \<noteq> None"
  using first_of_sort [OF assms [unfolded find_largest_quarantined_hot_clip_def]] by auto

lemma length_filter_filter: "length (filter P (filter Q xs)) \<le> length (filter P xs)"
  by (induction xs) auto

lemma cascade_clips:
  "c \<in> set (clips d) \<Longrightarrow> clips (snd (cascade_delete_clip_metadata (cl_id c) d)) = filter (\<lambda>x. cl_id x \<noteq> cl_id c) (clips d)
     \<and> alert_clips (snd (cascade_delete_clip_metadata (cl_id c) d)) = alert_clips d"
  by (auto simp: cascade_delete_clip_metadata_def has_clip_iff Let_def)

lemma cascade_size:
  assumes "c \<in> set (clips d)" "d' = snd (cascade_delete_clip_metadata (cl_id c) d)"
  shows "length (clips d') < length (clips d)"
    "length (filter (\<lambda>c. hot_handle c \<noteq> None) (clips d')) \<le> length (filter (\<lambda>c. hot_handle c \<noteq> None) (clips d))"
    "ready_count d' = ready_count d"
proof -
  have "has_clip (cl_id c) d" using assms(1) by (auto simp: has_clip_iff)
  then have cl: "clips d' = filter (\<lambda>x. cl_id x \<noteq> cl_id c) (clips d)" and al: "alert_clips d' = alert_clips d"
    by (simp_all add: assms(2) cascade_delete_clip_metadata_def Let_def)
  show "length (clips d') < length (clips d)" unfolding cl using assms(1) by (rule length_filter_less) simp
  show "length (filter (\<lambda>c. hot_handle c \<noteq> None) (clips d')) \<le> length (filter (\<lambda>c. hot_handle c \<noteq> None) (clips d))"
    unfolding cl by (rule length_filter_filter)
  show "ready_count d' = ready_count d" by (simp add: ready_count_def al)
qed

lemma evict_row_step:
  assumes "evict_row locked refused (clips_dir cfg) q c w = (r, w')" and "world_inv w"
    and "c \<in> set (clips (mdb w))" and "expendable now c"
  shows "evict_step cfg R now w w'" "r = Inr True \<Longrightarrow> store_size w' < store_size w"
proof (atomize (full), cases "refused (Delete_Row (cl_id c))")
  case True
  then show "evict_step cfg R now w w' \<and> (r = Inr True \<longrightarrow> store_size w' < store_size w)"
    using assms(1) idle by (auto simp: evict_row_def)
next
  case False
  let ?d = "snd (cascade_delete_clip_metadata (cl_id c) (mdb w))"
  let ?w1 = "w\<lparr>mdb := ?d\<rparr>"
  let ?w2 = "case hot_path c of None \<Rightarrow> ?w1 | Some p \<Rightarrow> snd (unlink locked (join_path (clips_dir cfg) p) ?w1)"
  have root: "root_dir (disk ?w1)" using assms(2) by (simp add: world_inv_def)
  have hit: "cascade_delete_clip_metadata (cl_id c) (mdb w) = (Inr (), ?d)"
    using assms(3) by (simp add: cascade_delete_clip_metadata_def has_clip_iff Let_def)
  from assms(1) have out: "r = Inr True" "w' = publish (Clip_Hard_Evicted (cl_id c) (cl_camera c) (cl_size c) q) ?w2"
    unfolding evict_row_def if_not_P [OF False] by (subst (asm) hit, simp add: Let_def)+
  have w2: "mdb ?w2 = ?d \<and> root_dir (disk ?w2) \<and> removes_only (clip_files (clips_dir cfg) c) w ?w2
      \<and> length (files (disk ?w2)) \<le> length (files (disk w))"
  proof (cases "hot_path c")
    case (Some p)
    obtain x u where u: "unlink locked (join_path (clips_dir cfg) p) ?w1 = (x, u)" by fastforce
    show ?thesis
      using unlink_frame(1,3,4,7) [OF u root] u by (simp add: Some clip_files_def removes_only_def)
  qed (use root in \<open>simp add: removes_only_disk\<close>)
  have step: "evict_step cfg R now w w'"
    by (rule hard [OF assms(3,4)]) (use w2 in \<open>simp_all add: out(2) publish_def removes_only_def\<close>)
  have "mdb w' = ?d" "length (files (disk w')) \<le> length (files (disk w))"
    using w2 by (simp_all add: out(2) publish_def)
  then have "store_size w' < store_size w"
    using cascade_size [OF assms(3) refl] by (simp add: store_size_def)
  with step show "evict_step cfg R now w w' \<and> (r = Inr True \<longrightarrow> store_size w' < store_size w)" by simp
qed

lemma clear_hot_size:
  assumes "c \<in> set (clips d)" "hot_handle c \<noteq> None" "cold_handle c \<noteq> None" "clear_hot_pointer (cl_id c) d = (n, d')"
  shows "n > 0" "length (clips d') = length (clips d)" "ready_count d' = ready_count d"
    "length (filter (\<lambda>c. hot_handle c \<noteq> None) (clips d')) < length (filter (\<lambda>c. hot_handle c \<noteq> None) (clips d))"
proof -
  let ?P = "\<lambda>x. cl_id x = cl_id c \<and> cold_handle x \<noteq> None"
  let ?g = "\<lambda>x. if ?P x then x\<lparr>hot_handle := None, hot_path := None\<rparr> else x"
  have d': "d' = d\<lparr>clips := map ?g (clips d)\<rparr>" and n: "n = length (filter ?P (clips d))"
    using assms(4) by (simp_all add: clear_hot_pointer_def update_clips_def)
  have "c \<in> set (filter ?P (clips d))" using assms by simp
  then show "n > 0" unfolding n by (metis length_pos_if_in_set)
  show "length (clips d') = length (clips d)" "ready_count d' = ready_count d" by (simp_all add: d' ready_count_def)
  have new: "clips d' = map ?g (clips d)" by (simp add: d')
  have eq: "length (filter (\<lambda>c. hot_handle c \<noteq> None) (map ?g xs))
      = length (filter (\<lambda>x. \<not> ?P x) (filter (\<lambda>c. hot_handle c \<noteq> None) xs))" for xs
    by (induction xs) auto
  have "length (filter (\<lambda>x. \<not> ?P x) (filter (\<lambda>c. hot_handle c \<noteq> None) (clips d)))
      < length (filter (\<lambda>c. hot_handle c \<noteq> None) (clips d))"
    by (rule length_filter_less [of c]) (use assms in auto)
  then show "length (filter (\<lambda>c. hot_handle c \<noteq> None) (clips d')) < length (filter (\<lambda>c. hot_handle c \<noteq> None) (clips d))"
    unfolding new eq .
qed

lemma soft_evict_step:
  assumes "soft_evict locked refused (clips_dir cfg) c p w = (b, w')" and "world_inv w"
    and "c \<in> set (clips (mdb w))" "hot_handle c \<noteq> None" "cold_handle c \<noteq> None" "hot_path c = Some p"
    and R: "{i. refused (Clear_Pointer i)} \<subseteq> R"
  shows "evict_step cfg R now w w'" "b = Inr True \<Longrightarrow> store_size w' < store_size w"
proof -
  let ?no = "refused (Clear_Pointer (cl_id c))"
  obtain r u where u: "unlink locked (join_path (clips_dir cfg) p) w = (r, u)" by fastforce
  have root: "root_dir (disk w)" using assms(2) by (simp add: world_inv_def)
  note fr = unlink_frame [OF u root]
  obtain n d where cl: "clear_hot_pointer (cl_id c) (mdb u) = (n, d)" by fastforce
  have n: "n > 0" and size: "length (clips d) = length (clips (mdb w))" "ready_count d = ready_count (mdb w)"
    "length (filter (\<lambda>c. hot_handle c \<noteq> None) (clips d)) < length (filter (\<lambda>c. hot_handle c \<noteq> None) (clips (mdb w)))"
    using clear_hot_size [OF assms(3-5)] cl by (simp_all add: fr(1))
  then obtain k where "n = Suc k" by (cases n) auto
  then have out: "if r = Io_Error then b = Inr False \<and> w' = w
      else if ?no then b = Inl Store_Fault \<and> w' = u else b = Inr True \<and> mdb w' = d \<and> disk w' = disk u"
    using assms(1) u cl fr(5) by (cases r) (auto simp: soft_evict_def publish_def split: if_splits)
  have gap: "evict_step cfg R now w w'" if "r \<noteq> Io_Error" "?no"
  proof (rule unlinked [OF assms(3-5)])
    show "cl_id c \<in> R" using R that by blast
    show "mdb w' = mdb w" "root_dir (disk w')" "removes_only (clip_files (clips_dir cfg) c) w w'"
      using out that fr(1,3,4) assms(6) by (simp_all add: clip_files_def)
  qed
  have step: "evict_step cfg R now w w'" if "r \<noteq> Io_Error" "\<not> ?no"
  proof (rule soft [OF assms(3-5)])
    show "mdb w' = snd (clear_hot_pointer (cl_id c) (mdb w))" using out cl that by (simp add: fr(1))
    show "root_dir (disk w')" "removes_only (clip_files (clips_dir cfg) c) w w'"
      using out that fr(3,4) assms(6) by (simp_all add: clip_files_def removes_only_def)
  qed
  show "evict_step cfg R now w w'" using step gap out idle by (cases "r = Io_Error"; cases ?no) auto
  show "store_size w' < store_size w" if "b = Inr True"
    using out that size fr(7) by (auto simp: store_size_def split: if_splits)
qed

lemma hard_candidate_expendable:
  "find_hard_evict_candidate cam (now - millis ABANDONED_CLIP_GRACE_MS) d = Some c \<Longrightarrow>
     c \<in> set (clips d) \<and> expendable now c"
  unfolding find_hard_evict_candidate_def
  by (drule oldest_mem) (auto simp: hard_evictable_def expendable_def)

lemma soft_candidate:
  "find_soft_evict_candidate cam d = Some c \<Longrightarrow>
     c \<in> set (clips d) \<and> hot_handle c \<noteq> None \<and> cold_handle c \<noteq> None"
  unfolding find_soft_evict_candidate_def by (drule oldest_mem) (auto simp: soft_evictable_def)

text \<open>A ladder result: an admissible step, smaller when it reports progress.\<close>

definition good_step :: "safety_config \<Rightarrow> int set \<Rightarrow> instant \<Rightarrow> media_world \<Rightarrow> (reclaim_error + bool) \<times> nat \<times> media_world \<Rightarrow> bool" where
  "good_step cfg R now w out \<longleftrightarrow>
     (case out of (r, cur, w') \<Rightarrow> evict_step cfg R now w w' \<and> (r = Inr True \<longrightarrow> store_size w' < store_size w))"

lemma evict_camera_good:
  assumes "evict_camera locked refused (clips_dir cfg) now cam idx cur w = Some out" and "world_inv w"
    and R: "{i. refused (Clear_Pointer i)} \<subseteq> R"
  shows "good_step cfg R now w out"
proof (cases "find_soft_evict_candidate cam (mdb w)")
  case (Some c)
  note c = soft_candidate [OF Some]
  show ?thesis
  proof (cases "hot_path c")
    case None
    then show ?thesis using assms(1) Some idle by (auto simp: evict_camera_def good_step_def)
  next
    case p: (Some p)
    obtain b w' where se: "soft_evict locked refused (clips_dir cfg) c p w = (b, w')" by fastforce
    then have "out = (b, if isl b then cur else idx + 1, w')"
      using assms(1) Some p by (cases b) (auto simp: evict_camera_def)
    then show ?thesis using soft_evict_step [OF se assms(2) _ _ _ p R] c by (simp add: good_step_def)
  qed
next
  case None
  then obtain c where h: "find_hard_evict_candidate cam (now - millis ABANDONED_CLIP_GRACE_MS) (mdb w) = Some c"
    using assms(1) by (auto simp: evict_camera_def split: option.splits)
  obtain r w' where er: "evict_row locked refused (clips_dir cfg) False c w = (r, w')" by fastforce
  have "c \<in> set (clips (mdb w))" "expendable now c" using hard_candidate_expendable [OF h] by blast+
  note st = evict_row_step [OF er assms(2) this]
  have "out = (r, if isl r then cur else idx + 1, w')"
    using assms(1) None h er by (cases r) (auto simp: evict_camera_def)
  then show ?thesis using st by (simp add: good_step_def)
qed

lemma evict_round_good:
  assumes "world_inv w" and R: "{i. refused (Clear_Pointer i)} \<subseteq> R"
  shows "good_step cfg R now w (evict_round locked refused (clips_dir cfg) now cams cur offs w)"
proof (induction offs)
  case Nil
  show ?case by (simp add: good_step_def idle)
next
  case (Cons off offs)
  then show ?case
    using evict_camera_good [OF _ assms(1) R] by (simp add: Let_def split: option.split)
qed

lemma evict_one_good:
  "world_inv w \<Longrightarrow> {i. refused (Clear_Pointer i)} \<subseteq> R \<Longrightarrow> good_step cfg R now w (evict_one locked refused (clips_dir cfg) now cur w)"
  by (simp add: evict_one_def Let_def evict_round_good) (simp add: good_step_def idle)

section \<open>The ladder implements the machine\<close>

lemma evictable_delivered:
  assumes "a \<in> set (alert_clips_evictable batch cutoff d)"
  shows "a \<in> set (alert_clips d)" "delivered d a"
  using set_sql_limit [OF assms [unfolded alert_clips_evictable_def]]
  by (auto simp: sort_null_first_def delivered_def)

lemma distinct_map_limit: "distinct (map f xs) \<Longrightarrow> distinct (map f (sql_limit n xs))"
  by (simp add: sql_limit_def flip: take_map)

lemma sort_null_first_set: "set (sort_null_first f xs) = set xs"
  by (auto simp: sort_null_first_def)

lemma sort_null_first_distinct: "distinct xs \<Longrightarrow> distinct (sort_null_first f xs)"
  by (auto simp: sort_null_first_def)

lemma evictable_distinct:
  assumes "media_inv d" shows "distinct (map al_id (alert_clips_evictable batch cutoff d))"
proof -
  have sorted: "distinct (map al_id (sort_null_first al_ready_at xs))" if "distinct (map al_id xs)" for xs
    using that by (simp add: distinct_map sort_null_first_set sort_null_first_distinct)
  have "distinct (map al_id (filter P (alert_clips d)))" for P
    using inv_parts(3) [OF assms] by (rule distinct_map_filter)
  from sorted [OF this] show ?thesis
    unfolding alert_clips_evictable_def by (rule distinct_map_limit)
qed

lemma alerts_tier:
  assumes "reclaim_evictable_alert_clips locked refused (clips_dir cfg) cutoff batch w = (n, w')" and "world_inv w"
  shows "evict_step cfg R now w w'" "n > 0 \<Longrightarrow> store_size w' < store_size w" "store_size w' \<le> store_size w" "world_inv w'"
proof -
  let ?rows = "alert_clips_evictable batch cutoff (mdb w)"
  have f: "fold (reclaim_alert_clip locked refused (clips_dir cfg)) ?rows (0, w) = (n, w')"
    using assms(1) by (simp add: reclaim_evictable_alert_clips_def)
  note r = reclaim_fold [OF f assms(2)]
  have inv: "media_inv (mdb w)" using assms(2) by (simp add: world_inv_def)
  have del: "set ?rows \<subseteq> {a \<in> set (alert_clips (mdb w)). delivered (mdb w) a}"
    using evictable_delivered by blast
  have same_row: "a \<in> set ?rows" if mem: "a \<in> set (alert_clips (mdb w))" and img: "al_id a \<in> al_id ` set ?rows" for a
  proof -
    obtain b where b: "b \<in> set ?rows" "al_id a = al_id b" using img by blast
    have "b \<in> set (alert_clips (mdb w))" using evictable_delivered(1) [OF b(1)] .
    moreover have "inj_on al_id (set (alert_clips (mdb w)))" using inv_parts(3) [OF inv] by (simp add: distinct_map)
    ultimately have "a = b" using b(2) mem by (meson inj_onD)
    then show ?thesis using b(1) by simp
  qed
  show "evict_step cfg R now w w'"
  proof (rule alerts [OF del])
    show "a \<in> set (alert_clips (mdb w'))" if "a \<in> set (alert_clips (mdb w))" "a \<notin> set ?rows" for a
      using that same_row r(3) by blast
  qed (use r(1,2) reclaim_fold_paths [OF f assms(2)] in \<open>simp_all add: world_inv_def\<close>)
  show "world_inv w'" using r(1) by blast
  have count: "ready_count (mdb w') + n \<le> ready_count (mdb w) + 0"
    by (rule reclaim_fold_counts [OF f assms(2)]) (use del evictable_distinct [OF inv] in \<open>auto simp: delivered_def\<close>)
  then show "n > 0 \<Longrightarrow> store_size w' < store_size w"
    using r(1) by (simp add: store_size_def same_footage_def)
  show "store_size w' \<le> store_size w"
    using r(1) count by (simp add: store_size_def same_footage_def)
qed

lemma candidates_jpg:
  "c \<in> set (snapshot_candidates es) \<Longrightarrow> jpg_stem (snd c) = Some (fst c)"
  by (auto simp: snapshot_candidates_def map_filter_def dest!: in_set_takeD)

lemma snapshots_tier:
  assumes "snapshots_dir cfg = Some dir" and "sweep_orphan_snapshots locked dir w = (Inr n, w')" and "world_inv w"
  shows "evict_step cfg R now w w'" "n > 0 \<Longrightarrow> store_size w' < store_size w" "n = 0 \<Longrightarrow> w' = w" "world_inv w'"
proof -
  have root: "root_dir (disk w)" and inv: "media_inv (mdb w)" using assms(3) by (simp_all add: world_inv_def)
  consider "n = 0" "w' = w" | es where "node_at dir (disk w) = Some (Directory es)"
    using assms(2) by (auto simp: sweep_orphan_snapshots_def split: option.splits node.splits)
  then have "evict_step cfg R now w w' \<and> (n > 0 \<longrightarrow> store_size w' < store_size w) \<and> (n = 0 \<longrightarrow> w' = w) \<and> world_inv w'"
  proof cases
    case 1
    then show ?thesis using idle assms(3) by simp
  next
    case (2 es)
    let ?c = "snapshot_candidates es"
    let ?live = "existing_event_ids (map fst ?c) (mdb w)"
    have f: "fold (reclaim_snapshot locked dir ?live) ?c (0, w) = (n, w')"
      using assms(2) 2 by (auto simp: sweep_orphan_snapshots_def Let_def split: prod.splits)
    note s = snapshot_fold [OF f root]
    have "(\<lambda>c. dir @ [snd c]) ` {c \<in> set ?c. fst c \<notin> ?live}
        \<subseteq> {dir @ [name] |name stem. jpg_stem name = Some stem \<and> events (alerts (mdb w)) stem = None}"
    proof (rule image_subsetI)
      fix c assume c: "c \<in> {c \<in> set ?c. fst c \<notin> ?live}"
      then have "fst c \<in> set (map fst ?c)" by simp
      with c have "events (alerts (mdb w)) (fst c) = None" unfolding existing_event_ids_def by blast
      then show "dir @ [snd c] \<in> {dir @ [name] |name stem. jpg_stem name = Some stem \<and> events (alerts (mdb w)) stem = None}"
        using candidates_jpg [of c es] c by blast
    qed
    then have rm: "removes_only {dir @ [name] |name stem. jpg_stem name = Some stem \<and> events (alerts (mdb w)) stem = None} w w'"
      using s removes_only_mono by blast
    have "evict_step cfg R now w w'"
      by (rule snapshots [OF assms(1) _ _ rm]) (use s in blast)+
    moreover have "n > 0 \<longrightarrow> store_size w' < store_size w" using s by (simp add: store_size_def)
    ultimately show ?thesis using s inv by (simp add: world_inv_def)
  qed
  then show "evict_step cfg R now w w'" "n > 0 \<Longrightarrow> store_size w' < store_size w" "n = 0 \<Longrightarrow> w' = w" "world_inv w'"
    by blast+
qed

lemma pressure_reclaim_step:
  assumes "pressure_reclaim cfg locked refused now cur w = (r, cur', w')" and "world_inv w"
    and R: "{i. refused (Clear_Pointer i)} \<subseteq> R"
  shows "\<exists>w1. evict_step cfg R now w w1 \<and> evict_step cfg R now w1 w'" "r = Inr True \<Longrightarrow> store_size w' < store_size w"
proof -
  obtain n1 w1 where t1: "reclaim_evictable_alert_clips locked refused (clips_dir cfg) now PRESSURE_RECLAIM_BATCH w = (n1, w1)"
    by fastforce
  note one = alerts_tier [OF t1 assms(2)]
  obtain e w2 where t2: "(case snapshots_dir cfg of None \<Rightarrow> (Inr 0, w1) | Some dir \<Rightarrow> sweep_orphan_snapshots locked dir w1) = (e, w2)"
    by fastforce
  have two: "evict_step cfg R now w1 w2 \<and> (n > 0 \<longrightarrow> store_size w2 < store_size w1) \<and> (n = 0 \<longrightarrow> w2 = w1)" if "e = Inr n" for n
    using t2 that snapshots_tier [OF _ _ one(4)] idle by (auto split: option.splits)
  have fault: "w2 = w1" if "isl e"
    using t2 that by (auto simp: sweep_orphan_snapshots_def Let_def split: option.splits node.splits prod.splits)
  have "evict_step cfg R now w1 w' \<and> (r = Inr True \<longrightarrow> store_size w' < store_size w)"
  proof (cases "n1 > 0")
    case True
    then show ?thesis using assms(1) t1 one(2) idle by (simp add: pressure_reclaim_def)
  next
    case False
    have rest: "(r, cur', w') = (case (e, w2) of
        (Inl e, w2) \<Rightarrow> (Inl e, cur, w2)
      | (Inr n2, w2) \<Rightarrow>
          if n2 > 0 then (Inr True, cur, w2)
          else (case find_largest_quarantined_hot_clip (mdb w2) of
                  Some clip \<Rightarrow> (case evict_row locked refused (clips_dir cfg) True clip w2 of (r, w3) \<Rightarrow> (r, cur, w3))
                | None \<Rightarrow> evict_one locked refused (clips_dir cfg) now cur w2))"
      using assms(1) False by (simp only: pressure_reclaim_def t1 t2 prod.case if_False)
    show ?thesis
    proof (cases e)
      case (Inl x)
      then show ?thesis using rest fault idle by simp
    next
      case e: (Inr n2)
      show ?thesis
      proof (cases "n2 > 0")
        case True
        then show ?thesis using rest two [OF e] e one(3) by simp
      next
        case no: False
        then have w2: "w2 = w1" using two [OF e] by simp
        show ?thesis
        proof (cases "find_largest_quarantined_hot_clip (mdb w1)")
          case (Some c)
          obtain x w3 where er: "evict_row locked refused (clips_dir cfg) True c w1 = (x, w3)" by fastforce
          have "expendable now c" using quarantined_mem(2,3) [OF Some] by (simp add: expendable_def)
          note st = evict_row_step [OF er one(4) quarantined_mem(1) [OF Some] this]
          have "r = x" "w' = w3" using rest e no w2 Some er by simp_all
          then show ?thesis using st one(3) by fastforce
        next
          case None
          have "(r, cur', w') = evict_one locked refused (clips_dir cfg) now cur w1"
            using rest e no w2 None by simp
          then have "good_step cfg R now w1 (r, cur', w')"
            using evict_one_good [OF one(4) R] by simp
          then show ?thesis using one(3) by (auto simp: good_step_def)
        qed
      qed
    qed
  qed
  then show "\<exists>w1. evict_step cfg R now w w1 \<and> evict_step cfg R now w1 w'" "r = Inr True \<Longrightarrow> store_size w' < store_size w"
    using one(1) by blast+
qed

end
