(* ===== verification/Storage_Guarantees.thy ===== *)
theory Storage_Guarantees
  imports Reclaim_Safety
begin

text \<open>
  What a tick of the safety loop guarantees, through the eviction machine of
  \<open>Reclaim_Safety\<close>: the worlds a tick passes through are reached by eviction
  steps, the schema and the hot tier stay consistent, and footage that is being
  recorded or has a cold copy stays.
\<close>

section \<open>Clips over one eviction step\<close>

lemma evict_step_world: "evict_step cfg R now w w' \<Longrightarrow> world_inv w \<Longrightarrow> world_inv w'"
  by (cases rule: evict_step.cases) (auto simp: world_inv_def intro: inv_cascade inv_clear_hot)

lemma clear_hot_clips:
  "clips (snd (clear_hot_pointer i d)) = map (\<lambda>x. if cl_id x = i \<and> cold_handle x \<noteq> None then cooled x else x) (clips d)"
  "alert_clips (snd (clear_hot_pointer i d)) = alert_clips d"
  by (auto simp: clear_hot_pointer_def update_clips_def cooled_def)

lemma cooled_simps [simp]:
  "cold_handle (cooled c) = cold_handle c" "hot_handle (cooled c) = None" "hot_path (cooled c) = None"
  "cl_id (cooled c) = cl_id c" "clip_files dir (cooled c) = {}" "cooled (cooled c) = cooled c"
  by (simp_all add: cooled_def clip_files_def)

text \<open>The six rules collapse to four as far as the footage is concerned.\<close>

lemma evict_step_clips_cases:
  assumes "evict_step cfg R now w w'"
  obtains (same) "clips (mdb w') = clips (mdb w)"
      "paths (disk w) - paths (disk w') \<subseteq> (\<lambda>a. join_path (clips_dir cfg) (al_path a)) ` set (alert_clips (mdb w))
         \<union> {dir @ [name] |dir name. snapshots_dir cfg = Some dir}"
      "map al_path (alert_clips (mdb w')) = map al_path (alert_clips (mdb w))"
  | (deleted) c where "c \<in> set (clips (mdb w))" "expendable now c"
      "clips (mdb w') = filter (\<lambda>x. cl_id x \<noteq> cl_id c) (clips (mdb w))"
      "paths (disk w) - paths (disk w') \<subseteq> clip_files (clips_dir cfg) c" "alert_clips (mdb w') = alert_clips (mdb w)"
  | (cooled) c where "c \<in> set (clips (mdb w))" "hot_handle c \<noteq> None" "cold_handle c \<noteq> None"
      "clips (mdb w') = map (\<lambda>x. if cl_id x = cl_id c \<and> cold_handle x \<noteq> None then cooled x else x) (clips (mdb w))"
      "paths (disk w) - paths (disk w') \<subseteq> clip_files (clips_dir cfg) c" "alert_clips (mdb w') = alert_clips (mdb w)"
  | (unlinked) c where "c \<in> set (clips (mdb w))" "hot_handle c \<noteq> None" "cold_handle c \<noteq> None" "cl_id c \<in> R"
      "clips (mdb w') = clips (mdb w)" "paths (disk w) - paths (disk w') \<subseteq> clip_files (clips_dir cfg) c"
      "alert_clips (mdb w') = alert_clips (mdb w)"
  using assms
proof (cases rule: evict_step.cases)
  case quiet
  then show thesis by (intro same) simp_all
next
  case (alerts S)
  have "(\<lambda>a. join_path (clips_dir cfg) (al_path a)) ` S \<subseteq> (\<lambda>a. join_path (clips_dir cfg) (al_path a)) ` set (alert_clips (mdb w))"
    using alerts(1) by (intro image_mono) blast
  with alerts(7) have "paths (disk w) - paths (disk w') \<subseteq> (\<lambda>a. join_path (clips_dir cfg) (al_path a)) ` set (alert_clips (mdb w))
         \<union> {dir @ [name] |dir name. snapshots_dir cfg = Some dir}"
    unfolding removes_only_def by (meson le_supI1 order_trans)
  then show thesis using alerts(2,6) by (intro same) (simp_all add: same_footage_def)
next
  case (snapshots dir)
  have "{dir @ [name] |name stem. jpg_stem name = Some stem \<and> events (alerts (mdb w)) stem = None}
      \<subseteq> {dir @ [name] |dir name. snapshots_dir cfg = Some dir}" using snapshots(1) by blast
  with snapshots(4) have "paths (disk w) - paths (disk w') \<subseteq> (\<lambda>a. join_path (clips_dir cfg) (al_path a)) ` set (alert_clips (mdb w))
         \<union> {dir @ [name] |dir name. snapshots_dir cfg = Some dir}"
    unfolding removes_only_def by (meson le_supI2 order_trans)
  then show thesis using snapshots(2) by (intro same) simp_all
next
  case (hard c)
  then show thesis using cascade_clips [OF hard(1)] by (intro deleted [of c]) (simp_all add: removes_only_def)
next
  case (soft c)
  then show thesis by (intro cooled [of c]) (simp_all add: clear_hot_clips removes_only_def)
next
  case (unlinked c)
  then show thesis by (intro that(4) [of c]) (simp_all add: removes_only_def)
qed

text \<open>A row that may not be deleted stays, at most without its hot copy.\<close>

lemma evict_step_keeps:
  assumes "evict_step cfg R now w w'" and "media_inv (mdb w)" and "c \<in> set (clips (mdb w))" and "\<not> expendable now c"
  shows "c \<in> set (clips (mdb w')) \<or> cold_handle c \<noteq> None \<and> cooled c \<in> set (clips (mdb w'))"
  using assms(1)
proof (cases rule: evict_step_clips_cases)
  case (deleted d)
  then have "cl_id c \<noteq> cl_id d" using same_clip [OF assms(2,3) deleted(1)] assms(4) by blast
  then show ?thesis using deleted(3) assms(3) by simp
next
  case (cooled d)
  show ?thesis
  proof (cases "cl_id c = cl_id d \<and> cold_handle c \<noteq> None")
    case True
    have "(if cl_id c = cl_id d \<and> cold_handle c \<noteq> None then Reclaim_Safety.cooled c else c) \<in> set (clips (mdb w'))"
      unfolding cooled(4) set_map using assms(3) by (rule imageI)
    then show ?thesis using True by simp
  next
    case False
    have "(if cl_id c = cl_id d \<and> cold_handle c \<noteq> None then Reclaim_Safety.cooled c else c) \<in> set (clips (mdb w'))"
      unfolding cooled(4) set_map using assms(3) by (rule imageI)
    then show ?thesis unfolding if_not_P [OF False] by blast
  qed
qed (use assms(3) in simp_all)

text \<open>No other row or snapshot names the clip's file.\<close>

definition sole_owner :: "safety_config \<Rightarrow> media_world \<Rightarrow> clip_row \<Rightarrow> bool" where
  "sole_owner cfg w c \<longleftrightarrow>
     (\<forall>d\<in>set (clips (mdb w)). d \<noteq> c \<longrightarrow> clip_files (clips_dir cfg) d \<inter> clip_files (clips_dir cfg) c = {})
     \<and> clip_files (clips_dir cfg) c \<inter> (\<lambda>q. join_path (clips_dir cfg) q) ` set (map al_path (alert_clips (mdb w))) = {}
     \<and> clip_files (clips_dir cfg) c \<inter> {dir @ [name] |dir name. snapshots_dir cfg = Some dir} = {}"

lemma clips_after:
  assumes "evict_step cfg R now w w'" and "d \<in> set (clips (mdb w'))"
  shows "d \<in> set (clips (mdb w)) \<or> clip_files dir d = {} \<and> cold_handle d \<noteq> None"
  using assms(1)
proof (cases rule: evict_step_clips_cases)
  case (cooled c)
  then show ?thesis using assms(2) by (auto split: if_splits)
qed (use assms(2) in auto)

lemma disjoint_mono: "F \<inter> B = {} \<Longrightarrow> D \<subseteq> B \<Longrightarrow> F \<inter> D = {}"
  by blast

lemma disjoint_Un: "F \<inter> A = {} \<Longrightarrow> F \<inter> B = {} \<Longrightarrow> F \<inter> (A \<union> B) = {}"
  by blast

lemma evict_step_files:
  assumes step: "evict_step cfg R now w w'" and inv: "media_inv (mdb w)"
    and c: "c \<in> set (clips (mdb w))" "c \<in> set (clips (mdb w'))" and own: "sole_owner cfg w c"
  shows "cold_handle c = None \<or> cl_id c \<notin> R \<Longrightarrow> clip_files (clips_dir cfg) c \<inter> (paths (disk w) - paths (disk w')) = {}"
    "sole_owner cfg w' c"
proof -
  let ?F = "clip_files (clips_dir cfg)"
  have others: "?F d \<inter> ?F c = {}" if "d \<in> set (clips (mdb w))" "d \<noteq> c" for d
    using own that by (simp add: sole_owner_def)
  have al: "map al_path (alert_clips (mdb w')) = map al_path (alert_clips (mdb w))"
    using step by (cases rule: evict_step_clips_cases) simp_all
  show "sole_owner cfg w' c"
    unfolding sole_owner_def al
  proof (intro conjI ballI impI)
    fix d assume "d \<in> set (clips (mdb w'))" "d \<noteq> c"
    then show "?F d \<inter> ?F c = {}" using clips_after [OF step, of d "clips_dir cfg"] others [of d] by (metis inf_bot_left)
  qed (use own in \<open>simp_all add: sole_owner_def\<close>)
  show "?F c \<inter> (paths (disk w) - paths (disk w')) = {}" if safe: "cold_handle c = None \<or> cl_id c \<notin> R"
    using step
  proof (cases rule: evict_step_clips_cases)
    case same
    have "?F c \<inter> ((\<lambda>a. join_path (clips_dir cfg) (al_path a)) ` set (alert_clips (mdb w))
        \<union> {dir @ [name] |dir name. snapshots_dir cfg = Some dir}) = {}"
      using own unfolding sole_owner_def set_map image_image by (intro disjoint_Un) simp_all
    then show ?thesis using same(2) by (rule disjoint_mono)
  next
    case (deleted d)
    have "d \<noteq> c" using deleted(3) c(2) by auto
    then have "?F c \<inter> ?F d = {}" using others [OF deleted(1)] by (simp add: inf_commute)
    then show ?thesis using deleted(4) by (rule disjoint_mono)
  next
    case (cooled d)
    have "d \<noteq> c"
    proof
      assume "d = c"
      moreover have "c \<in> (\<lambda>x. if cl_id x = cl_id d \<and> cold_handle x \<noteq> None then Reclaim_Safety.cooled x else x) ` set (clips (mdb w))"
        using c(2) unfolding cooled(4) by simp
      ultimately obtain x where x: "x \<in> set (clips (mdb w))"
          "c = (if cl_id x = cl_id c \<and> cold_handle x \<noteq> None then Reclaim_Safety.cooled x else x)" by blast
      have "cl_id x = cl_id c" using x(2) by (metis cooled_simps(4))
      then have "x = c" using same_clip [OF inv x(1) c(1)] by blast
      then show False using x(2) cooled(2,3) \<open>d = c\<close> by (metis cooled_simps(2))
    qed
    then have "?F c \<inter> ?F d = {}" using others [OF cooled(1)] by (simp add: inf_commute)
    then show ?thesis using cooled(5) by (rule disjoint_mono)
  next
    case (unlinked d)
    then have "d \<noteq> c" using safe by auto
    then have "?F c \<inter> ?F d = {}" using others [OF unlinked(1)] by (simp add: inf_commute)
    then show ?thesis using unlinked(6) by (rule disjoint_mono)
  qed
qed

section \<open>The worlds a tick passes through\<close>

text \<open>An eviction step at one of the instants the tick's steps read.\<close>

definition evict_within :: "safety_config \<Rightarrow> int set \<Rightarrow> instant set \<Rightarrow> media_world \<Rightarrow> media_world \<Rightarrow> bool" where
  "evict_within cfg R T w w' \<longleftrightarrow> (\<exists>now\<in>T. evict_step cfg R now w w')"

text \<open>
  Every row with a hot path has its file, and no two rows name one file; only the
  rows in \<open>D\<close> may have lost their file, and then they have a cold copy.
\<close>

definition hot_tier_ok :: "safety_config \<Rightarrow> int set \<Rightarrow> media_world \<Rightarrow> bool" where
  "hot_tier_ok cfg D w \<longleftrightarrow> world_inv w
     \<and> (\<forall>c\<in>set (clips (mdb w)). sole_owner cfg w c
          \<and> (clip_files (clips_dir cfg) c \<subseteq> paths (disk w) \<or> cl_id c \<in> D \<and> cold_handle c \<noteq> None))"

interpretation eviction: step_inv "evict_within cfg R T" world_inv for cfg R T
  by unfold_locales (auto simp: evict_within_def intro: evict_step_world)

lemma diff_disjoint: "F \<subseteq> A \<Longrightarrow> F \<inter> (A - B) = {} \<Longrightarrow> F \<subseteq> B"
  by blast

lemma evict_step_hot_tier:
  assumes step: "evict_step cfg R now w w'" and ok: "hot_tier_ok cfg D w" and sub: "R \<subseteq> D"
  shows "hot_tier_ok cfg D w'"
proof -
  have w: "world_inv w" and inv: "media_inv (mdb w)" using ok by (simp_all add: hot_tier_ok_def world_inv_def)
  have "sole_owner cfg w' c \<and> (clip_files (clips_dir cfg) c \<subseteq> paths (disk w') \<or> cl_id c \<in> D \<and> cold_handle c \<noteq> None)" if c: "c \<in> set (clips (mdb w'))" for c
  proof (cases "c \<in> set (clips (mdb w))")
    case True
    then have own: "sole_owner cfg w c" and has: "clip_files (clips_dir cfg) c \<subseteq> paths (disk w) \<or> cl_id c \<in> D \<and> cold_handle c \<noteq> None"
      using ok by (simp_all add: hot_tier_ok_def)
    note kept = evict_step_files [OF step inv True c own]
    show ?thesis
    proof (cases "cl_id c \<in> D \<and> cold_handle c \<noteq> None")
      case False
      then have "cold_handle c = None \<or> cl_id c \<notin> R" using sub by blast
      from diff_disjoint [OF _ kept(1) [OF this]] has False kept(2) show ?thesis by blast
    qed (use kept(2) in blast)
  next
    case False
    then have "clip_files (clips_dir cfg) c = {}" using clips_after [OF step c] by blast
    then show ?thesis by (simp add: sole_owner_def)
  qed
  then show ?thesis using evict_step_world [OF step w] by (simp add: hot_tier_ok_def)
qed

interpretation hot_tier: step_inv "evict_within cfg R T" "hot_tier_ok cfg (D \<union> R)" for cfg R T D
  by unfold_locales (auto simp: evict_within_def intro: evict_step_hot_tier)

lemma world_frames [simp]:
  "world (note_level s) = world s" "world (publish_storage_event x s) = publish (Storage_Event (ctl_level (ctl s)) x) (world s)"
  by (simp_all add: note_level_def publish_storage_event_def)

lemma sample_world: "mdb (world (on_sample x s)) = mdb (world s)" "disk (world (on_sample x s)) = disk (world s)"
  "mdb (world (on_reprobe x s)) = mdb (world s)" "disk (world (on_reprobe x s)) = disk (world s)"
  by (simp_all add: on_sample_def on_reprobe_def publish_def Let_def split: prod.split transition.split watermark_level.split)

lemma quiet_within: "T \<noteq> {} \<Longrightarrow> mdb w' = mdb w \<Longrightarrow> disk w' = disk w \<Longrightarrow> evict_within cfg R T w w'"
  by (auto simp: evict_within_def intro: quiet)

text \<open>The clips whose pointer some step of the tick could not clear.\<close>

definition refused_clears :: "'a tick_env_scheme \<Rightarrow> int set" where
  "refused_clears env = {i. \<exists>k. refused_writes env k (Clear_Pointer i)}"

text \<open>One turn of the loop: a ladder step, and perhaps a probe.\<close>

lemma reclaim_turn:
  assumes "pressure_reclaim cfg (locked_files env) (refused_writes env step) (step_now env step) (rr_cursor s) (world s) = (r, cur, w)"
    and "world_inv (world s)"
  shows "(evict_within cfg (refused_clears env) (range (step_now env)))\<^sup>*\<^sup>* (world s) w" "world_inv w"
    "mdb (world (on_reprobe x (s\<lparr>rr_cursor := cur, world := w\<rparr>))) = mdb w"
    "disk (world (on_reprobe x (s\<lparr>rr_cursor := cur, world := w\<rparr>))) = disk w"
proof -
  have "{i. refused_writes env step (Clear_Pointer i)} \<subseteq> refused_clears env" by (auto simp: refused_clears_def)
  from pressure_reclaim_step(1) [OF assms this] obtain w1 where
    "evict_step cfg (refused_clears env) (step_now env step) (world s) w1"
    "evict_step cfg (refused_clears env) (step_now env step) w1 w" by blast
  then have "evict_within cfg (refused_clears env) (range (step_now env)) (world s) w1"
    "evict_within cfg (refused_clears env) (range (step_now env)) w1 w" by (auto simp: evict_within_def)
  then show reach: "(evict_within cfg (refused_clears env) (range (step_now env)))\<^sup>*\<^sup>* (world s) w"
    by (rule converse_rtranclp_into_rtranclp [OF _ r_into_rtranclp])
  show "world_inv w" by (rule eviction.reach_keeps [OF reach assms(2)])
qed (simp_all add: sample_world)

lemma store_size_cong: "mdb w' = mdb w \<Longrightarrow> disk w' = disk w \<Longrightarrow> store_size w' = store_size w \<and> world_inv w' = world_inv w"
  by (simp add: store_size_def world_inv_def)

lemma batch_reaches:
  assumes "world_inv (world s)"
  shows "(evict_within cfg (refused_clears env) (range (step_now env)))\<^sup>*\<^sup>* (world s) (world (reclaim_batch cfg env steps s))"
  using assms
proof (induction steps arbitrary: s)
  case (Cons step steps)
  let ?R = "evict_within cfg (refused_clears env) (range (step_now env))"
  obtain r cur w where pr: "pressure_reclaim cfg (locked_files env) (refused_writes env step) (step_now env step) (rr_cursor s) (world s) = (r, cur, w)"
    by (metis prod_cases3)
  let ?s1 = "s\<lparr>rr_cursor := cur, world := w\<rparr>"
  note turn = reclaim_turn [OF pr Cons.prems]
  note one = turn(1)
  have tail: "?R\<^sup>*\<^sup>* (world s) (world (reclaim_batch cfg env steps u))" if "?R\<^sup>*\<^sup>* w (world u)" for u
    using one that Cons.IH [of u] eviction.reach_keeps [OF that] turn(2) by simp
  have probed: "?R\<^sup>*\<^sup>* w (world (on_reprobe x ?s1))" for x
    using quiet_within turn(3,4) by (metis empty_not_UNIV image_is_empty r_into_rtranclp)
  show ?case
    using one tail [of ?s1] tail [OF probed] rtranclp_trans [OF one probed]
    by (simp add: pr Let_def split: option.split)
qed simp

lemma tick_reaches:
  assumes "world_inv (world s)"
  shows "(evict_within cfg (refused_clears env) (range (step_now env)))\<^sup>*\<^sup>* (world s) (world (safety_tick cfg env s))"
proof (cases "probe env")
  case (Some x)
  have "evict_within cfg (refused_clears env) (range (step_now env)) (world s) (world (on_sample x s))"
    by (rule quiet_within) (simp_all add: sample_world)
  moreover have "world_inv (world (on_sample x s))" using assms by (simp add: world_inv_def sample_world)
  ultimately show ?thesis
    using batch_reaches [of "on_sample x s" cfg env] by (auto simp: safety_tick_def Some Let_def intro: converse_rtranclp_into_rtranclp)
qed (simp add: safety_tick_def)

text \<open>A clip that no instant of the tick makes expendable.\<close>

lemma keeps_clip:
  assumes "(evict_within cfg R T)\<^sup>*\<^sup>* w w'" and "world_inv w" and "c \<in> set (clips (mdb w))" and "\<And>now. now \<in> T \<Longrightarrow> \<not> expendable now c"
  shows "c \<in> set (clips (mdb w')) \<or> cold_handle c \<noteq> None \<and> cooled c \<in> set (clips (mdb w'))"
  using assms(1)
proof (induction rule: rtranclp_induct)
  case (step u v)
  then obtain now where now: "now \<in> T" "evict_step cfg R now u v" by (auto simp: evict_within_def)
  have inv: "media_inv (mdb u)" using eviction.reach_keeps [OF step(1) assms(2)] by (simp add: world_inv_def)
  from step.IH show ?case
  proof
    assume "c \<in> set (clips (mdb u))"
    then show ?thesis using evict_step_keeps [OF now(2) inv] assms(4) [OF now(1)] by blast
  next
    assume cool: "cold_handle c \<noteq> None \<and> cooled c \<in> set (clips (mdb u))"
    then have "\<not> expendable now (cooled c)" by (simp add: expendable_def)
    then show ?thesis using evict_step_keeps [OF now(2) inv, of "cooled c"] cool by auto
  qed
qed (simp add: assms(3))

lemma keeps_file:
  assumes "(evict_within cfg R T)\<^sup>*\<^sup>* w w'" and "world_inv w" and "c \<in> set (clips (mdb w))" and "\<And>now. now \<in> T \<Longrightarrow> \<not> expendable now c"
    and "cold_handle c = None" "sole_owner cfg w c" "clip_files (clips_dir cfg) c \<subseteq> paths (disk w)"
  shows "c \<in> set (clips (mdb w')) \<and> sole_owner cfg w' c \<and> clip_files (clips_dir cfg) c \<subseteq> paths (disk w')"
  using assms(1)
proof (induction rule: rtranclp_induct)
  case (step u v)
  then obtain now where now: "evict_step cfg R now u v" by (auto simp: evict_within_def)
  have inv: "media_inv (mdb u)" using eviction.reach_keeps [OF step(1) assms(2)] by (simp add: world_inv_def)
  have "c \<in> set (clips (mdb v))"
    using keeps_clip [OF rtranclp.rtrancl_into_rtrancl [OF step(1,2)] assms(2-4)] assms(5) by blast
  then show ?case
    using evict_step_files [OF now inv] step.IH diff_disjoint assms(5) by metis
qed (simp add: assms)

section \<open>The end of the ladder\<close>

lemma batch_progress:
  assumes "pressure_reclaim cfg (locked_files env) (refused_writes env step) (step_now env step) (rr_cursor s) (world s) = (Inr True, cur, w)"
    and "world_inv (world s)" and "u = s\<lparr>rr_cursor := cur, world := w\<rparr> \<or> u = on_reprobe x (s\<lparr>rr_cursor := cur, world := w\<rparr>)"
  shows "store_size (world u) < store_size (world s)" "world_inv (world u)"
proof -
  have "mdb (world u) = mdb w \<and> disk (world u) = disk w"
    using assms(3) reclaim_turn(3,4) [OF assms(1,2)] by auto
  then have "store_size (world u) = store_size w" "world_inv (world u) = world_inv w"
    using store_size_cong by blast+
  then show "store_size (world u) < store_size (world s)" "world_inv (world u)"
    using pressure_reclaim_step(2) [OF assms(1,2) subset_UNIV] reclaim_turn(2) [OF assms(1,2)] by simp_all
qed

lemma batch_ends:
  assumes "world_inv (world s)" and "store_size (world s) < length steps"
  shows "reclaim_batch cfg env (steps @ later) s = reclaim_batch cfg env steps s"
  using assms
proof (induction steps arbitrary: s)
  case (Cons step steps)
  obtain r cur w where pr: "pressure_reclaim cfg (locked_files env) (refused_writes env step) (step_now env step) (rr_cursor s) (world s) = (r, cur, w)"
    by (metis prod_cases3)
  let ?s1 = "s\<lparr>rr_cursor := cur, world := w\<rparr>"
  show ?case
  proof (cases "r = Inr True")
    case True
    have tail: "reclaim_batch cfg env (steps @ later) u = reclaim_batch cfg env steps u"
      if "u = ?s1 \<or> u = on_reprobe x ?s1" for u x
      using Cons.IH [of u] batch_progress [OF pr [unfolded True] Cons.prems(1) that] Cons.prems(2) by simp
    then have "reclaim_batch cfg env (steps @ later) ?s1 = reclaim_batch cfg env steps ?s1"
      "reclaim_batch cfg env (steps @ later) (on_reprobe x ?s1) = reclaim_batch cfg env steps (on_reprobe x ?s1)" for x
      by blast+
    then show ?thesis by (simp add: pr Let_def split: option.split)
  qed (simp add: pr)
qed simp

section \<open>Files the ladder may delete\<close>

definition removable :: "safety_config \<Rightarrow> instant \<Rightarrow> media_world \<Rightarrow> path set" where
  "removable cfg now w =
     (\<Union>c\<in>{c \<in> set (clips (mdb w)). expendable now c \<or> hot_handle c \<noteq> None \<and> cold_handle c \<noteq> None}. clip_files (clips_dir cfg) c)
     \<union> (\<lambda>a. join_path (clips_dir cfg) (al_path a)) ` {a \<in> set (alert_clips (mdb w)). delivered (mdb w) a}
     \<union> {dir @ [name] |dir name stem. snapshots_dir cfg = Some dir \<and> jpg_stem name = Some stem \<and> events (alerts (mdb w)) stem = None}"

lemma in_union3: "X \<subseteq> A \<or> X \<subseteq> B \<or> X \<subseteq> C \<Longrightarrow> X \<subseteq> A \<union> B \<union> C"
  by blast

lemma evict_step_removable:
  assumes "evict_step cfg R now w w'" shows "paths (disk w) - paths (disk w') \<subseteq> removable cfg now w"
  using assms
proof (cases rule: evict_step.cases)
  case (alerts S)
  have "(\<lambda>a. join_path (clips_dir cfg) (al_path a)) ` S
      \<subseteq> (\<lambda>a. join_path (clips_dir cfg) (al_path a)) ` {a \<in> set (alert_clips (mdb w)). delivered (mdb w) a}"
    using alerts(1) by (rule image_mono)
  with alerts(7) show ?thesis unfolding removable_def removes_only_def by (intro in_union3) (meson order_trans)
next
  case (snapshots dir)
  have "{dir @ [name] |name stem. jpg_stem name = Some stem \<and> events (alerts (mdb w)) stem = None}
      \<subseteq> {dir @ [name] |dir name stem. snapshots_dir cfg = Some dir \<and> jpg_stem name = Some stem \<and> events (alerts (mdb w)) stem = None}"
    using snapshots(1) by blast
  with snapshots(4) show ?thesis unfolding removable_def removes_only_def by (intro in_union3) (meson order_trans)
next
  case (hard c)
  have "clip_files (clips_dir cfg) c
      \<subseteq> (\<Union>c\<in>{c \<in> set (clips (mdb w)). expendable now c \<or> hot_handle c \<noteq> None \<and> cold_handle c \<noteq> None}. clip_files (clips_dir cfg) c)"
    using hard(1,2) by blast
  with hard(5) show ?thesis unfolding removable_def removes_only_def by (intro in_union3) (meson order_trans)
next
  case (soft c)
  have "clip_files (clips_dir cfg) c
      \<subseteq> (\<Union>c\<in>{c \<in> set (clips (mdb w)). expendable now c \<or> hot_handle c \<noteq> None \<and> cold_handle c \<noteq> None}. clip_files (clips_dir cfg) c)"
    using soft(1,2,3) by blast
  with soft(6) show ?thesis unfolding removable_def removes_only_def by (intro in_union3) (meson order_trans)
next
  case (unlinked c)
  have "clip_files (clips_dir cfg) c
      \<subseteq> (\<Union>c\<in>{c \<in> set (clips (mdb w)). expendable now c \<or> hot_handle c \<noteq> None \<and> cold_handle c \<noteq> None}. clip_files (clips_dir cfg) c)"
    using unlinked(1,2,3) by blast
  with unlinked(7) show ?thesis unfolding removable_def removes_only_def by (intro in_union3) (meson order_trans)
qed (simp add: removable_def)

lemma evict_step_undelivered:
  assumes "evict_step cfg R now w w'" and "a \<in> set (alert_clips (mdb w))" and "\<not> delivered (mdb w) a"
  shows "a \<in> set (alert_clips (mdb w'))"
  using assms(1)
proof (cases rule: evict_step.cases)
  case (alerts S)
  then show ?thesis using assms(2,3) by blast
next
  case (hard c)
  then show ?thesis using cascade_clips [OF hard(1)] assms(2) by simp
qed (use assms(2) in \<open>simp_all add: clear_hot_clips\<close>)

section \<open>The recorder and the signal\<close>

text \<open>The shared level is the controller's, and a paused recorder means that space is short.\<close>

definition recorder_ok :: "safety_state \<Rightarrow> bool" where
  "recorder_ok s \<longleftrightarrow> sig_level (signal s) = ctl_level (ctl s) \<and> (recorder_panic s \<longrightarrow> ctl_level (ctl s) \<noteq> Level_Ok)"

lemma observe_level: "observe x c = (tr, c') \<Longrightarrow> ctl_level c' = next_level c x"
  by (auto simp: observe_def Let_def split: if_splits)

lemma observe_exit: "observe x c = (tr, c') \<Longrightarrow> tr = Exited Level_Ok \<longleftrightarrow> next_level c x = Level_Ok \<and> ctl_level c \<noteq> Level_Ok"
  by (cases "next_level c x"; cases "ctl_level c") (auto simp: observe_def Let_def split: if_splits)

lemma state_frames [simp]:
  "ctl (note_level s) = ctl s" "recorder_panic (note_level s) = recorder_panic s"
  "sig_level (signal (note_level s)) = ctl_level (ctl s)"
  "ctl (publish_storage_event x s) = ctl s" "recorder_panic (publish_storage_event x s) = recorder_panic s"
  "signal (publish_storage_event x s) = signal s"
  by (simp_all add: note_level_def publish_storage_event_def signal_set_def)

lemma sample_levels:
  "ctl_level (ctl (on_sample x s)) = next_level (ctl s) x" "sig_level (signal (on_sample x s)) = next_level (ctl s) x"
  "ctl_level (ctl (on_reprobe x s)) = next_level (ctl s) x" "sig_level (signal (on_reprobe x s)) = next_level (ctl s) x"
  by (auto simp: on_sample_def on_reprobe_def Let_def observe_level split: prod.split transition.split watermark_level.split)

lemma sample_recorder:
  assumes "recorder_ok s" shows "recorder_ok (on_sample x s)" "recorder_ok (on_reprobe x s)"
proof -
  obtain tr c' where ob: "observe x (ctl s) = (tr, c')" by fastforce
  have ok: "recorder_panic s \<longrightarrow> ctl_level (ctl s) \<noteq> Level_Ok" using assms by (simp add: recorder_ok_def)
  have enter: "next_level (ctl s) x = Level_Panic" if "tr = Entered Level_Panic"
    using ob that by (auto simp: observe_def Let_def split: if_splits)
  have "recorder_panic (on_sample x s) \<longrightarrow> next_level (ctl s) x \<noteq> Level_Ok"
    using observe_exit [OF ob] ok enter ob
    by (cases tr) (auto simp: on_sample_def Let_def split: watermark_level.splits)
  then show "recorder_ok (on_sample x s)" by (simp add: recorder_ok_def sample_levels)
  have "recorder_panic (on_reprobe x s) \<longrightarrow> next_level (ctl s) x \<noteq> Level_Ok"
    using observe_exit [OF ob] ok ob by (auto simp: on_reprobe_def Let_def)
  then show "recorder_ok (on_reprobe x s)" by (simp add: recorder_ok_def sample_levels)
qed

lemma batch_recorder: "recorder_ok s \<Longrightarrow> recorder_ok (reclaim_batch cfg env steps s)"
proof (induction steps arbitrary: s)
  case (Cons step steps)
  obtain r cur w where pr: "pressure_reclaim cfg (locked_files env) (refused_writes env step) (step_now env step) (rr_cursor s) (world s) = (r, cur, w)"
    by (metis prod_cases3)
  let ?s1 = "s\<lparr>rr_cursor := cur, world := w\<rparr>"
  have one: "recorder_ok ?s1" using Cons.prems by (simp add: recorder_ok_def)
  then show ?case
    using Cons.IH [OF one] Cons.IH [OF sample_recorder(2) [OF one]] sample_recorder(2) [OF one]
    by (simp add: pr Let_def split: option.split)
qed simp

section \<open>Properties of the safety loop\<close>

text \<open>
  C17. Refinement: whatever the probes report, whichever files cannot be unlinked
  and whichever writes the store refuses, the database and the disk a tick leaves
  are reached by steps of the eviction machine, which may only drop delivered
  alert clips, snapshots of deleted events, expendable clips and hot copies of
  replicated clips; the file of a replicated clip goes without its pointer only
  where the store refused to clear the pointer.
\<close>

theorem tick_refines_eviction:
  "world_inv (world s) \<Longrightarrow>
     (evict_within cfg (refused_clears env) (range (step_now env)))\<^sup>*\<^sup>* (world s) (world (safety_tick cfg env s))"
  by (rule tick_reaches)

text \<open>
  C18. A clip that is being recorded (no end yet, started within the abandonment
  grace of every clock reading of the tick, neither replicated nor quarantined)
  keeps its row, and its file when no other row or snapshot names the same
  file, however short the space is.
\<close>

theorem recording_clip_survives:
  assumes "world_inv (world s)" and "c \<in> set (clips (mdb (world s)))"
    and "cl_ended c = None" and "cold_handle c = None" and "\<not> cold_quarantined c"
    and "\<And>k. step_now env k - millis ABANDONED_CLIP_GRACE_MS \<le> cl_started c"
    and "sole_owner cfg (world s) c" and "clip_files (clips_dir cfg) c \<subseteq> paths (disk (world s))"
  shows "c \<in> set (clips (mdb (world (safety_tick cfg env s))))
     \<and> clip_files (clips_dir cfg) c \<subseteq> paths (disk (world (safety_tick cfg env s)))"
proof -
  have "\<not> expendable now c" if "now \<in> range (step_now env)" for now
    using assms(3,5,6) that by (auto simp: expendable_def not_less)
  then show ?thesis using keeps_file [OF tick_reaches [OF assms(1)] assms(1,2) _ assms(4,7,8)] by blast
qed

text \<open>
  A cold copy is never lost to space pressure: a replicated clip that is not
  quarantined in the hot tier keeps a row with the same cold location.
\<close>

lemma cold_copy_survives:
  assumes "world_inv (world s)" and "c \<in> set (clips (mdb (world s)))" and "cold_handle c \<noteq> None"
    and "cold_quarantined c \<Longrightarrow> hot_handle c = None"
  shows "\<exists>c'\<in>set (clips (mdb (world (safety_tick cfg env s)))).
      cl_id c' = cl_id c \<and> cold_handle c' = cold_handle c \<and> cold_path c' = cold_path c"
proof -
  have "\<not> expendable now c" for now using assms(3,4) by (auto simp: expendable_def)
  then have "c \<in> set (clips (mdb (world (safety_tick cfg env s))))
      \<or> cooled c \<in> set (clips (mdb (world (safety_tick cfg env s))))"
    using keeps_clip [OF tick_reaches [OF assms(1)] assms(1,2)] by blast
  moreover have "cold_path (cooled c) = cold_path c" by (simp add: cooled_def)
  ultimately show ?thesis by (metis cooled_simps(1,4))
qed

text \<open>
  C19. Invariant of the hot tier: when, but for the rows in \<open>D\<close>, every clip row with
  a hot path has its file on disk and no two rows name one file, the same holds
  after a tick but for \<open>D\<close> and the rows whose pointer the store refused to clear in
  this tick, all of which have a cold copy; the schema holds.  With \<open>D\<close> empty and
  no refusal, no row is left pointing at a file the ladder removed; and in every
  case footage without a cold copy keeps its file as long as its row.
\<close>

theorem hot_tier_consistent:
  "hot_tier_ok cfg D (world s) \<Longrightarrow> hot_tier_ok cfg (D \<union> refused_clears env) (world (safety_tick cfg env s))"
  by (rule hot_tier.reach_keeps [OF tick_reaches]) (auto simp: hot_tier_ok_def)

text \<open>
  A row left without its file heals when the ladder meets it again: the unlink
  finds nothing, and the pointer is cleared once the store takes the write.
\<close>

lemma soft_evict_heals:
  assumes "node_at (join_path dir p) (disk w) = None" "join_path dir p \<notin> paths (disk w)"
    and "\<not> refused (Clear_Pointer (cl_id c))" and "c \<in> set (clips (mdb w))" "cold_handle c \<noteq> None"
  shows "\<exists>w'. soft_evict locked refused dir c p w = (Inr True, w') \<and> disk w' = disk w
     \<and> cooled c \<in> set (clips (mdb w'))"
proof -
  have gone: "unlink locked (join_path dir p) w = (Io_Not_Found, w)"
    using assms(1,2) by (simp add: unlink_def remove_file_def exists_file_paths)
  obtain n d where cl: "clear_hot_pointer (cl_id c) (mdb w) = (n, d)" by fastforce
  then have "clips d = map (\<lambda>x. if cl_id x = cl_id c \<and> cold_handle x \<noteq> None then cooled x else x) (clips (mdb w))"
    using clear_hot_clips(1) [of "cl_id c" "mdb w"] by simp
  then have "cooled c \<in> set (clips d)" using assms(4,5) by (auto intro!: image_eqI [of _ _ c])
  then show ?thesis
    using gone cl assms(3) by (cases n) (simp_all add: soft_evict_def publish_def)
qed

text \<open>
  One step of the ladder is at most two eviction steps, and each deletes only files it may delete: those of
  expendable clips, of clips with a cold copy, of ready alert clips whose
  deliveries are all settled, and snapshots of events that are gone.  The row of
  an alert clip that a delivery still needs stays as it is.
\<close>

lemma reclaim_deletes_only_removable:
  assumes "world_inv w" and "pressure_reclaim cfg locked refused now cur w = (r, cur', w')"
  shows "\<exists>w1. paths (disk w) - paths (disk w1) \<subseteq> removable cfg now w \<and> paths (disk w1) - paths (disk w') \<subseteq> removable cfg now w1
     \<and> {a \<in> set (alert_clips (mdb w)). \<not> delivered (mdb w) a} \<subseteq> set (alert_clips (mdb w1))
     \<and> {a \<in> set (alert_clips (mdb w1)). \<not> delivered (mdb w1) a} \<subseteq> set (alert_clips (mdb w'))"
proof -
  obtain w1 where st: "evict_step cfg UNIV now w w1" "evict_step cfg UNIV now w1 w'"
    using pressure_reclaim_step(1) [OF assms(2,1) subset_UNIV] by blast
  show ?thesis
    using evict_step_removable [OF st(1)] evict_step_removable [OF st(2)]
      evict_step_undelivered [OF st(1)] evict_step_undelivered [OF st(2)]
    by (intro exI [of _ w1] conjI subsetI) auto
qed

text \<open>
  C20. Termination of the reclaim loop without its cap: every step that reports
  progress makes the store smaller, so a batch longer than the store's size
  (ready alert clips, files, clip rows and hot pointers) behaves like any
  longer one; it ends on its own.
\<close>

theorem reclaim_batch_terminates:
  "world_inv (world s) \<Longrightarrow> store_size (world s) < length steps \<Longrightarrow>
     reclaim_batch cfg env (steps @ later) s = reclaim_batch cfg env steps s"
  by (rule batch_ends)

text \<open>
  The recorder is never paused without cause: in every tick the level that
  recorders and producers see is the controller's, and a paused recorder means
  that the level is not OK; the tick that sees space recover resumes it.
\<close>

lemma paused_recorder_means_low_space:
  "recorder_ok s \<Longrightarrow> recorder_ok (safety_tick cfg env s)"
  by (simp add: safety_tick_def Let_def sample_recorder batch_recorder split: option.split)

text \<open>
  C21. The probe inside a reclaim batch does not pause the recorder: when it is
  the one that sees free space fall to the panic mark, the controller enters
  panic and the flag stays clear, and the following samples, at the same level,
  find nothing to report.  The recorder keeps writing until the level has left
  panic and entered it again at the head of a tick.
\<close>

theorem reprobe_panic_leaves_recorder_running:
  assumes "\<not> recorder_panic s" and "ctl_level (ctl s) = Level_Low"
    and "x \<le> pct (panic_pct (ctl s))" and "y \<le> pct (panic_pct (ctl s))"
    and "y < recovery_floor (ctl s)"
  shows "ctl_level (ctl (on_reprobe x s)) = Level_Panic \<and> \<not> recorder_panic (on_reprobe x s)
     \<and> ctl_level (ctl (on_sample y (on_reprobe x s))) = Level_Panic \<and> \<not> recorder_panic (on_sample y (on_reprobe x s))"
proof -
  let ?c = "(ctl s)\<lparr>ctl_level := Level_Panic\<rparr>"
  have "observe x (ctl s) = (Entered Level_Panic, ?c)"
    using assms(2,3) by (simp add: observe_def next_level_def)
  then have re: "ctl (on_reprobe x s) = ?c" "recorder_panic (on_reprobe x s) = recorder_panic s"
    by (simp_all add: on_reprobe_def Let_def)
  have "observe y ?c = (Stable, ?c)"
    using assms(4,5) by (simp add: observe_def next_level_def recovery_floor_def not_less not_le)
  then have "ctl (on_sample y (on_reprobe x s)) = ?c \<and> recorder_panic (on_sample y (on_reprobe x s)) = recorder_panic s"
    by (simp add: on_sample_def re Let_def)
  then show ?thesis using assms(1) re by simp
qed

section \<open>A tick at work\<close>

text \<open>
  The two clips of \<open>Clip_Store\<close> on disk, three percent free: the tick pauses the
  recorder, drops the hot copy of the replicated clip and keeps the recording.  The
  store refuses to clear the pointer at the first step, which ends the batch.
\<close>

definition demo_cfg :: safety_config where
  "demo_cfg = \<lparr>clips_dir = [''c''], snapshots_dir = None\<rparr>"

definition demo_state :: safety_state where
  "demo_state = \<lparr>ctl = controller_new 10 5, signal = \<lparr>sig_level = Level_Ok, wakeups = 0\<rparr>, recorder_panic = False,
     rr_cursor = 0, world = \<lparr>mdb = fold media_exec demo_ops fresh_media,
       disk = Directory (Entry ''c'' (Directory (Entry ''a'' (Regular None) (Entry ''b'' (Regular None) Empty))) Empty),
       bus = []\<rparr>, oneshots = 0\<rparr>"

definition demo_env :: tick_env where
  "demo_env = \<lparr>locked_files = (\<lambda>_. False), step_now = (\<lambda>_. 120), probe = Some 3, step_probe = (\<lambda>_. None),
     refused_writes = (\<lambda>k x. x = Clear_Pointer 2 \<and> k = 0)\<rparr>"

definition demo_recording :: clip_row where
  "demo_recording = hd (clips (mdb (world demo_state)))"

definition demo_replicated :: clip_row where
  "demo_replicated = hd (tl (clips (mdb (world demo_state))))"

lemma demo_world: "world_inv (world demo_state)"
  using media.run_keeps [OF fresh_media_inv, of demo_ops] by (simp add: world_inv_def demo_state_def root_dir_def)

lemmas demo_eval = demo_state_def demo_ops_def demo_new_def fresh_media_def open_clip_def close_clip_def
  mark_cold_replicated_def must_hit_def update_clips_def has_backend_def has_clip_def demo_recording_def
  demo_replicated_def demo_env_def demo_cfg_def

lemma demo_clips: "clips (mdb (world demo_state)) = [demo_recording, demo_replicated]"
  by (simp add: demo_eval)

lemma tick_rows:
  "cl_ended demo_recording = None" "cold_handle demo_recording = None" "\<not> cold_quarantined demo_recording"
  "cl_started demo_recording = 0" "hot_path demo_recording = Some ''a''" "cl_id demo_recording = 1"
  "cold_handle demo_replicated = Some ''local''" "\<not> cold_quarantined demo_replicated"
  "hot_path demo_replicated = Some ''b''" "cl_id demo_replicated = 2"
  "alert_clips (mdb (world demo_state)) = []"
  by (simp_all add: demo_eval)

lemma demo_join: "join_path [''c''] ''a'' = [''c'', ''a'']" "join_path [''c''] ''b'' = [''c'', ''b'']"
  by code_simp+

lemma demo_refused: "refused_clears demo_env = {2}"
  by (auto simp: refused_clears_def demo_env_def)

lemma demo_hot_tier: "hot_tier_ok demo_cfg {} (world demo_state)"
proof -
  have "paths (disk (world demo_state)) = {[''c'', ''a''], [''c'', ''b'']}" by (simp add: demo_state_def)
  moreover have "clips_dir demo_cfg = [''c'']" "snapshots_dir demo_cfg = None" by (simp_all add: demo_cfg_def)
  ultimately show ?thesis
    using demo_world by (auto simp: hot_tier_ok_def sole_owner_def demo_clips clip_files_def tick_rows demo_join)
qed

lemma demo_owner:
  "c \<in> set (clips (mdb (world demo_state))) \<Longrightarrow> sole_owner demo_cfg (world demo_state) c"
  "c \<in> set (clips (mdb (world demo_state))) \<Longrightarrow> clip_files (clips_dir demo_cfg) c \<subseteq> paths (disk (world demo_state))"
  using demo_hot_tier unfolding hot_tier_ok_def by blast+

lemma demo_size: "store_size (world demo_state) = 6"
  by (simp add: store_size_def ready_count_def tick_rows(11)) (simp add: demo_eval)

theorem tick_refines_eviction_witness:
  "(evict_within demo_cfg {2} {120})\<^sup>*\<^sup>* (world demo_state) (world (safety_tick demo_cfg demo_env demo_state))"
  using tick_refines_eviction [OF demo_world, of demo_cfg demo_env] by (simp add: demo_refused) (simp add: demo_env_def)

theorem recording_clip_survives_witness:
  "demo_recording \<in> set (clips (mdb (world (safety_tick demo_cfg demo_env demo_state))))
   \<and> [''c'', ''a''] \<in> paths (disk (world (safety_tick demo_cfg demo_env demo_state)))"
proof -
  have mem: "demo_recording \<in> set (clips (mdb (world demo_state)))" by (simp add: demo_clips)
  have "step_now demo_env k - millis ABANDONED_CLIP_GRACE_MS \<le> cl_started demo_recording" for k
    by (simp add: demo_env_def tick_rows ABANDONED_CLIP_GRACE_MS_def MAX_CLIP_DURATION_MS_def millis_def)
  from recording_clip_survives [OF demo_world mem tick_rows(1,2,3) this demo_owner [OF mem]]
  have "demo_recording \<in> set (clips (mdb (world (safety_tick demo_cfg demo_env demo_state))))"
    "clip_files [''c''] demo_recording \<subseteq> paths (disk (world (safety_tick demo_cfg demo_env demo_state)))"
    by (simp_all add: demo_cfg_def)
  then show ?thesis by (simp add: clip_files_def tick_rows demo_join)
qed

theorem hot_tier_consistent_witness: "hot_tier_ok demo_cfg {2} (world (safety_tick demo_cfg demo_env demo_state))"
  using hot_tier_consistent [OF demo_hot_tier, of demo_env] by (simp add: demo_refused)

theorem reclaim_batch_terminates_witness:
  "reclaim_batch demo_cfg demo_env ([0..<7] @ [7..<MAX_RECLAIM_STEPS_PER_TICK]) demo_state
   = reclaim_batch demo_cfg demo_env [0..<7] demo_state"
  using reclaim_batch_terminates [OF demo_world, of "[0..<7]"] by (simp add: demo_size)

definition demo_low :: safety_state where
  "demo_low = demo_state\<lparr>ctl := \<lparr>low_pct = 10, panic_pct = 5, ctl_level = Level_Low\<rparr>\<rparr>"

theorem reprobe_panic_leaves_recorder_running_witness:
  "ctl_level (ctl (on_sample 3 (on_reprobe 4 demo_low))) = Level_Panic
   \<and> \<not> recorder_panic (on_sample 3 (on_reprobe 4 demo_low))"
  using reprobe_panic_leaves_recorder_running [of demo_low 4 3]
  by (simp add: demo_low_def demo_state_def pct_def recovery_floor_def HYSTERESIS_PCT_def)

end
