(* ===== verification/Retention.thy ===== *)
theory Retention
  imports Reclaim_Safety
begin

text \<open>
  The retention sweeper of \<open>nexus-engine/src/retention.rs\<close>: deletion of clips
  past the horizon, the orphan-file scan over the walk of \<open>Disk\<close>, the check for
  rows without a file, and the outbox trim, a loop of bounded deletes that is a
  partial function here and shown to return.  A sweep brings the clock readings
  and the files the system refuses to unlink; store I/O errors are not modelled.
\<close>

section \<open>Definitions\<close>

definition RETENTION_BATCH_SIZE :: int where "RETENTION_BATCH_SIZE = 500"

definition ORPHAN_MIN_AGE :: int where "ORPHAN_MIN_AGE = secs (60 * 60)"

record retention_config =
  rc_clips_dir :: path
  retention_days :: u32
  outbox_retention_days :: u32

record sweep_result =
  sw_evicted :: nat
  sw_orphans :: nat
  sw_missing :: nat

definition days :: "u32 \<Rightarrow> int" where
  "days d = secs (uint d * 86400)"

subsection \<open>The outbox trim\<close>

partial_function (option) prune_loop :: "instant \<Rightarrow> nat \<Rightarrow> outbox_db \<Rightarrow> (nat \<times> outbox_db) option" where
  "prune_loop cutoff acc db =
     (case prune_outbox_terminal_older_than cutoff RETENTION_BATCH_SIZE db of (deleted, db1) \<Rightarrow>
        if int deleted < RETENTION_BATCH_SIZE then Some (acc + deleted, db1)
        else prune_loop cutoff (acc + deleted) db1)"

definition sweep_outbox_once :: "u32 \<Rightarrow> instant \<Rightarrow> outbox_db \<Rightarrow> (nat \<times> outbox_db) option" where
  "sweep_outbox_once d now db = (if d = 0 then Some (0, db) else prune_loop (now - days d) 0 db)"

subsection \<open>The sweep\<close>

fun sweep_stale ::
  "(path \<Rightarrow> bool) \<Rightarrow> path \<Rightarrow> clip_row list \<Rightarrow> nat \<Rightarrow> media_world \<Rightarrow> (reclaim_error + nat) \<times> media_world" where
  "sweep_stale locked dir [] n w = (Inr n, w)"
| "sweep_stale locked dir (c # cs) n w =
     (let w1 = (case hot_path c of None \<Rightarrow> w | Some p \<Rightarrow> snd (unlink locked (join_path dir p) w)) in
      case cascade_delete_clip_metadata (cl_id c) (mdb w1) of
        (Inl e, d) \<Rightarrow> (Inl (Store_Error e), w1)
      | (Inr _, d) \<Rightarrow> sweep_stale locked dir cs (n + 1) (w1\<lparr>mdb := d\<rparr>))"

text \<open>A file whose modification time cannot be read counts as young.\<close>

definition is_younger_than :: "path \<Rightarrow> instant \<Rightarrow> node \<Rightarrow> bool" where
  "is_younger_than p cutoff t = (case map_of (files t) p of Some (Some m) \<Rightarrow> m > cutoff | _ \<Rightarrow> True)"

definition scan_orphan ::
  "(path \<Rightarrow> bool) \<Rightarrow> path set \<Rightarrow> instant \<Rightarrow> path \<Rightarrow> nat \<times> media_world \<Rightarrow> nat \<times> media_world" where
  "scan_orphan locked known young p s =
     (case s of (n, w) \<Rightarrow>
        if p \<in> known then (n, w)
        else if is_younger_than p young (disk w) then (n, w)
        else (case unlink locked p w of (Io_Ok, w1) \<Rightarrow> (n + 1, w1) | (r, w1) \<Rightarrow> (n, w1)))"

definition check_expected ::
  "path \<Rightarrow> path set \<Rightarrow> (path \<rightharpoonup> int) \<Rightarrow> path \<Rightarrow> nat \<times> media_world \<Rightarrow> nat \<times> media_world" where
  "check_expected dir on_disk ready_alert p s =
     (case s of (n, w) \<Rightarrow>
        if p \<in> on_disk then (n, w)
        else if \<not> is_dir (node_at (if p = [] then dir else butlast p) (disk w)) then (n, w)
        else (n + 1,
              case ready_alert p of
                Some i \<Rightarrow> w\<lparr>mdb := mark_alert_clip_evicted i (mdb w)\<rparr>
              | None \<Rightarrow> w))"

text \<open>The sets the scan works with: motion paths, and alert paths with id and state.\<close>

definition motion_paths :: "path \<Rightarrow> media_db \<Rightarrow> path list" where
  "motion_paths dir db = map (join_path dir) (known_clip_paths db)"

definition alert_paths :: "path \<Rightarrow> media_db \<Rightarrow> (path \<times> int \<times> string) list" where
  "alert_paths dir db = map (\<lambda>(i, rel, st). (join_path dir rel, i, st)) (known_alert_clip_paths db)"

definition ready_paths :: "path \<Rightarrow> media_db \<Rightarrow> (path \<times> int) list" where
  "ready_paths dir db = map (\<lambda>(p, i, st). (p, i)) (filter (\<lambda>(p, i, st). st = ''ready'') (alert_paths dir db))"

text \<open>Iterating a hash set visits each path once; a later insert of a key replaces the earlier.\<close>

definition sweep_once ::
  "(path \<Rightarrow> bool) \<Rightarrow> path \<Rightarrow> instant \<Rightarrow> instant \<Rightarrow> media_world \<Rightarrow> (reclaim_error + sweep_result) \<times> media_world" where
  "sweep_once locked dir cutoff young w =
     (case sweep_stale locked dir (clips_older_than cutoff RETENTION_BATCH_SIZE (mdb w)) 0 w of
        (Inl e, w1) \<Rightarrow> (Inl e, w1)
      | (Inr evicted, w1) \<Rightarrow>
          let known = set (motion_paths dir (mdb w1)) \<union> fst ` set (alert_paths dir (mdb w1));
              expected = remdups (motion_paths dir (mdb w1) @ map fst (ready_paths dir (mdb w1)));
              ready_alert = map_of (rev (ready_paths dir (mdb w1)))
          in case walk_clip_files dir (disk w1) of
               Inl e \<Rightarrow> (Inl Io_Fault, w1)
             | Inr on_disk \<Rightarrow>
                 let (orphans, w2) = fold (scan_orphan locked known young) on_disk (0, w1);
                     (missing, w3) = fold (check_expected dir (set on_disk) ready_alert) expected (0, w2)
                 in (Inr \<lparr>sw_evicted = evicted, sw_orphans = orphans, sw_missing = missing\<rparr>, w3))"

text \<open>One turn of \<open>run_retention\<close>: the clip sweep, whatever it returns, then the outbox trim.\<close>

definition retention_tick ::
  "retention_config \<Rightarrow> (path \<Rightarrow> bool) \<Rightarrow> instant \<Rightarrow> instant \<Rightarrow> instant \<Rightarrow> media_world \<Rightarrow> media_world option" where
  "retention_tick cfg locked now1 now2 now3 w =
     (case sweep_once locked (rc_clips_dir cfg) (now1 - days (retention_days cfg)) (now2 - ORPHAN_MIN_AGE) w of
        (r, w1) \<Rightarrow>
          (case sweep_outbox_once (outbox_retention_days cfg) now3 (alerts (mdb w1)) of
             None \<Rightarrow> None
           | Some (acc, db) \<Rightarrow> Some (w1\<lparr>mdb := (mdb w1)\<lparr>alerts := db\<rparr>\<rparr>)))"

section \<open>The outbox trim returns\<close>

lemma image_filter_mem: "S \<subseteq> f ` set xs \<Longrightarrow> f ` set (filter (\<lambda>x. f x \<in> S) xs) = S"
  by auto

lemma length_card_image: "distinct (map f xs) \<Longrightarrow> length xs = card (f ` set xs)"
  by (simp add: distinct_map card_image distinct_card)

lemma prune_batch:
  assumes "table_inv db" and "prune_outbox_terminal_older_than cutoff RETENTION_BATCH_SIZE db = (n, db1)"
  shows "filter (\<lambda>r. \<not> prunable cutoff r) (outbox db1) = filter (\<lambda>r. \<not> prunable cutoff r) (outbox db)"
    "length (outbox db1) + n = length (outbox db)" "db1 = db\<lparr>outbox := outbox db1\<rparr>"
    "int n < RETENTION_BATCH_SIZE \<Longrightarrow> outbox db1 = filter (\<lambda>r. \<not> prunable cutoff r) (outbox db)"
    "table_inv db1"
proof -
  let ?ids = "take 500 (map row_id (filter (prunable cutoff) (outbox db)))"
  have db1: "db1 = db\<lparr>outbox := filter (\<lambda>r. row_id r \<notin> set ?ids) (outbox db)\<rparr>"
    and n: "n = length (outbox db) - length (filter (\<lambda>r. row_id r \<notin> set ?ids) (outbox db))"
    using assms(2) by (simp_all add: prune_outbox_terminal_older_than_def sql_limit_def RETENTION_BATCH_SIZE_def Let_def)
  have dist: "distinct (map row_id (outbox db))"
    using assms(1) by (simp add: table_inv_def strict_sorted_iff)
  have hit: "prunable cutoff r" if r: "r \<in> set (outbox db)" and ids: "row_id r \<in> set ?ids" for r
  proof -
    obtain r' where "r' \<in> set (outbox db)" "prunable cutoff r'" "row_id r' = row_id r"
      using in_set_takeD [OF ids] by auto
    then show ?thesis using r dist by (metis distinct_map inj_onD)
  qed
  have "filter (\<lambda>r. \<not> prunable cutoff r) (filter (\<lambda>r. row_id r \<notin> set ?ids) (outbox db))
      = filter (\<lambda>r. \<not> prunable cutoff r) (outbox db)"
    unfolding filter_filter by (rule filter_cong [OF refl]) (use hit in blast)
  then show "filter (\<lambda>r. \<not> prunable cutoff r) (outbox db1) = filter (\<lambda>r. \<not> prunable cutoff r) (outbox db)"
    by (simp only: db1) simp
  have "length (filter (\<lambda>r. row_id r \<notin> set ?ids) (outbox db)) \<le> length (outbox db)" by (rule length_filter_le)
  then show len: "length (outbox db1) + n = length (outbox db)" by (simp only: db1 n) simp
  show "db1 = db\<lparr>outbox := outbox db1\<rparr>" by (simp add: db1)
  show "table_inv db1" using prune_keeps(1) [OF assms(1), of cutoff RETENTION_BATCH_SIZE] assms(2) by simp
  show "outbox db1 = filter (\<lambda>r. \<not> prunable cutoff r) (outbox db)" if "int n < RETENTION_BATCH_SIZE"
  proof -
    have "n = length (filter (\<lambda>r. row_id r \<in> set ?ids) (outbox db))"
      using sum_length_filter_compl [of "\<lambda>r. row_id r \<in> set ?ids" "outbox db"] by (simp only: n)
    also have "\<dots> = card (row_id ` set (filter (\<lambda>r. row_id r \<in> set ?ids) (outbox db)))"
      by (rule length_card_image) (rule distinct_map_filter [OF dist])
    also have "row_id ` set (filter (\<lambda>r. row_id r \<in> set ?ids) (outbox db)) = set ?ids"
      by (rule image_filter_mem) (rule order_trans [OF set_take_subset], simp, blast)
    also have "card (set ?ids) = length ?ids"
      by (rule distinct_card) (rule distinct_take, rule distinct_map_filter [OF dist])
    finally have "length ?ids < 500" using that by (simp add: RETENTION_BATCH_SIZE_def)
    then have "?ids = map row_id (filter (prunable cutoff) (outbox db))" by simp
    then have mem: "set ?ids = row_id ` {r \<in> set (outbox db). prunable cutoff r}" by simp
    have "filter (\<lambda>r. row_id r \<notin> set ?ids) (outbox db) = filter (\<lambda>r. \<not> prunable cutoff r) (outbox db)"
      by (rule filter_cong [OF refl]) (use hit mem in blast)
    then show ?thesis by (simp only: db1) simp
  qed
qed

lemma prune_loop_returns:
  "table_inv db \<Longrightarrow> prune_loop cutoff acc db =
     Some (acc + length (filter (prunable cutoff) (outbox db)),
           db\<lparr>outbox := filter (\<lambda>r. \<not> prunable cutoff r) (outbox db)\<rparr>)"
proof (induction "length (outbox db)" arbitrary: acc db rule: less_induct)
  case less
  obtain n db1 where pr: "prune_outbox_terminal_older_than cutoff RETENTION_BATCH_SIZE db = (n, db1)" by fastforce
  note b = prune_batch [OF less.prems pr]
  have split: "length (filter (prunable cutoff) xs) + length (filter (\<lambda>r. \<not> prunable cutoff r) xs) = length xs" for xs
    by (rule sum_length_filter_compl)
  show ?case
  proof (cases "int n < RETENTION_BATCH_SIZE")
    case True
    have "length (filter (prunable cutoff) (outbox db)) = n"
      using split [of "outbox db"] b(2) b(4) [OF True] by simp
    then show ?thesis using True b(3) b(4) [OF True] by (subst prune_loop.simps) (simp add: pr)
  next
    case False
    then have "0 < n" by (simp add: RETENTION_BATCH_SIZE_def)
    then have "prune_loop cutoff (acc + n) db1 = Some (acc + n + length (filter (prunable cutoff) (outbox db1)),
        db1\<lparr>outbox := filter (\<lambda>r. \<not> prunable cutoff r) (outbox db1)\<rparr>)"
      using less.hyps b(2,5) by simp
    moreover have "n + length (filter (prunable cutoff) (outbox db1)) = length (filter (prunable cutoff) (outbox db))"
      using split [of "outbox db"] split [of "outbox db1"] b(1,2) by simp
    moreover have "db1\<lparr>outbox := ys\<rparr> = db\<lparr>outbox := ys\<rparr>" for ys
      by (subst b(3)) simp
    ultimately show ?thesis using False by (subst prune_loop.simps) (simp add: pr add.assoc b(1))
  qed
qed

section \<open>The sweep\<close>

subsection \<open>Clips past the horizon\<close>

lemma unlink_paths:
  assumes "unlink locked p w = (r, w')" and "root_dir (disk w)"
  shows "paths (disk w') = {q \<in> paths (disk w). q = p \<longrightarrow> locked p}"
    "wf_node (disk w) \<Longrightarrow> wf_node (disk w')"
    "q \<in> paths (disk w') \<Longrightarrow> map_of (files (disk w')) q = map_of (files (disk w)) q"
proof -
  obtain t where t: "remove_file locked p (disk w) = (r, t)" and w': "disk w' = t"
    using assms(1) by (auto simp: unlink_def split: prod.splits)
  note rf = remove_file_paths [OF t assms(2) [unfolded root_dir_iff]]
  show eq: "paths (disk w') = {q \<in> paths (disk w). q = p \<longrightarrow> locked p}"
    using rf(1-4) unfolding w' by (cases r) auto
  have cases: "t = disk w \<or> t = remove_at p (disk w) \<and> p \<in> paths (disk w)"
    using t by (auto simp: remove_file_def exists_file_paths split: if_splits)
  show "wf_node (disk w) \<Longrightarrow> wf_node (disk w')" using cases wf_remove by (auto simp: w')
  have "p \<noteq> []" if "p \<in> paths (disk w)"
    using that assms(2) files_Nil unfolding root_dir_iff by fastforce
  then have fs: "files t = files (disk w) \<or> files t = filter (\<lambda>(q, m). q \<noteq> p) (files (disk w))"
    using cases files_remove(1) by metis
  show "map_of (files (disk w')) q = map_of (files (disk w)) q" if "q \<in> paths (disk w')"
  proof -
    have "q \<noteq> p \<or> files t = files (disk w)" using that fs by (auto simp: w')
    then show ?thesis using fs by (auto simp: w' map_of_without)
  qed
qed

lemma cut_trans:
  "B = {q \<in> A. q \<in> F \<longrightarrow> L q} \<Longrightarrow> C = {q \<in> B. q \<in> G \<longrightarrow> L q} \<Longrightarrow> C = {q \<in> A. q \<in> F \<union> G \<longrightarrow> L q}"
  "B = {q \<in> A. q \<in> F \<longrightarrow> L q} \<Longrightarrow> C = {q \<in> B. q \<in> G \<longrightarrow> L q} \<Longrightarrow> \<forall>q\<in>B. g q = f q \<Longrightarrow> \<forall>q\<in>C. h q = g q
     \<Longrightarrow> \<forall>q\<in>C. h q = f q"
  by auto

text \<open>What the first phase leaves: the rows not listed, and the files that are locked or not listed.\<close>

lemma stale_phase:
  assumes "sweep_stale locked dir cs n w = (r, w')" and "world_inv w" and "wf_node (disk w)"
    and "set cs \<subseteq> set (clips (mdb w))" and "distinct (map cl_id cs)"
  shows "r = Inr (n + length cs) \<and> world_inv w' \<and> wf_node (disk w')
    \<and> clips (mdb w') = filter (\<lambda>c. cl_id c \<notin> cl_id ` set cs) (clips (mdb w))
    \<and> alert_clips (mdb w') = alert_clips (mdb w)
    \<and> paths (disk w') = {q \<in> paths (disk w). q \<in> (\<Union>c\<in>set cs. clip_files dir c) \<longrightarrow> locked q}
    \<and> (\<forall>q\<in>paths (disk w'). map_of (files (disk w')) q = map_of (files (disk w)) q)"
  using assms
proof (induction cs arbitrary: n w)
  case (Cons c cs)
  define u where "u = (case hot_path c of None \<Rightarrow> w | Some p \<Rightarrow> snd (unlink locked (join_path dir p) w))"
  define v where "v = u\<lparr>mdb := snd (cascade_delete_clip_metadata (cl_id c) (mdb w))\<rparr>"
  have root: "root_dir (disk w)" and inv: "media_inv (mdb w)" using Cons.prems(2) by (simp_all add: world_inv_def)
  have "mdb u = mdb w \<and> root_dir (disk u) \<and> wf_node (disk u)
      \<and> paths (disk u) = {q \<in> paths (disk w). q \<in> clip_files dir c \<longrightarrow> locked q}
      \<and> (\<forall>q\<in>paths (disk u). map_of (files (disk u)) q = map_of (files (disk w)) q)"
  proof (cases "hot_path c")
    case (Some p)
    obtain x t where t: "unlink locked (join_path dir p) w = (x, t)" by fastforce
    then have "u = t" by (simp add: u_def Some)
    then show ?thesis
      using unlink_frame(1,3) [OF t root] unlink_paths [OF t root] Cons.prems(3) by (simp add: Some clip_files_def)
  qed (use root Cons.prems(3) in \<open>simp add: clip_files_def u_def\<close>)
  then have db: "mdb u = mdb w" and u: "root_dir (disk u)" "wf_node (disk u)"
    and up: "paths (disk u) = {q \<in> paths (disk w). q \<in> clip_files dir c \<longrightarrow> locked q}"
    and um: "\<forall>q\<in>paths (disk u). map_of (files (disk u)) q = map_of (files (disk w)) q"
    by - (elim conjE, assumption)+
  have c: "c \<in> set (clips (mdb w))" using Cons.prems(4) by simp
  then have hit: "cascade_delete_clip_metadata (cl_id c) (mdb u) = (Inr (), snd (cascade_delete_clip_metadata (cl_id c) (mdb w)))"
    by (simp add: db cascade_delete_clip_metadata_def has_clip_iff Let_def)
  have rest: "sweep_stale locked dir cs (n + 1) v = (r, w')"
    using Cons.prems(1) hit by (simp add: Let_def v_def flip: u_def)
  have rows: "clips (mdb v) = filter (\<lambda>x. cl_id x \<noteq> cl_id c) (clips (mdb w))" "alert_clips (mdb v) = alert_clips (mdb w)"
    using cascade_clips [OF c] by (simp_all add: v_def)
  have fresh: "x \<in> set cs \<Longrightarrow> cl_id x \<noteq> cl_id c" for x using Cons.prems(5) by (auto simp: image_iff)
  have same: "disk v = disk u" by (simp add: v_def)
  have wv: "world_inv v" using u inv_cascade [OF inv] by (simp add: world_inv_def v_def)
  have wfv: "wf_node (disk v)" using u by (simp add: same)
  have sub: "set cs \<subseteq> set (clips (mdb v))" "distinct (map cl_id cs)"
    using Cons.prems(4,5) fresh by (auto simp: rows)
  note IH = Cons.IH [OF rest wv wfv sub]
  have ip: "paths (disk w') = {q \<in> paths (disk u). q \<in> (\<Union>c\<in>set cs. clip_files dir c) \<longrightarrow> locked q}"
    and im: "\<forall>q\<in>paths (disk w'). map_of (files (disk w')) q = map_of (files (disk u)) q"
    using IH unfolding same by - (elim conjE, assumption)+
  have "r = Inr (n + length (c # cs)) \<and> world_inv w' \<and> wf_node (disk w')
      \<and> clips (mdb w') = filter (\<lambda>x. cl_id x \<notin> cl_id ` insert c (set cs)) (clips (mdb w))
      \<and> alert_clips (mdb w') = alert_clips (mdb w)"
    using IH by (simp add: rows)
  moreover have "paths (disk w') = {q \<in> paths (disk w). q \<in> clip_files dir c \<union> (\<Union>c\<in>set cs. clip_files dir c) \<longrightarrow> locked q}"
    by (rule cut_trans(1) [OF up ip])
  moreover have "\<forall>q\<in>paths (disk w'). map_of (files (disk w')) q = map_of (files (disk w)) q"
    by (rule cut_trans(2) [OF up ip um im])
  ultimately show ?case unfolding list.set UN_insert by - (intro conjI; elim conjE; assumption)
qed simp

subsection \<open>Orphans\<close>

lemma younger_cong: "map_of (files t) q = map_of (files t') q \<Longrightarrow> is_younger_than q c t = is_younger_than q c t'"
  by (simp add: is_younger_than_def)

definition orphaned :: "path set \<Rightarrow> instant \<Rightarrow> node \<Rightarrow> path set" where
  "orphaned known young t = {q. q \<notin> known \<and> \<not> is_younger_than q young t}"

lemma cut_cong:
  "C = {q \<in> B. q \<in> X \<inter> O' \<longrightarrow> L q} \<Longrightarrow> (\<And>q. q \<in> B \<Longrightarrow> q \<in> O' \<longleftrightarrow> q \<in> O1) \<Longrightarrow> C = {q \<in> B. q \<in> X \<inter> O1 \<longrightarrow> L q}"
  by auto

lemma insert_inter: "set (x # xs) \<inter> S = {x} \<inter> S \<union> set xs \<inter> S"
  by auto

lemma scan_one:
  assumes "scan_orphan locked known young p (n, w) = (n1, u)" and "root_dir (disk w)" and "wf_node (disk w)"
  shows "mdb u = mdb w" "root_dir (disk u)" "wf_node (disk u)"
    "paths (disk u) = {q \<in> paths (disk w). q \<in> {p} \<inter> orphaned known young (disk w) \<longrightarrow> locked q}"
    "\<forall>q\<in>paths (disk u). map_of (files (disk u)) q = map_of (files (disk w)) q"
proof -
  obtain x t where t: "unlink locked p w = (x, t)" by fastforce
  have out: "u = (if p \<in> orphaned known young (disk w) then t else w)"
    using assms(1) t by (cases x) (simp_all add: scan_orphan_def orphaned_def split: if_splits)
  note fr = unlink_frame(1,3) [OF t assms(2)] unlink_paths [OF t assms(2)]
  show "mdb u = mdb w" "root_dir (disk u)" "wf_node (disk u)" using out fr assms(2,3) by simp_all
  show "\<forall>q\<in>paths (disk u). map_of (files (disk u)) q = map_of (files (disk w)) q" using out fr(5) by simp
  show "paths (disk u) = {q \<in> paths (disk w). q \<in> {p} \<inter> orphaned known young (disk w) \<longrightarrow> locked q}"
    using out fr(3) by (cases "p \<in> orphaned known young (disk w)") auto
qed

lemma orphan_phase:
  assumes "fold (scan_orphan locked known young) ps (n, w) = (n', w')" and "root_dir (disk w)" and "wf_node (disk w)"
  shows "mdb w' = mdb w \<and> root_dir (disk w') \<and> wf_node (disk w')
    \<and> paths (disk w') = {q \<in> paths (disk w). q \<in> set ps \<inter> orphaned known young (disk w) \<longrightarrow> locked q}
    \<and> (\<forall>q\<in>paths (disk w'). map_of (files (disk w')) q = map_of (files (disk w)) q)"
  using assms
proof (induction ps arbitrary: n w)
  case (Cons p ps)
  obtain n1 u where one: "scan_orphan locked known young p (n, w) = (n1, u)" by fastforce
  note st = scan_one [OF one Cons.prems(2,3)]
  have rest: "fold (scan_orphan locked known young) ps (n1, u) = (n', w')" using Cons.prems(1) one by simp
  note IH = Cons.IH [OF rest st(2,3)]
  have ip: "paths (disk w') = {q \<in> paths (disk u). q \<in> set ps \<inter> orphaned known young (disk u) \<longrightarrow> locked q}"
    and im: "\<forall>q\<in>paths (disk w'). map_of (files (disk w')) q = map_of (files (disk u)) q"
    using IH by - (elim conjE, assumption)+
  have same: "q \<in> orphaned known young (disk u) \<longleftrightarrow> q \<in> orphaned known young (disk w)" if "q \<in> paths (disk u)" for q
    using younger_cong [OF st(5) [rule_format, OF that]] by (simp add: orphaned_def)
  note ip' = cut_cong [OF ip same]
  have "mdb w' = mdb w \<and> root_dir (disk w') \<and> wf_node (disk w')" using IH st(1) by simp
  moreover have "paths (disk w') = {q \<in> paths (disk w).
      q \<in> {p} \<inter> orphaned known young (disk w) \<union> set ps \<inter> orphaned known young (disk w) \<longrightarrow> locked q}"
    by (rule cut_trans(1) [OF st(4) ip'])
  moreover have "\<forall>q\<in>paths (disk w'). map_of (files (disk w')) q = map_of (files (disk w)) q"
    by (rule cut_trans(2) [OF st(4) ip' st(5) im])
  ultimately show ?case unfolding insert_inter by - (intro conjI; (elim conjE)?; assumption)
qed simp

subsection \<open>Rows without a file\<close>

lemma expected_phase:
  assumes "fold (check_expected dir D ready) ps (n, w) = (n', w')" and "media_inv (mdb w)"
  shows "media_inv (mdb w')" "disk w' = disk w" "clips (mdb w') = clips (mdb w)"
    "map (\<lambda>a. (al_id a, al_path a)) (alert_clips (mdb w')) = map (\<lambda>a. (al_id a, al_path a)) (alert_clips (mdb w))"
    "a \<in> set (alert_clips (mdb w')) \<Longrightarrow> is_ready a \<Longrightarrow> a \<in> set (alert_clips (mdb w))
       \<and> (\<forall>p\<in>set ps - D. ready p = Some (al_id a) \<longrightarrow> \<not> is_dir (node_at (if p = [] then dir else butlast p) (disk w)))"
proof (atomize (full), use assms in \<open>induction ps arbitrary: n w\<close>)
  case (Cons p ps)
  define gone where "gone \<longleftrightarrow> p \<notin> D \<and> is_dir (node_at (if p = [] then dir else butlast p) (disk w))"
  define u where "u = (case ready p of Some i \<Rightarrow> if gone then w\<lparr>mdb := mark_alert_clip_evicted i (mdb w)\<rparr> else w | None \<Rightarrow> w)"
  have one: "\<exists>k. check_expected dir D ready p (n, w) = (k, u)"
    by (simp add: check_expected_def u_def gone_def split: option.split)
  then obtain k where rest: "fold (check_expected dir D ready) ps (k, u) = (n', w')" using Cons.prems(1) by auto
  have u: "media_inv (mdb u)" "disk u = disk w" "clips (mdb u) = clips (mdb w)"
    "map (\<lambda>a. (al_id a, al_path a)) (alert_clips (mdb u)) = map (\<lambda>a. (al_id a, al_path a)) (alert_clips (mdb w))"
    using Cons.prems(2) inv_alert_row_updates(3) mark_evicted_frame
    by (auto simp: u_def same_footage_def mark_evicted_rows split: option.split)
  have keep: "a \<in> set (alert_clips (mdb w)) \<and> (gone \<longrightarrow> ready p \<noteq> Some (al_id a))"
    if "a \<in> set (alert_clips (mdb u))" "is_ready a"
  proof (cases "ready p")
    case (Some i)
    show ?thesis
    proof (cases gone)
      case True
      then have "a \<in> set (filter is_ready (alert_clips (mark_alert_clip_evicted i (mdb w))))"
        using that by (simp add: u_def Some)
      then show ?thesis unfolding ready_after_mark by (simp add: Some)
    qed (use that in \<open>simp add: u_def Some\<close>)
  qed (use that in \<open>simp add: u_def\<close>)
  note IH = Cons.IH [OF rest u(1)]
  have "a \<in> set (alert_clips (mdb w)) \<and> (\<forall>q\<in>set (p # ps) - D. ready q = Some (al_id a)
      \<longrightarrow> \<not> is_dir (node_at (if q = [] then dir else butlast q) (disk w)))" if a: "a \<in> set (alert_clips (mdb w'))" "is_ready a"
  proof -
    have "a \<in> set (alert_clips (mdb u))"
      and tail: "\<forall>q\<in>set ps - D. ready q = Some (al_id a) \<longrightarrow> \<not> is_dir (node_at (if q = [] then dir else butlast q) (disk w))"
      using IH a unfolding u(2) by blast+
    then show ?thesis using keep a(2) unfolding gone_def by auto
  qed
  then show ?case using IH unfolding u(2-4) by blast
qed simp

subsection \<open>The whole sweep\<close>

text \<open>The files that rows name: hot copies of clips, alert clips being built or ready.\<close>

definition referenced :: "path \<Rightarrow> media_db \<Rightarrow> path set" where
  "referenced dir db = (\<Union>c\<in>set (clips db). clip_files dir c)
     \<union> {join_path dir (al_path a) |a. a \<in> set (alert_clips db) \<and> al_state a \<in> {''building'', ''ready''}}"

lemma motion_paths_set: "set (motion_paths dir db) = (\<Union>c\<in>set (clips db). clip_files dir c)"
  by (force simp: motion_paths_def known_clip_paths_def List.map_filter_def clip_files_def split: option.splits)

lemma known_referenced: "set (motion_paths dir db) \<union> fst ` set (alert_paths dir db) = referenced dir db"
proof -
  have "fst ` set (alert_paths dir db)
      = {join_path dir (al_path a) |a. a \<in> set (alert_clips db) \<and> al_state a \<in> {''building'', ''ready''}}"
    by (auto simp: alert_paths_def known_alert_clip_paths_def image_iff)
  then show ?thesis by (simp only: referenced_def motion_paths_set)
qed

lemma referenced_cong: "clips d = clips d' \<Longrightarrow> alert_clips d = alert_clips d' \<Longrightarrow> referenced dir d = referenced dir d'"
  by (simp add: referenced_def)

lemma stale_rows:
  assumes "media_inv db"
  shows "set (clips_older_than cutoff limit db) \<subseteq> set (clips db)" "distinct (map cl_id (clips_older_than cutoff limit db))"
proof -
  show "set (clips_older_than cutoff limit db) \<subseteq> set (clips db)"
    using set_sql_limit by (fastforce simp: clips_older_than_def)
  have "distinct (map cl_id (filter (\<lambda>c. cl_started c < cutoff) (clips db)))"
    using inv_parts(1) [OF assms] by (rule distinct_map_filter)
  then have "distinct (map cl_id (sort_key cl_started (filter (\<lambda>c. cl_started c < cutoff) (clips db))))"
    by (simp add: distinct_map)
  then show "distinct (map cl_id (clips_older_than cutoff limit db))"
    unfolding clips_older_than_def by (rule distinct_map_limit)
qed

text \<open>The phases of a sweep that succeeds.\<close>

lemma sweep_phases:
  assumes "sweep_once locked dir cutoff young w = (Inr res, w')" and "world_inv w" and "wf_node (disk w)"
  obtains u v ps no nm where
    "sweep_stale locked dir (clips_older_than cutoff RETENTION_BATCH_SIZE (mdb w)) 0 w = (Inr (sw_evicted res), u)"
    "walk_clip_files dir (disk u) = Inr ps"
    "fold (scan_orphan locked (referenced dir (mdb u)) young) ps (0, u) = (no, v)"
    "fold (check_expected dir (set ps) (map_of (rev (ready_paths dir (mdb u)))))
       (remdups (motion_paths dir (mdb u) @ map fst (ready_paths dir (mdb u)))) (0, v) = (nm, w')"
proof -
  obtain r u where st: "sweep_stale locked dir (clips_older_than cutoff RETENTION_BATCH_SIZE (mdb w)) 0 w = (r, u)"
    by fastforce
  have inv: "media_inv (mdb w)" using assms(2) by (simp add: world_inv_def)
  have r: "r = Inr (length (clips_older_than cutoff RETENTION_BATCH_SIZE (mdb w)))"
    using stale_phase [OF st assms(2,3) stale_rows [OF inv]] by simp
  obtain ps where ps: "walk_clip_files dir (disk u) = Inr ps"
    using assms(1) by (cases "walk_clip_files dir (disk u)") (simp_all add: sweep_once_def st r Let_def)
  obtain no v where sc: "fold (scan_orphan locked (referenced dir (mdb u)) young) ps (0, u) = (no, v)" by fastforce
  obtain nm z where ce: "fold (check_expected dir (set ps) (map_of (rev (ready_paths dir (mdb u)))))
       (remdups (motion_paths dir (mdb u) @ map fst (ready_paths dir (mdb u)))) (0, v) = (nm, z)" by fastforce
  have "(Inr res, w') = (Inr \<lparr>sw_evicted = length (clips_older_than cutoff RETENTION_BATCH_SIZE (mdb w)),
      sw_orphans = no, sw_missing = nm\<rparr>, z)"
    using assms(1) unfolding sweep_once_def st r prod.case sum.case Let_def known_referenced ps sc ce by simp
  then show thesis using that st r ps sc ce by simp
qed

lemma filter_by_id:
  assumes "distinct (map f xs)" and "set ys \<subseteq> set xs"
  shows "filter (\<lambda>x. f x \<notin> f ` set ys) xs = filter (\<lambda>x. x \<notin> set ys) xs"
proof (rule filter_cong [OF refl])
  fix x assume "x \<in> set xs"
  then show "f x \<notin> f ` set ys \<longleftrightarrow> x \<notin> set ys" using assms by (auto simp: distinct_map dest: inj_onD)
qed

lemma cut_compose:
  assumes "B = {q \<in> A. q \<in> F \<longrightarrow> L q}" "C = {q \<in> B. q \<in> P \<inter> O1 \<longrightarrow> L q}" "P = {q \<in> B. pre q}"
    and "\<And>q. q \<in> B \<Longrightarrow> q \<in> O1 \<longleftrightarrow> \<not> R q"
  shows "C = {q \<in> A. L q \<or> q \<notin> F \<and> (pre q \<longrightarrow> R q)}"
  using assms by auto

lemma sweep_effect:
  assumes "sweep_once locked dir cutoff young w = (Inr res, w')" and "world_inv w" and "wf_node (disk w)"
  defines "stale \<equiv> clips_older_than cutoff RETENTION_BATCH_SIZE (mdb w)"
  shows "sw_evicted res = length stale" "clips (mdb w') = filter (\<lambda>c. c \<notin> set stale) (clips (mdb w))" "media_inv (mdb w')"
    "paths (disk w') = {q \<in> paths (disk w). locked q \<or> q \<notin> (\<Union>c\<in>set stale. clip_files dir c)
       \<and> (prefix dir q \<longrightarrow> q \<in> referenced dir ((mdb w)\<lparr>clips := clips (mdb w')\<rparr>) \<or> is_younger_than q young (disk w))}"
proof -
  obtain u v ps no nm where st: "sweep_stale locked dir stale 0 w = (Inr (sw_evicted res), u)"
    and ps: "walk_clip_files dir (disk u) = Inr ps"
    and sc: "fold (scan_orphan locked (referenced dir (mdb u)) young) ps (0, u) = (no, v)"
    and ce: "fold (check_expected dir (set ps) (map_of (rev (ready_paths dir (mdb u)))))
       (remdups (motion_paths dir (mdb u) @ map fst (ready_paths dir (mdb u)))) (0, v) = (nm, w')"
    using sweep_phases [OF assms(1-3)] unfolding stale_def by metis
  have inv: "media_inv (mdb w)" using assms(2) by (simp add: world_inv_def)
  note sub = stale_rows [OF inv, of cutoff RETENTION_BATCH_SIZE, folded stale_def]
  note one = stale_phase [OF st assms(2,3) sub]
  show "sw_evicted res = length stale" using one by simp
  have u: "world_inv u" "wf_node (disk u)" "alert_clips (mdb u) = alert_clips (mdb w)"
    and ucl: "clips (mdb u) = filter (\<lambda>c. cl_id c \<notin> cl_id ` set stale) (clips (mdb w))"
    and up: "paths (disk u) = {q \<in> paths (disk w). q \<in> (\<Union>c\<in>set stale. clip_files dir c) \<longrightarrow> locked q}"
    and um: "\<forall>q\<in>paths (disk u). map_of (files (disk u)) q = map_of (files (disk w)) q"
    using one by - (elim conjE, assumption)+
  have "root_dir (disk u)" and uinv: "media_inv (mdb u)" using u(1) by (simp_all add: world_inv_def)
  note two = orphan_phase [OF sc this(1) u(2)]
  have vdb: "mdb v = mdb u"
    and vp: "paths (disk v) = {q \<in> paths (disk u). q \<in> set ps \<inter> orphaned (referenced dir (mdb u)) young (disk u) \<longrightarrow> locked q}"
    using two by - (elim conjE, assumption)+
  note three = expected_phase [OF ce] 
  have w': "clips (mdb w') = clips (mdb u)" "disk w' = disk v" "media_inv (mdb w')"
    using three(1-3) uinv by (simp_all add: vdb)
  show "media_inv (mdb w')" by (rule w'(3))
  show "clips (mdb w') = filter (\<lambda>c. c \<notin> set stale) (clips (mdb w))"
    unfolding w'(1) ucl by (rule filter_by_id [OF inv_parts(1) [OF inv] sub(1)])
  have ref: "referenced dir (mdb u) = referenced dir ((mdb w)\<lparr>clips := clips (mdb w')\<rparr>)"
    by (rule referenced_cong) (simp_all add: w'(1) u(3))
  have orph: "q \<in> orphaned (referenced dir (mdb u)) young (disk u)
      \<longleftrightarrow> \<not> (q \<in> referenced dir ((mdb w)\<lparr>clips := clips (mdb w')\<rparr>) \<or> is_younger_than q young (disk w))"
    if "q \<in> paths (disk u)" for q
    using younger_cong [OF um [rule_format, OF that]] by (simp add: orphaned_def ref)
  show "paths (disk w') = {q \<in> paths (disk w). locked q \<or> q \<notin> (\<Union>c\<in>set stale. clip_files dir c)
       \<and> (prefix dir q \<longrightarrow> q \<in> referenced dir ((mdb w)\<lparr>clips := clips (mdb w')\<rparr>) \<or> is_younger_than q young (disk w))}"
    unfolding w'(2) by (rule cut_compose [OF up vp walk_finds_files [OF u(2) ps] orph])
qed

text \<open>Ready alert clips, one file each.\<close>

lemma ready_paths_eq:
  "ready_paths dir db = map (\<lambda>a. (join_path dir (al_path a), al_id a)) (filter is_ready (alert_clips db))"
proof -
  have "map (\<lambda>(p, i, st). (p, i)) (filter (\<lambda>(p, i, st). st = ''ready'')
      (map (\<lambda>(i, rel, st). (join_path dir rel, i, st)) (map (\<lambda>a. (al_id a, al_path a, al_state a))
        (filter (\<lambda>a. al_state a \<in> {''building'', ''ready''}) as))))
    = map (\<lambda>a. (join_path dir (al_path a), al_id a)) (filter is_ready as)" for as
    by (induction as) (auto simp: is_ready_def)
  then show ?thesis by (simp only: ready_paths_def alert_paths_def known_alert_clip_paths_def)
qed

definition parent_of :: "path \<Rightarrow> path \<Rightarrow> path" where
  "parent_of dir p = (if p = [] then dir else butlast p)"

lemma sweep_ready:
  assumes "sweep_once locked dir cutoff young w = (Inr res, w')" and "world_inv w" and "wf_node (disk w)"
    and dist: "distinct (map (\<lambda>a. join_path dir (al_path a)) (filter is_ready (alert_clips (mdb w))))"
    and a: "a \<in> set (alert_clips (mdb w'))" "is_ready a"
  shows "join_path dir (al_path a) \<in> paths (disk w')
    \<or> \<not> is_dir (node_at (parent_of dir (join_path dir (al_path a))) (disk w'))"
proof -
  let ?p = "join_path dir (al_path a)"
  obtain u v ps no nm where st: "sweep_stale locked dir (clips_older_than cutoff RETENTION_BATCH_SIZE (mdb w)) 0 w = (Inr (sw_evicted res), u)"
    and ps: "walk_clip_files dir (disk u) = Inr ps"
    and sc: "fold (scan_orphan locked (referenced dir (mdb u)) young) ps (0, u) = (no, v)"
    and ce: "fold (check_expected dir (set ps) (map_of (rev (ready_paths dir (mdb u)))))
       (remdups (motion_paths dir (mdb u) @ map fst (ready_paths dir (mdb u)))) (0, v) = (nm, w')"
    by (rule sweep_phases [OF assms(1-3)])
  have inv: "media_inv (mdb w)" using assms(2) by (simp add: world_inv_def)
  note one = stale_phase [OF st assms(2,3) stale_rows [OF inv]]
  have u: "world_inv u" "wf_node (disk u)" "alert_clips (mdb u) = alert_clips (mdb w)"
    using one by - (elim conjE, assumption)+
  have "root_dir (disk u)" and uinv: "media_inv (mdb u)" using u(1) by (simp_all add: world_inv_def)
  note two = orphan_phase [OF sc this(1) u(2)]
  have vdb: "mdb v = mdb u"
    and vp: "paths (disk v) = {q \<in> paths (disk u). q \<in> set ps \<inter> orphaned (referenced dir (mdb u)) young (disk u) \<longrightarrow> locked q}"
    using two by - (elim conjE, assumption)+
  note three = expected_phase [OF ce, unfolded vdb, OF uinv]
  have mem: "a \<in> set (alert_clips (mdb u))"
    and gone: "\<forall>p\<in>set (remdups (motion_paths dir (mdb u) @ map fst (ready_paths dir (mdb u)))) - set ps.
        map_of (rev (ready_paths dir (mdb u))) p = Some (al_id a)
          \<longrightarrow> \<not> is_dir (node_at (if p = [] then dir else butlast p) (disk v))"
    using three(5) [OF a] by blast+
  have entry: "(?p, al_id a) \<in> set (ready_paths dir (mdb u))"
    using mem a(2) by (auto simp: ready_paths_eq)
  have "distinct (map fst (rev (ready_paths dir (mdb u))))"
    using dist by (simp add: ready_paths_eq u(3) comp_def rev_map [symmetric])
  then have look: "map_of (rev (ready_paths dir (mdb u))) ?p = Some (al_id a)"
    using entry by (intro map_of_is_SomeI) simp_all
  show ?thesis
  proof (cases "?p \<in> set ps")
    case True
    then have "?p \<in> paths (disk u)" using walk_finds_files [OF u(2) ps] by simp
    moreover have "?p \<in> referenced dir (mdb u)" using mem a(2) by (auto simp: referenced_def is_ready_def)
    ultimately show ?thesis unfolding three(2) vp by (simp add: orphaned_def)
  next
    case False
    have "?p \<in> set (remdups (motion_paths dir (mdb u) @ map fst (ready_paths dir (mdb u)))) - set ps"
      using False entry by (simp add: image_iff) (metis fst_conv)
    then show ?thesis using gone look unfolding three(2) parent_of_def by blast
  qed
qed

text \<open>The only failure: \<open>clips_dir\<close> is there and is not a directory.\<close>

lemma sweep_error:
  assumes "sweep_once locked dir cutoff young w = (Inl e, w')" and "world_inv w" and "wf_node (disk w)"
  shows "e = Io_Fault \<and> node_at dir (disk w') \<noteq> None \<and> \<not> is_dir (node_at dir (disk w'))"
proof -
  obtain r u where st: "sweep_stale locked dir (clips_older_than cutoff RETENTION_BATCH_SIZE (mdb w)) 0 w = (r, u)"
    by fastforce
  have inv: "media_inv (mdb w)" using assms(2) by (simp add: world_inv_def)
  have r: "r = Inr (length (clips_older_than cutoff RETENTION_BATCH_SIZE (mdb w)))"
    using stale_phase [OF st assms(2,3) stale_rows [OF inv]] by simp
  have "\<exists>x. walk_clip_files dir (disk u) = Inl x" and out: "e = Io_Fault" "w' = u"
    using assms(1) unfolding sweep_once_def st r
    by (auto simp: Let_def split: sum.splits prod.splits)
  then show ?thesis unfolding out by (auto simp: walk_clip_files_def split: option.splits node.splits)
qed

section \<open>Properties\<close>

text \<open>
  C22. What a successful sweep does, exactly.  It deletes the rows of the oldest
  clips past the horizon, at most one batch, and no other clip row.  A file is
  gone afterwards if and only if it can be unlinked and it is the hot copy of
  one of these clips, or it lies under the clips directory, no remaining row
  names it and it is older than the grace window.
\<close>

theorem retention_sweep_exact:
  assumes "world_inv w" and "wf_node (disk w)" and "sweep_once locked dir cutoff young w = (Inr res, w')"
  shows "clips (mdb w') = filter (\<lambda>c. c \<notin> set (clips_older_than cutoff RETENTION_BATCH_SIZE (mdb w))) (clips (mdb w))
     \<and> paths (disk w') = {p \<in> paths (disk w). locked p
         \<or> p \<notin> (\<Union>c\<in>set (clips_older_than cutoff RETENTION_BATCH_SIZE (mdb w)). clip_files dir c)
           \<and> (prefix dir p \<longrightarrow> p \<in> referenced dir ((mdb w)\<lparr>clips := clips (mdb w')\<rparr>) \<or> is_younger_than p young (disk w))}"
  using sweep_effect(2,4) [OF assms(3,1,2)] by blast

text \<open>
  After a successful sweep no ready alert clip is without its file while the
  directory of the file exists, provided no two ready alert clips share a file:
  an alarm never resolves to a clip that cannot be attached.
\<close>

lemma ready_alert_clips_backed:
  assumes "world_inv w" and "wf_node (disk w)" and "sweep_once locked dir cutoff young w = (Inr res, w')"
    and "distinct (map (\<lambda>a. join_path dir (al_path a)) (filter is_ready (alert_clips (mdb w))))"
    and "a \<in> set (alert_clips (mdb w'))" and "is_ready a"
  shows "join_path dir (al_path a) \<in> paths (disk w')
     \<or> \<not> is_dir (node_at (parent_of dir (join_path dir (al_path a))) (disk w'))"
  by (rule sweep_ready [OF assms(3,1,2,4-6)])

text \<open>
  The outbox trim returns: its loop of batches ends, having deleted every
  terminal row past the horizon and nothing else, and reports how many; a
  horizon of zero days turns it off.
\<close>

lemma outbox_trim_terminates:
  "table_inv db \<Longrightarrow> sweep_outbox_once d now db =
     Some (if d = 0 then (0, db)
           else (length (filter (prunable (now - days d)) (outbox db)),
                 db\<lparr>outbox := filter (\<lambda>r. \<not> prunable (now - days d) r) (outbox db)\<rparr>))"
  by (simp add: sweep_outbox_once_def prune_loop_returns)

section \<open>A sweep at work\<close>

text \<open>
  A store with one clip past the horizon and a ready alert clip whose file is
  gone; on disk the clip's file, an old file no row names and a young one.
\<close>

definition sweep_media :: media_db where
  "sweep_media = fold media_exec [(0, Open_Clip (demo_new ''a'')), (0, Insert_Alert_Clip 7 0 ''s''), (5, Alert_Ready 1 1 1 None)] fresh_media"

definition sweep_world :: media_world where
  "sweep_world = \<lparr>mdb = sweep_media,
     disk = Directory (Entry ''c'' (Directory (Entry ''a'' (Regular (Some 3)) (Entry ''o'' (Regular (Some 4))
       (Entry ''y'' (Regular (Some 9)) Empty)))) Empty), bus = []\<rparr>"

lemma sweep_world_inv: "world_inv sweep_world" "wf_node (disk sweep_world)"
proof -
  have "media_inv sweep_media" unfolding sweep_media_def by (rule media.run_keeps [OF fresh_media_inv])
  then show "world_inv sweep_world" "wf_node (disk sweep_world)"
    by (simp_all add: world_inv_def sweep_world_def root_dir_def)
qed

lemma sweep_run: "fst (sweep_once (\<lambda>_. False) [''c''] 1 5 sweep_world) = Inr \<lparr>sw_evicted = 1, sw_orphans = 1, sw_missing = 1\<rparr>"
  by code_simp

lemma sweep_out: "sweep_once (\<lambda>_. False) [''c''] 1 5 sweep_world
    = (Inr \<lparr>sw_evicted = 1, sw_orphans = 1, sw_missing = 1\<rparr>, snd (sweep_once (\<lambda>_. False) [''c''] 1 5 sweep_world))"
  using sweep_run by (simp add: prod_eq_iff)

lemma sweep_listed: "map cl_id (clips_older_than 1 RETENTION_BATCH_SIZE (mdb sweep_world)) = [1]"
  "map cl_id (clips (mdb sweep_world)) = [1]" "map al_path (filter is_ready (alert_clips (mdb sweep_world))) = [''s'']"
  by code_simp+

lemma sweep_left: "files (disk (snd (sweep_once (\<lambda>_. False) [''c''] 1 5 sweep_world))) = [([''c'', ''y''], Some 9)]"
  by code_simp

theorem retention_sweep_exact_witness:
  "clips (mdb (snd (sweep_once (\<lambda>_. False) [''c''] 1 5 sweep_world)))
     = filter (\<lambda>c. c \<notin> set (clips_older_than 1 RETENTION_BATCH_SIZE (mdb sweep_world))) (clips (mdb sweep_world))
   \<and> paths (disk (snd (sweep_once (\<lambda>_. False) [''c''] 1 5 sweep_world))) = {[''c'', ''y'']}"
  using retention_sweep_exact [OF sweep_world_inv sweep_out] by (simp add: sweep_left)

end
