(* ===== verification/Cold_Backend.thy ===== *)
theory Cold_Backend
  imports Disk
begin

text \<open>
  The cold-storage interface of \<open>nexus-storage/src/lib.rs\<close>: errors, receipts,
  the operations of the \<open>ColdBackend\<close> trait as a record over a backend state,
  the contract a backend promises as the locale \<open>cold_contract\<close>, and the
  registry with its reserved backends.  File contents are strings, one
  character per byte.  An operation takes an argument for the faults that hit it.
\<close>

section \<open>The trait\<close>

datatype backend_error =
  Backend_Io | Backend_Unreachable string | Checksum_Mismatch string string | Invalid_Path string
| Backend_Auth string | Backend_Other string

datatype health_status = Health_Ok | Read_Only string | Unreachable string

record put_receipt =
  pr_path :: string
  pr_uploaded_at :: instant
  pr_bytes :: nat
  pr_url :: "string option"

record ('f, 's) cold_backend =
  be_handle :: string
  be_kind :: string
  be_yields_cloud_url :: bool
  be_health :: "'f \<Rightarrow> 's \<Rightarrow> health_status"
  be_exists :: "'f \<Rightarrow> string \<Rightarrow> string \<Rightarrow> 's \<Rightarrow> backend_error + bool"
  be_put :: "'f \<Rightarrow> string \<Rightarrow> string \<Rightarrow> string \<Rightarrow> 's \<Rightarrow> (backend_error + put_receipt) \<times> 's"

text \<open>The names clips are stored under.\<close>

definition clip_path :: "string \<Rightarrow> bool" where
  "clip_path p \<longleftrightarrow> components p \<noteq> [] \<and> strip_suffix ''.mp4'' (last (components p)) \<noteq> None"

text \<open>
  What a client relies on, for paths of the form it uses: a successful \<open>put\<close>
  stores the content at the path it was given and any \<open>put\<close>, failed ones too,
  leaves the other paths alone; \<open>exists\<close> only says yes for stored content.
  \<open>holds s p h\<close> is the backend's notion of holding content with hash \<open>h\<close> at \<open>p\<close>.
\<close>

locale cold_contract =
  fixes b :: "('f, 's) cold_backend" and inv :: "'s \<Rightarrow> bool"
    and holds :: "'s \<Rightarrow> string \<Rightarrow> string \<Rightarrow> bool"
  assumes put_keeps_inv: "inv s \<Longrightarrow> clip_path p \<Longrightarrow> inv (snd (be_put b f p x h s))"
    and put_stores: "inv s \<Longrightarrow> clip_path p \<Longrightarrow> be_put b f p x h s = (Inr r, s') \<Longrightarrow> pr_path r = p \<and> holds s' p h"
    and put_local: "inv s \<Longrightarrow> clip_path p \<Longrightarrow> clip_path q \<Longrightarrow> components p \<noteq> components q \<Longrightarrow> holds s q k \<Longrightarrow> holds (snd (be_put b f p x h s)) q k"
    and exists_sound: "inv s \<Longrightarrow> clip_path p \<Longrightarrow> be_exists b f p h s = Inr True \<Longrightarrow> holds s p h"

section \<open>The registry\<close>

record ('f, 's) backend_registry =
  reg_backends :: "string \<rightharpoonup> ('f, 's) cold_backend"
  reg_reserved :: "string \<rightharpoonup> ('f, 's) cold_backend"

definition backend_registry_new :: "('f, 's) backend_registry" where
  "backend_registry_new = \<lparr>reg_backends = Map.empty, reg_reserved = Map.empty\<rparr>"

definition replace_all :: "('f, 's) cold_backend list \<Rightarrow> ('f, 's) backend_registry \<Rightarrow> ('f, 's) backend_registry" where
  "replace_all bs r = r\<lparr>reg_backends := fold (\<lambda>b m. m(be_handle b \<mapsto> b)) bs Map.empty\<rparr>"

definition backend_insert_reserved :: "('f, 's) cold_backend \<Rightarrow> ('f, 's) backend_registry \<Rightarrow> ('f, 's) backend_registry" where
  "backend_insert_reserved b r = r\<lparr>reg_reserved := (reg_reserved r)(be_handle b \<mapsto> b)\<rparr>"

definition registry_get :: "string \<Rightarrow> ('f, 's) backend_registry \<Rightarrow> ('f, 's) cold_backend option" where
  "registry_get h r = (case reg_reserved r h of Some b \<Rightarrow> Some b | None \<Rightarrow> reg_backends r h)"

text \<open>The listing, as the map from handles to kinds whose entries it returns in some order.\<close>

definition registry_snapshot :: "('f, 's) backend_registry \<Rightarrow> string \<rightharpoonup> string" where
  "registry_snapshot r = (map_option be_kind \<circ> reg_backends r) ++ (map_option be_kind \<circ> reg_reserved r)"

lemma fold_backends: "fold (\<lambda>b m. m(be_handle b \<mapsto> b)) bs m = m ++ map_of (rev (map (\<lambda>b. (be_handle b, b)) bs))"
  by (induction bs arbitrary: m) (auto simp: map_add_def fun_eq_iff split: option.splits)

text \<open>Replacing the operator's backends keeps the reserved ones, and the last row of a handle counts.\<close>

lemma registry_get_replace:
  "registry_get h (replace_all bs r) =
     (case reg_reserved r h of Some b \<Rightarrow> Some b | None \<Rightarrow> map_of (rev (map (\<lambda>b. (be_handle b, b)) bs)) h)"
  by (simp add: registry_get_def replace_all_def fold_backends split: option.split)

lemma registry_get_reserved:
  "registry_get h (backend_insert_reserved b r) = (if h = be_handle b then Some b else registry_get h r)"
  by (simp add: registry_get_def backend_insert_reserved_def split: option.split)

text \<open>The listing and the lookup agree on which of two backends with one handle counts.\<close>

lemma registry_snapshot_get: "registry_snapshot r h = map_option be_kind (registry_get h r)"
  by (auto simp: registry_snapshot_def registry_get_def map_add_def split: option.split)

text \<open>A registry files every backend under its own handle.\<close>

definition keyed :: "('f, 's) backend_registry \<Rightarrow> bool" where
  "keyed r \<longleftrightarrow> (\<forall>h b. reg_backends r h = Some b \<or> reg_reserved r h = Some b \<longrightarrow> be_handle b = h)"

lemma keyed_registry:
  "keyed backend_registry_new" "keyed r \<Longrightarrow> keyed (replace_all bs r)" "keyed r \<Longrightarrow> keyed (backend_insert_reserved b r)"
  by (auto simp: keyed_def backend_registry_new_def replace_all_def fold_backends backend_insert_reserved_def dest!: map_of_SomeD)

lemma keyed_get: "keyed r \<Longrightarrow> registry_get h r = Some b \<Longrightarrow> be_handle b = h"
  by (auto simp: keyed_def registry_get_def split: option.splits)

end
