(* ===== verification/Lan_Backend.thy ===== *)
theory Lan_Backend
  imports Cold_Backend
begin

text \<open>
  The filesystem backend of \<open>nexus-storage/src/lan.rs\<close>: path resolution, the
  crash-safe \<open>put\<close> (temporary file, rename, sidecar), the strict \<open>exists\<close>,
  ranged reads and deletion.  The share is a map from paths to contents;
  directories are not kept.  SHA-256 is a parameter.  A fault record says which
  of the primitive steps fail and how much of a write a failure leaves behind,
  so that a failed \<open>put\<close> is also a crash at any of its points.  White space in a
  sidecar is ASCII white space, all that the code ever writes.
\<close>

section \<open>Definitions\<close>

definition SPOT_CHECK_BYTES :: nat where
  "SPOT_CHECK_BYTES = 64 * 1024"

definition STREAM_CHUNK_BYTES :: nat where
  "STREAM_CHUNK_BYTES = 64 * 1024"

record lan =
  lan_handle :: string
  lan_root :: path

definition lan_new :: "string \<Rightarrow> path \<Rightarrow> string \<Rightarrow> bool \<Rightarrow> backend_error + lan" where
  "lan_new handle root shown root_is_dir =
     (if root_is_dir then Inr \<lparr>lan_handle = handle, lan_root = root\<rparr>
      else Inl (Backend_Other (''lan backend root does not exist or is not a directory: '' @ shown)))"

type_synonym share = "path \<rightharpoonup> string"

record lan_faults =
  fails :: "nat \<Rightarrow> bool"
  torn :: nat
  fault_now :: instant

subsection \<open>Digests\<close>

definition hex_lower :: "string \<Rightarrow> string" where
  "hex_lower s = concat (map (\<lambda>c. let n = (of_char c :: nat) in [hex_digit (n div 16), hex_digit (n mod 16)]) s)"

definition sha256_hex :: "(string \<Rightarrow> string) \<Rightarrow> string \<Rightarrow> string" where
  "sha256_hex sha x = hex_lower (sha x)"

definition to_le_bytes :: "nat \<Rightarrow> string" where
  "to_le_bytes n = map (\<lambda>i. char_of (n div 256 ^ i mod 256)) [0..<8]"

definition compute_spot_check :: "(string \<Rightarrow> string) \<Rightarrow> string \<Rightarrow> string" where
  "compute_spot_check sha x =
     hex_lower (sha (if length x \<le> 2 * SPOT_CHECK_BYTES then x
       else take SPOT_CHECK_BYTES x @ drop (length x - SPOT_CHECK_BYTES) x @ to_le_bytes (length x)))"

subsection \<open>Paths\<close>

definition resolve :: "lan \<Rightarrow> string \<Rightarrow> backend_error + path" where
  "resolve l rel =
     (if starts_with ''/'' rel then Inl (Invalid_Path (''backend path must be relative: '' @ rel))
      else if ''..'' \<in> set (components rel) then Inl (Invalid_Path (''backend path contains `..`: '' @ rel))
      else Inr (lan_root l @ components rel))"

text \<open>
  \<open>abs.with_extension(extend_ext(abs, suffix))\<close>: the suffix goes after the
  extension; an empty extension, a trailing dot, is replaced.
\<close>

definition side_name :: "string \<Rightarrow> string \<Rightarrow> string" where
  "side_name name ext = (if 1 < length name \<and> last name = CHR ''.'' then butlast name else name) @ ''.'' @ ext"

definition side_path :: "path \<Rightarrow> string \<Rightarrow> path" where
  "side_path target ext = butlast target @ [side_name (last target) ext]"

subsection \<open>Sidecars\<close>

fun split_ws :: "string \<Rightarrow> string list" where
  "split_ws [] = [[]]"
| "split_ws (x # xs) =
     (if is_whitespace x then [] # split_ws xs
      else (case split_ws xs of [] \<Rightarrow> [[x]] | p # ps \<Rightarrow> (x # p) # ps))"

definition split_whitespace :: "string \<Rightarrow> string list" where
  "split_whitespace s = filter (\<lambda>t. t \<noteq> []) (split_ws s)"

definition sidecar_fields :: "string \<Rightarrow> string \<times> string" where
  "sidecar_fields t =
     (case split_whitespace t of [] \<Rightarrow> ([], []) | [a] \<Rightarrow> (a, []) | a # b # r \<Rightarrow> (a, b))"

text \<open>\<open>read_to_string\<close> accepts UTF-8 only.\<close>

definition tail_byte :: "char \<Rightarrow> bool" where
  "tail_byte c \<longleftrightarrow> (of_char c :: nat) div 64 = 2"

definition in_range :: "nat \<Rightarrow> nat \<Rightarrow> char \<Rightarrow> bool" where
  "in_range a b c \<longleftrightarrow> a \<le> of_char c \<and> of_char c \<le> b"

fun utf8_valid :: "string \<Rightarrow> bool" where
  "utf8_valid [] = True"
| "utf8_valid (a # r) =
     (if in_range 0x00 0x7F a then utf8_valid r
      else if in_range 0xC2 0xDF a then (case r of b # s \<Rightarrow> tail_byte b \<and> utf8_valid s | _ \<Rightarrow> False)
      else if in_range 0xE0 0xEF a then
        (case r of b # c # s \<Rightarrow>
           (if in_range 0xE0 0xE0 a then in_range 0xA0 0xBF b
            else if in_range 0xED 0xED a then in_range 0x80 0x9F b else tail_byte b) \<and> tail_byte c \<and> utf8_valid s
         | _ \<Rightarrow> False)
      else if in_range 0xF0 0xF4 a then
        (case r of b # c # d # s \<Rightarrow>
           (if in_range 0xF0 0xF0 a then in_range 0x90 0xBF b
            else if in_range 0xF4 0xF4 a then in_range 0x80 0x8F b else tail_byte b) \<and> tail_byte c \<and> tail_byte d \<and> utf8_valid s
         | _ \<Rightarrow> False)
      else False)"

definition spot_check ::
  "(string \<Rightarrow> string) \<Rightarrow> path \<Rightarrow> string \<Rightarrow> string \<Rightarrow> share \<Rightarrow> backend_error + bool" where
  "spot_check sha target content expected fs =
     (case fs (side_path target ''sha256'') of
        None \<Rightarrow> Inr False
      | Some t \<Rightarrow>
          if \<not> utf8_valid t then Inl Backend_Io
          else (case sidecar_fields t of (full, spot) \<Rightarrow>
                  if full \<noteq> expected then Inr False else Inr (spot = compute_spot_check sha content)))"

subsection \<open>Operations\<close>

definition lan_exists ::
  "(string \<Rightarrow> string) \<Rightarrow> lan \<Rightarrow> lan_faults \<Rightarrow> string \<Rightarrow> string \<Rightarrow> share \<Rightarrow> backend_error + bool" where
  "lan_exists sha l f p expected fs =
     (case resolve l p of
        Inl e \<Rightarrow> Inl e
      | Inr target \<Rightarrow>
          if fails f 0 then Inl Backend_Io
          else (case fs target of None \<Rightarrow> Inr False | Some content \<Rightarrow> spot_check sha target content expected fs))"

definition sidecar_text :: "string \<Rightarrow> string \<Rightarrow> string" where
  "sidecar_text full spot = full @ '' '' @ spot @ [CHR 0x0A]"

text \<open>
  The steps of \<open>put\<close>, in order: create the directories, create the temporary
  file, write it, rename it, read it back for the spot check, write the sidecar.
  Renaming onto the root, a directory, fails.
\<close>

definition lan_put ::
  "(string \<Rightarrow> string) \<Rightarrow> lan \<Rightarrow> lan_faults \<Rightarrow> string \<Rightarrow> string \<Rightarrow> string \<Rightarrow> share
     \<Rightarrow> (backend_error + put_receipt) \<times> share" where
  "lan_put sha l f p bytes expected fs =
     (case resolve l p of
        Inl e \<Rightarrow> (Inl e, fs)
      | Inr target \<Rightarrow>
          if fails f 0 then (Inl Backend_Io, fs)
          else if sha256_hex sha bytes \<noteq> expected
          then (Inl (Checksum_Mismatch expected (sha256_hex sha bytes)), fs)
          else
            let tmp = side_path target ''partial'';
                side = side_path target ''sha256'';
                text = sidecar_text expected (compute_spot_check sha bytes);
                fs3 = (fs(tmp := None))(target \<mapsto> bytes)
            in if fails f 1 then (Inl Backend_Io, fs)
               else if fails f 2 then (Inl Backend_Io, fs(tmp \<mapsto> take (torn f) bytes))
               else if fails f 3 \<or> components p = [] then (Inl Backend_Io, fs(tmp \<mapsto> bytes))
               else if fails f 4 then (Inl Backend_Io, fs3)
               else if fails f 5 then (Inl Backend_Io, fs3(side \<mapsto> take (torn f) text))
               else (Inr \<lparr>pr_path = p, pr_uploaded_at = fault_now f, pr_bytes = length bytes, pr_url = None\<rparr>,
                     fs3(side \<mapsto> text)))"

text \<open>
  The length of a range, with checked \<open>u64\<close> arithmetic after the seek, whose
  offset is an \<open>i64\<close>.
\<close>

definition range_len :: "u64 \<Rightarrow> u64 \<Rightarrow> backend_error + nat" where
  "range_len start end_inclusive =
     (if unat start \<ge> 2 ^ 63 then Inl Backend_Io
      else if unat end_inclusive < unat start \<or> unat end_inclusive - unat start + 1 \<ge> 2 ^ 64
      then Inl (Invalid_Path (''bad range '' @ dec_nat (unat start) @ ''..='' @ dec_nat (unat end_inclusive)))
      else Inr (unat end_inclusive - unat start + 1))"

text \<open>A buffer of more than \<open>isize::MAX\<close> bytes panics, \<open>None\<close>.\<close>

definition lan_get_range :: "lan \<Rightarrow> string \<Rightarrow> u64 \<Rightarrow> u64 \<Rightarrow> share \<Rightarrow> (backend_error + string) option" where
  "lan_get_range l p start end_inclusive fs =
     (case resolve l p of
        Inl e \<Rightarrow> Some (Inl e)
      | Inr target \<Rightarrow>
          (case fs target of
             None \<Rightarrow> Some (Inl Backend_Io)
           | Some content \<Rightarrow>
               (case range_len start end_inclusive of
                  Inl e \<Rightarrow> Some (Inl e)
                | Inr n \<Rightarrow>
                    if n \<ge> 2 ^ 63 then None
                    else if unat start + n > length content then Some (Inl Backend_Io)
                    else Some (Inr (take n (drop (unat start) content))))))"

text \<open>The chunks a stream yields from the bytes at its position, and the error that ends it, if any.\<close>

function stream_chunks :: "nat \<Rightarrow> string \<Rightarrow> string list \<times> backend_error option" where
  "stream_chunks remaining rest =
     (if remaining = 0 then ([], None)
      else let want = min remaining STREAM_CHUNK_BYTES in
        if length rest < want then ([], Some Backend_Io)
        else case stream_chunks (remaining - want) (drop want rest) of (cs, e) \<Rightarrow> (take want rest # cs, e))"
  by auto
termination by (relation "measure fst") (auto simp: STREAM_CHUNK_BYTES_def)

declare stream_chunks.simps [simp del]

definition lan_get_range_stream ::
  "lan \<Rightarrow> string \<Rightarrow> u64 \<Rightarrow> u64 \<Rightarrow> share \<Rightarrow> backend_error + string list \<times> backend_error option" where
  "lan_get_range_stream l p start end_inclusive fs =
     (case resolve l p of
        Inl e \<Rightarrow> Inl e
      | Inr target \<Rightarrow>
          (case fs target of
             None \<Rightarrow> Inl Backend_Io
           | Some content \<Rightarrow>
               (case range_len start end_inclusive of
                  Inl e \<Rightarrow> Inl e
                | Inr n \<Rightarrow> Inr (stream_chunks n (drop (unat start) content)))))"

definition lan_delete :: "lan \<Rightarrow> lan_faults \<Rightarrow> string \<Rightarrow> share \<Rightarrow> (backend_error + bool) \<times> share" where
  "lan_delete l f p fs =
     (case resolve l p of
        Inl e \<Rightarrow> (Inl e, fs)
      | Inr target \<Rightarrow>
          if components p = [] then (Inl Backend_Io, fs)
          else if fs target = None then (Inr False, fs)
          else if fails f 0 then (Inl Backend_Io, fs)
          else (Inr True, if fails f 1 then fs(target := None) else fs(target := None, side_path target ''sha256'' := None)))"

text \<open>\<open>health\<close> only asks whether the root is a directory; the share being mounted is step 6.\<close>

definition lan_health :: "lan \<Rightarrow> lan_faults \<Rightarrow> share \<Rightarrow> health_status" where
  "lan_health l f fs = (if fails f 6 then Unreachable ''stat failed'' else Health_Ok)"

definition lan_backend :: "(string \<Rightarrow> string) \<Rightarrow> lan \<Rightarrow> (lan_faults, share) cold_backend" where
  "lan_backend sha l =
     \<lparr>be_handle = lan_handle l, be_kind = ''lan'', be_yields_cloud_url = False, be_health = lan_health l,
      be_exists = lan_exists sha l, be_put = lan_put sha l\<rparr>"

text \<open>
  The factory.  \<open>parse\<close> is the JSON parser: an error text, or the string under
  \<open>root\<close>, if there is one; \<open>is_directory\<close> asks the file system.
\<close>

definition build_backend ::
  "(string \<Rightarrow> string + string option) \<Rightarrow> (string \<Rightarrow> bool) \<Rightarrow> string \<Rightarrow> string \<Rightarrow> string \<Rightarrow> backend_error + lan" where
  "build_backend parse is_directory handle kind config =
     (case parse config of
        Inl e \<Rightarrow> Inl (Backend_Other (''config_json parse: '' @ e))
      | Inr root \<Rightarrow>
          if kind = ''lan'' then
            (case root of
               None \<Rightarrow> Inl (Backend_Other ''lan backend requires `root` in config_json'')
             | Some r \<Rightarrow> lan_new handle (components r) r (is_directory r))
          else if kind = ''local'' then
            Inl (Backend_Other ''kind= local '')
          else Inl (Backend_Other (''unknown backend kind '' @ kind)))"

section \<open>Sidecars and paths\<close>

definition digest_ok :: "(string \<Rightarrow> string) \<Rightarrow> bool" where
  "digest_ok sha \<longleftrightarrow> (\<forall>x. length (sha x) = 32)"

definition plain :: "string \<Rightarrow> bool" where
  "plain s = list_all (\<lambda>c. \<not> is_whitespace c \<and> (of_char c :: nat) < 128) s"

lemma hex_digit_plain: "n < 16 \<Longrightarrow> plain [hex_digit n]"
  by (auto simp: plain_def hex_digit_def is_whitespace_def Let_def)

lemma plain_append [simp]: "plain (a @ b) \<longleftrightarrow> plain a \<and> plain b"
  by (simp add: plain_def)

lemma plain_hex [simp]: "plain (hex_lower s)"
proof (induction s)
  case (Cons c s)
  have "(of_char c :: nat) < 16 * 16" by simp
  then have "(of_char c :: nat) div 16 < 16" by (rule less_mult_imp_div_less)
  then have "plain [hex_digit (of_char c div 16)]" by (rule hex_digit_plain)
  moreover have "plain [hex_digit (of_char c mod 16)]" by (rule hex_digit_plain) simp
  ultimately
  show ?case using Cons by (simp add: hex_lower_def Let_def plain_def)
qed (simp add: hex_lower_def plain_def)

lemma length_hex [simp]: "length (hex_lower s) = 2 * length s"
  by (induction s) (simp_all add: hex_lower_def Let_def)

lemma split_ws_plain: "plain s \<Longrightarrow> split_ws s = [s]"
  by (induction s) (simp_all add: plain_def)

lemma split_ws_nonempty [simp]: "split_ws s \<noteq> []"
  by (cases s) (simp_all split: list.split)

lemma split_ws_append: "is_whitespace w \<Longrightarrow> split_ws (a @ w # b) = split_ws a @ split_ws b"
  by (induction a) (auto simp: neq_Nil_conv split: list.splits)

lemma plain_take: "plain s \<Longrightarrow> plain (take n s)"
  unfolding plain_def list_all_iff by (meson in_set_takeD)

lemma is_whitespace_lits [simp]: "is_whitespace CHR '' ''" "is_whitespace (CHR 0x0A)"
  by (simp_all add: is_whitespace_def)

lemma fields_two:
  assumes "plain a" "plain b" "a \<noteq> []"
  shows "sidecar_fields (a @ CHR '' '' # b) = (a, b)" "b \<noteq> [] \<Longrightarrow> sidecar_fields (sidecar_text a b) = (a, b)"
    "sidecar_fields a = (a, [])"
  using assms split_ws_append [of "CHR 0x0A" b "[]"]
  by (simp_all add: sidecar_fields_def split_whitespace_def split_ws_append split_ws_plain sidecar_text_def)

text \<open>What a torn write of a sidecar can be read as: its two fields, or a second field that is too short.\<close>

lemma fields_torn:
  assumes "plain a" "plain b" "a \<noteq> []" "b \<noteq> []"
  shows "sidecar_fields (take n (sidecar_text a b)) = (a, b)
    \<or> length (snd (sidecar_fields (take n (sidecar_text a b)))) < length b"
proof (cases "n \<le> length a")
  case True
  then have "take n (sidecar_text a b) = take n a" by (simp add: sidecar_text_def)
  moreover have "snd (sidecar_fields (take n a)) = []"
    by (simp add: sidecar_fields_def split_whitespace_def split_ws_plain plain_take [OF assms(1)])
  ultimately show ?thesis using assms(4) by simp
next
  case False
  then obtain k where n: "n = Suc (length a + k)" by (metis less_iff_Suc_add not_le)
  show ?thesis
  proof (cases "k < Suc (length b)")
    case True
    then have "take n (sidecar_text a b) = a @ CHR '' '' # take k b" by (simp add: n sidecar_text_def)
    then show ?thesis using fields_two(1) [OF assms(1) plain_take [OF assms(2)] assms(3), of k] True
      by (cases "k = length b") simp_all
  next
    case False
    then have "take n (sidecar_text a b) = sidecar_text a b" by (simp add: n sidecar_text_def)
    then show ?thesis using fields_two(2) assms by simp
  qed
qed

lemma utf8_plain: "list_all (\<lambda>c. (of_char c :: nat) < 128) s \<Longrightarrow> utf8_valid s"
  by (induction s) (auto simp: in_range_def)

lemma utf8_sidecar: "plain a \<Longrightarrow> plain b \<Longrightarrow> utf8_valid (sidecar_text a b)"
  by (rule utf8_plain) (auto simp: sidecar_text_def plain_def list_all_iff)

lemma side_path_neq:
  assumes "x \<noteq> []"
  shows "side_path p x \<noteq> p"
proof -
  have "length (side_name n x) \<noteq> length n" for n
    using assms by (cases x) (auto simp: side_name_def)
  then show ?thesis unfolding side_path_def by (metis last_snoc)
qed

lemma side_path_ends: "side_path p x = side_path q y \<Longrightarrow> length x = length y \<Longrightarrow> x = y"
  by (simp add: side_path_def side_name_def split: if_splits)

section \<open>The contract\<close>

text \<open>A complete sidecar was written for some content.\<close>

definition sidecar_ok :: "(string \<Rightarrow> string) \<Rightarrow> string \<Rightarrow> bool" where
  "sidecar_ok sha t \<longleftrightarrow>
     length (snd (sidecar_fields t)) = 64
       \<longrightarrow> (\<exists>x. sidecar_fields t = (sha256_hex sha x, compute_spot_check sha x))"

definition lan_inv :: "(string \<Rightarrow> string) \<Rightarrow> lan \<Rightarrow> share \<Rightarrow> bool" where
  "lan_inv sha l fs \<longleftrightarrow> digest_ok sha
     \<and> (\<forall>p t. clip_path p \<longrightarrow> fs (side_path (lan_root l @ components p) ''sha256'') = Some t \<longrightarrow> sidecar_ok sha t)"

text \<open>
  The stored file agrees with some content of the given hash in everything the
  spot check reads: its length and, above 128 KiB, its first and last 64 KiB.
\<close>

definition lan_holds :: "(string \<Rightarrow> string) \<Rightarrow> lan \<Rightarrow> share \<Rightarrow> string \<Rightarrow> string \<Rightarrow> bool" where
  "lan_holds sha l fs p h \<longleftrightarrow>
     (\<exists>y x. fs (lan_root l @ components p) = Some y \<and> sha256_hex sha x = h
            \<and> compute_spot_check sha y = compute_spot_check sha x)"

lemma spot_plain [simp]: "plain (compute_spot_check sha x)" "plain (sha256_hex sha x)"
  by (simp_all add: compute_spot_check_def sha256_hex_def)

lemma digest_lengths:
  assumes "digest_ok sha"
  shows "length (compute_spot_check sha x) = 64" "length (sha256_hex sha x) = 64"
    "compute_spot_check sha x \<noteq> []" "sha256_hex sha x \<noteq> []"
proof -
  show l: "length (compute_spot_check sha x) = 64" "length (sha256_hex sha x) = 64"
    using assms by (simp_all add: compute_spot_check_def sha256_hex_def digest_ok_def)
  show "compute_spot_check sha x \<noteq> []" using l(1) by auto
  show "sha256_hex sha x \<noteq> []" using l(2) by auto
qed

lemma sidecar_ok_torn:
  assumes "digest_ok sha"
  shows "sidecar_ok sha (take n (sidecar_text (sha256_hex sha x) (compute_spot_check sha x)))"
  using fields_torn [of "sha256_hex sha x" "compute_spot_check sha x" n] digest_lengths [OF assms, of x]
  by (auto simp: sidecar_ok_def)

lemma resolve_inside:
  "resolve l p = Inr t \<Longrightarrow> t = lan_root l @ components p \<and> ''..'' \<notin> set (components p)"
  by (auto simp: resolve_def split: if_splits)

text \<open>Every state a \<open>put\<close> can leave behind, at whichever step it stops.\<close>

lemma lan_put_states:
  fixes f :: lan_faults and sha l p x h fs
  defines "t \<equiv> lan_root l @ components p"
  defines "s' \<equiv> snd (lan_put sha l f p x h fs)"
  shows "s' = fs
    \<or> (\<exists>y. s' = fs(side_path t ''partial'' \<mapsto> y))
    \<or> h = sha256_hex sha x \<and> components p \<noteq> [] \<and>
        (s' = fs(side_path t ''partial'' := None, t \<mapsto> x)
         \<or> (\<exists>n. s' = fs(side_path t ''partial'' := None, t \<mapsto> x,
               side_path t ''sha256'' \<mapsto> take n (sidecar_text h (compute_spot_check sha x)))))"
proof (cases "resolve l p")
  case (Inl e)
  then show ?thesis by (simp add: s'_def lan_put_def)
next
  case (Inr target)
  then have target: "target = t" by (simp add: t_def resolve_inside)
  have full: "take (length u) u = u" for u :: string by simp
  show ?thesis
    unfolding s'_def lan_put_def Inr target Let_def
    by (auto split: if_splits) (metis full)
qed

lemma lan_put_ok:
  assumes "lan_put sha l f p x h fs = (Inr r, fs')"
  defines "t \<equiv> lan_root l @ components p"
  shows "pr_path r = p" "pr_bytes r = length x" "pr_url r = None" "h = sha256_hex sha x" "resolve l p = Inr t"
    "fs' = fs(side_path t ''partial'' := None, t \<mapsto> x, side_path t ''sha256'' \<mapsto> sidecar_text h (compute_spot_check sha x))"
proof -
  obtain target where r: "resolve l p = Inr target"
    using assms(1) by (cases "resolve l p") (auto simp: lan_put_def)
  then have "target = t" by (simp add: t_def resolve_inside)
  then show "pr_path r = p" "pr_bytes r = length x" "pr_url r = None" "h = sha256_hex sha x" "resolve l p = Inr t"
    "fs' = fs(side_path t ''partial'' := None, t \<mapsto> x, side_path t ''sha256'' \<mapsto> sidecar_text h (compute_spot_check sha x))"
    using assms(1) r by (auto simp: lan_put_def Let_def split: if_splits)
qed

lemma clip_not_side:
  assumes "clip_path q" "x \<in> {''partial'', ''sha256''}"
  shows "lan_root l @ components q \<noteq> side_path t x"
proof
  assume "lan_root l @ components q = side_path t x"
  then have "last (components q) = side_name (last t) x"
    using assms(1) by (metis clip_path_def last_appendR last_snoc side_path_def)
  moreover obtain r where "last (components q) = r @ ''.mp4''"
    using assms(1) unfolding clip_path_def strip_suffix_def
    by (metis append_take_drop_id)
  ultimately have "last (side_name (last t) x) = last (r @ ''.mp4'')" by (simp only:)
  then have "last (side_name (last t) x) = CHR ''4''" by (simp only: last_append) simp
  then show False using assms(2) by (auto simp: side_name_def)
qed

text \<open>A \<open>put\<close> at a clip path touches no file of another clip.\<close>

lemma lan_put_frame:
  assumes "clip_path q" "components p \<noteq> components q"
  shows "snd (lan_put sha l f p x h fs) (lan_root l @ components q) = fs (lan_root l @ components q)"
  using lan_put_states [of sha l f p x h fs] assms(2)
    clip_not_side [OF assms(1), of "''partial''" l] clip_not_side [OF assms(1), of "''sha256''" l]
  by auto

lemma lan_put_sidecars:
  assumes "digest_ok sha" "clip_path p" "clip_path q"
    "snd (lan_put sha l f p x h fs) (side_path (lan_root l @ components q) ''sha256'') = Some t"
  shows "sidecar_ok sha t \<or> fs (side_path (lan_root l @ components q) ''sha256'') = Some t"
proof -
  define d where "d = lan_root l @ components p"
  define e where "e = lan_root l @ components q"
  have ne: "side_path e ''sha256'' \<noteq> d" "side_path e ''sha256'' \<noteq> side_path d ''partial''"
    using clip_not_side [OF assms(2), of "''sha256''" l e] by (auto simp: d_def side_path_def side_name_def)
  show ?thesis
    using lan_put_states [of sha l f p x h fs] assms(4) ne sidecar_ok_torn [OF assms(1)]
    unfolding d_def [symmetric] e_def [symmetric] by (auto split: if_splits)
qed

interpretation lan: cold_contract "lan_backend sha l" "lan_inv sha l" "lan_holds sha l" for sha l
proof
  fix s p f x h
  assume inv: "lan_inv sha l s" and p: "clip_path p"
  then have d: "digest_ok sha" by (simp add: lan_inv_def)
  show "lan_inv sha l (snd (be_put (lan_backend sha l) f p x h s))"
    unfolding lan_inv_def
  proof (intro conjI allI impI)
    fix q t
    assume q: "clip_path q"
      and "snd (be_put (lan_backend sha l) f p x h s) (side_path (lan_root l @ components q) ''sha256'') = Some t"
    then have "snd (lan_put sha l f p x h s) (side_path (lan_root l @ components q) ''sha256'') = Some t"
      by (simp add: lan_backend_def)
    from lan_put_sidecars [OF d p q this] show "sidecar_ok sha t"
      using inv q unfolding lan_inv_def by blast
  qed (rule d)
next
  fix s p f x h r s'
  assume "be_put (lan_backend sha l) f p x h s = (Inr r, s')"
  then have "lan_put sha l f p x h s = (Inr r, s')" by (simp add: lan_backend_def)
  note ok = lan_put_ok [OF this]
  show "pr_path r = p \<and> lan_holds sha l s' p h"
    using ok(1,4) side_path_neq [of "''sha256''" "lan_root l @ components p"]
    by (auto simp: lan_holds_def ok(6))
next
  fix s p q f x h k
  assume "clip_path q" "components p \<noteq> components q" "lan_holds sha l s q k"
  then show "lan_holds sha l (snd (be_put (lan_backend sha l) f p x h s)) q k"
    by (simp add: lan_holds_def lan_backend_def lan_put_frame)
next
  fix s p f h
  assume inv: "lan_inv sha l s" and p: "clip_path p" and ex: "be_exists (lan_backend sha l) f p h s = Inr True"
  from ex obtain y t where y: "s (lan_root l @ components p) = Some y"
    and t: "s (side_path (lan_root l @ components p) ''sha256'') = Some t"
    and fields: "sidecar_fields t = (h, compute_spot_check sha y)"
    by (auto simp: lan_backend_def lan_exists_def spot_check_def dest!: resolve_inside
        split: sum.splits if_splits option.splits prod.splits)
  have "sidecar_ok sha t" "digest_ok sha" using inv p t by (auto simp: lan_inv_def)
  then show "lan_holds sha l s p h"
    using fields y digest_lengths(1) [of sha y] by (auto simp: sidecar_ok_def lan_holds_def)
qed

section \<open>Properties\<close>

text \<open>
  Round trip through a share: after a \<open>put\<close> that returned a receipt, the strict
  existence check answers yes for the same hash, whatever was stored there
  before, and a ranged read returns exactly the bytes asked for.
\<close>

lemma lan_put_then_read:
  assumes "digest_ok sha" "lan_put sha l f p x h fs = (Inr r, fs')" "\<not> fails g 0"
    "unat start \<le> unat stop" "unat stop < length x" "length x < 2 ^ 63"
  shows "lan_exists sha l g p h fs' = Inr True
    \<and> lan_get_range l p start stop fs' = Some (Inr (take (unat stop - unat start + 1) (drop (unat start) x)))"
proof (intro conjI)
  note ok = lan_put_ok [OF assms(2)] and dl = digest_lengths [OF assms(1)]
  have ne: "side_path (lan_root l @ components p) ''sha256'' \<noteq> lan_root l @ components p"
    by (rule side_path_neq) simp
  show "lan_exists sha l g p h fs' = Inr True"
    using assms(3) ne ok(4) fields_two(2) [of "sha256_hex sha x" "compute_spot_check sha x"] dl [of x]
    by (auto simp: lan_exists_def spot_check_def ok(5,6) utf8_sidecar)
  show "lan_get_range l p start stop fs' = Some (Inr (take (unat stop - unat start + 1) (drop (unat start) x)))"
    using assms(4-6) ne by (simp add: lan_get_range_def ok(5,6) range_len_def)
qed

definition demo_sha :: "string \<Rightarrow> string" where
  "demo_sha x = take 32 (x @ replicate 32 (CHR 0x00))"

definition demo_lan :: lan where
  "demo_lan = \<lparr>lan_handle = ''nas'', lan_root = [''mnt'', ''nas'']\<rparr>"

definition no_faults :: lan_faults where
  "no_faults = \<lparr>fails = (\<lambda>n. False), torn = 0, fault_now = 9\<rparr>"

text \<open>Digits from a table and the bound as an integer, for evaluation.\<close>

lemma hex_digit_table:
  assumes "n < 16"
  shows "hex_digit n = ''0123456789abcdef'' ! n"
proof -
  have "list_all (\<lambda>n. hex_digit n = ''0123456789abcdef'' ! n) [0..<16]" by code_simp
  then show ?thesis using assms by (simp only: list_all_iff set_upt) simp
qed

lemma hex_lower_code [code]:
  "hex_lower s = concat (map (\<lambda>c. let n = (of_char c :: int) in
     [''0123456789abcdef'' ! nat (n div 16), ''0123456789abcdef'' ! nat (n mod 16)]) s)"
proof -
  have "hex_digit (of_char c div 16) = ''0123456789abcdef'' ! nat ((of_char c :: int) div 16)"
    "hex_digit (of_char c mod 16) = ''0123456789abcdef'' ! nat ((of_char c :: int) mod 16)" for c
  proof -
    have i: "(of_char c :: int) = int (of_char c)" by (rule of_nat_of_char [symmetric])
    have "(of_char c :: nat) < 16 * 16" by simp
    then have "(of_char c :: nat) div 16 < 16" by (rule less_mult_imp_div_less)
    then show "hex_digit (of_char c div 16) = ''0123456789abcdef'' ! nat ((of_char c :: int) div 16)"
      unfolding i by (subst hex_digit_table) (simp_all add: nat_div_distrib)
    show "hex_digit (of_char c mod 16) = ''0123456789abcdef'' ! nat ((of_char c :: int) mod 16)"
      unfolding i by (subst hex_digit_table) (simp_all add: nat_mod_distrib)
  qed
  then show ?thesis by (simp only: hex_lower_def Let_def)
qed

lemma compute_spot_check_code [code]:
  "compute_spot_check sha x =
     hex_lower (sha (if int (length x) \<le> 131072 then x
       else take SPOT_CHECK_BYTES x @ drop (length x - SPOT_CHECK_BYTES) x @ to_le_bytes (length x)))"
  by (simp add: compute_spot_check_def SPOT_CHECK_BYTES_def)

lemma demo_digest: "digest_ok demo_sha"
  by (auto simp: digest_ok_def demo_sha_def)

lemma demo_put:
  "lan_put demo_sha demo_lan no_faults ''cam7/1.mp4'' ''abcdef'' (sha256_hex demo_sha ''abcdef'') Map.empty
     = (Inr \<lparr>pr_path = ''cam7/1.mp4'', pr_uploaded_at = 9, pr_bytes = 6, pr_url = None\<rparr>,
        [[''mnt'', ''nas'', ''cam7'', ''1.mp4''] \<mapsto> ''abcdef'',
         [''mnt'', ''nas'', ''cam7'', ''1.mp4.sha256'']
           \<mapsto> sidecar_text (sha256_hex demo_sha ''abcdef'') (compute_spot_check demo_sha ''abcdef'')])"
  by (simp add: lan_put_def demo_lan_def no_faults_def resolve_def starts_with_def components_def side_path_def
      side_name_def Let_def fun_eq_iff)

text \<open>
  Crash safety of \<open>put\<close>: whichever step fails, and however much of a write
  reaches the disk, the clip's file afterwards is the old one or the complete
  new one, it is only replaced by content whose hash was the expected one, and
  every path but the file, its temporary file and its sidecar is untouched.
\<close>

lemma lan_put_atomic:
  "let t = lan_root l @ components p; fs' = snd (lan_put sha l f p x h fs) in
   (fs' t = fs t \<or> fs' t = Some x \<and> h = sha256_hex sha x)
   \<and> (q \<in> {t, side_path t ''partial'', side_path t ''sha256''} \<or> fs' q = fs q)"
proof -
  define t where "t = lan_root l @ components p"
  define fs' where "fs' = snd (lan_put sha l f p x h fs)"
  have "side_path t ''partial'' \<noteq> t" "side_path t ''sha256'' \<noteq> t" by (intro side_path_neq; simp)+
  then show ?thesis
    using lan_put_states [of sha l f p x h fs, folded t_def fs'_def]
    unfolding t_def [symmetric] fs'_def [symmetric] Let_def by (elim disjE exE conjE) simp_all
qed

lemma stream_ok:
  "n \<le> length rest \<Longrightarrow> snd (stream_chunks n rest) = None \<and> concat (fst (stream_chunks n rest)) = take n rest
     \<and> (\<forall>c \<in> set (fst (stream_chunks n rest)). c \<noteq> [] \<and> length c \<le> STREAM_CHUNK_BYTES)"
proof (induction n rest rule: stream_chunks.induct)
  case (1 n rest)
  define w where "w = min n STREAM_CHUNK_BYTES"
  show ?case
  proof (cases "n = 0")
    case False
    have w: "w \<le> n" "w \<noteq> 0" "w \<le> length rest" "w \<le> STREAM_CHUNK_BYTES"
      using False "1.prems" by (auto simp: w_def STREAM_CHUNK_BYTES_def)
    have "\<not> length rest < w" "n - w \<le> length (drop w rest)" using "1.prems" w by auto
    note IH = "1.IH" [OF False w_def this]
    have ih: "snd (stream_chunks (n - w) (drop w rest)) = None"
      "concat (fst (stream_chunks (n - w) (drop w rest))) = take (n - w) (drop w rest)"
      "\<forall>c \<in> set (fst (stream_chunks (n - w) (drop w rest))). c \<noteq> [] \<and> length c \<le> STREAM_CHUNK_BYTES"
      using IH by simp_all
    have e: "stream_chunks n rest
        = (take w rest # fst (stream_chunks (n - w) (drop w rest)), snd (stream_chunks (n - w) (drop w rest)))"
      using False w by (subst stream_chunks.simps) (simp add: w_def [symmetric] split_beta Let_def)
    have "take w rest @ take (n - w) (drop w rest) = take n rest"
      using w(1) take_add [of w "n - w" rest] by simp
    then show ?thesis using ih w unfolding e by auto
  qed (simp add: stream_chunks.simps)
qed

lemma stream_short: "length rest < n \<Longrightarrow> snd (stream_chunks n rest) = Some Backend_Io"
proof (induction n rest rule: stream_chunks.induct)
  case (1 n rest)
  define w where "w = min n STREAM_CHUNK_BYTES"
  have w: "w \<le> n" by (simp add: w_def)
  have "n \<noteq> 0" using "1.prems" by auto
  then show ?case
    using "1.IH" [OF _ w_def] "1.prems" w
    by (subst stream_chunks.simps) (auto simp: w_def [symmetric] split_beta Let_def)
qed

text \<open>
  Streaming is equivalent to the buffered read: for a range inside the file
  the chunks of a stream, none empty and none above 64 KiB, concatenate to the
  bytes the buffered read returns, and the stream ends without an error; for a
  range beyond the end both report an I/O error.
\<close>

lemma lan_stream_equals_read:
  "case lan_get_range l p a b fs of
     Some (Inr bs) \<Rightarrow> (case lan_get_range_stream l p a b fs of
        Inr (cs, None) \<Rightarrow> concat cs = bs \<and> list_all (\<lambda>c. c \<noteq> [] \<and> length c \<le> 64 * 1024) cs
      | _ \<Rightarrow> False)
   | Some (Inl e) \<Rightarrow> (case lan_get_range_stream l p a b fs of
        Inl e' \<Rightarrow> e' = e
      | Inr (cs, end) \<Rightarrow> end = Some Backend_Io \<and> e = Backend_Io)
   | None \<Rightarrow> True"
proof (cases "resolve l p")
  case r: (Inr t)
  show ?thesis
  proof (cases "fs t")
    case c: (Some content)
    show ?thesis
    proof (cases "range_len a b")
      case n: (Inr n)
      then have "0 < n" by (auto simp: range_len_def split: if_splits)
      then show ?thesis
        using stream_ok [of n "drop (unat a) content"] stream_short [of "drop (unat a) content" n]
        by (cases "stream_chunks n (drop (unat a) content)")
          (auto simp: lan_get_range_def lan_get_range_stream_def r c n STREAM_CHUNK_BYTES_def list_all_iff not_le)
    qed (simp add: lan_get_range_def lan_get_range_stream_def r c)
  qed (simp add: lan_get_range_def lan_get_range_stream_def r)
qed (simp add: lan_get_range_def lan_get_range_stream_def)

text \<open>
  Hashing the length does not separate two files of equal size whose first and
  last 64 KiB agree: the spot check of a larger file does not see its middle.
\<close>

lemma spot_check_ignores_middle:
  assumes "length a = SPOT_CHECK_BYTES" "length c = SPOT_CHECK_BYTES" "length m = length n" "m \<noteq> []"
  shows "compute_spot_check sha (a @ m @ c) = compute_spot_check sha (a @ n @ c)"
proof -
  have "compute_spot_check sha (a @ x @ c) = hex_lower (sha (a @ c @ to_le_bytes (SPOT_CHECK_BYTES + (length x + SPOT_CHECK_BYTES))))"
    if "x \<noteq> []" for x
  proof -
    have "drop (length (a @ x @ c) - SPOT_CHECK_BYTES) (a @ x @ c) = c" using assms(1,2) by simp
    then show ?thesis using assms(1,2) that by (simp add: compute_spot_check_def)
  qed
  moreover have "n \<noteq> []" using assms(3,4) by auto
  ultimately show ?thesis using assms(3,4) by simp
qed

text \<open>Deleting removes the clip and nothing of another clip; deleting again reports that it was gone.\<close>

lemma lan_delete_gone:
  assumes "lan_delete l f p fs = (Inr True, fs')" "clip_path p"
  shows "lan_delete l g p fs' = (Inr False, fs')"
    and "clip_path q \<Longrightarrow> components q \<noteq> components p \<Longrightarrow>
      fs' (lan_root l @ components q) = fs (lan_root l @ components q)"
  using assms clip_not_side [of q "''sha256''" l]
  by (auto simp: lan_delete_def clip_path_def dest!: resolve_inside split: sum.splits if_splits)

end
