(* ===== verification/Cold_Replicator.thy ===== *)
theory Cold_Replicator
  imports Clip_Store Cold_Backend
begin

text \<open>
  The cold replicator of \<open>nexus-engine/src/cold_replicator.rs\<close>: the task that
  copies closed clips and ready alert clips to the active cold backend, marks
  them in the store, announces them to the cloud and repeats announcements until
  they are acknowledged.  It is generic in the backend, of which it uses only
  the contract of \<open>Cold_Backend\<close>.  The world is the clip database, the state of
  each backend by its handle, the envelopes handed to the tunnel, the events on
  the bus, what was asked of the throttle, and the two variables of the loop.
  What a pass reads from outside (clocks, file reads, fresh envelope ids, send
  results, failing store calls) is its environment, one record per clip.
\<close>

section \<open>Data\<close>

definition BATCH_SIZE :: int where
  "BATCH_SIZE = 32"

definition URGENT_CLIP_PRIORITY :: int where
  "URGENT_CLIP_PRIORITY = 2"

definition ALERT_COLD_BATCH :: int where
  "ALERT_COLD_BATCH = 8"

definition ALERT_COLD_RETRY :: int where
  "ALERT_COLD_RETRY = secs 60"

definition ANNOUNCE_BATCH :: int where
  "ANNOUNCE_BATCH = 32"

definition ANNOUNCE_BACKOFF_BASE :: int where
  "ANNOUNCE_BACKOFF_BASE = secs (5 * 60)"

definition ANNOUNCE_BACKOFF_CAP :: int where
  "ANNOUNCE_BACKOFF_CAP = secs (6 * 60 * 60)"

definition MAX_COLD_ATTEMPTS :: int where
  "MAX_COLD_ATTEMPTS = 8"

definition COLD_BACKOFF :: "int list" where
  "COLD_BACKOFF = [secs 60, secs (5 * 60), secs (30 * 60), secs (2 * 60 * 60), secs (6 * 60 * 60)]"

text \<open>The columns of the enrollment row that the replicator reads.\<close>

record cloud_enrollment =
  enrolled_at :: instant
  attach_replay_after :: "instant option"

record cr_config =
  cr_clips_dir :: path
  outbox_wired :: bool
  max_cold_upload_bytes :: u64

record clip_envelope =
  meta_id :: string
  edge_clip_id :: string
  env_camera_id :: nat
  env_blob_url :: string
  env_started_at :: instant
  env_duration_ms :: nat
  env_size_bytes :: nat
  env_sha256_hex :: string
  env_codec :: "string option"
  env_container :: "string option"
  env_attached_history :: "bool option"
  env_is_alert_clip :: "bool option"

text \<open>The store's own errors are its result or, for a call that never ran, \<open>None\<close>.\<close>

datatype upload_error =
  Missing_Hot_Path | Missing_Sha256 | Hot_Read path string
| Upload_Backend backend_error | Upload_Store "clip_error option"

record 's cr_world =
  cw_db :: media_db
  cw_cold :: "string \<Rightarrow> 's"
  cw_sent :: "clip_envelope list"
  cw_bus :: "(string \<times> string \<times> instant) list"
  cw_rate :: int
  cw_acquired :: "nat list"
  last_health_was_ok :: bool
  cw_kick :: bool

text \<open>
  The environment of one clip: faults of its \<open>exists\<close> and \<open>put\<close>, the hot file,
  the id of a new envelope, whether the tunnel takes it, which of its store
  calls fail (0 the announce stamp, 1 the cold mark, 2 the announce record,
  3 the failure record) and the clock at its successive readings.
\<close>

record 'f clip_env =
  ce_exists :: 'f
  ce_put :: 'f
  ce_read :: "path \<Rightarrow> string + string"
  ce_envelope :: string
  ce_sent :: bool
  ce_fails :: "nat \<Rightarrow> bool"
  ce_now :: "nat \<Rightarrow> instant"

record 'f tick_env =
  te_fails :: "nat \<Rightarrow> bool"
  te_health :: 'f
  te_now :: "nat \<Rightarrow> instant"
  te_enrollment :: "cloud_enrollment option"
  te_clip :: "int \<Rightarrow> 'f clip_env"
  te_alert :: "int \<Rightarrow> 'f clip_env"
  te_describe :: "upload_error \<Rightarrow> string"

record 'f announce_env =
  re_connected :: bool
  re_fails :: "nat \<Rightarrow> bool"
  re_now :: instant
  re_enrollment :: "cloud_enrollment option"
  re_clip :: "int \<Rightarrow> 'f clip_env"
  re_alert :: "int \<Rightarrow> 'f clip_env"

section \<open>Schedules\<close>

definition announce_next_at :: "instant \<Rightarrow> int \<Rightarrow> instant" where
  "announce_next_at now n =
     now + min (ANNOUNCE_BACKOFF_BASE * 2 ^ nat (max 0 (min 16 n))) ANNOUNCE_BACKOFF_CAP"

definition cold_backoff_schedule :: "int \<Rightarrow> instant \<Rightarrow> instant option \<times> bool" where
  "cold_backoff_schedule new_attempts now =
     (if new_attempts \<ge> MAX_COLD_ATTEMPTS then (None, True)
      else (Some (now + COLD_BACKOFF ! min (nat (max 1 new_attempts) - 1) (length COLD_BACKOFF - 1)), False))"

definition upload_floor :: "cloud_enrollment option \<Rightarrow> instant option" where
  "upload_floor enr =
     map_option (\<lambda>e. case attach_replay_after e of Some t \<Rightarrow> t | None \<Rightarrow> enrolled_at e) enr"

definition attached_history :: "cloud_enrollment option \<Rightarrow> instant \<Rightarrow> bool option" where
  "attached_history enr started =
     (case enr of
        None \<Rightarrow> None
      | Some e \<Rightarrow> if attach_replay_after e = None then None else Some (started < enrolled_at e))"

section \<open>Envelopes\<close>

text \<open>\<open>u64::try_from(x).unwrap_or(0)\<close> is \<open>nat x\<close>.\<close>

definition motion_clip_envelope :: "string \<Rightarrow> clip_row \<Rightarrow> string \<Rightarrow> bool option \<Rightarrow> clip_envelope" where
  "motion_clip_envelope eid c url hist =
     \<lparr>meta_id = eid, edge_clip_id = dec_int (cl_id c), env_camera_id = nat (cl_camera c), env_blob_url = url,
      env_started_at = cl_started c, env_duration_ms = nat (cl_duration_ms c), env_size_bytes = nat (cl_size c),
      env_sha256_hex = (case cl_sha256 c of None \<Rightarrow> [] | Some s \<Rightarrow> s), env_codec = Some (cl_codec c),
      env_container = Some (cl_container c), env_attached_history = hist, env_is_alert_clip = None\<rparr>"

definition alert_edge_id :: "int \<Rightarrow> string" where
  "alert_edge_id i = ''alert-'' @ dec_int i"

definition alert_clip_envelope :: "string \<Rightarrow> alert_clip_row \<Rightarrow> string \<Rightarrow> clip_envelope" where
  "alert_clip_envelope eid a url =
     \<lparr>meta_id = eid, edge_clip_id = alert_edge_id (al_id a), env_camera_id = nat (al_camera a),
      env_blob_url = url, env_started_at = al_started a, env_duration_ms = nat (al_duration_ms a),
      env_size_bytes = nat (al_size a), env_sha256_hex = (case al_sha256 a of None \<Rightarrow> [] | Some s \<Rightarrow> s),
      env_codec = Some ''h264'', env_container = Some ''mp4'', env_attached_history = None,
      env_is_alert_clip = Some True\<rparr>"

text \<open>An envelope that the tunnel took.\<close>

definition send_announce :: "clip_envelope \<Rightarrow> 's cr_world \<Rightarrow> 's cr_world" where
  "send_announce env w = w\<lparr>cw_sent := cw_sent w @ [env]\<rparr>"

section \<open>Uploading\<close>

subsection \<open>Cold paths\<close>

text \<open>\<open>Path::parent\<close> as text: trailing separators and \<open>.\<close> components do not count.\<close>

definition drop_trailing :: "string list \<Rightarrow> string list" where
  "drop_trailing ps = rev (dropWhile (\<lambda>c. c = [] \<or> c = ''.'') (rev ps))"

definition join_slash :: "string list \<Rightarrow> string" where
  "join_slash ps = concat (map (\<lambda>c. ''/'' @ c) ps)"

definition path_parent :: "string \<Rightarrow> string option" where
  "path_parent s =
     (case split_on (CHR ''/'') s of
        [] \<Rightarrow> None
      | p # ps \<Rightarrow>
          let rest = drop_trailing ps in
          if rest = [] then (if p = [] then None else Some [])
          else let up = drop_trailing (butlast rest) in
            Some (if p = [] \<and> up = [] then ''/'' else p @ join_slash up))"

definition cold_path_for :: "string \<Rightarrow> string \<Rightarrow> string" where
  "cold_path_for hot name =
     (case path_parent hot of
        Some parent \<Rightarrow> if parent \<noteq> [] then parent @ ''/'' @ name @ ''.mp4'' else name @ ''.mp4''
      | None \<Rightarrow> name @ ''.mp4'')"

subsection \<open>One clip\<close>

definition store_call ::
  "bool \<Rightarrow> (media_db \<Rightarrow> (clip_error + unit) \<times> media_db) \<Rightarrow> 's cr_world \<Rightarrow> (upload_error + unit) \<times> 's cr_world" where
  "store_call failing stmt w =
     (if failing then (Inl (Upload_Store None), w)
      else case stmt (cw_db w) of
             (Inl e, db) \<Rightarrow> (Inl (Upload_Store (Some e)), w\<lparr>cw_db := db\<rparr>)
           | (Inr u, db) \<Rightarrow> (Inr u, w\<lparr>cw_db := db\<rparr>))"

definition acquire :: "nat \<Rightarrow> 's cr_world \<Rightarrow> 's cr_world" where
  "acquire n w = w\<lparr>cw_acquired := cw_acquired w @ [n]\<rparr>"

text \<open>
  The end of both upload paths: the announce stamp when there is a blob URL,
  then the cold mark, then the announcement and, when it was sent, its record.
\<close>

definition commit_upload ::
  "cr_config \<Rightarrow> 'f clip_env \<Rightarrow> (string \<Rightarrow> media_db \<Rightarrow> (clip_error + unit) \<times> media_db)
     \<Rightarrow> (media_db \<Rightarrow> (clip_error + unit) \<times> media_db) \<Rightarrow> (instant \<Rightarrow> media_db \<Rightarrow> (clip_error + unit) \<times> media_db)
     \<Rightarrow> (string \<Rightarrow> clip_envelope) \<Rightarrow> string option \<Rightarrow> 's cr_world \<Rightarrow> (upload_error + unit) \<times> 's cr_world" where
  "commit_upload cfg e stamp mark sent envelope url w =
     (case (case url of None \<Rightarrow> (Inr (), w) | Some u \<Rightarrow> store_call (ce_fails e 0) (stamp u) w) of
        (Inl err, w1) \<Rightarrow> (Inl err, w1)
      | (Inr _, w1) \<Rightarrow>
          (case store_call (ce_fails e 1) mark w1 of
             (Inl err, w2) \<Rightarrow> (Inl err, w2)
           | (Inr _, w2) \<Rightarrow>
               (case url of
                  Some u \<Rightarrow>
                    if outbox_wired cfg \<and> ce_sent e
                    then (Inr (), snd (store_call (ce_fails e 2) (sent (announce_next_at (ce_now e 1) 0))
                            (send_announce (envelope u) w2)))
                    else (Inr (), w2)
                | None \<Rightarrow> (Inr (), w2))))"

definition put_cold ::
  "('f, 's) cold_backend \<Rightarrow> 'f clip_env \<Rightarrow> string \<Rightarrow> string \<Rightarrow> string \<Rightarrow> 's cr_world
     \<Rightarrow> (backend_error + put_receipt) \<times> 's cr_world" where
  "put_cold b e path bytes sha w =
     (case be_put b (ce_put e) path bytes sha (cw_cold w (be_handle b)) of
        (r, s) \<Rightarrow> (r, w\<lparr>cw_cold := (cw_cold w)(be_handle b := s)\<rparr>))"

definition upload_one ::
  "cr_config \<Rightarrow> ('f, 's) cold_backend \<Rightarrow> 'f clip_env \<Rightarrow> clip_row \<Rightarrow> bool option \<Rightarrow> 's cr_world
     \<Rightarrow> (upload_error + unit) \<times> 's cr_world" where
  "upload_one cfg b e c hist w =
     (case hot_path c of
        None \<Rightarrow> (Inl Missing_Hot_Path, w)
      | Some hot \<Rightarrow>
     (case cl_sha256 c of
        None \<Rightarrow> (Inl Missing_Sha256, w)
      | Some sha \<Rightarrow>
     (let path = cold_path_for hot (dec_int (cl_id c));
          announces = outbox_wired cfg \<and> be_yields_cloud_url b in
      case be_exists b (ce_exists e) path sha (cw_cold w (be_handle b)) of
        Inl err \<Rightarrow> (Inl (Upload_Backend err), w)
      | Inr there \<Rightarrow>
          if there \<and> \<not> announces
          then store_call (ce_fails e 1) (mark_cold_replicated (cl_id c)
                 \<lparr>cm_handle = be_handle b, cm_path = path, cm_uploaded_at = ce_now e 0\<rparr>) w
          else
            (case ce_read e (join_path (cr_clips_dir cfg) hot) of
               Inl msg \<Rightarrow> (Inl (Hot_Read (join_path (cr_clips_dir cfg) hot) msg), w)
             | Inr bytes \<Rightarrow>
                 (case put_cold b e path bytes sha
                         (if cl_priority c < URGENT_CLIP_PRIORITY then acquire (length bytes) w else w) of
                    (Inl err, w1) \<Rightarrow> (Inl (Upload_Backend err), w1)
                  | (Inr r, w1) \<Rightarrow>
                      commit_upload cfg e
                        (\<lambda>u. stamp_clip_announce (cl_id c) u (ce_envelope e))
                        (mark_cold_replicated (cl_id c)
                           \<lparr>cm_handle = be_handle b, cm_path = pr_path r, cm_uploaded_at = pr_uploaded_at r\<rparr>)
                        (record_clip_announce_sent (cl_id c))
                        (\<lambda>u. motion_clip_envelope (ce_envelope e) c u hist) (pr_url r) w1)))))"

definition upload_alert_clip_one ::
  "cr_config \<Rightarrow> ('f, 's) cold_backend \<Rightarrow> 'f clip_env \<Rightarrow> alert_clip_row \<Rightarrow> 's cr_world
     \<Rightarrow> (upload_error + unit) \<times> 's cr_world" where
  "upload_alert_clip_one cfg b e a w =
     (case al_sha256 a of
        None \<Rightarrow> (Inl Missing_Sha256, w)
      | Some sha \<Rightarrow>
     (let path = cold_path_for (al_path a) (alert_edge_id (al_id a));
          announces = outbox_wired cfg \<and> be_yields_cloud_url b;
          commit = commit_upload cfg e
            (\<lambda>u. stamp_alert_clip_announce (al_id a) u (ce_envelope e))
            (mark_alert_clip_cold_replicated (al_id a)
               \<lparr>cm_handle = be_handle b, cm_path = path, cm_uploaded_at = ce_now e 0\<rparr>)
            (record_alert_clip_announce_sent (al_id a))
            (alert_clip_envelope (ce_envelope e) a) in
      case be_exists b (ce_exists e) path sha (cw_cold w (be_handle b)) of
        Inl err \<Rightarrow> (Inl (Upload_Backend err), w)
      | Inr there \<Rightarrow>
          if there \<and> \<not> announces then commit None w
          else
            (case ce_read e (join_path (cr_clips_dir cfg) (al_path a)) of
               Inl msg \<Rightarrow> (Inl (Hot_Read (join_path (cr_clips_dir cfg) (al_path a)) msg), w)
             | Inr bytes \<Rightarrow>
                 (case put_cold b e path bytes sha (acquire (length bytes) w) of
                    (Inl err, w1) \<Rightarrow> (Inl (Upload_Backend err), w1)
                  | (Inr r, w1) \<Rightarrow> commit (pr_url r) w1))))"

section \<open>A tick\<close>

text \<open>The size guard, the upload, and the record of a failure.\<close>

definition upload_pending ::
  "cr_config \<Rightarrow> ('f, 's) cold_backend \<Rightarrow> 'f tick_env \<Rightarrow> clip_row \<Rightarrow> 's cr_world \<Rightarrow> 's cr_world" where
  "upload_pending cfg b te c w =
     (let e = te_clip te (cl_id c) in
      if cl_size c > 0 \<and> cl_size c > uint (max_cold_upload_bytes cfg)
      then snd (store_call (ce_fails e 3) (quarantine_clip (cl_id c) (ce_now e 2)
             (''size '' @ dec_int (cl_size c) @ '' bytes exceeds cold-upload ceiling ''
                @ dec_int (uint (max_cold_upload_bytes cfg)) @ '' bytes'')) w)
      else case upload_one cfg b e c (attached_history (te_enrollment te) (cl_started c)) w of
             (Inr _, w1) \<Rightarrow> w1
           | (Inl err, w1) \<Rightarrow>
               (case cold_backoff_schedule (cold_attempts c + 1) (ce_now e 2) of
                  (next, quarantine) \<Rightarrow>
                    snd (store_call (ce_fails e 3)
                      (record_cold_upload_failure (cl_id c) (ce_now e 2) (te_describe te err) next quarantine) w1)))"

definition upload_pending_alert ::
  "cr_config \<Rightarrow> ('f, 's) cold_backend \<Rightarrow> 'f tick_env \<Rightarrow> alert_clip_row \<Rightarrow> 's cr_world \<Rightarrow> 's cr_world" where
  "upload_pending_alert cfg b te a w =
     (let e = te_alert te (al_id a) in
      case upload_alert_clip_one cfg b e a w of
        (Inr _, w1) \<Rightarrow> w1
      | (Inl err, w1) \<Rightarrow>
          snd (store_call (ce_fails e 3)
            (\<lambda>db. (Inr (), record_alert_clip_cold_failure (al_id a) (ce_now e 2) (te_describe te err) db)) w1))"

definition drain_alert_clips ::
  "cr_config \<Rightarrow> ('f, 's) cold_backend \<Rightarrow> 'f tick_env \<Rightarrow> instant option \<Rightarrow> 's cr_world \<Rightarrow> 's cr_world" where
  "drain_alert_clips cfg b te fl w =
     (if te_fails te 2 then w
      else fold (upload_pending_alert cfg b te)
             (alert_clips_pending_cold_upload ALERT_COLD_BATCH fl (te_now te 2 - ALERT_COLD_RETRY) (cw_db w)) w)"

text \<open>
  One drain attempt.  \<open>te_fails\<close> are the reads of the policy, of the pending clips
  and of the pending alert clips; a failed read of the enrollment is \<open>None\<close>.
\<close>

definition drain_clips ::
  "cr_config \<Rightarrow> ('f, 's) cold_backend \<Rightarrow> 'f tick_env \<Rightarrow> instant option \<Rightarrow> 's cr_world \<Rightarrow> 's cr_world" where
  "drain_clips cfg b te fl w =
     fold (upload_pending cfg b te)
       (if te_fails te 1 then [] else clips_pending_cold_upload (te_now te 1) BATCH_SIZE fl (cw_db w)) w"

definition tick ::
  "cr_config \<Rightarrow> ('f, 's) backend_registry \<Rightarrow> 'f tick_env \<Rightarrow> 's cr_world \<Rightarrow> 's cr_world" where
  "tick cfg reg te w =
     (if te_fails te 0 then w
      else case read_cold_replica (cw_db w) of
        (None, bps) \<Rightarrow> w
      | (Some h, bps) \<Rightarrow>
          if h = ''local'' then w
          else (case registry_get h reg of
            None \<Rightarrow> w
          | Some b \<Rightarrow>
              (case be_health b (te_health te) (cw_cold w (be_handle b)) of
                 Read_Only reason \<Rightarrow> w
               | Unreachable reason \<Rightarrow>
                   if last_health_was_ok w
                   then w\<lparr>cw_bus := cw_bus w @ [(h, reason, te_now te 0)], last_health_was_ok := False\<rparr>
                   else w
               | Health_Ok \<Rightarrow>
                   let fl = upload_floor (te_enrollment te);
                       w1 = drain_clips cfg b te fl (w\<lparr>last_health_was_ok := True, cw_rate := max 0 bps\<rparr>)
                   in if outbox_wired cfg then drain_alert_clips cfg b te fl w1 else w1)))"

section \<open>Repeated announcements\<close>

text \<open>One table's pass: it stops at the first envelope that the tunnel does not take.\<close>

fun announce_rows ::
  "('r \<Rightarrow> 'f clip_env) \<Rightarrow> ('r \<Rightarrow> string \<Rightarrow> string \<Rightarrow> media_db \<Rightarrow> (clip_error + unit) \<times> media_db)
     \<Rightarrow> ('r \<Rightarrow> instant \<Rightarrow> media_db \<Rightarrow> (clip_error + unit) \<times> media_db) \<Rightarrow> (string \<Rightarrow> 'r \<Rightarrow> string \<Rightarrow> clip_envelope)
     \<Rightarrow> instant \<Rightarrow> ('r \<times> string \<times> int) list \<Rightarrow> 's cr_world \<Rightarrow> bool \<times> 's cr_world" where
  "announce_rows env stamp sent envelope now [] w = (True, w)"
| "announce_rows env stamp sent envelope now ((c, url, n) # rows) w =
     (case store_call (ce_fails (env c) 0) (stamp c url (ce_envelope (env c))) w of
        (Inl err, w1) \<Rightarrow> announce_rows env stamp sent envelope now rows w1
      | (Inr _, w1) \<Rightarrow>
          if \<not> ce_sent (env c) then (False, w1)
          else announce_rows env stamp sent envelope now rows
                 (snd (store_call (ce_fails (env c) 2) (sent c (announce_next_at now n))
                    (send_announce (envelope (ce_envelope (env c)) c url) w1))))"

definition reannounce :: "cr_config \<Rightarrow> 'f announce_env \<Rightarrow> 's cr_world \<Rightarrow> 's cr_world" where
  "reannounce cfg re w =
     (if \<not> outbox_wired cfg \<or> \<not> re_connected re then w
      else
        let fl = upload_floor (re_enrollment re);
            (go, w1) = announce_rows (\<lambda>c. re_clip re (cl_id c)) (\<lambda>c. stamp_clip_announce (cl_id c))
              (\<lambda>c. record_clip_announce_sent (cl_id c))
              (\<lambda>eid c url. motion_clip_envelope eid c url (attached_history (re_enrollment re) (cl_started c)))
              (re_now re)
              (if re_fails re 0 then [] else clips_pending_cloud_announce ANNOUNCE_BATCH (re_now re) fl (cw_db w)) w
        in if \<not> go then w1
           else snd (announce_rows (\<lambda>a. re_alert re (al_id a)) (\<lambda>a. stamp_alert_clip_announce (al_id a))
              (\<lambda>a. record_alert_clip_announce_sent (al_id a)) alert_clip_envelope (re_now re)
              (if re_fails re 1 then [] else alert_clips_pending_cloud_announce ANNOUNCE_BATCH (re_now re) fl (cw_db w1))
              w1))"

section \<open>The loop\<close>

text \<open>
  What wakes the task: the polling timer, a closed clip, a kick, or an alert on a
  camera (whose store call may fail).  The two streams' own errors only log.
\<close>

datatype 'f cr_event =
  Poll "'f tick_env" "'f announce_env" | Clip_Closed "'f tick_env" | Kicked "'f tick_env" | Alert_Seen int bool

fun replicator_step ::
  "cr_config \<Rightarrow> ('f, 's) backend_registry \<Rightarrow> 'f cr_event \<Rightarrow> 's cr_world \<Rightarrow> 's cr_world" where
  "replicator_step cfg reg (Poll te re) w = reannounce cfg re (tick cfg reg te w)"
| "replicator_step cfg reg (Clip_Closed te) w = tick cfg reg te w"
| "replicator_step cfg reg (Kicked te) w = tick cfg reg te (w\<lparr>cw_kick := False\<rparr>)"
| "replicator_step cfg reg (Alert_Seen cam failing) w =
     (if failing then w
      else case bump_latest_pending_clip_for_camera cam URGENT_CLIP_PRIORITY (cw_db w) of
             (Some i, db) \<Rightarrow> w\<lparr>cw_db := db, cw_kick := True\<rparr>
           | (None, db) \<Rightarrow> w\<lparr>cw_db := db\<rparr>)"

end
