(* ===== verification/Cold_Replication.thy ===== *)
theory Cold_Replication
  imports Cold_Replicator Lan_Backend
begin

text \<open>
  What the cold replicator guarantees.  Its statements edit one row each
  (\<open>edits\<close>); from that follow the schema, the bound on failed uploads and the
  announcement set.  In \<open>cold_contract\<close>, for any backend that keeps its contract,
  every row marked cold is backed by the backend; the filesystem backend of
  \<open>Lan_Backend\<close> is such a backend.
\<close>

section \<open>Edits of one row\<close>

definition edits :: "(clip_row \<Rightarrow> clip_row \<Rightarrow> bool) \<Rightarrow> int \<Rightarrow> media_db \<Rightarrow> media_db \<Rightarrow> bool" where
  "edits R i db db' \<longleftrightarrow>
     (\<exists>g. (\<forall>c. R c (g c)) \<and> db' = db\<lparr>clips := map (\<lambda>c. if cl_id c = i then g c else c) (clips db)\<rparr>)"

definition alert_edits :: "(alert_clip_row \<Rightarrow> alert_clip_row \<Rightarrow> bool) \<Rightarrow> int \<Rightarrow> media_db \<Rightarrow> media_db \<Rightarrow> bool" where
  "alert_edits R i db db' \<longleftrightarrow>
     (\<exists>g. (\<forall>a. R a (g a)) \<and> db' = db\<lparr>alert_clips := map (\<lambda>a. if al_id a = i then g a else a) (alert_clips db)\<rparr>)"

text \<open>What an upload does to a row: it may mark it cold on \<open>h\<close> at a path in \<open>Q\<close>, and it may
  stamp announcement columns; an acknowledgement, the content and the retry state stay.\<close>

definition cold_edit :: "string \<Rightarrow> (string \<Rightarrow> bool) \<Rightarrow> clip_row \<Rightarrow> clip_row \<Rightarrow> bool" where
  "cold_edit h Q c d \<longleftrightarrow>
     cl_id d = cl_id c \<and> cl_sha256 d = cl_sha256 c \<and> hot_handle d = hot_handle c \<and> hot_path d = hot_path c
     \<and> cl_started d = cl_started c \<and> cl_announced_at d = cl_announced_at c
     \<and> cold_attempts d = cold_attempts c \<and> cold_quarantined d = cold_quarantined c
     \<and> (cold_handle d = cold_handle c \<and> cold_path d = cold_path c
        \<or> cold_handle d = Some h \<and> (\<exists>p. cold_path d = Some p \<and> Q p))"

definition alert_cold_edit :: "string \<Rightarrow> (string \<Rightarrow> bool) \<Rightarrow> alert_clip_row \<Rightarrow> alert_clip_row \<Rightarrow> bool" where
  "alert_cold_edit h Q a d \<longleftrightarrow>
     al_id d = al_id a \<and> al_sha256 d = al_sha256 a \<and> al_path d = al_path a \<and> al_state d = al_state a
     \<and> al_announced_at d = al_announced_at a
     \<and> (al_cold_handle d = al_cold_handle a \<and> al_cold_path d = al_cold_path a
          \<and> al_cold_uploaded_at d = al_cold_uploaded_at a
        \<or> al_cold_handle d = Some h \<and> (\<exists>p. al_cold_path d = Some p \<and> Q p) \<and> al_cold_uploaded_at d \<noteq> None)"

lemma cold_edit_refl [simp]: "cold_edit h Q c c"
  by (simp add: cold_edit_def)

lemma cold_edit_trans: "cold_edit h Q c d \<Longrightarrow> cold_edit h Q d e \<Longrightarrow> cold_edit h Q c e"
  unfolding cold_edit_def by (elim conjE; intro conjI; simp) auto

lemma alert_cold_edit_refl [simp]: "alert_cold_edit h Q c c"
  by (simp add: alert_cold_edit_def)

lemma alert_cold_edit_trans: "alert_cold_edit h Q c d \<Longrightarrow> alert_cold_edit h Q d e \<Longrightarrow> alert_cold_edit h Q c e"
  unfolding alert_cold_edit_def by (elim conjE; intro conjI; simp) auto

lemma edits_refl [simp]: "(\<And>c. R c c) \<Longrightarrow> edits R i db db"
  unfolding edits_def by (rule exI [of _ "\<lambda>c. c"]) simp

lemma alert_edits_refl [simp]: "(\<And>c. R c c) \<Longrightarrow> alert_edits R i db db"
  unfolding alert_edits_def by (rule exI [of _ "\<lambda>c. c"]) simp

lemma edits_trans:
  assumes "edits R i db db'" "edits R i db' db''" "\<And>c d e. R c d \<Longrightarrow> R d e \<Longrightarrow> R c e" "\<And>c d. R c d \<Longrightarrow> cl_id d = cl_id c"
  shows "edits R i db db''"
proof -
  obtain g g' where g: "\<forall>c. R c (g c)" "db' = db\<lparr>clips := map (\<lambda>c. if cl_id c = i then g c else c) (clips db)\<rparr>"
    and g': "\<forall>c. R c (g' c)" "db'' = db'\<lparr>clips := map (\<lambda>c. if cl_id c = i then g' c else c) (clips db')\<rparr>"
    using assms(1,2) unfolding edits_def by blast
  have "\<forall>c. R c (g' (g c))" using g(1) g'(1) assms(3) by blast
  moreover have "db'' = db\<lparr>clips := map (\<lambda>c. if cl_id c = i then g' (g c) else c) (clips db)\<rparr>"
    using g(1) assms(4) by (auto simp: g'(2) g(2) o_def intro!: arg_cong [of _ _ "\<lambda>x. db\<lparr>clips := x\<rparr>"] map_cong)
  ultimately show ?thesis unfolding edits_def by (intro exI [of _ "g' \<circ> g"]) simp
qed

lemma alert_edits_trans:
  assumes "alert_edits R i db db'" "alert_edits R i db' db''" "\<And>c d e. R c d \<Longrightarrow> R d e \<Longrightarrow> R c e" "\<And>c d. R c d \<Longrightarrow> al_id d = al_id c"
  shows "alert_edits R i db db''"
proof -
  obtain g g' where g: "\<forall>c. R c (g c)" "db' = db\<lparr>alert_clips := map (\<lambda>c. if al_id c = i then g c else c) (alert_clips db)\<rparr>"
    and g': "\<forall>c. R c (g' c)" "db'' = db'\<lparr>alert_clips := map (\<lambda>c. if al_id c = i then g' c else c) (alert_clips db')\<rparr>"
    using assms(1,2) unfolding alert_edits_def by blast
  have "\<forall>c. R c (g' (g c))" using g(1) g'(1) assms(3) by blast
  moreover have "db'' = db\<lparr>alert_clips := map (\<lambda>c. if al_id c = i then g' (g c) else c) (alert_clips db)\<rparr>"
    using g(1) assms(4) by (auto simp: g'(2) g(2) o_def intro!: arg_cong [of _ _ "\<lambda>x. db\<lparr>alert_clips := x\<rparr>"] map_cong)
  ultimately show ?thesis unfolding alert_edits_def by (intro exI [of _ "g' \<circ> g"]) simp
qed

lemma update_clips_edits:
  assumes "\<And>c. R c (f c)"
  shows "edits R i db (snd (update_clips (\<lambda>c. cl_id c = i) f db))"
  unfolding edits_def update_clips_def using assms by (intro exI [of _ f]) simp

lemma update_alert_clips_edits:
  assumes "\<And>c. R c (f c)"
  shows "alert_edits R i db (snd (update_alert_clips (\<lambda>c. al_id c = i) f db))"
  unfolding alert_edits_def update_alert_clips_def using assms by (intro exI [of _ f]) simp

lemma statement_edits:
  "edits (cold_edit h Q) i db (snd (stamp_clip_announce i u a db))"
  "edits (cold_edit h Q) i db (snd (record_clip_announce_sent i t db))"
  unfolding stamp_clip_announce_def record_clip_announce_sent_def
  by (auto intro!: update_clips_edits simp: cold_edit_def)

lemma mark_edits:
  "Q p \<Longrightarrow> edits (cold_edit h Q) i db (snd (mark_cold_replicated i \<lparr>cm_handle = h, cm_path = p, cm_uploaded_at = t\<rparr> db))"
  unfolding mark_cold_replicated_def
  by (cases "has_clip i db \<and> \<not> has_backend h db") (auto intro!: update_clips_edits simp: cold_edit_def)

lemma alert_statement_edits:
  "alert_edits (alert_cold_edit h Q) i db (snd (stamp_alert_clip_announce i u a db))"
  "alert_edits (alert_cold_edit h Q) i db (snd (record_alert_clip_announce_sent i t db))"
  unfolding stamp_alert_clip_announce_def record_alert_clip_announce_sent_def
  by (auto intro!: update_alert_clips_edits simp: alert_cold_edit_def)

lemma alert_mark_edits:
  "Q p \<Longrightarrow> alert_edits (alert_cold_edit h Q) i db
     (snd (mark_alert_clip_cold_replicated i \<lparr>cm_handle = h, cm_path = p, cm_uploaded_at = t\<rparr> db))"
  unfolding mark_alert_clip_cold_replicated_def
  by (cases "has_alert_clip i db \<and> \<not> has_backend h db") (auto intro!: update_alert_clips_edits simp: alert_cold_edit_def)

section \<open>Frames\<close>

lemma store_call_db:
  "cw_db (snd (store_call failing stmt w)) = (if failing then cw_db w else snd (stmt (cw_db w)))"
  by (simp add: store_call_def split: prod.split sum.split)

lemma store_call_frame [simp]:
  "cw_cold (snd (store_call failing stmt w)) = cw_cold w" "cw_bus (snd (store_call failing stmt w)) = cw_bus w"
  "last_health_was_ok (snd (store_call failing stmt w)) = last_health_was_ok w"
  "cw_sent (snd (store_call failing stmt w)) = cw_sent w"
  by (simp_all add: store_call_def split: prod.split sum.split)

lemma send_frame [simp]:
  "cw_db (send_announce env w) = cw_db w" "cw_cold (send_announce env w) = cw_cold w"
  "cw_bus (send_announce env w) = cw_bus w" "last_health_was_ok (send_announce env w) = last_health_was_ok w"
  by (simp_all add: send_announce_def)

lemma acquire_frame [simp]:
  "cw_db (acquire n w) = cw_db w" "cw_cold (acquire n w) = cw_cold w"
  "cw_bus (acquire n w) = cw_bus w" "last_health_was_ok (acquire n w) = last_health_was_ok w"
  by (simp_all add: acquire_def)

text \<open>Whatever relation the statements of a commit respect, the commit respects.\<close>

lemma commit_upload_rel:
  assumes "\<And>db. E db db" "\<And>a b c. E a b \<Longrightarrow> E b c \<Longrightarrow> E a c"
    "\<And>u db. E db (snd (stamp u db))" "\<And>db. E db (snd (mark db))" "\<And>t db. E db (snd (sent t db))"
  shows "E (cw_db w) (cw_db (snd (commit_upload cfg e stamp mark sent envelope url w)))"
proof -
  have call: "E (cw_db v) (cw_db (snd (store_call f s v)))" if "\<And>db. E db (snd (s db))" for f s v
    using that assms(1) by (simp add: store_call_db)
  define w1 where "w1 = (case url of None \<Rightarrow> (Inr (), w) | Some u \<Rightarrow> store_call (ce_fails e 0) (stamp u) w)"
  define w2 where "w2 = store_call (ce_fails e 1) mark (snd w1)"
  have s1: "E (cw_db w) (cw_db (snd w1))"
    unfolding w1_def using assms(1) call [OF assms(3)] by (auto split: option.split)
  have s2: "E (cw_db w) (cw_db (snd w2))"
    unfolding w2_def by (rule assms(2) [OF s1 call [OF assms(4)]])
  have s3: "E (cw_db w) (cw_db (snd (store_call f (sent t) (send_announce env (snd w2)))))" for f t env
    using assms(2) [OF s2, of "cw_db (snd (store_call f (sent t) (send_announce env (snd w2))))"]
      call [OF assms(5), of "send_announce env (snd w2)"] by simp
  show ?thesis
    unfolding commit_upload_def w1_def [symmetric] using s1 s2 s3 w2_def [symmetric]
    by (cases w1; cases "fst w1"; cases w2; cases "fst w2") (auto split: option.split)
qed

lemma commit_upload_frame [simp]:
  "cw_cold (snd (commit_upload cfg e stamp mark sent envelope url w)) = cw_cold w"
  "cw_bus (snd (commit_upload cfg e stamp mark sent envelope url w)) = cw_bus w"
  "last_health_was_ok (snd (commit_upload cfg e stamp mark sent envelope url w)) = last_health_was_ok w"
proof -
  have k: "K (snd (commit_upload cfg e stamp mark sent envelope url w)) = K w"
    if "\<And>f s v. K (snd (store_call f s v)) = K v" "\<And>env v. K (send_announce env v) = K v" for K :: "'a cr_world \<Rightarrow> 'k"
  proof -
    have "K v = K w" if "store_call f s w = (r, v)" for f s r v
      using \<open>\<And>f s v. K (snd (store_call f s v)) = K v\<close> [of f s w] that by simp
    moreover have "K v = K u" if "store_call f s u = (r, v)" for f s r v u
      using \<open>\<And>f s v. K (snd (store_call f s v)) = K v\<close> [of f s u] that by simp
    ultimately show ?thesis
      unfolding commit_upload_def using that
      by (auto split: option.split prod.split sum.split)
  qed
  show "cw_cold (snd (commit_upload cfg e stamp mark sent envelope url w)) = cw_cold w" by (rule k) simp_all
  show "cw_bus (snd (commit_upload cfg e stamp mark sent envelope url w)) = cw_bus w" by (rule k) simp_all
  show "last_health_was_ok (snd (commit_upload cfg e stamp mark sent envelope url w)) = last_health_was_ok w"
    by (rule k) simp_all
qed

section \<open>One upload\<close>

text \<open>
  The four ways an upload can end: nothing changed, a copy was found, the copy
  failed, or it was stored; only then, or when found, is the row marked cold.
\<close>

lemma put_cold_eq:
  "put_cold b e p x sha w = (r, w') \<longleftrightarrow>
     (\<exists>s. be_put b (ce_put e) p x sha (cw_cold w (be_handle b)) = (r, s) \<and> w' = w\<lparr>cw_cold := (cw_cold w)(be_handle b := s)\<rparr>)"
  by (auto simp: put_cold_def split: prod.split)

lemma edits_commit:
  assumes "Q p"
  shows "edits (cold_edit h Q) i (cw_db w) (cw_db (snd (commit_upload cfg e (\<lambda>u. stamp_clip_announce i u aid)
     (mark_cold_replicated i \<lparr>cm_handle = h, cm_path = p, cm_uploaded_at = t\<rparr>) (record_clip_announce_sent i) envelope url w)))"
  by (rule commit_upload_rel [where E = "edits (cold_edit h Q) i"])
    (auto intro: statement_edits mark_edits assms elim!: edits_trans cold_edit_trans simp: cold_edit_def)

lemma alert_edits_commit:
  assumes "Q p"
  shows "alert_edits (alert_cold_edit h Q) i (cw_db w) (cw_db (snd (commit_upload cfg e (\<lambda>u. stamp_alert_clip_announce i u aid)
     (mark_alert_clip_cold_replicated i \<lparr>cm_handle = h, cm_path = p, cm_uploaded_at = t\<rparr>)
     (record_alert_clip_announce_sent i) envelope url w)))"
  by (rule commit_upload_rel [where E = "alert_edits (alert_cold_edit h Q) i"])
    (auto intro: alert_statement_edits alert_mark_edits assms elim!: alert_edits_trans alert_cold_edit_trans
      simp: alert_cold_edit_def)

text \<open>The skeleton of both upload paths: look for a copy, else read and put, then continue.\<close>

lemma copy_cases:
  fixes w :: "'s cr_world" and b :: "('f, 's) cold_backend" and kept :: "string \<Rightarrow> 's cr_world"
  assumes run: "(case be_exists b f p sha (cw_cold w (be_handle b)) of
       Inl err \<Rightarrow> (Inl (Upload_Backend err), w)
     | Inr there \<Rightarrow>
         if there \<and> \<not> announces then marked
         else (case ce_read e q of
            Inl msg \<Rightarrow> (Inl (Hot_Read q msg), w)
          | Inr x \<Rightarrow> (case put_cold b e p x sha (kept x) of
               (Inl err, w1) \<Rightarrow> (Inl (Upload_Backend err), w1)
             | (Inr r, w1) \<Rightarrow> commit r w1))) = (res, w')"
    and keep: "\<And>x. cw_db (kept x) = cw_db w" "\<And>x. cw_cold (kept x) = cw_cold w"
  obtains (untouched) err where "res = Inl err" "w' = w"
  | (found) "be_exists b f p sha (cw_cold w (be_handle b)) = Inr True" "marked = (res, w')" "\<not> announces"
  | (failed) x err s where "be_put b (ce_put e) p x sha (cw_cold w (be_handle b)) = (Inl err, s)"
      "cw_cold w' = (cw_cold w)(be_handle b := s)" "cw_db w' = cw_db w" "res = Inl (Upload_Backend err)"
  | (stored) x r s w1 where "be_put b (ce_put e) p x sha (cw_cold w (be_handle b)) = (Inr r, s)"
      "cw_cold w1 = (cw_cold w)(be_handle b := s)" "cw_db w1 = cw_db w" "commit r w1 = (res, w')"
proof (cases "be_exists b f p sha (cw_cold w (be_handle b))")
  case ex: (Inr there)
  show ?thesis
  proof (cases "there \<and> \<not> announces")
    case False
    show ?thesis
    proof (cases "ce_read e q")
      case (Inl msg)
      then have "res = Inl (Hot_Read q msg)" "w' = w" using run ex False by auto
      then show ?thesis by (rule untouched)
    next
      case rd: (Inr x)
      obtain r s where put: "be_put b (ce_put e) p x sha (cw_cold w (be_handle b)) = (r, s)" by fastforce
      define w1 where "w1 = (kept x)\<lparr>cw_cold := (cw_cold w)(be_handle b := s)\<rparr>"
      have pc: "put_cold b e p x sha (kept x) = (r, w1)" "cw_cold w1 = (cw_cold w)(be_handle b := s)" "cw_db w1 = cw_db w"
        using put by (simp_all add: put_cold_eq w1_def keep)
      show ?thesis
        using run ex False rd put pc failed [of x _ s] stored [of x _ s w1] by (cases r) auto
    qed
  qed (use run ex found in simp)
next
  case (Inl err)
  then have "res = Inl (Upload_Backend err)" "w' = w" using run by auto
  then show ?thesis by (rule untouched)
qed

lemma upload_one_cases:
  fixes w :: "'s cr_world" and b :: "('f, 's) cold_backend"
  assumes "upload_one cfg b e c hist w = (res, w')"
  obtains (untouched) err where "res = Inl err" "w' = w"
  | (found) hot sha where "hot_path c = Some hot" "cl_sha256 c = Some sha"
      "be_exists b (ce_exists e) (cold_path_for hot (dec_int (cl_id c))) sha (cw_cold w (be_handle b)) = Inr True"
      "cw_cold w' = cw_cold w"
      "edits (cold_edit (be_handle b) ((=) (cold_path_for hot (dec_int (cl_id c))))) (cl_id c) (cw_db w) (cw_db w')"
  | (failed) hot sha x err s where "hot_path c = Some hot" "cl_sha256 c = Some sha"
      "be_put b (ce_put e) (cold_path_for hot (dec_int (cl_id c))) x sha (cw_cold w (be_handle b)) = (Inl err, s)"
      "cw_cold w' = (cw_cold w)(be_handle b := s)" "cw_db w' = cw_db w"
  | (stored) hot sha x r s where "hot_path c = Some hot" "cl_sha256 c = Some sha"
      "be_put b (ce_put e) (cold_path_for hot (dec_int (cl_id c))) x sha (cw_cold w (be_handle b)) = (Inr r, s)"
      "cw_cold w' = (cw_cold w)(be_handle b := s)"
      "edits (cold_edit (be_handle b) ((=) (pr_path r))) (cl_id c) (cw_db w) (cw_db w')"
proof (cases "hot_path c"; cases "cl_sha256 c")
  fix hot sha
  assume hs: "hot_path c = Some hot" "cl_sha256 c = Some sha"
  note run = assms [unfolded upload_one_def hs option.case Let_def]
  show ?thesis
  proof (rule copy_cases [OF run])
    assume ex: "be_exists b (ce_exists e) (cold_path_for hot (dec_int (cl_id c))) sha (cw_cold w (be_handle b)) = Inr True"
      and m: "store_call (ce_fails e 1) (mark_cold_replicated (cl_id c) \<lparr>cm_handle = be_handle b,
        cm_path = cold_path_for hot (dec_int (cl_id c)), cm_uploaded_at = ce_now e 0\<rparr>) w = (res, w')"
    show ?thesis
      using found [OF hs ex] store_call_frame(1) [of "ce_fails e 1" _ w] store_call_db [of "ce_fails e 1" _ w] m mark_edits
      by (smt (verit, ccfv_threshold) cold_edit_refl edits_refl snd_conv)
  next
    fix x r s w1
    assume put: "be_put b (ce_put e) (cold_path_for hot (dec_int (cl_id c))) x sha (cw_cold w (be_handle b)) = (Inr r, s)"
      and w1: "cw_cold w1 = (cw_cold w)(be_handle b := s)" "cw_db w1 = cw_db w"
      and run: "commit_upload cfg e (\<lambda>u. stamp_clip_announce (cl_id c) u (ce_envelope e))
         (mark_cold_replicated (cl_id c) \<lparr>cm_handle = be_handle b, cm_path = pr_path r, cm_uploaded_at = pr_uploaded_at r\<rparr>)
         (record_clip_announce_sent (cl_id c)) (\<lambda>u. motion_clip_envelope (ce_envelope e) c u hist) (pr_url r) w1 = (res, w')"
    have "edits (cold_edit (be_handle b) ((=) (pr_path r))) (cl_id c) (cw_db w) (cw_db w')" "cw_cold w' = cw_cold w1"
      using edits_commit [of "(=) (pr_path r)" "pr_path r" "be_handle b" "cl_id c" w1] commit_upload_frame(1) w1 run
      by (metis snd_conv)+
    then show ?thesis using stored [OF hs put] w1 by simp
  qed (use untouched failed [OF hs] in auto)
qed (use assms untouched in \<open>auto simp: upload_one_def\<close>)

lemma upload_alert_clip_one_cases:
  fixes w :: "'s cr_world" and b :: "('f, 's) cold_backend"
  assumes "upload_alert_clip_one cfg b e a w = (res, w')"
  defines "p \<equiv> cold_path_for (al_path a) (alert_edge_id (al_id a))"
  obtains (untouched) err where "res = Inl err" "w' = w"
  | (found) sha where "al_sha256 a = Some sha"
      "be_exists b (ce_exists e) p sha (cw_cold w (be_handle b)) = Inr True" "cw_cold w' = cw_cold w"
      "alert_edits (alert_cold_edit (be_handle b) ((=) p)) (al_id a) (cw_db w) (cw_db w')"
  | (failed) sha x err s where "al_sha256 a = Some sha"
      "be_put b (ce_put e) p x sha (cw_cold w (be_handle b)) = (Inl err, s)"
      "cw_cold w' = (cw_cold w)(be_handle b := s)" "cw_db w' = cw_db w"
  | (stored) sha x r s where "al_sha256 a = Some sha"
      "be_put b (ce_put e) p x sha (cw_cold w (be_handle b)) = (Inr r, s)"
      "cw_cold w' = (cw_cold w)(be_handle b := s)"
      "alert_edits (alert_cold_edit (be_handle b) ((=) p)) (al_id a) (cw_db w) (cw_db w')"
proof (cases "al_sha256 a")
  case sha: (Some sha)
  let ?commit = "commit_upload cfg e (\<lambda>u. stamp_alert_clip_announce (al_id a) u (ce_envelope e))
     (mark_alert_clip_cold_replicated (al_id a) \<lparr>cm_handle = be_handle b, cm_path = p, cm_uploaded_at = ce_now e 0\<rparr>)
     (record_alert_clip_announce_sent (al_id a)) (alert_clip_envelope (ce_envelope e) a)"
  have fin: "alert_edits (alert_cold_edit (be_handle b) ((=) p)) (al_id a) (cw_db v) (cw_db v')" "cw_cold v' = cw_cold v"
    if "?commit url v = (r, v')" for url v r v'
    using alert_edits_commit [of "(=) p" p "be_handle b" "al_id a" v] commit_upload_frame(1) that by (metis snd_conv)+
  note run = assms(1) [unfolded upload_alert_clip_one_def sha option.case Let_def, folded p_def]
  show ?thesis
  proof (rule copy_cases [OF run])
    assume "be_exists b (ce_exists e) p sha (cw_cold w (be_handle b)) = Inr True" "?commit None w = (res, w')"
    then show ?thesis using found [OF sha] fin by blast
  next
    fix x r s w1
    assume put: "be_put b (ce_put e) p x sha (cw_cold w (be_handle b)) = (Inr r, s)"
      and w1: "cw_cold w1 = (cw_cold w)(be_handle b := s)" "cw_db w1 = cw_db w"
      and run: "?commit (pr_url r) w1 = (res, w')"
    show ?thesis using stored [OF sha put] fin [OF run] w1 by simp
  qed (use untouched failed [OF sha] in auto)
qed (use assms untouched in \<open>auto simp: upload_alert_clip_one_def\<close>)

section \<open>Names on the cold side\<close>

lemma components_append: "components (a @ CHR ''/'' # b) = components a @ components b"
  by (simp add: components_def split_on_append)

lemma components_name: "CHR ''/'' \<notin> set n \<Longrightarrow> n \<noteq> [] \<Longrightarrow> n \<noteq> ''.'' \<Longrightarrow> components n = [n]"
  by (simp add: components_def split_on_no_sep)

text \<open>The last component of a cold path is the edge clip id, whatever the hot path was.\<close>

definition plain_name :: "string \<Rightarrow> bool" where
  "plain_name n \<longleftrightarrow> CHR ''/'' \<notin> set n"

lemma cold_path_components:
  assumes "plain_name n"
  shows "\<exists>d. components (cold_path_for hot n) = d @ [n @ ''.mp4'']"
proof -
  have "n @ ''.mp4'' \<noteq> ''.''" by (cases n) auto
  then have one: "components (n @ ''.mp4'') = [n @ ''.mp4'']"
    using assms by (intro components_name) (auto simp: plain_name_def)
  then have "components (parent @ ''/'' @ n @ ''.mp4'') = components parent @ [n @ ''.mp4'']" for parent
    using components_append [of parent "n @ ''.mp4''"] by simp
  then show ?thesis using one by (auto simp: cold_path_for_def split: option.split)
qed

lemma cold_path_name:
  assumes "plain_name n"
  shows "components (cold_path_for hot n) \<noteq> []" "last (components (cold_path_for hot n)) = n @ ''.mp4''"
    "clip_path (cold_path_for hot n)"
  using cold_path_components [OF assms, of hot] by (auto simp: clip_path_def strip_suffix_def)

lemma dec_int_chars: "c \<in> set (dec_int i) \<Longrightarrow> is_digit c \<or> c = CHR ''-''"
  using dec_nat_props by (auto simp: dec_int_def list_all_iff split: if_splits)

lemma dec_nat_inj: "dec_nat m = dec_nat n \<Longrightarrow> m = n"
  using dec_nat_props by metis

lemma dec_nat_no_minus: "dec_nat n \<noteq> CHR ''-'' # s"
  using dec_nat_props [of n] by (cases "dec_nat n") (auto simp: is_digit_def)

lemma dec_int_inj: "dec_int i = dec_int j \<longleftrightarrow> i = j"
proof
  assume eq: "dec_int i = dec_int j"
  have same: "i < 0 \<longleftrightarrow> j < 0"
    using eq dec_nat_no_minus dec_nat_no_minus [symmetric] unfolding dec_int_def by metis
  then have "dec_nat (nat (if i < 0 then - i else i)) = dec_nat (nat (if j < 0 then - j else j))"
    using eq unfolding dec_int_def by (metis list.inject)
  from dec_nat_inj [OF this] show "i = j" using same by (simp split: if_splits)
qed simp

lemma edge_id_names [simp]:
  "plain_name (dec_int i)" "plain_name (alert_edge_id i)"
  "alert_edge_id i = alert_edge_id j \<longleftrightarrow> i = j" "dec_int i \<noteq> alert_edge_id j" "alert_edge_id j \<noteq> dec_int i"
proof -
  show "plain_name (dec_int i)" "plain_name (alert_edge_id i)"
    using dec_int_chars [of "CHR ''/''" i] by (auto simp: plain_name_def alert_edge_id_def is_digit_def)
  show "alert_edge_id i = alert_edge_id j \<longleftrightarrow> i = j" by (simp add: alert_edge_id_def dec_int_inj)
  show "dec_int i \<noteq> alert_edge_id j"
    using dec_int_chars [of "CHR ''a''" i] by (auto simp: alert_edge_id_def is_digit_def)
  then show "alert_edge_id j \<noteq> dec_int i" by metis
qed

section \<open>Every cold mark is backed\<close>

definition backs :: "('s \<Rightarrow> string \<Rightarrow> string \<Rightarrow> bool) \<Rightarrow> 's \<Rightarrow> string \<Rightarrow> string option \<Rightarrow> string option \<Rightarrow> bool" where
  "backs holds s n path sha \<longleftrightarrow>
     (\<exists>p x. path = Some p \<and> sha = Some x \<and> components p \<noteq> [] \<and> last (components p) = n @ ''.mp4'' \<and> holds s p x)"

definition cold_backed :: "('s \<Rightarrow> string \<Rightarrow> string \<Rightarrow> bool) \<Rightarrow> string \<Rightarrow> 's \<Rightarrow> media_db \<Rightarrow> bool" where
  "cold_backed holds h s db \<longleftrightarrow>
     (\<forall>c \<in> set (clips db). cold_handle c = Some h \<longrightarrow> backs holds s (dec_int (cl_id c)) (cold_path c) (cl_sha256 c))
     \<and> (\<forall>a \<in> set (alert_clips db). al_cold_handle a = Some h
          \<longrightarrow> backs holds s (alert_edge_id (al_id a)) (al_cold_path a) (al_sha256 a) \<and> al_cold_uploaded_at a \<noteq> None)"

lemma cold_backed_edits:
  assumes "cold_backed holds h s db" "edits R i db db'"
    and "\<And>c d. R c d \<Longrightarrow> c \<in> set (clips db) \<Longrightarrow> cl_id c = i \<Longrightarrow> cold_handle d = Some h \<Longrightarrow>
      cl_id d = cl_id c \<and> (backs holds s (dec_int (cl_id c)) (cold_path d) (cl_sha256 d)
        \<or> cl_sha256 d = cl_sha256 c \<and> cold_handle c = Some h \<and> cold_path d = cold_path c)"
  shows "cold_backed holds h s db'"
proof -
  obtain g where g: "\<forall>c. R c (g c)" "db' = db\<lparr>clips := map (\<lambda>c. if cl_id c = i then g c else c) (clips db)\<rparr>"
    using assms(2) unfolding edits_def by blast
  have "backs holds s (dec_int (cl_id (g c))) (cold_path (g c)) (cl_sha256 (g c))"
    if "c \<in> set (clips db)" "cl_id c = i" "cold_handle (g c) = Some h" for c
    using assms(3) [of c "g c"] g(1) that assms(1) unfolding cold_backed_def by metis
  then show ?thesis using assms(1) unfolding cold_backed_def g(2) by auto
qed

lemma cold_backed_alert_edits:
  assumes "cold_backed holds h s db" "alert_edits R i db db'"
    and "\<And>c d. R c d \<Longrightarrow> c \<in> set (alert_clips db) \<Longrightarrow> al_id c = i \<Longrightarrow> al_cold_handle d = Some h \<Longrightarrow>
      al_id d = al_id c \<and> (backs holds s (alert_edge_id (al_id c)) (al_cold_path d) (al_sha256 d) \<and> al_cold_uploaded_at d \<noteq> None
        \<or> al_sha256 d = al_sha256 c \<and> al_cold_handle c = Some h \<and> al_cold_path d = al_cold_path c
          \<and> al_cold_uploaded_at d = al_cold_uploaded_at c)"
  shows "cold_backed holds h s db'"
proof -
  obtain g where g: "\<forall>c. R c (g c)" "db' = db\<lparr>alert_clips := map (\<lambda>c. if al_id c = i then g c else c) (alert_clips db)\<rparr>"
    using assms(2) unfolding alert_edits_def by blast
  have "backs holds s (alert_edge_id (al_id (g c))) (al_cold_path (g c)) (al_sha256 (g c)) \<and> al_cold_uploaded_at (g c) \<noteq> None"
    if "c \<in> set (alert_clips db)" "al_id c = i" "al_cold_handle (g c) = Some h" for c
    using assms(3) [of c "g c"] g(1) that assms(1) unfolding cold_backed_def by metis
  then show ?thesis using assms(1) unfolding cold_backed_def g(2) by auto
qed

end
