(* ===== verification/Cold_Steps.thy ===== *)
theory Cold_Steps
  imports Cold_Replication
begin

text \<open>
  The shape of the replicator's passes: how a tick branches, what announcements
  leave alone, and the locale \<open>statement_relation\<close>, by which a relation that the
  store's statements respect holds across every run of the loop.  It is
  interpreted for the schema and for the content of the tables.
\<close>

section \<open>Passes\<close>

lemma fold_inv: "(\<And>x w. P w \<Longrightarrow> P (f x w)) \<Longrightarrow> P w \<Longrightarrow> P (fold f xs w)"
  by (induction xs arbitrary: w) auto

text \<open>A tick does nothing, reports the backend, or drains both tables on the active backend.\<close>

lemma tick_cases:
  obtains (idle) "tick cfg reg te w = w"
  | (down) h reason where "tick cfg reg te w = w\<lparr>cw_bus := cw_bus w @ [(h, reason, te_now te 0)], last_health_was_ok := False\<rparr>"
      "last_health_was_ok w"
  | (drain) h b fl where "registry_get h reg = Some b" "replica_handle (cw_db w) = Some h"
      "tick cfg reg te w = (let w1 = drain_clips cfg b te fl (w\<lparr>last_health_was_ok := True, cw_rate := max 0 (throttle_bps (cw_db w))\<rparr>)
         in if outbox_wired cfg then drain_alert_clips cfg b te fl w1 else w1)"
proof (cases "te_fails te 0 \<or> replica_handle (cw_db w) = None \<or> replica_handle (cw_db w) = Some ''local''")
  case True
  then show ?thesis using idle by (auto simp: tick_def read_cold_replica_def)
next
  case False
  then obtain h where h: "replica_handle (cw_db w) = Some h" "h \<noteq> ''local''" "\<not> te_fails te 0" by auto
  show ?thesis
  proof (cases "registry_get h reg")
    case None
    then show ?thesis using idle h by (simp add: tick_def read_cold_replica_def)
  next
    case b: (Some b)
    show ?thesis
    proof (cases "be_health b (te_health te) (cw_cold w (be_handle b))")
      case Health_Ok
      then show ?thesis using drain [OF b h(1), of "upload_floor (te_enrollment te)"] h b
        by (simp add: tick_def read_cold_replica_def Let_def)
    next
      case (Unreachable reason)
      then show ?thesis using idle down [of h reason] h b
        by (cases "last_health_was_ok w") (simp_all add: tick_def read_cold_replica_def)
    qed (use idle h b in \<open>simp add: tick_def read_cold_replica_def\<close>)
  qed
qed

lemma announce_rows_keeps:
  assumes "P (cw_db w)" "\<And>c u a db. P db \<Longrightarrow> P (snd (stamp c u a db))" "\<And>c t db. P db \<Longrightarrow> P (snd (sent c t db))"
  shows "P (cw_db (snd (announce_rows env stamp sent envelope now rows w)))"
  using assms(1)
proof (induction rows arbitrary: w)
  case (Cons x rows)
  obtain c u n where x: "x = (c, u, n)" by (cases x)
  have call: "P (cw_db (snd (store_call f stmt v)))" if "P (cw_db v)" "\<And>db. P db \<Longrightarrow> P (snd (stmt db))" for f stmt v
    using that by (simp add: store_call_db)
  obtain r w1 where st: "store_call (ce_fails (env c) 0) (stamp c u (ce_envelope (env c))) w = (r, w1)" by fastforce
  have w1: "P (cw_db w1)" using call [OF Cons.prems, of "stamp c u (ce_envelope (env c))" "ce_fails (env c) 0"] assms(2) st by simp
  then have "P (cw_db (snd (store_call f (sent c t) (send_announce v w1))))" for f t v
    using assms(3) by (intro call) simp_all
  then show ?case using Cons.IH w1 by (cases r) (auto simp: x st)
qed simp

lemma announce_rows_frame:
  "cw_cold (snd (announce_rows env stamp sent envelope now rows w)) = cw_cold w
   \<and> cw_bus (snd (announce_rows env stamp sent envelope now rows w)) = cw_bus w
   \<and> last_health_was_ok (snd (announce_rows env stamp sent envelope now rows w)) = last_health_was_ok w"
proof (induction rows arbitrary: w)
  case (Cons x rows)
  obtain c u n where x: "x = (c, u, n)" by (cases x)
  obtain r w1 where st: "store_call (ce_fails (env c) 0) (stamp c u (ce_envelope (env c))) w = (r, w1)" by fastforce
  have "cw_cold w1 = cw_cold w" "cw_bus w1 = cw_bus w" "last_health_was_ok w1 = last_health_was_ok w"
    using store_call_frame [of "ce_fails (env c) 0" "stamp c u (ce_envelope (env c))" w] st by simp_all
  then show ?case using Cons.IH by (cases r) (auto simp: x st)
qed simp

lemma reannounce_keeps:
  assumes "P (cw_db w)" "\<And>i u a db. P db \<Longrightarrow> P (snd (stamp_clip_announce i u a db))"
    "\<And>i t db. P db \<Longrightarrow> P (snd (record_clip_announce_sent i t db))"
    "\<And>i u a db. P db \<Longrightarrow> P (snd (stamp_alert_clip_announce i u a db))"
    "\<And>i t db. P db \<Longrightarrow> P (snd (record_alert_clip_announce_sent i t db))"
  shows "P (cw_db (reannounce cfg re w))"
  unfolding reannounce_def Let_def using assms(1)
  by (auto simp: split_beta intro!: announce_rows_keeps assms(2-5))

lemma reannounce_frame:
  "cw_cold (reannounce cfg re w) = cw_cold w" "cw_bus (reannounce cfg re w) = cw_bus w"
  "last_health_was_ok (reannounce cfg re w) = last_health_was_ok w"
  unfolding reannounce_def Let_def by (simp_all add: split_beta announce_rows_frame)

section \<open>Relations kept by every run\<close>

locale statement_relation =
  fixes E :: "media_db \<Rightarrow> media_db \<Rightarrow> bool"
  assumes refl: "E db db" and comp: "E d1 d2 \<Longrightarrow> E d2 d3 \<Longrightarrow> E d1 d3"
    and stamps: "E db (snd (stamp_clip_announce i u a db))" "E db (snd (stamp_alert_clip_announce i u a db))"
    and sents: "E db (snd (record_clip_announce_sent i t db))" "E db (snd (record_alert_clip_announce_sent i t db))"
    and marks: "E db (snd (mark_cold_replicated i m db))" "E db (snd (mark_alert_clip_cold_replicated i m db))"
    and failures: "E db (snd (record_cold_upload_failure i t e n q db))" "E db (snd (quarantine_clip i t e db))"
      "E db (record_alert_clip_cold_failure i t e db)"
    and bumps: "E db (snd (bump_latest_pending_clip_for_camera cam prio db))"
begin

lemma call: "(\<And>db. E db (snd (stmt db))) \<Longrightarrow> store_call f stmt w = (r, w') \<Longrightarrow> E (cw_db w) (cw_db w')"
  using store_call_db [of f stmt w] refl by (simp split: if_splits)

lemma calls: "(\<And>db. E db (snd (stmt db))) \<Longrightarrow> E (cw_db w) (cw_db (snd (store_call f stmt w)))"
  using refl by (simp add: store_call_db)

lemma commit:
  assumes "commit_upload cfg e stamp mark sent envelope url w = (r, w')"
    "\<And>u db. E db (snd (stamp u db))" "\<And>db. E db (snd (mark db))" "\<And>t db. E db (snd (sent t db))"
  shows "E (cw_db w) (cw_db w')"
proof -
  have "E (cw_db w) (cw_db (snd (commit_upload cfg e stamp mark sent envelope url w)))"
    by (rule commit_upload_rel [where E = E, OF refl comp assms(2-4)])
  then show ?thesis by (simp add: assms(1))
qed

lemma upload_one_rel:
  assumes "upload_one cfg b e c hist w = (res, w')"
  shows "E (cw_db w) (cw_db w')"
proof (cases "hot_path c"; cases "cl_sha256 c")
  fix hot sha
  assume hs: "hot_path c = Some hot" "cl_sha256 c = Some sha"
  note run = assms [unfolded upload_one_def hs option.case Let_def]
  show ?thesis
  proof (rule copy_cases [OF run])
    fix x r s w1
    assume w1: "cw_db w1 = cw_db w"
      and run: "commit_upload cfg e (\<lambda>u. stamp_clip_announce (cl_id c) u (ce_envelope e))
         (mark_cold_replicated (cl_id c) \<lparr>cm_handle = be_handle b, cm_path = pr_path r, cm_uploaded_at = pr_uploaded_at r\<rparr>)
         (record_clip_announce_sent (cl_id c)) (\<lambda>u. motion_clip_envelope (ce_envelope e) c u hist) (pr_url r) w1 = (res, w')"
    from commit [OF run stamps(1) marks(1) sents(1)] show ?thesis by (simp add: w1)
  qed (use refl call [OF marks(1)] in auto)
qed (use assms refl in \<open>auto simp: upload_one_def\<close>)

lemma upload_alert_rel:
  assumes "upload_alert_clip_one cfg b e a w = (res, w')"
  shows "E (cw_db w) (cw_db w')"
proof (cases "al_sha256 a")
  case sha: (Some sha)
  let ?commit = "commit_upload cfg e (\<lambda>u. stamp_alert_clip_announce (al_id a) u (ce_envelope e))
     (mark_alert_clip_cold_replicated (al_id a) \<lparr>cm_handle = be_handle b,
        cm_path = cold_path_for (al_path a) (alert_edge_id (al_id a)), cm_uploaded_at = ce_now e 0\<rparr>)
     (record_alert_clip_announce_sent (al_id a)) (alert_clip_envelope (ce_envelope e) a)"
  have fin: "E (cw_db v) (cw_db v')" if "?commit url v = (r, v')" for url r v v'
    by (rule commit [OF that stamps(2) marks(2) sents(2)])
  note run = assms [unfolded upload_alert_clip_one_def sha option.case Let_def]
  show ?thesis
  proof (rule copy_cases [OF run])
    fix x r s w1
    assume w1: "cw_db w1 = cw_db w" and "?commit (pr_url r) w1 = (res, w')"
    from fin [OF this(2)] show ?thesis by (simp add: w1)
  qed (use refl fin in auto)
qed (use assms refl in \<open>auto simp: upload_alert_clip_one_def\<close>)

lemma upload_pending_rel: "E (cw_db w) (cw_db (upload_pending cfg b te c w))"
proof -
  obtain res w1 where up: "upload_one cfg b (te_clip te (cl_id c)) c (attached_history (te_enrollment te) (cl_started c)) w = (res, w1)"
    by fastforce
  note one = upload_one_rel [OF up]
  have "E (cw_db w) (cw_db (snd (store_call f (record_cold_upload_failure i t r n q) w1)))"
    "E (cw_db w) (cw_db (snd (store_call f (quarantine_clip i t r) w)))" for f i t r n q
    by (rule comp [OF one], rule calls, rule failures) (rule calls, rule failures)
  then show ?thesis using one by (cases res) (auto simp: upload_pending_def Let_def up split_beta)
qed

lemma upload_pending_alert_rel: "E (cw_db w) (cw_db (upload_pending_alert cfg b te a w))"
proof -
  obtain res w1 where up: "upload_alert_clip_one cfg b (te_alert te (al_id a)) a w = (res, w1)" by fastforce
  note one = upload_alert_rel [OF up]
  have "E (cw_db w) (record_alert_clip_cold_failure i t r (cw_db w1))" for i t r
    by (rule comp [OF one failures(3)])
  then show ?thesis using one by (cases res) (auto simp: upload_pending_alert_def Let_def up store_call_db)
qed

lemma fold_rel: "(\<And>x v. E (cw_db v) (cw_db (f x v))) \<Longrightarrow> E (cw_db w) (cw_db (fold f xs w))"
  by (induction xs arbitrary: w) (auto intro: refl comp)

lemma tick_rel: "E (cw_db w) (cw_db (tick cfg reg te w))"
proof (rule tick_cases [of cfg reg te w])
  fix h b fl
  assume t: "tick cfg reg te w = (let w1 = drain_clips cfg b te fl (w\<lparr>last_health_was_ok := True, cw_rate := max 0 (throttle_bps (cw_db w))\<rparr>)
         in if outbox_wired cfg then drain_alert_clips cfg b te fl w1 else w1)"
  have d: "E (cw_db v) (cw_db (drain_clips cfg b te fl v))" for v
    unfolding drain_clips_def by (rule fold_rel [OF upload_pending_rel])
  have "E (cw_db v) (cw_db (drain_alert_clips cfg b te fl v))" for v
    unfolding drain_alert_clips_def by (auto intro: refl fold_rel [OF upload_pending_alert_rel])
  then show ?thesis
    unfolding t Let_def using d [of "w\<lparr>last_health_was_ok := True, cw_rate := max 0 (throttle_bps (cw_db w))\<rparr>"]
    by (auto intro: comp)
qed (use refl in auto)

lemma reannounce_rel: "E (cw_db w) (cw_db (reannounce cfg re w))"
  by (rule reannounce_keeps [where P = "E (cw_db w)"]) (auto intro: refl comp stamps sents)

lemma step_rel: "E (cw_db w) (cw_db (replicator_step cfg reg ev w))"
proof (cases ev)
  case (Poll te re)
  then show ?thesis using comp [OF tick_rel reannounce_rel] by simp
next
  case (Kicked te)
  then show ?thesis using tick_rel [of "w\<lparr>cw_kick := False\<rparr>"] by simp
next
  case (Alert_Seen cam failing)
  then show ?thesis
    using refl bumps [of "cw_db w" cam URGENT_CLIP_PRIORITY] by (auto split: prod.split option.split)
qed (simp add: tick_rel)

lemma run_rel: "E (cw_db w) (cw_db (fold (replicator_step cfg reg) evs w))"
  by (rule fold_rel [OF step_rel])

end

subsection \<open>The schema\<close>

interpretation schema: statement_relation "\<lambda>a b. media_inv a \<longrightarrow> media_inv b"
  by unfold_locales (auto intro: inv_row_updates inv_alert_row_updates inv_mark_cold inv_mark_alert_cold inv_bump_latest)

subsection \<open>The content of the tables\<close>

text \<open>Everything of a row but its cold mark, retry state, priority and announcement columns.\<close>

definition clip_content :: "clip_row \<Rightarrow> clip_row" where
  "clip_content c = c\<lparr>cold_handle := None, cold_path := None, cold_uploaded_at := None, cl_priority := 0,
     cold_attempts := 0, cold_last_attempt_at := None, cold_next_attempt_at := None, cold_quarantined := False,
     cold_last_error := None, cl_blob_url := None, cl_announce_id := None, cl_announce_core := None,
     cl_announce_attempts := 0, cl_announce_next_at := None\<rparr>"

definition alert_clip_content :: "alert_clip_row \<Rightarrow> alert_clip_row" where
  "alert_clip_content a = a\<lparr>al_cold_handle := None, al_cold_path := None, al_cold_uploaded_at := None,
     al_cold_attempts := 0, al_cold_last_attempt_at := None, al_cold_last_error := None, al_blob_url := None,
     al_announce_id := None, al_announce_core := None, al_announce_attempts := 0, al_announce_next_at := None\<rparr>"

definition content :: "media_db \<Rightarrow> media_db" where
  "content db = db\<lparr>clips := map clip_content (clips db), alert_clips := map alert_clip_content (alert_clips db)\<rparr>"

lemma content_update_clips:
  "(\<And>c. clip_content (f c) = clip_content c) \<Longrightarrow> content (snd (update_clips P f db)) = content db"
  by (simp add: content_def update_clips_def o_def)

lemma content_update_alert_clips:
  "(\<And>a. alert_clip_content (f a) = alert_clip_content a) \<Longrightarrow> content (snd (update_alert_clips P f db)) = content db"
  by (simp add: content_def update_alert_clips_def o_def)

lemma content_bump: "content (snd (bump_clip_priority i p db)) = content db"
  by (auto simp: bump_clip_priority_def split_beta clip_content_def intro!: content_update_clips)

interpretation hot: statement_relation "\<lambda>a b. content b = content a"
  by unfold_locales
    (auto simp: stamp_clip_announce_def stamp_alert_clip_announce_def record_clip_announce_sent_def
      record_alert_clip_announce_sent_def mark_cold_replicated_def mark_alert_clip_cold_replicated_def
      record_cold_upload_failure_def quarantine_clip_def record_alert_clip_cold_failure_def
      bump_latest_pending_clip_for_camera_def split_beta content_bump clip_content_def alert_clip_content_def
      intro!: content_update_clips content_update_alert_clips split: list.split)

end
