(* ===== verification/Cold_Guarantees.thy ===== *)
theory Cold_Guarantees
  imports Cold_Steps
begin

text \<open>
  The guarantees of whole passes of the cold replicator: each pending row is
  processed with its own statements only (\<open>upload_pending_split\<close>), so invariants
  of the rows carry over a batch (\<open>fold_rows\<close>), a tick, and any run of the loop.
\<close>

section \<open>Passes over pending rows\<close>

lemma fold_rows:
  assumes "\<And>x w. I w \<Longrightarrow> P w x \<Longrightarrow> I (f x w)"
    and "\<And>x y w. I w \<Longrightarrow> P w x \<Longrightarrow> P w y \<Longrightarrow> key x \<noteq> key y \<Longrightarrow> P (f x w) y"
    and "distinct (map key xs)" "\<forall>x \<in> set xs. P w x" "I w"
  shows "I (fold f xs w)"
  using assms(3-5)
proof (induction xs arbitrary: w)
  case (Cons x xs)
  have "P (f x w) y" if "y \<in> set xs" for y
    using assms(2) [of w x y] Cons.prems that by (auto simp: image_iff)
  then show ?case using Cons.IH [of "f x w"] Cons.prems assms(1) [of w x] by simp
qed simp

lemma distinct_keys_sub:
  assumes "distinct (map key xs)" "distinct ys" "set ys \<subseteq> set xs"
  shows "distinct (map key ys)"
  using assms by (metis distinct_map inj_on_subset)

lemma distinct_sql_limit: "distinct xs \<Longrightarrow> distinct (sql_limit n xs)"
  by (simp add: sql_limit_def)

lemma pending_rows:
  assumes "media_inv db"
  shows "distinct (map cl_id (clips_pending_cold_upload now n fl db))"
    and "c \<in> set (clips_pending_cold_upload now n fl db) \<Longrightarrow> c \<in> set (clips db) \<and> awaits_upload c"
proof -
  show sub: "c \<in> set (clips db) \<and> awaits_upload c" if "c \<in> set (clips_pending_cold_upload now n fl db)" for c
    using set_sql_limit [OF that [unfolded clips_pending_cold_upload_def]] by (simp add: by_priority_def)
  have "distinct (clips db)" using inv_parts(1) [OF assms] by (simp add: distinct_map)
  then have "distinct (clips_pending_cold_upload now n fl db)"
    by (simp add: clips_pending_cold_upload_def by_priority_def distinct_sql_limit)
  then show "distinct (map cl_id (clips_pending_cold_upload now n fl db))"
    using sub by (intro distinct_keys_sub [OF inv_parts(1) [OF assms]] subsetI) blast+
qed

lemma pending_alert_rows:
  assumes "media_inv db"
  shows "distinct (map al_id (alert_clips_pending_cold_upload n fl tc db))"
    and "a \<in> set (alert_clips_pending_cold_upload n fl tc db) \<Longrightarrow>
      a \<in> set (alert_clips db) \<and> al_cold_uploaded_at a = None"
proof -
  show sub: "a \<in> set (alert_clips db) \<and> al_cold_uploaded_at a = None"
    if "a \<in> set (alert_clips_pending_cold_upload n fl tc db)" for a
    using set_sql_limit [OF that [unfolded alert_clips_pending_cold_upload_def]] by (auto simp: sort_null_first_def)
  have "distinct (alert_clips db)" using inv_parts(3) [OF assms] by (simp add: distinct_map)
  then have "distinct (alert_clips_pending_cold_upload n fl tc db)"
    by (auto simp: alert_clips_pending_cold_upload_def sort_null_first_def intro!: distinct_sql_limit)
  then show "distinct (map al_id (alert_clips_pending_cold_upload n fl tc db))"
    using sub by (intro distinct_keys_sub [OF inv_parts(3) [OF assms]] subsetI) blast+
qed

section \<open>One pending row\<close>

text \<open>What a failure record, a quarantine or a priority bump leaves of a row.\<close>

definition retry_edit :: "clip_row \<Rightarrow> clip_row \<Rightarrow> bool" where
  "retry_edit c d \<longleftrightarrow>
     cl_id d = cl_id c \<and> cl_sha256 d = cl_sha256 c \<and> hot_handle d = hot_handle c \<and> hot_path d = hot_path c
     \<and> cl_started d = cl_started c \<and> cl_announced_at d = cl_announced_at c
     \<and> cold_handle d = cold_handle c \<and> cold_path d = cold_path c"

definition alert_retry_edit :: "alert_clip_row \<Rightarrow> alert_clip_row \<Rightarrow> bool" where
  "alert_retry_edit a d \<longleftrightarrow>
     al_id d = al_id a \<and> al_sha256 d = al_sha256 a \<and> al_path d = al_path a \<and> al_state d = al_state a
     \<and> al_announced_at d = al_announced_at a
     \<and> al_cold_handle d = al_cold_handle a \<and> al_cold_path d = al_cold_path a
     \<and> al_cold_uploaded_at d = al_cold_uploaded_at a"

lemma edits_other:
  assumes "edits R i db db'" "c \<in> set (clips db)" "cl_id c \<noteq> i"
  shows "c \<in> set (clips db')"
  using assms unfolding edits_def by force

lemma alert_edits_other:
  assumes "alert_edits R i db db'" "c \<in> set (alert_clips db)" "al_id c \<noteq> i"
  shows "c \<in> set (alert_clips db')"
  using assms unfolding alert_edits_def by force

lemma failure_edits:
  "edits retry_edit i db (snd (record_cold_upload_failure i t e n q db))"
  "edits retry_edit i db (snd (quarantine_clip i t e db))"
  unfolding record_cold_upload_failure_def quarantine_clip_def
  by (auto intro!: update_clips_edits simp: retry_edit_def)

lemma alert_failure_edits: "alert_edits alert_retry_edit i db (record_alert_clip_cold_failure i t e db)"
  unfolding record_alert_clip_cold_failure_def by (rule update_alert_clips_edits) (simp add: alert_retry_edit_def)

lemma bump_edits: "\<exists>i. edits retry_edit i db (snd (bump_latest_pending_clip_for_camera cam prio db))"
proof -
  have "edits retry_edit i db (snd (bump_clip_priority i prio db))" for i
    unfolding edits_def bump_clip_priority_def update_clips_def
    by (intro exI [of _ "\<lambda>c. if cl_priority c < prio then c\<lparr>cl_priority := prio\<rparr> else c"])
      (auto simp: retry_edit_def)
  moreover have "edits retry_edit i db db" for i by (rule edits_refl) (simp add: retry_edit_def)
  ultimately show ?thesis
    unfolding bump_latest_pending_clip_for_camera_def by (auto simp: split_beta split: list.split)
qed

lemma upload_pending_split:
  fixes w :: "'s cr_world"
  obtains w1 where "w1 = w \<or> (\<exists>res. upload_one cfg b (te_clip te (cl_id c)) c
        (attached_history (te_enrollment te) (cl_started c)) w = (res, w1))"
    "cw_cold (upload_pending cfg b te c w) = cw_cold w1"
    "edits retry_edit (cl_id c) (cw_db w1) (cw_db (upload_pending cfg b te c w))"
proof -
  define e where "e = te_clip te (cl_id c)"
  have call: "edits retry_edit (cl_id c) (cw_db v) (cw_db (snd (store_call f s v)))"
    if "\<And>db. edits retry_edit (cl_id c) db (snd (s db))" for f s and v :: "'s cr_world"
    using that by (simp add: store_call_db retry_edit_def)
  have calls: "edits retry_edit (cl_id c) (cw_db v) (cw_db (snd (store_call f (quarantine_clip (cl_id c) t r) v)))"
    "edits retry_edit (cl_id c) (cw_db v) (cw_db (snd (store_call f (record_cold_upload_failure (cl_id c) t r n q) v)))"
    for f t r n q and v :: "'s cr_world" by (rule call, rule failure_edits)+
  obtain res w1 where up: "upload_one cfg b e c (attached_history (te_enrollment te) (cl_started c)) w = (res, w1)" by fastforce
  show ?thesis
  proof (cases "cl_size c > 0 \<and> cl_size c > uint (max_cold_upload_bytes cfg)")
    case True
    then show ?thesis
      using that [of w] calls by (simp add: upload_pending_def e_def Let_def)
  next
    case False
    then show ?thesis
      using that [of w1] up calls
      by (cases res) (auto simp: upload_pending_def e_def Let_def retry_edit_def split_beta)
  qed
qed

lemma upload_pending_alert_split:
  obtains w1 where "\<exists>res. upload_alert_clip_one cfg b (te_alert te (al_id a)) a w = (res, w1)"
    "cw_cold (upload_pending_alert cfg b te a w) = cw_cold w1"
    "alert_edits alert_retry_edit (al_id a) (cw_db w1) (cw_db (upload_pending_alert cfg b te a w))"
proof -
  obtain res w1 where up: "upload_alert_clip_one cfg b (te_alert te (al_id a)) a w = (res, w1)" by fastforce
  then show ?thesis
    using that [of w1] alert_failure_edits
    by (cases res) (auto simp: upload_pending_alert_def Let_def store_call_db alert_retry_edit_def)
qed

section \<open>Cold marks are backed\<close>

lemma backed_other_handle:
  assumes "cold_backed holds h s db" "edits (cold_edit h' Q) i db db'" "h' \<noteq> h"
  shows "cold_backed holds h s db'"
  by (rule cold_backed_edits [OF assms(1,2)]) (use assms(3) in \<open>auto simp: cold_edit_def\<close>)

lemma backed_other_alert_handle:
  assumes "cold_backed holds h s db" "alert_edits (alert_cold_edit h' Q) i db db'" "h' \<noteq> h"
  shows "cold_backed holds h s db'"
  by (rule cold_backed_alert_edits [OF assms(1,2)]) (use assms(3) in \<open>auto simp: alert_cold_edit_def\<close>)

lemma backed_retry:
  assumes "cold_backed holds h s db"
  shows "edits retry_edit i db db' \<Longrightarrow> cold_backed holds h s db'"
    and "alert_edits alert_retry_edit i db db' \<Longrightarrow> cold_backed holds h s db'"
    and "edits (cold_edit h' (\<lambda>p. False)) i db db' \<Longrightarrow> cold_backed holds h s db'"
    and "alert_edits (alert_cold_edit h' (\<lambda>p. False)) i db db' \<Longrightarrow> cold_backed holds h s db'"
  by (erule cold_backed_edits [OF assms] cold_backed_alert_edits [OF assms];
      simp add: retry_edit_def alert_retry_edit_def cold_edit_def alert_cold_edit_def)+

lemma backed_marked:
  assumes "cold_backed holds h s db" "edits (cold_edit h ((=) p)) (cl_id c) db db'" "media_inv db" "c \<in> set (clips db)"
    "cl_sha256 c = Some x" "holds s p x" "components p \<noteq> []" "last (components p) = dec_int (cl_id c) @ ''.mp4''"
  shows "cold_backed holds h s db'"
proof (rule cold_backed_edits [OF assms(1,2)])
  fix c' d
  assume e: "cold_edit h ((=) p) c' d" "c' \<in> set (clips db)" "cl_id c' = cl_id c" "cold_handle d = Some h"
  then have "c' = c" using same_clip assms(3,4) by blast
  then show "cl_id d = cl_id c' \<and> (backs holds s (dec_int (cl_id c')) (cold_path d) (cl_sha256 d)
      \<or> cl_sha256 d = cl_sha256 c' \<and> cold_handle c' = Some h \<and> cold_path d = cold_path c')"
    using e(1,4) assms(5-8) by (auto simp: cold_edit_def backs_def)
qed

lemma same_alert_clip:
  assumes "media_inv db" "c \<in> set (alert_clips db)" "d \<in> set (alert_clips db)" "al_id c = al_id d"
  shows "c = d"
  using assms inv_parts(3) by (metis distinct_map inj_onD)

lemma backed_alert_marked:
  assumes "cold_backed holds h s db" "alert_edits (alert_cold_edit h ((=) p)) (al_id c) db db'" "media_inv db"
    "c \<in> set (alert_clips db)" "al_sha256 c = Some x" "holds s p x" "components p \<noteq> []"
    "last (components p) = alert_edge_id (al_id c) @ ''.mp4''"
  shows "cold_backed holds h s db'"
proof (rule cold_backed_alert_edits [OF assms(1,2)])
  fix c' d
  assume e: "alert_cold_edit h ((=) p) c' d" "c' \<in> set (alert_clips db)" "al_id c' = al_id c" "al_cold_handle d = Some h"
  then have "c' = c" using same_alert_clip assms(3,4) by blast
  then show "al_id d = al_id c' \<and> (backs holds s (alert_edge_id (al_id c')) (al_cold_path d) (al_sha256 d) \<and> al_cold_uploaded_at d \<noteq> None
      \<or> al_sha256 d = al_sha256 c' \<and> al_cold_handle c' = Some h \<and> al_cold_path d = al_cold_path c'
        \<and> al_cold_uploaded_at d = al_cold_uploaded_at c')"
    using e(1,4) assms(5-8) by (auto simp: alert_cold_edit_def backs_def)
qed

text \<open>The rows that a \<open>put\<close> under the name \<open>n\<close> could disturb are not cold on this backend.\<close>

definition name_free :: "string \<Rightarrow> string \<Rightarrow> media_db \<Rightarrow> bool" where
  "name_free h n db \<longleftrightarrow>
     (\<forall>c \<in> set (clips db). dec_int (cl_id c) = n \<longrightarrow> cold_handle c \<noteq> Some h)
     \<and> (\<forall>a \<in> set (alert_clips db). alert_edge_id (al_id a) = n \<longrightarrow> al_cold_handle a \<noteq> Some h)"

lemma name_free_clip:
  assumes "media_inv db" "c \<in> set (clips db)" "cold_handle c = None"
  shows "name_free h (dec_int (cl_id c)) db"
  using assms same_clip [OF assms(1)] unfolding name_free_def
  by (metis dec_int_inj edge_id_names(5) option.distinct(1))

lemma name_free_alert:
  assumes "media_inv db" "a \<in> set (alert_clips db)" "al_cold_handle a \<noteq> Some h"
  shows "name_free h (alert_edge_id (al_id a)) db"
  using assms same_alert_clip [OF assms(1)] unfolding name_free_def
  by (metis edge_id_names(3,4))

text \<open>An upload to another backend.\<close>

lemma upload_one_elsewhere:
  assumes "upload_one cfg a e c hist w = (res, w')" "be_handle a \<noteq> h" "cold_backed holds h s (cw_db w)"
  shows "cw_cold w' h = cw_cold w h" "cold_backed holds h s (cw_db w')"
  using assms(1)
  by (cases rule: upload_one_cases; use assms(2,3) in \<open>auto intro: backed_other_handle\<close>)+

lemma upload_alert_elsewhere:
  assumes "upload_alert_clip_one cfg a e c w = (res, w')" "be_handle a \<noteq> h" "cold_backed holds h s (cw_db w)"
  shows "cw_cold w' h = cw_cold w h" "cold_backed holds h s (cw_db w')"
  using assms(1)
  by (cases rule: upload_alert_clip_one_cases; use assms(2,3) in \<open>auto intro: backed_other_alert_handle\<close>)+

text \<open>Processing one row leaves the others as they are.\<close>

lemma upload_pending_others:
  assumes "d \<in> set (clips (cw_db w))" "cl_id d \<noteq> cl_id c"
  shows "d \<in> set (clips (cw_db (upload_pending cfg a te c w)))"
proof (rule upload_pending_split [of w cfg a te c])
  fix w1
  assume w1: "w1 = w \<or> (\<exists>res. upload_one cfg a (te_clip te (cl_id c)) c
        (attached_history (te_enrollment te) (cl_started c)) w = (res, w1))"
    and rest: "edits retry_edit (cl_id c) (cw_db w1) (cw_db (upload_pending cfg a te c w))"
  have "d \<in> set (clips (cw_db w1))"
    using w1
  proof (elim disjE exE)
    fix res
    assume "upload_one cfg a (te_clip te (cl_id c)) c (attached_history (te_enrollment te) (cl_started c)) w = (res, w1)"
    then show ?thesis
      by (cases rule: upload_one_cases) (use assms in \<open>auto intro: edits_other\<close>)
  qed (use assms in simp)
  then show ?thesis using edits_other [OF rest] assms(2) by blast
qed

lemma upload_pending_alert_others:
  assumes "d \<in> set (alert_clips (cw_db w))" "al_id d \<noteq> al_id c"
  shows "d \<in> set (alert_clips (cw_db (upload_pending_alert cfg a te c w)))"
proof (rule upload_pending_alert_split [of cfg a te c w])
  fix w1
  assume w1: "\<exists>res. upload_alert_clip_one cfg a (te_alert te (al_id c)) c w = (res, w1)"
    and rest: "alert_edits alert_retry_edit (al_id c) (cw_db w1) (cw_db (upload_pending_alert cfg a te c w))"
  from w1 obtain res where "upload_alert_clip_one cfg a (te_alert te (al_id c)) c w = (res, w1)" ..
  then have "d \<in> set (alert_clips (cw_db w1))"
    by (cases rule: upload_alert_clip_one_cases) (use assms in \<open>auto intro: alert_edits_other\<close>)
  then show ?thesis using alert_edits_other [OF rest] assms(2) by blast
qed

context cold_contract
begin

lemma put_keeps_backing:
  assumes "inv s" "cold_backed holds h s db" "name_free h n db"
    "clip_path p" "last (components p) = n @ ''.mp4''"
  shows "cold_backed holds h (snd (be_put b f p x sha s)) db"
proof -
  have "backs holds (snd (be_put b f p x sha s)) m path k"
    if bk: "backs holds s m path k" and ne: "m \<noteq> n" for m path k
  proof -
    obtain q y where q: "path = Some q" "k = Some y" "components q \<noteq> []" "last (components q) = m @ ''.mp4''" "holds s q y"
      using bk unfolding backs_def by blast
    have "clip_path q" using q(3,4) by (simp add: clip_path_def strip_suffix_def)
    moreover have "components p \<noteq> components q" using q(4) assms(5) ne by auto
    ultimately have "holds (snd (be_put b f p x sha s)) q y"
      using put_local [OF assms(1,4)] q(5) by blast
    then show ?thesis using q unfolding backs_def by blast
  qed
  then show ?thesis using assms(2,3) unfolding cold_backed_def name_free_def by metis
qed

lemma put_from:
  assumes "be_put b f p x sha s = (r, s')" "inv s" "cold_backed holds h s db" "name_free h n db"
    "clip_path p" "last (components p) = n @ ''.mp4''"
  shows "inv s'" "cold_backed holds h s' db"
  using put_keeps_inv [OF assms(2,5), of f x sha] put_keeps_backing [OF assms(2-6), of f x sha] by (simp_all add: assms(1))

text \<open>The state of the backend and the rows on it, for any active backend: this one or another.\<close>

definition safe :: "'s cr_world \<Rightarrow> bool" where
  "safe w \<longleftrightarrow> media_inv (cw_db w) \<and> inv (cw_cold w (be_handle b))
     \<and> cold_backed holds (be_handle b) (cw_cold w (be_handle b)) (cw_db w)"

lemma upload_one_safe:
  assumes "safe w" "c \<in> set (clips (cw_db w))" "cold_handle c = None" "upload_one cfg b e c hist w = (res, w')"
  shows "safe w'"
proof -
  define h where "h = be_handle b"
  have s: "media_inv (cw_db w)" "inv (cw_cold w h)" "cold_backed holds h (cw_cold w h) (cw_db w)"
    using assms(1) by (simp_all add: safe_def h_def)
  have m: "media_inv (cw_db w')" using schema.upload_one_rel [OF assms(4)] s(1) by blast
  note name = cold_path_name [OF edge_id_names(1) [of "cl_id c"]]
    and put = put_from [OF _ s(2,3) name_free_clip [OF s(1) assms(2,3)] cold_path_name(3,2) [OF edge_id_names(1)]]
  from assms(4) have "inv (cw_cold w' h) \<and> cold_backed holds h (cw_cold w' h) (cw_db w')"
  proof (cases rule: upload_one_cases)
    case (found hot sha)
    note f = found [folded h_def]
    have "holds (cw_cold w h) (cold_path_for hot (dec_int (cl_id c))) sha" by (rule exists_sound [OF s(2) name(3) f(3)])
    from backed_marked [where holds = holds, OF s(3) f(5) s(1) assms(2) f(2) this name(1,2)] show ?thesis
      using s f(4) by simp
  next
    case (failed hot sha x err s')
    then show ?thesis using put [OF failed(3) [folded h_def]] by (simp add: h_def)
  next
    case (stored hot sha x r s')
    note f = stored [folded h_def]
    have p: "pr_path r = cold_path_for hot (dec_int (cl_id c))" "holds s' (cold_path_for hot (dec_int (cl_id c))) sha"
      using put_stores [OF s(2) name(3) f(3)] by auto
    from backed_marked [where holds = holds, OF put(2) [OF f(3)] f(5) [unfolded p] s(1) assms(2) f(2) p(2) name(1,2)]
    show ?thesis using put(1) [OF f(3)] f(4) by simp
  qed (use s in simp)
  then show ?thesis using m by (simp add: safe_def h_def)
qed

lemma upload_alert_safe:
  assumes "safe w" "a \<in> set (alert_clips (cw_db w))" "al_cold_uploaded_at a = None"
    "upload_alert_clip_one cfg b e a w = (res, w')"
  shows "safe w'"
proof -
  define h where "h = be_handle b"
  have s: "media_inv (cw_db w)" "inv (cw_cold w h)" "cold_backed holds h (cw_cold w h) (cw_db w)"
    using assms(1) by (simp_all add: safe_def h_def)
  have m: "media_inv (cw_db w')" using schema.upload_alert_rel [OF assms(4)] s(1) by blast
  have "al_cold_handle a \<noteq> Some h" using s(3) assms(2,3) unfolding cold_backed_def by blast
  note name = cold_path_name [OF edge_id_names(2) [of "al_id a"]]
    and put = put_from [OF _ s(2,3) name_free_alert [OF s(1) assms(2) this] cold_path_name(3,2) [OF edge_id_names(2)]]
  from assms(4) have "inv (cw_cold w' h) \<and> cold_backed holds h (cw_cold w' h) (cw_db w')"
  proof (cases rule: upload_alert_clip_one_cases)
    case (found sha)
    note f = found [folded h_def]
    have "holds (cw_cold w h) (cold_path_for (al_path a) (alert_edge_id (al_id a))) sha"
      by (rule exists_sound [OF s(2) name(3) f(2)])
    from backed_alert_marked [where holds = holds, OF s(3) f(4) s(1) assms(2) f(1) this name(1,2)] show ?thesis
      using s f(3) by simp
  next
    case (failed sha x err s')
    then show ?thesis using put [OF failed(2) [folded h_def]] by (simp add: h_def)
  next
    case (stored sha x r s')
    note f = stored [folded h_def]
    have "holds s' (cold_path_for (al_path a) (alert_edge_id (al_id a))) sha"
      using put_stores [OF s(2) name(3) f(2)] by simp
    from backed_alert_marked [where holds = holds, OF put(2) [OF f(2)] f(4) s(1) assms(2) f(1) this name(1,2)]
    show ?thesis using put(1) [OF f(2)] f(3) by simp
  qed (use s in simp)
  then show ?thesis using m by (simp add: safe_def h_def)
qed

lemma safe_retry:
  assumes "safe w1" "cw_cold w' = cw_cold w1" "media_inv (cw_db w')"
    "edits retry_edit i (cw_db w1) (cw_db w') \<or> alert_edits alert_retry_edit i (cw_db w1) (cw_db w')"
  shows "safe w'"
proof -
  have s: "inv (cw_cold w1 (be_handle b))" "cold_backed holds (be_handle b) (cw_cold w1 (be_handle b)) (cw_db w1)"
    using assms(1) by (simp_all add: safe_def)
  have "cold_backed holds (be_handle b) (cw_cold w1 (be_handle b)) (cw_db w')"
    using assms(4) by (elim disjE) (rule backed_retry(1,2) [OF s(2)], assumption)+
  then show ?thesis using s(1) assms(2,3) by (simp add: safe_def)
qed

lemma upload_pending_safe:
  assumes "safe w" "c \<in> set (clips (cw_db w))" "cold_handle c = None" "a = b \<or> be_handle a \<noteq> be_handle b"
  shows "safe (upload_pending cfg a te c w)"
proof (rule upload_pending_split [of w cfg a te c])
  fix w1
  assume w1: "w1 = w \<or> (\<exists>res. upload_one cfg a (te_clip te (cl_id c)) c
        (attached_history (te_enrollment te) (cl_started c)) w = (res, w1))"
    and rest: "cw_cold (upload_pending cfg a te c w) = cw_cold w1"
      "edits retry_edit (cl_id c) (cw_db w1) (cw_db (upload_pending cfg a te c w))"
  have "safe w1"
    using w1 assms upload_one_safe [OF assms(1-3)]
      upload_one_elsewhere [where holds = holds and h = "be_handle b" and s = "cw_cold w (be_handle b)"]
    unfolding safe_def by (metis schema.upload_one_rel)
  then show ?thesis using safe_retry rest schema.upload_pending_rel assms(1) unfolding safe_def by blast
qed

lemma upload_pending_alert_safe:
  assumes "safe w" "c \<in> set (alert_clips (cw_db w))" "al_cold_uploaded_at c = None" "a = b \<or> be_handle a \<noteq> be_handle b"
  shows "safe (upload_pending_alert cfg a te c w)"
proof (rule upload_pending_alert_split [of cfg a te c w])
  fix w1
  assume w1: "\<exists>res. upload_alert_clip_one cfg a (te_alert te (al_id c)) c w = (res, w1)"
    and rest: "cw_cold (upload_pending_alert cfg a te c w) = cw_cold w1"
      "alert_edits alert_retry_edit (al_id c) (cw_db w1) (cw_db (upload_pending_alert cfg a te c w))"
  have "safe w1"
    using w1 assms upload_alert_safe [OF assms(1-3)]
      upload_alert_elsewhere [where holds = holds and h = "be_handle b" and s = "cw_cold w (be_handle b)"]
    unfolding safe_def by (metis schema.upload_alert_rel)
  then show ?thesis using safe_retry rest schema.upload_pending_alert_rel assms(1) unfolding safe_def by blast
qed

lemma drain_safe:
  assumes "safe w" "a = b \<or> be_handle a \<noteq> be_handle b"
  shows "safe (drain_clips cfg a te fl w)" "safe (drain_alert_clips cfg a te fl w)"
proof -
  have m: "media_inv (cw_db w)" using assms(1) by (simp add: safe_def)
  show "safe (drain_clips cfg a te fl w)"
    unfolding drain_clips_def
  proof (rule fold_rows [where I = safe and key = cl_id and P = "\<lambda>w c. c \<in> set (clips (cw_db w)) \<and> cold_handle c = None"])
    show "distinct (map cl_id (if te_fails te 1 then [] else clips_pending_cold_upload (te_now te 1) BATCH_SIZE fl (cw_db w)))"
      using pending_rows(1) [OF m] by simp
    show "\<forall>c \<in> set (if te_fails te 1 then [] else clips_pending_cold_upload (te_now te 1) BATCH_SIZE fl (cw_db w)).
        c \<in> set (clips (cw_db w)) \<and> cold_handle c = None"
      using pending_rows(2) [OF m] by (auto simp: awaits_upload_def)
    show "safe (upload_pending cfg a te x v)" if "safe v" "x \<in> set (clips (cw_db v)) \<and> cold_handle x = None" for x v
      using that assms(2) by (intro upload_pending_safe) auto
    show "y \<in> set (clips (cw_db (upload_pending cfg a te x v))) \<and> cold_handle y = None"
      if "y \<in> set (clips (cw_db v)) \<and> cold_handle y = None" "cl_id x \<noteq> cl_id y" for x y v
      using that by (auto intro: upload_pending_others)
  qed (rule assms(1))
  show "safe (drain_alert_clips cfg a te fl w)"
  proof (cases "te_fails te 2")
    case False
    have "safe (fold (upload_pending_alert cfg a te)
        (alert_clips_pending_cold_upload ALERT_COLD_BATCH fl (te_now te 2 - ALERT_COLD_RETRY) (cw_db w)) w)"
    proof (rule fold_rows [where I = safe and key = al_id and
            P = "\<lambda>w c. c \<in> set (alert_clips (cw_db w)) \<and> al_cold_uploaded_at c = None"])
      show "safe (upload_pending_alert cfg a te x v)"
        if "safe v" "x \<in> set (alert_clips (cw_db v)) \<and> al_cold_uploaded_at x = None" for x v
        using that assms(2) by (intro upload_pending_alert_safe) auto
      show "y \<in> set (alert_clips (cw_db (upload_pending_alert cfg a te x v))) \<and> al_cold_uploaded_at y = None"
        if "y \<in> set (alert_clips (cw_db v)) \<and> al_cold_uploaded_at y = None" "al_id x \<noteq> al_id y" for x y v
        using that by (auto intro: upload_pending_alert_others)
    qed (use assms(1) pending_alert_rows [OF m] in auto)
    then show ?thesis using False by (simp add: drain_alert_clips_def)
  qed (use assms in \<open>simp add: drain_alert_clips_def\<close>)
qed

lemma tick_safe:
  assumes "safe w" "\<And>h a. registry_get h reg = Some a \<Longrightarrow> a = b \<or> be_handle a \<noteq> be_handle b"
  shows "safe (tick cfg reg te w)"
proof (rule tick_cases [of cfg reg te w])
  fix h a fl
  assume t: "registry_get h reg = Some a"
    "tick cfg reg te w = (let w1 = drain_clips cfg a te fl (w\<lparr>last_health_was_ok := True, cw_rate := max 0 (throttle_bps (cw_db w))\<rparr>)
         in if outbox_wired cfg then drain_alert_clips cfg a te fl w1 else w1)"
  have "safe (w\<lparr>last_health_was_ok := True, cw_rate := max 0 (throttle_bps (cw_db w))\<rparr>)"
    using assms(1) by (simp add: safe_def)
  then show ?thesis unfolding t(2) Let_def using drain_safe assms(2) [OF t(1)] by simp
qed (use assms in \<open>auto simp: safe_def\<close>)

lemma replicator_safe:
  assumes "safe w" "\<And>h a. registry_get h reg = Some a \<Longrightarrow> a = b \<or> be_handle a \<noteq> be_handle b"
  shows "safe (replicator_step cfg reg ev w)"
proof -
  have re: "safe (reannounce cfg re v)" if "safe v" for v re
  proof -
    have s: "media_inv (cw_db v)" "inv (cw_cold v (be_handle b))"
      "cold_backed holds (be_handle b) (cw_cold v (be_handle b)) (cw_db v)" using that by (simp_all add: safe_def)
    have "cold_backed holds (be_handle b) (cw_cold v (be_handle b)) (cw_db (reannounce cfg re v))"
      by (rule reannounce_keeps [where P = "cold_backed holds (be_handle b) (cw_cold v (be_handle b))", OF s(3)])
        (erule backed_retry(3,4), rule statement_edits alert_statement_edits)+
    moreover have "media_inv (cw_db (reannounce cfg re v))"
      using schema.reannounce_rel s(1) by blast
    ultimately show ?thesis using s(2) by (simp add: safe_def reannounce_frame)
  qed
  have t: "safe (tick cfg reg te v)" if "safe v" for v te by (rule tick_safe [OF that assms(2)])
  have kick: "safe (w\<lparr>cw_kick := False\<rparr>)" using assms(1) by (simp add: safe_def)
  show ?thesis
  proof (cases ev)
    case (Alert_Seen cam failing)
    obtain i where "edits retry_edit i (cw_db w) (snd (bump_latest_pending_clip_for_camera cam URGENT_CLIP_PRIORITY (cw_db w)))"
      using bump_edits by blast
    then have "safe (w\<lparr>cw_db := snd (bump_latest_pending_clip_for_camera cam URGENT_CLIP_PRIORITY (cw_db w)), cw_kick := k\<rparr>)" for k
      using assms(1) inv_bump_latest by (intro safe_retry [OF assms(1)]) (auto simp: safe_def)
    from this [of "cw_kick w"] this [of True] show ?thesis
      using assms(1) Alert_Seen by (auto split: prod.split option.split)
  qed (use re t kick assms(1) in auto)
qed

lemma run_safe:
  assumes "safe w" "\<And>h a. registry_get h reg = Some a \<Longrightarrow> a = b \<or> be_handle a \<noteq> be_handle b"
  shows "safe (fold (replicator_step cfg reg) evs w)"
  by (rule fold_inv [where P = safe]) (use assms replicator_safe in auto)

end

end
