(* ===== verification/Cold_Properties.thy ===== *)
theory Cold_Properties
  imports Cold_Guarantees
begin

text \<open>
  The properties of the cold replicator over whole runs of its loop: cold marks
  are backed by the share, the hot tier is left alone, failed uploads are
  bounded, and no clip goes to the cloud without an announcement to repeat.
\<close>

section \<open>Failed uploads\<close>

definition retry_ok :: "clip_row \<Rightarrow> bool" where
  "retry_ok c \<longleftrightarrow> 0 \<le> cold_attempts c \<and> cold_attempts c \<le> MAX_COLD_ATTEMPTS
     \<and> (cold_attempts c = MAX_COLD_ATTEMPTS \<longrightarrow> cold_quarantined c)"

definition retries_ok :: "media_db \<Rightarrow> bool" where
  "retries_ok db = list_all retry_ok (clips db)"

lemma retries_edits:
  assumes "retries_ok db" "edits R i db db'"
    "\<And>c d. R c d \<Longrightarrow> c \<in> set (clips db) \<Longrightarrow> cl_id c = i \<Longrightarrow> retry_ok c \<Longrightarrow> retry_ok d"
  shows "retries_ok db'"
proof -
  obtain g where g: "\<forall>c. R c (g c)" "db' = db\<lparr>clips := map (\<lambda>c. if cl_id c = i then g c else c) (clips db)\<rparr>"
    using assms(2) unfolding edits_def by blast
  have "retry_ok (g c)" if "c \<in> set (clips db)" "cl_id c = i" for c
    using assms(1,3) g(1) that unfolding retries_ok_def list_all_iff by blast
  then show ?thesis using assms(1) by (auto simp: g(2) retries_ok_def list_all_iff)
qed

lemma retries_clips: "clips db' = clips db \<Longrightarrow> retries_ok db' = retries_ok db"
  by (simp add: retries_ok_def)

lemma alert_edits_clips: "alert_edits R i db db' \<Longrightarrow> clips db' = clips db"
  by (auto simp: alert_edits_def)

lemma upload_one_edits:
  assumes "upload_one cfg b e c hist w = (res, w')"
  shows "\<exists>Q. edits (cold_edit (be_handle b) Q) (cl_id c) (cw_db w) (cw_db w')"
  using assms by (cases rule: upload_one_cases) auto

lemma upload_alert_clips:
  assumes "upload_alert_clip_one cfg b e a w = (res, w')"
  shows "clips (cw_db w') = clips (cw_db w)"
  using assms by (cases rule: upload_alert_clip_one_cases) (auto dest: alert_edits_clips)

lemma schedule_quarantine: "snd (cold_backoff_schedule n now) \<longleftrightarrow> n \<ge> MAX_COLD_ATTEMPTS"
  by (simp add: cold_backoff_schedule_def)

lemma failure_edit:
  "edits (\<lambda>c d. cold_attempts d = cold_attempts c + 1 \<and> cold_quarantined d = q) i db
     (snd (record_cold_upload_failure i t e n q db))"
  "edits (\<lambda>c d. cold_attempts d = cold_attempts c \<and> cold_quarantined d) i db (snd (quarantine_clip i t e db))"
  unfolding record_cold_upload_failure_def quarantine_clip_def by (auto intro!: update_clips_edits)

lemma upload_pending_retries:
  assumes "media_inv (cw_db w)" "retries_ok (cw_db w)" "c \<in> set (clips (cw_db w))" "\<not> cold_quarantined c"
  shows "retries_ok (cw_db (upload_pending cfg b te c w))"
proof -
  define e where "e = te_clip te (cl_id c)"
  obtain res w1 where up: "upload_one cfg b e c (attached_history (te_enrollment te) (cl_started c)) w = (res, w1)" by fastforce
  obtain Q where ed: "edits (cold_edit (be_handle b) Q) (cl_id c) (cw_db w) (cw_db w1)" using upload_one_edits [OF up] ..
  have r1: "retries_ok (cw_db w1)" by (rule retries_edits [OF assms(2) ed]) (simp add: cold_edit_def retry_ok_def)
  have mine: "cold_attempts d = cold_attempts c" "cold_quarantined d = cold_quarantined c"
    if "d \<in> set (clips (cw_db w1))" "cl_id d = cl_id c" for d
    using ed that same_clip [OF assms(1) _ assms(3)] unfolding edits_def cold_edit_def by (auto split: if_splits) metis+
  have "retry_ok c" using assms(2,3) by (simp add: retries_ok_def list_all_iff)
  then have lt: "0 \<le> cold_attempts c" "cold_attempts c < MAX_COLD_ATTEMPTS" using assms(4) by (auto simp: retry_ok_def)
  have fail: "retries_ok (cw_db (snd (store_call f (record_cold_upload_failure (cl_id c) t r n
      (snd (cold_backoff_schedule (cold_attempts c + 1) t'))) w1)))" for f t t' r n
  proof (cases f)
    case False
    then show ?thesis
      by (simp add: store_call_db, intro retries_edits [OF r1 failure_edit(1)])
        (use mine lt in \<open>auto simp: retry_ok_def schedule_quarantine MAX_COLD_ATTEMPTS_def\<close>)
  qed (simp add: store_call_db r1)
  have quar: "retries_ok (cw_db (snd (store_call f (quarantine_clip (cl_id c) t r) w)))" for f t r
  proof (cases f)
    case False
    then show ?thesis
      by (simp add: store_call_db, intro retries_edits [OF assms(2) failure_edit(2)]) (auto simp: retry_ok_def)
  qed (simp add: store_call_db assms(2))
  show ?thesis
    using r1 fail quar up by (cases res) (auto simp: upload_pending_def Let_def e_def split_beta)
qed

lemma drain_clips_retries:
  assumes "media_inv (cw_db w)" "retries_ok (cw_db w)"
  shows "retries_ok (cw_db (drain_clips cfg b te fl w))"
proof -
  have "media_inv (cw_db (drain_clips cfg b te fl w)) \<and> retries_ok (cw_db (drain_clips cfg b te fl w))"
    unfolding drain_clips_def
  proof (rule fold_rows [where I = "\<lambda>w. media_inv (cw_db w) \<and> retries_ok (cw_db w)" and key = cl_id
        and P = "\<lambda>w c. c \<in> set (clips (cw_db w)) \<and> \<not> cold_quarantined c"])
    show "distinct (map cl_id (if te_fails te 1 then [] else clips_pending_cold_upload (te_now te 1) BATCH_SIZE fl (cw_db w)))"
      using pending_rows(1) [OF assms(1)] by simp
    show "\<forall>c \<in> set (if te_fails te 1 then [] else clips_pending_cold_upload (te_now te 1) BATCH_SIZE fl (cw_db w)).
        c \<in> set (clips (cw_db w)) \<and> \<not> cold_quarantined c"
      using pending_rows(2) [OF assms(1)] by (auto simp: awaits_upload_def)
    show "media_inv (cw_db (upload_pending cfg b te x v)) \<and> retries_ok (cw_db (upload_pending cfg b te x v))"
      if "media_inv (cw_db v) \<and> retries_ok (cw_db v)" "x \<in> set (clips (cw_db v)) \<and> \<not> cold_quarantined x" for x v
      using that schema.upload_pending_rel upload_pending_retries by blast
    show "y \<in> set (clips (cw_db (upload_pending cfg b te x v))) \<and> \<not> cold_quarantined y"
      if "y \<in> set (clips (cw_db v)) \<and> \<not> cold_quarantined y" "cl_id x \<noteq> cl_id y" for x y v
      using that by (auto intro: upload_pending_others)
  qed (use assms in simp)
  then show ?thesis by blast
qed

lemma drain_alert_clips_clips: "clips (cw_db (drain_alert_clips cfg b te fl w)) = clips (cw_db w)"
proof -
  have one: "clips (cw_db (upload_pending_alert cfg b te a v)) = clips (cw_db v)" for a v
  proof -
    obtain res w1 where up: "upload_alert_clip_one cfg b (te_alert te (al_id a)) a v = (res, w1)" by fastforce
    show ?thesis
      using upload_alert_clips [OF up] alert_edits_clips [OF alert_failure_edits]
      by (cases res) (auto simp: upload_pending_alert_def Let_def up store_call_db)
  qed
  have "clips (cw_db (fold (upload_pending_alert cfg b te) as v)) = clips (cw_db v)" for as v
    by (induction as arbitrary: v) (simp_all add: one)
  then show ?thesis by (simp add: drain_alert_clips_def)
qed

lemma tick_retries:
  assumes "media_inv (cw_db w)" "retries_ok (cw_db w)"
  shows "retries_ok (cw_db (tick cfg reg te w))"
proof (rule tick_cases [of cfg reg te w])
  fix h b fl
  assume t: "tick cfg reg te w = (let w1 = drain_clips cfg b te fl (w\<lparr>last_health_was_ok := True, cw_rate := max 0 (throttle_bps (cw_db w))\<rparr>)
         in if outbox_wired cfg then drain_alert_clips cfg b te fl w1 else w1)"
  show ?thesis
    unfolding t Let_def
    using drain_clips_retries [of "w\<lparr>last_health_was_ok := True, cw_rate := max 0 (throttle_bps (cw_db w))\<rparr>"] assms
    by (simp add: retries_clips [OF drain_alert_clips_clips])
qed (use assms in auto)

lemma bump_retries: "retries_ok db \<Longrightarrow> retries_ok (snd (bump_latest_pending_clip_for_camera cam p db))"
  by (auto simp: bump_latest_pending_clip_for_camera_def bump_clip_priority_def update_clips_def retries_ok_def
      list_all_iff retry_ok_def split: list.split)

lemma reannounce_retries: "retries_ok (cw_db w) \<Longrightarrow> retries_ok (cw_db (reannounce cfg re w))"
  by (erule reannounce_keeps; (erule retries_edits, rule statement_edits [where Q = "\<lambda>p. False"], simp add: cold_edit_def retry_ok_def
        | simp add: retries_clips [OF alert_edits_clips [OF alert_statement_edits(1)]]
            retries_clips [OF alert_edits_clips [OF alert_statement_edits(2)]]))

lemma step_retries:
  assumes "media_inv (cw_db w)" "retries_ok (cw_db w)"
  shows "retries_ok (cw_db (replicator_step cfg reg ev w))"
proof (cases ev)
  case (Alert_Seen cam failing)
  then show ?thesis
    using assms(2) bump_retries [OF assms(2), of cam URGENT_CLIP_PRIORITY] by (auto split: prod.split option.split)
qed (use assms in \<open>auto intro!: reannounce_retries tick_retries\<close>)

lemma run_retries:
  assumes "media_inv (cw_db w)" "retries_ok (cw_db w)"
  shows "retries_ok (cw_db (fold (replicator_step cfg reg) evs w))"
  using fold_inv [where P = "\<lambda>w. media_inv (cw_db w) \<and> retries_ok (cw_db w)" and f = "replicator_step cfg reg"]
    schema.step_rel step_retries assms by blast

section \<open>Announcements\<close>

text \<open>Every row marked cold on the handle carries the blob URL and the id of its announcement.\<close>

definition announceable :: "string \<Rightarrow> media_db \<Rightarrow> bool" where
  "announceable h db \<longleftrightarrow>
     list_all (\<lambda>c. cold_handle c = Some h \<longrightarrow> cl_blob_url c \<noteq> None \<and> cl_announce_id c \<noteq> None) (clips db)
     \<and> list_all (\<lambda>a. al_cold_handle a = Some h \<longrightarrow> al_blob_url a \<noteq> None \<and> al_announce_id a \<noteq> None) (alert_clips db)"

text \<open>The contract of a backend with blob URLs: each stored object has one.\<close>

definition gives_url :: "('f, 's) cold_backend \<Rightarrow> bool" where
  "gives_url b \<longleftrightarrow> be_yields_cloud_url b
     \<and> (\<forall>f p x sha s r s'. be_put b f p x sha s = (Inr r, s') \<longrightarrow> pr_url r \<noteq> None)"

lemma commit_keeps:
  assumes "commit_upload cfg e stamp mark sent envelope url w = (r, w')" "I (cw_db w)"
    "\<And>u db. I db \<Longrightarrow> I (snd (stamp u db)) \<and> J (snd (stamp u db))" "\<And>db. I db \<Longrightarrow> J db \<Longrightarrow> I (snd (mark db))"
    "\<And>t db. I db \<Longrightarrow> I (snd (sent t db))" "url \<noteq> None \<or> (\<forall>db. J db)"
  shows "I (cw_db w')"
proof -
  define w1 where "w1 = (case url of None \<Rightarrow> (Inr (), w) | Some u \<Rightarrow> store_call (ce_fails e 0) (stamp u) w)"
  define w2 where "w2 = store_call (ce_fails e 1) mark (snd w1)"
  have s1: "I (cw_db (snd w1)) \<and> (\<forall>u. fst w1 = Inr u \<longrightarrow> J (cw_db (snd w1)))"
  proof (cases url)
    case None
    then show ?thesis using assms(2,6) by (simp add: w1_def)
  next
    case (Some u)
    then show ?thesis
      using assms(2) assms(3) [OF assms(2), of u]
      by (auto simp: w1_def store_call_db) (auto simp: store_call_def split: if_splits prod.splits sum.splits)
  qed
  have s2: "fst w1 = Inr u \<Longrightarrow> I (cw_db (snd w2))" for u
    using s1 assms(4) by (simp add: w2_def store_call_db)
  have s3: "I (cw_db v) \<Longrightarrow> I (cw_db (snd (store_call f (sent t) (send_announce env v))))" for f t env v
    using assms(5) by (simp add: store_call_db)
  show ?thesis
    using assms(1) s1 s2 s3 w2_def [symmetric] unfolding commit_upload_def w1_def [symmetric]
    by (cases w1; cases "fst w1"; cases w2; cases "fst w2") (auto split: option.splits if_splits)
qed

lemma announceable_update:
  "announceable h db \<Longrightarrow>
    (\<And>c. P c \<Longrightarrow> c \<in> set (clips db) \<Longrightarrow> cold_handle (f c) = Some h \<Longrightarrow>
      cold_handle c = Some h \<and> cl_blob_url (f c) = cl_blob_url c \<and> cl_announce_id (f c) = cl_announce_id c
      \<or> cl_blob_url (f c) \<noteq> None \<and> cl_announce_id (f c) \<noteq> None) \<Longrightarrow>
    announceable h (snd (update_clips P f db))"
  by (fastforce simp: announceable_def update_clips_def list_all_iff)

lemma announceable_alert_update:
  "announceable h db \<Longrightarrow>
    (\<And>c. P c \<Longrightarrow> c \<in> set (alert_clips db) \<Longrightarrow> al_cold_handle (f c) = Some h \<Longrightarrow>
      al_cold_handle c = Some h \<and> al_blob_url (f c) = al_blob_url c \<and> al_announce_id (f c) = al_announce_id c
      \<or> al_blob_url (f c) \<noteq> None \<and> al_announce_id (f c) \<noteq> None) \<Longrightarrow>
    announceable h (snd (update_alert_clips P f db))"
  by (fastforce simp: announceable_def update_alert_clips_def list_all_iff)

lemma announceable_statements:
  assumes "announceable h db"
  shows "announceable h (snd (stamp_clip_announce i u a db))" "announceable h (snd (stamp_alert_clip_announce i u a db))"
    "announceable h (snd (record_clip_announce_sent i t db))" "announceable h (snd (record_alert_clip_announce_sent i t db))"
    "announceable h (snd (record_cold_upload_failure i t e n q db))" "announceable h (snd (quarantine_clip i t e db))"
    "announceable h (record_alert_clip_cold_failure i t e db)"
    "announceable h (snd (bump_latest_pending_clip_for_camera cam prio db))"
  using assms
  by (auto simp: stamp_clip_announce_def stamp_alert_clip_announce_def record_clip_announce_sent_def
      record_alert_clip_announce_sent_def record_cold_upload_failure_def quarantine_clip_def
      record_alert_clip_cold_failure_def bump_latest_pending_clip_for_camera_def bump_clip_priority_def split_beta
      intro!: announceable_update announceable_alert_update split: list.split)

lemma announceable_mark:
  assumes "announceable h db" "cm_handle m \<noteq> h \<or> (\<forall>c \<in> set (clips db). cl_id c = i \<longrightarrow> cl_blob_url c \<noteq> None \<and> cl_announce_id c \<noteq> None)"
  shows "announceable h (snd (mark_cold_replicated i m db))"
  using assms unfolding mark_cold_replicated_def
  by (cases "has_clip i db \<and> \<not> has_backend (cm_handle m) db") (auto intro!: announceable_update)

lemma announceable_alert_mark:
  assumes "announceable h db" "cm_handle m \<noteq> h \<or> (\<forall>c \<in> set (alert_clips db). al_id c = i \<longrightarrow> al_blob_url c \<noteq> None \<and> al_announce_id c \<noteq> None)"
  shows "announceable h (snd (mark_alert_clip_cold_replicated i m db))"
  using assms unfolding mark_alert_clip_cold_replicated_def
  by (cases "has_alert_clip i db \<and> \<not> has_backend (cm_handle m) db") (auto intro!: announceable_alert_update)

lemma stamped:
  "\<forall>d \<in> set (clips (snd (stamp_clip_announce i u a db))). cl_id d = i \<longrightarrow> cl_blob_url d \<noteq> None \<and> cl_announce_id d \<noteq> None"
  "\<forall>d \<in> set (alert_clips (snd (stamp_alert_clip_announce i u a db))).
     al_id d = i \<longrightarrow> al_blob_url d \<noteq> None \<and> al_announce_id d \<noteq> None"
  by (simp_all add: stamp_clip_announce_def stamp_alert_clip_announce_def update_clips_def update_alert_clips_def
      ball_Un)

lemma call_keeps:
  assumes "store_call f stmt w = (r, w')" "I (cw_db w)" "\<And>db. I db \<Longrightarrow> I (snd (stmt db))"
  shows "I (cw_db w')"
  using store_call_db [of f stmt w] assms by (simp split: if_splits)

lemma upload_one_announceable:
  assumes "upload_one cfg b e c hist w = (res, w')" "announceable h (cw_db w)"
    "gives_url b \<and> outbox_wired cfg \<or> be_handle b \<noteq> h"
  shows "announceable h (cw_db w')"
proof (cases "hot_path c"; cases "cl_sha256 c")
  fix hot sha
  assume hs: "hot_path c = Some hot" "cl_sha256 c = Some sha"
  let ?J = "\<lambda>db. be_handle b \<noteq> h \<or> (\<forall>d \<in> set (clips db). cl_id d = cl_id c \<longrightarrow> cl_blob_url d \<noteq> None \<and> cl_announce_id d \<noteq> None)"
  note run = assms(1) [unfolded upload_one_def hs option.case Let_def]
  show ?thesis
  proof (rule copy_cases [OF run])
    assume m: "store_call (ce_fails e 1) (mark_cold_replicated (cl_id c) \<lparr>cm_handle = be_handle b,
        cm_path = cold_path_for hot (dec_int (cl_id c)), cm_uploaded_at = ce_now e 0\<rparr>) w = (res, w')"
      and "\<not> (outbox_wired cfg \<and> be_yields_cloud_url b)"
    then have "be_handle b \<noteq> h" using assms(3) by (auto simp: gives_url_def)
    then show ?thesis using call_keeps [OF m, of "announceable h"] assms(2) announceable_mark by simp
  next
    fix x r s w1
    assume put: "be_put b (ce_put e) (cold_path_for hot (dec_int (cl_id c))) x sha (cw_cold w (be_handle b)) = (Inr r, s)"
      and w1: "cw_db w1 = cw_db w"
      and run: "commit_upload cfg e (\<lambda>u. stamp_clip_announce (cl_id c) u (ce_envelope e))
         (mark_cold_replicated (cl_id c) \<lparr>cm_handle = be_handle b, cm_path = pr_path r, cm_uploaded_at = pr_uploaded_at r\<rparr>)
         (record_clip_announce_sent (cl_id c)) (\<lambda>u. motion_clip_envelope (ce_envelope e) c u hist) (pr_url r) w1 = (res, w')"
    have url: "pr_url r \<noteq> None \<or> (\<forall>db. ?J db)" using assms(3) put unfolding gives_url_def by blast
    show ?thesis
    proof (rule commit_keeps [where I = "announceable h" and J = ?J, OF run _ _ _ announceable_statements(3) url])
      show "announceable h (cw_db w1)" using assms(2) w1 by simp
    qed (use announceable_statements(1) stamped(1) in blast, simp add: announceable_mark)
  qed (use assms(2) in auto)
qed (use assms in \<open>auto simp: upload_one_def\<close>)

lemma upload_alert_announceable:
  assumes "upload_alert_clip_one cfg b e a w = (res, w')" "announceable h (cw_db w)"
    "gives_url b \<and> outbox_wired cfg \<or> be_handle b \<noteq> h"
  shows "announceable h (cw_db w')"
proof (cases "al_sha256 a")
  case sha: (Some sha)
  let ?J = "\<lambda>db. be_handle b \<noteq> h \<or> (\<forall>d \<in> set (alert_clips db). al_id d = al_id a \<longrightarrow> al_blob_url d \<noteq> None \<and> al_announce_id d \<noteq> None)"
  let ?commit = "commit_upload cfg e (\<lambda>u. stamp_alert_clip_announce (al_id a) u (ce_envelope e))
     (mark_alert_clip_cold_replicated (al_id a) \<lparr>cm_handle = be_handle b,
        cm_path = cold_path_for (al_path a) (alert_edge_id (al_id a)), cm_uploaded_at = ce_now e 0\<rparr>)
     (record_alert_clip_announce_sent (al_id a)) (alert_clip_envelope (ce_envelope e) a)"
  have fin: "announceable h (cw_db v')"
    if "?commit url v = (r, v')" "cw_db v = cw_db w" "url \<noteq> None \<or> be_handle b \<noteq> h" for url r v v'
  proof -
    have given: "url \<noteq> None \<or> (\<forall>db. ?J db)" using that(3) by blast
    show ?thesis
    proof (rule commit_keeps [where I = "announceable h" and J = ?J, OF that(1) _ _ _ announceable_statements(4) given])
      show "announceable h (cw_db v)" using assms(2) that(2) by simp
    qed (use announceable_statements(2) stamped(2) in blast, simp add: announceable_alert_mark)
  qed
  note run = assms(1) [unfolded upload_alert_clip_one_def sha option.case Let_def]
  show ?thesis
  proof (rule copy_cases [OF run])
    assume m: "?commit None w = (res, w')" and "\<not> (outbox_wired cfg \<and> be_yields_cloud_url b)"
    then have "be_handle b \<noteq> h" using assms(3) by (auto simp: gives_url_def)
    then show ?thesis using fin [OF m] by simp
  next
    fix x r s w1
    assume put: "be_put b (ce_put e) (cold_path_for (al_path a) (alert_edge_id (al_id a))) x sha (cw_cold w (be_handle b)) = (Inr r, s)"
      and w1: "cw_db w1 = cw_db w" and c: "?commit (pr_url r) w1 = (res, w')"
    have "pr_url r \<noteq> None \<or> be_handle b \<noteq> h" using assms(3) put unfolding gives_url_def by blast
    from fin [OF c w1 this] show ?thesis .
  qed (use assms(2) in auto)
qed (use assms in \<open>auto simp: upload_alert_clip_one_def\<close>)

lemma pending_announceable:
  assumes "announceable h (cw_db w)" "gives_url b \<and> outbox_wired cfg \<or> be_handle b \<noteq> h"
  shows "announceable h (cw_db (upload_pending cfg b te c w))" "announceable h (cw_db (upload_pending_alert cfg b te a w))"
proof -
  obtain res w1 where up: "upload_one cfg b (te_clip te (cl_id c)) c (attached_history (te_enrollment te) (cl_started c)) w = (res, w1)"
    by fastforce
  note one = upload_one_announceable [OF up assms]
  have "announceable h (cw_db (snd (store_call f (record_cold_upload_failure i t r n q) w1)))"
    "announceable h (cw_db (snd (store_call f (quarantine_clip i t r) w)))" for f i t r n q
    using announceable_statements(5,6) one assms(1) by (simp_all add: store_call_db)
  then show "announceable h (cw_db (upload_pending cfg b te c w))"
    using one by (cases res) (auto simp: upload_pending_def Let_def up split_beta)
  obtain res w1 where up: "upload_alert_clip_one cfg b (te_alert te (al_id a)) a w = (res, w1)" by fastforce
  show "announceable h (cw_db (upload_pending_alert cfg b te a w))"
    using upload_alert_announceable [OF up assms] announceable_statements(7)
    by (cases res) (auto simp: upload_pending_alert_def Let_def up store_call_db)
qed

lemma tick_announceable:
  assumes "announceable h (cw_db w)" "\<And>k b. registry_get k reg = Some b \<Longrightarrow> gives_url b \<and> outbox_wired cfg \<or> be_handle b \<noteq> h"
  shows "announceable h (cw_db (tick cfg reg te w))"
proof (rule tick_cases [of cfg reg te w])
  fix k b fl
  assume t: "registry_get k reg = Some b"
    "tick cfg reg te w = (let w1 = drain_clips cfg b te fl (w\<lparr>last_health_was_ok := True, cw_rate := max 0 (throttle_bps (cw_db w))\<rparr>)
         in if outbox_wired cfg then drain_alert_clips cfg b te fl w1 else w1)"
  note pend = pending_announceable [OF _ assms(2) [OF t(1)]]
  have d: "announceable h (cw_db (drain_clips cfg b te fl v))" if "announceable h (cw_db v)" for v
    unfolding drain_clips_def by (rule fold_inv [where P = "\<lambda>w. announceable h (cw_db w)"]) (use that pend in auto)
  have a: "announceable h (cw_db (drain_alert_clips cfg b te fl v))" if "announceable h (cw_db v)" for v
    unfolding drain_alert_clips_def
    using fold_inv [where P = "\<lambda>w. announceable h (cw_db w)" and f = "upload_pending_alert cfg b te"] that pend by simp
  show ?thesis unfolding t(2) Let_def using a d assms(1) by simp
qed (use assms in auto)

lemma run_announceable:
  assumes "announceable h (cw_db w)" "\<And>k b. registry_get k reg = Some b \<Longrightarrow> gives_url b \<and> outbox_wired cfg \<or> be_handle b \<noteq> h"
  shows "announceable h (cw_db (fold (replicator_step cfg reg) evs w))"
proof (rule fold_inv [where P = "\<lambda>w. announceable h (cw_db w)"])
  fix ev and v :: "'a cr_world"
  assume v: "announceable h (cw_db v)"
  have re: "announceable h (cw_db (reannounce cfg re u))" if "announceable h (cw_db u)" for u :: "'a cr_world" and re
    by (rule reannounce_keeps [where P = "announceable h", OF that]) (rule announceable_statements, assumption)+
  show "announceable h (cw_db (replicator_step cfg reg ev v))"
  proof (cases ev)
    case (Alert_Seen cam failing)
    then show ?thesis
      using v announceable_statements(8) [OF v, of cam URGENT_CLIP_PRIORITY] by (auto split: prod.split option.split)
  qed (use v assms(2) in \<open>auto intro!: re tick_announceable\<close>)
qed (rule assms(1))

section \<open>Properties\<close>

text \<open>A store with one closed clip to replicate to a share, and the events around it.\<close>

definition demo_media :: media_db where
  "demo_media = fold media_exec
     [(0, Upsert_Backend ''nas'' ''lan'' ''{}''), (0, Write_Replica (Some ''nas'') 0), (0, Open_Clip (demo_new ''cam7/a.mp4'')),
      (60, Close_Clip 1 \<lparr>cc_ended = 60, cc_duration_ms = 60, cc_size = 6, cc_hot_path = None,
         cc_sha256 = Some (sha256_hex demo_sha ''abcdef'')\<rparr>)] (fresh_media\<lparr>enrolled_core := Some ''core''\<rparr>)"

definition demo_clip_env :: "'f \<Rightarrow> (path \<Rightarrow> string + string) \<Rightarrow> 'f clip_env" where
  "demo_clip_env f rd = \<lparr>ce_exists = f, ce_put = f, ce_read = rd, ce_envelope = ''e1'', ce_sent = True,
     ce_fails = (\<lambda>n. False), ce_now = (\<lambda>n. 100)\<rparr>"

definition demo_tick_env :: "'f \<Rightarrow> (path \<Rightarrow> string + string) \<Rightarrow> 'f tick_env" where
  "demo_tick_env f rd = \<lparr>te_fails = (\<lambda>n. False), te_health = f, te_now = (\<lambda>n. 100), te_enrollment = None,
     te_clip = (\<lambda>i. demo_clip_env f rd), te_alert = (\<lambda>i. demo_clip_env f rd), te_describe = (\<lambda>e. ''error'')\<rparr>"

definition demo_world :: "'s \<Rightarrow> 's cr_world" where
  "demo_world s = \<lparr>cw_db = demo_media, cw_cold = (\<lambda>k. s), cw_sent = [], cw_bus = [], cw_rate = 0,
     cw_acquired = [], last_health_was_ok = True, cw_kick = True\<rparr>"

definition demo_cfg :: "bool \<Rightarrow> cr_config" where
  "demo_cfg wired = \<lparr>cr_clips_dir = [''clips''], outbox_wired = wired, max_cold_upload_bytes = 1000\<rparr>"

definition one_backend :: "('f, 's) cold_backend \<Rightarrow> ('f, 's) backend_registry" where
  "one_backend b = replace_all [b] backend_registry_new"

lemma one_backend_keyed: "keyed (one_backend b)"
  unfolding one_backend_def by (intro keyed_registry)

lemma one_backend_get [simp]: "registry_get k (one_backend b) = (if k = be_handle b then Some b else None)"
  by (simp add: one_backend_def registry_get_replace backend_registry_new_def)

lemma demo_media_inv: "media_inv (demo_media)"
  unfolding demo_media_def
  by (rule media.run_keeps) (simp add: fresh_media_def media_inv_def links_ok_def keys_ok_def empty_db_inv has_backend_def,
    simp add: empty_db_def)

lemma demo_clip_rows: "map (\<lambda>c. (cl_id c, cold_handle c, cold_attempts c)) (clips demo_media) = [(1, None, 0)]" "alert_clips demo_media = []"
  by code_simp+

lemma demo_row:
  assumes "c \<in> set (clips demo_media)"
  shows "cold_handle c = None" "cold_attempts c = 0"
proof -
  have "(cl_id c, cold_handle c, cold_attempts c) \<in> set (map (\<lambda>c. (cl_id c, cold_handle c, cold_attempts c)) (clips demo_media))"
    using assms by auto
  then show "cold_handle c = None" "cold_attempts c = 0" unfolding demo_clip_rows by simp_all
qed

text \<open>
  C23. Composition of the replicator with the filesystem backend: after any run
  of the loop, with store, file and backend failures at any point and any other
  backends in the registry, every clip and alert clip that the store marks as
  cold on the share has a cold path whose base name is its edge clip id, and the
  share holds at that path a file that agrees with some content of the row's
  SHA-256 in all that the spot check reads.
\<close>

theorem lan_cold_marks_backed:
  assumes "keyed reg" "registry_get (lan_handle l) reg = Some (lan_backend sha l)"
    "media_inv (cw_db w)" "lan_inv sha l (cw_cold w (lan_handle l))"
    "cold_backed (lan_holds sha l) (lan_handle l) (cw_cold w (lan_handle l)) (cw_db w)"
  shows "cold_backed (lan_holds sha l) (lan_handle l) (cw_cold (fold (replicator_step cfg reg) evs w) (lan_handle l))
    (cw_db (fold (replicator_step cfg reg) evs w))"
proof -
  have h: "be_handle (lan_backend sha l) = lan_handle l" by (simp add: lan_backend_def)
  have only: "a = lan_backend sha l \<or> be_handle a \<noteq> lan_handle l" if "registry_get k reg = Some a" for k a
    using keyed_get [OF assms(1) that] that assms(2) by auto
  have "lan.safe sha l (fold (replicator_step cfg reg) evs w)"
    by (rule lan.run_safe) (use assms(3-5) only in \<open>auto simp: lan.safe_def h\<close>)
  then show ?thesis by (simp add: lan.safe_def h)
qed

lemma lan_cold_marks_backed_witness:
  "let w = fold (replicator_step (demo_cfg False) (one_backend (lan_backend demo_sha demo_lan)))
        [Clip_Closed (demo_tick_env no_faults (\<lambda>p. Inr ''abcdef''))] (demo_world Map.empty) in
   cold_backed (lan_holds demo_sha demo_lan) ''nas'' (cw_cold w ''nas'') (cw_db w)
   \<and> map cold_path (clips (cw_db w)) = [Some ''cam7/1.mp4'']
   \<and> cw_cold w ''nas'' [''mnt'', ''nas'', ''cam7'', ''1.mp4''] = Some ''abcdef''"
proof -
  let ?w = "fold (replicator_step (demo_cfg False) (one_backend (lan_backend demo_sha demo_lan)))
        [Clip_Closed (demo_tick_env no_faults (\<lambda>p. Inr ''abcdef''))] (demo_world Map.empty)"
  have "cold_backed (lan_holds demo_sha demo_lan) (lan_handle demo_lan) (cw_cold ?w (lan_handle demo_lan)) (cw_db ?w)"
    by (rule lan_cold_marks_backed)
      (auto simp: one_backend_keyed demo_world_def demo_media_inv lan_inv_def demo_digest cold_backed_def demo_clip_rows demo_row
        lan_backend_def)
  moreover have "map cold_path (clips (cw_db ?w)) = [Some ''cam7/1.mp4'']
    \<and> cw_cold ?w ''nas'' [''mnt'', ''nas'', ''cam7'', ''1.mp4''] = Some ''abcdef''"
    by code_simp
  ultimately show ?thesis by (simp add: demo_lan_def)
qed

text \<open>
  The replicator leaves the hot tier alone: after any run, with any failures,
  the tables hold the same rows with the same recording, hot pointers, content
  hashes, alert-clip states and acknowledgements as before, and all other
  tables are unchanged.  Only cold marks, retry state, priorities and
  announcement columns differ.
\<close>

lemma replicator_keeps_content:
  "content (cw_db (fold (replicator_step cfg reg) evs w)) = content (cw_db w)"
  by (rule hot.run_rel)

text \<open>
  C24. Bounded retries: however often uploads fail, no clip counts more than eight
  failed attempts, a clip that reaches eight is quarantined, and a drain never
  picks up a clip that has used up its attempts.
\<close>

theorem failed_uploads_bounded:
  assumes "media_inv (cw_db w)" "retries_ok (cw_db w)"
  shows "retries_ok (cw_db (fold (replicator_step cfg reg) evs w))
    \<and> list_all (\<lambda>c. cold_attempts c < 8)
        (clips_pending_cold_upload now n fl (cw_db (fold (replicator_step cfg reg) evs w)))"
proof -
  define db where "db = cw_db (fold (replicator_step cfg reg) evs w)"
  have r: "retries_ok db" unfolding db_def by (rule run_retries [OF assms])
  have m: "media_inv db" using schema.run_rel assms(1) unfolding db_def by blast
  have "cold_attempts c < 8" if "c \<in> set (clips_pending_cold_upload now n fl db)" for c
    using pending_rows(2) [OF m that] r
    by (auto simp: retries_ok_def list_all_iff retry_ok_def awaits_upload_def MAX_COLD_ATTEMPTS_def order.order_iff_strict)
  then show ?thesis using r by (simp add: list_all_iff db_def)
qed

lemma failed_uploads_bounded_witness:
  "let w = fold (replicator_step (demo_cfg False) (one_backend (lan_backend demo_sha demo_lan)))
        [Clip_Closed (demo_tick_env no_faults (\<lambda>p. Inl ''gone''))] (demo_world Map.empty) in
   retries_ok (cw_db w) \<and> filter (\<lambda>c. 8 \<le> cold_attempts c) (clips_pending_cold_upload (secs 200) (- 1) None (cw_db w)) = []
   \<and> map (\<lambda>c. (cold_attempts c, cold_next_attempt_at c, cold_quarantined c)) (clips (cw_db w)) = [(1, Some (100 + secs 60), False)]"
proof -
  let ?w = "fold (replicator_step (demo_cfg False) (one_backend (lan_backend demo_sha demo_lan)))
        [Clip_Closed (demo_tick_env no_faults (\<lambda>p. Inl ''gone''))] (demo_world Map.empty)"
  have "media_inv (cw_db (demo_world Map.empty))" "retries_ok (cw_db (demo_world Map.empty))"
    by (auto simp: demo_world_def demo_media_inv retries_ok_def list_all_iff retry_ok_def demo_row MAX_COLD_ATTEMPTS_def)
  note b = failed_uploads_bounded [OF this, of "demo_cfg False" "one_backend (lan_backend demo_sha demo_lan)"
      "[Clip_Closed (demo_tick_env no_faults (\<lambda>p. Inl ''gone''))]" "secs 200" "- 1" None]
  have "map (\<lambda>c. (cold_attempts c, cold_next_attempt_at c, cold_quarantined c)) (clips (cw_db ?w)) = [(1, Some (100 + secs 60), False)]"
    by code_simp
  then show ?thesis using b by (auto simp: Let_def list_all_iff filter_empty_conv simp del: fold_simps fold.simps)
qed

text \<open>
  C25. No clip is lost to the cloud between upload and announcement: with a
  backend that gives blob URLs and a wired tunnel, after any run and whichever
  store call or send failed in it, every row marked cold on that backend carries
  its URL and announcement id, and each such clip of the enrolled core that is
  unacknowledged, above the floor and due is in the set of announcements to repeat.
\<close>

theorem cold_clips_stay_announced:
  assumes "keyed reg" "registry_get h reg = Some b" "gives_url b" "outbox_wired cfg"
    "media_inv (cw_db w)" "announceable h (cw_db w)"
  shows "let db = cw_db (fold (replicator_step cfg reg) evs w) in
    announceable h db
    \<and> set (filter (\<lambda>c. cold_handle c = Some h \<and> cl_announced_at c = None \<and> same_core (cl_announce_core c) (enrolled_core db)
           \<and> above_floor fl (cl_started c) \<and> elapsed_at now (cl_announce_next_at c)) (clips db))
        \<subseteq> fst ` set (clips_pending_cloud_announce (- 1) now fl db)"
proof -
  define db where "db = cw_db (fold (replicator_step cfg reg) evs w)"
  have "gives_url a \<and> outbox_wired cfg \<or> be_handle a \<noteq> h" if "registry_get k reg = Some a" for k a
    using keyed_get [OF assms(1) that] that assms(2-4) by auto
  then have a: "announceable h db" unfolding db_def by (intro run_announceable) (use assms(6) in auto)
  have m: "media_inv db" using schema.run_rel assms(5) unfolding db_def by blast
  have "c \<in> fst ` set (clips_pending_cloud_announce (- 1) now fl db)"
    if c: "c \<in> set (clips db)" "cold_handle c = Some h" "cl_announced_at c = None"
      "same_core (cl_announce_core c) (enrolled_core db)" "above_floor fl (cl_started c)" "elapsed_at now (cl_announce_next_at c)"
    for c
  proof -
    have "cl_blob_url c \<noteq> None" using a c(1,2) by (simp add: announceable_def list_all_iff)
    moreover have "cold_uploaded_at c \<noteq> None"
      using inv_parts(2) [OF m] c(1,2) by (auto simp: list_all_iff clip_ok_def check_clip_def)
    moreover have "set (sort_null_first cl_announce_next_at cs) = set cs" for cs :: "clip_row list" by (auto simp: sort_null_first_def)
    ultimately show ?thesis using c(1,3-6)
      by (simp add: clips_pending_cloud_announce_def sql_limit_def image_image)
  qed
  then show ?thesis using a unfolding db_def [symmetric] by (auto simp: Let_def)
qed

definition demo_url_backend :: "(unit, unit) cold_backend" where
  "demo_url_backend = \<lparr>be_handle = ''nas'', be_kind = ''azure_blob'', be_yields_cloud_url = True,
     be_health = (\<lambda>f s. Health_Ok), be_exists = (\<lambda>f p h s. Inr False),
     be_put = (\<lambda>f p x h s. (Inr \<lparr>pr_path = p, pr_uploaded_at = 99, pr_bytes = length x, pr_url = Some (''https://b/'' @ p)\<rparr>, s))\<rparr>"

lemma cold_clips_stay_announced_witness:
  "let w = fold (replicator_step (demo_cfg True) (one_backend demo_url_backend))
        [Clip_Closed (demo_tick_env () (\<lambda>p. Inr ''abcdef''))] (demo_world ()) in
   announceable ''nas'' (cw_db w)
   \<and> map (\<lambda>(c, u, n). (cl_id c, u, n)) (clips_pending_cloud_announce (- 1) (100 + secs 300) None (cw_db w))
       = [(1, ''https://b/cam7/1.mp4'', 1)]"
proof -
  let ?w = "fold (replicator_step (demo_cfg True) (one_backend demo_url_backend))
        [Clip_Closed (demo_tick_env () (\<lambda>p. Inr ''abcdef''))] (demo_world ())"
  have u: "gives_url demo_url_backend" by (auto simp: gives_url_def demo_url_backend_def)
  have r: "registry_get ''nas'' (one_backend demo_url_backend) = Some demo_url_backend" "outbox_wired (demo_cfg True)"
    by (simp_all add: demo_url_backend_def demo_cfg_def)
  have "media_inv (cw_db (demo_world ()))" "announceable ''nas'' (cw_db (demo_world ()))"
    by (auto simp: demo_world_def demo_media_inv announceable_def demo_clip_rows list_all_iff demo_row)
  note this' = cold_clips_stay_announced [OF one_backend_keyed r(1) u r(2) this,
      of "[Clip_Closed (demo_tick_env () (\<lambda>p. Inr ''abcdef''))]"]
  have "announceable ''nas'' (cw_db ?w)" using this' unfolding Let_def by blast
  moreover have "map (\<lambda>(c, u, n). (cl_id c, u, n)) (clips_pending_cloud_announce (- 1) (100 + secs 300) None (cw_db ?w))
       = [(1, ''https://b/cam7/1.mp4'', 1)]" by code_simp
  ultimately show ?thesis by (simp add: Let_def del: fold_simps)
qed

end
