(* ===== verification/Assoc.thy ===== *)
theory Assoc
  imports "HOL-Library.AList"
begin

text \<open>Association lists as keyed tables: where an update or a deletion of a key happens.\<close>

lemma delete_notin: "i \<notin> fst ` set ps \<Longrightarrow> AList.delete i ps = ps"
  by (induction ps) auto

lemma update_absent: "map_of ps i = None \<Longrightarrow> AList.update i v ps = ps @ [(i, v)]"
  by (induction ps) (auto split: if_splits)

lemma update_same [simp]: "map_of ps k = Some v \<Longrightarrow> AList.update k v ps = ps"
  by (induction ps) auto

lemma update_present:
  assumes "distinct (map fst ps)" "map_of ps i = Some v"
  obtains as bs where "ps = as @ (i, v) # bs" "AList.update i v' ps = as @ (i, v') # bs" "AList.delete i ps = as @ bs"
  using assms
proof (induction ps arbitrary: thesis)
  case (Cons p ps)
  show ?case
  proof (cases "fst p = i")
    case True
    with Cons.prems have "p = (i, v)" "i \<notin> fst ` set ps" by auto
    then show ?thesis by (intro Cons.prems(1) [of "[]" ps]) (auto simp: delete_notin)
  next
    case False
    with Cons.prems have d: "distinct (map fst ps)" and m: "map_of ps i = Some v" by (auto split: if_splits)
    obtain as bs where "ps = as @ (i, v) # bs" "AList.update i v' ps = as @ (i, v') # bs" "AList.delete i ps = as @ bs"
      by (rule Cons.IH [OF _ d m])
    then show ?thesis using False by (intro Cons.prems(1) [of "p # as" bs]) (cases p; auto)+
  qed
qed simp

lemma length_filter_delete: "length (filter P (AList.delete i ps)) \<le> length (filter P ps)"
  by (induction ps) auto

end
