(* ===== verification/Cold_Cache.thy ===== *)
theory Cold_Cache
  imports Storage_Safety Cold_Replication Assoc
begin

text \<open>
  The cold-read cache of \<open>nexus-engine/src/cold_read_cache.rs\<close>: jobs that copy a
  soft-evicted clip back from its cold backend into the hot directory.  A job is
  a task that can be interleaved with every other at its \<open>await\<close> points, so its
  body is a machine with one phase per point; a step of the cache is one poll of
  one job, a new request, or a change of the watermark signal.  How the store,
  the disk and the backend answer is part of the step.  The hot directory is a
  map from paths to contents, as the share of the LAN backend is.
\<close>

section \<open>Jobs\<close>

definition CACHE_MAX_INFLIGHT :: nat where
  "CACHE_MAX_INFLIGHT = 4"

definition PARTIAL_SUFFIX :: string where
  "PARTIAL_SUFFIX = ''.cache.partial''"

datatype cache_outcome = Rehydrated u64 | Already_Hot | Watermark_Aborted | Skipped string

datatype cache_error =
  Clip_Not_Found int | No_Backend string | Backend_Failed string backend_error | Write_Partial path
| Rename_Failed path | Sha256_Mismatch string string | Cache_Store "clip_error option"

text \<open>What a job knows of its clip once it has read the row.\<close>

record cache_plan =
  pl_handle :: string
  pl_path :: string
  pl_sha256 :: string
  pl_size :: u64

text \<open>\<open>Downloading\<close> carries how often the waiters had been woken when it began to wait.\<close>

datatype job_phase =
  Waiting_Permit
| Reading_Row
| Planned cache_plan
| Downloading cache_plan nat
| Verified cache_plan string
| Partial_Written cache_plan
| Renamed cache_plan
| Ended "cache_error + cache_outcome"

fun holds_permit :: "job_phase \<Rightarrow> bool" where
  "holds_permit Waiting_Permit = False"
| "holds_permit (Ended r) = False"
| "holds_permit _ = True"

record cache_world =
  cc_signal :: watermark_signal
  cc_db :: media_db
  cc_hot :: share
  cc_jobs :: "(int \<times> job_phase) list"

definition set_phase :: "int \<Rightarrow> job_phase \<Rightarrow> cache_world \<Rightarrow> cache_world" where
  "set_phase i ph w = w\<lparr>cc_jobs := AList.update i ph (cc_jobs w)\<rparr>"

definition permits_used :: "cache_world \<Rightarrow> nat" where
  "permits_used w = length (filter (\<lambda>(i, ph). holds_permit ph) (cc_jobs w))"

section \<open>Paths\<close>

definition final_path :: "path \<Rightarrow> cache_plan \<Rightarrow> path" where
  "final_path dir pl = join_path dir (pl_path pl)"

definition partial_path :: "path \<Rightarrow> cache_plan \<Rightarrow> path" where
  "partial_path dir pl =
     (let p = final_path dir pl in
      butlast p @ [(if p = [] then ''clip.mp4'' else last p) @ PARTIAL_SUFFIX])"

section \<open>The body of a job\<close>

definition plan_clip ::
  "(string \<Rightarrow> bool) \<Rightarrow> int \<Rightarrow> media_db \<Rightarrow> (cache_error + cache_outcome) + cache_plan" where
  "plan_clip registered i db =
     (case get_clip i db of
        None \<Rightarrow> Inl (Inl (Clip_Not_Found i))
      | Some clip \<Rightarrow>
          if hot_path clip \<noteq> None then Inl (Inr Already_Hot)
          else (case cold_handle clip of
            None \<Rightarrow> Inl (Inr (Skipped ''no cold pointer''))
          | Some h \<Rightarrow>
              (case cold_path clip of
                 None \<Rightarrow> Inl (Inr (Skipped ''no cold path''))
               | Some p \<Rightarrow>
                   (case cl_sha256 clip of
                      None \<Rightarrow> Inl (Inr (Skipped ''no sha256''))
                    | Some s \<Rightarrow>
                        if cl_size clip \<le> 0 then Inl (Inr (Skipped ''zero size''))
                        else if \<not> registered h then Inl (Inl (No_Backend h))
                        else if ''..'' \<in> set (components p) then Inl (Inr (Skipped ''cold_path contains '..' ''))
                        else Inr \<lparr>pl_handle = h, pl_path = p, pl_sha256 = s, pl_size = of_int (cl_size clip)\<rparr>))))"

text \<open>The bytes are verified in memory, before anything is written.\<close>

definition verify_download ::
  "(string \<Rightarrow> string) \<Rightarrow> cache_plan \<Rightarrow> backend_error + string \<Rightarrow> job_phase" where
  "verify_download sha pl r =
     (case r of
        Inl e \<Rightarrow> Ended (Inl (Backend_Failed (pl_handle pl) e))
      | Inr bytes \<Rightarrow>
          if sha256_hex sha bytes \<noteq> pl_sha256 pl
          then Ended (Inl (Sha256_Mismatch (pl_sha256 pl) (sha256_hex sha bytes)))
          else Verified pl bytes)"

text \<open>Creating the partial file truncates it; a failed write or sync leaves what was written.\<close>

datatype write_result = Write_Ok | Create_Failed | Write_Failed nat

text \<open>
  A backend as a job sees it: \<open>get_range\<close> by handle and path, \<open>None\<close> while the
  download is under way.
\<close>

type_synonym fetch = "string \<Rightarrow> string \<Rightarrow> u64 \<Rightarrow> u64 \<Rightarrow> (backend_error + string) option"

datatype cache_event =
  Spawn int
| Acquire int
| Read_Row int "string \<Rightarrow> bool" bool bool
| Subscribe int
| Poll int fetch
| Write int write_result
| Rename int bool
| Update_Row int bool
| Finish int
| Set_Level watermark_level
| Elsewhere media_db share

fun cache_step :: "(string \<Rightarrow> string) \<Rightarrow> path \<Rightarrow> cache_event \<Rightarrow> cache_world \<Rightarrow> cache_world" where
  "cache_step sha dir (Spawn i) w =
     (if \<not> signal_is_ok (cc_signal w) then w
      else case map_of (cc_jobs w) i of Some ph \<Rightarrow> w | None \<Rightarrow> set_phase i Waiting_Permit w)"
| "cache_step sha dir (Acquire i) w =
     (case map_of (cc_jobs w) i of
        Some Waiting_Permit \<Rightarrow>
          if permits_used w < CACHE_MAX_INFLIGHT
          then set_phase i (if signal_is_ok (cc_signal w) then Reading_Row else Ended (Inr Watermark_Aborted)) w
          else w
      | _ \<Rightarrow> w)"
| "cache_step sha dir (Read_Row i registered store_fails mkdir_fails) w =
     (case map_of (cc_jobs w) i of
        Some Reading_Row \<Rightarrow>
          set_phase i
            (if store_fails then Ended (Inl (Cache_Store None))
             else case plan_clip registered i (cc_db w) of
                    Inl r \<Rightarrow> Ended r
                  | Inr pl \<Rightarrow> if mkdir_fails then Ended (Inl (Write_Partial (butlast (final_path dir pl)))) else Planned pl) w
      | _ \<Rightarrow> w)"
| "cache_step sha dir (Subscribe i) w =
     (case map_of (cc_jobs w) i of
        Some (Planned pl) \<Rightarrow> set_phase i (Downloading pl (wakeups (cc_signal w))) w
      | _ \<Rightarrow> w)"
| "cache_step sha dir (Poll i fetch) w =
     (case map_of (cc_jobs w) i of
        Some (Downloading pl n) \<Rightarrow>
          if wakeups (cc_signal w) \<noteq> n then set_phase i (Ended (Inr Watermark_Aborted)) w
          else (case fetch (pl_handle pl) (pl_path pl) 0 (pl_size pl - 1) of
                  None \<Rightarrow> w
                | Some r \<Rightarrow> set_phase i (verify_download sha pl r) w)
      | _ \<Rightarrow> w)"
| "cache_step sha dir (Write i r) w =
     (case map_of (cc_jobs w) i of
        Some (Verified pl bytes) \<Rightarrow>
          (let part = partial_path dir pl in
           case r of
             Write_Ok \<Rightarrow> set_phase i (Partial_Written pl) (w\<lparr>cc_hot := (cc_hot w)(part \<mapsto> bytes)\<rparr>)
           | Create_Failed \<Rightarrow> set_phase i (Ended (Inl (Write_Partial part))) w
           | Write_Failed n \<Rightarrow> set_phase i (Ended (Inl (Write_Partial part))) (w\<lparr>cc_hot := (cc_hot w)(part \<mapsto> take n bytes)\<rparr>))
      | _ \<Rightarrow> w)"
| "cache_step sha dir (Rename i ok) w =
     (case map_of (cc_jobs w) i of
        Some (Partial_Written pl) \<Rightarrow>
          (case cc_hot w (partial_path dir pl) of
             Some bytes \<Rightarrow>
               if ok then set_phase i (Renamed pl)
                 (w\<lparr>cc_hot := (cc_hot w)(partial_path dir pl := None, final_path dir pl \<mapsto> bytes)\<rparr>)
               else set_phase i (Ended (Inl (Rename_Failed (final_path dir pl)))) w
           | None \<Rightarrow> set_phase i (Ended (Inl (Rename_Failed (final_path dir pl)))) w)
      | _ \<Rightarrow> w)"
| "cache_step sha dir (Update_Row i store_fails) w =
     (case map_of (cc_jobs w) i of
        Some (Renamed pl) \<Rightarrow>
          if store_fails then set_phase i (Ended (Inl (Cache_Store None))) w
          else (case repopulate_hot_pointer i ''local'' (pl_path pl) (cc_db w) of
                  (Inl e, db) \<Rightarrow> set_phase i (Ended (Inl (Cache_Store (Some e)))) (w\<lparr>cc_db := db\<rparr>)
                | (Inr n, db) \<Rightarrow> set_phase i (Ended (Inr (Rehydrated (pl_size pl)))) (w\<lparr>cc_db := db\<rparr>))
      | _ \<Rightarrow> w)"
| "cache_step sha dir (Finish i) w =
     (case map_of (cc_jobs w) i of
        Some (Ended r) \<Rightarrow> w\<lparr>cc_jobs := AList.delete i (cc_jobs w)\<rparr>
      | _ \<Rightarrow> w)"
| "cache_step sha dir (Set_Level l) w = w\<lparr>cc_signal := signal_set l (cc_signal w)\<rparr>"
| "cache_step sha dir (Elsewhere db hot) w = w\<lparr>cc_db := db, cc_hot := hot\<rparr>"

definition inflight_count :: "cache_world \<Rightarrow> nat" where
  "inflight_count w = length (cc_jobs w)"

end
