(* ===== verification/Cold_Cache_Jobs.thy ===== *)
theory Cold_Cache_Jobs
  imports Cold_Cache
begin

text \<open>
  What holds of the cold-read cache whatever the interleaving: one job per clip and
  at most four of them at work, and a partial file that always has the verified
  bytes when it is renamed.
\<close>

section \<open>Job lists\<close>

lemma map_of_set_phase: "map_of (cc_jobs (set_phase i ph w)) j = (if j = i then Some ph else map_of (cc_jobs w) j)"
  by (simp add: set_phase_def update_conv)

lemma set_phase_frame [simp]:
  "cc_signal (set_phase i ph w) = cc_signal w" "cc_db (set_phase i ph w) = cc_db w" "cc_hot (set_phase i ph w) = cc_hot w"
  by (simp_all add: set_phase_def)

definition pool_ok :: "cache_world \<Rightarrow> bool" where
  "pool_ok w \<longleftrightarrow> distinct (map fst (cc_jobs w)) \<and> permits_used w \<le> CACHE_MAX_INFLIGHT"

lemma permits_set_phase:
  assumes "map_of (cc_jobs w) i = Some ph" "distinct (map fst (cc_jobs w))"
  shows "permits_used (set_phase i ph' w) + of_bool (holds_permit ph) = permits_used w + of_bool (holds_permit ph')"
  by (rule update_present [OF assms(2,1), where v' = ph']) (auto simp: permits_used_def set_phase_def)

lemma pool_set_phase:
  assumes "pool_ok w" "map_of (cc_jobs w) i = Some ph"
    "holds_permit ph' \<longrightarrow> holds_permit ph \<or> permits_used w < CACHE_MAX_INFLIGHT"
  shows "pool_ok (set_phase i ph' w)"
proof -
  from assms(1) have d: "distinct (map fst (cc_jobs w))" "permits_used w \<le> CACHE_MAX_INFLIGHT"
    by (simp_all add: pool_ok_def)
  have "permits_used (set_phase i ph' w) \<le> CACHE_MAX_INFLIGHT"
    using permits_set_phase [OF assms(2) d(1), of ph'] assms(3) d(2) by (cases "holds_permit ph'") auto
  then show ?thesis using d(1) by (simp add: pool_ok_def set_phase_def distinct_update)
qed

lemma pool_new:
  assumes "pool_ok w" "map_of (cc_jobs w) i = None"
  shows "pool_ok (set_phase i Waiting_Permit w)"
proof -
  have "permits_used (set_phase i Waiting_Permit w) = permits_used w"
    using assms(2) by (simp add: permits_used_def set_phase_def update_absent)
  then show ?thesis
    using assms(1) by (simp add: pool_ok_def set_phase_def distinct_update)
qed

lemma pool_fields [simp]:
  "pool_ok (w\<lparr>cc_db := db\<rparr>) = pool_ok w" "pool_ok (w\<lparr>cc_hot := hot\<rparr>) = pool_ok w" "pool_ok (w\<lparr>cc_signal := sg\<rparr>) = pool_ok w"
  "permits_used (w\<lparr>cc_db := db\<rparr>) = permits_used w" "permits_used (w\<lparr>cc_hot := hot\<rparr>) = permits_used w"
  by (simp_all add: pool_ok_def permits_used_def)

lemma pool_finish: "pool_ok w \<Longrightarrow> pool_ok (w\<lparr>cc_jobs := AList.delete i (cc_jobs w)\<rparr>)"
  using length_filter_delete [of "\<lambda>(i, ph). holds_permit ph" i "cc_jobs w"]
  by (simp add: pool_ok_def permits_used_def distinct_delete)

lemmas phase_splits = option.split job_phase.split write_result.split prod.split sum.split

lemma pool_step: "pool_ok w \<Longrightarrow> pool_ok (cache_step sha dir ev w)"
  by (cases ev)
    (auto simp: Let_def verify_download_def intro!: pool_set_phase pool_new pool_finish split: phase_splits)

section \<open>Names\<close>

text \<open>The replicator names a clip's cold copy after the clip, so two clips never share a path.\<close>

definition named_after :: "int \<Rightarrow> string \<Rightarrow> bool" where
  "named_after i p \<longleftrightarrow> components p \<noteq> [] \<and> last (components p) = dec_int i @ ''.mp4''"

definition cold_named :: "media_db \<Rightarrow> bool" where
  "cold_named db \<longleftrightarrow> list_all (\<lambda>c. case cold_path c of None \<Rightarrow> True | Some p \<Rightarrow> named_after (cl_id c) p) (clips db)"

definition is_partial :: "path \<Rightarrow> bool" where
  "is_partial p \<longleftrightarrow> p \<noteq> [] \<and> strip_suffix PARTIAL_SUFFIX (last p) \<noteq> None"

lemma final_last:
  assumes "named_after i (pl_path pl)"
  shows "final_path dir pl \<noteq> []" "last (final_path dir pl) = dec_int i @ ''.mp4''"
  using assms by (auto simp: final_path_def join_path_def named_after_def)

lemma strip_suffix_append: "strip_suffix x (a @ x) = Some a"
  by (simp add: strip_suffix_def)

lemma partial_last:
  assumes "named_after i (pl_path pl)"
  shows "last (partial_path dir pl) = dec_int i @ ''.mp4.cache.partial''" "is_partial (partial_path dir pl)"
  using final_last [OF assms, of dir] strip_suffix_append [of PARTIAL_SUFFIX "dec_int i @ ''.mp4''"]
  by (auto simp: partial_path_def Let_def PARTIAL_SUFFIX_def is_partial_def)

lemma final_not_partial:
  assumes "named_after i (pl_path pl)"
  shows "\<not> is_partial (final_path dir pl)"
  using final_last [OF assms, of dir]
  by (auto simp: is_partial_def PARTIAL_SUFFIX_def strip_suffix_def split: if_splits)

lemma partial_distinct:
  assumes "named_after i (pl_path pl)" "named_after j (pl_path pl')" "i \<noteq> j"
  shows "partial_path dir pl \<noteq> partial_path dir pl'"
  using partial_last(1) [OF assms(1), of dir] partial_last(1) [OF assms(2), of dir] assms(3)
  by (auto simp: dec_int_inj)

section \<open>Verified content\<close>

fun phase_ok :: "(string \<Rightarrow> string) \<Rightarrow> path \<Rightarrow> share \<Rightarrow> int \<Rightarrow> job_phase \<Rightarrow> bool" where
  "phase_ok sha dir hot i (Planned pl) = named_after i (pl_path pl)"
| "phase_ok sha dir hot i (Downloading pl n) = named_after i (pl_path pl)"
| "phase_ok sha dir hot i (Verified pl b) = (named_after i (pl_path pl) \<and> sha256_hex sha b = pl_sha256 pl)"
| "phase_ok sha dir hot i (Partial_Written pl) =
     (named_after i (pl_path pl)
      \<and> (case hot (partial_path dir pl) of None \<Rightarrow> False | Some b \<Rightarrow> sha256_hex sha b = pl_sha256 pl))"
| "phase_ok sha dir hot i (Renamed pl) = named_after i (pl_path pl)"
| "phase_ok sha dir hot i _ = True"

definition jobs_ok :: "(string \<Rightarrow> string) \<Rightarrow> path \<Rightarrow> cache_world \<Rightarrow> bool" where
  "jobs_ok sha dir w \<longleftrightarrow> pool_ok w \<and> cold_named (cc_db w)
     \<and> (\<forall>i ph. map_of (cc_jobs w) i = Some ph \<longrightarrow> phase_ok sha dir (cc_hot w) i ph)"

lemma plan_named:
  assumes "plan_clip registered i db = Inr pl" "cold_named db"
  shows "named_after i (pl_path pl)"
proof -
  obtain c p where c: "get_clip i db = Some c" "cold_path c = Some p" "pl_path pl = p"
    using assms(1) by (auto simp: plan_clip_def split: option.splits if_splits)
  then have "c \<in> set (clips db)" "cl_id c = i" by (auto simp: get_clip_def find_Some_iff)
  with assms(2) c show ?thesis by (fastforce simp: cold_named_def list_all_iff)
qed

lemma repopulate_named: "cold_named db \<Longrightarrow> cold_named (snd (repopulate_hot_pointer i h p db))"
  by (auto simp: repopulate_hot_pointer_def update_clips_def cold_named_def list_all_iff Let_def split: prod.splits option.splits)

lemma phase_ok_frame:
  assumes "phase_ok sha dir hot j ph" "\<And>pl. named_after j (pl_path pl) \<Longrightarrow> hot' (partial_path dir pl) = hot (partial_path dir pl)"
  shows "phase_ok sha dir hot' j ph"
  using assms by (cases ph) auto

lemma jobs_ok_set:
  assumes "jobs_ok sha dir w" "pool_ok (set_phase i ph (w\<lparr>cc_db := db, cc_hot := hot\<rparr>))" "cold_named db" "phase_ok sha dir hot i ph"
    "\<And>j pl. j \<noteq> i \<Longrightarrow> named_after j (pl_path pl) \<Longrightarrow> hot (partial_path dir pl) = cc_hot w (partial_path dir pl)"
  shows "jobs_ok sha dir (set_phase i ph (w\<lparr>cc_db := db, cc_hot := hot\<rparr>))"
  unfolding jobs_ok_def
proof (intro conjI allI impI)
  fix j x assume j: "map_of (cc_jobs (set_phase i ph (w\<lparr>cc_db := db, cc_hot := hot\<rparr>))) j = Some x"
  show "phase_ok sha dir (cc_hot (set_phase i ph (w\<lparr>cc_db := db, cc_hot := hot\<rparr>))) j x"
  proof (cases "j = i")
    case False
    with j assms(1) have "phase_ok sha dir (cc_hot w) j x" by (simp add: jobs_ok_def map_of_set_phase)
    from phase_ok_frame [OF this assms(5) [OF False]] show ?thesis by simp
  qed (use j assms(4) in \<open>simp add: map_of_set_phase\<close>)
qed (use assms(2,3) in simp_all)

lemma jobs_ok_phase:
  assumes "jobs_ok sha dir w" "pool_ok (set_phase i ph w)" "phase_ok sha dir (cc_hot w) i ph"
  shows "jobs_ok sha dir (set_phase i ph w)"
  using assms by (auto simp: jobs_ok_def map_of_set_phase)

lemma jobs_ok_jobD: "jobs_ok sha dir w \<Longrightarrow> map_of (cc_jobs w) i = Some ph \<Longrightarrow> phase_ok sha dir (cc_hot w) i ph"
  by (simp add: jobs_ok_def)

lemma write_phase:
  assumes "jobs_ok sha dir w" "map_of (cc_jobs w) i = Some (Verified pl b)"
    "phase_ok sha dir ((cc_hot w)(partial_path dir pl \<mapsto> x)) i ph" "pool_ok (set_phase i ph (w\<lparr>cc_hot := (cc_hot w)(partial_path dir pl \<mapsto> x)\<rparr>))"
  shows "jobs_ok sha dir (set_phase i ph (w\<lparr>cc_hot := (cc_hot w)(partial_path dir pl \<mapsto> x)\<rparr>))"
proof -
  have n: "named_after i (pl_path pl)" using jobs_ok_jobD [OF assms(1,2)] by simp
  have "partial_path dir pl' \<noteq> partial_path dir pl" if "j \<noteq> i" "named_after j (pl_path pl')" for j pl'
    using partial_distinct [OF that(2) n that(1)] .
  then show ?thesis
    using jobs_ok_set [OF assms(1), where i = i and ph = ph and db = "cc_db w" and hot = "(cc_hot w)(partial_path dir pl \<mapsto> x)"] assms(1,3,4)
    by (auto simp: jobs_ok_def)
qed

lemma rename_phase:
  assumes "jobs_ok sha dir w" "map_of (cc_jobs w) i = Some (Partial_Written pl)"
    "pool_ok (set_phase i (Renamed pl) (w\<lparr>cc_hot := (cc_hot w)(partial_path dir pl := None, final_path dir pl \<mapsto> x)\<rparr>))"
  shows "jobs_ok sha dir (set_phase i (Renamed pl) (w\<lparr>cc_hot := (cc_hot w)(partial_path dir pl := None, final_path dir pl \<mapsto> x)\<rparr>))"
proof -
  have n: "named_after i (pl_path pl)" using jobs_ok_jobD [OF assms(1,2)] by simp
  have "partial_path dir pl' \<noteq> partial_path dir pl \<and> partial_path dir pl' \<noteq> final_path dir pl"
    if "j \<noteq> i" "named_after j (pl_path pl')" for j pl'
    using partial_distinct [OF that(2) n that(1)] partial_last(2) [OF that(2), of dir] final_not_partial [OF n, of dir] by auto
  then show ?thesis
    using jobs_ok_set [OF assms(1), where i = i and ph = "Renamed pl" and db = "cc_db w" and hot = "(cc_hot w)(partial_path dir pl := None, final_path dir pl \<mapsto> x)"] assms(1,3) n
    by (auto simp: jobs_ok_def)
qed

fun allowed :: "cache_event \<Rightarrow> cache_world \<Rightarrow> bool" where
  "allowed (Elsewhere db hot) w \<longleftrightarrow> cold_named db \<and> (\<forall>p. is_partial p \<longrightarrow> hot p = cc_hot w p)"
| "allowed _ w \<longleftrightarrow> True"

lemma jobs_ok_step:
  assumes "jobs_ok sha dir w" "allowed ev w"
  shows "jobs_ok sha dir (cache_step sha dir ev w)"
proof -
  have pool: "pool_ok (cache_step sha dir ev w)" using assms(1) by (simp add: jobs_ok_def pool_step)
  note job = jobs_ok_jobD [OF assms(1)]
  show ?thesis
  proof (cases ev)
    case (Write i r)
    show ?thesis
    proof (cases "\<exists>pl b. map_of (cc_jobs w) i = Some (Verified pl b)")
      case True
      then obtain pl b where v: "map_of (cc_jobs w) i = Some (Verified pl b)" by blast
      with job [OF v] Write pool show ?thesis
        by (cases r) (auto simp: Let_def intro!: write_phase [OF assms(1) v] jobs_ok_phase [OF assms(1)])
    qed (use Write assms(1) in \<open>auto split: option.splits job_phase.splits\<close>)
  next
    case (Rename i ok)
    show ?thesis
    proof (cases "\<exists>pl. map_of (cc_jobs w) i = Some (Partial_Written pl)")
      case True
      then obtain pl where v: "map_of (cc_jobs w) i = Some (Partial_Written pl)" by blast
      with Rename pool show ?thesis
        by (auto intro!: rename_phase [OF assms(1) v] jobs_ok_phase [OF assms(1)] split: option.splits)
    qed (use Rename assms(1) in \<open>auto split: option.splits job_phase.splits\<close>)
  next
    case (Update_Row i store_fails)
    show ?thesis
    proof (cases "\<exists>pl. map_of (cc_jobs w) i = Some (Renamed pl)")
      case True
      then obtain pl where v: "map_of (cc_jobs w) i = Some (Renamed pl)" by blast
      obtain r db where u: "repopulate_hot_pointer i ''local'' (pl_path pl) (cc_db w) = (r, db)" by fastforce
      with repopulate_named [of "cc_db w" i "''local''" "pl_path pl"] assms(1) have "cold_named db" by (simp add: jobs_ok_def)
      then have d: "jobs_ok sha dir (w\<lparr>cc_db := db\<rparr>)" using assms(1) by (simp add: jobs_ok_def)
      from v Update_Row pool u show ?thesis
        by (cases r) (auto intro!: jobs_ok_phase [OF d] jobs_ok_phase [OF assms(1)] split: if_splits)
    qed (use Update_Row assms(1) in \<open>auto split: option.splits job_phase.splits\<close>)
  next
    case (Elsewhere db hot)
    have "phase_ok sha dir hot i ph" if "map_of (cc_jobs w) i = Some ph" for i ph
      by (rule phase_ok_frame [OF job [OF that]]) (use Elsewhere assms(2) partial_last(2) in auto)
    then show ?thesis using Elsewhere assms pool by (simp add: jobs_ok_def)
  next
    case (Read_Row i registered f g)
    then show ?thesis
      using assms(1) pool by (auto simp: jobs_ok_def [of _ _ w] dest: plan_named intro!: jobs_ok_phase split: phase_splits)
  next
    case (Finish i)
    then show ?thesis
      using assms(1) pool by (auto simp: jobs_ok_def delete_conv split: phase_splits if_splits)
  next
    case (Subscribe i)
    then show ?thesis
      using assms(1) pool by (auto dest: job intro!: jobs_ok_phase split: option.splits job_phase.splits)
  next
    case (Poll i fetch)
    then show ?thesis
      using assms(1) pool
      by (auto dest: job simp: verify_download_def intro!: jobs_ok_phase split: option.splits job_phase.splits sum.splits)
  next
    case (Set_Level l)
    then show ?thesis using assms(1) pool by (simp add: jobs_ok_def)
  qed (use assms(1) pool in \<open>auto intro!: jobs_ok_phase split: option.splits job_phase.splits\<close>)
qed

section \<open>Reachable states\<close>

text \<open>
  Other parts of the engine may change the rows and the hot files in any way
  (\<open>Elsewhere\<close>), as long as cold copies keep their names and nobody else touches
  the cache's partial files.
\<close>

inductive cache_reach :: "(string \<Rightarrow> string) \<Rightarrow> path \<Rightarrow> cache_world \<Rightarrow> bool" for sha dir where
  fresh: "cc_jobs w = [] \<Longrightarrow> cold_named (cc_db w) \<Longrightarrow> cache_reach sha dir w"
| polled: "cache_reach sha dir w \<Longrightarrow> allowed ev w \<Longrightarrow> cache_reach sha dir (cache_step sha dir ev w)"

lemma cache_reach_ok: "cache_reach sha dir w \<Longrightarrow> jobs_ok sha dir w"
proof (induction rule: cache_reach.induct)
  case (fresh w)
  then show ?case by (simp add: jobs_ok_def pool_ok_def permits_used_def)
next
  case (polled w ev)
  then show ?case by (simp add: jobs_ok_step)
qed

section \<open>Progress\<close>

fun rank :: "job_phase \<Rightarrow> nat" where
  "rank Waiting_Permit = 0"
| "rank Reading_Row = 1"
| "rank (Planned pl) = 2"
| "rank (Downloading pl n) = 3"
| "rank (Verified pl b) = 4"
| "rank (Partial_Written pl) = 5"
| "rank (Renamed pl) = 6"
| "rank (Ended r) = 7"

text \<open>
  The polls of one job in order, each with an answer of its own: rows, backends,
  disk and database may answer or fail as they like.  A download may also stay
  without an answer, which \<open>run_one\<close> awaits without a timeout.
\<close>

record answers =
  an_registered :: "string \<Rightarrow> bool"
  an_store_fails :: bool
  an_mkdir_fails :: bool
  an_fetch :: fetch
  an_write :: write_result
  an_rename_ok :: bool
  an_update_fails :: bool

definition polls :: "answers \<Rightarrow> int \<Rightarrow> cache_event list" where
  "polls an i =
     [Acquire i, Read_Row i (an_registered an) (an_store_fails an) (an_mkdir_fails an), Subscribe i,
      Poll i (an_fetch an), Write i (an_write an), Rename i (an_rename_ok an),
      Update_Row i (an_update_fails an)]"

text \<open>The backend answers the read, with bytes or with an error.\<close>

definition answered :: "answers \<Rightarrow> bool" where
  "answered an \<longleftrightarrow> (\<forall>h p start stop. an_fetch an h p start stop \<noteq> None)"

lemma answeredD: "answered an \<Longrightarrow> an_fetch an h p start stop = None \<Longrightarrow> False"
  unfolding answered_def by blast

lemma poll_advances:
  assumes "map_of (cc_jobs w) i = Some ph" "k \<le> rank ph" "k < 7" "k = 0 \<longrightarrow> holds_permit ph \<or> permits_used w < CACHE_MAX_INFLIGHT \<or> rank ph = 7"
    and "answered an"
  shows "\<exists>ph'. map_of (cc_jobs (cache_step sha dir (polls an i ! k) w)) i = Some ph' \<and> k < rank ph'"
proof -
  have "k \<in> {0, 1, 2, 3, 4, 5, 6}" using assms(3) by auto
  then show ?thesis
    using assms(1,2,4)
    by (cases ph)
      (auto dest: answeredD [OF assms(5)] simp: polls_def numeral_eq_Suc map_of_set_phase verify_download_def Let_def split: option.splits sum.splits write_result.splits prod.splits)
qed

lemma polls_run:
  assumes "map_of (cc_jobs w) i = Some ph" "holds_permit ph \<or> permits_used w < CACHE_MAX_INFLIGHT \<or> rank ph = 7" "n \<le> 7" "answered an"
  shows "\<exists>ph'. map_of (cc_jobs (fold (cache_step sha dir) (take n (polls an i)) w)) i = Some ph' \<and> n \<le> rank ph'"
  using assms(3)
proof (induction n)
  case 0
  then show ?case using assms(1) by simp
next
  case (Suc n)
  define v where "v = fold (cache_step sha dir) (take n (polls an i)) w"
  from Suc obtain x where x: "map_of (cc_jobs v) i = Some x" "n \<le> rank x" by (auto simp: v_def)
  have "n = 0 \<longrightarrow> holds_permit x \<or> permits_used v < CACHE_MAX_INFLIGHT \<or> rank x = 7"
    using assms(1,2) x(1) by (auto simp: v_def)
  from poll_advances [OF x _ this assms(4), where sha = sha and dir = dir] Suc.prems
  obtain y where "map_of (cc_jobs (cache_step sha dir (polls an i ! n) v)) i = Some y" "Suc n \<le> rank y" by auto
  moreover have "take (Suc n) (polls an i) = take n (polls an i) @ [polls an i ! n]"
    using Suc.prems by (intro take_Suc_conv_app_nth) (simp add: polls_def)
  ultimately show ?case by (simp add: v_def)
qed

lemma poll_others:
  assumes "j \<noteq> i" "ev \<in> set (polls an i) \<or> ev = Finish i"
  shows "map_of (cc_jobs (cache_step sha dir ev w)) j = map_of (cc_jobs w) j"
  using assms by (auto simp: polls_def map_of_set_phase delete_conv Let_def split: phase_splits)

lemma polls_others:
  assumes "j \<noteq> i" "set evs \<subseteq> set (polls an i) \<union> {Finish i}"
  shows "map_of (cc_jobs (fold (cache_step sha dir) evs w)) j = map_of (cc_jobs w) j"
  using assms(2)
proof (induction evs arbitrary: w)
  case (Cons ev evs)
  then show ?case using poll_others [OF assms(1), of ev an sha dir w] by auto
qed simp

lemma rank_Ended: "7 \<le> rank ph \<longleftrightarrow> (\<exists>r. ph = Ended r)"
  by (cases ph) auto

end
