(* ===== verification/Cold_Cache_Properties.thy ===== *)
theory Cold_Cache_Properties
  imports Cold_Cache_Jobs
begin

text \<open>
  The guarantees of the cold-read cache: only verified bytes get a clip's name,
  every job ends and frees its slot, and a clip that was uploaded and evicted comes
  back byte for byte.  What the cache relies on in a backend is the locale
  \<open>cold_source\<close>, which the LAN backend meets.
\<close>

section \<open>Reading back\<close>

locale cold_source =
  fixes fetch :: fetch and stores :: "string \<Rightarrow> string \<Rightarrow> bool"
  assumes reads_back: "stores p x \<Longrightarrow> x \<noteq> [] \<Longrightarrow> length x < 2 ^ 63 \<Longrightarrow>
    fetch h p 0 (of_nat (length x) - 1) = Some (Inr x)"

definition finish_events :: "fetch \<Rightarrow> (string \<Rightarrow> bool) \<Rightarrow> int \<Rightarrow> cache_event list" where
  "finish_events fetch registered i =
     [Read_Row i registered False False, Subscribe i, Poll i fetch, Write i Write_Ok, Rename i True, Update_Row i False, Finish i]"

definition restore_events :: "fetch \<Rightarrow> (string \<Rightarrow> bool) \<Rightarrow> int \<Rightarrow> cache_event list" where
  "restore_events fetch registered i = Spawn i # Acquire i # finish_events fetch registered i"

definition evicted_clip :: "(string \<Rightarrow> string) \<Rightarrow> string \<Rightarrow> string \<Rightarrow> string \<Rightarrow> clip_row \<Rightarrow> bool" where
  "evicted_clip sha h p x c \<longleftrightarrow> hot_handle c = None \<and> hot_path c = None \<and> cold_handle c = Some h \<and> cold_path c = Some p
     \<and> cl_sha256 c = Some (sha256_hex sha x) \<and> cl_size c = int (length x)"

lemma get_clip_update:
  assumes "\<And>c. cl_id (f c) = cl_id c"
  shows "get_clip j (snd (update_clips P f db)) = map_option (\<lambda>c. if P c then f c else c) (get_clip j db)"
proof -
  have "find (\<lambda>c. cl_id c = j) (map (\<lambda>c. if P c then f c else c) cs) = map_option (\<lambda>c. if P c then f c else c) (find (\<lambda>c. cl_id c = j) cs)" for cs
    by (induction cs) (auto simp: assms)
  then show ?thesis by (simp add: get_clip_def update_clips_def)
qed

lemma get_clip_repopulate:
  assumes "has_backend h db"
  shows "get_clip j (snd (repopulate_hot_pointer i h p db))
    = map_option (\<lambda>c. if j = i \<and> hot_handle c = None then c\<lparr>hot_handle := Some h, hot_path := Some p\<rparr> else c) (get_clip j db)"
proof -
  have "cl_id c = j" if "get_clip j db = Some c" for c using that by (auto simp: get_clip_def find_Some_iff)
  then show ?thesis
    using get_clip_update [of "\<lambda>c. c\<lparr>hot_handle := Some h, hot_path := Some p\<rparr>" j "\<lambda>c. cl_id c = i \<and> hot_handle c = None" db] assms
    by (cases "get_clip j db") (auto simp: repopulate_hot_pointer_def Let_def split: prod.splits)
qed

lemma partial_is_partial: "is_partial (partial_path dir pl)"
  using strip_suffix_append [of PARTIAL_SUFFIX] by (simp add: is_partial_def partial_path_def Let_def)

context cold_source
begin

lemma rehydrate_from_row:
  assumes job: "map_of (cc_jobs w) i = Some Reading_Row"
    and clip: "get_clip i (cc_db w) = Some c" "evicted_clip sha h p x c" "registered h" "''..'' \<notin> set (components p)"
    and store: "stores p x" "x \<noteq> []" "length x < 2 ^ 63" "has_backend ''local'' (cc_db w)"
    and w': "w' = fold (cache_step sha dir) (finish_events fetch registered i) w"
  shows "\<exists>pl. pl_path pl = p \<and> cc_hot w' = (cc_hot w)(partial_path dir pl := None, final_path dir pl \<mapsto> x)
    \<and> cc_db w' = snd (repopulate_hot_pointer i ''local'' p (cc_db w)) \<and> cc_signal w' = cc_signal w
    \<and> map_of (cc_jobs w') = (map_of (cc_jobs w))(i := None)"
proof -
  define pl where "pl = \<lparr>pl_handle = h, pl_path = p, pl_sha256 = sha256_hex sha x, pl_size = of_nat (length x)\<rparr>"
  have plan: "plan_clip registered i (cc_db w) = Inr pl"
    using clip store(2) by (simp add: plan_clip_def evicted_clip_def pl_def)
  have fe: "fetch (pl_handle pl) (pl_path pl) 0 (pl_size pl - 1) = Some (Inr x)"
    using reads_back [OF store(1-3)] by (simp add: pl_def)
  have v: "verify_download sha pl (Inr x) = Verified pl x" by (simp add: verify_download_def pl_def)
  obtain n db where u: "repopulate_hot_pointer i ''local'' p (cc_db w) = (Inr n, db)"
    using store(4) by (auto simp: repopulate_hot_pointer_def update_clips_def Let_def)
  have pp: "pl_path pl = p" by (simp add: pl_def)
  define part fin where "part = partial_path dir pl" and "fin = final_path dir pl"
  define w1 where "w1 = set_phase i (Planned pl) w"
  define w2 where "w2 = set_phase i (Downloading pl (wakeups (cc_signal w))) w1"
  define w3 where "w3 = set_phase i (Verified pl x) w2"
  define w4 where "w4 = set_phase i (Partial_Written pl) (w3\<lparr>cc_hot := (cc_hot w)(part \<mapsto> x)\<rparr>)"
  define w5 where "w5 = set_phase i (Renamed pl) (w4\<lparr>cc_hot := (cc_hot w)(part := None, fin \<mapsto> x)\<rparr>)"
  define w6 where "w6 = set_phase i (Ended (Inr (Rehydrated (pl_size pl)))) (w5\<lparr>cc_db := db\<rparr>)"
  note ws = w1_def w2_def w3_def w4_def w5_def w6_def map_of_set_phase
  have s1: "cache_step sha dir (Read_Row i registered False False) w = w1" by (simp add: job plan ws)
  have s2: "cache_step sha dir (Subscribe i) w1 = w2" by (simp add: ws)
  have s3: "cache_step sha dir (Poll i fetch) w2 = w3" by (simp add: ws fe v)
  have s4: "cache_step sha dir (Write i Write_Ok) w3 = w4" by (simp add: ws part_def)
  have s5: "cache_step sha dir (Rename i True) w4 = w5" by (simp add: ws part_def fin_def)
  have s6: "cache_step sha dir (Update_Row i False) w5 = w6" by (simp add: ws u pp)
  have s7: "cache_step sha dir (Finish i) w6 = w6\<lparr>cc_jobs := AList.delete i (cc_jobs w6)\<rparr>" by (simp add: ws)
  have fw: "w' = w6\<lparr>cc_jobs := AList.delete i (cc_jobs w6)\<rparr>"
    unfolding w' finish_events_def by (simp only: fold_simps(2) fold_simps(1) s1 s2 s3 s4 s5 s6 s7)
  have "map_of (cc_jobs w') = (map_of (cc_jobs w))(i := None)"
    unfolding fw by (rule ext) (simp add: delete_conv' ws)
  moreover have "cc_hot w' = (cc_hot w)(part := None, fin \<mapsto> x)" "cc_db w' = db" "cc_signal w' = cc_signal w"
    unfolding fw by (simp_all add: ws)
  ultimately show ?thesis using u pp by (auto simp: part_def fin_def)
qed

lemma rehydrate:
  assumes ok: "signal_is_ok (cc_signal w)" "map_of (cc_jobs w) i = None" "permits_used w < CACHE_MAX_INFLIGHT"
    and clip: "get_clip i (cc_db w) = Some c" "evicted_clip sha h p x c" "registered h" "''..'' \<notin> set (components p)"
    and store: "stores p x" "x \<noteq> []" "length x < 2 ^ 63" "has_backend ''local'' (cc_db w)"
    and w': "w' = fold (cache_step sha dir) (restore_events fetch registered i) w"
  shows "\<exists>pl. pl_path pl = p \<and> cc_hot w' = (cc_hot w)(partial_path dir pl := None, final_path dir pl \<mapsto> x)
    \<and> cc_db w' = snd (repopulate_hot_pointer i ''local'' p (cc_db w)) \<and> cc_signal w' = cc_signal w
    \<and> map_of (cc_jobs w') = map_of (cc_jobs w)"
proof -
  define v where "v = set_phase i Reading_Row (set_phase i Waiting_Permit w)"
  have "permits_used (set_phase i Waiting_Permit w) < CACHE_MAX_INFLIGHT"
    using ok(2,3) by (simp add: permits_used_def set_phase_def update_absent)
  then have f: "w' = fold (cache_step sha dir) (finish_events fetch registered i) v"
    using ok by (simp add: w' restore_events_def v_def map_of_set_phase)
  have j: "map_of (cc_jobs v) i = Some Reading_Row" "cc_db v = cc_db w" "cc_hot v = cc_hot w" "cc_signal v = cc_signal w"
    "(map_of (cc_jobs v))(i := None) = map_of (cc_jobs w)"
    using ok(2) by (auto simp: v_def map_of_set_phase fun_eq_iff)
  show ?thesis
    using rehydrate_from_row [OF j(1) _ clip(2-4) store(1-3) _ f] clip(1) store(4) j(2-5) by simp
qed

end

text \<open>A share of the LAN backend, as a job reads it.\<close>

definition lan_fetch :: "lan \<Rightarrow> share \<Rightarrow> fetch" where
  "lan_fetch l fs = (\<lambda>h p start stop. lan_get_range l p start stop fs)"

definition lan_stores :: "lan \<Rightarrow> share \<Rightarrow> string \<Rightarrow> string \<Rightarrow> bool" where
  "lan_stores l fs p x \<longleftrightarrow> (case resolve l p of Inl e \<Rightarrow> False | Inr t \<Rightarrow> fs t = Some x)"

interpretation lan_source: cold_source "lan_fetch l fs" "lan_stores l fs" for l fs
proof
  fix p x h assume s: "lan_stores l fs p x" "x \<noteq> []" "length x < 2 ^ 63"
  have m: "of_nat (length x) - 1 = (of_nat (length x - 1) :: u64)" using s(2) by (cases x) auto
  have "length x - 1 < 2 ^ 64" using s(3) by simp
  then have n: "unat (of_nat (length x) - 1 :: u64) = length x - 1"
    unfolding m by (simp add: unsigned_of_nat take_bit_nat_eq_self)
  have r: "range_len 0 (of_nat (length x) - 1) = Inr (length x)"
    using n s(2,3) by (simp add: range_len_def)
  obtain t where t: "resolve l p = Inr t" "fs t = Some x" using s(1) by (auto simp: lan_stores_def split: sum.splits)
  have "\<not> 2 ^ 63 \<le> length x" using s(3) by simp
  then show "lan_fetch l fs h p 0 (of_nat (length x) - 1) = Some (Inr x)"
    unfolding lan_fetch_def lan_get_range_def t(1) by (simp add: t(2) r)
qed

lemma lan_put_stores:
  assumes "lan_put sha l f p x h fs = (Inr r, fs')"
  shows "lan_stores l fs' p x" "h = sha256_hex sha x" "''..'' \<notin> set (components p)"
proof -
  note ok = lan_put_ok [OF assms]
  have ne: "lan_root l @ components p \<noteq> side_path (lan_root l @ components p) ''sha256''"
    using side_path_neq [of "''sha256''"] by (metis list.distinct(1))
  show "lan_stores l fs' p x" by (simp add: lan_stores_def ok(5,6) ne)
  show "h = sha256_hex sha x" by (rule ok(4))
  show "''..'' \<notin> set (components p)" using resolve_inside [OF ok(5)] by blast
qed

section \<open>Properties\<close>

text \<open>A store whose only clip was uploaded to a share and then evicted from the hot tier.\<close>

definition evicted_media :: media_db where
  "evicted_media = fold media_exec
     [(0, Upsert_Backend ''nas'' ''lan'' ''{}''), (0, Open_Clip (demo_new ''cam7/a.mp4'')),
      (60, Close_Clip 1 \<lparr>cc_ended = 60, cc_duration_ms = 60, cc_size = 6, cc_hot_path = None,
         cc_sha256 = Some (sha256_hex demo_sha ''abcdef'')\<rparr>),
      (90, Mark_Cold 1 \<lparr>cm_handle = ''nas'', cm_path = ''cam7/1.mp4'', cm_uploaded_at = 90\<rparr>), (99, Clear_Hot 1)] fresh_media"

definition demo_cache :: cache_world where
  "demo_cache = \<lparr>cc_signal = \<lparr>sig_level = Level_Ok, wakeups = 0\<rparr>, cc_db = evicted_media, cc_hot = Map.empty, cc_jobs = []\<rparr>"

lemma evicted_named: "cold_named evicted_media"
  by code_simp

lemma evicted_row:
  obtains c where "get_clip 1 evicted_media = Some c" "evicted_clip demo_sha ''nas'' ''cam7/1.mp4'' ''abcdef'' c"
proof -
  have "case get_clip 1 evicted_media of None \<Rightarrow> False | Some c \<Rightarrow> evicted_clip demo_sha ''nas'' ''cam7/1.mp4'' ''abcdef'' c"
    by code_simp
  then show ?thesis using that by (auto split: option.splits)
qed

lemma write_hot:
  assumes "jobs_ok sha dir w" "\<not> is_partial q"
  shows "cc_hot (cache_step sha dir (Write i r) w) q = cc_hot w q"
proof (cases "\<exists>pl b. map_of (cc_jobs w) i = Some (Verified pl b)")
  case True
  then obtain pl b where v: "map_of (cc_jobs w) i = Some (Verified pl b)" by blast
  have "named_after i (pl_path pl)" using jobs_ok_jobD [OF assms(1) v] by simp
  then have "q \<noteq> partial_path dir pl" using partial_last(2) assms(2) by blast
  then show ?thesis using v by (cases r) (simp_all add: Let_def)
qed (auto split: option.splits job_phase.splits)

lemma other_hot:
  assumes "\<And>db hot. ev \<noteq> Elsewhere db hot" "\<And>i r. ev \<noteq> Write i r" "\<And>i ok. ev \<noteq> Rename i ok"
  shows "cc_hot (cache_step sha dir ev w) = cc_hot w"
  using assms by (cases ev) (auto split: option.splits job_phase.splits sum.splits prod.splits)

text \<open>A run with the row databases its states had, the last one first.\<close>

inductive cache_run :: "(string \<Rightarrow> string) \<Rightarrow> path \<Rightarrow> media_db list \<Rightarrow> cache_world \<Rightarrow> bool" for sha dir where
  run_fresh: "cc_jobs w = [] \<Longrightarrow> cold_named (cc_db w) \<Longrightarrow> cache_run sha dir [cc_db w] w"
| run_step: "cache_run sha dir dbs w \<Longrightarrow> allowed ev w \<Longrightarrow>
    cache_run sha dir (cc_db (cache_step sha dir ev w) # dbs) (cache_step sha dir ev w)"

fun plan_of :: "job_phase \<Rightarrow> cache_plan option" where
  "plan_of (Planned pl) = Some pl"
| "plan_of (Downloading pl n) = Some pl"
| "plan_of (Verified pl b) = Some pl"
| "plan_of (Partial_Written pl) = Some pl"
| "plan_of (Renamed pl) = Some pl"
| "plan_of _ = None"

text \<open>The plan is what the clip's row said in one of the databases.\<close>

definition from_row :: "media_db list \<Rightarrow> int \<Rightarrow> cache_plan \<Rightarrow> bool" where
  "from_row dbs i pl \<longleftrightarrow> (\<exists>db\<in>set dbs. \<exists>c. get_clip i db = Some c \<and> hot_path c = None
     \<and> cold_handle c = Some (pl_handle pl) \<and> cold_path c = Some (pl_path pl) \<and> cl_sha256 c = Some (pl_sha256 pl))"

lemma run_reach: "cache_run sha dir dbs w \<Longrightarrow> cache_reach sha dir w"
  by (induction rule: cache_run.induct) (auto intro: cache_reach.intros)

lemma run_db: "cache_run sha dir dbs w \<Longrightarrow> cc_db w \<in> set dbs"
  by (induction rule: cache_run.induct) simp_all

lemma plan_from_row:
  assumes "plan_clip registered i db = Inr pl" "db \<in> set dbs" shows "from_row dbs i pl"
proof -
  obtain c where "get_clip i db = Some c" "hot_path c = None" "cold_handle c = Some (pl_handle pl)"
    "cold_path c = Some (pl_path pl)" "cl_sha256 c = Some (pl_sha256 pl)"
    using assms(1) by (auto simp: plan_clip_def split: option.splits if_splits)
  then show ?thesis using assms(2) unfolding from_row_def by blast
qed

lemma step_plan:
  assumes "map_of (cc_jobs (cache_step sha dir ev w)) i = Some ph" "plan_of ph = Some pl"
  shows "(\<exists>ph0. map_of (cc_jobs w) i = Some ph0 \<and> plan_of ph0 = Some pl)
    \<or> (\<exists>registered. plan_clip registered i (cc_db w) = Inr pl)"
proof (cases ev)
  case (Finish j)
  then show ?thesis using assms by (auto simp: delete_conv split: option.splits job_phase.splits if_splits)
next
  case (Read_Row j registered f g)
  then show ?thesis using assms by (auto simp: map_of_set_phase split: option.splits job_phase.splits sum.splits if_splits)
next
  case (Write j r)
  then show ?thesis
    using assms by (auto simp: map_of_set_phase Let_def split: option.splits job_phase.splits write_result.splits if_splits)
next
  case (Poll j fetch)
  then show ?thesis
    using assms by (auto simp: map_of_set_phase verify_download_def split: option.splits job_phase.splits sum.splits if_splits)
next
  case (Update_Row j f)
  then show ?thesis
    using assms by (auto simp: map_of_set_phase split: option.splits job_phase.splits sum.splits prod.splits if_splits)
qed (use assms in \<open>auto simp: map_of_set_phase split: option.splits job_phase.splits if_splits\<close>)

lemma run_from_row:
  "cache_run sha dir dbs w \<Longrightarrow> map_of (cc_jobs w) i = Some ph \<Longrightarrow> plan_of ph = Some pl \<Longrightarrow> from_row dbs i pl"
proof (induction arbitrary: ph rule: cache_run.induct)
  case (run_step dbs w ev)
  from step_plan [OF run_step.prems] show ?case
  proof (elim disjE exE conjE)
    fix ph0 assume "map_of (cc_jobs w) i = Some ph0" "plan_of ph0 = Some pl"
    then show ?thesis using run_step.IH by (auto simp: from_row_def)
  next
    fix registered assume "plan_clip registered i (cc_db w) = Inr pl"
    then show ?thesis using run_db [OF run_step.hyps(1)] by (rule plan_from_row [OF _ list.set_intros(2)])
  qed
qed simp

text \<open>
  C27. Only verified bytes ever get a clip's name: whatever the jobs do in whatever
  order, and whatever fails, when a step of the cache changes a file that is not
  one of its own partial files, the step is the rename of a job, and there was a
  moment of the run at which the row of that job's clip had no hot copy, named the
  renamed file as its cold path and recorded the hash of exactly the bytes the file
  has now.
\<close>

theorem cache_installs_only_verified:
  assumes "cache_run sha dir dbs w" "\<And>db hot. ev \<noteq> Elsewhere db hot"
    "cc_hot (cache_step sha dir ev w) q \<noteq> cc_hot w q" "\<not> is_partial q"
  shows "\<exists>i ok db c p x. ev = Rename i ok \<and> db \<in> set dbs \<and> get_clip i db = Some c \<and> hot_path c = None
    \<and> cold_path c = Some p \<and> q = join_path dir p
    \<and> cc_hot (cache_step sha dir ev w) q = Some x \<and> cl_sha256 c = Some (sha256_hex sha x)"
proof -
  note inv = cache_reach_ok [OF run_reach [OF assms(1)]]
  obtain i ok where ev: "ev = Rename i ok"
    using assms write_hot [OF inv assms(4)] other_hot [of ev sha dir w] by metis
  obtain pl where pl: "map_of (cc_jobs w) i = Some (Partial_Written pl)"
    using assms(3) by (auto simp: ev split: option.splits job_phase.splits)
  from jobs_ok_jobD [OF inv pl] obtain x where x: "named_after i (pl_path pl)" "cc_hot w (partial_path dir pl) = Some x"
    "sha256_hex sha x = pl_sha256 pl" by (auto split: option.splits)
  have "q \<noteq> partial_path dir pl" using partial_last(2) [OF x(1)] assms(4) by blast
  then have "q = final_path dir pl" "cc_hot (cache_step sha dir ev w) q = Some x"
    using assms(3) pl x(2) by (auto simp: ev split: if_splits)
  moreover have "from_row dbs i pl" by (rule run_from_row [OF assms(1) pl]) simp
  then obtain db c where row: "db \<in> set dbs" "get_clip i db = Some c" "hot_path c = None"
    "cold_path c = Some (pl_path pl)" "cl_sha256 c = Some (pl_sha256 pl)" unfolding from_row_def by blast
  ultimately show ?thesis
    using row by (intro exI [of _ i] exI [of _ ok] exI [of _ db] exI [of _ c] exI [of _ "pl_path pl"] exI [of _ x])
      (simp add: ev x(3) final_path_def)
qed

definition demo_written :: cache_world where
  "demo_written = fold (cache_step demo_sha [''clips''])
     (take 6 (restore_events (\<lambda>h p start stop. Some (Inr ''abcdef'')) (\<lambda>h. True) 1)) demo_cache"

lemma reach_fold:
  "cache_reach sha dir w \<Longrightarrow> list_all (\<lambda>ev. \<forall>db hot. ev \<noteq> Elsewhere db hot) evs \<Longrightarrow> cache_reach sha dir (fold (cache_step sha dir) evs w)"
proof (induction evs arbitrary: w)
  case (Cons ev evs)
  then have "allowed ev w" by (cases ev) auto
  with Cons show ?case by (simp add: cache_reach.polled)
qed simp

lemma run_fold:
  "cache_run sha dir dbs w \<Longrightarrow> list_all (\<lambda>ev. \<forall>db hot. ev \<noteq> Elsewhere db hot) evs
    \<Longrightarrow> \<exists>dbs'. cache_run sha dir dbs' (fold (cache_step sha dir) evs w)"
proof (induction evs arbitrary: dbs w)
  case (Cons ev evs)
  then have "allowed ev w" by (cases ev) auto
  then show ?case using Cons.IH [OF run_step [OF Cons.prems(1)]] Cons.prems(2) by simp
qed auto

lemma demo_run: obtains dbs where "cache_run demo_sha [''clips''] dbs demo_written"
proof -
  have start: "cache_run demo_sha [''clips''] [cc_db demo_cache] demo_cache"
    by (rule run_fresh) (simp_all add: demo_cache_def evicted_named)
  have "list_all (\<lambda>ev. \<forall>db hot. ev \<noteq> Elsewhere db hot)
      (take 6 (restore_events (\<lambda>h p start stop. Some (Inr ''abcdef'')) (\<lambda>h. True) 1))"
    by (simp add: restore_events_def finish_events_def)
  from run_fold [OF start this] that show thesis unfolding demo_written_def by blast
qed

lemma demo_reach: "cache_reach demo_sha [''clips''] demo_cache" "cache_reach demo_sha [''clips''] demo_written"
proof -
  show r: "cache_reach demo_sha [''clips''] demo_cache"
    by (rule cache_reach.fresh) (simp_all add: demo_cache_def evicted_named)
  show "cache_reach demo_sha [''clips''] demo_written"
    unfolding demo_written_def by (rule reach_fold [OF r]) (simp add: restore_events_def finish_events_def)
qed

theorem cache_installs_only_verified_witness:
  "\<exists>x c db. get_clip 1 db = Some c \<and> cl_sha256 c = Some (sha256_hex demo_sha x)
     \<and> cc_hot (cache_step demo_sha [''clips''] (Rename 1 True) demo_written) [''clips'', ''cam7'', ''1.mp4''] = Some x"
proof -
  have h: "cc_hot demo_written [''clips'', ''cam7'', ''1.mp4''] = None"
    "cc_hot (cache_step demo_sha [''clips''] (Rename 1 True) demo_written) [''clips'', ''cam7'', ''1.mp4''] = Some ''abcdef''"
    "\<not> is_partial [''clips'', ''cam7'', ''1.mp4'']" by code_simp+
  from h(1,2) have ne: "cc_hot (cache_step demo_sha [''clips''] (Rename 1 True) demo_written) [''clips'', ''cam7'', ''1.mp4'']
    \<noteq> cc_hot demo_written [''clips'', ''cam7'', ''1.mp4'']" by (simp only: option.distinct not_False_eq_True)
  obtain dbs where run: "cache_run demo_sha [''clips''] dbs demo_written" by (rule demo_run)
  obtain i ok c x db where "Rename 1 True = Rename i ok" "get_clip i db = Some c"
    "cc_hot (cache_step demo_sha [''clips''] (Rename 1 True) demo_written) [''clips'', ''cam7'', ''1.mp4''] = Some x"
    "cl_sha256 c = Some (sha256_hex demo_sha x)"
    using cache_installs_only_verified [OF run _ ne h(3)] by blast
  moreover from this(1) have "i = 1" by simp
  ultimately show ?thesis by blast
qed

lemma permits_card:
  assumes "distinct (map fst (cc_jobs w))"
  shows "permits_used w = card {i. \<exists>ph. map_of (cc_jobs w) i = Some ph \<and> holds_permit ph}"
proof -
  define ps where "ps = filter (\<lambda>(i, ph). holds_permit ph) (cc_jobs w)"
  have "distinct (map fst ps)" unfolding ps_def using assms by (simp add: distinct_map_filter)
  then have "length ps = card (fst ` set ps)" by (metis distinct_card length_map list.set_map)
  moreover have "fst ` set ps = {i. \<exists>ph. map_of (cc_jobs w) i = Some ph \<and> holds_permit ph}"
    unfolding ps_def by (force simp: map_of_eq_Some_iff [OF assms])
  ultimately show ?thesis by (simp add: permits_used_def ps_def)
qed

text \<open>
  C28. Every job whose download is answered ends: provided the backend answers the
  read (with bytes or an error), whatever the row, the disk and the database answer,
  once a job has a slot, or one is free, polling it to its end and then once more
  removes it from the jobs in flight, gives its slot back, and leaves every other
  job alone.
\<close>

theorem cache_job_ends:
  assumes "cache_reach sha dir w" "map_of (cc_jobs w) i = Some ph" "holds_permit ph \<or> permits_used w < CACHE_MAX_INFLIGHT"
    and "answered an"
  shows "map_of (cc_jobs (fold (cache_step sha dir) (polls an i @ [Finish i]) w)) = (map_of (cc_jobs w))(i := None)
    \<and> permits_used (fold (cache_step sha dir) (polls an i @ [Finish i]) w) = permits_used w - of_bool (holds_permit ph)"
proof
  define v where "v = fold (cache_step sha dir) (polls an i) w"
  define w' where "w' = fold (cache_step sha dir) (polls an i @ [Finish i]) w"
  have "length (polls an i) = 7" by (simp add: polls_def)
  then obtain r where r: "map_of (cc_jobs v) i = Some (Ended r)"
    using polls_run [OF assms(2), of 7 an sha dir] assms(3,4) by (auto simp: v_def rank_Ended)
  have w': "w' = cache_step sha dir (Finish i) v" by (simp add: w'_def v_def)
  then have "map_of (cc_jobs w') i = None" by (simp add: r delete_conv)
  moreover have "map_of (cc_jobs w') j = map_of (cc_jobs w) j" if "j \<noteq> i" for j
    unfolding w'_def by (rule polls_others [OF that, of _ an]) auto
  ultimately have m: "map_of (cc_jobs w') = (map_of (cc_jobs w))(i := None)" by auto
  then show "map_of (cc_jobs (fold (cache_step sha dir) (polls an i @ [Finish i]) w)) = (map_of (cc_jobs w))(i := None)"
    by (simp add: w'_def)
  have r': "cache_reach sha dir w'"
    unfolding w'_def by (rule reach_fold [OF assms(1)]) (simp add: polls_def)
  have d: "distinct (map fst (cc_jobs w))" "distinct (map fst (cc_jobs w'))"
    using cache_reach_ok [OF assms(1)] cache_reach_ok [OF r'] by (simp_all add: jobs_ok_def pool_ok_def)
  have "{j. \<exists>x. map_of (cc_jobs w') j = Some x \<and> holds_permit x} = {j. \<exists>x. map_of (cc_jobs w) j = Some x \<and> holds_permit x} - {i}"
    by (auto simp: m)
  then have "permits_used w' = permits_used w - of_bool (holds_permit ph)"
    unfolding permits_card [OF d(1)] permits_card [OF d(2)] using assms(2) by (simp add: card_Diff_singleton_if)
  then show "permits_used (fold (cache_step sha dir) (polls an i @ [Finish i]) w) = permits_used w - of_bool (holds_permit ph)"
    by (simp add: w'_def)
qed

theorem cache_job_ends_witness:
  "cc_jobs (fold (cache_step demo_sha [''clips''])
     (polls \<lparr>an_registered = (\<lambda>h. False), an_store_fails = False, an_mkdir_fails = True, an_fetch = (\<lambda>h p a b. Some (Inl Backend_Io)),
        an_write = Write_Failed 2, an_rename_ok = False, an_update_fails = True\<rparr> 1 @ [Finish 1]) demo_written) = []"
proof -
  have m: "map_of (cc_jobs demo_written) = [1 \<mapsto> Partial_Written \<lparr>pl_handle = ''nas'', pl_path = ''cam7/1.mp4'',
      pl_sha256 = sha256_hex demo_sha ''abcdef'', pl_size = 6\<rparr>]"
  proof -
    have "cc_jobs demo_written = [(1, Partial_Written \<lparr>pl_handle = ''nas'', pl_path = ''cam7/1.mp4'',
      pl_sha256 = sha256_hex demo_sha ''abcdef'', pl_size = 6\<rparr>)]" by code_simp
    then show ?thesis by simp
  qed
  have "map_of ps = Map.empty \<Longrightarrow> ps = []" for ps :: "(int \<times> job_phase) list" by simp
  then show ?thesis
    using cache_job_ends [OF demo_reach(2), of 1] by (simp add: m answered_def)
qed

text \<open>
  Without an answer the job does not end: as long as the backend stays silent and
  the signal wakes no waiter, polling the download changes nothing, and the job
  keeps its slot.  A change of level ends it (\<open>pressure_ends_download\<close> below).
\<close>

lemma silent_backend_keeps_slot:
  assumes "map_of (cc_jobs w) i = Some (Downloading pl (wakeups (cc_signal w)))"
    and "\<And>h p start stop. fetch h p start stop = None"
  shows "fold (cache_step sha dir) (replicate n (Poll i fetch)) w = w"
  using assms by (induction n) simp_all

text \<open>
  C26. A clip that was uploaded to a share and then evicted from the hot tier comes
  back byte for byte: with free space and a free slot, a request that nothing
  disturbs leaves the uploaded bytes at the clip's cold path below the clips
  directory, gives the row its hot pointer back, and changes no other file, no
  other row and no other job.
\<close>

theorem evicted_clip_comes_back:
  assumes "lan_put sha l f p x h fs = (Inr r, fs')" "x \<noteq> []" "length x < 2 ^ 63"
    "signal_is_ok (cc_signal w)" "map_of (cc_jobs w) i = None" "permits_used w < CACHE_MAX_INFLIGHT"
    "get_clip i (cc_db w) = Some c" "evicted_clip sha (lan_handle l) p x c" "has_backend ''local'' (cc_db w)"
    "w' = fold (cache_step sha dir) (restore_events (lan_fetch l fs') (\<lambda>b. b = lan_handle l) i) w"
  shows "cc_hot w' (join_path dir p) = Some x
    \<and> get_clip i (cc_db w') = Some (c\<lparr>hot_handle := Some ''local'', hot_path := Some p\<rparr>)
    \<and> (\<forall>q. q \<noteq> join_path dir p \<longrightarrow> \<not> is_partial q \<longrightarrow> cc_hot w' q = cc_hot w q)
    \<and> (\<forall>j. j \<noteq> i \<longrightarrow> get_clip j (cc_db w') = get_clip j (cc_db w)) \<and> map_of (cc_jobs w') = map_of (cc_jobs w)"
proof -
  note put = lan_put_stores [OF assms(1)]
  obtain pl where pl: "pl_path pl = p" "cc_hot w' = (cc_hot w)(partial_path dir pl := None, final_path dir pl \<mapsto> x)"
    "cc_db w' = snd (repopulate_hot_pointer i ''local'' p (cc_db w))" "map_of (cc_jobs w') = map_of (cc_jobs w)"
    using lan_source.rehydrate [OF assms(4-8) _ put(3,1) assms(2,3,9,10)] by auto
  have fin: "final_path dir pl = join_path dir p" by (simp add: final_path_def pl(1))
  have c: "hot_handle c = None" using assms(8) by (simp add: evicted_clip_def)
  have "cc_hot w' q = cc_hot w q" if "q \<noteq> join_path dir p" "\<not> is_partial q" for q
    using that partial_is_partial by (auto simp: pl(2) fin)
  moreover have "cc_hot w' (join_path dir p) = Some x" by (simp add: pl(2) fin)
  moreover have "get_clip j (cc_db w') = get_clip j (cc_db w)" if "j \<noteq> i" for j
    using that by (cases "get_clip j (cc_db w)") (simp_all add: pl(3) get_clip_repopulate [OF assms(9)])
  moreover have "get_clip i (cc_db w') = Some (c\<lparr>hot_handle := Some ''local'', hot_path := Some p\<rparr>)"
    by (simp add: pl(3) get_clip_repopulate [OF assms(9)] assms(7) c)
  ultimately show ?thesis using pl(4) by blast
qed

theorem evicted_clip_comes_back_witness:
  "\<exists>r fs'. lan_put demo_sha demo_lan no_faults ''cam7/1.mp4'' ''abcdef'' (sha256_hex demo_sha ''abcdef'') Map.empty = (Inr r, fs')
     \<and> cc_hot (fold (cache_step demo_sha [''clips'']) (restore_events (lan_fetch demo_lan fs') (\<lambda>b. b = ''nas'') 1) demo_cache)
         (join_path [''clips''] ''cam7/1.mp4'') = Some ''abcdef''"
proof -
  obtain c where c: "get_clip 1 (cc_db demo_cache) = Some c" "evicted_clip demo_sha ''nas'' ''cam7/1.mp4'' ''abcdef'' c"
    using evicted_row by (auto simp: demo_cache_def)
  have d: "signal_is_ok (cc_signal demo_cache)" "map_of (cc_jobs demo_cache) 1 = None" "permits_used demo_cache < CACHE_MAX_INFLIGHT"
    "has_backend ''local'' (cc_db demo_cache)" "lan_handle demo_lan = ''nas''" by code_simp+
  show ?thesis
    using evicted_clip_comes_back [OF demo_put _ _ d(1-3) c(1) _ d(4) refl, where dir = "[''clips'']"] c(2) demo_put d(5) by auto
qed

section \<open>Pressure\<close>

text \<open>A change of level that wakes the waiters ends every download that is being waited for.\<close>

lemma pressure_ends_download:
  assumes "map_of (cc_jobs w) i = Some (Downloading pl (wakeups (cc_signal w)))" "l \<noteq> Level_Ok" "sig_level (cc_signal w) \<noteq> l"
  shows "map_of (cc_jobs (cache_step sha dir (Poll i fetch) (cache_step sha dir (Set_Level l) w))) i = Some (Ended (Inr Watermark_Aborted))"
proof -
  have "level_from_u8 (level_as_u8 (sig_level (cc_signal w))) = sig_level (cc_signal w)"
    by (cases "sig_level (cc_signal w)") (simp_all add: level_from_u8_def)
  then show ?thesis using assms by (simp add: signal_set_def map_of_set_phase)
qed

text \<open>
  C29. The watermark does not have priority over a job that has been re-checked but
  does not wait yet: when free space falls to low or panic after the job's second
  check and before its download begins, the job is not cancelled; it downloads the
  clip, writes it to the hot disk and restores the hot pointer while the level
  stays at the value that forbids it.
\<close>

theorem pressure_before_download_is_missed:
  assumes "lan_put sha l f p x h fs = (Inr r, fs')" "x \<noteq> []" "length x < 2 ^ 63" "map_of (cc_jobs w) i = Some Reading_Row"
    "get_clip i (cc_db w) = Some c" "evicted_clip sha (lan_handle l) p x c" "has_backend ''local'' (cc_db w)" "level \<noteq> Level_Ok"
    "w' = fold (cache_step sha dir) (Set_Level level # finish_events (lan_fetch l fs') (\<lambda>b. b = lan_handle l) i) w"
  shows "sig_level (cc_signal w') = level \<and> cc_hot w' (join_path dir p) = Some x
    \<and> get_clip i (cc_db w') = Some (c\<lparr>hot_handle := Some ''local'', hot_path := Some p\<rparr>)"
proof -
  note put = lan_put_stores [OF assms(1)]
  define v where "v = cache_step sha dir (Set_Level level) w"
  have v: "map_of (cc_jobs v) i = Some Reading_Row" "cc_db v = cc_db w" "cc_hot v = cc_hot w" "sig_level (cc_signal v) = level"
    using assms(4) by (simp_all add: v_def signal_set_def)
  have f: "w' = fold (cache_step sha dir) (finish_events (lan_fetch l fs') (\<lambda>b. b = lan_handle l) i) v"
    by (simp add: assms(9) v_def)
  obtain pl where pl: "pl_path pl = p" "cc_hot w' = (cc_hot v)(partial_path dir pl := None, final_path dir pl \<mapsto> x)"
    "cc_db w' = snd (repopulate_hot_pointer i ''local'' p (cc_db v))" "cc_signal w' = cc_signal v"
    using lan_source.rehydrate_from_row [OF v(1) assms(5) [folded v(2)] assms(6) _ put(3,1) assms(2,3) assms(7) [folded v(2)] f] by auto
  have "hot_handle c = None" using assms(6) by (simp add: evicted_clip_def)
  then show ?thesis
    using pl v(4) by (simp add: v(2) get_clip_repopulate [OF assms(7)] assms(5) final_path_def)
qed

theorem pressure_before_download_is_missed_witness:
  "\<exists>r fs'. lan_put demo_sha demo_lan no_faults ''cam7/1.mp4'' ''abcdef'' (sha256_hex demo_sha ''abcdef'') Map.empty = (Inr r, fs')
     \<and> sig_level (cc_signal (fold (cache_step demo_sha [''clips'']) (Set_Level Level_Panic # finish_events (lan_fetch demo_lan fs') (\<lambda>b. b = ''nas'') 1)
         (fold (cache_step demo_sha [''clips'']) [Spawn 1, Acquire 1] demo_cache))) = Level_Panic"
proof -
  define w where "w = fold (cache_step demo_sha [''clips'']) [Spawn 1, Acquire 1] demo_cache"
  have d: "map_of (cc_jobs w) 1 = Some Reading_Row" "has_backend ''local'' (cc_db w)" "lan_handle demo_lan = ''nas''"
    unfolding w_def by code_simp+
  have "cc_db w = cc_db demo_cache" by (simp add: w_def demo_cache_def signal_is_ok_def set_phase_def permits_used_def CACHE_MAX_INFLIGHT_def)
  then obtain c where c: "get_clip 1 (cc_db w) = Some c" "evicted_clip demo_sha ''nas'' ''cam7/1.mp4'' ''abcdef'' c"
    using evicted_row by (auto simp: demo_cache_def)
  show ?thesis
    using pressure_before_download_is_missed [OF demo_put _ _ d(1) c(1) _ d(2) _ refl, of Level_Panic "[''clips'']"] c(2) demo_put d(3)
    unfolding w_def by auto
qed

end
