(* ===== verification/Reconciler.thy ===== *)
theory Reconciler
  imports Prelude Assoc
begin

unbundle bit_operations_syntax

text \<open>
  The camera reconciler of \<open>nexus-engine/src/reconciler.rs\<close>: the controller that
  makes the running supervisors, ingesters and substream sessions match the
  camera table.  The handle map is an association list, whose order stands for
  the unspecified order of the hash map.  What the controller does to the
  recorder, the supervisors, the caches and the live view is a log of effects;
  how they answer (registrations refused, supervisors that exited or do not
  stop in time, codec probes) is the environment of a pass.
\<close>

section \<open>Configuration\<close>

type_synonym camera_id = int

datatype codec_kind = H264 | H264Plus | H265 | H265Plus

datatype tile_grid_config = G2x2 | G3x3

record camera_ingest =
  in_url :: string
  in_analysis_url :: "string option"
  in_enabled :: bool
  in_max_fps :: u32
  in_codec :: "codec_kind option"

record camera_behavior =
  parking_lot_mode :: bool
  anchor_ttl_secs :: "u32 option"
  supervisor_width :: "u32 option"
  detector_skip_crowded_threshold :: "u32 option"
  detector_skip_every_n_frames :: "u32 option"
  detector_downscale_crowded_threshold :: "u32 option"
  detector_downscale_sustained_secs :: "u32 option"
  detector_downscale_to_width :: "u32 option"
  detector_downscale_to_height :: "u32 option"
  supervisor_downscale_crowded_threshold :: "u32 option"
  supervisor_downscale_sustained_secs :: "u32 option"
  supervisor_upscale_clear_secs :: "u32 option"
  supervisor_downscale_to_width :: "u32 option"
  tile_enabled :: "bool option"
  tile_trigger :: "u32 option"
  tile_max_per_frame :: "u32 option"
  tile_grid :: "tile_grid_config option"

text \<open>The parts of a camera that the reconciler reads; an override is its input width and \<open>top_k\<close>.\<close>

record camera_config =
  cam_id :: camera_id
  cam_ingest :: camera_ingest
  cam_model_override :: "(u32 \<times> nat option) option"
  cam_behavior :: camera_behavior

text \<open>\<open>Url::scheme\<close> of a parsed, hence normalised, URL.\<close>

definition url_scheme :: "string \<Rightarrow> string" where
  "url_scheme u = takeWhile (\<lambda>c. c \<noteq> CHR '':'') u"

definition supervisor_frame_for :: "u32 \<Rightarrow> u32 \<times> u32" where
  "supervisor_frame_for w = (w, ((w * 9 div 16) + 1) AND NOT 1)"

definition supervisor_dims_from :: "u32 option \<Rightarrow> u32 option \<Rightarrow> u32 \<Rightarrow> u32 \<times> u32" where
  "supervisor_dims_from override_width sup_width default_width =
     (let det_w = (case override_width of Some w \<Rightarrow> w | None \<Rightarrow> default_width);
          sup_input = max (case sup_width of Some w \<Rightarrow> w | None \<Rightarrow> det_w) det_w
      in supervisor_frame_for sup_input)"

definition supervisor_dims_for :: "camera_config \<Rightarrow> u32 \<Rightarrow> u32 \<times> u32" where
  "supervisor_dims_for cam default_width =
     supervisor_dims_from (map_option fst (cam_model_override cam)) (supervisor_width (cam_behavior cam)) default_width"

section \<open>Entries\<close>

record entry_key =
  ek_url :: string
  ek_dims :: "u32 \<times> u32"
  ek_codec :: "codec_kind option"
  ek_analysis_url :: "string option"
  ek_behavior :: camera_behavior

definition changed_behavior_field :: "camera_behavior \<Rightarrow> camera_behavior \<Rightarrow> string option" where
  "changed_behavior_field started want =
     (if parking_lot_mode want \<noteq> parking_lot_mode started then Some ''parking_lot_mode''
      else if anchor_ttl_secs want \<noteq> anchor_ttl_secs started then Some ''anchor_ttl_secs''
      else if detector_skip_crowded_threshold want \<noteq> detector_skip_crowded_threshold started
      then Some ''detector_skip_crowded_threshold''
      else if detector_skip_every_n_frames want \<noteq> detector_skip_every_n_frames started
      then Some ''detector_skip_every_n_frames''
      else if detector_downscale_crowded_threshold want \<noteq> detector_downscale_crowded_threshold started
      then Some ''detector_downscale_crowded_threshold''
      else if detector_downscale_sustained_secs want \<noteq> detector_downscale_sustained_secs started
      then Some ''detector_downscale_sustained_secs''
      else if supervisor_downscale_crowded_threshold want \<noteq> supervisor_downscale_crowded_threshold started
      then Some ''supervisor_downscale_crowded_threshold''
      else if supervisor_downscale_sustained_secs want \<noteq> supervisor_downscale_sustained_secs started
      then Some ''supervisor_downscale_sustained_secs''
      else if supervisor_upscale_clear_secs want \<noteq> supervisor_upscale_clear_secs started
      then Some ''supervisor_upscale_clear_secs''
      else if supervisor_downscale_to_width want \<noteq> supervisor_downscale_to_width started
      then Some ''supervisor_downscale_to_width''
      else if tile_enabled want \<noteq> tile_enabled started then Some ''tile_enabled''
      else if tile_trigger want \<noteq> tile_trigger started then Some ''tile_trigger''
      else if tile_max_per_frame want \<noteq> tile_max_per_frame started then Some ''tile_max_per_frame''
      else if tile_grid want \<noteq> tile_grid started then Some ''tile_grid''
      else None)"

definition key_eq :: "entry_key \<Rightarrow> entry_key \<Rightarrow> bool" where
  "key_eq k want \<longleftrightarrow> ek_url k = ek_url want \<and> ek_dims k = ek_dims want \<and> ek_codec k = ek_codec want
     \<and> ek_analysis_url k = ek_analysis_url want
     \<and> changed_behavior_field (ek_behavior k) (ek_behavior want) = None"

text \<open>The settings of the reconciler that its decisions use.\<close>

record reconciler_args =
  ra_pre_roll_secs :: u32
  ra_default_detector_width :: u32
  ra_default_top_k :: "nat option"

definition wanted :: "reconciler_args \<Rightarrow> camera_config \<Rightarrow> entry_key" where
  "wanted args cam =
     \<lparr>ek_url = in_url (cam_ingest cam), ek_dims = supervisor_dims_for cam (ra_default_detector_width args),
      ek_codec = in_codec (cam_ingest cam), ek_analysis_url = in_analysis_url (cam_ingest cam),
      ek_behavior = cam_behavior cam\<rparr>"

record analysis_session =
  as_codec :: codec_kind
  as_registered :: bool

record cam_sessions =
  main_pending :: "codec_kind option"
  analysis :: "analysis_session option"

record start =
  st_key :: entry_key
  st_sessions :: cam_sessions

record running_camera_entry =
  rc_task :: nat
  rc_key :: entry_key
  rc_sessions :: cam_sessions

section \<open>World\<close>

text \<open>A stop carries whether the supervisor ended in time or was aborted.\<close>

datatype effect =
  Supervisor_Stopped camera_id nat bool
| Ingester_Removed camera_id
| Ingester_Added camera_id string u32 u32 "u32 \<times> u32" codec_kind bool
| Analysis_Set camera_id "string option" u32 "u32 \<times> u32" codec_kind bool
| Codec_Pinned camera_id "codec_kind option"
| State_Cleared camera_id
| Live_View_Stopped camera_id
| Supervisor_Spawned camera_id nat "u32 \<times> u32" "nat option"

record rc_world =
  handles :: "(camera_id \<times> running_camera_entry) list"
  unreadable_cameras :: "camera_id list"
  next_task :: nat
  stop_sent :: "nat list"
  effects :: "effect list"

text \<open>
  One pass: the rows it reads (\<open>None\<close> when the read fails) with the decoder of a
  row, which tasks have finished, which end in time when asked, the recorder's
  answers per camera, and the codec probe.
\<close>

record rc_env =
  ev_rows :: "(camera_id \<times> string) list option"
  ev_decode :: "string \<Rightarrow> camera_config option"
  ev_finished :: "nat \<Rightarrow> bool"
  ev_stops :: "nat \<Rightarrow> bool"
  ev_add_ok :: "camera_id \<Rightarrow> bool"
  ev_analysis_ok :: "camera_id \<Rightarrow> bool"
  ev_probe :: "string \<Rightarrow> codec_kind option"

definition emit :: "effect \<Rightarrow> rc_world \<Rightarrow> rc_world" where
  "emit x w = w\<lparr>effects := effects w @ [x]\<rparr>"

definition exited_on_its_own :: "rc_env \<Rightarrow> rc_world \<Rightarrow> running_camera_entry \<Rightarrow> bool" where
  "exited_on_its_own e w entry \<longleftrightarrow> ev_finished e (rc_task entry) \<and> rc_task entry \<notin> set (stop_sent w)"

definition list_readable_cameras ::
  "(string \<Rightarrow> camera_config option) \<Rightarrow> (camera_id \<times> string) list \<Rightarrow> camera_config list \<times> camera_id list" where
  "list_readable_cameras decode rows =
     (List.map_filter (\<lambda>(i, json). decode json) rows, map fst (filter (\<lambda>(i, json). decode json = None) rows))"

section \<open>Stopping\<close>

definition stop_camera :: "rc_env \<Rightarrow> camera_id \<Rightarrow> rc_world \<Rightarrow> rc_world" where
  "stop_camera e i w =
     (let w1 = (case map_of (handles w) i of
                  None \<Rightarrow> w
                | Some entry \<Rightarrow>
                    (let t = rc_task entry in
                     emit (Supervisor_Stopped i t (ev_stops e t))
                       (w\<lparr>stop_sent := stop_sent w @ [t], handles := AList.delete i (handles w)\<rparr>)))
      in emit (State_Cleared i) (emit (Analysis_Set i None 0 (0, 0) H264 (ev_analysis_ok e i)) (emit (Ingester_Removed i) w1)))"

section \<open>Starting\<close>

definition is_rtsp :: "string \<Rightarrow> bool" where
  "is_rtsp u \<longleftrightarrow> url_scheme u \<in> {''rtsp'', ''rtsps''}"

definition apply_analysis_session ::
  "rc_env \<Rightarrow> camera_config \<Rightarrow> codec_kind \<Rightarrow> u32 \<times> u32 \<Rightarrow> rc_world \<Rightarrow> analysis_session option \<times> rc_world" where
  "apply_analysis_session e cam main_codec dims w =
     (case in_analysis_url (cam_ingest cam) of
        None \<Rightarrow> (None, emit (Analysis_Set (cam_id cam) None (in_max_fps (cam_ingest cam)) dims main_codec
                          (ev_analysis_ok e (cam_id cam))) w)
      | Some url \<Rightarrow>
          (let codec = (if is_rtsp url then (case ev_probe e url of Some c \<Rightarrow> c | None \<Rightarrow> main_codec) else main_codec);
               ok = ev_analysis_ok e (cam_id cam)
           in (Some \<lparr>as_codec = codec, as_registered = ok\<rparr>,
               emit (Analysis_Set (cam_id cam) (Some url) (in_max_fps (cam_ingest cam)) dims codec ok) w)))"

definition start_sessions ::
  "rc_env \<Rightarrow> camera_config \<Rightarrow> codec_kind \<Rightarrow> u32 \<times> u32 \<Rightarrow> bool \<Rightarrow> rc_world \<Rightarrow> cam_sessions \<times> rc_world" where
  "start_sessions e cam main_codec dims main_registered w =
     (if \<not> main_registered then (\<lparr>main_pending = Some main_codec, analysis = None\<rparr>, w)
      else case apply_analysis_session e cam main_codec dims (emit (Codec_Pinned (cam_id cam) (in_codec (cam_ingest cam))) w) of
             (a, w1) \<Rightarrow> (\<lparr>main_pending = None, analysis = a\<rparr>, w1))"

text \<open>\<open>top_k\<close>: the override's, else the default.  Task ids are fresh.\<close>

definition spawn_supervisor ::
  "reconciler_args \<Rightarrow> camera_config \<Rightarrow> start \<Rightarrow> rc_world \<Rightarrow> running_camera_entry \<times> rc_world" where
  "spawn_supervisor args cam st w =
     (let t = next_task w;
          top_k = (case Option.bind (cam_model_override cam) snd of Some k \<Rightarrow> Some k | None \<Rightarrow> ra_default_top_k args)
      in (\<lparr>rc_task = t, rc_key = st_key st, rc_sessions = st_sessions st\<rparr>,
          emit (Supervisor_Spawned (cam_id cam) t (ek_dims (st_key st)) top_k) (w\<lparr>next_task := Suc t\<rparr>)))"

text \<open>The pinned codec, else a probe of an RTSP stream, else H.264.\<close>

definition resolve_codec :: "rc_env \<Rightarrow> camera_config \<Rightarrow> codec_kind" where
  "resolve_codec e cam =
     (case in_codec (cam_ingest cam) of
        Some c \<Rightarrow> c
      | None \<Rightarrow>
          (case (if is_rtsp (in_url (cam_ingest cam)) then ev_probe e (in_url (cam_ingest cam)) else None) of
             Some c \<Rightarrow> c | None \<Rightarrow> H264))"

definition start_camera :: "reconciler_args \<Rightarrow> rc_env \<Rightarrow> camera_config \<Rightarrow> entry_key \<Rightarrow> rc_world \<Rightarrow> rc_world" where
  "start_camera args e cam want w =
     (let i = cam_id cam;
          codec = resolve_codec e cam;
          ok = ev_add_ok e i;
          w1 = emit (Ingester_Added i (ek_url want) (ra_pre_roll_secs args) (in_max_fps (cam_ingest cam)) (ek_dims want) codec ok) w;
          (ses, w2) = start_sessions e cam codec (ek_dims want) ok w1;
          (entry, w3) = spawn_supervisor args cam \<lparr>st_key = want, st_sessions = ses\<rparr> w2
      in w3\<lparr>handles := AList.update i entry (handles w3)\<rparr>)"

section \<open>Retrying registrations\<close>

definition retry_sessions :: "reconciler_args \<Rightarrow> rc_env \<Rightarrow> camera_config \<Rightarrow> running_camera_entry \<Rightarrow> rc_world \<Rightarrow> rc_world" where
  "retry_sessions args e cam entry w =
     (let i = cam_id cam;
          dims = ek_dims (rc_key entry);
          fps = in_max_fps (cam_ingest cam);
          (ses1, w1) =
            (case main_pending (rc_sessions entry) of
               None \<Rightarrow> (rc_sessions entry, w)
             | Some codec \<Rightarrow>
                 (let ok = ev_add_ok e i;
                      w' = emit (Ingester_Added i (ek_url (rc_key entry)) (ra_pre_roll_secs args) fps dims codec ok) w
                  in if ok then ((rc_sessions entry)\<lparr>main_pending := None\<rparr>, emit (Codec_Pinned i (in_codec (cam_ingest cam))) w')
                     else (rc_sessions entry, w')));
          (ses2, w2) =
            (case (analysis ses1, ek_analysis_url (rc_key entry)) of
               (Some s, Some url) \<Rightarrow>
                 (let ok = ev_analysis_ok e i
                  in (ses1\<lparr>analysis := Some (s\<lparr>as_registered := ok\<rparr>)\<rparr>, emit (Analysis_Set i (Some url) fps dims (as_codec s) ok) w1))
             | _ \<Rightarrow> (ses1, w1))
      in if ses2 \<noteq> rc_sessions entry
         then (case map_of (handles w2) i of
                 None \<Rightarrow> w2
               | Some live \<Rightarrow> w2\<lparr>handles := AList.update i (live\<lparr>rc_sessions := ses2\<rparr>) (handles w2)\<rparr>)
         else w2)"

section \<open>A pass\<close>

definition remove_one :: "rc_env \<Rightarrow> camera_id set \<Rightarrow> camera_id \<Rightarrow> rc_world \<Rightarrow> rc_world" where
  "remove_one e live i w = (if i \<in> live then w else emit (Live_View_Stopped i) (stop_camera e i w))"

definition converge_one ::
  "reconciler_args \<Rightarrow> rc_env \<Rightarrow> (camera_id \<times> running_camera_entry) list \<Rightarrow> camera_config \<Rightarrow> rc_world \<Rightarrow> rc_world" where
  "converge_one args e current cam w =
     (let want = wanted args cam in
      case map_of current (cam_id cam) of
        Some entry \<Rightarrow>
          if key_eq (rc_key entry) want \<and> \<not> ev_finished e (rc_task entry) then retry_sessions args e cam entry w
          else start_camera args e cam want (stop_camera e (cam_id cam) w)
      | None \<Rightarrow> start_camera args e cam want w)"

definition enabled_cameras :: "camera_config list \<Rightarrow> camera_config list" where
  "enabled_cameras = filter (\<lambda>c. in_enabled (cam_ingest c))"

definition reconcile :: "reconciler_args \<Rightarrow> rc_env \<Rightarrow> rc_world \<Rightarrow> rc_world" where
  "reconcile args e w =
     (case ev_rows e of
        None \<Rightarrow> w
      | Some rows \<Rightarrow>
          (case list_readable_cameras (ev_decode e) rows of
             (live, unreadable) \<Rightarrow>
               (let current = handles w;
                    w1 = fold (remove_one e (cam_id ` set (enabled_cameras live))) (map fst current)
                           (w\<lparr>unreadable_cameras := unreadable\<rparr>)
                in fold (converge_one args e current) (enabled_cameras live) w1)))"

text \<open>What wakes the task: an event (with its \<open>kind\<close>, if it has one), a stream error, the timer.\<close>

datatype wake = Config_Changed "string option" rc_env | Stream_Error | Supervise_Tick rc_env

fun reconciler_step :: "reconciler_args \<Rightarrow> wake \<Rightarrow> rc_world \<Rightarrow> rc_world" where
  "reconciler_step args (Config_Changed kind e) w =
     (if kind \<noteq> None \<and> kind \<noteq> Some ''camera'' then w else reconcile args e w)"
| "reconciler_step args Stream_Error w = w"
| "reconciler_step args (Supervise_Tick e) w = reconcile args e w"

section \<open>Boot\<close>

record boot_sessions =
  bs_sessions :: "camera_id \<rightharpoonup> cam_sessions"
  bs_taps :: "camera_id \<rightharpoonup> u32 \<times> u32"

definition register_boot_sessions ::
  "rc_env \<Rightarrow> (camera_config \<times> codec_kind \<times> (u32 \<times> u32) \<times> bool) list \<Rightarrow> rc_world \<Rightarrow> boot_sessions \<times> rc_world" where
  "register_boot_sessions e cams w =
     (case fold (\<lambda>(cam, codec, dims, ok) (m, w). case start_sessions e cam codec dims ok w of
                   (ses, w') \<Rightarrow> (m(cam_id cam \<mapsto> ses), w')) cams (Map.empty, w) of
        (m, w') \<Rightarrow> (\<lparr>bs_sessions = m, bs_taps = Map.empty\<rparr>, w'))"

definition with_taps :: "(camera_id \<rightharpoonup> u32 \<times> u32) \<Rightarrow> boot_sessions \<Rightarrow> boot_sessions" where
  "with_taps taps b = b\<lparr>bs_taps := taps\<rparr>"

definition at_boot :: "reconciler_args \<Rightarrow> camera_config \<Rightarrow> boot_sessions \<Rightarrow> start \<times> boot_sessions" where
  "at_boot args cam b =
     (let want = wanted args cam; i = cam_id cam in
      (\<lparr>st_key = want\<lparr>ek_dims := (case bs_taps b i of Some d \<Rightarrow> d | None \<Rightarrow> ek_dims want)\<rparr>,
        st_sessions = (case bs_sessions b i of Some s \<Rightarrow> s | None \<Rightarrow> \<lparr>main_pending = None, analysis = None\<rparr>)\<rparr>,
       \<lparr>bs_sessions = (bs_sessions b)(i := None), bs_taps = (bs_taps b)(i := None)\<rparr>))"

text \<open>The two recorders a build can run, and what each registers before the supervisors start.\<close>

datatype recorder_kind = Stub | Gstreamer

definition register_stub_analysis_sessions ::
  "rc_env \<Rightarrow> camera_config list \<Rightarrow> rc_world \<Rightarrow> boot_sessions \<times> rc_world" where
  "register_stub_analysis_sessions e cams =
     register_boot_sessions e
       (map (\<lambda>c. (c, case in_codec (cam_ingest c) of Some k \<Rightarrow> k | None \<Rightarrow> H264, (0, 0), True))
          (filter (\<lambda>c. in_enabled (cam_ingest c) \<and> in_analysis_url (cam_ingest c) \<noteq> None) cams))"

type_synonym boot_pending = "(camera_config \<times> codec_kind \<times> (u32 \<times> u32) \<times> bool) list"

text \<open>One camera of the recorder's boot loop: its ingester, its tap, and whether boot registers something for it.\<close>

definition build_ingester ::
  "reconciler_args \<Rightarrow> rc_env \<Rightarrow> camera_config \<Rightarrow> boot_pending \<times> (camera_id \<rightharpoonup> u32 \<times> u32) \<times> rc_world
   \<Rightarrow> boot_pending \<times> (camera_id \<rightharpoonup> u32 \<times> u32) \<times> rc_world" where
  "build_ingester args e cam acc =
     (case acc of (boot_pending, taps, w) \<Rightarrow>
       (let rgb = supervisor_dims_for cam (ra_default_detector_width args);
            codec = resolve_codec e cam;
            ok = ev_add_ok e (cam_id cam);
            w1 = emit (Ingester_Added (cam_id cam) (in_url (cam_ingest cam)) (ra_pre_roll_secs args)
                         (in_max_fps (cam_ingest cam)) rgb codec ok) w
        in if ok
           then (if in_analysis_url (cam_ingest cam) \<noteq> None then boot_pending @ [(cam, codec, rgb, True)] else boot_pending,
                 taps(cam_id cam \<mapsto> rgb), w1)
           else (boot_pending @ [(cam, codec, rgb, False)], taps, w1)))"

definition build_gst_recorder ::
  "reconciler_args \<Rightarrow> rc_env \<Rightarrow> camera_config list \<Rightarrow> rc_world \<Rightarrow> boot_sessions \<times> rc_world" where
  "build_gst_recorder args e cams w =
     (case fold (build_ingester args e) (enabled_cameras cams) ([], Map.empty, w) of
        (boot_pending, taps, w1) \<Rightarrow>
          (case register_boot_sessions e boot_pending
                  (fold (\<lambda>c. emit (Codec_Pinned (cam_id c) (in_codec (cam_ingest c)))) cams w1) of
             (b, w2) \<Rightarrow> (with_taps taps b, w2)))"

fun build_recorder ::
  "reconciler_args \<Rightarrow> rc_env \<Rightarrow> recorder_kind \<Rightarrow> camera_config list \<Rightarrow> rc_world \<Rightarrow> boot_sessions \<times> rc_world" where
  "build_recorder args e Stub cams w = register_stub_analysis_sessions e cams w"
| "build_recorder args e Gstreamer cams w = build_gst_recorder args e cams w"

definition boot_camera ::
  "reconciler_args \<Rightarrow> camera_config \<Rightarrow> boot_sessions \<times> rc_world \<Rightarrow> boot_sessions \<times> rc_world" where
  "boot_camera args cam acc =
     (case acc of (b, w) \<Rightarrow>
       (case at_boot args cam b of (st, b1) \<Rightarrow>
         (case spawn_supervisor args cam st w of
            (entry, w1) \<Rightarrow> (b1, w1\<lparr>handles := AList.update (cam_id cam) entry (handles w1)\<rparr>))))"

text \<open>\<open>main\<close> up to the end of its boot loop: nothing starts when the camera list cannot be read.\<close>

definition boot :: "reconciler_args \<Rightarrow> rc_env \<Rightarrow> recorder_kind \<Rightarrow> rc_world option" where
  "boot args e kind =
     (case ev_rows e of
        None \<Rightarrow> None
      | Some rows \<Rightarrow>
          (case list_readable_cameras (ev_decode e) rows of
             (cams, unreadable) \<Rightarrow>
               Some (snd (fold (boot_camera args) (enabled_cameras cams)
                 (build_recorder args e kind cams
                   \<lparr>handles = [], unreadable_cameras = unreadable, next_task = 0, stop_sent = [], effects = []\<rparr>)))))"

text \<open>The end of \<open>main\<close>, after the reconciler has been joined: every supervisor in the map is aborted.\<close>

definition drain_supervisors :: "rc_world \<Rightarrow> rc_world" where
  "drain_supervisors w =
     (fold (\<lambda>(i, entry). emit (Supervisor_Stopped i (rc_task entry) False)) (handles w) w)\<lparr>handles := []\<rparr>"

section \<open>Health\<close>

definition exited_supervisors :: "rc_env \<Rightarrow> rc_world \<Rightarrow> camera_id list" where
  "exited_supervisors e w = sort (map fst (filter (\<lambda>(i, entry). exited_on_its_own e w entry) (handles w)))"

end
