(* ===== verification/Camera_Runtime.thy ===== *)
theory Camera_Runtime
  imports Reconciler
begin

text \<open>
  What the reconciler does to one camera.  The log of effects is replayed into
  the set of supervisors that are running; every operation is summarised by what
  it leaves in the handle map and appends to the log; and the locale
  \<open>per_camera\<close> is the contract of an operation on one camera, from which what a
  pass over many cameras does to each of them follows once.
\<close>

section \<open>Replaying the log\<close>

fun effect_camera :: "effect \<Rightarrow> camera_id" where
  "effect_camera (Supervisor_Stopped i t ok) = i"
| "effect_camera (Ingester_Removed i) = i"
| "effect_camera (Ingester_Added i url pre fps dims codec ok) = i"
| "effect_camera (Analysis_Set i url fps dims codec ok) = i"
| "effect_camera (Codec_Pinned i codec) = i"
| "effect_camera (State_Cleared i) = i"
| "effect_camera (Live_View_Stopped i) = i"
| "effect_camera (Supervisor_Spawned i t dims top_k) = i"

text \<open>An effect interrupts a camera unless it registers something with the recorder.\<close>

fun interrupts :: "effect \<Rightarrow> bool" where
  "interrupts (Ingester_Added i url pre fps dims codec ok) = False"
| "interrupts (Analysis_Set i url fps dims codec ok) = (url = None)"
| "interrupts (Codec_Pinned i codec) = False"
| "interrupts x = True"

fun replay :: "effect \<Rightarrow> (camera_id \<times> nat) set \<Rightarrow> (camera_id \<times> nat) set" where
  "replay (Supervisor_Spawned i t dims top_k) S = insert (i, t) S"
| "replay (Supervisor_Stopped i t ok) S = S - {(i, t)}"
| "replay x S = S"

definition running_supervisors :: "effect list \<Rightarrow> (camera_id \<times> nat) set" where
  "running_supervisors xs = fold replay xs {}"

fun supervises :: "effect \<Rightarrow> bool" where
  "supervises (Supervisor_Spawned i t dims top_k) = True"
| "supervises (Supervisor_Stopped i t ok) = True"
| "supervises x = False"

lemma replay_other [simp]: "\<not> supervises x \<Longrightarrow> replay x S = S"
  by (cases x) auto

lemma running_append: "running_supervisors (xs @ ys) = fold replay ys (running_supervisors xs)"
  by (simp add: running_supervisors_def)

lemma fold_replay_other: "filter supervises xs = [] \<Longrightarrow> fold replay xs S = S"
  by (induction xs) (auto split: if_splits)

lemma running_quiet [simp]:
  "filter supervises ys = [] \<Longrightarrow> running_supervisors (xs @ ys) = running_supervisors xs"
  by (simp add: running_append fold_replay_other)

section \<open>Comparing keys\<close>

text \<open>The part of the configuration a restart applies.\<close>

definition restart_part :: "camera_behavior \<Rightarrow> camera_behavior" where
  "restart_part b = b\<lparr>supervisor_width := None, detector_downscale_to_width := None, detector_downscale_to_height := None\<rparr>"

lemma changed_behavior_field_None:
  "changed_behavior_field a b = None \<longleftrightarrow> restart_part a = restart_part b"
  by (cases a; cases b) (auto simp: changed_behavior_field_def restart_part_def)

lemma key_eq_iff: "key_eq k k' \<longleftrightarrow> k\<lparr>ek_behavior := restart_part (ek_behavior k)\<rparr> = k'\<lparr>ek_behavior := restart_part (ek_behavior k')\<rparr>"
  by (cases k; cases k') (auto simp: key_eq_def changed_behavior_field_None)

lemma key_eq_refl [simp]: "key_eq k k"
  by (simp add: key_eq_iff)

section \<open>What each operation leaves\<close>

definition own_effects :: "camera_id \<Rightarrow> effect list \<Rightarrow> bool" where
  "own_effects i xs \<longleftrightarrow> (\<forall>x \<in> set xs. effect_camera x = i)"

lemma own_effects_simps [simp]:
  "own_effects i []" "own_effects i (x # xs) \<longleftrightarrow> effect_camera x = i \<and> own_effects i xs"
  "own_effects i (xs @ ys) \<longleftrightarrow> own_effects i xs \<and> own_effects i ys"
  by (auto simp: own_effects_def)

definition sessions_ok :: "entry_key \<Rightarrow> cam_sessions \<Rightarrow> bool" where
  "sessions_ok k s \<longleftrightarrow> analysis s \<noteq> None \<longrightarrow> main_pending s = None \<and> ek_analysis_url k \<noteq> None"

lemma start_sessions_cases:
  obtains ses xs where
    "start_sessions e cam codec dims ok w = (ses, w\<lparr>effects := effects w @ xs\<rparr>)"
    "own_effects (cam_id cam) xs" "filter supervises xs = []"
    "analysis ses \<noteq> None \<longrightarrow> main_pending ses = None \<and> in_analysis_url (cam_ingest cam) \<noteq> None"
    "main_pending ses = None \<longleftrightarrow> ok"
proof (cases ok)
  case True
  then show ?thesis
    by (cases "in_analysis_url (cam_ingest cam)")
      (auto simp: start_sessions_def apply_analysis_session_def emit_def Let_def split: prod.splits intro!: that)
next
  case False
  then show ?thesis
    by (intro that [of "\<lparr>main_pending = Some codec, analysis = None\<rparr>" "[]"]) (auto simp: start_sessions_def)
qed

lemma start_camera_cases:
  obtains ses xs top_k where
    "start_camera args e cam (wanted args cam) w =
       w\<lparr>handles := AList.update (cam_id cam) \<lparr>rc_task = next_task w, rc_key = wanted args cam, rc_sessions = ses\<rparr> (handles w),
         next_task := Suc (next_task w),
         effects := effects w @ xs @ [Supervisor_Spawned (cam_id cam) (next_task w) (ek_dims (wanted args cam)) top_k]\<rparr>"
    "own_effects (cam_id cam) xs" "filter supervises xs = []" "sessions_ok (wanted args cam) ses"
proof -
  define x where "x = Ingester_Added (cam_id cam) (ek_url (wanted args cam)) (ra_pre_roll_secs args)
    (in_max_fps (cam_ingest cam)) (ek_dims (wanted args cam)) (resolve_codec e cam) (ev_add_ok e (cam_id cam))"
  obtain ses xs where s: "start_sessions e cam (resolve_codec e cam) (ek_dims (wanted args cam)) (ev_add_ok e (cam_id cam)) (emit x w)
      = (ses, (emit x w)\<lparr>effects := effects (emit x w) @ xs\<rparr>)"
    "own_effects (cam_id cam) xs" "filter supervises xs = []"
    "analysis ses \<noteq> None \<longrightarrow> main_pending ses = None \<and> in_analysis_url (cam_ingest cam) \<noteq> None"
    by (rule start_sessions_cases)
  show ?thesis
    by (rule that [where ses = ses and xs = "x # xs" and top_k = "case Option.bind (cam_model_override cam) snd of Some k \<Rightarrow> Some k | None \<Rightarrow> ra_default_top_k args"])
      (use s in \<open>auto simp: start_camera_def Let_def x_def emit_def spawn_supervisor_def sessions_ok_def wanted_def\<close>)
qed

lemma retry_sessions_cases:
  assumes m: "map_of (handles w) (cam_id cam) = Some entry" and s: "sessions_ok (rc_key entry) (rc_sessions entry)"
  obtains ses xs where
    "retry_sessions args e cam entry w =
       w\<lparr>handles := AList.update (cam_id cam) (entry\<lparr>rc_sessions := ses\<rparr>) (handles w), effects := effects w @ xs\<rparr>"
    "own_effects (cam_id cam) xs" "filter supervises xs = []" "filter interrupts xs = []" "sessions_ok (rc_key entry) ses"
proof (cases "main_pending (rc_sessions entry)")
  case None
  show ?thesis
  proof (cases "analysis (rc_sessions entry)")
    case n: None
    then show ?thesis
      using None m s by (intro that [where ses = "rc_sessions entry" and xs = "[]"]) (auto simp: retry_sessions_def)
  next
    case (Some a)
    with s obtain url where u: "ek_analysis_url (rc_key entry) = Some url" by (auto simp: sessions_ok_def)
    define ses where "ses = (rc_sessions entry)\<lparr>analysis := Some (a\<lparr>as_registered := ev_analysis_ok e (cam_id cam)\<rparr>)\<rparr>"
    show ?thesis
      by (rule that [where ses = ses and xs = "[Analysis_Set (cam_id cam) (Some url) (in_max_fps (cam_ingest cam))
             (ek_dims (rc_key entry)) (as_codec a) (ev_analysis_ok e (cam_id cam))]"])
        (use None Some u m s in \<open>auto simp: retry_sessions_def ses_def emit_def Let_def sessions_ok_def\<close>)
  qed
next
  case (Some c)
  with s have a: "analysis (rc_sessions entry) = None" by (auto simp: sessions_ok_def)
  define x where "x = Ingester_Added (cam_id cam) (ek_url (rc_key entry)) (ra_pre_roll_secs args) (in_max_fps (cam_ingest cam))
    (ek_dims (rc_key entry)) c (ev_add_ok e (cam_id cam))"
  show ?thesis
  proof (cases "ev_add_ok e (cam_id cam)")
    case True
    show ?thesis
      by (rule that [where ses = "(rc_sessions entry)\<lparr>main_pending := None\<rparr>"
            and xs = "[x, Codec_Pinned (cam_id cam) (in_codec (cam_ingest cam))]"])
        (use Some a m s True in \<open>auto simp: retry_sessions_def x_def emit_def Let_def sessions_ok_def split: option.splits\<close>)
  next
    case False
    show ?thesis
      by (rule that [where ses = "rc_sessions entry" and xs = "[x]"])
        (use Some a m s False in \<open>auto simp: retry_sessions_def x_def emit_def Let_def sessions_ok_def split: option.splits\<close>)
  qed
qed

lemma stop_camera_cases:
  obtains xs where
    "own_effects i xs" "filter supervises xs = []"
    "stop_camera e i w =
       (case map_of (handles w) i of
          None \<Rightarrow> w\<lparr>effects := effects w @ xs\<rparr>
        | Some entry \<Rightarrow>
            w\<lparr>stop_sent := stop_sent w @ [rc_task entry], handles := AList.delete i (handles w),
              effects := effects w @ Supervisor_Stopped i (rc_task entry) (ev_stops e (rc_task entry)) # xs\<rparr>)"
  by (rule that [where xs = "[Ingester_Removed i, Analysis_Set i None 0 (0, 0) H264 (ev_analysis_ok e i), State_Cleared i]"])
    (auto simp: stop_camera_def emit_def Let_def split: option.splits)

section \<open>The invariant\<close>

definition rc_inv :: "rc_world \<Rightarrow> bool" where
  "rc_inv w \<longleftrightarrow>
     distinct (map fst (handles w))
     \<and> running_supervisors (effects w) = (\<lambda>(i, entry). (i, rc_task entry)) ` set (handles w)
     \<and> distinct (map (rc_task \<circ> snd) (handles w))
     \<and> (\<forall>(i, entry) \<in> set (handles w). rc_task entry < next_task w \<and> rc_task entry \<notin> set (stop_sent w)
          \<and> sessions_ok (rc_key entry) (rc_sessions entry))
     \<and> (\<forall>t \<in> set (stop_sent w). t < next_task w)"

lemma inv_quiet: "rc_inv w \<Longrightarrow> filter supervises xs = [] \<Longrightarrow> rc_inv (w\<lparr>effects := effects w @ xs\<rparr>)"
  by (simp add: rc_inv_def)

lemma inv_stop:
  assumes "rc_inv w" shows "rc_inv (stop_camera e i w)"
proof -
  obtain xs where xs: "filter supervises xs = []"
    "stop_camera e i w =
       (case map_of (handles w) i of
          None \<Rightarrow> w\<lparr>effects := effects w @ xs\<rparr>
        | Some entry \<Rightarrow>
            w\<lparr>stop_sent := stop_sent w @ [rc_task entry], handles := AList.delete i (handles w),
              effects := effects w @ Supervisor_Stopped i (rc_task entry) (ev_stops e (rc_task entry)) # xs\<rparr>)"
    by (rule stop_camera_cases)
  show ?thesis
  proof (cases "map_of (handles w) i")
    case None
    then show ?thesis using inv_quiet [OF assms xs(1)] xs(2) by simp
  next
    case (Some entry)
    obtain as bs where h: "handles w = as @ (i, entry) # bs" "AList.delete i (handles w) = as @ bs"
      using update_present [OF _ Some] assms unfolding rc_inv_def by metis
    have r: "running_supervisors (effects (stop_camera e i w)) = running_supervisors (effects w) - {(i, rc_task entry)}"
      using Some xs by (simp add: running_append fold_replay_other)
    have f: "handles (stop_camera e i w) = as @ bs" "next_task (stop_camera e i w) = next_task w"
      "stop_sent (stop_camera e i w) = stop_sent w @ [rc_task entry]"
      using Some xs(2) h(2) by auto
    have k: "i \<notin> fst ` set (as @ bs)" and t: "\<And>j x. (j, x) \<in> set (as @ bs) \<Longrightarrow> rc_task x \<noteq> rc_task entry"
      using assms unfolding rc_inv_def h(1) by (auto simp: image_iff)
    have d: "distinct (map fst (as @ bs))" "distinct (map (rc_task \<circ> snd) (as @ bs))"
      "\<forall>t \<in> set (stop_sent w @ [rc_task entry]). t < next_task w"
      using assms unfolding rc_inv_def h(1) by auto
    have a: "\<forall>(j, x) \<in> set (as @ bs). rc_task x < next_task w \<and> rc_task x \<notin> set (stop_sent w)
        \<and> sessions_ok (rc_key x) (rc_sessions x)"
      using assms unfolding rc_inv_def h(1) by simp
    have x: "\<forall>(j, x) \<in> set (as @ bs). rc_task x < next_task w \<and> rc_task x \<notin> set (stop_sent w @ [rc_task entry])
        \<and> sessions_ok (rc_key x) (rc_sessions x)"
    proof (intro ballI, clarify)
      fix j x assume jx: "(j, x) \<in> set (as @ bs)"
      from bspec [OF a jx] t [OF jx] show "rc_task x < next_task w \<and> rc_task x \<notin> set (stop_sent w @ [rc_task entry])
        \<and> sessions_ok (rc_key x) (rc_sessions x)" by simp
    qed
    have "running_supervisors (effects w) = (\<lambda>(i, entry). (i, rc_task entry)) ` set (as @ (i, entry) # bs)"
      using assms unfolding rc_inv_def h(1) by blast
    also have "\<dots> - {(i, rc_task entry)} = (\<lambda>(i, entry). (i, rc_task entry)) ` set (as @ bs)"
      using k by force
    finally show ?thesis
      unfolding rc_inv_def r f using d x by blast
  qed
qed

lemma inv_add:
  assumes "rc_inv w" "map_of (handles w) i = None" "filter supervises xs = []" "sessions_ok k ses"
  shows "rc_inv (w\<lparr>handles := AList.update i \<lparr>rc_task = next_task w, rc_key = k, rc_sessions = ses\<rparr> (handles w),
    next_task := Suc (next_task w), effects := effects w @ xs @ [Supervisor_Spawned i (next_task w) dims top_k]\<rparr>)"
proof -
  have r: "running_supervisors (effects w @ xs @ [Supervisor_Spawned i (next_task w) dims top_k])
    = insert (i, next_task w) (running_supervisors (effects w))"
    using assms(3) by (simp add: running_append fold_replay_other)
  have k: "i \<notin> fst ` set (handles w)"
    using assms(2) by (simp add: map_of_eq_None_iff)
  have t: "next_task w \<notin> (rc_task \<circ> snd) ` set (handles w)" "next_task w \<notin> set (stop_sent w)"
    using assms(1) unfolding rc_inv_def by auto
  show ?thesis
    using assms(1,2,4) k t unfolding rc_inv_def by (auto simp: r update_absent less_Suc_eq)
qed

lemma inv_start:
  assumes "rc_inv w" "map_of (handles w) (cam_id cam) = None"
  shows "rc_inv (start_camera args e cam (wanted args cam) w)"
  by (rule start_camera_cases [of args e cam w]) (simp add: inv_add [OF assms])

lemma inv_retry:
  assumes "rc_inv w" "map_of (handles w) (cam_id cam) = Some entry"
  shows "rc_inv (retry_sessions args e cam entry w)"
proof -
  have ok: "sessions_ok (rc_key entry) (rc_sessions entry)"
    using assms by (auto simp: rc_inv_def dest: map_of_SomeD)
  obtain ses xs where s:
    "retry_sessions args e cam entry w =
       w\<lparr>handles := AList.update (cam_id cam) (entry\<lparr>rc_sessions := ses\<rparr>) (handles w), effects := effects w @ xs\<rparr>"
    "filter supervises xs = []" "sessions_ok (rc_key entry) ses"
    by (rule retry_sessions_cases [OF assms(2) ok])
  obtain as bs where h: "handles w = as @ (cam_id cam, entry) # bs"
    "AList.update (cam_id cam) (entry\<lparr>rc_sessions := ses\<rparr>) (handles w) = as @ (cam_id cam, entry\<lparr>rc_sessions := ses\<rparr>) # bs"
    using update_present [OF _ assms(2)] assms(1) unfolding rc_inv_def by metis
  show ?thesis
    using assms(1) s(2,3) unfolding s(1) h(2) rc_inv_def by (auto simp: h(1))
qed

section \<open>Operations on one camera\<close>

definition camera_log :: "camera_id \<Rightarrow> rc_world \<Rightarrow> effect list" where
  "camera_log i w = filter (\<lambda>x. effect_camera x = i) (effects w)"

text \<open>
  The contract of an operation on one camera: it keeps the invariant, it neither
  changes another camera's entry nor logs an effect on another camera, and task
  ids only grow.  \<open>pre\<close> is what it needs of the camera's entry.
\<close>

locale per_camera =
  fixes op :: "'c \<Rightarrow> rc_world \<Rightarrow> rc_world" and cid :: "'c \<Rightarrow> camera_id"
    and pre :: "'c \<Rightarrow> running_camera_entry option \<Rightarrow> bool"
  assumes keeps: "rc_inv w \<Longrightarrow> pre c (map_of (handles w) (cid c)) \<Longrightarrow> rc_inv (op c w)"
    and frame: "rc_inv w \<Longrightarrow> pre c (map_of (handles w) (cid c)) \<Longrightarrow> j \<noteq> cid c \<Longrightarrow>
                 map_of (handles (op c w)) j = map_of (handles w) j"
    and own: "rc_inv w \<Longrightarrow> pre c (map_of (handles w) (cid c)) \<Longrightarrow> j \<noteq> cid c \<Longrightarrow> camera_log j (op c w) = camera_log j w"
    and grows: "rc_inv w \<Longrightarrow> pre c (map_of (handles w) (cid c)) \<Longrightarrow> next_task w \<le> next_task (op c w)"
begin

definition ready :: "'c list \<Rightarrow> rc_world \<Rightarrow> bool" where
  "ready cs w \<longleftrightarrow> rc_inv w \<and> distinct (map cid cs) \<and> (\<forall>c \<in> set cs. pre c (map_of (handles w) (cid c)))"

lemma ready_Cons: "ready (c # cs) w \<Longrightarrow> ready cs (op c w)"
  using keeps [of w c] frame [of w c] by (auto simp: ready_def image_iff)

lemma ready_step:
  assumes "ready (c # cs) w"
  shows "j \<noteq> cid c \<Longrightarrow> map_of (handles (op c w)) j = map_of (handles w) j"
    "j \<noteq> cid c \<Longrightarrow> camera_log j (op c w) = camera_log j w" "next_task w \<le> next_task (op c w)"
  using assms frame own grows by (auto simp: ready_def)

lemma fold_keeps: "ready cs w \<Longrightarrow> rc_inv (fold op cs w)"
proof (induction cs arbitrary: w)
  case (Cons c cs)
  then show ?case using Cons.IH [OF ready_Cons [OF Cons.prems]] by simp
qed (simp add: ready_def)

lemma fold_grows: "ready cs w \<Longrightarrow> next_task w \<le> next_task (fold op cs w)"
proof (induction cs arbitrary: w)
  case (Cons c cs)
  then show ?case
    using Cons.IH [OF ready_Cons [OF Cons.prems]] ready_step(3) [OF Cons.prems] by simp
qed simp

lemma fold_others:
  "ready cs w \<Longrightarrow> j \<notin> cid ` set cs \<Longrightarrow>
   map_of (handles (fold op cs w)) j = map_of (handles w) j \<and> camera_log j (fold op cs w) = camera_log j w"
proof (induction cs arbitrary: w)
  case (Cons c cs)
  then show ?case
    using Cons.IH [OF ready_Cons [OF Cons.prems(1)]] ready_step(1,2) [OF Cons.prems(1)] by simp
qed simp

text \<open>A pass over many cameras does to each what the operation does to it alone.\<close>

lemma fold_isolates:
  assumes "ready cs w" "c \<in> set cs"
  obtains u where "rc_inv u" "pre c (map_of (handles u) (cid c))"
    "map_of (handles u) (cid c) = map_of (handles w) (cid c)" "camera_log (cid c) u = camera_log (cid c) w"
    "next_task w \<le> next_task u"
    "map_of (handles (fold op cs w)) (cid c) = map_of (handles (op c u)) (cid c)"
    "camera_log (cid c) (fold op cs w) = camera_log (cid c) (op c u)"
  using assms
proof (induction cs arbitrary: w thesis)
  case (Cons d cs)
  note r = ready_Cons [OF Cons.prems(2)] and st = ready_step [OF Cons.prems(2)]
  show ?case
  proof (cases "c = d")
    case True
    with Cons.prems(2) have "cid c \<notin> cid ` set cs" "rc_inv w" "pre c (map_of (handles w) (cid c))"
      by (auto simp: ready_def)
    then show ?thesis
      using fold_others [OF r, of "cid c"] True by (intro Cons.prems(1) [of w]) auto
  next
    case False
    with Cons.prems have c: "c \<in> set cs" "cid c \<noteq> cid d" by (auto simp: ready_def image_iff)
    obtain u where "rc_inv u" "pre c (map_of (handles u) (cid c))"
      "map_of (handles u) (cid c) = map_of (handles (op d w)) (cid c)" "camera_log (cid c) u = camera_log (cid c) (op d w)"
      "next_task (op d w) \<le> next_task u"
      "map_of (handles (fold op cs (op d w))) (cid c) = map_of (handles (op c u)) (cid c)"
      "camera_log (cid c) (fold op cs (op d w)) = camera_log (cid c) (op c u)"
      by (rule Cons.IH [OF _ r c(1)])
    then show ?thesis
      using st(1,2) [OF c(2)] st(3) by (intro Cons.prems(1) [of u]) auto
  qed
qed simp

lemma fold_invisible:
  assumes "ready cs w"
    and "\<And>c u. \<lbrakk>c \<in> set cs; rc_inv u; map_of (handles u) (cid c) = map_of (handles w) (cid c)\<rbrakk> \<Longrightarrow> f (op c u) = f u"
  shows "f (fold op cs w) = f w"
  using assms
proof (induction cs arbitrary: w)
  case (Cons c cs)
  have "f (fold op cs (op c w)) = f (op c w)"
  proof (rule Cons.IH [OF ready_Cons [OF Cons.prems(1)]])
    fix d u assume d: "d \<in> set cs" and u: "rc_inv u" "map_of (handles u) (cid d) = map_of (handles (op c w)) (cid d)"
    from d Cons.prems(1) have "cid d \<noteq> cid c" by (auto simp: ready_def image_iff)
    then have "map_of (handles u) (cid d) = map_of (handles w) (cid d)"
      using u(2) ready_step(1) [OF Cons.prems(1)] by simp
    then show "f (op d u) = f u" using Cons.prems(2) [of d u] d u(1) by simp
  qed
  moreover have "f (op c w) = f w" using Cons.prems by (simp add: ready_def)
  ultimately show ?case by simp
qed simp

end

end
