(* ===== verification/Camera_Passes.thy ===== *)
theory Camera_Passes
  imports Camera_Runtime
begin

text \<open>
  Whole passes of the reconciler: both of its loops meet the contract of
  \<open>per_camera\<close>, so a pass keeps the invariant, leaves a supervisor for every enabled
  camera and for no other, and does nothing but register again when nothing
  changed.
\<close>

definition wanted_cameras :: "rc_env \<Rightarrow> camera_config list" where
  "wanted_cameras e =
     (case ev_rows e of None \<Rightarrow> [] | Some rows \<Rightarrow> enabled_cameras (fst (list_readable_cameras (ev_decode e) rows)))"

abbreviation wanted_ids :: "rc_env \<Rightarrow> camera_id set" where
  "wanted_ids e \<equiv> cam_id ` set (wanted_cameras e)"

section \<open>The two loops\<close>

lemma camera_log_append [simp]:
  "camera_log j (w\<lparr>effects := effects w @ xs\<rparr>) = camera_log j w @ filter (\<lambda>x. effect_camera x = j) xs"
  by (simp add: camera_log_def)

lemma own_filter [simp]:
  "own_effects i xs \<Longrightarrow> filter (\<lambda>x. effect_camera x = j) xs = (if i = j then xs else [])"
  by (auto simp: own_effects_def filter_empty_conv intro: filter_True)

lemma stop_frame:
  "j \<noteq> i \<Longrightarrow> map_of (handles (stop_camera e i w)) j = map_of (handles w) j"
  "j \<noteq> i \<Longrightarrow> camera_log j (stop_camera e i w) = camera_log j w"
  "next_task (stop_camera e i w) = next_task w"
  "rc_inv w \<Longrightarrow> map_of (handles (stop_camera e i w)) i = None"
  by (rule stop_camera_cases [of i e w]; auto simp: camera_log_def delete_conv split: option.splits)+

lemma start_frame:
  assumes "w' = start_camera args e cam (wanted args cam) w"
  shows "j \<noteq> cam_id cam \<Longrightarrow> map_of (handles w') j = map_of (handles w) j"
    "j \<noteq> cam_id cam \<Longrightarrow> camera_log j w' = camera_log j w"
    "next_task w' = Suc (next_task w)"
    "\<exists>ses. map_of (handles w') (cam_id cam) = Some \<lparr>rc_task = next_task w, rc_key = wanted args cam, rc_sessions = ses\<rparr>"
  unfolding assms
  by (rule start_camera_cases [of args e cam w]; auto simp: camera_log_def update_conv)+

lemma retry_frame:
  assumes "rc_inv w" "map_of (handles w) (cam_id cam) = Some entry" and w': "w' = retry_sessions args e cam entry w"
  shows "j \<noteq> cam_id cam \<Longrightarrow> map_of (handles w') j = map_of (handles w) j"
    "j \<noteq> cam_id cam \<Longrightarrow> camera_log j w' = camera_log j w"
    "next_task w' = next_task w"
    "\<exists>ses. map_of (handles w') (cam_id cam) = Some (entry\<lparr>rc_sessions := ses\<rparr>)"
    "filter interrupts (effects w') = filter interrupts (effects w)"
    "map (\<lambda>(i, x). (i, rc_task x, rc_key x)) (handles w') = map (\<lambda>(i, x). (i, rc_task x, rc_key x)) (handles w)"
proof -
  have ok: "sessions_ok (rc_key entry) (rc_sessions entry)"
    using assms by (auto simp: rc_inv_def dest: map_of_SomeD)
  obtain ses xs where s:
    "w' = w\<lparr>handles := AList.update (cam_id cam) (entry\<lparr>rc_sessions := ses\<rparr>) (handles w), effects := effects w @ xs\<rparr>"
    "own_effects (cam_id cam) xs" "filter interrupts xs = []"
    unfolding w' by (rule retry_sessions_cases [OF assms(2) ok])
  show "j \<noteq> cam_id cam \<Longrightarrow> map_of (handles w') j = map_of (handles w) j"
    "j \<noteq> cam_id cam \<Longrightarrow> camera_log j w' = camera_log j w" "next_task w' = next_task w"
    "\<exists>ses. map_of (handles w') (cam_id cam) = Some (entry\<lparr>rc_sessions := ses\<rparr>)"
    "filter interrupts (effects w') = filter interrupts (effects w)"
    using s by (auto simp: camera_log_def update_conv)
  have "distinct (map fst (handles w))" using assms(1) by (simp add: rc_inv_def)
  then show "map (\<lambda>(i, x). (i, rc_task x, rc_key x)) (handles w') = map (\<lambda>(i, x). (i, rc_task x, rc_key x)) (handles w)"
    by (rule update_present [OF _ assms(2), where v' = "entry\<lparr>rc_sessions := ses\<rparr>"]) (simp add: s(1))
qed

interpretation removal: per_camera "remove_one e live" id "\<lambda>i entry. True" for e live
  by unfold_locales
    (auto simp: remove_one_def emit_def stop_frame inv_stop inv_quiet camera_log_def [of _ "_\<lparr>effects := _\<rparr>"] simp flip: camera_log_def)

lemma converge_cases:
  assumes "map_of current (cam_id cam) = map_of (handles w) (cam_id cam)"
  shows "(\<exists>entry. map_of (handles w) (cam_id cam) = Some entry \<and> key_eq (rc_key entry) (wanted args cam)
            \<and> \<not> ev_finished e (rc_task entry)
            \<and> converge_one args e current cam w = retry_sessions args e cam entry w)
       \<or> (\<exists>entry. map_of (handles w) (cam_id cam) = Some entry
            \<and> \<not> (key_eq (rc_key entry) (wanted args cam) \<and> \<not> ev_finished e (rc_task entry))
            \<and> converge_one args e current cam w = start_camera args e cam (wanted args cam) (stop_camera e (cam_id cam) w))
       \<or> (map_of (handles w) (cam_id cam) = None
            \<and> converge_one args e current cam w = start_camera args e cam (wanted args cam) w)"
  using assms by (cases "map_of (handles w) (cam_id cam)") (auto simp: converge_one_def Let_def)

lemma converge_frame:
  assumes "rc_inv w" "map_of current (cam_id cam) = map_of (handles w) (cam_id cam)"
    and w': "w' = converge_one args e current cam w"
  shows "rc_inv w' \<and> (\<forall>j. j \<noteq> cam_id cam \<longrightarrow> map_of (handles w') j = map_of (handles w) j \<and> camera_log j w' = camera_log j w)
    \<and> next_task w \<le> next_task w'
    \<and> (\<exists>entry. map_of (handles w') (cam_id cam) = Some entry \<and> key_eq (rc_key entry) (wanted args cam)
         \<and> (\<not> ev_finished e (rc_task entry) \<or> next_task w \<le> rc_task entry))"
  using converge_cases [OF assms(2), of args e]
proof (elim disjE exE conjE)
  fix entry assume m: "map_of (handles w) (cam_id cam) = Some entry" and k: "key_eq (rc_key entry) (wanted args cam)"
    "\<not> ev_finished e (rc_task entry)" and c: "converge_one args e current cam w = retry_sessions args e cam entry w"
  show ?thesis
    unfolding w' c using retry_frame [OF assms(1) m refl, where args = args and e = e] inv_retry [OF assms(1) m] k by force
next
  fix entry assume "converge_one args e current cam w = start_camera args e cam (wanted args cam) (stop_camera e (cam_id cam) w)"
  moreover have "rc_inv (start_camera args e cam (wanted args cam) (stop_camera e (cam_id cam) w))"
    using inv_start [OF inv_stop [OF assms(1)] stop_frame(4) [OF assms(1)]] .
  ultimately show ?thesis
    unfolding w' using start_frame [OF refl, where args = args and e = e and cam = cam and w = "stop_camera e (cam_id cam) w"] stop_frame [where i = "cam_id cam" and e = e and w = w] by force
next
  assume m: "map_of (handles w) (cam_id cam) = None" and c: "converge_one args e current cam w = start_camera args e cam (wanted args cam) w"
  show ?thesis
    unfolding w' c using start_frame [OF refl, where args = args and e = e and cam = cam and w = w] inv_start [OF assms(1) m] by force
qed

interpretation convergence: per_camera "converge_one args e current" cam_id
  "\<lambda>cam entry. map_of current (cam_id cam) = entry" for args e current
  by unfold_locales (use converge_frame in blast)+

section \<open>A pass\<close>

definition swept :: "rc_env \<Rightarrow> rc_world \<Rightarrow> rc_world" where
  "swept e w = fold (remove_one e (wanted_ids e)) (map fst (handles w))
     (w\<lparr>unreadable_cameras := (case ev_rows e of None \<Rightarrow> unreadable_cameras w | Some rows \<Rightarrow> snd (list_readable_cameras (ev_decode e) rows))\<rparr>)"

lemma reconcile_alt:
  "ev_rows e \<noteq> None \<Longrightarrow> reconcile args e w = fold (converge_one args e (handles w)) (wanted_cameras e) (swept e w)"
  by (auto simp: reconcile_def swept_def wanted_cameras_def Let_def split: prod.splits)

lemma remove_one_entry:
  "rc_inv u \<Longrightarrow> map_of (handles (remove_one e live i u)) i = (if i \<in> live then map_of (handles u) i else None)"
  "i \<in> live \<Longrightarrow> remove_one e live i u = u"
  by (auto simp: remove_one_def emit_def stop_frame)

lemma swept_frame:
  assumes "rc_inv w"
  shows "rc_inv (swept e w)" "next_task w \<le> next_task (swept e w)"
    "map_of (handles (swept e w)) i = (if i \<in> wanted_ids e then map_of (handles w) i else None)"
    "i \<in> wanted_ids e \<Longrightarrow> camera_log i (swept e w) = camera_log i w"
proof -
  define w0 where "w0 = w\<lparr>unreadable_cameras := (case ev_rows e of None \<Rightarrow> unreadable_cameras w
      | Some rows \<Rightarrow> snd (list_readable_cameras (ev_decode e) rows))\<rparr>"
  have w0: "handles w0 = handles w" "next_task w0 = next_task w" "camera_log i w0 = camera_log i w" "rc_inv w0"
    using assms by (auto simp: w0_def camera_log_def rc_inv_def)
  have sw: "swept e w = fold (remove_one e (wanted_ids e)) (map fst (handles w)) w0"
    by (simp add: swept_def w0_def)
  have r: "removal.ready (map fst (handles w)) w0"
    using assms w0(4) unfolding removal.ready_def rc_inv_def by simp
  show "rc_inv (swept e w)" "next_task w \<le> next_task (swept e w)"
    unfolding sw using removal.fold_keeps [OF r] removal.fold_grows [OF r] w0 by auto
  have "map_of (handles (swept e w)) i = (if i \<in> wanted_ids e then map_of (handles w) i else None)
    \<and> (i \<in> wanted_ids e \<longrightarrow> camera_log i (swept e w) = camera_log i w)"
  proof (cases "i \<in> set (map fst (handles w))")
    case True
    obtain u where u: "rc_inv u" "map_of (handles u) (id i) = map_of (handles w0) (id i)" "camera_log (id i) u = camera_log (id i) w0"
      "map_of (handles (swept e w)) (id i) = map_of (handles (remove_one e (wanted_ids e) i u)) (id i)"
      "camera_log (id i) (swept e w) = camera_log (id i) (remove_one e (wanted_ids e) i u)"
      unfolding sw by (rule removal.fold_isolates [OF r True])
    then show ?thesis using w0 by (simp add: remove_one_entry)
  next
    case False
    then have "map_of (handles w) i = None" by (simp add: map_of_eq_None_iff)
    then show ?thesis
      unfolding sw using removal.fold_others [OF r, of i] False w0 by simp
  qed
  then show "map_of (handles (swept e w)) i = (if i \<in> wanted_ids e then map_of (handles w) i else None)"
    "i \<in> wanted_ids e \<Longrightarrow> camera_log i (swept e w) = camera_log i w" by auto
qed

lemma swept_ready:
  assumes "rc_inv w" "distinct (map cam_id (wanted_cameras e))"
  shows "convergence.ready (handles w) (wanted_cameras e) (swept e w)"
  unfolding convergence.ready_def using assms swept_frame [OF assms(1)] by simp

lemma reconcile_keeps:
  assumes "rc_inv w" "distinct (map cam_id (wanted_cameras e))"
  shows "rc_inv (reconcile args e w)"
proof (cases "ev_rows e")
  case (Some rows)
  then show ?thesis
    using convergence.fold_keeps [OF swept_ready [OF assms]] by (simp add: reconcile_alt)
qed (use assms in \<open>simp add: reconcile_def\<close>)

lemma reconcile_converges:
  assumes "rc_inv w" "distinct (map cam_id (wanted_cameras e))" "ev_rows e \<noteq> None"
  shows "i \<notin> wanted_ids e \<Longrightarrow> map_of (handles (reconcile args e w)) i = None"
    "cam \<in> set (wanted_cameras e) \<Longrightarrow> \<exists>entry. map_of (handles (reconcile args e w)) (cam_id cam) = Some entry
       \<and> key_eq (rc_key entry) (wanted args cam) \<and> (\<not> ev_finished e (rc_task entry) \<or> next_task w \<le> rc_task entry)"
proof -
  note r = swept_ready [OF assms(1,2)] and sw = swept_frame [OF assms(1)]
  show "i \<notin> wanted_ids e \<Longrightarrow> map_of (handles (reconcile args e w)) i = None"
    using convergence.fold_others [OF r, of i] sw by (simp add: reconcile_alt [OF assms(3)])
  assume c: "cam \<in> set (wanted_cameras e)"
  obtain u where u: "rc_inv u" "map_of (handles w) (cam_id cam) = map_of (handles u) (cam_id cam)"
    "next_task (swept e w) \<le> next_task u"
    "map_of (handles (reconcile args e w)) (cam_id cam) = map_of (handles (converge_one args e (handles w) cam u)) (cam_id cam)"
    unfolding reconcile_alt [OF assms(3)] by (rule convergence.fold_isolates [OF r c])
  define w' where "w' = converge_one args e (handles w) cam u"
  from converge_frame [OF u(1,2) w'_def] obtain entry where en: "map_of (handles w') (cam_id cam) = Some entry"
    "key_eq (rc_key entry) (wanted args cam)" "\<not> ev_finished e (rc_task entry) \<or> next_task u \<le> rc_task entry"
    by auto
  from en(3) u(3) sw(2) [of e] have "\<not> ev_finished e (rc_task entry) \<or> next_task w \<le> rc_task entry" by linarith
  then show "\<exists>entry. map_of (handles (reconcile args e w)) (cam_id cam) = Some entry
       \<and> key_eq (rc_key entry) (wanted args cam) \<and> (\<not> ev_finished e (rc_task entry) \<or> next_task w \<le> rc_task entry)"
    using en(1,2) u(4) by (auto simp: w'_def)
qed

section \<open>Cameras a pass leaves alone\<close>

definition unchanged :: "reconciler_args \<Rightarrow> rc_env \<Rightarrow> rc_world \<Rightarrow> camera_config \<Rightarrow> bool" where
  "unchanged args e w cam \<longleftrightarrow>
     (case map_of (handles w) (cam_id cam) of
        None \<Rightarrow> False
      | Some entry \<Rightarrow> key_eq (rc_key entry) (wanted args cam) \<and> \<not> ev_finished e (rc_task entry))"

lemma converge_unchanged:
  assumes "rc_inv u" "map_of (handles u) (cam_id cam) = map_of (handles w) (cam_id cam)" "unchanged args e w cam"
  obtains entry where "map_of (handles w) (cam_id cam) = Some entry"
    "map_of (handles u) (cam_id cam) = Some entry"
    "converge_one args e (handles w) cam u = retry_sessions args e cam entry u"
  using assms by (auto simp: unchanged_def converge_one_def Let_def split: option.splits)

lemma interrupting_log: "filter interrupts (camera_log i w) = filter (\<lambda>x. effect_camera x = i) (filter interrupts (effects w))"
  by (auto simp: camera_log_def intro: filter_cong)

lemma reconcile_unchanged:
  assumes "rc_inv w" "distinct (map cam_id (wanted_cameras e))" "cam \<in> set (wanted_cameras e)" "unchanged args e w cam"
  obtains entry ses where "map_of (handles w) (cam_id cam) = Some entry"
    "map_of (handles (reconcile args e w)) (cam_id cam) = Some (entry\<lparr>rc_sessions := ses\<rparr>)"
    "filter interrupts (camera_log (cam_id cam) (reconcile args e w)) = filter interrupts (camera_log (cam_id cam) w)"
proof -
  have rows: "ev_rows e \<noteq> None" using assms(3) by (cases "ev_rows e") (auto simp: wanted_cameras_def)
  have i: "cam_id cam \<in> wanted_ids e" using assms(3) by simp
  note sw = swept_frame [OF assms(1), where e = e]
  obtain u where u: "rc_inv u" "map_of (handles u) (cam_id cam) = map_of (handles (swept e w)) (cam_id cam)"
    "camera_log (cam_id cam) u = camera_log (cam_id cam) (swept e w)"
    "map_of (handles (reconcile args e w)) (cam_id cam) = map_of (handles (converge_one args e (handles w) cam u)) (cam_id cam)"
    "camera_log (cam_id cam) (reconcile args e w) = camera_log (cam_id cam) (converge_one args e (handles w) cam u)"
    unfolding reconcile_alt [OF rows] by (rule convergence.fold_isolates [OF swept_ready [OF assms(1,2)] assms(3)])
  have uw: "map_of (handles u) (cam_id cam) = map_of (handles w) (cam_id cam)" using u(2) sw(3) i by simp
  obtain entry where en: "map_of (handles w) (cam_id cam) = Some entry" "map_of (handles u) (cam_id cam) = Some entry"
    "converge_one args e (handles w) cam u = retry_sessions args e cam entry u"
    by (rule converge_unchanged [OF u(1) uw assms(4)])
  define v where "v = retry_sessions args e cam entry u"
  note fr = retry_frame [OF u(1) en(2) v_def]
  from fr(5) have "filter interrupts (camera_log (cam_id cam) v) = filter interrupts (camera_log (cam_id cam) u)"
    by (simp add: interrupting_log)
  moreover from fr(4) obtain ses where "map_of (handles v) (cam_id cam) = Some (entry\<lparr>rc_sessions := ses\<rparr>)" by blast
  ultimately show ?thesis
    using u(3-5) sw(4) [OF i] en by (intro that [of entry ses]) (simp_all flip: v_def)
qed

lemma swept_nothing:
  assumes "rc_inv w" "fst ` set (handles w) \<subseteq> wanted_ids e"
  shows "swept e w = w\<lparr>unreadable_cameras := unreadable_cameras (swept e w)\<rparr>"
proof -
  have "set is \<subseteq> wanted_ids e \<Longrightarrow> fold (remove_one e (wanted_ids e)) is u = u" for "is" u
    by (induction "is" arbitrary: u) (auto simp: remove_one_entry)
  from this [of "map fst (handles w)"] assms(2) have "fold (remove_one e (wanted_ids e)) (map fst (handles w)) u = u" for u
    by simp
  then show ?thesis by (simp add: swept_def)
qed

lemma reconcile_settled:
  assumes "rc_inv w" "distinct (map cam_id (wanted_cameras e))" "fst ` set (handles w) \<subseteq> wanted_ids e"
    and "\<And>cam. cam \<in> set (wanted_cameras e) \<Longrightarrow> unchanged args e w cam"
  shows "filter interrupts (effects (reconcile args e w)) = filter interrupts (effects w)
    \<and> map (\<lambda>(i, x). (i, rc_task x, rc_key x)) (handles (reconcile args e w)) = map (\<lambda>(i, x). (i, rc_task x, rc_key x)) (handles w)"
proof (cases "ev_rows e")
  case (Some rows)
  define f where "f v = (filter interrupts (effects v), map (\<lambda>(i, x). (i, rc_task x, rc_key x)) (handles v))" for v :: rc_world
  have sw: "handles (swept e w) = handles w" "f (swept e w) = f w"
    by (subst swept_nothing [OF assms(1,3)], simp add: f_def)+
  have "f (fold (converge_one args e (handles w)) (wanted_cameras e) (swept e w)) = f (swept e w)"
  proof (rule convergence.fold_invisible [OF swept_ready [OF assms(1,2)]])
    fix cam u assume c: "cam \<in> set (wanted_cameras e)" and u: "rc_inv u"
      and m: "map_of (handles u) (cam_id cam) = map_of (handles (swept e w)) (cam_id cam)"
    obtain entry where en: "map_of (handles u) (cam_id cam) = Some entry"
      "converge_one args e (handles w) cam u = retry_sessions args e cam entry u"
      by (rule converge_unchanged [OF u m [unfolded sw(1)] assms(4) [OF c]])
    show "f (converge_one args e (handles w) cam u) = f u"
      unfolding en(2) f_def using retry_frame(5,6) [OF u en(1) refl] by simp
  qed
  then show ?thesis
    using sw(2) Some by (simp add: reconcile_alt f_def)
qed (simp add: reconcile_def)

end
