(* ===== verification/Camera_Boot.thy ===== *)
theory Camera_Boot
  imports Camera_Passes
begin

text \<open>
  Boot, and the states the engine reaches from it.  Boot meets the invariant of
  the reconciler and starts every camera for the key the first pass asks for, so
  every reachable state has exactly the supervisors its handle map names.
\<close>

section \<open>What boot registers\<close>

definition same_runtime :: "rc_world \<Rightarrow> rc_world \<Rightarrow> bool" where
  "same_runtime w w' \<longleftrightarrow> (\<exists>xs. w' = w\<lparr>effects := effects w @ xs\<rparr> \<and> filter supervises xs = [])"

lemma same_runtime_refl [simp]: "same_runtime w w"
  unfolding same_runtime_def by (rule exI [of _ "[]"]) simp

lemma same_runtime_trans: "same_runtime u v \<Longrightarrow> same_runtime v w \<Longrightarrow> same_runtime u w"
  unfolding same_runtime_def by force

lemma same_runtime_emit: "\<not> supervises x \<Longrightarrow> same_runtime w (emit x w)"
  unfolding same_runtime_def emit_def by (rule exI [of _ "[x]"]) simp

lemma same_runtime_inv: "rc_inv w \<Longrightarrow> same_runtime w w' \<Longrightarrow> rc_inv w'"
  by (auto simp: same_runtime_def inv_quiet)

lemma same_runtime_handles: "same_runtime w w' \<Longrightarrow> handles w' = handles w"
  by (auto simp: same_runtime_def)

text \<open>The boot sessions recorded for a list of cameras with distinct ids.\<close>

definition boot_ok :: "reconciler_args \<Rightarrow> camera_config list \<Rightarrow> boot_sessions \<Rightarrow> bool" where
  "boot_ok args cams b \<longleftrightarrow> (\<forall>cam \<in> set cams.
     bs_taps b (cam_id cam) \<in> {None, Some (ek_dims (wanted args cam))}
     \<and> (\<forall>s. bs_sessions b (cam_id cam) = Some s \<longrightarrow> sessions_ok (wanted args cam) s))"

definition recorded_ok :: "reconciler_args \<Rightarrow> camera_config list \<Rightarrow> (camera_id \<rightharpoonup> cam_sessions) \<Rightarrow> bool" where
  "recorded_ok args cams m \<longleftrightarrow> (\<forall>cam \<in> set cams. \<forall>s. m (cam_id cam) = Some s \<longrightarrow> sessions_ok (wanted args cam) s)"

lemma register_boot_sessions_ok:
  assumes "distinct (map cam_id cams)" "fst ` set ps \<subseteq> set cams" "register_boot_sessions e ps w = (b, w')"
  shows "same_runtime w w'" "recorded_ok args cams (bs_sessions b)" "bs_taps b = Map.empty"
proof -
  define f where "f = (\<lambda>(cam, codec, dims, ok) (m, w). case start_sessions e cam codec dims ok w of
                   (ses, w') \<Rightarrow> (m(cam_id cam \<mapsto> ses), w'))"
  have main: "fst ` set ps \<subseteq> set cams \<Longrightarrow> recorded_ok args cams m \<Longrightarrow> fold f ps (m, w) = (m', w') \<Longrightarrow>
      same_runtime w w' \<and> recorded_ok args cams m'" for ps m m' w w'
  proof (induction ps arbitrary: m w)
    case (Cons p ps)
    obtain cam codec dims ok where p: "p = (cam, codec, dims, ok)" by (cases p) auto
    obtain ses xs where s: "start_sessions e cam codec dims ok w = (ses, w\<lparr>effects := effects w @ xs\<rparr>)"
      "filter supervises xs = []"
      "analysis ses \<noteq> None \<longrightarrow> main_pending ses = None \<and> in_analysis_url (cam_ingest cam) \<noteq> None"
      by (rule start_sessions_cases)
    have c: "cam \<in> set cams" using Cons.prems(1) p by simp
    have "sessions_ok (wanted args cam) ses" using s(3) by (simp add: sessions_ok_def wanted_def)
    then have 1: "recorded_ok args cams (m(cam_id cam \<mapsto> ses))"
      using Cons.prems(2) c assms(1) by (auto simp: recorded_ok_def distinct_map dest: inj_onD)
    have 2: "fold f ps (m(cam_id cam \<mapsto> ses), w\<lparr>effects := effects w @ xs\<rparr>) = (m', w')"
      using Cons.prems(3) s(1) by (simp add: f_def p)
    have 3: "same_runtime w (w\<lparr>effects := effects w @ xs\<rparr>)"
      using s(2) by (auto simp: same_runtime_def)
    have "fst ` set ps \<subseteq> set cams" using Cons.prems(1) by simp
    from Cons.IH [OF this 1 2] show ?case using same_runtime_trans [OF 3] by blast
  qed (auto simp: recorded_ok_def)
  obtain m' w1 where fo: "fold f ps (Map.empty, w) = (m', w1)" by (cases "fold f ps (Map.empty, w)")
  then have b: "b = \<lparr>bs_sessions = m', bs_taps = Map.empty\<rparr>" "w1 = w'"
    using assms(3) by (auto simp: register_boot_sessions_def f_def)
  have "recorded_ok args cams Map.empty" by (simp add: recorded_ok_def)
  from main [OF assms(2) this fo] b
  show "same_runtime w w'" "recorded_ok args cams (bs_sessions b)" "bs_taps b = Map.empty" by auto
qed

lemma build_ingesters_ok:
  assumes "distinct (map cam_id cams)" "set cs \<subseteq> set cams" "fst ` set ps \<subseteq> set cams"
    "\<forall>cam \<in> set cams. taps (cam_id cam) \<in> {None, Some (ek_dims (wanted args cam))}"
    "fold (build_ingester args e) cs (ps, taps, w) = (ps', taps', w')"
  shows "fst ` set ps' \<subseteq> set cams \<and> (\<forall>cam \<in> set cams. taps' (cam_id cam) \<in> {None, Some (ek_dims (wanted args cam))})
    \<and> same_runtime w w'"
  using assms(2-)
proof (induction cs arbitrary: ps taps w)
  case (Cons cam cs)
  obtain ps1 taps1 w1 where o: "build_ingester args e cam (ps, taps, w) = (ps1, taps1, w1)"
    by (cases "build_ingester args e cam (ps, taps, w)") auto
  have c: "cam \<in> set cams" "set cs \<subseteq> set cams" using Cons.prems(1) by auto
  have 1: "fst ` set ps1 \<subseteq> set cams" "same_runtime w w1"
    using o c(1) Cons.prems(2) by (auto simp: build_ingester_def Let_def same_runtime_emit image_subset_iff split: if_splits)
  have 2: "taps1 = taps \<or> taps1 = taps(cam_id cam \<mapsto> ek_dims (wanted args cam))"
    using o by (auto simp: build_ingester_def Let_def wanted_def split: if_splits)
  have 3: "\<forall>cam \<in> set cams. taps1 (cam_id cam) \<in> {None, Some (ek_dims (wanted args cam))}"
  proof
    fix d assume d: "d \<in> set cams"
    show "taps1 (cam_id d) \<in> {None, Some (ek_dims (wanted args d))}"
      using 2 d c(1) Cons.prems(3) assms(1) by (cases "cam_id d = cam_id cam") (auto simp: distinct_map dest: inj_onD)
  qed
  have "fold (build_ingester args e) cs (ps1, taps1, w1) = (ps', taps', w')" using Cons.prems(4) o by simp
  from Cons.IH [OF c(2) 1(1) 3 this] show ?case using same_runtime_trans [OF 1(2)] by blast
qed auto

lemma codec_pins_same: "same_runtime w (fold (\<lambda>c. emit (Codec_Pinned (cam_id c) (in_codec (cam_ingest c)))) cs w)"
proof (induction cs arbitrary: w)
  case (Cons c cs)
  show ?case
    using same_runtime_trans [OF same_runtime_emit Cons.IH, of "Codec_Pinned (cam_id c) (in_codec (cam_ingest c))"] by simp
qed simp

lemma build_recorder_ok:
  assumes d: "distinct (map cam_id (enabled_cameras cams))" and b: "build_recorder args e kind cams w = (b, w')"
  shows "boot_ok args (enabled_cameras cams) b" "same_runtime w w'"
proof -
  have "boot_ok args (enabled_cameras cams) b \<and> same_runtime w w'"
  proof (cases kind)
    case Stub
    define ps where "ps = map (\<lambda>c. (c, case in_codec (cam_ingest c) of Some k \<Rightarrow> k | None \<Rightarrow> H264, (0 :: u32, 0 :: u32), True))
          (filter (\<lambda>c. in_enabled (cam_ingest c) \<and> in_analysis_url (cam_ingest c) \<noteq> None) cams)"
    have p: "fst ` set ps \<subseteq> set (enabled_cameras cams)" by (auto simp: ps_def enabled_cameras_def)
    have r: "register_boot_sessions e ps w = (b, w')" using b Stub by (simp add: register_stub_analysis_sessions_def ps_def)
    show ?thesis
      using register_boot_sessions_ok(1,3) [OF d p r] register_boot_sessions_ok(2) [OF d p r, of args] by (simp add: boot_ok_def recorded_ok_def)
  next
    case Gstreamer
    obtain ps taps w1 where o: "fold (build_ingester args e) (enabled_cameras cams) ([], Map.empty, w) = (ps, taps, w1)"
      by (cases "fold (build_ingester args e) (enabled_cameras cams) ([], Map.empty, w)") auto
    define w2 where "w2 = fold (\<lambda>c. emit (Codec_Pinned (cam_id c) (in_codec (cam_ingest c)))) cams w1"
    obtain b1 where b1: "register_boot_sessions e ps w2 = (b1, w')" "b = with_taps taps b1"
      using b Gstreamer o by (auto simp: build_gst_recorder_def w2_def split: prod.splits)
    have i: "fst ` set ps \<subseteq> set (enabled_cameras cams)"
      "\<forall>cam \<in> set (enabled_cameras cams). taps (cam_id cam) \<in> {None, Some (ek_dims (wanted args cam))}" "same_runtime w w1"
      using build_ingesters_ok [OF d order_refl _ _ o] by auto
    note r = register_boot_sessions_ok(1) [OF d i(1) b1(1)] register_boot_sessions_ok(2) [OF d i(1) b1(1), of args]
    have "same_runtime w w'"
      using same_runtime_trans [OF i(3) same_runtime_trans [OF codec_pins_same [of w1 cams, folded w2_def] r(1)]] .
    then show ?thesis
      using r(2) i(2) b1(2) by (simp add: boot_ok_def recorded_ok_def with_taps_def)
  qed
  then show "boot_ok args (enabled_cameras cams) b" "same_runtime w w'" by auto
qed

section \<open>What boot starts\<close>

lemma boot_camera_step:
  assumes "boot_ok args (cam # cams) b" "rc_inv w" "map_of (handles w) (cam_id cam) = None"
    "boot_camera args cam (b, w) = (b', w')"
  shows "rc_inv w'" "boot_ok args cams b'" "j \<noteq> cam_id cam \<Longrightarrow> map_of (handles w') j = map_of (handles w) j"
    "\<exists>entry. map_of (handles w') (cam_id cam) = Some entry \<and> rc_key entry = wanted args cam"
proof -
  define ses where "ses = (case bs_sessions b (cam_id cam) of Some s \<Rightarrow> s | None \<Rightarrow> \<lparr>main_pending = None, analysis = None\<rparr>)"
  have k: "(case bs_taps b (cam_id cam) of Some d \<Rightarrow> d | None \<Rightarrow> ek_dims (wanted args cam)) = ek_dims (wanted args cam)"
    using assms(1) by (auto simp: boot_ok_def)
  have ok: "sessions_ok (wanted args cam) ses"
    using assms(1) by (auto simp: boot_ok_def ses_def sessions_ok_def split: option.splits)
  define top_k where "top_k = (case Option.bind (cam_model_override cam) snd of Some k \<Rightarrow> Some k | None \<Rightarrow> ra_default_top_k args)"
  have w': "w' = w\<lparr>handles := AList.update (cam_id cam) \<lparr>rc_task = next_task w, rc_key = wanted args cam, rc_sessions = ses\<rparr> (handles w),
      next_task := Suc (next_task w), effects := effects w @ [] @ [Supervisor_Spawned (cam_id cam) (next_task w) (ek_dims (wanted args cam)) top_k]\<rparr>"
    and b': "b' = \<lparr>bs_sessions = (bs_sessions b)(cam_id cam := None), bs_taps = (bs_taps b)(cam_id cam := None)\<rparr>"
    using assms(4) by (auto simp: boot_camera_def at_boot_def Let_def spawn_supervisor_def emit_def k ses_def top_k_def)
  show "rc_inv w'" unfolding w' by (rule inv_add [OF assms(2,3) _ ok]) simp
  show "boot_ok args cams b'" using assms(1) unfolding b' by (auto simp: boot_ok_def)
  show "j \<noteq> cam_id cam \<Longrightarrow> map_of (handles w') j = map_of (handles w) j"
    "\<exists>entry. map_of (handles w') (cam_id cam) = Some entry \<and> rc_key entry = wanted args cam"
    unfolding w' by (auto simp: update_conv)
qed

lemma boot_cameras:
  assumes "boot_ok args cams b" "rc_inv w" "distinct (map cam_id cams)"
    "\<forall>cam \<in> set cams. map_of (handles w) (cam_id cam) = None" "fold (boot_camera args) cams (b, w) = (b', w')"
  shows "rc_inv w' \<and> (\<forall>j. j \<notin> cam_id ` set cams \<longrightarrow> map_of (handles w') j = map_of (handles w) j)
    \<and> (\<forall>cam \<in> set cams. \<exists>entry. map_of (handles w') (cam_id cam) = Some entry \<and> rc_key entry = wanted args cam)"
  using assms
proof (induction cams arbitrary: b w)
  case (Cons cam cams)
  obtain b1 w1 where o: "boot_camera args cam (b, w) = (b1, w1)" by (cases "boot_camera args cam (b, w)")
  have m: "map_of (handles w) (cam_id cam) = None" using Cons.prems(4) by simp
  note st = boot_camera_step [OF Cons.prems(1,2) m o]
  have 1: "\<forall>c \<in> set cams. map_of (handles w1) (cam_id c) = None"
  proof
    fix c assume c: "c \<in> set cams"
    with Cons.prems(3) have "cam_id c \<noteq> cam_id cam" by (auto simp: image_iff)
    from st(3) [OF this] c Cons.prems(4) show "map_of (handles w1) (cam_id c) = None" by simp
  qed
  have 2: "distinct (map cam_id cams)" "fold (boot_camera args) cams (b1, w1) = (b', w')" "cam_id cam \<notin> cam_id ` set cams"
    using Cons.prems(3,5) o by auto
  note ih = Cons.IH [OF st(2,1) 2(1) 1 2(2)]
  from ih 2(3) st(4) have "\<exists>entry. map_of (handles w') (cam_id cam) = Some entry \<and> rc_key entry = wanted args cam" by simp
  with ih st(3) show ?case by auto
qed simp

lemma boot_starts:
  assumes "boot args e kind = Some w" "distinct (map cam_id (wanted_cameras e))"
  shows "rc_inv w" "i \<notin> wanted_ids e \<Longrightarrow> map_of (handles w) i = None"
    "cam \<in> set (wanted_cameras e) \<Longrightarrow> \<exists>entry. map_of (handles w) (cam_id cam) = Some entry \<and> rc_key entry = wanted args cam"
proof -
  obtain rows where rows: "ev_rows e = Some rows" using assms(1) by (auto simp: boot_def split: option.splits)
  define cams where "cams = fst (list_readable_cameras (ev_decode e) rows)"
  define w0 where "w0 = \<lparr>handles = [], unreadable_cameras = snd (list_readable_cameras (ev_decode e) rows), next_task = 0, stop_sent = [], effects = []\<rparr>"
  obtain b w1 where b: "build_recorder args e kind cams w0 = (b, w1)" by (cases "build_recorder args e kind cams w0")
  have c: "wanted_cameras e = enabled_cameras cams" using rows by (simp add: wanted_cameras_def cams_def)
  obtain b' where f: "fold (boot_camera args) (enabled_cameras cams) (b, w1) = (b', w)"
    using assms(1) rows b by (auto simp: boot_def cams_def w0_def split: prod.splits) (metis prod.collapse)
  have "rc_inv w0" by (simp add: w0_def rc_inv_def running_supervisors_def)
  note r = build_recorder_ok [OF assms(2) [unfolded c] b]
  have w1: "rc_inv w1" "handles w1 = []"
    using same_runtime_inv [OF \<open>rc_inv w0\<close> r(2)] same_runtime_handles [OF r(2)] by (auto simp: w0_def)
  have "rc_inv w \<and> (\<forall>j. j \<notin> wanted_ids e \<longrightarrow> map_of (handles w) j = map_of (handles w1) j)
    \<and> (\<forall>cam \<in> set (wanted_cameras e). \<exists>entry. map_of (handles w) (cam_id cam) = Some entry \<and> rc_key entry = wanted args cam)"
    unfolding c by (rule boot_cameras [OF r(1) w1(1) assms(2) [unfolded c] _ f]) (simp add: w1(2))
  then show "rc_inv w" "i \<notin> wanted_ids e \<Longrightarrow> map_of (handles w) i = None"
    "cam \<in> set (wanted_cameras e) \<Longrightarrow> \<exists>entry. map_of (handles w) (cam_id cam) = Some entry \<and> rc_key entry = wanted args cam"
    using w1(2) by auto
qed

section \<open>Reachable states\<close>

fun wake_cameras :: "wake \<Rightarrow> camera_config list" where
  "wake_cameras (Config_Changed kind e) = wanted_cameras e"
| "wake_cameras Stream_Error = []"
| "wake_cameras (Supervise_Tick e) = wanted_cameras e"

text \<open>Camera ids are the primary key of the table, and each row holds the camera of its id.\<close>

inductive rc_reach :: "reconciler_args \<Rightarrow> rc_world \<Rightarrow> bool" for args where
  booted: "boot args e kind = Some w \<Longrightarrow> distinct (map cam_id (wanted_cameras e)) \<Longrightarrow> rc_reach args w"
| woken: "rc_reach args w \<Longrightarrow> distinct (map cam_id (wake_cameras wk)) \<Longrightarrow> rc_reach args (reconciler_step args wk w)"

lemma reach_inv: "rc_reach args w \<Longrightarrow> rc_inv w"
proof (induction rule: rc_reach.induct)
  case (booted e kind w)
  then show ?case by (rule boot_starts(1))
next
  case (woken w wk)
  then show ?case by (cases wk) (auto simp: reconcile_keeps)
qed

end
