(* ===== verification/Camera_Properties.thy ===== *)
theory Camera_Properties
  imports Camera_Boot
begin

text \<open>
  The guarantees of the camera runtime: no supervisor runs that the handle map
  does not name, a pass converges to the camera table, it leaves alone what did
  not change, a second pass and the first pass after boot restart nothing, and
  shutdown stops every supervisor.
\<close>

section \<open>A site with two cameras\<close>

definition plain_behavior :: camera_behavior where
  "plain_behavior = \<lparr>parking_lot_mode = False, anchor_ttl_secs = None, supervisor_width = Some 1280,
     detector_skip_crowded_threshold = None, detector_skip_every_n_frames = None,
     detector_downscale_crowded_threshold = None, detector_downscale_sustained_secs = None,
     detector_downscale_to_width = None, detector_downscale_to_height = None,
     supervisor_downscale_crowded_threshold = None, supervisor_downscale_sustained_secs = None,
     supervisor_upscale_clear_secs = None, supervisor_downscale_to_width = None,
     tile_enabled = None, tile_trigger = None, tile_max_per_frame = None, tile_grid = Some G2x2\<rparr>"

definition door_camera :: camera_config where
  "door_camera = \<lparr>cam_id = 1,
     cam_ingest = \<lparr>in_url = ''rtsp://door/main'', in_analysis_url = Some ''rtsp://door/sub'', in_enabled = True,
       in_max_fps = 15, in_codec = None\<rparr>,
     cam_model_override = None, cam_behavior = plain_behavior\<rparr>"

definition yard_camera :: camera_config where
  "yard_camera = \<lparr>cam_id = 2,
     cam_ingest = \<lparr>in_url = ''rtsp://yard/main'', in_analysis_url = None, in_enabled = True, in_max_fps = 10, in_codec = Some H265\<rparr>,
     cam_model_override = Some (960, Some 50), cam_behavior = plain_behavior\<lparr>parking_lot_mode := True\<rparr>\<rparr>"

definition site_args :: reconciler_args where
  "site_args = \<lparr>ra_pre_roll_secs = 5, ra_default_detector_width = 640, ra_default_top_k = Some 100\<rparr>"

text \<open>Row 3 holds a value this build cannot read; the recorder refuses what \<open>ok\<close> says it refuses.\<close>

definition site_env :: "(camera_id \<times> string) list \<Rightarrow> (camera_id \<Rightarrow> bool) \<Rightarrow> rc_env" where
  "site_env rows ok = \<lparr>ev_rows = Some rows,
     ev_decode = (\<lambda>json. if json = ''door'' then Some door_camera else if json = ''yard'' then Some yard_camera else None),
     ev_finished = (\<lambda>t. False), ev_stops = (\<lambda>t. True), ev_add_ok = ok, ev_analysis_ok = ok,
     ev_probe = (\<lambda>url. if url = ''rtsp://door/main'' then Some H264Plus else None)\<rparr>"

definition both_rows :: "(camera_id \<times> string) list" where
  "both_rows = [(1, ''door''), (2, ''yard''), (3, ''newer'')]"

lemmas site_simps = site_env_def both_rows_def wanted_cameras_def list_readable_cameras_def enabled_cameras_def
  List.map_filter_def door_camera_def yard_camera_def

lemma site_distinct:
  "distinct (map cam_id (wanted_cameras (site_env both_rows ok)))"
  "distinct (map cam_id (wanted_cameras (site_env [(2, ''yard'')] ok)))"
  by (simp_all add: site_simps)

definition site_booted :: "(camera_id \<Rightarrow> bool) \<Rightarrow> rc_world" where
  "site_booted ok = the (boot site_args (site_env both_rows ok) Gstreamer)"

lemma site_boot: "boot site_args (site_env both_rows ok) Gstreamer = Some (site_booted ok)"
  by (simp add: boot_def site_booted_def site_env_def split: prod.splits)

lemma site_reach: "rc_reach site_args (site_booted ok)"
  by (rule rc_reach.booted [OF site_boot site_distinct(1)])

section \<open>Supervisors\<close>

text \<open>
  C38. In every state the engine reaches from boot by camera changes, stream errors
  and timer passes, the supervisors that are running (spawned and neither stopped
  nor aborted, by the log of what was done) are exactly those the handle map
  names, and the map names each camera and each task once: no supervisor is
  orphaned and no camera has two.
\<close>

theorem supervisors_are_handles:
  assumes "rc_reach args w"
  shows "running_supervisors (effects w) = (\<lambda>(i, entry). (i, rc_task entry)) ` set (handles w)
    \<and> distinct (map fst (handles w)) \<and> distinct (map (rc_task \<circ> snd) (handles w))"
  using reach_inv [OF assms] by (simp add: rc_inv_def)

theorem supervisors_are_handles_witness:
  "running_supervisors (effects (site_booted (\<lambda>i. True))) = {(1, 0), (2, 1)}"
proof -
  have "map (\<lambda>(i, entry). (i, rc_task entry)) (handles (site_booted (\<lambda>i. True))) = [(1, 0), (2, 1)]" by code_simp
  then have "(\<lambda>(i, entry). (i, rc_task entry)) ` set (handles (site_booted (\<lambda>i. True))) = {(1, 0), (2, 1)}"
    by (metis list.set_map list.simps(15) empty_set)
  with supervisors_are_handles [OF site_reach, of "\<lambda>i. True"] show ?thesis by simp
qed

text \<open>
  C39. A pass that can read the camera table converges to it: afterwards the cameras
  with a supervisor are exactly the enabled cameras whose rows can be read, the key recorded
  for each equals the key of its row as \<open>key_eq\<close> compares keys (the URLs, the codec, the
  frame size and the restart fields of the behaviour block), and no supervisor is one that had
  exited: it was running at the pass, or the pass started it.  This is less than the row's
  configuration: the behaviour fields that \<open>changed_behavior_field\<close> leaves out, zones and
  detector prompts are not compared, and a supervisor keeps running with the old ones after
  they are edited.
\<close>

theorem reconcile_converges_to_table:
  assumes "rc_reach args w" "distinct (map cam_id (wanted_cameras e))" "ev_rows e \<noteq> None"
  shows "fst ` set (handles (reconcile args e w)) = wanted_ids e
    \<and> (\<forall>cam \<in> set (wanted_cameras e). \<exists>entry. map_of (handles (reconcile args e w)) (cam_id cam) = Some entry
         \<and> key_eq (rc_key entry) (wanted args cam) \<and> (\<not> ev_finished e (rc_task entry) \<or> next_task w \<le> rc_task entry))"
proof
  note conv = reconcile_converges [OF reach_inv [OF assms(1)] assms(2,3), where args = args]
  show "\<forall>cam \<in> set (wanted_cameras e). \<exists>entry. map_of (handles (reconcile args e w)) (cam_id cam) = Some entry
         \<and> key_eq (rc_key entry) (wanted args cam) \<and> (\<not> ev_finished e (rc_task entry) \<or> next_task w \<le> rc_task entry)"
    using conv(2) by blast
  have "i \<in> fst ` set (handles (reconcile args e w)) \<longleftrightarrow> i \<in> wanted_ids e" for i
    using conv(1) [of i] conv(2) by (cases "i \<in> wanted_ids e") (force simp: map_of_eq_None_iff dest: map_of_SomeD)+
  then show "fst ` set (handles (reconcile args e w)) = wanted_ids e" by blast
qed

theorem reconcile_converges_to_table_witness:
  "fst ` set (handles (reconcile site_args (site_env [(2, ''yard'')] (\<lambda>i. False)) (site_booted (\<lambda>i. True)))) = {2}"
  using reconcile_converges_to_table [OF site_reach site_distinct(2), of "\<lambda>i. False" "\<lambda>i. True"]
  by (simp add: site_simps)

text \<open>
  A camera whose supervisor is running and whose row asks for what it was
  started for is left alone by a pass, whatever else the pass does and whatever
  the recorder answers: it keeps its task and its key, and nothing that interrupts
  it (a stop, a spawn, a removed ingester, a detached substream, cleared state)
  is added to the log; at most its registrations are made again.
\<close>

lemma unchanged_camera_is_left_alone:
  assumes "rc_reach args w" "distinct (map cam_id (wanted_cameras e))" "cam \<in> set (wanted_cameras e)"
    "map_of (handles w) (cam_id cam) = Some entry" "key_eq (rc_key entry) (wanted args cam)" "\<not> ev_finished e (rc_task entry)"
  shows "map_option (\<lambda>x. (rc_task x, rc_key x)) (map_of (handles (reconcile args e w)) (cam_id cam)) = Some (rc_task entry, rc_key entry)
    \<and> filter interrupts (camera_log (cam_id cam) (reconcile args e w)) = filter interrupts (camera_log (cam_id cam) w)"
proof -
  have u: "unchanged args e w cam" using assms(4-6) by (simp add: unchanged_def)
  show ?thesis
    by (rule reconcile_unchanged [OF reach_inv [OF assms(1)] assms(2,3) u]) (use assms(4) in auto)
qed

text \<open>
  A pass is idempotent: when a later pass finds the same cameras and no
  supervisor has exited meanwhile, it interrupts no camera and keeps every task and
  key, whatever the recorder answers, so a refused registration never becomes a
  restart.
\<close>

lemma second_pass_restarts_nothing:
  assumes "rc_reach args w" "distinct (map cam_id (wanted_cameras e))" "ev_rows e \<noteq> None"
    "wanted_cameras e' = wanted_cameras e" "\<forall>(i, entry) \<in> set (handles (reconcile args e w)). \<not> ev_finished e' (rc_task entry)"
  shows "filter interrupts (effects (reconcile args e' (reconcile args e w))) = filter interrupts (effects (reconcile args e w))
    \<and> map (\<lambda>(i, x). (i, rc_task x, rc_key x)) (handles (reconcile args e' (reconcile args e w)))
      = map (\<lambda>(i, x). (i, rc_task x, rc_key x)) (handles (reconcile args e w))"
proof (rule reconcile_settled)
  note inv = reach_inv [OF assms(1)]
  note conv = reconcile_converges [OF inv assms(2,3), where args = args]
  show "rc_inv (reconcile args e w)" by (rule reconcile_keeps [OF inv assms(2)])
  show "distinct (map cam_id (wanted_cameras e'))" using assms(2,4) by simp
  show "fst ` set (handles (reconcile args e w)) \<subseteq> wanted_ids e'"
    using conv(1) assms(4) by (metis map_of_eq_None_iff subsetI)
  fix cam assume "cam \<in> set (wanted_cameras e')"
  with conv(2) [of cam] assms(4) obtain entry where
    "map_of (handles (reconcile args e w)) (cam_id cam) = Some entry" "key_eq (rc_key entry) (wanted args cam)" by auto
  then show "unchanged args e' (reconcile args e w) cam"
    using assms(5) map_of_SomeD by (fastforce simp: unchanged_def)
qed

text \<open>
  C40. Boot and the reconciler agree: the first pass after boot that finds the
  cameras boot started interrupts none of them and keeps every task, whichever
  recorder was built and whatever it refused.
\<close>

theorem first_pass_restarts_nothing:
  assumes "boot args e kind = Some w" "distinct (map cam_id (wanted_cameras e))"
    "wanted_cameras e' = wanted_cameras e" "\<forall>(i, entry) \<in> set (handles w). \<not> ev_finished e' (rc_task entry)"
  shows "fst ` set (handles w) = wanted_ids e
    \<and> filter interrupts (effects (reconcile args e' w)) = filter interrupts (effects w)
    \<and> map (\<lambda>(i, x). (i, rc_task x, rc_key x)) (handles (reconcile args e' w)) = map (\<lambda>(i, x). (i, rc_task x, rc_key x)) (handles w)"
proof
  note b = boot_starts [OF assms(1,2)]
  have "i \<in> fst ` set (handles w) \<longleftrightarrow> i \<in> wanted_ids e" for i
    using b(2) [of i] b(3) by (cases "i \<in> wanted_ids e") (force simp: map_of_eq_None_iff dest: map_of_SomeD)+
  then show k: "fst ` set (handles w) = wanted_ids e" by blast
  show "filter interrupts (effects (reconcile args e' w)) = filter interrupts (effects w)
    \<and> map (\<lambda>(i, x). (i, rc_task x, rc_key x)) (handles (reconcile args e' w)) = map (\<lambda>(i, x). (i, rc_task x, rc_key x)) (handles w)"
  proof (rule reconcile_settled [OF b(1)])
    show "distinct (map cam_id (wanted_cameras e'))" "fst ` set (handles w) \<subseteq> wanted_ids e'" using assms(2,3) k by auto
    fix cam assume "cam \<in> set (wanted_cameras e')"
    with b(3) [of cam] assms(3) obtain entry where
      "map_of (handles w) (cam_id cam) = Some entry" "rc_key entry = wanted args cam" by auto
    then show "unchanged args e' w cam"
      using assms(4) map_of_SomeD by (fastforce simp: unchanged_def)
  qed
qed

theorem first_pass_restarts_nothing_witness:
  "filter interrupts (effects (reconcile site_args (site_env both_rows (\<lambda>i. True)) (site_booted (\<lambda>i. i = 2))))
   = filter interrupts (effects (site_booted (\<lambda>i. i = 2)))"
  using first_pass_restarts_nothing [OF site_boot site_distinct(1), of "site_env both_rows (\<lambda>i. True)" "\<lambda>i. i = 2"]
  by (simp add: site_env_def wanted_cameras_def)

section \<open>Shutdown and health\<close>

lemma drain_effects:
  "effects (drain_supervisors w) = effects w @ map (\<lambda>(i, entry). Supervisor_Stopped i (rc_task entry) False) (handles w)"
proof -
  have "effects (fold (\<lambda>(i, entry). emit (Supervisor_Stopped i (rc_task entry) False)) ps v)
      = effects v @ map (\<lambda>(i, entry). Supervisor_Stopped i (rc_task entry) False) ps" for ps and v :: rc_world
    by (induction ps arbitrary: v) (auto simp: emit_def)
  then show ?thesis by (simp add: drain_supervisors_def)
qed

lemma replay_stops:
  "fold replay (map (\<lambda>(i, entry). Supervisor_Stopped i (rc_task entry) False) ps) S = S - (\<lambda>(i, entry). (i, rc_task entry)) ` set ps"
  by (induction ps arbitrary: S) auto

text \<open>
  Shutdown leaves no supervisor behind: after the reconciler has ended, aborting
  what the handle map holds stops every supervisor ever started, so none can open
  a clip after the recorder's own shutdown.
\<close>

lemma shutdown_stops_every_supervisor:
  assumes "rc_reach args w"
  shows "running_supervisors (effects (drain_supervisors w)) = {} \<and> handles (drain_supervisors w) = []"
proof
  show "running_supervisors (effects (drain_supervisors w)) = {}"
    using reach_inv [OF assms] by (simp add: drain_effects running_append replay_stops rc_inv_def)
  show "handles (drain_supervisors w) = []" by (simp add: drain_supervisors_def)
qed

text \<open>Between passes no entry has been asked to stop, so the health roll-up reports exactly the supervisors that ended.\<close>

lemma exited_supervisors_are_finished:
  assumes "rc_reach args w"
  shows "exited_supervisors e w = sort (map fst (filter (\<lambda>(i, entry). ev_finished e (rc_task entry)) (handles w)))"
proof -
  have "filter (\<lambda>(i, entry). exited_on_its_own e w entry) (handles w) = filter (\<lambda>(i, entry). ev_finished e (rc_task entry)) (handles w)"
    using reach_inv [OF assms] by (intro filter_cong refl) (auto simp: rc_inv_def exited_on_its_own_def)
  then show ?thesis by (simp add: exited_supervisors_def)
qed

section \<open>The supervisor frame\<close>

lemma unat_and_not_1: "unat (x AND NOT 1) = 2 * (unat x div 2)" for x :: u32
proof -
  have "x AND NOT 1 = unset_bit 0 x" by (simp add: unset_bit_eq_and_not)
  then have e: "x AND NOT 1 = 2 * (x div 2)" by (simp add: unset_bit_0)
  have "unat (x div 2) = unat x div 2" by (simp add: unat_div)
  moreover have "unat x < 4294967296" by (rule order_less_le_trans [OF unsigned_less]) simp
  then have "unat x div 2 < 2147483648" by (simp add: less_mult_imp_div_less)
  ultimately show ?thesis unfolding e using unat_mult_lem [of 2 "x div 2"] by simp
qed

text \<open>
  The frame a supervisor runs at is never narrower than its detector's input,
  and while the width times nine fits 32 bits its height is the width's 9:16,
  rounded up to an even number.
\<close>

lemma supervisor_frame_bounds:
  assumes "supervisor_dims_from override_width sup_width default_width = (fw, fh)" "unat fw * 9 < 2 ^ 32"
  shows "(case override_width of Some w \<Rightarrow> w | None \<Rightarrow> default_width) \<le> fw \<and> even (unat fh)
    \<and> unat fw * 9 div 16 \<le> unat fh \<and> unat fh \<le> unat fw * 9 div 16 + 1"
proof -
  from assms(1) have w: "(case override_width of Some w \<Rightarrow> w | None \<Rightarrow> default_width) \<le> fw"
    and h: "fh = ((fw * 9 div 16) + 1) AND NOT 1"
    by (auto simp: supervisor_dims_from_def supervisor_frame_for_def Let_def)
  have m: "unat (fw * 9) = unat fw * 9" using assms(2) unat_mult_lem [of fw 9] by simp
  have q: "unat (fw * 9 div 16) = unat fw * 9 div 16" by (simp add: unat_div m)
  have "unat fw * 9 div 16 < 4294967295" using assms(2) by simp
  with q have "unat (fw * 9 div 16 + 1) = unat fw * 9 div 16 + 1"
    using unat_add_lem [of "fw * 9 div 16" 1] by simp
  then have "unat fh = 2 * ((unat fw * 9 div 16 + 1) div 2)" unfolding h unat_and_not_1 by simp
  then show ?thesis using w by simp
qed

end
