(* ===== verification/Release.thy ===== *)
theory Release
  imports Rpc_Dispatcher Lan_Backend
begin

text \<open>
  Which release an appliance may install: the signed manifest, the digest of the tarball and
  the version rule of \<open>crates/nexus-engine/src/cloud_update.rs\<close>, and the gate of
  \<open>cloud_tunnel.rs\<close> in front of the update messages.  Ed25519, base64, SHA-256,
  \<open>tar\<close> and \<open>serde_json\<close>'s rendering of a string are the fields of \<open>release_lib\<close>; the layout of
  the signed text is written out, so that the manifest can be shown to bind what it names.
\<close>

section \<open>The assignment and its manifest\<close>

record update_assignment_payload =
  ap_actor_token :: "string option"
  ap_allow_downgrade :: "bool option"
  ap_artifact_sha256 :: string
  ap_artifact_url :: string
  ap_assignment_id :: string
  ap_channel :: string
  ap_deferral_until :: "string option"
  ap_force :: "bool option"
  ap_manifest_url :: "string option"
  ap_signature :: string
  ap_target_version :: string

record update_rollback_payload =
  rp_actor_token :: "string option"
  rp_reason :: string

text \<open>What the engine uses of its libraries.  \<open>untar\<close> reads a release tarball: its single
  top-level directory and the \<open>NEXUS_BUILD_VERSION\<close> compiled into the engine in it.\<close>

record 'key release_lib =
  rl_pem_key :: "string \<Rightarrow> 'key option"
  rl_b64_decode :: "string \<Rightarrow> bytes option"
  rl_verify_strict :: "'key \<Rightarrow> bytes \<Rightarrow> bytes \<Rightarrow> bool"
  rl_sha256 :: "string \<Rightarrow> string"
  rl_untar :: "string \<Rightarrow> (string \<times> string) option"
  rl_json_str :: "string \<Rightarrow> string"

text \<open>A compact JSON object with the keys in the order given.\<close>

definition json_field :: "(string \<Rightarrow> string) \<Rightarrow> string \<times> string \<Rightarrow> string" where
  "json_field quote kv = quote (fst kv) @ '':'' @ snd kv"

fun json_fields :: "(string \<Rightarrow> string) \<Rightarrow> (string \<times> string) list \<Rightarrow> string" where
  "json_fields quote [] = []"
| "json_fields quote [kv] = json_field quote kv"
| "json_fields quote (kv # kvs) = json_field quote kv @ '','' @ json_fields quote kvs"

definition json_object :: "(string \<Rightarrow> string) \<Rightarrow> (string \<times> string) list \<Rightarrow> string" where
  "json_object quote kvs = ''{'' @ json_fields quote kvs @ ''}''"

definition canonical_bytes :: "'key release_lib \<Rightarrow> update_assignment_payload \<Rightarrow> string" where
  "canonical_bytes lib p = json_object (rl_json_str lib)
     [(''artifact_sha256'', rl_json_str lib (ap_artifact_sha256 p)),
      (''artifact_url'', rl_json_str lib (ap_artifact_url p)),
      (''channel'', rl_json_str lib (ap_channel p)),
      (''max_wire_v'', ''1''),
      (''min_engine_version_to_apply'', ''null''),
      (''min_wire_v'', ''1''),
      (''version'', rl_json_str lib (ap_target_version p))]"

definition NEXUS_RELEASE_SIGNING_PUBKEY_V1 :: string where
  "NEXUS_RELEASE_SIGNING_PUBKEY_V1 =
     ''-----BEGIN PUBLIC KEY-----'' @ [CHR 0x0A]
     @ ''MCowBQYDK2VwAyEAN+D4ubLSbOUPt1muO03GRn4nD5OHpsUthVxR2W449OY='' @ [CHR 0x0A]
     @ ''-----END PUBLIC KEY-----'' @ [CHR 0x0A]"

text \<open>\<open>env_pem\<close> is the environment variable \<open>NEXUS_RELEASE_SIGNING_PUBKEY_PEM\<close>.\<close>

definition signing_pem :: "string option \<Rightarrow> string" where
  "signing_pem env_pem =
     (case env_pem of
        None \<Rightarrow> NEXUS_RELEASE_SIGNING_PUBKEY_V1
      | Some s \<Rightarrow> if trim_str s = [] then NEXUS_RELEASE_SIGNING_PUBKEY_V1 else s)"

definition verify_signature ::
    "'key release_lib \<Rightarrow> string option \<Rightarrow> update_assignment_payload \<Rightarrow> string + unit" where
  "verify_signature lib env_pem p =
     (let pem = signing_pem env_pem in
      if trim_str pem = [] then Inl ''signature_invalid''
      else case rl_pem_key lib pem of
             None \<Rightarrow> Inl ''signature_invalid''
           | Some key \<Rightarrow>
               (case rl_b64_decode lib (trim_str (ap_signature p)) of
                  None \<Rightarrow> Inl ''signature_invalid''
                | Some sig \<Rightarrow>
                    if length sig \<noteq> 64 then Inl ''signature_invalid''
                    else if rl_verify_strict lib key (ascii_bytes (canonical_bytes lib p)) sig then Inr ()
                    else Inl ''signature_invalid''))"

definition sha256_matches :: "'key release_lib \<Rightarrow> string \<Rightarrow> string \<Rightarrow> bool" where
  "sha256_matches lib b expected_hex \<longleftrightarrow>
     to_ascii_lowercase (hex_lower (rl_sha256 lib b)) = to_ascii_lowercase (trim_str expected_hex)"

section \<open>The version rule\<close>

definition version_part :: "string \<Rightarrow> nat option" where
  "version_part s = (if s \<noteq> [] \<and> list_all is_digit s then parse_u64 s else None)"

definition parse_version :: "string \<Rightarrow> (nat \<times> nat \<times> nat) option" where
  "parse_version v =
     (case map version_part (split_on CHR ''.'' v) of
        [Some a, Some b, Some c] \<Rightarrow> Some (a, b, c)
      | _ \<Rightarrow> None)"

fun version_less :: "nat \<times> nat \<times> nat \<Rightarrow> nat \<times> nat \<times> nat \<Rightarrow> bool" where
  "version_less (a, b, c) (a', b', c') \<longleftrightarrow> a < a' \<or> a = a' \<and> (b < b' \<or> b = b' \<and> c < c')"

definition strictly_newer :: "string \<Rightarrow> string \<Rightarrow> bool" where
  "strictly_newer running target \<longleftrightarrow>
     (case (parse_version running, parse_version target) of
        (Some r, Some t) \<Rightarrow> version_less r t
      | _ \<Rightarrow> False)"

definition tokenless_target_allowed_from :: "string \<Rightarrow> string \<Rightarrow> bool" where
  "tokenless_target_allowed_from running target \<longleftrightarrow> target = running \<or> strictly_newer running target"

section \<open>The gate of the tunnel\<close>

definition is_priviledged_role :: "string \<Rightarrow> bool" where
  "is_priviledged_role role = (role \<in> {''owner'', ''admin'', ''operator''})"

definition tunnel_actor_allowed ::
    "'key token_lib \<Rightarrow> verified_actor \<Rightarrow> system_method_policy \<Rightarrow> string \<Rightarrow> bool" where
  "tunnel_actor_allowed lib actor policy path \<longleftrightarrow>
     (let system = starts_with ''system:'' (va_sub actor) in
      if system \<and> \<not> policy_allows policy path then False
      else allows_rpc lib actor \<lparr>ec_method = ''POST'', ec_path = path\<rparr> None
             (system \<or> is_priviledged_role (va_role actor)))"

text \<open>The three refusals; the source renders them as text for its log.\<close>

datatype update_refusal = Token_Missing | Token_Invalid reject_reason | Capability_Lacking

definition verify_update_actor ::
    "'key rpc_dispatcher \<Rightarrow> int \<Rightarrow> string option \<Rightarrow> string \<Rightarrow> jti_cache \<Rightarrow>
     (update_refusal + verified_actor) \<times> jti_cache" where
  "verify_update_actor disp now token logical_path replay0 =
     (case token of
        None \<Rightarrow> (Inl Token_Missing, replay0)
      | Some t \<Rightarrow>
          (case verify (d_lib disp) (d_verifier disp) now t
                  \<lparr>ec_method = ''POST'', ec_path = logical_path\<rparr> replay0 of
             (Inl reason, replay1) \<Rightarrow> (Inl (Token_Invalid reason), replay1)
           | (Inr actor, replay1) \<Rightarrow>
               if tunnel_actor_allowed (d_lib disp) actor (d_policy disp) logical_path
               then (Inr actor, replay1)
               else (Inl Capability_Lacking, replay1)))"

text \<open>The arm for \<open>update_assignment\<close>: whether the message reaches \<open>handle_assignment\<close>.\<close>

definition admit_assignment ::
    "'key rpc_dispatcher option \<Rightarrow> int \<Rightarrow> string \<Rightarrow> update_assignment_payload \<Rightarrow> jti_cache \<Rightarrow> bool \<times> jti_cache" where
  "admit_assignment dispatcher now running p replay0 =
     (let forced = (ap_force p = Some True \<or> ap_allow_downgrade p = Some True) in
      if forced \<or> ap_actor_token p \<noteq> None
      then (case dispatcher of
              None \<Rightarrow> (False, replay0)
            | Some disp \<Rightarrow>
                (case verify_update_actor disp now (ap_actor_token p) ''update_assignment'' replay0 of
                   (Inr actor, replay1) \<Rightarrow> (True, replay1)
                 | (Inl reason, replay1) \<Rightarrow> (False, replay1)))
      else (tokenless_target_allowed_from running (ap_target_version p), replay0))"

text \<open>The arm for \<open>update_rollback\<close>; the arm for \<open>update_cancel\<close> verifies and only logs.\<close>

definition admit_rollback ::
    "'key rpc_dispatcher option \<Rightarrow> int \<Rightarrow> update_rollback_payload \<Rightarrow> jti_cache \<Rightarrow> bool \<times> jti_cache" where
  "admit_rollback dispatcher now p replay0 =
     (case dispatcher of
        None \<Rightarrow> (False, replay0)
      | Some disp \<Rightarrow>
          (case verify_update_actor disp now (rp_actor_token p) ''update_rollback'' replay0 of
             (Inr actor, replay1) \<Rightarrow> (True, replay1)
           | (Inl reason, replay1) \<Rightarrow> (False, replay1)))"

definition admit_cancel ::
    "'key rpc_dispatcher option \<Rightarrow> int \<Rightarrow> string option \<Rightarrow> jti_cache \<Rightarrow> jti_cache" where
  "admit_cancel dispatcher now token replay0 =
     (case dispatcher of
        None \<Rightarrow> replay0
      | Some disp \<Rightarrow> snd (verify_update_actor disp now token ''update_cancel'' replay0))"

section \<open>The manifest binds what it names\<close>

text \<open>
  Two assignments with the same signed text have the same digest, URL, channel and version, as long as
  the rendering of strings is self-delimiting: a rendered string is no proper prefix of another one.
\<close>

definition self_delimiting :: "(string \<Rightarrow> string) \<Rightarrow> bool" where
  "self_delimiting quote \<longleftrightarrow> (\<forall>s t r u. quote s @ r = quote t @ u \<longrightarrow> s = t \<and> r = u)"

lemma manifest_binds_release:
  assumes "self_delimiting (rl_json_str lib)" and "canonical_bytes lib p = canonical_bytes lib q"
  shows "ap_artifact_sha256 p = ap_artifact_sha256 q \<and> ap_artifact_url p = ap_artifact_url q
    \<and> ap_channel p = ap_channel q \<and> ap_target_version p = ap_target_version q"
proof -
  have cancel: "rl_json_str lib s @ r = rl_json_str lib t @ u \<longleftrightarrow> s = t \<and> r = u" for s t r u
    using assms(1) unfolding self_delimiting_def by blast
  have inj: "rl_json_str lib s = rl_json_str lib t \<longleftrightarrow> s = t" for s t
    using cancel [of s "[]" t "[]"] by simp
  show ?thesis using assms(2) by (simp add: canonical_bytes_def json_object_def json_field_def cancel inj)
qed

text \<open>The rendering of the JSON standard, with the short escapes, meets the hypothesis.\<close>

definition json_escape :: "char \<Rightarrow> string" where
  "json_escape c =
     (let n = (of_char c :: nat) in
      if n = 34 \<or> n = 92 then [char_of (92 :: nat), c]
      else if n = 8 then [char_of (92 :: nat), CHR ''b'']
      else if n = 9 then [char_of (92 :: nat), CHR ''t'']
      else if n = 10 then [char_of (92 :: nat), CHR ''n'']
      else if n = 12 then [char_of (92 :: nat), CHR ''f'']
      else if n = 13 then [char_of (92 :: nat), CHR ''r'']
      else if n < 32 then [char_of (92 :: nat)] @ ''u00'' @ [hex_digit (n div 16), hex_digit (n mod 16)]
      else [c])"

definition json_quote :: "string \<Rightarrow> string" where
  "json_quote s = [char_of (34 :: nat)] @ concat (map json_escape s) @ [char_of (34 :: nat)]"

text \<open>Reading back a quoted string; the reader is only a tool of the proof.\<close>

definition hex_value :: "char \<Rightarrow> nat" where
  "hex_value c = (let n = (of_char c :: nat) in if n < 97 then n - 48 else n - 87)"

fun json_read :: "string \<Rightarrow> string \<times> string" where
  "json_read [] = ([], [])"
| "json_read (c # r) =
     (if c = char_of (34 :: nat) then ([], r)
      else if c \<noteq> char_of (92 :: nat) then apfst (Cons c) (json_read r)
      else case r of
             [] \<Rightarrow> ([], [])
           | e # r1 \<Rightarrow>
               if e = CHR ''u'' then
                 (case r1 of
                    _ # _ # h # l # r2 \<Rightarrow> apfst (Cons (char_of (16 * hex_value h + hex_value l))) (json_read r2)
                  | _ \<Rightarrow> ([], []))
               else apfst (Cons (if e = CHR ''b'' then char_of (8 :: nat) else if e = CHR ''t'' then char_of (9 :: nat)
                      else if e = CHR ''n'' then char_of (10 :: nat) else if e = CHR ''f'' then char_of (12 :: nat)
                      else if e = CHR ''r'' then char_of (13 :: nat) else e)) (json_read r1))"

lemma hex_value_digit: "n < 16 \<Longrightarrow> hex_value (hex_digit n) = n"
  by (simp add: hex_value_def hex_digit_def)

lemma quote_chars: "char_of (34 :: nat) = CHR 0x22" "char_of (92 :: nat) = CHR 0x5C"
  by code_simp+

lemma json_read_escape: "json_read (json_escape c @ r) = apfst (Cons c) (json_read r)"
proof -
  define n where "n = (of_char c :: nat)"
  have c: "c = char_of n" by (simp add: n_def)
  consider "n \<in> {8, 9, 10, 12, 13, 34, 92}" | "n < 32" "n \<notin> {8, 9, 10, 12, 13}"
    | "32 \<le> n" "n \<noteq> 34" "n \<noteq> 92" by force
  then show ?thesis
  proof cases
    case 1
    then show ?thesis unfolding c by (auto simp: json_escape_def quote_chars)
  next
    case 2
    then have "json_escape c = [char_of (92 :: nat)] @ ''u00'' @ [hex_digit (n div 16), hex_digit (n mod 16)]"
      by (simp add: json_escape_def n_def [symmetric])
    moreover have "char_of (16 * hex_value (hex_digit (n div 16)) + hex_value (hex_digit (n mod 16))) = c"
      using 2 by (simp add: hex_value_digit c)
    ultimately show ?thesis by simp
  next
    case 3
    then have "c \<noteq> char_of (34 :: nat)" "c \<noteq> char_of (92 :: nat)" using n_def by auto
    moreover have "json_escape c = [c]" using 3 by (simp add: json_escape_def n_def [symmetric])
    ultimately show ?thesis by simp
  qed
qed

lemma json_read_quote: "json_read (tl (json_quote s @ r)) = (s, r)"
proof -
  have "json_read (concat (map json_escape s) @ char_of (34 :: nat) # r) = (s, r)"
    by (induction s) (simp_all add: json_read_escape)
  then show ?thesis by (simp add: json_quote_def)
qed

lemma json_quote_cancel: "json_quote s @ r = json_quote t @ u \<longleftrightarrow> s = t \<and> r = u"
  by (metis json_read_quote prod.inject)

lemma json_quote_self_delimiting: "self_delimiting json_quote"
  by (simp add: self_delimiting_def json_quote_cancel)

section \<open>What the gate lets through\<close>

lemma version_less_irrefl: "\<not> version_less v v"
  by (cases v) simp

lemma version_less_trans: "version_less a b \<Longrightarrow> version_less b c \<Longrightarrow> version_less a c"
  by (cases a; cases b; cases c) auto

lemma strictly_newer_trans: "strictly_newer a b \<Longrightarrow> strictly_newer b c \<Longrightarrow> strictly_newer a c"
  by (auto simp: strictly_newer_def intro: version_less_trans split: option.splits)

lemma strictly_newer_irrefl: "\<not> strictly_newer v v"
  by (auto simp: strictly_newer_def version_less_irrefl split: option.splits)

text \<open>The actor of a token that lets an update message through.\<close>

definition update_actor ::
    "'key rpc_dispatcher \<Rightarrow> string \<Rightarrow> string \<Rightarrow> bool" where
  "update_actor disp token path \<longleftrightarrow>
     (\<exists>now actor. verify_no_replay (d_lib disp) (d_verifier disp) now token \<lparr>ec_method = ''POST'', ec_path = path\<rparr> = Inr actor
        \<and> tunnel_actor_allowed (d_lib disp) actor (d_policy disp) path)"

lemma verify_update_actor_ok:
  assumes "verify_update_actor disp now token path replay0 = (Inr actor, replay1)"
  obtains t where "token = Some t" "update_actor disp t path"
proof -
  obtain t where t: "token = Some t"
    using assms by (cases token) (simp_all add: verify_update_actor_def)
  obtain a r where v: "verify (d_lib disp) (d_verifier disp) now t \<lparr>ec_method = ''POST'', ec_path = path\<rparr> replay0 = (Inr a, r)"
    using assms t
    by (cases "verify (d_lib disp) (d_verifier disp) now t \<lparr>ec_method = ''POST'', ec_path = path\<rparr> replay0")
       (auto simp: verify_update_actor_def split: sum.splits)
  have al: "tunnel_actor_allowed (d_lib disp) a (d_policy disp) path"
    using assms t v by (simp add: verify_update_actor_def split: if_splits)
  have "verify_no_replay (d_lib disp) (d_verifier disp) now t \<lparr>ec_method = ''POST'', ec_path = path\<rparr> = Inr a"
    using v by (auto simp: verify_def verify_with_request_id_def split: sum.splits prod.splits if_splits)
  with al have "update_actor disp t path" unfolding update_actor_def by blast
  with t show ?thesis by (rule that)
qed

text \<open>An assignment passes with a token of an actor who may assign updates, or, with neither
  token nor override, for the running version or a strictly newer one.\<close>

definition assignment_ok :: "'key rpc_dispatcher option \<Rightarrow> string \<Rightarrow> update_assignment_payload \<Rightarrow> bool" where
  "assignment_ok dispatcher running p \<longleftrightarrow>
     (case ap_actor_token p of
        Some t \<Rightarrow> (\<exists>disp. dispatcher = Some disp \<and> update_actor disp t ''update_assignment'')
      | None \<Rightarrow> ap_force p \<noteq> Some True \<and> ap_allow_downgrade p \<noteq> Some True
          \<and> tokenless_target_allowed_from running (ap_target_version p))"

lemma admit_assignment_ok:
  assumes "admit_assignment dispatcher now running p replay0 = (True, replay1)"
  shows "assignment_ok dispatcher running p"
proof (cases "(ap_force p = Some True \<or> ap_allow_downgrade p = Some True) \<or> ap_actor_token p \<noteq> None")
  case True
  obtain disp where d: "dispatcher = Some disp"
    using assms True by (cases dispatcher) (simp_all add: admit_assignment_def)
  then obtain actor r where "verify_update_actor disp now (ap_actor_token p) ''update_assignment'' replay0 = (Inr actor, r)"
    using assms True
    by (cases "verify_update_actor disp now (ap_actor_token p) ''update_assignment'' replay0")
       (auto simp: admit_assignment_def split: sum.splits)
  then show ?thesis by (rule verify_update_actor_ok) (simp add: assignment_ok_def d)
next
  case False
  then show ?thesis using assms by (simp add: admit_assignment_def assignment_ok_def)
qed

end
