(* ===== verification/Ota.thy ===== *)
theory Ota
  imports Release
begin

text \<open>
  The over-the-air update of an appliance: \<open>cloud_update.rs\<close>, the go-dark watchdog of
  \<open>cloud_liveness.rs\<close>, the modes \<open>apply\<close>, \<open>reflip\<close> and \<open>prune\<close> of the root-owned
  script \<open>deploy/nexus-apply-release\<close>, and the boot that ties them together in
  \<open>main.rs\<close>.

  A \<open>box\<close> is the appliance: the persisted update state, the release trees and the
  \<open>current\<close> link, the staging directory, and the running process with its liveness
  signal and its tasks.  A task is an asynchronous function stopped where it can be overtaken
  or killed: before it starts, at the download, between a write of the state and the
  privileged command it announces, inside that command (after the script has unpacked or
  checked a tree and before it flips the link; after \<open>prune\<close> has chosen what to keep and before
  it removes the rest), and in the wait for the tunnel.  The scripts are separate processes
  without a lock, so these stops interleave as freely as the others.  Every action of the
  machine runs one task to its next stop, delivers a message, passes time, or restarts the
  process, so histories interleave tasks freely and cut them off anywhere between two stops.
\<close>

section \<open>Tunnel liveness\<close>

text \<open>The clock of the process counts nanoseconds from the creation of the signal.\<close>

record tunnel_liveness =
  tl_last_ack_ms :: u64
  tl_authenticated :: bool
  tl_reflipped :: bool

definition liveness_new :: tunnel_liveness where
  "liveness_new = \<lparr>tl_last_ack_ms = 0, tl_authenticated = False, tl_reflipped = False\<rparr>"

definition mark_authenticated :: "tunnel_liveness \<Rightarrow> tunnel_liveness" where
  "mark_authenticated l = l\<lparr>tl_authenticated := True\<rparr>"

definition as_millis_u64 :: "duration \<Rightarrow> u64" where
  "as_millis_u64 d = (if d div 1000000 < 2 ^ 64 then of_nat (d div 1000000) else - 1)"

definition mark_ack :: "duration \<Rightarrow> tunnel_liveness \<Rightarrow> tunnel_liveness" where
  "mark_ack clock l = l\<lparr>tl_last_ack_ms := max (as_millis_u64 clock) 1\<rparr>"

definition heartbeat_since_boot :: "tunnel_liveness \<Rightarrow> bool" where
  "heartbeat_since_boot l \<longleftrightarrow> tl_authenticated l \<and> 0 < tl_last_ack_ms l"

definition dark_ms :: "duration \<Rightarrow> tunnel_liveness \<Rightarrow> u64" where
  "dark_ms clock l =
     (let now = as_millis_u64 clock in
      if tl_last_ack_ms l = 0 then now else sat_sub_word now (tl_last_ack_ms l))"

definition dark_window :: "u64 \<Rightarrow> duration option" where
  "dark_window hours = (if hours = 0 then None else Some (unat (hours * 3600) * 1000000000))"

section \<open>The persisted state\<close>

definition VERIFYING_SIGNATURE :: string where
  "VERIFYING_SIGNATURE = ''verifying_signature''"

definition FETCHING_ARTIFACT :: string where
  "FETCHING_ARTIFACT = ''fetching_artifact''"

definition DRAINING :: string where
  "DRAINING = ''draining''"

definition RESTARTING :: string where
  "RESTARTING = ''restarting''"

definition VERIFYING_HEALTH :: string where
  "VERIFYING_HEALTH = ''verifying_health''"

definition SUCCESS :: string where
  "SUCCESS = ''success''"

definition FAILED :: string where
  "FAILED = ''failed''"

lemmas phase_defs = VERIFYING_SIGNATURE_def FETCHING_ARTIFACT_def DRAINING_def RESTARTING_def
  VERIFYING_HEALTH_def SUCCESS_def FAILED_def

record update_state =
  us_assigned_channel :: "string option"
  us_current_version :: "string option"
  us_previous_good :: "string option"
  us_active_assignment_id :: "string option"
  us_last_phase :: "string option"
  us_last_attempt_at :: "string option"
  us_last_result :: "string option"
  us_crash_count :: u32

definition update_state_default :: update_state where
  "update_state_default =
     \<lparr>us_assigned_channel = None, us_current_version = None, us_previous_good = None,
      us_active_assignment_id = None, us_last_phase = None, us_last_attempt_at = None,
      us_last_result = None, us_crash_count = 0\<rparr>"

section \<open>The appliance\<close>

text \<open>
  A release tree is what \<open>tar\<close> left of the tarballs that were unpacked over one another in its
  directory, the last one first: all of a tarball, or a part that ends before, in or after the
  engine's binary.
\<close>

datatype cut_point = Before_Engine | In_Engine | After_Engine

datatype unpacked = Whole | Cut cut_point

type_synonym release = "(string \<times> unpacked) list"

definition unpack_onto :: "string \<Rightarrow> unpacked \<Rightarrow> release option \<Rightarrow> release" where
  "unpack_onto tarball u old = (tarball, u) # (case old of None \<Rightarrow> [] | Some layers \<Rightarrow> layers)"

record progress =
  pg_assignment_id :: string
  pg_phase :: string
  pg_pct :: "nat option"
  pg_error :: "string option"

text \<open>What the engine goes on with when a script has ended.\<close>

datatype continuation =
    After_Apply update_assignment_payload update_state
  | After_Reflip
  | After_Rollback update_state string

datatype task =
    Begin update_assignment_payload
  | Fetch update_assignment_payload update_state
  | Install update_assignment_payload update_state string
  | Apply update_assignment_payload update_state
  | Prove update_state string nat
  | Reflip string
  | Self_Rollback
  | Rollback_Flip update_state string string
  | Link string continuation
  | Prune string
  | Prune_Rest "string set"

record box =
  bx_db :: "update_state option"
  bx_replay :: jti_cache
  bx_releases :: "string \<rightharpoonup> release"
  bx_current :: string
  bx_staged :: "string option"
  bx_part :: "string option"
  bx_up :: bool
  bx_running :: string
  bx_live :: tunnel_liveness
  bx_clock :: duration
  bx_armed :: duration
  bx_tasks :: "task list"
  bx_sent :: "progress list"
  bx_scheduled :: bool

text \<open>What the process is started with and what the world answers during one action.\<close>

record 'key ota_config =
  oc_lib :: "'key release_lib"
  oc_env_pem :: "string option"
  oc_dispatcher :: "'key rpc_dispatcher option"
  oc_dark_window_hours :: u64

datatype stage_fault = Mkdir_Fails | Unlink_Fails | Create_Fails | Write_Fails nat | Rename_Fails

record applier_env =
  ae_spawned :: bool
  ae_killed_at :: "nat option"
  ae_tar_ok :: bool
  ae_cut :: cut_point
  ae_link_ok :: bool
  ae_restart_ok :: bool

record world_answers =
  an_now :: int
  an_timestamp :: string
  an_uuid :: string
  an_read_ok :: bool
  an_write_ok :: "nat \<Rightarrow> bool"
  an_preflight_ok :: bool
  an_download :: "string option"
  an_stage_fault :: "stage_fault option"
  an_applier :: applier_env
  an_enrolled :: "bool option"
  an_prune_ok :: "string \<Rightarrow> bool"
  an_discard_ok :: bool

definition read_state :: "world_answers \<Rightarrow> box \<Rightarrow> update_state" where
  "read_state an b =
     (case (an_read_ok an, bx_db b) of
        (True, Some s) \<Rightarrow> s
      | _ \<Rightarrow> update_state_default)"

text \<open>The \<open>n\<close>-th write of an action.\<close>

definition write_state :: "world_answers \<Rightarrow> nat \<Rightarrow> update_state \<Rightarrow> box \<Rightarrow> box" where
  "write_state an n s b = (if an_write_ok an n then b\<lparr>bx_db := Some s\<rparr> else b)"

definition emit_progress :: "string \<Rightarrow> string \<Rightarrow> nat option \<Rightarrow> string option \<Rightarrow> box \<Rightarrow> box" where
  "emit_progress i ph pct err b =
     b\<lparr>bx_sent := bx_sent b @ [\<lparr>pg_assignment_id = i, pg_phase = ph, pg_pct = pct, pg_error = err\<rparr>]\<rparr>"

definition spawn_task :: "task \<Rightarrow> box \<Rightarrow> box" where
  "spawn_task t b = b\<lparr>bx_tasks := bx_tasks b @ [t]\<rparr>"

record release_status =
  rs_channel :: string
  rs_current_version :: string
  rs_last_update_attempt_at :: "string option"
  rs_last_update_result :: "string option"
  rs_recording_active :: bool

definition release_status_for_heartbeat :: "world_answers \<Rightarrow> bool \<Rightarrow> box \<Rightarrow> release_status" where
  "release_status_for_heartbeat an recording_active b =
     (let s = read_state an b in
      \<lparr>rs_channel = (case us_assigned_channel s of None \<Rightarrow> ''stable'' | Some c \<Rightarrow> c),
       rs_current_version = (case us_current_version s of None \<Rightarrow> bx_running b | Some v \<Rightarrow> v),
       rs_last_update_attempt_at = us_last_attempt_at s,
       rs_last_update_result = us_last_result s,
       rs_recording_active = recording_active\<rparr>)"

definition previous_good_version :: "world_answers \<Rightarrow> box \<Rightarrow> string option" where
  "previous_good_version an b = us_previous_good (read_state an b)"

section \<open>The privileged applier\<close>

definition alnum :: "char \<Rightarrow> bool" where
  "alnum c = (let n = (of_char c :: nat) in 48 \<le> n \<and> n \<le> 57 \<or> 65 \<le> n \<and> n \<le> 90 \<or> 97 \<le> n \<and> n \<le> 122)"

definition validate_version :: "string \<Rightarrow> bool" where
  "validate_version v =
     (v \<noteq> [] \<and> alnum (hd v) \<and> list_all (\<lambda>c. alnum c \<or> c \<in> {CHR ''.'', CHR ''_'', CHR ''+'', CHR ''-''}) (tl v)
      \<and> \<not> contains_sub ''..'' v)"

datatype exit_status = Exit_Ok | Exit_Failure | Signalled | Not_Spawned

definition killed_before :: "applier_env \<Rightarrow> nat \<Rightarrow> bool" where
  "killed_before ae n = (case ae_killed_at ae of None \<Rightarrow> False | Some k \<Rightarrow> k < n)"

text \<open>The stages a kill can fall into are numbered: 0 before the extraction, 1 in it, 2 between it
  and the flip, 3 between the flip and the restart, 4 after the restart was scheduled.\<close>

text \<open>The first half of \<open>apply\<close>, up to the stop before the flip (\<open>None\<close>): the staged tarball is unpacked
  over whatever its top-level directory holds, and the target must then be a directory.\<close>

definition do_apply :: "'key release_lib \<Rightarrow> applier_env \<Rightarrow> string \<Rightarrow> box \<Rightarrow> exit_status option \<times> box" where
  "do_apply lib ae v b =
     (if killed_before ae 1 then (Some Signalled, b)
      else if \<not> validate_version v then (Some Exit_Failure, b)
      else case bx_staged b of
             None \<Rightarrow> (Some Exit_Failure, b)
           | Some tarball \<Rightarrow>
               (case rl_untar lib tarball of
                  None \<Rightarrow> (Some Exit_Failure, b)
                | Some (d, _) \<Rightarrow>
                    if killed_before ae 2 \<or> \<not> ae_tar_ok ae
                    then (Some (if killed_before ae 2 then Signalled else Exit_Failure),
                          b\<lparr>bx_releases := (bx_releases b)(d \<mapsto> unpack_onto tarball (Cut (ae_cut ae)) (bx_releases b d))\<rparr>)
                    else let b1 = b\<lparr>bx_releases := (bx_releases b)(d \<mapsto> unpack_onto tarball Whole (bx_releases b d))\<rparr> in
                         (if bx_releases b1 v = None then Some Exit_Failure else None, b1)))"

text \<open>The first half of \<open>reflip\<close>: the target must be a directory.\<close>

definition do_reflip :: "applier_env \<Rightarrow> string \<Rightarrow> box \<Rightarrow> exit_status option \<times> box" where
  "do_reflip ae v b =
     (if killed_before ae 1 then (Some Signalled, b)
      else if \<not> validate_version v \<or> bx_releases b v = None then (Some Exit_Failure, b)
      else (None, b))"

text \<open>The second half of both: the link is flipped, wherever it may now lead, then the restart of the unit
  is scheduled.\<close>

definition applier_flip_and_restart :: "applier_env \<Rightarrow> string \<Rightarrow> box \<Rightarrow> exit_status \<times> box" where
  "applier_flip_and_restart ae v b =
     (if killed_before ae 3 then (Signalled, b)
      else if \<not> ae_link_ok ae then (Exit_Failure, b)
      else let b1 = b\<lparr>bx_current := v\<rparr> in
           if killed_before ae 4 then (Signalled, b1)
           else if \<not> ae_restart_ok ae then (Exit_Failure, b1)
           else (if ae_killed_at ae = None then Exit_Ok else Signalled, b1\<lparr>bx_scheduled := True\<rparr>))"

text \<open>\<open>prune\<close> keeps the argument and the target of the link, when they are on disk, and then removes every
  other tree it finds; \<open>ok\<close> says which trees \<open>rm -rf\<close> manages to remove.\<close>

definition do_prune :: "string \<Rightarrow> box \<Rightarrow> box" where
  "do_prune v b =
     (if \<not> validate_version v then b
      else let keep = {d \<in> {v, bx_current b}. bx_releases b d \<noteq> None} in
           if keep = {} then b else spawn_task (Prune_Rest keep) b)"

definition prune_rest :: "(string \<Rightarrow> bool) \<Rightarrow> string set \<Rightarrow> box \<Rightarrow> box" where
  "prune_rest ok keep b = b\<lparr>bx_releases := (\<lambda>d. if d \<in> keep \<or> \<not> ok d then bx_releases b d else None)\<rparr>"

definition current_release_is :: "string \<Rightarrow> box \<Rightarrow> bool" where
  "current_release_is v b = (bx_current b = v)"

text \<open>How the engine reads the exit status, for \<open>apply\<close> and \<open>reflip\<close> alike.\<close>

definition applied :: "string \<Rightarrow> exit_status \<times> box \<Rightarrow> bool" where
  "applied v r = (fst r = Exit_Ok \<or> fst r = Signalled \<and> current_release_is v (snd r))"

definition discard_staged_tarball :: "world_answers \<Rightarrow> box \<Rightarrow> box" where
  "discard_staged_tarball an b = (if an_discard_ok an then b\<lparr>bx_staged := None\<rparr> else b)"

definition stage_tarball :: "stage_fault option \<Rightarrow> string \<Rightarrow> box \<Rightarrow> bool \<times> box" where
  "stage_tarball fault content b =
     (case fault of
        Some Mkdir_Fails \<Rightarrow> (False, b)
      | Some Unlink_Fails \<Rightarrow> (False, b)
      | Some Create_Fails \<Rightarrow> (False, b\<lparr>bx_staged := None, bx_part := None\<rparr>)
      | Some (Write_Fails n) \<Rightarrow> (False, b\<lparr>bx_staged := None, bx_part := Some (take n content)\<rparr>)
      | Some Rename_Fails \<Rightarrow> (False, b\<lparr>bx_staged := None, bx_part := Some content\<rparr>)
      | None \<Rightarrow> (True, b\<lparr>bx_staged := Some content, bx_part := None\<rparr>))"

section \<open>The assignment\<close>

definition failed_code :: "string \<Rightarrow> string" where
  "failed_code code = FAILED @ '':'' @ code"

definition fail_update :: "world_answers \<Rightarrow> nat \<Rightarrow> update_state \<Rightarrow> string \<Rightarrow> string \<Rightarrow> box \<Rightarrow> box" where
  "fail_update an n s i code b =
     emit_progress i FAILED None (Some (failed_code code))
       (write_state an n (s\<lparr>us_active_assignment_id := None, us_last_phase := Some FAILED,
                            us_last_result := Some (failed_code code)\<rparr>) b)"

definition handle_assignment :: "world_answers \<Rightarrow> update_assignment_payload \<Rightarrow> box \<Rightarrow> box" where
  "handle_assignment an p b =
     (let s = (read_state an b)\<lparr>us_assigned_channel := Some (ap_channel p)\<rparr> in
      if bx_running b = ap_target_version p
      then emit_progress (ap_assignment_id p) SUCCESS None None
             (write_state an 0 (s\<lparr>us_last_result := Some SUCCESS\<rparr>) b)
      else spawn_task (Begin p) (write_state an 0 s b))"

text \<open>\<open>apply_assignment\<close> up to the download.\<close>

definition begin_assignment :: "'key ota_config \<Rightarrow> world_answers \<Rightarrow> update_assignment_payload \<Rightarrow> box \<Rightarrow> box" where
  "begin_assignment cfg an p b =
     (let i = ap_assignment_id p;
          s = (read_state an b)\<lparr>us_active_assignment_id := Some i, us_last_attempt_at := Some (an_timestamp an),
                us_last_phase := Some VERIFYING_SIGNATURE\<rparr>;
          b1 = emit_progress i VERIFYING_SIGNATURE None None (write_state an 0 s b)
      in case verify_signature (oc_lib cfg) (oc_env_pem cfg) p of
           Inl code \<Rightarrow> fail_update an 1 s i code b1
         | Inr _ \<Rightarrow>
             if \<not> an_preflight_ok an then fail_update an 1 s i ''privsurface_drift'' b1
             else spawn_task (Fetch p s) (emit_progress i FETCHING_ARTIFACT (Some 0) None b1))"

text \<open>From the download to the write that commits the attempt.\<close>

definition commit_state :: "string \<Rightarrow> update_assignment_payload \<Rightarrow> update_state \<Rightarrow> update_state" where
  "commit_state running p s =
     s\<lparr>us_previous_good := Some (case us_current_version s of None \<Rightarrow> running | Some v \<Rightarrow> v),
       us_last_phase := Some RESTARTING,
       us_current_version := Some (ap_target_version p)\<rparr>"

definition fetch_artifact ::
    "'key ota_config \<Rightarrow> world_answers \<Rightarrow> update_assignment_payload \<Rightarrow> update_state \<Rightarrow> box \<Rightarrow> box" where
  "fetch_artifact cfg an p s b =
     (let i = ap_assignment_id p in
      case an_download an of
        None \<Rightarrow> fail_update an 0 s i ''artifact_unavailable'' b
      | Some content \<Rightarrow>
          if \<not> sha256_matches (oc_lib cfg) content (ap_artifact_sha256 p)
          then fail_update an 0 s i ''digest_mismatch'' b
          else let s1 = commit_state (bx_running b) p s;
                   b1 = emit_progress i DRAINING None None (emit_progress i FETCHING_ARTIFACT (Some 100) None b)
               in spawn_task (Install p s1 content)
                    (emit_progress i RESTARTING None None (write_state an 0 s1 b1)))"

text \<open>\<open>install_release\<close>: staging, then the applier; either failure takes the same path.\<close>

definition install_failed :: "world_answers \<Rightarrow> update_assignment_payload \<Rightarrow> update_state \<Rightarrow> string \<Rightarrow> box \<Rightarrow> box" where
  "install_failed an p s code b =
     fail_update an 0 (s\<lparr>us_current_version := us_previous_good s, us_last_phase := Some FAILED\<rparr>)
       (ap_assignment_id p) code (discard_staged_tarball an b)"

definition install_stage ::
    "world_answers \<Rightarrow> update_assignment_payload \<Rightarrow> update_state \<Rightarrow> string \<Rightarrow> box \<Rightarrow> box" where
  "install_stage an p s content b =
     (case stage_tarball (an_stage_fault an) content b of
        (False, b1) \<Rightarrow> install_failed an p s ''staging_failed'' b1
      | (True, b1) \<Rightarrow> spawn_task (Apply p s) b1)"

text \<open>What the engine does when the script has ended: nothing on success, else what the caller of
  \<open>install_release\<close> or \<open>flip_and_restart\<close> does with the error.\<close>

definition script_ended :: "world_answers \<Rightarrow> string \<Rightarrow> continuation \<Rightarrow> exit_status \<times> box \<Rightarrow> box" where
  "script_ended an v k r =
     (if applied v r then snd r
      else case k of
             After_Apply p s \<Rightarrow> install_failed an p s ''apply_failed'' (snd r)
           | After_Reflip \<Rightarrow> snd r
           | After_Rollback s i \<Rightarrow>
               emit_progress i FAILED None (Some (failed_code ''rollback_also_failed''))
                 (write_state an 0 (s\<lparr>us_last_result := Some (failed_code ''rollback_also_failed'')\<rparr>) (snd r)))"

text \<open>A script is spawned and runs to its end, or to the stop before the flip.\<close>

definition start_script ::
    "world_answers \<Rightarrow> string \<Rightarrow> continuation \<Rightarrow> (box \<Rightarrow> exit_status option \<times> box) \<Rightarrow> box \<Rightarrow> box" where
  "start_script an v k script b =
     (if \<not> ae_spawned (an_applier an) then script_ended an v k (Not_Spawned, b)
      else case script b of
             (None, b1) \<Rightarrow> spawn_task (Link v k) b1
           | (Some e, b1) \<Rightarrow> script_ended an v k (e, b1))"

definition install_apply ::
    "'key ota_config \<Rightarrow> world_answers \<Rightarrow> update_assignment_payload \<Rightarrow> update_state \<Rightarrow> box \<Rightarrow> box" where
  "install_apply cfg an p s b =
     start_script an (ap_target_version p) (After_Apply p s)
       (do_apply (oc_lib cfg) (an_applier an) (ap_target_version p)) b"

definition flip_and_restart :: "world_answers \<Rightarrow> string \<Rightarrow> continuation \<Rightarrow> box \<Rightarrow> box" where
  "flip_and_restart an v k b = start_script an v k (do_reflip (an_applier an) v) b"

definition link_release :: "world_answers \<Rightarrow> string \<Rightarrow> continuation \<Rightarrow> box \<Rightarrow> box" where
  "link_release an v k b = script_ended an v k (applier_flip_and_restart (an_applier an) v b)"

section \<open>Rolling back\<close>

definition rolled_back_state :: "world_answers \<Rightarrow> string \<Rightarrow> update_state \<Rightarrow> update_state" where
  "rolled_back_state an v s =
     s\<lparr>us_current_version := Some v, us_last_phase := Some RESTARTING, us_last_result := Some ''rolled_back'',
       us_last_attempt_at := Some (an_timestamp an)\<rparr>"

text \<open>\<open>reflip_to\<close>: the state is written, the flip follows in its own stop.\<close>

definition reflip_to :: "world_answers \<Rightarrow> nat \<Rightarrow> string \<Rightarrow> box \<Rightarrow> box" where
  "reflip_to an n v b = spawn_task (Reflip v) (write_state an n (rolled_back_state an v (read_state an b)) b)"

definition reflip_flip :: "world_answers \<Rightarrow> string \<Rightarrow> box \<Rightarrow> box" where
  "reflip_flip an v b = flip_and_restart an v After_Reflip b"

definition handle_rollback :: "world_answers \<Rightarrow> box \<Rightarrow> box" where
  "handle_rollback an b =
     (let s = read_state an b in
      case us_previous_good s of
        None \<Rightarrow> b
      | Some target \<Rightarrow>
          let i = (case us_active_assignment_id s of None \<Rightarrow> ''rollback-'' @ an_uuid an | Some i \<Rightarrow> i);
              s1 = rolled_back_state an target s
          in spawn_task (Rollback_Flip s1 i target)
               (emit_progress i RESTARTING None None (write_state an 0 s1 b)))"

definition rollback_flip :: "world_answers \<Rightarrow> update_state \<Rightarrow> string \<Rightarrow> string \<Rightarrow> box \<Rightarrow> box" where
  "rollback_flip an s i target b = flip_and_restart an target (After_Rollback s i) b"

section \<open>Finalising after the restart\<close>

definition TUNNEL_PROOF_WINDOW :: duration where
  "TUNNEL_PROOF_WINDOW = 600000000000"

definition finalize_pending_update :: "world_answers \<Rightarrow> box \<Rightarrow> box" where
  "finalize_pending_update an b =
     (let s = read_state an b in
      if us_last_phase s \<noteq> Some RESTARTING then b
      else
        let b0 = discard_staged_tarball an b;
            i = (case us_active_assignment_id s of None \<Rightarrow> ''recover-'' @ an_uuid an | Some i \<Rightarrow> i)
        in if us_current_version s = Some (bx_running b)
           then spawn_task (Prove s i (bx_clock b + TUNNEL_PROOF_WINDOW)) b0
           else
             let s1 = s\<lparr>us_crash_count := sat_add_word (us_crash_count s) 1\<rparr>;
                 b1 = write_state an 0 s1 b0
             in if us_crash_count s1 \<ge> 3 \<and> us_previous_good s1 \<noteq> None
                then spawn_task Self_Rollback
                       (emit_progress i FAILED None (Some (failed_code ''health_check_failed'')) b1)
                else b1)"

text \<open>After the wait: the release is blessed, or undone.\<close>

definition proof_succeeded :: "world_answers \<Rightarrow> update_state \<Rightarrow> string \<Rightarrow> box \<Rightarrow> box" where
  "proof_succeeded an s i b =
     (let b1 = emit_progress i SUCCESS None None (emit_progress i VERIFYING_HEALTH None None b);
          b2 = write_state an 0 (s\<lparr>us_active_assignment_id := None, us_last_phase := Some SUCCESS,
                 us_last_result := Some SUCCESS, us_crash_count := 0\<rparr>) b1
      in case us_previous_good s of None \<Rightarrow> b2 | Some prev \<Rightarrow> spawn_task (Prune prev) b2)"

definition proof_failed :: "world_answers \<Rightarrow> update_state \<Rightarrow> string \<Rightarrow> box \<Rightarrow> box" where
  "proof_failed an s i b =
     (let code = failed_code ''tunnel_not_reestablished'';
          b1 = emit_progress i FAILED None (Some code) b
      in case us_previous_good s of
           Some target \<Rightarrow>
             reflip_to an 1 target (write_state an 0 (s\<lparr>us_crash_count := 0, us_last_result := Some code\<rparr>) b1)
         | None \<Rightarrow> write_state an 0 (s\<lparr>us_last_phase := Some FAILED, us_last_result := Some code\<rparr>) b1)"

text \<open>One turn of the loop of \<open>await_tunnel_proof\<close>.\<close>

definition poll_proof :: "world_answers \<Rightarrow> update_state \<Rightarrow> string \<Rightarrow> nat \<Rightarrow> box \<Rightarrow> box" where
  "poll_proof an s i deadline b =
     (if heartbeat_since_boot (bx_live b) then proof_succeeded an s i b
      else if deadline \<le> bx_clock b then proof_failed an s i b
      else spawn_task (Prove s i deadline) b)"

section \<open>The watchdog\<close>

definition WATCHDOG_GRACE :: duration where
  "WATCHDOG_GRACE = 900000000000"

definition watchdog_tick :: "'key ota_config \<Rightarrow> world_answers \<Rightarrow> box \<Rightarrow> box" where
  "watchdog_tick cfg an b =
     (case dark_window (oc_dark_window_hours cfg) of
        None \<Rightarrow> b
      | Some window \<Rightarrow>
          if bx_clock b - bx_armed b < WATCHDOG_GRACE then b
          else if tl_reflipped (bx_live b) then b
          else if an_enrolled an \<noteq> Some True then b
          else if dark_ms (bx_clock b) (bx_live b) < as_millis_u64 window then b
          else let b1 = b\<lparr>bx_live := (bx_live b)\<lparr>tl_reflipped := True\<rparr>\<rparr> in
               case previous_good_version an b of
                 None \<Rightarrow> b1
               | Some previous \<Rightarrow> reflip_to an 0 previous b1)"

section \<open>Boot, and the machine\<close>

text \<open>The restart of the unit starts the engine of the tree the link points at; a box whose link
  leads to no tree with an engine has nothing to start and stays down.\<close>

fun engine_in :: "'key release_lib \<Rightarrow> release \<Rightarrow> string option" where
  "engine_in lib [] = None"
| "engine_in lib ((tarball, Cut Before_Engine) # layers) = engine_in lib layers"
| "engine_in lib ((tarball, Cut In_Engine) # layers) = None"
| "engine_in lib ((tarball, u) # layers) = map_option snd (rl_untar lib tarball)"

definition engine_of :: "'key release_lib \<Rightarrow> release option \<Rightarrow> string option" where
  "engine_of lib r = Option.bind r (engine_in lib)"

definition boot_process :: "string \<Rightarrow> duration \<Rightarrow> box \<Rightarrow> box" where
  "boot_process v startup b =
     b\<lparr>bx_up := True, bx_running := v, bx_replay := jti_new, bx_live := liveness_new, bx_clock := startup, bx_armed := startup,
       bx_tasks := [], bx_scheduled := False\<rparr>"

definition boot_box :: "'key ota_config \<Rightarrow> world_answers \<Rightarrow> duration \<Rightarrow> box \<Rightarrow> box" where
  "boot_box cfg an startup b =
     (case engine_of (oc_lib cfg) (bx_releases b (bx_current b)) of
        None \<Rightarrow> b\<lparr>bx_up := False, bx_tasks := [], bx_scheduled := False\<rparr>
      | Some v \<Rightarrow> finalize_pending_update an (boot_process v startup b))"

definition run_task :: "'key ota_config \<Rightarrow> world_answers \<Rightarrow> task \<Rightarrow> box \<Rightarrow> box" where
  "run_task cfg an t b =
     (case t of
        Begin p \<Rightarrow> begin_assignment cfg an p b
      | Fetch p s \<Rightarrow> fetch_artifact cfg an p s b
      | Install p s content \<Rightarrow> install_stage an p s content b
      | Apply p s \<Rightarrow> install_apply cfg an p s b
      | Prove s i deadline \<Rightarrow> poll_proof an s i deadline b
      | Reflip v \<Rightarrow> reflip_flip an v b
      | Self_Rollback \<Rightarrow> handle_rollback an b
      | Rollback_Flip s i target \<Rightarrow> rollback_flip an s i target b
      | Link v k \<Rightarrow> link_release an v k b
      | Prune v \<Rightarrow> do_prune v b
      | Prune_Rest keep \<Rightarrow> prune_rest (an_prune_ok an) keep b)"

definition drop_nth :: "nat \<Rightarrow> 'a list \<Rightarrow> 'a list" where
  "drop_nth n xs = take n xs @ drop (Suc n) xs"

definition step_task :: "'key ota_config \<Rightarrow> world_answers \<Rightarrow> nat \<Rightarrow> box \<Rightarrow> box" where
  "step_task cfg an n b =
     (if n < length (bx_tasks b)
      then run_task cfg an (bx_tasks b ! n) (b\<lparr>bx_tasks := drop_nth n (bx_tasks b)\<rparr>)
      else b)"

definition on_update_assignment ::
    "'key ota_config \<Rightarrow> world_answers \<Rightarrow> update_assignment_payload \<Rightarrow> box \<Rightarrow> box" where
  "on_update_assignment cfg an p b =
     (let (ok, replay1) = admit_assignment (oc_dispatcher cfg) (an_now an) (bx_running b) p (bx_replay b);
          b1 = b\<lparr>bx_replay := replay1\<rparr>
      in if ok then handle_assignment an p b1 else b1)"

definition on_update_rollback ::
    "'key ota_config \<Rightarrow> world_answers \<Rightarrow> update_rollback_payload \<Rightarrow> box \<Rightarrow> box" where
  "on_update_rollback cfg an p b =
     (let (ok, replay1) = admit_rollback (oc_dispatcher cfg) (an_now an) p (bx_replay b);
          b1 = b\<lparr>bx_replay := replay1\<rparr>
      in if ok then handle_rollback an b1 else b1)"

definition on_update_cancel :: "'key ota_config \<Rightarrow> world_answers \<Rightarrow> string option \<Rightarrow> box \<Rightarrow> box" where
  "on_update_cancel cfg an token b =
     b\<lparr>bx_replay := admit_cancel (oc_dispatcher cfg) (an_now an) token (bx_replay b)\<rparr>"

text \<open>\<open>Power_Loss\<close> restarts the box out of a running privileged command: the effects of the
  script up to the stage where it was cut stay, the code after it never runs.\<close>

datatype action =
    Assignment update_assignment_payload
  | Rollback update_rollback_payload
  | Cancel "string option"
  | Run nat
  | Watchdog
  | Authenticated
  | Heartbeat_Ack
  | Elapse nat
  | Restart nat
  | Power_Loss nat nat

definition cut_command :: "'key ota_config \<Rightarrow> world_answers \<Rightarrow> task \<Rightarrow> box \<Rightarrow> box" where
  "cut_command cfg an t b =
     (case t of
        Apply p s \<Rightarrow>
          if ae_spawned (an_applier an) then snd (do_apply (oc_lib cfg) (an_applier an) (ap_target_version p) b) else b
      | Link v k \<Rightarrow> snd (applier_flip_and_restart (an_applier an) v b)
      | Prune_Rest keep \<Rightarrow> prune_rest (an_prune_ok an) keep b
      | _ \<Rightarrow> b)"

definition process_step :: "'key ota_config \<Rightarrow> world_answers \<Rightarrow> action \<Rightarrow> box \<Rightarrow> box" where
  "process_step cfg an ac b =
     (case ac of
        Assignment p \<Rightarrow> on_update_assignment cfg an p b
      | Rollback p \<Rightarrow> on_update_rollback cfg an p b
      | Cancel token \<Rightarrow> on_update_cancel cfg an token b
      | Run n \<Rightarrow> step_task cfg an n b
      | Watchdog \<Rightarrow> watchdog_tick cfg an b
      | Authenticated \<Rightarrow> b\<lparr>bx_live := mark_authenticated (bx_live b)\<rparr>
      | Heartbeat_Ack \<Rightarrow> b\<lparr>bx_live := mark_ack (bx_clock b) (bx_live b)\<rparr>
      | Elapse d \<Rightarrow> b\<lparr>bx_clock := bx_clock b + d\<rparr>
      | Restart startup \<Rightarrow> boot_box cfg an startup b
      | Power_Loss n startup \<Rightarrow>
          boot_box cfg an startup
            (if n < length (bx_tasks b) then cut_command cfg an (bx_tasks b ! n) b else b))"

text \<open>A box that is down only reacts to being switched on again.\<close>

definition ota_step :: "'key ota_config \<Rightarrow> world_answers \<times> action \<Rightarrow> box \<Rightarrow> box" where
  "ota_step cfg ev b =
     (case ev of (an, ac) \<Rightarrow>
        if bx_up b then process_step cfg an ac b
        else case ac of Restart startup \<Rightarrow> boot_box cfg an startup b | _ \<Rightarrow> b)"

definition ota_run :: "'key ota_config \<Rightarrow> (world_answers \<times> action) list \<Rightarrow> box \<Rightarrow> box" where
  "ota_run cfg evs b = fold (ota_step cfg) evs b"

end
