(* ===== verification/Ota_Safety.thy ===== *)
theory Ota_Safety
  imports Ota
begin

text \<open>
  What every history of the update machine keeps: only signed releases reach the disk, and no
  update is pending that the gate of the tunnel did not let through.
\<close>

section \<open>The invariant\<close>

definition signed_manifest :: "'key ota_config \<Rightarrow> update_assignment_payload \<Rightarrow> bool" where
  "signed_manifest cfg p \<longleftrightarrow> verify_signature (oc_lib cfg) (oc_env_pem cfg) p = Inr ()"

definition vouched :: "'key ota_config \<Rightarrow> string \<Rightarrow> bool" where
  "vouched cfg content \<longleftrightarrow>
     (\<exists>p. signed_manifest cfg p \<and> sha256_matches (oc_lib cfg) content (ap_artifact_sha256 p))"

text \<open>Every layer of a tree left the factory with it, or was unpacked from a vouched tarball for its directory.\<close>

definition layer_ok :: "'key ota_config \<Rightarrow> (string \<rightharpoonup> release) \<Rightarrow> string \<Rightarrow> string \<times> unpacked \<Rightarrow> bool" where
  "layer_ok cfg factory d l \<longleftrightarrow>
     (\<exists>r. factory d = Some r \<and> l \<in> set r)
     \<or> vouched cfg (fst l) \<and> (\<exists>v. rl_untar (oc_lib cfg) (fst l) = Some (d, v))"

definition release_ok :: "'key ota_config \<Rightarrow> (string \<rightharpoonup> release) \<Rightarrow> string \<Rightarrow> release \<Rightarrow> bool" where
  "release_ok cfg factory d r \<longleftrightarrow> (\<forall>l \<in> set r. layer_ok cfg factory d l)"

text \<open>A pending update was admitted for the process that runs it, and is as verified as its stop says.\<close>

definition update_admitted :: "'key ota_config \<Rightarrow> string \<Rightarrow> update_assignment_payload \<Rightarrow> bool" where
  "update_admitted cfg running p \<longleftrightarrow> assignment_ok (oc_dispatcher cfg) running p \<and> ap_target_version p \<noteq> running"

fun task_ok :: "'key ota_config \<Rightarrow> string \<Rightarrow> task \<Rightarrow> bool" where
  "task_ok cfg running (Begin p) = update_admitted cfg running p"
| "task_ok cfg running (Fetch p s) = (update_admitted cfg running p \<and> signed_manifest cfg p)"
| "task_ok cfg running (Install p s content) =
     (update_admitted cfg running p \<and> signed_manifest cfg p
      \<and> sha256_matches (oc_lib cfg) content (ap_artifact_sha256 p))"
| "task_ok cfg running (Apply p s) = (update_admitted cfg running p \<and> signed_manifest cfg p)"
| "task_ok cfg running (Link v (After_Apply p s)) = (update_admitted cfg running p \<and> signed_manifest cfg p)"
| "task_ok cfg running _ = True"

definition ota_inv :: "'key ota_config \<Rightarrow> (string \<rightharpoonup> release) \<Rightarrow> box \<Rightarrow> bool" where
  "ota_inv cfg factory b \<longleftrightarrow>
     (\<forall>d r. bx_releases b d = Some r \<longrightarrow> release_ok cfg factory d r)
     \<and> (\<forall>content. bx_staged b = Some content \<longrightarrow> vouched cfg content)
     \<and> (\<forall>t \<in> set (bx_tasks b). task_ok cfg (bx_running b) t)"

section \<open>What the small operations keep\<close>

lemma running_kept [simp]:
  "bx_running (write_state an n s b) = bx_running b" "bx_running (emit_progress i ph pct err b) = bx_running b"
  "bx_running (spawn_task t b) = bx_running b" "bx_running (discard_staged_tarball an b) = bx_running b"
  by (simp_all add: write_state_def emit_progress_def spawn_task_def discard_staged_tarball_def)

lemma inv_write [simp]: "ota_inv cfg factory (write_state an n s b) = ota_inv cfg factory b"
  by (simp add: ota_inv_def write_state_def)

lemma inv_emit [simp]: "ota_inv cfg factory (emit_progress i ph pct err b) = ota_inv cfg factory b"
  by (simp add: ota_inv_def emit_progress_def)

lemma inv_spawn [simp]:
  "ota_inv cfg factory (spawn_task t b) \<longleftrightarrow> ota_inv cfg factory b \<and> task_ok cfg (bx_running b) t"
  by (auto simp: ota_inv_def spawn_task_def)

lemma inv_discard: "ota_inv cfg factory b \<Longrightarrow> ota_inv cfg factory (discard_staged_tarball an b)"
  by (simp add: ota_inv_def discard_staged_tarball_def)

lemma inv_fail [simp]: "ota_inv cfg factory (fail_update an n s i code b) = ota_inv cfg factory b"
  by (simp add: fail_update_def)

lemma inv_live [simp]:
  "ota_inv cfg factory (b\<lparr>bx_live := l\<rparr>) = ota_inv cfg factory b"
  "ota_inv cfg factory (b\<lparr>bx_replay := r\<rparr>) = ota_inv cfg factory b"
  "ota_inv cfg factory (b\<lparr>bx_clock := c\<rparr>) = ota_inv cfg factory b"
  "ota_inv cfg factory (b\<lparr>bx_scheduled := x\<rparr>) = ota_inv cfg factory b"
  "ota_inv cfg factory (b\<lparr>bx_part := y\<rparr>) = ota_inv cfg factory b"
  by (simp_all add: ota_inv_def)

lemma inv_flip [simp]: "ota_inv cfg factory (b\<lparr>bx_current := v\<rparr>) = ota_inv cfg factory b"
  by (simp add: ota_inv_def)

lemma inv_extract:
  assumes "ota_inv cfg factory b" and "release_ok cfg factory d r"
  shows "ota_inv cfg factory (b\<lparr>bx_releases := (bx_releases b)(d \<mapsto> r)\<rparr>)"
  using assms by (auto simp: ota_inv_def)

lemma release_ok_unpack:
  assumes "ota_inv cfg factory b" "vouched cfg tarball" "rl_untar (oc_lib cfg) tarball = Some (d, v)"
  shows "release_ok cfg factory d (unpack_onto tarball u (bx_releases b d))"
proof -
  have "layer_ok cfg factory d (tarball, u)" using assms(2,3) by (auto simp: layer_ok_def)
  moreover have "layer_ok cfg factory d l" if "bx_releases b d = Some r" "l \<in> set r" for r l
    using assms(1) that unfolding ota_inv_def release_ok_def by blast
  ultimately show ?thesis by (cases "bx_releases b d") (auto simp: release_ok_def unpack_onto_def)
qed

lemma inv_applier_flip: "ota_inv cfg factory b \<Longrightarrow> ota_inv cfg factory (snd (applier_flip_and_restart ae v b))"
  by (simp add: applier_flip_and_restart_def Let_def)

lemma inv_do_apply:
  assumes "ota_inv cfg factory b"
  shows "ota_inv cfg factory (snd (do_apply (oc_lib cfg) ae v b))"
proof (cases "bx_staged b")
  case None
  with assms show ?thesis by (simp add: do_apply_def)
next
  case (Some content)
  then have "vouched cfg content" using assms by (simp add: ota_inv_def)
  then show ?thesis using assms Some
    by (auto simp: do_apply_def Let_def split: option.splits intro!: inv_extract release_ok_unpack)
qed

lemma inv_do_prune: "ota_inv cfg factory b \<Longrightarrow> ota_inv cfg factory (do_prune v b)"
  by (simp add: do_prune_def Let_def)

lemma inv_prune_rest: "ota_inv cfg factory b \<Longrightarrow> ota_inv cfg factory (prune_rest ok keep b)"
  by (simp add: prune_rest_def ota_inv_def)

section \<open>What the handlers keep\<close>

lemma inv_reflip_to [simp]: "ota_inv cfg factory (reflip_to an n v b) = ota_inv cfg factory b"
  by (simp add: reflip_to_def)

lemma inv_handle_rollback: "ota_inv cfg factory b \<Longrightarrow> ota_inv cfg factory (handle_rollback an b)"
  by (simp add: handle_rollback_def Let_def split: option.splits)

lemma inv_handle_assignment:
  "ota_inv cfg factory b \<Longrightarrow> assignment_ok (oc_dispatcher cfg) (bx_running b) p \<Longrightarrow>
     ota_inv cfg factory (handle_assignment an p b)"
  by (simp add: handle_assignment_def Let_def update_admitted_def)

lemma inv_begin:
  "ota_inv cfg factory b \<Longrightarrow> update_admitted cfg (bx_running b) p \<Longrightarrow> ota_inv cfg factory (begin_assignment cfg an p b)"
  by (simp add: begin_assignment_def Let_def signed_manifest_def split: sum.splits)

lemma inv_fetch:
  "ota_inv cfg factory b \<Longrightarrow> task_ok cfg (bx_running b) (Fetch p s) \<Longrightarrow> ota_inv cfg factory (fetch_artifact cfg an p s b)"
  by (simp add: fetch_artifact_def Let_def split: option.splits)

lemma inv_install_failed: "ota_inv cfg factory b \<Longrightarrow> ota_inv cfg factory (install_failed an p s code b)"
  by (simp add: install_failed_def inv_discard)

lemma stage_keeps:
  assumes "stage_tarball fault content b = (ok, b1)"
  shows "bx_releases b1 = bx_releases b" "bx_current b1 = bx_current b" "bx_running b1 = bx_running b"
    "bx_tasks b1 = bx_tasks b" "bx_staged b1 \<in> {bx_staged b, None, Some content}"
  using assms by (auto simp: stage_tarball_def split: option.splits stage_fault.splits)

lemma inv_stage:
  assumes "ota_inv cfg factory b" and "task_ok cfg (bx_running b) (Install p s content)"
  shows "ota_inv cfg factory (install_stage an p s content b)"
proof -
  obtain ok b1 where st: "stage_tarball (an_stage_fault an) content b = (ok, b1)" by fastforce
  have "vouched cfg content" using assms(2) by (auto simp: vouched_def)
  then have "ota_inv cfg factory b1"
    using assms(1) stage_keeps [OF st] by (auto simp: ota_inv_def)
  then show ?thesis
    using assms(2) st stage_keeps(3) [OF st] by (cases ok) (simp_all add: install_stage_def inv_install_failed)
qed

lemma inv_script_ended: "ota_inv cfg factory (snd r) \<Longrightarrow> ota_inv cfg factory (script_ended an v k r)"
  by (simp add: script_ended_def inv_install_failed split: continuation.splits)

lemma inv_start_script:
  assumes "ota_inv cfg factory b" and "ota_inv cfg factory (snd (script b))"
    and "bx_running (snd (script b)) = bx_running b" and "task_ok cfg (bx_running b) (Link v k)"
  shows "ota_inv cfg factory (start_script an v k script b)"
  using assms
  by (cases "script b") (simp add: start_script_def inv_script_ended split: option.splits)

lemma script_running [simp]:
  "bx_running (snd (do_apply lib ae v b)) = bx_running b" "bx_running (snd (do_reflip ae v b)) = bx_running b"
  by (simp_all add: do_apply_def do_reflip_def Let_def split: option.splits)

lemma inv_apply:
  "ota_inv cfg factory b \<Longrightarrow> task_ok cfg (bx_running b) (Apply p s) \<Longrightarrow> ota_inv cfg factory (install_apply cfg an p s b)"
  unfolding install_apply_def by (rule inv_start_script) (simp_all add: inv_do_apply)

lemma inv_flip_and_restart:
  "ota_inv cfg factory b \<Longrightarrow> task_ok cfg (bx_running b) (Link v k) \<Longrightarrow> ota_inv cfg factory (flip_and_restart an v k b)"
  unfolding flip_and_restart_def by (rule inv_start_script) (simp_all add: do_reflip_def)

lemma inv_link: "ota_inv cfg factory b \<Longrightarrow> ota_inv cfg factory (link_release an v k b)"
  by (simp add: link_release_def inv_script_ended inv_applier_flip)

lemma inv_finalize: "ota_inv cfg factory b \<Longrightarrow> ota_inv cfg factory (finalize_pending_update an b)"
  by (simp add: finalize_pending_update_def Let_def inv_discard)

lemma inv_poll: "ota_inv cfg factory b \<Longrightarrow> ota_inv cfg factory (poll_proof an s i deadline b)"
  by (simp add: poll_proof_def proof_succeeded_def proof_failed_def Let_def split: option.splits)

lemma inv_boot: "ota_inv cfg factory b \<Longrightarrow> ota_inv cfg factory (boot_box cfg an startup b)"
proof -
  assume "ota_inv cfg factory b"
  then have "ota_inv cfg factory (boot_process v startup b)"
    "ota_inv cfg factory (b\<lparr>bx_up := False, bx_tasks := [], bx_scheduled := False\<rparr>)" for v
    by (simp_all add: ota_inv_def boot_process_def)
  then show ?thesis by (simp add: boot_box_def inv_finalize split: option.splits)
qed

lemma inv_run_task:
  assumes "ota_inv cfg factory b" and "task_ok cfg (bx_running b) t"
  shows "ota_inv cfg factory (run_task cfg an t b)"
  using assms
  by (cases t)
     (simp_all add: run_task_def inv_begin inv_fetch inv_stage inv_apply inv_poll reflip_flip_def rollback_flip_def
        inv_flip_and_restart inv_handle_rollback inv_link inv_do_prune inv_prune_rest)

lemma set_drop_nth: "set (drop_nth n xs) \<subseteq> set xs"
  by (auto simp: drop_nth_def dest: in_set_takeD in_set_dropD)

lemma inv_step_task: "ota_inv cfg factory b \<Longrightarrow> ota_inv cfg factory (step_task cfg an n b)"
proof -
  assume inv: "ota_inv cfg factory b"
  then have "ota_inv cfg factory (b\<lparr>bx_tasks := drop_nth n (bx_tasks b)\<rparr>)"
    using set_drop_nth [of n "bx_tasks b"] by (auto simp: ota_inv_def)
  moreover have "n < length (bx_tasks b) \<Longrightarrow> task_ok cfg (bx_running b) (bx_tasks b ! n)"
    using inv by (simp add: ota_inv_def)
  ultimately show ?thesis using inv by (simp add: step_task_def inv_run_task)
qed

lemma inv_cut: "ota_inv cfg factory b \<Longrightarrow> ota_inv cfg factory (cut_command cfg an t b)"
  by (cases t) (simp_all add: cut_command_def inv_do_apply inv_applier_flip inv_prune_rest)

lemma inv_assignment: "ota_inv cfg factory b \<Longrightarrow> ota_inv cfg factory (on_update_assignment cfg an p b)"
  by (auto simp: on_update_assignment_def Let_def split: prod.splits
      intro!: inv_handle_assignment dest: admit_assignment_ok)

lemma inv_rollback: "ota_inv cfg factory b \<Longrightarrow> ota_inv cfg factory (on_update_rollback cfg an p b)"
  by (simp add: on_update_rollback_def Let_def inv_handle_rollback split: prod.splits)

lemma inv_watchdog: "ota_inv cfg factory b \<Longrightarrow> ota_inv cfg factory (watchdog_tick cfg an b)"
  by (simp add: watchdog_tick_def Let_def split: option.splits)

lemma inv_step: "ota_inv cfg factory b \<Longrightarrow> ota_inv cfg factory (ota_step cfg ev b)"
  by (auto simp: ota_step_def process_step_def on_update_cancel_def inv_assignment inv_rollback inv_step_task
      inv_watchdog inv_boot inv_cut split: prod.splits action.splits)

interpretation installs: preserved "ota_step cfg" "ota_inv cfg factory" for cfg :: "'key ota_config" and factory
  by unfold_locales (rule inv_step)

section \<open>Who may declare success\<close>

text \<open>The phase in the persisted state, and the phases the stopped tasks hold copies of.\<close>

definition db_phase :: "box \<Rightarrow> string option" where
  "db_phase b = (case bx_db b of None \<Rightarrow> None | Some s \<Rightarrow> us_last_phase s)"

definition unblessed :: "box \<Rightarrow> bool" where
  "unblessed b \<longleftrightarrow> db_phase b \<noteq> Some SUCCESS"

fun task_phase :: "string \<Rightarrow> task \<Rightarrow> bool" where
  "task_phase running (Fetch p s) = (us_last_phase s = Some VERIFYING_SIGNATURE)"
| "task_phase running (Install p s content) = (us_last_phase s = Some RESTARTING)"
| "task_phase running (Apply p s) = (us_last_phase s = Some RESTARTING)"
| "task_phase running (Prove s i deadline) =
     (us_last_phase s = Some RESTARTING \<and> us_current_version s = Some running)"
| "task_phase running (Rollback_Flip s i v) = (us_last_phase s = Some RESTARTING)"
| "task_phase running (Link v (After_Rollback s i)) = (us_last_phase s = Some RESTARTING)"
| "task_phase running _ = True"

definition phase_inv :: "box \<Rightarrow> bool" where
  "phase_inv b \<longleftrightarrow> (\<forall>t \<in> set (bx_tasks b). task_phase (bx_running b) t)"

lemma phase_inv_small [simp]:
  "phase_inv (write_state an n s b) = phase_inv b" "phase_inv (emit_progress i ph pct err b) = phase_inv b"
  "phase_inv (discard_staged_tarball an b) = phase_inv b" "phase_inv (fail_update an n s i code b) = phase_inv b"
  "phase_inv (spawn_task t b) = (phase_inv b \<and> task_phase (bx_running b) t)"
  "phase_inv (b\<lparr>bx_live := l\<rparr>) = phase_inv b" "phase_inv (b\<lparr>bx_replay := r\<rparr>) = phase_inv b"
  "phase_inv (b\<lparr>bx_clock := c\<rparr>) = phase_inv b"
  by (auto simp: phase_inv_def write_state_def emit_progress_def discard_staged_tarball_def fail_update_def
      spawn_task_def)

lemma unblessed_small [simp]:
  "unblessed (emit_progress i ph pct err b) = unblessed b" "unblessed (discard_staged_tarball an b) = unblessed b"
  "unblessed (spawn_task t b) = unblessed b" "unblessed (b\<lparr>bx_live := l\<rparr>) = unblessed b"
  "unblessed (b\<lparr>bx_replay := r\<rparr>) = unblessed b" "unblessed (b\<lparr>bx_clock := c\<rparr>) = unblessed b"
  by (simp_all add: unblessed_def db_phase_def emit_progress_def discard_staged_tarball_def spawn_task_def)

lemma unblessed_write:
  "unblessed b \<Longrightarrow> us_last_phase s \<noteq> Some SUCCESS \<Longrightarrow> unblessed (write_state an n s b)"
  by (simp add: unblessed_def db_phase_def write_state_def)

lemma unblessed_read: "unblessed b \<Longrightarrow> us_last_phase (read_state an b) \<noteq> Some SUCCESS"
  by (simp add: unblessed_def db_phase_def read_state_def update_state_default_def split: option.splits bool.splits)

lemma unblessed_fail: "unblessed b \<Longrightarrow> unblessed (fail_update an n s i code b)"
  by (simp add: fail_update_def unblessed_write phase_defs)

text \<open>The privileged commands touch neither the state nor the tasks.\<close>

lemma applier_flip_keeps:
  "bx_db (snd (applier_flip_and_restart ae v b)) = bx_db b"
  "bx_tasks (snd (applier_flip_and_restart ae v b)) = bx_tasks b"
  "bx_running (snd (applier_flip_and_restart ae v b)) = bx_running b"
  "bx_live (snd (applier_flip_and_restart ae v b)) = bx_live b"
  by (simp_all add: applier_flip_and_restart_def Let_def)

lemma command_keeps [simp]:
  "bx_db (snd (do_reflip ae v b)) = bx_db b" "bx_db (snd (do_apply lib ae v b)) = bx_db b"
  "bx_tasks (snd (do_reflip ae v b)) = bx_tasks b" "bx_tasks (snd (do_apply lib ae v b)) = bx_tasks b"
  "bx_live (snd (do_reflip ae v b)) = bx_live b" "bx_live (snd (do_apply lib ae v b)) = bx_live b"
  by (auto simp: do_reflip_def do_apply_def Let_def split: option.splits)

text \<open>Whatever part of a script has run, the state and the tasks are those it started with.\<close>

lemma same_phase:
  "bx_db b1 = bx_db b \<Longrightarrow> unblessed b1 = unblessed b"
  "bx_tasks b1 = bx_tasks b \<Longrightarrow> bx_running b1 = bx_running b \<Longrightarrow> phase_inv b1 = phase_inv b"
  by (simp_all add: unblessed_def db_phase_def phase_inv_def)

lemma ended_keeps:
  "phase_inv (script_ended an v k r) = phase_inv (snd r)" "bx_live (script_ended an v k r) = bx_live (snd r)"
  by (simp_all add: script_ended_def install_failed_def emit_progress_def write_state_def phase_inv_def
      fail_update_def discard_staged_tarball_def split: continuation.splits)

lemma unblessed_ended:
  "unblessed (snd r) \<Longrightarrow> task_phase running (Link v k) \<Longrightarrow> unblessed (script_ended an v k r)"
  by (cases k) (simp_all add: script_ended_def install_failed_def unblessed_fail unblessed_write phase_defs)

lemma script_phase:
  assumes "bx_db (snd (script b)) = bx_db b" "bx_tasks (snd (script b)) = bx_tasks b"
    "bx_running (snd (script b)) = bx_running b" "task_phase (bx_running b) (Link v k)"
  shows "unblessed b \<Longrightarrow> unblessed (start_script an v k script b)"
    "phase_inv b \<Longrightarrow> phase_inv (start_script an v k script b)"
proof -
  obtain e b1 where b1: "script b = (e, b1)" by fastforce
  then have f: "bx_db b1 = bx_db b" "bx_tasks b1 = bx_tasks b" "bx_running b1 = bx_running b" using assms(1-3) by simp_all
  note eq = same_phase(1) [OF f(1)] same_phase(2) [OF f(2,3)] f(3)
  show "unblessed b \<Longrightarrow> unblessed (start_script an v k script b)"
    using unblessed_ended [OF _ assms(4), of _ an] eq(1) by (auto simp: start_script_def b1 split: option.splits)
  show "phase_inv b \<Longrightarrow> phase_inv (start_script an v k script b)"
    using assms(4) eq by (simp add: start_script_def b1 ended_keeps split: option.splits)
qed

lemma phase_handlers:
  assumes "phase_inv b"
  shows "phase_inv (handle_assignment an p b)" "phase_inv (begin_assignment cfg an p b)"
    "phase_inv (fetch_artifact cfg an p s b)" "phase_inv (handle_rollback an b)" "phase_inv (reflip_to an n v b)"
    "phase_inv (finalize_pending_update an b)" "phase_inv (watchdog_tick cfg an b)"
  using assms
  by (simp_all add: handle_assignment_def begin_assignment_def fetch_artifact_def handle_rollback_def reflip_to_def
      finalize_pending_update_def watchdog_tick_def commit_state_def rolled_back_state_def Let_def
      split: sum.splits option.splits)

lemma unblessed_handlers:
  assumes "unblessed b"
  shows "unblessed (handle_assignment an p b)" "unblessed (begin_assignment cfg an p b)"
    "unblessed (handle_rollback an b)" "unblessed (reflip_to an n v b)"
    "unblessed (finalize_pending_update an b)" "unblessed (watchdog_tick cfg an b)"
proof -
  have r: "us_last_phase (read_state an b) \<noteq> Some SUCCESS" using assms by (rule unblessed_read)
  have p: "RESTARTING \<noteq> SUCCESS" "VERIFYING_SIGNATURE \<noteq> SUCCESS" by (simp_all add: phase_defs)
  note d = Let_def assms r p
  show "unblessed (handle_assignment an p b)"
    by (simp add: handle_assignment_def unblessed_write d)
  show "unblessed (begin_assignment cfg an p b)"
    by (simp add: begin_assignment_def unblessed_write unblessed_fail d split: sum.splits)
  show "unblessed (handle_rollback an b)"
    by (simp add: handle_rollback_def rolled_back_state_def unblessed_write d split: option.splits)
  show rf: "unblessed (reflip_to an n v b)"
    by (simp add: reflip_to_def rolled_back_state_def unblessed_write d)
  show "unblessed (finalize_pending_update an b)"
    by (simp add: finalize_pending_update_def unblessed_write d)
  have "unblessed (reflip_to an 0 v (b\<lparr>bx_live := l\<rparr>))" for v l
    using assms p by (simp add: reflip_to_def rolled_back_state_def unblessed_write)
  then show "unblessed (watchdog_tick cfg an b)"
    by (simp add: watchdog_tick_def d split: option.splits)
qed

lemma stage_keeps_phase:
  assumes "stage_tarball fault content b = (ok, b1)"
  shows "unblessed b1 = unblessed b" "phase_inv b1 = phase_inv b" "bx_live b1 = bx_live b"
  using assms
  by (auto simp: stage_tarball_def unblessed_def db_phase_def phase_inv_def split: option.splits stage_fault.splits)

lemma phase_install:
  assumes "phase_inv b"
  shows "us_last_phase s = Some RESTARTING \<Longrightarrow> phase_inv (install_stage an p s content b)"
    "phase_inv (install_apply cfg an p s b)" "phase_inv (reflip_flip an v b)"
    "us_last_phase s = Some RESTARTING \<Longrightarrow> phase_inv (rollback_flip an s i v b)"
    "phase_inv (do_prune v b)" "phase_inv (prune_rest ok keep b)" "phase_inv (link_release an v k b)"
proof -
  show "us_last_phase s = Some RESTARTING \<Longrightarrow> phase_inv (install_stage an p s content b)"
    using assms stage_keeps_phase(2)
    by (auto simp: install_stage_def install_failed_def split: prod.splits bool.splits)
  show "phase_inv (install_apply cfg an p s b)" "phase_inv (reflip_flip an v b)"
    "us_last_phase s = Some RESTARTING \<Longrightarrow> phase_inv (rollback_flip an s i v b)"
    unfolding install_apply_def reflip_flip_def rollback_flip_def flip_and_restart_def
    by (rule script_phase(2); simp add: assms)+
  show "phase_inv (do_prune v b)" "phase_inv (prune_rest ok keep b)"
    using assms by (simp_all add: do_prune_def Let_def) (simp add: prune_rest_def phase_inv_def)
  show "phase_inv (link_release an v k b)"
    using assms by (simp add: link_release_def ended_keeps same_phase(2) [OF applier_flip_keeps(2,3)])
qed

lemma unblessed_install:
  assumes "unblessed b"
  shows "unblessed (fetch_artifact cfg an p s b)" "unblessed (install_stage an p s content b)"
    "unblessed (install_apply cfg an p s b)" "unblessed (reflip_flip an v b)"
    "us_last_phase s = Some RESTARTING \<Longrightarrow> unblessed (rollback_flip an s i v b)" "unblessed (do_prune v b)"
    "unblessed (prune_rest ok keep b)" "task_phase running (Link v k) \<Longrightarrow> unblessed (link_release an v k b)"
proof -
  have p: "RESTARTING \<noteq> SUCCESS" by (simp add: phase_defs)
  show "unblessed (fetch_artifact cfg an p s b)"
    using assms p by (simp add: fetch_artifact_def commit_state_def unblessed_write unblessed_fail Let_def split: option.splits)
  show "unblessed (install_stage an p s content b)"
    using assms stage_keeps_phase(1)
    by (auto simp: install_stage_def install_failed_def unblessed_fail split: prod.splits bool.splits)
  show "unblessed (install_apply cfg an p s b)" "unblessed (reflip_flip an v b)"
    "us_last_phase s = Some RESTARTING \<Longrightarrow> unblessed (rollback_flip an s i v b)"
    unfolding install_apply_def reflip_flip_def rollback_flip_def flip_and_restart_def
    by (rule script_phase(1); simp add: assms)+
  show "unblessed (do_prune v b)" "unblessed (prune_rest ok keep b)"
    using assms by (simp_all add: do_prune_def Let_def) (simp add: prune_rest_def unblessed_def db_phase_def)
  show "unblessed (link_release an v k b)" if "task_phase running (Link v k)"
    using assms that unfolding link_release_def
    by (intro unblessed_ended) (simp_all add: same_phase(1) [OF applier_flip_keeps(1)])
qed

lemma phase_boot: "phase_inv (boot_box cfg an startup b)"
proof -
  have "phase_inv (boot_process v startup b)"
    "phase_inv (b\<lparr>bx_up := False, bx_tasks := [], bx_scheduled := False\<rparr>)" for v
    by (simp_all add: phase_inv_def boot_process_def)
  then show ?thesis by (simp add: boot_box_def phase_handlers split: option.splits)
qed

lemma unblessed_boot: "unblessed b \<Longrightarrow> unblessed (boot_box cfg an startup b)"
proof -
  assume "unblessed b"
  then have "unblessed (boot_process v startup b)"
    "unblessed (b\<lparr>bx_up := False, bx_tasks := [], bx_scheduled := False\<rparr>)" for v
    by (simp_all add: unblessed_def db_phase_def boot_process_def)
  then show ?thesis by (simp add: boot_box_def unblessed_handlers split: option.splits)
qed

lemma phase_run_task:
  assumes "phase_inv b" and "task_phase (bx_running b) t"
  shows "phase_inv (run_task cfg an t b)"
  using assms
  by (cases t)
     (simp_all add: run_task_def phase_handlers phase_install poll_proof_def proof_succeeded_def proof_failed_def Let_def
       split: option.splits)

lemma unblessed_run_task:
  assumes "unblessed b" and "task_phase (bx_running b) t"
    and "\<not> (\<exists>s i deadline. t = Prove s i deadline \<and> heartbeat_since_boot (bx_live b))"
  shows "unblessed (run_task cfg an t b)"
  using assms
  by (cases t)
     (auto simp: run_task_def unblessed_handlers unblessed_install poll_proof_def proof_failed_def Let_def phase_defs
       intro!: unblessed_write unblessed_handlers split: option.splits)

lemma phase_step_task: "phase_inv b \<Longrightarrow> phase_inv (step_task cfg an n b)"
proof -
  assume inv: "phase_inv b"
  then have "phase_inv (b\<lparr>bx_tasks := drop_nth n (bx_tasks b)\<rparr>)"
    using set_drop_nth [of n "bx_tasks b"] by (auto simp: phase_inv_def)
  moreover have "n < length (bx_tasks b) \<Longrightarrow> task_phase (bx_running b) (bx_tasks b ! n)"
    using inv by (simp add: phase_inv_def)
  ultimately show ?thesis using inv by (simp add: step_task_def phase_run_task)
qed

lemma phase_step: "phase_inv b \<Longrightarrow> phase_inv (ota_step cfg ev b)"
  by (auto simp: ota_step_def process_step_def on_update_cancel_def on_update_assignment_def on_update_rollback_def
      phase_handlers phase_step_task phase_boot Let_def split: prod.splits action.splits)

interpretation phases: preserved "ota_step cfg" phase_inv for cfg :: "'key ota_config"
  by unfold_locales (rule phase_step)

text \<open>The only step that blesses a release is the poll that sees the heartbeat.\<close>

lemma blessing_step:
  assumes "phase_inv b" and "unblessed b" and "\<not> unblessed (ota_step cfg (an, ac) b)"
  obtains n s i deadline where "ac = Run n" "n < length (bx_tasks b)" "bx_tasks b ! n = Prove s i deadline"
    "us_current_version s = Some (bx_running b)" "heartbeat_since_boot (bx_live b)" "bx_up b"
proof -
  have up: "bx_up b" using assms(2,3) by (cases ac) (auto simp: ota_step_def unblessed_boot split: if_splits)
  have cut: "unblessed (cut_command cfg an t b)" for t
    using assms(2)
    by (cases t) (simp_all add: cut_command_def unblessed_install same_phase(1) [OF command_keeps(2)]
      same_phase(1) [OF applier_flip_keeps(1)])
  obtain n where n: "ac = Run n"
    using assms(2,3) up
    by (cases ac)
       (auto simp: ota_step_def process_step_def on_update_cancel_def on_update_assignment_def on_update_rollback_def
          unblessed_handlers unblessed_boot cut Let_def split: prod.splits if_splits)
  let ?b = "b\<lparr>bx_tasks := drop_nth n (bx_tasks b)\<rparr>"
  have u: "unblessed ?b" using assms(2) by (simp add: unblessed_def db_phase_def)
  have le: "n < length (bx_tasks b)" and ub: "\<not> unblessed (run_task cfg an (bx_tasks b ! n) ?b)"
    using assms(2,3) up n by (auto simp: ota_step_def process_step_def step_task_def split: if_splits)
  have tp: "task_phase (bx_running b) (bx_tasks b ! n)" using assms(1) le by (simp add: phase_inv_def)
  from unblessed_run_task [OF u, of "bx_tasks b ! n" cfg an] ub tp
  obtain s i deadline where pr: "bx_tasks b ! n = Prove s i deadline" and hb: "heartbeat_since_boot (bx_live b)"
    by auto
  from tp pr have "us_current_version s = Some (bx_running b)" by simp
  then show ?thesis by (rule that [OF n le pr _ hb up])
qed

section \<open>The starting point\<close>

text \<open>A box as it leaves the factory: some releases, one of them current and running.\<close>

definition factory_box :: "(string \<rightharpoonup> release) \<Rightarrow> string \<Rightarrow> string \<Rightarrow> box" where
  "factory_box releases current running =
     \<lparr>bx_db = None, bx_replay = jti_new, bx_releases = releases, bx_current = current, bx_staged = None,
      bx_part = None, bx_up = True, bx_running = running, bx_live = liveness_new, bx_clock = 0, bx_armed = 0,
      bx_tasks = [], bx_sent = [], bx_scheduled = False\<rparr>"

lemma inv_factory: "ota_inv cfg releases (factory_box releases current running)"
  by (auto simp: ota_inv_def factory_box_def release_ok_def layer_ok_def)

lemma phase_factory: "phase_inv (factory_box releases current running)"
  by (simp add: phase_inv_def factory_box_def)

section \<open>The latch of the watchdog\<close>

lemma live_kept [simp]:
  "bx_live (write_state an n s b) = bx_live b" "bx_live (emit_progress i ph pct err b) = bx_live b"
  "bx_live (spawn_task t b) = bx_live b" "bx_live (discard_staged_tarball an b) = bx_live b"
  "bx_live (fail_update an n s i code b) = bx_live b" "bx_live (reflip_to an n v b) = bx_live b"
  by (simp_all add: write_state_def emit_progress_def spawn_task_def discard_staged_tarball_def fail_update_def
      reflip_to_def)

lemma up_kept [simp]:
  "bx_up (write_state an n s b) = bx_up b" "bx_up (spawn_task t b) = bx_up b"
  "bx_up (emit_progress i ph pct err b) = bx_up b" "bx_up (reflip_to an n v b) = bx_up b"
  by (simp_all add: write_state_def emit_progress_def spawn_task_def reflip_to_def)

lemma script_live:
  assumes "bx_live (snd (script b)) = bx_live b" shows "bx_live (start_script an v k script b) = bx_live b"
  using assms by (cases "script b") (simp add: start_script_def ended_keeps split: option.splits)

lemma live_run_task [simp]: "bx_live (run_task cfg an t b) = bx_live b"
proof (cases t)
  case (Install p s content)
  then show ?thesis using stage_keeps_phase(3)
    by (auto simp: run_task_def install_stage_def install_failed_def split: prod.splits bool.splits)
next
  case (Apply p s)
  then show ?thesis by (simp add: run_task_def install_apply_def script_live)
next
  case (Reflip v)
  then show ?thesis by (simp add: run_task_def reflip_flip_def flip_and_restart_def script_live)
next
  case (Rollback_Flip s i v)
  then show ?thesis by (simp add: run_task_def rollback_flip_def flip_and_restart_def script_live)
next
  case (Link v k)
  then show ?thesis by (simp add: run_task_def link_release_def ended_keeps applier_flip_keeps)
qed (auto simp: run_task_def begin_assignment_def fetch_artifact_def poll_proof_def
       proof_succeeded_def proof_failed_def handle_rollback_def do_prune_def prune_rest_def Let_def
       split: sum.splits option.splits prod.splits)

lemma live_handle [simp]:
  "bx_live (handle_assignment an p b) = bx_live b" "bx_live (handle_rollback an b) = bx_live b"
  by (simp_all add: handle_assignment_def handle_rollback_def Let_def split: option.splits)

definition restarts :: "action \<Rightarrow> bool" where
  "restarts ac = (case ac of Restart _ \<Rightarrow> True | Power_Loss _ _ \<Rightarrow> True | _ \<Rightarrow> False)"

lemma latch_step:
  assumes "tl_reflipped (bx_live b)" and "\<not> restarts (snd ev)"
  shows "tl_reflipped (bx_live (ota_step cfg ev b))"
proof -
  obtain an ac where ev: "ev = (an, ac)" by fastforce
  have w: "tl_reflipped (bx_live (watchdog_tick cfg an b))"
    using assms(1) by (simp add: watchdog_tick_def Let_def split: option.splits)
  show ?thesis using assms w
    by (cases ac)
       (auto simp: ev restarts_def ota_step_def process_step_def on_update_cancel_def on_update_assignment_def
          on_update_rollback_def step_task_def mark_authenticated_def mark_ack_def Let_def split: prod.splits)
qed

lemma latch_run:
  assumes "tl_reflipped (bx_live b)" and "\<forall>ev \<in> set evs. \<not> restarts (snd ev)"
  shows "tl_reflipped (bx_live (ota_run cfg evs b))"
  using assms unfolding ota_run_def by (induction evs arbitrary: b) (simp_all add: latch_step)

lemma latched_watchdog: "tl_reflipped (bx_live b) \<Longrightarrow> ota_step cfg (an, Watchdog) b = b"
  by (simp add: ota_step_def process_step_def watchdog_tick_def split: option.splits)

lemma watchdog_acts:
  assumes "ota_step cfg (an, Watchdog) b \<noteq> b"
  obtains window where "dark_window (oc_dark_window_hours cfg) = Some window"
    "WATCHDOG_GRACE \<le> bx_clock b - bx_armed b" "an_enrolled an = Some True"
    "as_millis_u64 window \<le> dark_ms (bx_clock b) (bx_live b)"
    "tl_reflipped (bx_live (ota_step cfg (an, Watchdog) b))"
  using assms
  by (auto simp: ota_step_def process_step_def watchdog_tick_def Let_def not_less split: option.splits if_splits)

end
