(* ===== verification/Ota_Properties.thy ===== *)
theory Ota_Properties
  imports Ota_Safety
begin

text \<open>
  The properties of the update machine: what can be installed and who can ask for it, when a
  release is declared good, how often the watchdog acts, and two histories in which the
  rollback the code promises is lost.
\<close>

section \<open>An update without faults\<close>

definition smooth :: "world_answers \<Rightarrow> bool" where
  "smooth an \<longleftrightarrow> an_read_ok an \<and> (\<forall>n. an_write_ok an n) \<and> an_preflight_ok an \<and> an_stage_fault an = None
     \<and> ae_spawned (an_applier an) \<and> ae_killed_at (an_applier an) = None \<and> ae_tar_ok (an_applier an)
     \<and> ae_link_ok (an_applier an) \<and> ae_restart_ok (an_applier an) \<and> an_discard_ok an"

lemma smooth_state:
  assumes "smooth an"
  shows "read_state an b = (case bx_db b of None \<Rightarrow> update_state_default | Some s \<Rightarrow> s)"
    "write_state an n s b = b\<lparr>bx_db := Some s\<rparr>"
  using assms by (simp_all add: smooth_def read_state_def write_state_def split: option.splits)

lemma run_single:
  "bx_up b \<Longrightarrow> bx_tasks b = [t] \<Longrightarrow> ota_step cfg (an, Run 0) b = run_task cfg an t (b\<lparr>bx_tasks := []\<rparr>)"
  by (simp add: ota_step_def process_step_def step_task_def drop_nth_def)

text \<open>An assignment that passes the gate, verifies and downloads is good for the machine.\<close>

definition good_update :: "'key ota_config \<Rightarrow> world_answers \<Rightarrow> update_assignment_payload \<Rightarrow> string \<Rightarrow> box \<Rightarrow> bool" where
  "good_update cfg an p content b \<longleftrightarrow>
     fst (admit_assignment (oc_dispatcher cfg) (an_now an) (bx_running b) p (bx_replay b))
     \<and> ap_target_version p \<noteq> bx_running b \<and> signed_manifest cfg p
     \<and> an_download an = Some content \<and> sha256_matches (oc_lib cfg) content (ap_artifact_sha256 p)"

text \<open>What the attempt has written when it commits: the assignment and its channel, the phase, and the
  version the state named before as the one to return to.\<close>

definition committed :: "world_answers \<Rightarrow> update_assignment_payload \<Rightarrow> box \<Rightarrow> update_state" where
  "committed an p b =
     commit_state (bx_running b) p
       ((read_state an b)\<lparr>us_assigned_channel := Some (ap_channel p),
          us_active_assignment_id := Some (ap_assignment_id p), us_last_attempt_at := Some (an_timestamp an),
          us_last_phase := Some VERIFYING_SIGNATURE\<rparr>)"

lemma update_commits:
  assumes "smooth an" and "bx_up b" and "bx_tasks b = []" and "good_update cfg an p content b"
    and b': "b' = ota_run cfg (map (Pair an) [Assignment p, Run 0, Run 0]) b"
  shows "bx_db b' = Some (committed an p b)" "bx_tasks b' = [Install p (committed an p b) content]"
    "bx_running b' = bx_running b" "bx_current b' = bx_current b" "bx_releases b' = bx_releases b"
    "bx_up b'" "bx_scheduled b' = bx_scheduled b" "bx_live b' = bx_live b" "bx_clock b' = bx_clock b"
proof -
  obtain r where g: "admit_assignment (oc_dispatcher cfg) (an_now an) (bx_running b) p (bx_replay b) = (True, r)"
    using assms(4)
    by (cases "admit_assignment (oc_dispatcher cfg) (an_now an) (bx_running b) p (bx_replay b)")
       (simp add: good_update_def)
  have v: "verify_signature (oc_lib cfg) (oc_env_pem cfg) p = Inr ()" "an_download an = Some content"
    "sha256_matches (oc_lib cfg) content (ap_artifact_sha256 p)" "ap_target_version p \<noteq> bx_running b" "an_preflight_ok an"
    using assms(1,4) by (simp_all add: good_update_def signed_manifest_def smooth_def)
  define s0 where "s0 = (read_state an b)\<lparr>us_assigned_channel := Some (ap_channel p)\<rparr>"
  define s1 where "s1 = s0\<lparr>us_active_assignment_id := Some (ap_assignment_id p), us_last_attempt_at := Some (an_timestamp an),
     us_last_phase := Some VERIFYING_SIGNATURE\<rparr>"
  have c: "committed an p b = commit_state (bx_running b) p s1" by (simp add: committed_def s0_def s1_def)
  define b1 where "b1 = b\<lparr>bx_replay := r, bx_db := Some s0, bx_tasks := [Begin p]\<rparr>"
  have rs: "read_state an (b\<lparr>bx_replay := r\<rparr>) = read_state an b" by (simp add: read_state_def)
  have 1: "ota_step cfg (an, Assignment p) b = b1"
    using v(4) by (simp add: ota_step_def process_step_def on_update_assignment_def assms(2,3) g handle_assignment_def
        Let_def smooth_state(2) [OF assms(1)] spawn_task_def b1_def s0_def rs)
  define b2 where "b2 = emit_progress (ap_assignment_id p) FETCHING_ARTIFACT (Some 0) None
     (emit_progress (ap_assignment_id p) VERIFYING_SIGNATURE None None (b1\<lparr>bx_db := Some s1, bx_tasks := [Fetch p s1]\<rparr>))"
  have r1: "read_state an (b1\<lparr>bx_tasks := []\<rparr>) = s0"
    by (simp add: smooth_state(1) [OF assms(1)] b1_def)
  have t1: "bx_up b1" "bx_tasks b1 = [Begin p]" using assms(2) by (simp_all add: b1_def)
  have 2: "ota_step cfg (an, Run 0) b1 = b2"
    unfolding run_single [OF t1]
    by (simp add: run_task_def begin_assignment_def v Let_def smooth_state(2) [OF assms(1)] r1 spawn_task_def b2_def
        s1_def emit_progress_def)
  have f: "bx_up b2" "bx_tasks b2 = [Fetch p s1]" "bx_running b2 = bx_running b" "bx_current b2 = bx_current b"
    "bx_releases b2 = bx_releases b" "bx_scheduled b2 = bx_scheduled b" "bx_live b2 = bx_live b" "bx_clock b2 = bx_clock b"
    using assms(2) by (simp_all add: b2_def b1_def emit_progress_def)
  have 3: "b' = run_task cfg an (Fetch p s1) (b2\<lparr>bx_tasks := []\<rparr>)"
    using run_single [OF f(1,2), of cfg an] by (simp add: b' ota_run_def 1 2)
  show "bx_db b' = Some (committed an p b)" "bx_tasks b' = [Install p (committed an p b) content]"
    "bx_running b' = bx_running b" "bx_current b' = bx_current b" "bx_releases b' = bx_releases b"
    "bx_up b'" "bx_scheduled b' = bx_scheduled b" "bx_live b' = bx_live b" "bx_clock b' = bx_clock b"
    by (simp_all add: 3 run_task_def fetch_artifact_def v Let_def f c smooth_state(2) [OF assms(1)] spawn_task_def emit_progress_def)
qed

lemma update_stages:
  assumes "smooth an" and "bx_up b" and "bx_tasks b = []" and "good_update cfg an p content b"
    and b': "b' = ota_run cfg (map (Pair an) [Assignment p, Run 0, Run 0, Run 0]) b"
  shows "bx_db b' = Some (committed an p b)" "bx_tasks b' = [Apply p (committed an p b)]"
    "bx_staged b' = Some content" "bx_running b' = bx_running b" "bx_current b' = bx_current b"
    "bx_releases b' = bx_releases b" "bx_up b'"
proof -
  note c = update_commits [OF assms(1-4) refl]
  have "b' = ota_step cfg (an, Run 0) (ota_run cfg (map (Pair an) [Assignment p, Run 0, Run 0]) b)"
    by (simp add: b' ota_run_def)
  also have "\<dots> = run_task cfg an (Install p (committed an p b) content)
      ((ota_run cfg (map (Pair an) [Assignment p, Run 0, Run 0]) b)\<lparr>bx_tasks := []\<rparr>)"
    by (rule run_single [OF c(6,2)])
  finally have e: "b' = run_task cfg an (Install p (committed an p b) content)
      ((ota_run cfg (map (Pair an) [Assignment p, Run 0, Run 0]) b)\<lparr>bx_tasks := []\<rparr>)" .
  have "an_stage_fault an = None" using assms(1) by (simp add: smooth_def)
  then show "bx_db b' = Some (committed an p b)" "bx_tasks b' = [Apply p (committed an p b)]"
    "bx_staged b' = Some content" "bx_running b' = bx_running b" "bx_current b' = bx_current b"
    "bx_releases b' = bx_releases b" "bx_up b'"
    using c by (simp_all add: e run_task_def install_stage_def stage_tarball_def spawn_task_def)
qed

lemma smooth_apply:
  assumes "smooth an" and "validate_version (ap_target_version p)" and "bx_staged b = Some content"
    and "rl_untar (oc_lib cfg) content = Some (ap_target_version p, w)"
  shows "install_apply cfg an p s b =
    spawn_task (Link (ap_target_version p) (After_Apply p s)) (b\<lparr>bx_releases := (bx_releases b)(ap_target_version p \<mapsto>
      unpack_onto content Whole (bx_releases b (ap_target_version p)))\<rparr>)"
  using assms
  by (simp add: install_apply_def start_script_def do_apply_def killed_before_def smooth_def Let_def)

lemma smooth_reflip:
  assumes "smooth an" and "validate_version v" and "bx_releases b v \<noteq> None"
  shows "flip_and_restart an v k b = spawn_task (Link v k) b"
  using assms by (auto simp: flip_and_restart_def start_script_def do_reflip_def killed_before_def smooth_def)

lemma smooth_link:
  assumes "smooth an" shows "link_release an v k b = b\<lparr>bx_current := v, bx_scheduled := True\<rparr>"
  using assms
  by (simp add: link_release_def script_ended_def applier_flip_and_restart_def killed_before_def smooth_def applied_def Let_def)

lemma engine_unpacked: "engine_of lib (Some (unpack_onto content Whole old)) = map_option snd (rl_untar lib content)"
  by (simp add: engine_of_def unpack_onto_def)

text \<open>Booting the version the state announces opens the wait for the tunnel.\<close>

lemma boot_proves:
  assumes "smooth an" and "engine_of (oc_lib cfg) (bx_releases b (bx_current b)) = Some v"
    and "bx_db b = Some s" and "us_last_phase s = Some RESTARTING" and "us_current_version s = Some v"
  shows "boot_box cfg an d b = (boot_process v d b)\<lparr>bx_staged := None,
     bx_tasks := [Prove s (case us_active_assignment_id s of None \<Rightarrow> ''recover-'' @ an_uuid an | Some i \<Rightarrow> i)
                    (d + TUNNEL_PROOF_WINDOW)]\<rparr>"
  using assms
  by (simp add: boot_box_def finalize_pending_update_def smooth_state boot_process_def discard_staged_tarball_def
      spawn_task_def smooth_def [of an])

text \<open>The actions from the assignment to the flip of the link.\<close>

definition update_actions :: "update_assignment_payload \<Rightarrow> action list" where
  "update_actions p = [Assignment p, Run 0, Run 0, Run 0, Run 0, Run 0]"

lemma update_flips:
  assumes "smooth an" and "bx_up b" and "bx_tasks b = []" and "good_update cfg an p content b"
    and "validate_version (ap_target_version p)"
    and "rl_untar (oc_lib cfg) content = Some (ap_target_version p, w)"
    and b': "b' = ota_run cfg (map (Pair an) (update_actions p)) b"
  shows "bx_scheduled b'" "bx_running b' = bx_running b" "bx_db b' = Some (committed an p b)" "bx_tasks b' = []"
    "bx_releases b' = (bx_releases b)(ap_target_version p \<mapsto> unpack_onto content Whole (bx_releases b (ap_target_version p)))"
    "bx_current b' = ap_target_version p" "bx_up b'"
proof -
  define b4 where "b4 = ota_run cfg (map (Pair an) [Assignment p, Run 0, Run 0, Run 0]) b"
  note st = update_stages [OF assms(1-4) b4_def]
  let ?k = "After_Apply p (committed an p b)"
  define b5 where "b5 = b4\<lparr>bx_tasks := [Link (ap_target_version p) ?k], bx_releases := (bx_releases b)(ap_target_version p \<mapsto>
      unpack_onto content Whole (bx_releases b (ap_target_version p)))\<rparr>"
  have 5: "ota_step cfg (an, Run 0) b4 = b5"
    unfolding run_single [OF st(7,2)] run_task_def
    using smooth_apply [OF assms(1,5) _ assms(6), of "b4\<lparr>bx_tasks := []\<rparr>"] st by (simp add: spawn_task_def b5_def)
  have t5: "bx_up b5" "bx_tasks b5 = [Link (ap_target_version p) ?k]" using st(7) by (simp_all add: b5_def)
  have 6: "ota_step cfg (an, Run 0) b5 = b5\<lparr>bx_tasks := [], bx_current := ap_target_version p, bx_scheduled := True\<rparr>"
    unfolding run_single [OF t5] by (simp add: run_task_def smooth_link [OF assms(1)])
  have "b' = ota_step cfg (an, Run 0) (ota_step cfg (an, Run 0) b4)"
    by (simp add: b' b4_def ota_run_def update_actions_def)
  then have e: "b' = b5\<lparr>bx_tasks := [], bx_current := ap_target_version p, bx_scheduled := True\<rparr>" by (simp only: 5 6)
  show "bx_scheduled b'" "bx_running b' = bx_running b" "bx_db b' = Some (committed an p b)" "bx_tasks b' = []"
    "bx_releases b' = (bx_releases b)(ap_target_version p \<mapsto> unpack_onto content Whole (bx_releases b (ap_target_version p)))"
    "bx_current b' = ap_target_version p" "bx_up b'"
    using st by (simp_all add: e b5_def)
qed

lemma update_boots:
  assumes "smooth an" and "bx_up b" and "bx_tasks b = []" and "good_update cfg an p content b"
    and "validate_version (ap_target_version p)"
    and "rl_untar (oc_lib cfg) content = Some (ap_target_version p, ap_target_version p)"
    and b': "b' = ota_run cfg (map (Pair an) (update_actions p @ [Restart d])) b"
  shows "bx_running b' = ap_target_version p" "bx_db b' = Some (committed an p b)"
    "\<exists>i. bx_tasks b' = [Prove (committed an p b) i (d + TUNNEL_PROOF_WINDOW)]"
    "bx_releases b' = (bx_releases b)(ap_target_version p \<mapsto> unpack_onto content Whole (bx_releases b (ap_target_version p)))"
    "bx_current b' = ap_target_version p" "bx_up b'" "bx_live b' = liveness_new" "bx_clock b' = d"
proof -
  define b6 where "b6 = ota_run cfg (map (Pair an) (update_actions p)) b"
  note fl = update_flips [OF assms(1-6) b6_def]
  have "b' = ota_step cfg (an, Restart d) b6" by (simp add: b' b6_def ota_run_def)
  also have "\<dots> = boot_box cfg an d b6" using fl(7) by (simp add: ota_step_def process_step_def)
  also have "\<dots> = (boot_process (ap_target_version p) d b6)\<lparr>bx_staged := None,
     bx_tasks := [Prove (committed an p b) (case us_active_assignment_id (committed an p b) of
        None \<Rightarrow> ''recover-'' @ an_uuid an | Some i \<Rightarrow> i) (d + TUNNEL_PROOF_WINDOW)]\<rparr>"
    by (rule boot_proves [OF assms(1)])
       (use fl assms(6) in \<open>simp_all add: engine_unpacked committed_def commit_state_def\<close>)
  finally show "bx_running b' = ap_target_version p" "bx_db b' = Some (committed an p b)"
    "\<exists>i. bx_tasks b' = [Prove (committed an p b) i (d + TUNNEL_PROOF_WINDOW)]"
    "bx_releases b' = (bx_releases b)(ap_target_version p \<mapsto> unpack_onto content Whole (bx_releases b (ap_target_version p)))"
    "bx_current b' = ap_target_version p" "bx_up b'" "bx_live b' = liveness_new" "bx_clock b' = d"
    using fl by (simp_all add: boot_process_def)
qed

lemma ack_is_proof: "heartbeat_since_boot (mark_ack clock (mark_authenticated l))"
  by (auto simp: heartbeat_since_boot_def mark_ack_def mark_authenticated_def max_def word_gt_0)

lemma update_proved:
  assumes "smooth an" and "bx_up b" and "bx_tasks b = []" and "good_update cfg an p content b"
    and "validate_version (ap_target_version p)"
    and "rl_untar (oc_lib cfg) content = Some (ap_target_version p, ap_target_version p)"
    and b': "b' = ota_run cfg (map (Pair an) (update_actions p @ [Restart d, Authenticated, Heartbeat_Ack])) b"
  shows "bx_running b' = ap_target_version p" "bx_db b' = Some (committed an p b)"
    "\<exists>i. bx_tasks b' = [Prove (committed an p b) i (d + TUNNEL_PROOF_WINDOW)]"
    "bx_releases b' (ap_target_version p) = Some (unpack_onto content Whole (bx_releases b (ap_target_version p)))"
    "bx_current b' = ap_target_version p" "bx_up b'" "heartbeat_since_boot (bx_live b')"
proof -
  define b6 where "b6 = ota_run cfg (map (Pair an) (update_actions p @ [Restart d])) b"
  note u = update_boots [OF assms(1-6) b6_def]
  have e: "b' = ota_run cfg (map (Pair an) [Authenticated, Heartbeat_Ack]) b6"
    by (simp add: b' b6_def ota_run_def)
  have "b' = b6\<lparr>bx_live := mark_ack d (mark_authenticated liveness_new)\<rparr>"
    unfolding e using u(6,7,8) by (simp add: ota_run_def ota_step_def process_step_def)
  with u show "bx_running b' = ap_target_version p" "bx_db b' = Some (committed an p b)"
    "\<exists>i. bx_tasks b' = [Prove (committed an p b) i (d + TUNNEL_PROOF_WINDOW)]"
    "bx_releases b' (ap_target_version p) = Some (unpack_onto content Whole (bx_releases b (ap_target_version p)))"
    "bx_current b' = ap_target_version p" "bx_up b'" "heartbeat_since_boot (bx_live b')"
    by (simp_all add: ack_is_proof)
qed

lemma poll_blesses:
  assumes "smooth an" and "bx_up b" and "bx_tasks b = [Prove s i deadline]" and "heartbeat_since_boot (bx_live b)"
  shows "bx_db (ota_step cfg (an, Run 0) b) = Some (s\<lparr>us_active_assignment_id := None, us_last_phase := Some SUCCESS,
      us_last_result := Some SUCCESS, us_crash_count := 0\<rparr>)"
    "bx_running (ota_step cfg (an, Run 0) b) = bx_running b" "bx_current (ota_step cfg (an, Run 0) b) = bx_current b"
    "bx_releases (ota_step cfg (an, Run 0) b) = bx_releases b"
  using assms(4)
  by (simp_all add: run_single [OF assms(2,3)] run_task_def poll_proof_def proof_succeeded_def Let_def
      smooth_state(2) [OF assms(1)] spawn_task_def emit_progress_def split: option.splits)

section \<open>A small fleet\<close>

text \<open>Tarballs that are their own version, digest and directory.\<close>

definition demo_release_lib :: "nat release_lib" where
  "demo_release_lib =
     \<lparr>rl_pem_key = (\<lambda>pem. Some 7), rl_b64_decode = (\<lambda>s. Some (replicate 64 0)),
      rl_verify_strict = (\<lambda>key m sig. key = 7), rl_sha256 = (\<lambda>content. content),
      rl_untar = (\<lambda>content. Some (content, content)), rl_json_str = json_quote\<rparr>"

definition demo_ota :: "nat ota_config" where
  "demo_ota = \<lparr>oc_lib = demo_release_lib, oc_env_pem = None, oc_dispatcher = None, oc_dark_window_hours = 12\<rparr>"

definition demo_update :: "string \<Rightarrow> update_assignment_payload" where
  "demo_update v =
     \<lparr>ap_actor_token = None, ap_allow_downgrade = None, ap_artifact_sha256 = hex_lower v, ap_artifact_url = ''u'',
      ap_assignment_id = ''a'', ap_channel = ''stable'', ap_deferral_until = None, ap_force = None,
      ap_manifest_url = None, ap_signature = ''s'', ap_target_version = v\<rparr>"

definition demo_applier :: applier_env where
  "demo_applier = \<lparr>ae_spawned = True, ae_killed_at = None, ae_tar_ok = True, ae_cut = In_Engine, ae_link_ok = True, ae_restart_ok = True\<rparr>"

definition demo_answers :: world_answers where
  "demo_answers =
     \<lparr>an_now = 0, an_timestamp = ''t'', an_uuid = ''u'', an_read_ok = True, an_write_ok = (\<lambda>n. True),
      an_preflight_ok = True, an_download = Some ''1.0.1'', an_stage_fault = None, an_applier = demo_applier,
      an_enrolled = Some True, an_prune_ok = (\<lambda>d. True), an_discard_ok = True\<rparr>"

definition demo_factory :: "string \<rightharpoonup> release" where
  "demo_factory = (\<lambda>d. if d = ''1.0.0'' then Some [(''1.0.0'', Whole)] else None)"

definition demo_box :: box where
  "demo_box = factory_box demo_factory ''1.0.0'' ''1.0.0''"

lemma demo_newer: "strictly_newer ''1.0.0'' ''1.0.1''"
proof -
  have "parse_version ''1.0.0'' = Some (1, 0, 0)" "parse_version ''1.0.1'' = Some (1, 0, 1)"
    by (simp_all add: parse_version_def version_part_def parse_u64_def is_digit_def digits_value_def)
  then show ?thesis by (simp add: strictly_newer_def)
qed

lemma demo_signed: "signed_manifest demo_ota p"
  by (simp add: signed_manifest_def verify_signature_def demo_ota_def demo_release_lib_def signing_pem_def
      NEXUS_RELEASE_SIGNING_PUBKEY_V1_def trim_str_def is_whitespace_def)

lemma demo_box_fields [simp]:
  "bx_up demo_box" "bx_tasks demo_box = []" "bx_running demo_box = ''1.0.0''" "bx_current demo_box = ''1.0.0''"
  "bx_db demo_box = None" "bx_releases demo_box = demo_factory" "bx_live demo_box = liveness_new"
  by (simp_all add: demo_box_def factory_box_def)

lemma demo_smooth: "smooth demo_answers"
  by (simp add: smooth_def demo_answers_def demo_applier_def)

lemma demo_good: "bx_running b = ''1.0.0'' \<Longrightarrow> good_update demo_ota demo_answers (demo_update ''1.0.1'') ''1.0.1'' b"
  using demo_newer demo_signed [of "demo_update ''1.0.1''"]
  by (simp add: good_update_def admit_assignment_def demo_update_def demo_answers_def tokenless_target_allowed_from_def
      sha256_matches_def demo_ota_def demo_release_lib_def)
     (simp add: trim_str_def hex_lower_def hex_digit_def is_whitespace_def)

lemma demo_valid: "validate_version ''1.0.1''" "validate_version ''1.0.0''"
  by (simp_all add: validate_version_def alnum_def starts_with_def)

lemma demo_untar: "rl_untar (oc_lib demo_ota) content = Some (content, content)"
  by (simp add: demo_ota_def demo_release_lib_def)

section \<open>Properties\<close>

text \<open>
  C30. Only signed releases reach the disk.  Whatever messages, faults, crashes and power losses the
  history of an appliance has, and however the scripts that unpack, flip and prune overlap, everything in
  a release tree left the factory with it, or was unpacked, whole or in part, from a tarball for that
  directory whose SHA-256 a manifest names that carries a valid signature of the release key.
\<close>

theorem only_signed_releases_installed:
  assumes "b = ota_run cfg evs (factory_box factory current running)"
    and "bx_releases b d = Some layers" and "(tarball, u) \<in> set layers"
  shows "(\<exists>r. factory d = Some r \<and> (tarball, u) \<in> set r)
    \<or> (\<exists>p v. verify_signature (oc_lib cfg) (oc_env_pem cfg) p = Inr ()
         \<and> sha256_matches (oc_lib cfg) tarball (ap_artifact_sha256 p)
         \<and> rl_untar (oc_lib cfg) tarball = Some (d, v))"
proof -
  have "ota_inv cfg factory b" unfolding assms(1) ota_run_def by (rule installs.run_keeps) (rule inv_factory)
  then have "layer_ok cfg factory d (tarball, u)" using assms(2,3) unfolding ota_inv_def release_ok_def by blast
  then show ?thesis by (auto simp: layer_ok_def vouched_def signed_manifest_def)
qed

theorem only_signed_releases_installed_witness:
  "(let b = ota_run demo_ota (map (Pair demo_answers) (update_actions (demo_update ''1.0.1'') @ [Restart 5]))
              (factory_box demo_factory ''1.0.0'' ''1.0.0'')
    in bx_releases b ''1.0.1'' = Some [(''1.0.1'', Whole)] \<and> demo_factory ''1.0.1'' = None
       \<and> (\<exists>p. verify_signature (oc_lib demo_ota) (oc_env_pem demo_ota) p = Inr ()
              \<and> sha256_matches (oc_lib demo_ota) ''1.0.1'' (ap_artifact_sha256 p)))"
proof -
  let ?evs = "map (Pair demo_answers) (update_actions (demo_update ''1.0.1'') @ [Restart 5])"
  define b where "b = ota_run demo_ota ?evs (factory_box demo_factory ''1.0.0'' ''1.0.0'')"
  have t: "ap_target_version (demo_update ''1.0.1'') = ''1.0.1''" by (simp add: demo_update_def)
  have f: "demo_factory ''1.0.1'' = None" by (simp add: demo_factory_def)
  have r: "bx_releases b ''1.0.1'' = Some [(''1.0.1'', Whole)]"
    using update_boots(4) [OF demo_smooth _ _ demo_good _ _ b_def [folded demo_box_def]] demo_valid demo_untar t f
    by (simp add: unpack_onto_def)
  from only_signed_releases_installed [OF b_def r, of "''1.0.1''" Whole] f
  have "\<exists>p. verify_signature (oc_lib demo_ota) (oc_env_pem demo_ota) p = Inr ()
      \<and> sha256_matches (oc_lib demo_ota) ''1.0.1'' (ap_artifact_sha256 p)" by fastforce
  with r f show ?thesis unfolding Let_def b_def by blast
qed

text \<open>The assignment a stopped task is working on.\<close>

fun pending_update :: "task \<Rightarrow> update_assignment_payload option" where
  "pending_update (Begin p) = Some p"
| "pending_update (Fetch p s) = Some p"
| "pending_update (Install p s content) = Some p"
| "pending_update (Apply p s) = Some p"
| "pending_update (Link v (After_Apply p s)) = Some p"
| "pending_update _ = None"

text \<open>
  C31. No update is pending that nobody authorised.  At any point of any history, an update
  that is about to verify, download, stage, unpack or become current carries an actor token that the verifier accepted
  for \<open>update_assignment\<close> and whose actor may assign updates; or it carries no token, asks for neither
  force nor downgrade, and its target is a strictly newer version than the one running.  So an
  assignment without a token can never move an appliance backwards, whatever its flags and
  its order of arrival.
\<close>

theorem pending_update_was_authorised:
  assumes "b = ota_run cfg evs (factory_box factory current running)"
    and "t \<in> set (bx_tasks b)" and "pending_update t = Some p"
  shows "case ap_actor_token p of
      Some token \<Rightarrow>
        \<exists>disp now actor. oc_dispatcher cfg = Some disp
          \<and> verify_no_replay (d_lib disp) (d_verifier disp) now token
              \<lparr>ec_method = ''POST'', ec_path = ''update_assignment''\<rparr> = Inr actor
          \<and> tunnel_actor_allowed (d_lib disp) actor (d_policy disp) ''update_assignment''
    | None \<Rightarrow> ap_force p \<noteq> Some True \<and> ap_allow_downgrade p \<noteq> Some True
        \<and> strictly_newer (bx_running b) (ap_target_version p)"
proof -
  have "ota_inv cfg factory b" unfolding assms(1) ota_run_def by (rule installs.run_keeps) (rule inv_factory)
  then have "task_ok cfg (bx_running b) t" using assms(2) by (simp add: ota_inv_def)
  then have "update_admitted cfg (bx_running b) p"
    using assms(3) by (cases t rule: pending_update.cases) simp_all
  then show ?thesis
    by (auto simp: update_admitted_def assignment_ok_def update_actor_def tokenless_target_allowed_from_def split: option.splits)
qed

theorem pending_update_was_authorised_witness:
  "\<exists>t \<in> set (bx_tasks (ota_run demo_ota (map (Pair demo_answers) [Assignment (demo_update ''1.0.1''), Run 0, Run 0])
       (factory_box demo_factory ''1.0.0'' ''1.0.0''))).
     \<exists>p. pending_update t = Some p \<and> ap_actor_token p = None \<and> strictly_newer ''1.0.0'' (ap_target_version p)"
proof -
  let ?p = "demo_update ''1.0.1''"
  define b where "b = ota_run demo_ota (map (Pair demo_answers) [Assignment ?p, Run 0, Run 0])
    (factory_box demo_factory ''1.0.0'' ''1.0.0'')"
  note c = update_commits [OF demo_smooth _ _ demo_good b_def [folded demo_box_def]]
  let ?t = "Install ?p (committed demo_answers ?p demo_box) ''1.0.1''"
  have t: "?t \<in> set (bx_tasks b)" using c(2) by simp
  have r: "bx_running b = ''1.0.0''" using c(3) by simp
  have n: "ap_actor_token ?p = None" by (simp add: demo_update_def)
  have "strictly_newer ''1.0.0'' (ap_target_version ?p)"
    using pending_update_was_authorised [OF b_def t, of ?p] n r by simp
  with t n show ?thesis unfolding b_def by (intro bexI [of _ ?t] exI [of _ ?p]) simp_all
qed

text \<open>
  C32. A good update on a reachable box succeeds.  If an assignment passes the gate, its manifest
  verifies, the download has the digest it names, and the tarball unpacks to the version it
  is for, then, with no fault on the way and no other task at work, the script flips the link to that
  version and schedules the restart of the unit; the restart boots that version; and once the
  tunnel has authenticated and one heartbeat was answered, the next poll declares success, with
  the version that was current before as the one to return to.
\<close>

theorem good_update_succeeds:
  assumes "smooth an" and "bx_up b" and "bx_tasks b = []" and "good_update cfg an p content b"
    and "validate_version (ap_target_version p)"
    and "rl_untar (oc_lib cfg) content = Some (ap_target_version p, ap_target_version p)"
    and flipped: "b1 = ota_run cfg (map (Pair an) [Assignment p, Run 0, Run 0, Run 0, Run 0, Run 0]) b"
    and b': "b' = ota_run cfg (map (Pair an) [Restart d, Authenticated, Heartbeat_Ack, Run 0]) b1"
  shows "bx_scheduled b1 \<and> bx_current b1 = ap_target_version p \<and> bx_running b1 = bx_running b
    \<and> bx_running b' = ap_target_version p \<and> bx_current b' = ap_target_version p
    \<and> engine_of (oc_lib cfg) (bx_releases b' (ap_target_version p)) = Some (ap_target_version p)
    \<and> (\<exists>s. bx_db b' = Some s \<and> us_last_phase s = Some ''success'' \<and> us_last_result s = Some ''success''
          \<and> us_current_version s = Some (ap_target_version p) \<and> us_active_assignment_id s = None
          \<and> us_previous_good s =
              Some (case us_current_version (read_state an b) of None \<Rightarrow> bx_running b | Some v \<Rightarrow> v))"
proof -
  define b8 where "b8 = ota_run cfg (map (Pair an) (update_actions p @ [Restart d, Authenticated, Heartbeat_Ack])) b"
  note u = update_proved [OF assms(1-6) b8_def]
  note fl = update_flips [OF assms(1-6) flipped [folded update_actions_def]]
  obtain i where t: "bx_tasks b8 = [Prove (committed an p b) i (d + TUNNEL_PROOF_WINDOW)]" using u(3) by auto
  have "b' = ota_step cfg (an, Run 0) b8" by (simp add: b' flipped b8_def ota_run_def update_actions_def)
  then show ?thesis
    using poll_blesses [OF assms(1) u(6) t u(7), of cfg] u fl(1,2,6) assms(6)
    by (simp add: committed_def commit_state_def SUCCESS_def engine_unpacked)
qed

theorem good_update_succeeds_witness:
  "bx_scheduled (ota_run demo_ota (map (Pair demo_answers) [Assignment (demo_update ''1.0.1''), Run 0, Run 0, Run 0, Run 0, Run 0])
       demo_box)
   \<and> bx_running (ota_run demo_ota (map (Pair demo_answers) [Restart 5, Authenticated, Heartbeat_Ack, Run 0])
       (ota_run demo_ota (map (Pair demo_answers) [Assignment (demo_update ''1.0.1''), Run 0, Run 0, Run 0, Run 0, Run 0])
         demo_box)) = ''1.0.1''"
proof -
  have t: "ap_target_version (demo_update ''1.0.1'') = ''1.0.1''" by (simp add: demo_update_def)
  from good_update_succeeds [OF demo_smooth _ _ demo_good _ _ refl refl, of demo_box 5] t demo_valid demo_untar
  show ?thesis by simp
qed

text \<open>
  C33. Success means reachable.  In any history, the step that turns the persisted phase
  into \<open>success\<close> is taken by a process in which the tunnel has authenticated and the cloud has
  answered a heartbeat, and the version it blesses is the one that process runs.
\<close>

theorem success_means_reachable:
  assumes "b = ota_run cfg evs (factory_box factory current running)"
    and "\<forall>s. bx_db b = Some s \<longrightarrow> us_last_phase s \<noteq> Some ''success''"
    and "bx_db (ota_step cfg ev b) = Some s'" and "us_last_phase s' = Some ''success''"
  shows "tl_authenticated (bx_live b) \<and> 0 < tl_last_ack_ms (bx_live b)
    \<and> us_current_version s' = Some (bx_running b)"
proof -
  have inv: "phase_inv b" unfolding assms(1) ota_run_def by (rule phases.run_keeps [OF phase_factory])
  obtain an ac where ev: "ev = (an, ac)" by fastforce
  have ub: "unblessed b" "\<not> unblessed (ota_step cfg (an, ac) b)"
    using assms(2-4) by (auto simp: unblessed_def db_phase_def SUCCESS_def ev split: option.splits)
  from inv ub show ?thesis
  proof (rule blessing_step)
    fix n s i deadline
    assume n: "ac = Run n" "n < length (bx_tasks b)" "bx_tasks b ! n = Prove s i deadline"
      and cur: "us_current_version s = Some (bx_running b)" and hb: "heartbeat_since_boot (bx_live b)" and up: "bx_up b"
    let ?b = "b\<lparr>bx_tasks := drop_nth n (bx_tasks b)\<rparr>"
    have "ota_step cfg ev b = proof_succeeded an s i ?b"
      using n hb up by (simp add: ev ota_step_def process_step_def step_task_def run_task_def poll_proof_def)
    then have "bx_db (ota_step cfg ev b) = bx_db b
        \<or> (\<exists>s1. bx_db (ota_step cfg ev b) = Some s1 \<and> us_current_version s1 = us_current_version s)"
      by (simp add: proof_succeeded_def Let_def write_state_def emit_progress_def spawn_task_def split: option.splits)
    then have "us_current_version s' = Some (bx_running b)"
      using assms(2-4) cur by auto
    with hb show ?thesis by (simp add: heartbeat_since_boot_def)
  qed
qed

theorem success_means_reachable_witness:
  "\<exists>b s'. bx_db (ota_step demo_ota (demo_answers, Run 0) b) = Some s' \<and> us_last_phase s' = Some ''success''
     \<and> bx_running b = ''1.0.1'' \<and> us_current_version s' = Some (bx_running b) \<and> 0 < tl_last_ack_ms (bx_live b)"
proof -
  let ?p = "demo_update ''1.0.1''"
  have t: "ap_target_version ?p = ''1.0.1''" by (simp add: demo_update_def)
  define b where "b = ota_run demo_ota (map (Pair demo_answers) (update_actions ?p @ [Restart 5,
      Authenticated, Heartbeat_Ack])) (factory_box demo_factory ''1.0.0'' ''1.0.0'')"
  note u = update_proved [OF demo_smooth _ _ demo_good _ _ b_def [folded demo_box_def], unfolded t]
  obtain i where tk: "bx_tasks b = [Prove (committed demo_answers ?p demo_box) i (5 + TUNNEL_PROOF_WINDOW)]"
    using u(3) demo_valid demo_untar by auto
  have bl: "bx_up b" "heartbeat_since_boot (bx_live b)" "bx_running b = ''1.0.1''"
    "bx_db b = Some (committed demo_answers ?p demo_box)"
    using u demo_valid demo_untar by simp_all
  obtain s' where s': "bx_db (ota_step demo_ota (demo_answers, Run 0) b) = Some s'" "us_last_phase s' = Some ''success''"
    using poll_blesses(1) [OF demo_smooth bl(1) tk bl(2), of demo_ota] by (simp add: SUCCESS_def)
  have "\<forall>s. bx_db b = Some s \<longrightarrow> us_last_phase s \<noteq> Some ''success''"
    using bl(4) by (simp add: committed_def commit_state_def RESTARTING_def)
  from success_means_reachable [OF b_def this s'] s' bl(3) show ?thesis by blast
qed

text \<open>
  C34. The watchdog acts at most once per boot, and only on a box that is dark.  If a tick changes
  anything, a window is configured, the box is enrolled, the grace period of fifteen minutes is over
  and the cloud has not answered for the whole window; and after it, in whatever happens before
  the next restart, no further tick changes anything.
\<close>

theorem watchdog_acts_once_per_boot:
  assumes "ota_step cfg (an, Watchdog) b \<noteq> b"
    and "\<forall>ev \<in> set evs. \<not> restarts (snd ev)"
    and "b' = ota_run cfg evs (ota_step cfg (an, Watchdog) b)"
  shows "(\<exists>window. dark_window (oc_dark_window_hours cfg) = Some window
            \<and> as_millis_u64 window \<le> dark_ms (bx_clock b) (bx_live b))
    \<and> an_enrolled an = Some True \<and> 900000000000 \<le> bx_clock b - bx_armed b
    \<and> ota_step cfg (an', Watchdog) b' = b'"
proof (rule watchdog_acts [OF assms(1)])
  fix window
  assume w: "dark_window (oc_dark_window_hours cfg) = Some window" "WATCHDOG_GRACE \<le> bx_clock b - bx_armed b"
    "an_enrolled an = Some True" "as_millis_u64 window \<le> dark_ms (bx_clock b) (bx_live b)"
    and l: "tl_reflipped (bx_live (ota_step cfg (an, Watchdog) b))"
  have "tl_reflipped (bx_live b')" unfolding assms(3) by (rule latch_run [OF l assms(2)])
  then show ?thesis using w by (auto simp: latched_watchdog WATCHDOG_GRACE_def)
qed

lemma demo_dark:
  "ota_step demo_ota (demo_answers, Watchdog) (demo_box\<lparr>bx_clock := 46800000000000\<rparr>)
   = demo_box\<lparr>bx_clock := 46800000000000, bx_live := liveness_new\<lparr>tl_reflipped := True\<rparr>\<rparr>"
proof -
  have "dark_window (oc_dark_window_hours demo_ota) = Some 43200000000000"
    by (simp add: dark_window_def demo_ota_def)
  moreover have "as_millis_u64 43200000000000 = 43200000" "as_millis_u64 46800000000000 = 46800000"
    by (simp_all add: as_millis_u64_def)
  ultimately show ?thesis
    by (simp add: ota_step_def process_step_def watchdog_tick_def WATCHDOG_GRACE_def demo_answers_def dark_ms_def
        liveness_new_def previous_good_version_def read_state_def update_state_default_def Let_def demo_box_def factory_box_def)
qed

theorem watchdog_acts_once_per_boot_witness:
  "ota_step demo_ota (demo_answers, Watchdog) (demo_box\<lparr>bx_clock := 46800000000000\<rparr>)
     \<noteq> demo_box\<lparr>bx_clock := 46800000000000\<rparr>
   \<and> (let b' = ota_run demo_ota [(demo_answers, Elapse 46800000000000)]
                (ota_step demo_ota (demo_answers, Watchdog) (demo_box\<lparr>bx_clock := 46800000000000\<rparr>))
      in ota_step demo_ota (demo_answers, Watchdog) b' = b')"
proof -
  let ?b = "demo_box\<lparr>bx_clock := 46800000000000\<rparr>"
  have "bx_live (ota_step demo_ota (demo_answers, Watchdog) ?b) \<noteq> bx_live ?b"
    unfolding demo_dark by (simp add: liveness_new_def)
  then have n: "ota_step demo_ota (demo_answers, Watchdog) ?b \<noteq> ?b" by metis
  have "\<forall>ev \<in> set [(demo_answers, Elapse 46800000000000)]. \<not> restarts (snd ev)"
    by (simp add: restarts_def)
  from watchdog_acts_once_per_boot [OF n this refl, of demo_answers] n show ?thesis
    unfolding Let_def by blast
qed

text \<open>A heartbeat answered within the window keeps the watchdog still.\<close>

lemma acked_box_is_not_dark:
  assumes "clock div 1000000 < 2 ^ 64" and "ack \<le> clock" and "1000000 \<le> ack"
  shows "unat (dark_ms clock (mark_ack ack l)) = clock div 1000000 - ack div 1000000"
proof -
  have le: "ack div 1000000 \<le> clock div 1000000" using assms(2) by (rule div_le_mono)
  have pos: "1 \<le> ack div 1000000" using div_le_mono [OF assms(3), of 1000000] by simp
  have u: "unat (as_millis_u64 ack) = ack div 1000000" "unat (as_millis_u64 clock) = clock div 1000000"
    using le assms(1) by (simp_all add: as_millis_u64_def unat_of_nat take_bit_eq_mod)
  then have "max (as_millis_u64 ack) 1 = as_millis_u64 ack" "as_millis_u64 ack \<noteq> 0"
    using pos by (auto simp: word_le_nat_alt)
  then show ?thesis by (simp add: dark_ms_def mark_ack_def Let_def unat_sat_sub_word u)
qed

end
