(* ===== verification/Ota_Rollback.thy ===== *)
theory Ota_Rollback
  imports Ota_Properties
begin

text \<open>
  Three histories in which \<open>cloud_update.rs\<close> and its scripts do not do what their comments say:
  a box that was rolled back because the cloud is unreachable restarts for as long as it stays
  unreachable; an update that is interrupted and delivered again makes the new release its
  own rollback target; and a prune that overlaps an update removes the tree it is about to start.
\<close>

section \<open>The cycle of an unreachable box\<close>

definition awaiting_proof :: "'key ota_config \<Rightarrow> string \<Rightarrow> box \<Rightarrow> bool" where
  "awaiting_proof cfg v b \<longleftrightarrow>
     bx_up b \<and> \<not> heartbeat_since_boot (bx_live b)
     \<and> engine_of (oc_lib cfg) (bx_releases b v) = Some v \<and> validate_version v
     \<and> (\<exists>s i deadline. bx_tasks b = [Prove s i deadline] \<and> us_previous_good s = Some v \<and> bx_db b = Some s
          \<and> deadline \<le> bx_clock b + TUNNEL_PROOF_WINDOW)"

text \<open>The proof window passes in silence, the poll gives up, the script checks the tree and flips the link, the
  unit restarts.\<close>

definition dark_cycle :: "world_answers \<Rightarrow> nat \<Rightarrow> (world_answers \<times> action) list" where
  "dark_cycle an d = map (Pair an) [Elapse TUNNEL_PROOF_WINDOW, Run 0, Run 0, Run 0, Restart d]"

text \<open>The state in which every turn of the cycle ends: the version the box returned to is both current and
  the one to return to, and the attempt still counts as unfinished.\<close>

definition turned_back :: "string \<Rightarrow> box \<Rightarrow> bool" where
  "turned_back v b \<longleftrightarrow>
     bx_running b = v \<and> bx_current b = v
     \<and> (\<exists>s. bx_db b = Some s \<and> us_current_version s = Some v \<and> us_previous_good s = Some v
          \<and> us_last_phase s = Some RESTARTING)"

lemma dark_poll:
  assumes "smooth an" and "bx_up b" and "\<not> heartbeat_since_boot (bx_live b)" and "bx_tasks b = [Prove s i deadline]"
    and "us_previous_good s = Some v" and "deadline \<le> bx_clock b + TUNNEL_PROOF_WINDOW"
    and b': "b' = ota_run cfg (map (Pair an) [Elapse TUNNEL_PROOF_WINDOW, Run 0]) b"
  shows "bx_tasks b' = [Reflip v]" "bx_up b'" "bx_releases b' = bx_releases b"
    "\<exists>s'. bx_db b' = Some s' \<and> us_current_version s' = Some v \<and> us_previous_good s' = Some v
        \<and> us_last_phase s' = Some RESTARTING"
proof -
  define b1 where "b1 = b\<lparr>bx_clock := bx_clock b + TUNNEL_PROOF_WINDOW\<rparr>"
  have f: "bx_up b1" "bx_tasks b1 = [Prove s i deadline]" using assms(2,4) by (simp_all add: b1_def)
  have "b' = ota_step cfg (an, Run 0) b1"
    using assms(2) by (simp add: b' ota_run_def ota_step_def [of _ "(an, Elapse _)"] process_step_def b1_def)
  also have "\<dots> = proof_failed an s i (b1\<lparr>bx_tasks := []\<rparr>)"
    unfolding run_single [OF f] using assms(3,6) by (simp add: run_task_def poll_proof_def b1_def)
  finally have e: "b' = proof_failed an s i (b1\<lparr>bx_tasks := []\<rparr>)" .
  show "bx_tasks b' = [Reflip v]" "bx_up b'" "bx_releases b' = bx_releases b"
    "\<exists>s'. bx_db b' = Some s' \<and> us_current_version s' = Some v \<and> us_previous_good s' = Some v
        \<and> us_last_phase s' = Some RESTARTING"
    using assms(2,5)
    by (simp_all add: e proof_failed_def reflip_to_def Let_def smooth_state [OF assms(1)] spawn_task_def
        emit_progress_def rolled_back_state_def b1_def)
qed

lemma dark_reflip:
  assumes "smooth an" and "awaiting_proof cfg v b"
    and b': "b' = ota_run cfg (take 4 (dark_cycle an d)) b"
  shows "bx_scheduled b'" "bx_current b' = v" "bx_up b'" "bx_releases b' = bx_releases b"
    "\<exists>s'. bx_db b' = Some s' \<and> us_current_version s' = Some v \<and> us_previous_good s' = Some v
        \<and> us_last_phase s' = Some RESTARTING"
proof -
  from assms(2) obtain s i deadline where a: "bx_up b" "\<not> heartbeat_since_boot (bx_live b)"
    "bx_tasks b = [Prove s i deadline]" "us_previous_good s = Some v" "deadline \<le> bx_clock b + TUNNEL_PROOF_WINDOW"
    and v: "engine_of (oc_lib cfg) (bx_releases b v) = Some v" "validate_version v"
    unfolding awaiting_proof_def by blast
  define b2 where "b2 = ota_run cfg (map (Pair an) [Elapse TUNNEL_PROOF_WINDOW, Run 0]) b"
  note p = dark_poll [OF assms(1) a b2_def]
  have on_disk: "bx_releases (b2\<lparr>bx_tasks := []\<rparr>) v \<noteq> None"
    using v(1) p(3) by (cases "bx_releases b v") (auto simp: engine_of_def)
  define b3 where "b3 = b2\<lparr>bx_tasks := [Link v After_Reflip]\<rparr>"
  have 3: "ota_step cfg (an, Run 0) b2 = b3"
    unfolding run_single [OF p(2,1)]
    by (simp add: run_task_def reflip_flip_def smooth_reflip [OF assms(1) v(2) on_disk] spawn_task_def b3_def)
  have t: "bx_up b3" "bx_tasks b3 = [Link v After_Reflip]" using p(2) by (simp_all add: b3_def)
  have "b' = ota_step cfg (an, Run 0) (ota_step cfg (an, Run 0) b2)"
    by (simp add: b' b2_def dark_cycle_def ota_run_def)
  also have "\<dots> = b3\<lparr>bx_tasks := [], bx_current := v, bx_scheduled := True\<rparr>"
    unfolding 3 run_single [OF t] by (simp add: run_task_def smooth_link [OF assms(1)])
  also have "\<dots> = b2\<lparr>bx_tasks := [], bx_current := v, bx_scheduled := True\<rparr>" by (simp add: b3_def)
  finally show "bx_scheduled b'" "bx_current b' = v" "bx_up b'" "bx_releases b' = bx_releases b"
    "\<exists>s'. bx_db b' = Some s' \<and> us_current_version s' = Some v \<and> us_previous_good s' = Some v
        \<and> us_last_phase s' = Some RESTARTING"
    using p by simp_all
qed

lemma dark_cycle_turns:
  assumes "smooth an" and "awaiting_proof cfg v b"
    and b': "b' = ota_run cfg (dark_cycle an d) b"
  shows "awaiting_proof cfg v b'" "turned_back v b'"
proof -
  have v: "engine_of (oc_lib cfg) (bx_releases b v) = Some v" "validate_version v"
    using assms(2) by (simp_all add: awaiting_proof_def)
  define b3 where "b3 = ota_run cfg (take 4 (dark_cycle an d)) b"
  note p = dark_reflip [OF assms(1,2) b3_def]
  obtain s where s: "bx_db b3 = Some s" "us_current_version s = Some v" "us_previous_good s = Some v"
    "us_last_phase s = Some RESTARTING" using p(5) by blast
  have "b' = ota_step cfg (an, Restart d) b3" by (simp add: b' b3_def dark_cycle_def ota_run_def)
  also have "\<dots> = boot_box cfg an d b3" using p(3) by (simp add: ota_step_def process_step_def)
  also have "\<dots> = (boot_process v d b3)\<lparr>bx_staged := None,
     bx_tasks := [Prove s (case us_active_assignment_id s of None \<Rightarrow> ''recover-'' @ an_uuid an | Some i \<Rightarrow> i)
                    (d + TUNNEL_PROOF_WINDOW)]\<rparr>"
    by (rule boot_proves [OF assms(1) _ s(1,4,2)]) (use p v in simp)
  finally show "awaiting_proof cfg v b'" "turned_back v b'"
    using p(2,4) s v
    by (simp_all add: awaiting_proof_def turned_back_def boot_process_def heartbeat_since_boot_def liveness_new_def)
qed

lemma dark_cycles:
  assumes "smooth an" and "awaiting_proof cfg v b"
  shows "awaiting_proof cfg v (ota_run cfg (concat (replicate n (dark_cycle an d))) b)"
  using assms(2)
proof (induction n arbitrary: b)
  case 0
  then show ?case by (simp add: ota_run_def)
next
  case (Suc n)
  have "ota_run cfg (concat (replicate (Suc n) (dark_cycle an d))) b
      = ota_run cfg (concat (replicate n (dark_cycle an d))) (ota_run cfg (dark_cycle an d) b)"
    by (simp add: ota_run_def)
  then show ?case using Suc.IH [OF dark_cycle_turns(1) [OF assms(1) Suc.prems refl]] by simp
qed

text \<open>
  C35. A box that is rolled back because the cloud is unreachable restarts every ten minutes for as long
  as the cloud stays unreachable.  Rolling back leaves the phase at \<open>restarting\<close> with the version
  returned to as both the current one and the one to return to; so each boot of it waits for the
  tunnel again, gives up again, \<open>rolls back\<close> to the very version it is running, and schedules the next
  restart.  After any number of turns the box runs the old release and is about to restart, although
  \<open>cloud_liveness.rs\<close> promises that after one step back \<open>we stay there\<close>.
\<close>

theorem unreachable_box_restarts_forever:
  assumes "smooth an" and "awaiting_proof cfg v b"
    and "b' = ota_run cfg (concat (replicate (Suc n) (dark_cycle an d))) b"
  shows "bx_running b' = v \<and> bx_current b' = v
    \<and> (\<exists>s. bx_db b' = Some s \<and> us_current_version s = Some v \<and> us_previous_good s = Some v
          \<and> us_last_phase s = Some ''restarting'')
    \<and> bx_scheduled (ota_run cfg (take 4 (dark_cycle an d)) b')
    \<and> bx_current (ota_run cfg (take 4 (dark_cycle an d)) b') = bx_running b'"
proof -
  define c where "c = ota_run cfg (concat (replicate n (dark_cycle an d))) b"
  have "concat (replicate (Suc n) (dark_cycle an d)) = concat (replicate n (dark_cycle an d)) @ dark_cycle an d"
    unfolding replicate_Suc replicate_append_same [symmetric] by simp
  then have e: "b' = ota_run cfg (dark_cycle an d) c" unfolding assms(3) c_def ota_run_def by simp
  have "awaiting_proof cfg v c" unfolding c_def by (rule dark_cycles [OF assms(1,2)])
  note t = dark_cycle_turns [OF assms(1) this e]
  from dark_reflip [OF assms(1) t(1) refl, of d] t(2) show ?thesis
    by (auto simp: turned_back_def RESTARTING_def)
qed

text \<open>A box gets there by updating to a release that cannot reach the cloud.\<close>

lemma dark_update_awaits:
  assumes "smooth an" and "bx_up b" and "bx_tasks b = []" and "good_update cfg an p content b"
    and "validate_version (ap_target_version p)"
    and "rl_untar (oc_lib cfg) content = Some (ap_target_version p, ap_target_version p)"
    and "us_current_version (read_state an b) = None \<or> us_current_version (read_state an b) = Some (bx_running b)"
    and "engine_of (oc_lib cfg) (bx_releases b (bx_running b)) = Some (bx_running b)" and "validate_version (bx_running b)"
    and b': "b' = ota_run cfg (map (Pair an) (update_actions p @ [Restart d])) b"
  shows "awaiting_proof cfg (bx_running b) b'"
proof -
  have ne: "ap_target_version p \<noteq> bx_running b" using assms(4) by (simp add: good_update_def)
  have pg: "us_previous_good (committed an p b) = Some (bx_running b)"
    using assms(7) by (auto simp: committed_def commit_state_def)
  from update_boots [OF assms(1-6) b'] pg ne assms(8,9) show ?thesis
    by (auto simp: awaiting_proof_def heartbeat_since_boot_def liveness_new_def)
qed

theorem unreachable_box_restarts_forever_witness:
  "\<exists>b. awaiting_proof demo_ota ''1.0.0'' b \<and> bx_running b = ''1.0.1''
     \<and> bx_running (ota_run demo_ota (concat (replicate (Suc 9) (dark_cycle demo_answers 5))) b) = ''1.0.0''"
proof -
  let ?p = "demo_update ''1.0.1''"
  have t: "ap_target_version ?p = ''1.0.1''" by (simp add: demo_update_def)
  define b where "b = ota_run demo_ota (map (Pair demo_answers) (update_actions ?p @ [Restart 5])) demo_box"
  have g: "good_update demo_ota demo_answers ?p ''1.0.1'' demo_box" by (rule demo_good) simp
  have "bx_running b = ''1.0.1''"
    using update_boots(1) [OF demo_smooth _ _ g _ _ b_def] t demo_valid demo_untar by simp
  moreover have e: "engine_of (oc_lib demo_ota) (bx_releases demo_box (bx_running demo_box)) = Some (bx_running demo_box)"
    by (simp add: engine_of_def demo_factory_def demo_untar)
  have "us_current_version (read_state demo_answers demo_box) = None"
    by (simp add: smooth_state(1) [OF demo_smooth] update_state_default_def)
  then have a: "awaiting_proof demo_ota ''1.0.0'' b"
    using dark_update_awaits [OF demo_smooth _ _ g _ _ _ e _ b_def] t demo_valid demo_untar by simp
  moreover from unreachable_box_restarts_forever [OF demo_smooth a refl, of 9 5]
  have "bx_running (ota_run demo_ota (concat (replicate (Suc 9) (dark_cycle demo_answers 5))) b) = ''1.0.0''" by blast
  ultimately show ?thesis by blast
qed

section \<open>An interrupted update\<close>

text \<open>The script is killed before it flips the link.\<close>

lemma cut_apply:
  assumes "bx_staged b = Some content" and "rl_untar lib content = Some (t, w)" and b': "b' = snd (do_apply lib ae v b)"
  shows "bx_current b' = bx_current b" "\<And>d. d \<noteq> t \<Longrightarrow> bx_releases b' d = bx_releases b d" "bx_db b' = bx_db b"
  using assms by (auto simp: do_apply_def Let_def)

text \<open>Booting another version than the one the state announces counts one crash.\<close>

lemma boot_counts:
  assumes "an_read_ok an" and "\<And>n. an_write_ok an n" and "engine_of (oc_lib cfg) (bx_releases b (bx_current b)) = Some v"
    and "bx_db b = Some s" and "us_last_phase s = Some RESTARTING" and "us_current_version s \<noteq> Some v"
    and "us_crash_count s = 0" and b': "b' = boot_box cfg an d b"
  shows "bx_db b' = Some (s\<lparr>us_crash_count := 1\<rparr>)" "bx_running b' = v" "bx_tasks b' = []" "bx_up b'"
    "bx_releases b' = bx_releases b" "bx_current b' = bx_current b"
proof -
  have "\<not> (3 :: u32) \<le> 1" by (simp add: word_le_nat_alt)
  then show "bx_db b' = Some (s\<lparr>us_crash_count := 1\<rparr>)" "bx_running b' = v" "bx_tasks b' = []" "bx_up b'"
    "bx_releases b' = bx_releases b" "bx_current b' = bx_current b"
    using assms
    by (simp_all add: boot_box_def finalize_pending_update_def read_state_def write_state_def boot_process_def
        discard_staged_tarball_def sat_add_word_def Let_def)
qed

lemma interrupted_update:
  assumes "smooth an" and "bx_up b" and "bx_tasks b = []" and "good_update cfg an p content b"
    and "rl_untar (oc_lib cfg) content = Some (ap_target_version p, w)"
    and "engine_of (oc_lib cfg) (bx_releases b (bx_current b)) = Some (bx_running b)"
    and "bx_current b \<noteq> ap_target_version p" and "us_crash_count (read_state an b) = 0"
    and "ae_spawned ae" and "ae_killed_at ae = Some k" and "k \<le> 2"
    and b': "b' = ota_run cfg (map (Pair an) [Assignment p, Run 0, Run 0, Run 0]
                 @ [(an\<lparr>an_applier := ae\<rparr>, Power_Loss 0 d)]) b"
  shows "bx_db b' = Some ((committed an p b)\<lparr>us_crash_count := 1\<rparr>)" "bx_running b' = bx_running b"
    "bx_tasks b' = []" "bx_up b'"
proof -
  let ?an = "an\<lparr>an_applier := ae\<rparr>"
  define b4 where "b4 = ota_run cfg (map (Pair an) [Assignment p, Run 0, Run 0, Run 0]) b"
  note st = update_stages [OF assms(1-4) b4_def]
  define b5 where "b5 = snd (do_apply (oc_lib cfg) ae (ap_target_version p) b4)"
  have c: "bx_current b5 = bx_current b4" "bx_releases b5 (bx_current b) = bx_releases b4 (bx_current b)"
    "bx_db b5 = bx_db b4"
    using cut_apply [OF st(3) assms(5) b5_def] assms(7) by simp_all
  have "b' = ota_step cfg (?an, Power_Loss 0 d) b4" by (simp add: b' b4_def ota_run_def)
  also have "\<dots> = boot_box cfg ?an d b5"
    using st(2,7) assms(9) by (simp add: ota_step_def process_step_def cut_command_def b5_def)
  finally have e: "b' = boot_box cfg ?an d b5" .
  have ok: "an_read_ok ?an" "an_write_ok ?an n" for n using assms(1) by (simp_all add: smooth_def)
  have eng: "engine_of (oc_lib cfg) (bx_releases b5 (bx_current b5)) = Some (bx_running b)" using c st(5,6) assms(6) by simp
  have s: "us_last_phase (committed an p b) = Some RESTARTING" "us_current_version (committed an p b) \<noteq> Some (bx_running b)"
    "us_crash_count (committed an p b) = 0"
    using assms(4,8) by (simp_all add: committed_def commit_state_def good_update_def)
  have db: "bx_db b5 = Some (committed an p b)" using c(3) st(1) by simp
  note bc = boot_counts [OF ok eng db s e]
  then show "bx_db b' = Some ((committed an p b)\<lparr>us_crash_count := 1\<rparr>)" "bx_running b' = bx_running b"
    "bx_tasks b' = []" "bx_up b'" by simp_all
qed

text \<open>
  C36. An interrupted update takes away the rollback target of the next one.  If the power fails while the
  applier of an update to \<open>t\<close> is still before the flip of the link, the box comes back on its old
  release, but the persisted state names \<open>t\<close> as current.  The next assignment, a second delivery of
  \<open>t\<close> or any other, then records \<open>t\<close>, a version the box has never run, as the known-good version to
  return to, and the release that was running before is forgotten.
\<close>

theorem interrupted_update_loses_rollback_target:
  assumes "smooth an" and "bx_up b" and "bx_tasks b = []" and "good_update cfg an p content b"
    and "rl_untar (oc_lib cfg) content = Some (ap_target_version p, w)"
    and "engine_of (oc_lib cfg) (bx_releases b (bx_current b)) = Some (bx_running b)"
    and "bx_current b \<noteq> ap_target_version p" and "us_crash_count (read_state an b) = 0"
    and "ae_spawned ae" and "ae_killed_at ae = Some k" and "k \<le> 2"
    and "b1 = ota_run cfg (map (Pair an) [Assignment p, Run 0, Run 0, Run 0]
                @ [(an\<lparr>an_applier := ae\<rparr>, Power_Loss 0 d)]) b"
    and "good_update cfg an q content' b1"
    and "b2 = ota_run cfg (map (Pair an) [Assignment q, Run 0, Run 0]) b1"
  shows "bx_running b2 = bx_running b
    \<and> (\<exists>s. bx_db b2 = Some s \<and> us_previous_good s = Some (ap_target_version p)
          \<and> us_current_version s = Some (ap_target_version q) \<and> us_last_phase s = Some ''restarting'')
    \<and> ap_target_version p \<noteq> bx_running b"
proof -
  note i = interrupted_update [OF assms(1-12)]
  note c = update_commits [OF assms(1) i(4,3) assms(13,14)]
  have "us_current_version (read_state an b1) = Some (ap_target_version p)"
    using i(1) by (simp add: smooth_state(1) [OF assms(1)] committed_def commit_state_def)
  then have "us_previous_good (committed an q b1) = Some (ap_target_version p)"
    "us_current_version (committed an q b1) = Some (ap_target_version q)"
    "us_last_phase (committed an q b1) = Some ''restarting''"
    by (simp_all add: committed_def commit_state_def RESTARTING_def)
  with c i(2) assms(4) show ?thesis by (simp add: good_update_def)
qed

theorem interrupted_update_loses_rollback_target_witness:
  "\<exists>evs s. bx_db (ota_run demo_ota evs demo_box) = Some s \<and> us_previous_good s = Some ''1.0.1''
     \<and> us_current_version s = Some ''1.0.1'' \<and> bx_running (ota_run demo_ota evs demo_box) = ''1.0.0''"
proof -
  let ?p = "demo_update ''1.0.1''" and ?ae = "demo_applier\<lparr>ae_killed_at := Some 1\<rparr>"
  let ?evs1 = "map (Pair demo_answers) [Assignment ?p, Run 0, Run 0, Run 0]
      @ [(demo_answers\<lparr>an_applier := ?ae\<rparr>, Power_Loss 0 5)]"
  let ?evs2 = "map (Pair demo_answers) [Assignment ?p, Run 0, Run 0]"
  have t: "ap_target_version ?p = ''1.0.1''" by (simp add: demo_update_def)
  define b1 where "b1 = ota_run demo_ota ?evs1 demo_box"
  define b2 where "b2 = ota_run demo_ota ?evs2 b1"
  have g: "good_update demo_ota demo_answers ?p ''1.0.1'' demo_box" by (rule demo_good) simp
  have h: "bx_up demo_box" "bx_tasks demo_box = []"
    "rl_untar (oc_lib demo_ota) ''1.0.1'' = Some (ap_target_version ?p, ''1.0.1'')"
    "engine_of (oc_lib demo_ota) (bx_releases demo_box (bx_current demo_box)) = Some (bx_running demo_box)"
    "bx_current demo_box \<noteq> ap_target_version ?p" "us_crash_count (read_state demo_answers demo_box) = 0"
    "ae_spawned ?ae" "ae_killed_at ?ae = Some 1" "(1::nat) \<le> 2"
    by (simp_all add: demo_untar t engine_of_def demo_factory_def smooth_state(1) [OF demo_smooth]
        update_state_default_def demo_applier_def)
  note i = interrupted_update [OF demo_smooth h(1,2) g h(3-9) b1_def]
  have g1: "good_update demo_ota demo_answers ?p ''1.0.1'' b1" by (rule demo_good) (simp add: i(2))
  from interrupted_update_loses_rollback_target [OF demo_smooth h(1,2) g h(3-9) b1_def g1 b2_def] t
  have r: "bx_running b2 = ''1.0.0''"
    "\<exists>s. bx_db b2 = Some s \<and> us_previous_good s = Some ''1.0.1'' \<and> us_current_version s = Some ''1.0.1''" by auto
  have "b2 = ota_run demo_ota (?evs1 @ ?evs2) demo_box" by (simp add: b2_def b1_def ota_run_def)
  with r show ?thesis by metis
qed

section \<open>Pruning under an update\<close>

text \<open>
  The scripts take no lock.  When the \<open>prune\<close> that follows one release's success falls into the gap between the
  extraction and the flip of the next one (apt runs there, for minutes), it keeps the running release and the
  rollback target and removes the tree that was just unpacked.  The script has already checked that tree, so it
  flips the link all the same and schedules the restart; after the restart there is no engine to start, and the
  box stays down.
\<close>

lemma prune_in_the_gap_leaves_no_engine:
  assumes "smooth an" and "bx_up b" and "bx_tasks b = [Link t k, Prune v]" and "validate_version v"
    and "bx_releases b v \<noteq> None" and "t \<noteq> v" and "t \<noteq> bx_current b" and "an_prune_ok an t"
    and b1: "b1 = ota_run cfg (map (Pair an) [Run 1, Run 1, Run 0]) b"
  shows "bx_scheduled b1 \<and> bx_current b1 = t \<and> bx_releases b1 t = None
    \<and> \<not> bx_up (ota_run cfg [(an, Restart d)] b1) \<and> ota_run cfg [(an, Restart d), (an, Restart d)] b1 = ota_run cfg [(an, Restart d)] b1"
proof -
  let ?keep = "{d \<in> {v, bx_current b}. bx_releases b d \<noteq> None}"
  define c1 where "c1 = b\<lparr>bx_tasks := [Link t k, Prune_Rest ?keep]\<rparr>"
  define c2 where "c2 = prune_rest (an_prune_ok an) ?keep (b\<lparr>bx_tasks := [Link t k]\<rparr>)"
  have keep: "?keep \<noteq> {}" "t \<notin> ?keep" using assms(5-7) by auto
  have 1: "ota_step cfg (an, Run 1) b = c1"
    using assms(2-4) keep(1)
    by (simp add: ota_step_def process_step_def step_task_def drop_nth_def run_task_def do_prune_def Let_def spawn_task_def c1_def
        del: not_None_eq)
  have 2: "ota_step cfg (an, Run 1) c1 = c2"
    using assms(2) by (simp add: ota_step_def process_step_def step_task_def drop_nth_def run_task_def c1_def c2_def)
  have t: "bx_up c2" "bx_tasks c2 = [Link t k]" using assms(2) by (simp_all add: c2_def prune_rest_def)
  have 3: "ota_step cfg (an, Run 0) c2 = c2\<lparr>bx_tasks := [], bx_current := t, bx_scheduled := True\<rparr>"
    unfolding run_single [OF t] by (simp add: run_task_def smooth_link [OF assms(1)])
  have e: "b1 = c2\<lparr>bx_tasks := [], bx_current := t, bx_scheduled := True\<rparr>"
    by (simp only: b1 ota_run_def list.map fold_simps 1 2 3)
  have gone: "bx_releases c2 t = None" using assms(6-8) by (simp add: c2_def prune_rest_def)
  then have down: "ota_run cfg [(an, Restart d)] b1 = b1\<lparr>bx_up := False, bx_tasks := [], bx_scheduled := False\<rparr>"
    using t(1) by (simp add: e ota_run_def ota_step_def process_step_def boot_box_def engine_of_def)
  have "ota_step cfg (an, Restart d) (b1\<lparr>bx_up := False, bx_tasks := [], bx_scheduled := False\<rparr>)
      = b1\<lparr>bx_up := False, bx_tasks := [], bx_scheduled := False\<rparr>"
    using gone by (simp add: e ota_step_def boot_box_def engine_of_def)
  then show ?thesis using gone down by (simp add: e ota_run_def)
qed

section \<open>What the crash counter counts\<close>

text \<open>
  A release that starts and dies is never counted: as long as the booted version is the one the
  state announces, any number of restarts leaves the persisted state, crash counter included,
  as it is.
\<close>

lemma crashes_of_the_new_release_uncounted:
  assumes "smooth an" and "bx_up b" and "engine_of (oc_lib cfg) (bx_releases b (bx_current b)) = Some v"
    and "bx_db b = Some s" and "us_last_phase s = Some RESTARTING" and "us_current_version s = Some v"
  shows "bx_db (ota_run cfg (replicate n (an, Restart d)) b) = Some s"
  using assms(2-)
proof (induction n arbitrary: b)
  case 0
  then show ?case by (simp add: ota_run_def)
next
  case (Suc n)
  note bp = boot_proves [OF assms(1) Suc.prems(2-5), of d]
  have "ota_run cfg (replicate (Suc n) (an, Restart d)) b = ota_run cfg (replicate n (an, Restart d)) (boot_box cfg an d b)"
    using Suc.prems(1) by (simp add: ota_run_def ota_step_def process_step_def)
  then show ?case using Suc.IH [of "boot_box cfg an d b"] Suc.prems by (simp add: bp boot_process_def)
qed

end
