(* ===== verification/Spec2Isabelle.thy ===== *)
theory Spec2Isabelle
  imports Prelude Backoff Outbox Sinks Delivery_Policy Sink_Dispatcher
    Replay_Caches Actor_Token Rpc_Dispatcher Preroll
    Users Lockout Sessions Access Login Session_Security Login_Security Users_Admin
    Disk Clip_Store Clip_Queries Storage_Safety Reclaim_Safety Storage_Guarantees Retention
    Cold_Backend Lan_Backend Cold_Replicator Cold_Replication Cold_Steps Cold_Guarantees Cold_Properties
    Cold_Cache_Properties Camera_Properties Release Ota Ota_Safety Ota_Properties Ota_Rollback
begin

text \<open>
  A verification development for Nexus Edge AI Core, the engine of a video
  appliance: cameras are recorded and analysed on the box, rules raise alerts,
  alerts are delivered through sinks (webhook, MQTT, cloud, \<dots>), and a cloud
  console calls back into the box through a tunnel.  The development models
  the paths on which a mistake loses an alert, lets a stranger act or destroys
  footage, or leaves the box on a release it should not run: delivery, remote
  calls, local accounts, clip storage, the supervision of cameras and updates.

  \<^bold>\<open>From alert to delivery\<close> (\<open>crates/nexus-store\<close>, \<open>crates/nexus-sinks\<close>,
  \<open>crates/nexus-engine\<close>).

  \<^item> \<open>Outbox\<close>: the transactional outbox of \<open>nexus-store/src/outbox.rs\<close> and
    the outbox operations of \<open>lib.rs\<close>, with the ids of the camera table that events
    refer to.  A table is a list of rows with the schema's uniqueness as an
    invariant; \<open>record_event_and_enqueue_classified\<close> is all or nothing and names the
    constraint it fails on, every status update touches one row, pruning only
    removes old terminal rows, hydration and rendering are inverse.
  \<^item> \<open>Backoff\<close>: the retry schedule of \<open>backoff.rs\<close> on 64-bit milliseconds,
    equal to its closed form.
  \<^item> \<open>Sinks\<close>: sink ids, the registry with its reserved sinks, the merge of
    file and database configuration (\<open>nexus-sinks/src/lib.rs\<close>), and the
    engine's router (\<open>sink_router.rs\<close>).
  \<^item> \<open>Delivery_Policy\<close>: weekly schedules, the cascade of switches
    (\<open>policy.rs\<close>), the cached policy with its reloads, and the entitlement gate
    that keeps the cloud sink on (\<open>entitlements.rs\<close>, \<open>cloud_alert_sink.rs\<close>).
  \<^item> \<open>Sink_Dispatcher\<close>: \<open>process_row\<close> with its helpers, the tick that fans out
    over sinks, the loop and its liveness counters (\<open>dispatcher.rs\<close>).  A world
    holds database, snapshots, published outcomes and the log of sink calls.
    The lemmas show that a row follows the abstract outbox machine
    (\<open>outbox_step\<close>), that attempts are bounded in every reachable world, that
    the interleaving of the concurrent groups does not matter, and what a row
    that waits for a clip is waiting for.

  \<^bold>\<open>From the cloud to the box\<close> (\<open>crates/nexus-cloud-client\<close>).

  \<^item> \<open>Replay_Caches\<close>: the replay window (\<open>jti_cache.rs\<close>) and the response cache
    (\<open>response_cache.rs\<close>), both bounded FIFO maps, with the locales
    \<open>fifo_window\<close> and \<open>fifo_store\<close> for what clients may assume.
  \<^item> \<open>Actor_Token\<close>: token verification, the route and permission tables, the
    body check and the builder (\<open>actor_token.rs\<close>, \<open>error.rs\<close>).
  \<^item> \<open>Rpc_Dispatcher\<close>: the dispatch path (\<open>dispatcher.rs\<close>) over both: what runs
    is authorised and audited, at most once per token and request id, and a
    retry is byte-identical.

  \<^bold>\<open>Local accounts\<close> (\<open>crates/nexus-store\<close>, \<open>crates/nexus-engine/src/auth\<close>).

  \<^item> \<open>Users\<close>: the user table of \<open>users.rs\<close> with its uniqueness rules and the guard
    for the last admin; \<open>Lockout\<close>: the failure counter of \<open>lockout.rs\<close>;
    \<open>Sessions\<close>: the refresh-token table of \<open>sessions.rs\<close>.
  \<^item> \<open>Access\<close>: passwords, access tokens and the role gate (\<open>passwords.rs\<close>,
    \<open>auth/sessions.rs\<close>, \<open>require_role.rs\<close>) over a cryptographic library that is a
    parameter (\<open>crypto_lib\<close>).
  \<^item> \<open>Login\<close>: the handlers of \<open>login.rs\<close>.  A statement whose error the handler only
    logs (the rotation mark of a refresh, the revocations after a password
    change) runs through \<open>best_effort\<close>, and the request says which of them the
    store refuses.  \<open>Session_Security\<close> shows that each handler is a step of an
    abstract session table, that a refresh token whose rotation was marked is used
    once, what happens when the mark is refused, and that replay ends the session;
    \<open>Login_Security\<close> what a login needs, that lockout holds and that a password
    change ends the sessions whose revocation the store takes; \<open>Users_Admin\<close> the
    handlers of \<open>users_admin.rs\<close> and that an admin survives.

  \<^bold>\<open>Recording and clip storage\<close> (\<open>crates/nexus-pipeline\<close>, \<open>crates/nexus-store\<close>,
  \<open>crates/nexus-engine\<close>).

  \<^item> \<open>Preroll\<close>: the GOP-aligned ring of \<open>preroll.rs\<close>.
  \<^item> \<open>Disk\<close>: directories and files, removal, and the directory walk of
    \<open>retention.rs\<close>, which returns exactly the files below its root.
  \<^item> \<open>Clip_Store\<close> and \<open>Clip_Queries\<close>: the statements of \<open>motion.rs\<close> and
    \<open>alert_clip.rs\<close> over the clip tables, the storage backends, the events they
    hang from and the cameras all of them refer to, whose deletion cascades;
    \<open>media_inv\<close> is the schema, its foreign keys and unique keys included, kept by
    every statement.
  \<^item> \<open>Storage_Safety\<close>: the watermark controller, the reclaim ladder and the
    sampling loop of \<open>storage_safety.rs\<close> with the evictor of
    \<open>alert_clip_evict.rs\<close>.  \<open>Reclaim_Safety\<close> shows that the ladder implements an
    abstract eviction machine (\<open>evict_step\<close>) and that progress shrinks the
    store; \<open>Storage_Guarantees\<close> what this means for a tick.  Every unlink may fail and
    every row write of the ladder may be refused; the machine's parameter is the
    set of clips whose hot pointer the store refused to clear, the only rows
    that may be left without their file, until a later tick clears them.
  \<^item> \<open>Retention\<close>: the sweep, orphan scan and outbox trim of \<open>retention.rs\<close>, with
    their exact effect on rows and files.

  \<^bold>\<open>Cold replication\<close> (\<open>crates/nexus-storage\<close>, \<open>crates/nexus-engine\<close>).

  \<^item> \<open>Cold_Backend\<close>: the \<open>ColdBackend\<close> trait as a record over a backend state, the
    locale \<open>cold_contract\<close> for what the replicator relies on, and the registry
    (\<open>nexus-storage/src/lib.rs\<close>).
  \<^item> \<open>Lan_Backend\<close>: the filesystem backend of \<open>lan.rs\<close>, an instance of the
    contract: \<open>put\<close> is atomic under a crash at any step, a sidecar that \<open>exists\<close>
    believes was written for content of the hash it names, streamed and
    buffered reads agree.
  \<^item> \<open>Cold_Replicator\<close>: the loop of \<open>cold_replicator.rs\<close> with its two drains, retry
    schedule and repeated announcements, over the statements of \<open>Clip_Store\<close>.
    \<open>Cold_Replication\<close> shows which rows an upload edits and how it ends;
    \<open>Cold_Steps\<close> carries a relation kept by the statements over whole runs
    (locale \<open>statement_relation\<close>); \<open>Cold_Guarantees\<close> proves from the contract that
    cold marks are backed; \<open>Cold_Properties\<close> states what this means with a share.
  \<^item> \<open>Cold_Cache\<close>: the jobs of \<open>cold_read_cache.rs\<close> that copy an evicted clip back,
    each a machine with one phase per \<open>await\<close>.  \<open>Cold_Cache_Jobs\<close> shows for every
    interleaving that there is one job per clip, that at most four are at work
    and that a partial file holds verified bytes when it is renamed;
    \<open>Cold_Cache_Properties\<close> that only bytes with the hash of the clip's row get its
    name, that every job whose read the backend answers ends (the read has no
    timeout: one that is never answered keeps its slot), that an uploaded and evicted clip comes back byte for byte
    (through the locale \<open>cold_source\<close>, met by the LAN backend), and that a fall
    of free space before the download is missed.

  \<^bold>\<open>Camera runtime\<close> (\<open>crates/nexus-engine\<close>, \<open>crates/nexus-config\<close>).

  \<^item> \<open>Reconciler\<close>: the controller of \<open>reconciler.rs\<close> that starts, stops and restarts
    camera supervisors to match the camera table, its boot and its shutdown in
    \<open>main.rs\<close>.  The state is the handle map and a log of what was done to the
    supervisors, the recorder and the caches; how they answer is the environment
    of a pass.  \<open>Camera_Runtime\<close> replays the log into the set of running
    supervisors, summarises every operation and states the locale \<open>per_camera\<close>,
    the contract of an operation on one camera, which both loops of a pass meet
    (\<open>Camera_Passes\<close>).  \<open>Camera_Boot\<close> adds boot and the reachable states,
    \<open>Camera_Properties\<close> the guarantees: the running supervisors are those of the
    map, a pass converges to the table, leaves unchanged cameras alone and is
    idempotent, boot agrees with the first pass, shutdown leaves none running.

  \<^bold>\<open>Updates\<close> (\<open>crates/nexus-engine\<close>, \<open>deploy\<close>).

  \<^item> \<open>Release\<close>: the signed manifest and its digest, the version rule
    (\<open>cloud_update.rs\<close>) and the update arms of the tunnel pump
    (\<open>cloud_tunnel.rs\<close>) over the token verifier of \<open>Actor_Token\<close>.  Equal
    signed texts name the same release.
  \<^item> \<open>Ota\<close>: an appliance with its release trees, \<open>current\<close> link, staging file,
    persisted update state and running process; the handlers of
    \<open>cloud_update.rs\<close> as tasks that stop where they can be overtaken or killed,
    the privileged script \<open>deploy/nexus-apply-release\<close> stage by stage, with a stop
    between the unpacking and the flip and between the choice of what to keep
    and the removal, since the scripts take no lock; the liveness signal and watchdog of \<open>cloud_liveness.rs\<close>, the boot of \<open>main.rs\<close>.
    \<open>Ota_Safety\<close> proves what every history keeps (interpretations of the locale
    \<open>preserved\<close>); \<open>Ota_Properties\<close> that only signed releases are installed, that
    pending updates were authorised, that a good update succeeds, that success
    needs an answered heartbeat and that the watchdog acts once per boot;
    \<open>Ota_Rollback\<close> two histories in which the rollback fails its purpose, and the
    race of a prune with an update that leaves the link dangling.

  Conventions.  Instants are nanoseconds (\<open>int\<close>), \<open>std::time::Duration\<close> is a
  natural number of nanoseconds, \<open>u32\<close> and \<open>u64\<close> counters that may wrap or
  saturate are words, \<open>i64\<close> counters are \<open>int\<close> with the saturation written out.
  Strings are lists of characters; Unicode case mapping is not modelled.
  Fallible operations return a sum whose left side is the error.  Loops are
  recursive functions, total because a list or a stack of directories shrinks,
  so no fuel is needed; the outbox trim, which loops until a batch comes back
  short, is a partial function that is shown to return.  \<open>run_dispatcher\<close> runs
  over a finite list of ticks.

  Parameters.  What the program calls but does not contain is an argument of
  the definitions that use it: sink implementations and their answers, the
  clock, base64, Ed25519 and JSON decoding (\<open>token_lib\<close>), RFC 3339 rendering and
  time-zone conversion, the registered RPC handler, password hashing and token
  signing, SHA-256, the tarball reader and the JSON text of a string
  (\<open>release_lib\<close>), the free-space probe and the files the system refuses to
  unlink.  Failures of the cold side are part of the environment: which steps of
  a \<open>put\<close> fail and how much of a write survives, which store calls and sends fail.
  Database failures are part of the environment where the code goes on after
  them: in the dispatcher, the update handlers, the logged statements of the
  account handlers and the writes of the reclaim ladder.  An I/O error of the store
  that ends an account request or a retention sweep with an error, or that a
  query of the ladder meets, is not modelled.

  Concurrency.  A tick runs one task per sink; the model interleaves the tasks
  row by row (\<open>tick_rel\<close>), since rows of different sinks share no state but the
  database, whose updates are single statements.  Tasks that panic are not
  modelled.  The caches are behind a mutex, so their operations are atomic.
  A refresh is modelled as its two database phases, so that the race between
  two of them can be stated; a login is one step.  A pass of the replicator, the only task that marks
  rows cold, is modelled without other tasks writing the clip tables inside it.
  The jobs of the cold-read cache are interleaved at their \<open>await\<close> points with
  each other and with arbitrary changes of rows and files by the rest of the
  engine.  A reconciler pass is one step: it is the only task that changes the
  handle map, and supervisors that exit meanwhile are seen by the next pass.
  Update tasks are interleaved freely between their stops (start, download,
  staging, both halves of the privileged command, each poll of the tunnel) with messages,
  ticks, restarts and power losses, the latter also inside the script; between two
  stops a task runs without the others, so handling a message up to its first
  write and finalising an update at boot are one action each.  Unpacking adds a
  layer to the tree of its directory, as \<open>tar\<close> does, and one that is cut short a
  partial layer.

  Not modelled: the media pipeline's GStreamer side, inference backends, the
  tracker and rule geometry (floating point), the remaining HTTP handlers and
  process wiring, OIDC, telemetry, the cloud-drive backends (HTTP clients), the
  upload throttle (floating point; the replicator's requests to it are logged),
  hardware probing, and of the applier script its self-refresh, the unit file,
  the package dependencies and the ssh modes.
\<close>

end
